(* ===== verification/Prelude.thy ===== *)
theory Prelude
  imports Main "HOL-Library.Multiset" "HOL-Library.Word"
begin

text \<open>
  Shared vocabulary of the development: the machine integer types of the C++ sources
  (\<^verbatim>\<open>llvm_mode/include/defs.h\<close>), the theorem collections the component proofs draw on, and
  generic facts on lists, maps and words.  Nothing in this theory models code of its own; the
  one program-level notion is \<open>swap_at\<close>, the \<^verbatim>\<open>std::swap\<close> of two array slots.
\<close>

unbundle bit_operations_syntax

section \<open>Types\<close>

type_synonym u8 = "8 word"
type_synonym u16 = "16 word"
type_synonym u32 = "32 word"
type_synonym u64 = "64 word"

section \<open>Theorem collections\<close>

named_theorems wp \<open>computing the weakest precondition of a computation in the option monad\<close>
named_theorems wp_op \<open>the rules of the operations\<close>

section \<open>Lists\<close>

text \<open>\<^verbatim>\<open>std::swap(data[i], data[j])\<close> on the slots of one array.\<close>

definition swap_at :: "'a list \<Rightarrow> nat \<Rightarrow> nat \<Rightarrow> 'a list" where
  "swap_at xs i j = xs[i := xs ! j, j := xs ! i]"

lemma length_swap_at [simp]: "length (swap_at xs i j) = length xs"
  by (simp add: swap_at_def)

lemma mset_swap_at [simp]:
  "i < length xs \<Longrightarrow> j < length xs \<Longrightarrow> mset (swap_at xs i j) = mset xs"
  by (simp add: swap_at_def mset_swap)

lemma nth_swap_at:
  "i < length xs \<Longrightarrow> j < length xs \<Longrightarrow> k < length xs \<Longrightarrow>
   swap_at xs i j ! k = (if k = i then xs ! j else if k = j then xs ! i else xs ! k)"
  by (auto simp: swap_at_def nth_list_update)

lemma find_SomeD: "find P xs = Some x \<Longrightarrow> x \<in> set xs \<and> P x"
  by (auto simp: find_Some_iff in_set_conv_nth)

lemma swap_at_commute: "swap_at xs i j = swap_at xs j i"
  by (cases "i = j") (simp_all add: swap_at_def list_update_swap)

lemma mset_butlast_swap_last:
  assumes "xs \<noteq> []"
  shows "mset (butlast (xs[0 := last xs])) = mset xs - {#hd xs#}"
proof (cases xs)
  case Nil
  with assms show ?thesis by simp
next
  case (Cons y ys)
  show ?thesis
  proof (cases ys rule: rev_cases)
    case Nil
    with Cons show ?thesis by simp
  next
    case (snoc zs z)
    with Cons show ?thesis by (simp add: butlast_append)
  qed
qed

section \<open>Ordered containers of the C++ library\<close>

text \<open>
  \<^verbatim>\<open>std::set<T>\<close> is its elements in ascending order, \<^verbatim>\<open>std::map<K,V>\<close> its entries in ascending key
  order, since the sources iterate over both.  \<^verbatim>\<open>oset_insert\<close> is \<^verbatim>\<open>insert\<close>, \<^verbatim>\<open>omap_upd\<close> is
  \<^verbatim>\<open>m[k] = v\<close>, \<^verbatim>\<open>omap_new\<close> is \<^verbatim>\<open>insert\<close>, which keeps the entry that is already there.
\<close>

type_synonym 'a oset = "'a list"
type_synonym ('k, 'v) omap = "('k \<times> 'v) list"

abbreviation oset_insert :: "'a::linorder \<Rightarrow> 'a oset \<Rightarrow> 'a oset" where
  "oset_insert \<equiv> insort_insert"

fun omap_upd :: "'k::linorder \<Rightarrow> 'v \<Rightarrow> ('k, 'v) omap \<Rightarrow> ('k, 'v) omap" where
  "omap_upd k v [] = [(k, v)]"
| "omap_upd k v ((k', v') # m) =
     (if k < k' then (k, v) # (k', v') # m
      else if k = k' then (k, v) # m
      else (k', v') # omap_upd k v m)"

definition omap_new :: "'k::linorder \<Rightarrow> 'v \<Rightarrow> ('k, 'v) omap \<Rightarrow> ('k, 'v) omap" where
  "omap_new k v m = (case map_of m k of None \<Rightarrow> omap_upd k v m | Some _ \<Rightarrow> m)"

definition omap_ok :: "('k::linorder, 'v) omap \<Rightarrow> bool" where
  "omap_ok m = (sorted (map fst m) \<and> distinct (map fst m))"

definition oset_ok :: "'a::linorder oset \<Rightarrow> bool" where
  "oset_ok s = (sorted s \<and> distinct s)"

lemma set_fst_omap_upd: "fst ` set (omap_upd k v m) = insert k (fst ` set m)"
  by (induction k v m rule: omap_upd.induct) auto

lemma omap_ok_upd: "omap_ok m \<Longrightarrow> omap_ok (omap_upd k v m)"
proof (induction k v m rule: omap_upd.induct)
  case (2 k v k' v' m)
  have "omap_ok m" using "2.prems" by (simp add: omap_ok_def)
  then show ?case
    using 2 set_fst_omap_upd [of k v m]
    by (auto simp: omap_ok_def simp flip: image_set dest: less_imp_le)
qed (simp add: omap_ok_def)

lemma map_of_omap_upd: "omap_ok m \<Longrightarrow> map_of (omap_upd k v m) = (map_of m)(k \<mapsto> v)"
proof (induction k v m rule: omap_upd.induct)
  case (2 k v k' v' m)
  then show ?case by (auto simp: omap_ok_def fun_eq_iff)
qed simp

lemma omap_ok_new: "omap_ok m \<Longrightarrow> omap_ok (omap_new k v m)"
  by (simp add: omap_new_def omap_ok_upd split: option.split)

lemma map_of_omap_new:
  "omap_ok m \<Longrightarrow> map_of (omap_new k v m) k' =
     (if k' = k \<and> map_of m k = None then Some v else map_of m k')"
  by (simp add: omap_new_def map_of_omap_upd split: option.split)

lemma oset_ok_insert: "oset_ok s \<Longrightarrow> oset_ok (oset_insert x s)"
  by (simp add: oset_ok_def sorted_insort_insert distinct_insort_insert)

lemma oset_eqI: "oset_ok s \<Longrightarrow> oset_ok t \<Longrightarrow> set s = set t \<Longrightarrow> s = t"
  unfolding oset_ok_def by (metis sorted_distinct_set_unique)

lemma omap_ok_Nil [simp]: "omap_ok []"
  by (simp add: omap_ok_def)

lemma oset_ok_Nil [simp]: "oset_ok []"
  by (simp add: oset_ok_def)

lemma omap_ok_unique: "omap_ok m \<Longrightarrow> (k, v) \<in> set m \<longleftrightarrow> map_of m k = Some v"
  by (auto simp: omap_ok_def dest: map_of_SomeD)

section \<open>Printing numbers\<close>

text \<open>\<^verbatim>\<open>out << n\<close> of an integer: decimal, with a minus sign.\<close>

definition digit :: "nat \<Rightarrow> char" where
  "digit d = char_of (48 + d)"

fun show_nat :: "nat \<Rightarrow> string" where
  "show_nat n = (if n < 10 then [digit n] else show_nat (n div 10) @ [digit (n mod 10)])"

declare show_nat.simps [simp del]

definition show_int :: "int \<Rightarrow> string" where
  "show_int i = (if i < 0 then CHR ''-'' # show_nat (nat (- i)) else show_nat (nat i))"

definition nl :: string where "nl = [CHR 0x0A]"
definition dq :: string where "dq = [CHR 0x22]"

fun read_nat :: "nat \<Rightarrow> string \<Rightarrow> nat" where
  "read_nat acc [] = acc"
| "read_nat acc (c # cs) = read_nat (10 * acc + (of_char c - 48)) cs"

lemma read_nat_append: "read_nat acc (xs @ ys) = read_nat (read_nat acc xs) ys"
  by (induction xs arbitrary: acc) auto

lemma digit_chars:
  "char_of (48 :: nat) = CHR ''0''" "char_of (49 :: nat) = CHR ''1''" "char_of (50 :: nat) = CHR ''2''"
  "char_of (51 :: nat) = CHR ''3''" "char_of (52 :: nat) = CHR ''4''" "char_of (53 :: nat) = CHR ''5''"
  "char_of (54 :: nat) = CHR ''6''" "char_of (55 :: nat) = CHR ''7''" "char_of (56 :: nat) = CHR ''8''"
  "char_of (57 :: nat) = CHR ''9''"
  by code_simp+

lemma of_char_digit: "d < 10 \<Longrightarrow> of_char (digit d) = (48 + d :: nat)"
  by (simp add: digit_def)

lemma read_show_nat: "read_nat 0 (show_nat n) = n"
proof (induction n rule: show_nat.induct)
  case (1 n)
  then show ?case
    by (subst show_nat.simps) (auto simp: read_nat_append of_char_digit)
qed

lemma show_nat_inj: "show_nat m = show_nat n \<Longrightarrow> m = n"
  by (metis read_show_nat)

section \<open>Loops that may fail\<close>

text \<open>A range-based \<^verbatim>\<open>for\<close> whose body threads a state and may run into undefined behaviour.\<close>

fun ofold :: "('a \<Rightarrow> 's \<Rightarrow> 's option) \<Rightarrow> 'a list \<Rightarrow> 's \<Rightarrow> 's option" where
  "ofold f [] s = Some s"
| "ofold f (x # xs) s = (case f x s of None \<Rightarrow> None | Some s' \<Rightarrow> ofold f xs s')"

lemma ofold_append: "ofold f (xs @ ys) s = Option.bind (ofold f xs s) (ofold f ys)"
  by (induction xs arbitrary: s) (auto split: option.splits)

lemma ofold_invariant:
  assumes "ofold f xs s = Some t" "P s"
    and "\<And>x s s'. x \<in> set xs \<Longrightarrow> P s \<Longrightarrow> f x s = Some s' \<Longrightarrow> P s'"
  shows "P t"
  using assms
proof (induction xs arbitrary: s)
  case (Cons x xs)
  then obtain s' where s': "f x s = Some s'" "ofold f xs s' = Some t"
    by (auto split: option.splits)
  moreover have "P s'" using Cons.prems s'(1) by auto
  ultimately show ?case using Cons.IH [of s'] Cons.prems(3) by auto
qed simp

lemma ofold_total:
  assumes "P s"
    and "\<And>x s. x \<in> set xs \<Longrightarrow> P s \<Longrightarrow> \<exists>s'. f x s = Some s' \<and> P s'"
  shows "\<exists>t. ofold f xs s = Some t \<and> P t"
  using assms
proof (induction xs arbitrary: s)
  case (Cons x xs)
  then obtain s' where s': "f x s = Some s'" "P s'" by (meson list.set_intros(1))
  with Cons.IH [of s'] Cons.prems(2) show ?case by auto
qed simp

text \<open>Computations that may also end the program, with a message.\<close>

fun and_then :: "('e + 'a) option \<Rightarrow> ('a \<Rightarrow> ('e + 'b) option) \<Rightarrow> ('e + 'b) option" where
  "and_then None f = None"
| "and_then (Some (Inl msg)) f = Some (Inl msg)"
| "and_then (Some (Inr x)) f = f x"

lemma and_then_cong [fundef_cong]:
  "r = r' \<Longrightarrow> (\<And>x. r' = Some (Inr x) \<Longrightarrow> f x = f' x) \<Longrightarrow> and_then r f = and_then r' f'"
  by (cases "(r', f')" rule: and_then.cases) auto

lemma and_then_not_None: "r \<noteq> None \<Longrightarrow> (\<And>x. r = Some (Inr x) \<Longrightarrow> f x \<noteq> None) \<Longrightarrow> and_then r f \<noteq> None"
  by (cases "(r, f)" rule: and_then.cases) auto

lemma and_then_assoc: "and_then (and_then r f) g = and_then r (\<lambda>x. and_then (f x) g)"
  by (cases "(r, f)" rule: and_then.cases) auto

section \<open>Words\<close>

lemma take_bit_self: "take_bit n w = w \<longleftrightarrow> unat w < 2 ^ n" for w :: "'a::len word"
  by (simp add: word_unat_eq_iff unsigned_take_bit_eq take_bit_nat_eq_self_iff)

lemma sint_small: "unat w < 2 ^ 63 \<Longrightarrow> sint w = int (unat w)" for w :: u64
proof -
  assume "unat w < 2 ^ 63"
  then have "int (unat w) < 2 ^ 63" by (metis of_nat_less_iff of_nat_numeral of_nat_power)
  then have "uint w < 2 ^ 63" by simp
  moreover have "- (2 ^ 63) \<le> uint w" by (rule order_trans [OF _ uint_ge_0]) simp
  ultimately have "signed_take_bit 63 (uint w) = uint w" by (intro signed_take_bit_int_eq_self)
  then show ?thesis by (simp add: sint_uint)
qed

lemma sint_minus_small:
  fixes w :: u64
  assumes "unat w < 2 ^ 63"
  shows "sint (- w) = - int (unat w)"
proof -
  have "int (unat w) < 2 ^ 63" using assms by (metis of_nat_less_iff of_nat_numeral of_nat_power)
  then have "- (2 ^ 63) \<le> - int (unat w)" "- int (unat w) < 2 ^ 63" by linarith+
  then show ?thesis unfolding sint_word_minus sint_small [OF assms] by (simp add: signed_take_bit_int_eq_self)
qed

section \<open>Partial correctness of a computation\<close>

definition holds :: "'a option \<Rightarrow> ('a \<Rightarrow> bool) \<Rightarrow> bool" where
  "holds x Q \<longleftrightarrow> (\<forall>y. x = Some y \<longrightarrow> Q y)"

lemma holds_bind [wp]: "holds (Option.bind x f) Q \<longleftrightarrow> holds x (\<lambda>y. holds (f y) Q)"
  by (cases x) (simp_all add: holds_def)

lemma holds_Some [wp]: "holds (Some x) Q \<longleftrightarrow> Q x"
  by (simp add: holds_def)

lemma holds_None [wp]: "holds None Q"
  by (simp add: holds_def)

lemma holds_map [wp]: "holds (map_option f x) Q \<longleftrightarrow> holds x (\<lambda>y. Q (f y))"
  by (cases x) (simp_all add: holds_def)

lemma holds_if [wp]: "holds (if b then x else y) Q \<longleftrightarrow> (b \<longrightarrow> holds x Q) \<and> (\<not> b \<longrightarrow> holds y Q)"
  by simp

lemma holds_prod [wp]: "holds (case p of (a, b) \<Rightarrow> f a b) Q \<longleftrightarrow> (case p of (a, b) \<Rightarrow> holds (f a b) Q)"
  by (cases p) simp

lemma holds_ifI: "(b \<Longrightarrow> holds x Q) \<Longrightarrow> (\<not> b \<Longrightarrow> holds y Q) \<Longrightarrow> holds (if b then x else y) Q"
  by simp

lemma holds_mono: "holds x P \<Longrightarrow> (\<And>y. P y \<Longrightarrow> Q y) \<Longrightarrow> holds x Q"
  by (simp add: holds_def)

lemma holdsD: "holds x Q \<Longrightarrow> x = Some y \<Longrightarrow> Q y"
  by (simp add: holds_def)

section \<open>Words in two halves\<close>

lemma low_half_add:
  fixes k w :: u32
  assumes "unat k < 2 ^ 16"
  shows "take_bit 16 (k + push_bit 16 w) = k"
proof -
  have m: "a mod (2 ^ 32) mod (2 ^ 16) = a mod 2 ^ 16" for a :: nat by (rule mod_mod_cancel) (simp add: le_imp_power_dvd)
  have "unat (take_bit 16 (k + push_bit 16 w)) = (unat k + unat (push_bit 16 w)) mod 2 ^ 32 mod 2 ^ 16"
    by (simp add: unsigned_take_bit_eq take_bit_eq_mod unat_word_ariths)
  also have "\<dots> = (unat k + unat w * 2 ^ 16 mod 2 ^ 32) mod 2 ^ 16"
    unfolding m by (simp add: push_bit_eq_mult unat_word_ariths)
  also have "\<dots> = (unat k + unat w * 2 ^ 16 mod 2 ^ 32 mod 2 ^ 16) mod 2 ^ 16" by (simp only: mod_add_right_eq)
  also have "\<dots> = unat k" unfolding m using assms by simp
  finally show ?thesis by (rule unsigned_word_eqI)
qed

lemma unat_high_half: "k < 65536 \<Longrightarrow> unat (push_bit 16 (of_nat k :: u32)) = k * 65536"
proof -
  assume "k < 65536"
  then have "k * 65536 < 2 ^ 32" by simp
  then show ?thesis by (simp add: push_bit_eq_mult unat_word_ariths unsigned_of_nat take_bit_eq_mod)
qed

lemma distinct_high_half:
  assumes "n \<le> 65536"
  shows "distinct (map (\<lambda>i. (k :: u32) + push_bit 16 (of_nat i)) [0..<n])"
proof -
  have "i = j" if e: "k + push_bit 16 (of_nat i :: u32) = k + push_bit 16 (of_nat j)" and l: "i < n" "j < n" for i j
  proof -
    have "unat (push_bit 16 (of_nat i :: u32)) = unat (push_bit 16 (of_nat j :: u32))" using e by simp
    moreover have "i < 65536" "j < 65536" using l assms by simp_all
    ultimately show ?thesis by (simp only: unat_high_half)
  qed
  then have "inj_on (\<lambda>i. k + push_bit 16 (of_nat i :: u32)) {0..<n}" by (auto intro!: inj_onI)
  then show ?thesis by (simp add: distinct_map)
qed

end
