(* ===== verification/Priority_Queue.thy ===== *)
theory Priority_Queue
  imports Prelude
begin

text \<open>
  The binary heap of \<^verbatim>\<open>tools/llvm-diff-parmesan/DifferenceEngine.cpp\<close>, class
  \<^verbatim>\<open>PriorityQueue\<close>: the queue of unified basic block pairs the difference engine works off.
  The storage vector is a list, \<^verbatim>\<open>Precedes\<close> a parameter of every operation as it is a member of
  the class.  Indices are \<^typ>\<open>nat\<close>: the code's \<^verbatim>\<open>unsigned\<close> indices do not wrap below
  \<open>2 ^ 31\<close> queued pairs.

  Two contracts are proved.  \<open>weak_order\<close> says what \<^verbatim>\<open>Precedes\<close> must satisfy for the heap to be a
  priority queue; under it the operations keep the heap order and the removed element is minimal.
  \<open>worklist\<close> is what the engine relies on even while the ordering changes under the heap (the
  number of unprocessed predecessors of a queued block drops as blocks are unified): each insertion
  adds one element and each removal takes one element away.
\<close>

section \<open>Operations\<close>

definition pq_empty :: "'a list \<Rightarrow> bool" where
  "pq_empty Storage = (Storage = [])"

text \<open>The loop of \<^verbatim>\<open>insert\<close>, from the slot \<open>Index\<close> towards the root.\<close>

function sift_up :: "('a \<Rightarrow> 'a \<Rightarrow> bool) \<Rightarrow> 'a list \<Rightarrow> nat \<Rightarrow> 'a list" where
  "sift_up Precedes data Index =
     (let Target = (Index + 1) div 2 - 1
      in if \<not> Precedes (data ! Index) (data ! Target) then data
         else let data' = swap_at data Index Target
              in if Target = 0 then data' else sift_up Precedes data' Target)"
  by pat_completeness auto
termination
  by (relation "measure (\<lambda>(p, d, i). i)") auto

declare sift_up.simps [simp del]

definition pq_insert :: "('a \<Rightarrow> 'a \<Rightarrow> bool) \<Rightarrow> 'a list \<Rightarrow> 'a \<Rightarrow> 'a list" where
  "pq_insert Precedes Storage V =
     (let Index = length Storage; data = Storage @ [V]
      in if Index = 0 then data else sift_up Precedes data Index)"

text \<open>The loop of \<^verbatim>\<open>remove_min\<close>, from the slot \<open>Index\<close> towards the leaves, over the first
  \<open>NewSize\<close> slots.\<close>

function sift_down :: "('a \<Rightarrow> 'a \<Rightarrow> bool) \<Rightarrow> nat \<Rightarrow> 'a list \<Rightarrow> nat \<Rightarrow> 'a list" where
  "sift_down Precedes NewSize Storage Index =
     (let R = (Index + 1) * 2; L = R - 1
      in if R \<ge> NewSize
         then (if L \<ge> NewSize then Storage
               else if Precedes (Storage ! L) (Storage ! Index)
                    then swap_at Storage L Index else Storage)
         else let IndexToTest = (if Precedes (Storage ! L) (Storage ! R) then L else R)
              in if \<not> Precedes (Storage ! IndexToTest) (Storage ! Index) then Storage
                 else sift_down Precedes NewSize (swap_at Storage IndexToTest Index) IndexToTest)"
  by pat_completeness auto
termination
  by (relation "measure (\<lambda>(p, n, d, i). n - i)") auto

declare sift_down.simps [simp del]

text \<open>\<open>None\<close> is the failed \<^verbatim>\<open>assert(!empty())\<close>.  \<open>pod\<close> is \<^verbatim>\<open>isPodLike<T>::value\<close>: a copy of the
  last slot for plain data, a swap otherwise.\<close>

definition remove_min :: "bool \<Rightarrow> ('a \<Rightarrow> 'a \<Rightarrow> bool) \<Rightarrow> 'a list \<Rightarrow> ('a \<times> 'a list) option" where
  "remove_min pod Precedes Storage =
     (if pq_empty Storage then None
      else let tmp = Storage ! 0; NewSize = length Storage - 1;
               Storage' = (if NewSize \<noteq> 0
                 then sift_down Precedes NewSize
                        (if pod then Storage[0 := Storage ! NewSize]
                         else swap_at Storage 0 NewSize) 0
                 else Storage)
           in Some (tmp, butlast Storage'))"

section \<open>The heap order\<close>

abbreviation pq_parent :: "nat \<Rightarrow> nat" where
  "pq_parent k \<equiv> (k + 1) div 2 - 1"

definition is_heap :: "('a \<Rightarrow> 'a \<Rightarrow> bool) \<Rightarrow> 'a list \<Rightarrow> bool" where
  "is_heap Precedes xs =
     (\<forall>k < length xs. 0 < k \<longrightarrow> \<not> Precedes (xs ! k) (xs ! pq_parent k))"

text \<open>The heap order broken at most between \<open>i\<close> and its parent, or at most between \<open>i\<close> and its
  children (over the first \<open>n\<close> slots).\<close>

definition heap_but_up :: "('a \<Rightarrow> 'a \<Rightarrow> bool) \<Rightarrow> 'a list \<Rightarrow> nat \<Rightarrow> bool" where
  "heap_but_up Precedes xs i =
     ((\<forall>k < length xs. 0 < k \<longrightarrow> k \<noteq> i \<longrightarrow> \<not> Precedes (xs ! k) (xs ! pq_parent k)) \<and>
      (\<forall>k < length xs. 0 < k \<longrightarrow> pq_parent k = i \<longrightarrow> 0 < i \<longrightarrow>
          \<not> Precedes (xs ! k) (xs ! pq_parent i)))"

definition heap_but_down :: "('a \<Rightarrow> 'a \<Rightarrow> bool) \<Rightarrow> nat \<Rightarrow> 'a list \<Rightarrow> nat \<Rightarrow> bool" where
  "heap_but_down Precedes n xs i =
     ((\<forall>k < n. 0 < k \<longrightarrow> pq_parent k \<noteq> i \<longrightarrow> \<not> Precedes (xs ! k) (xs ! pq_parent k)) \<and>
      (\<forall>k < n. 0 < k \<longrightarrow> pq_parent k = i \<longrightarrow> 0 < i \<longrightarrow>
          \<not> Precedes (xs ! k) (xs ! pq_parent i)))"

text \<open>Facts that hold for any \<^verbatim>\<open>Precedes\<close>.\<close>

lemma length_sift_up [simp]: "length (sift_up P xs i) = length xs"
proof (induction P xs i rule: sift_up.induct)
  case (1 P xs i)
  show ?case
    by (subst sift_up.simps) (simp add: Let_def "1.IH")
qed

lemma mset_sift_up: "i < length xs \<Longrightarrow> mset (sift_up P xs i) = mset xs"
proof (induction P xs i rule: sift_up.induct)
  case (1 P xs i)
  then have "(i + 1) div 2 - 1 < length xs" "0 < length xs" by auto
  with 1 show ?case
    by (subst sift_up.simps) (auto simp: Let_def)
qed

lemma length_sift_down [simp]: "length (sift_down P n xs i) = length xs"
proof (induction P n xs i rule: sift_down.induct)
  case (1 P n xs i)
  show ?case
    by (subst sift_down.simps) (auto simp: Let_def "1.IH")
qed

lemma mset_take_sift_down:
  "i < n \<Longrightarrow> n \<le> length xs \<Longrightarrow>
   mset (take n (sift_down P n xs i)) = mset (take n xs) \<and> drop n (sift_down P n xs i) = drop n xs"
proof (induction P n xs i rule: sift_down.induct)
  case (1 P n xs i)
  have sw: "take n (swap_at xs a b) = swap_at (take n xs) a b" "drop n (swap_at xs a b) = drop n xs"
    if "a < n" "b < n" for a b
    using that by (simp_all add: swap_at_def take_update_swap)
  have len: "length (take n xs) = n" using "1.prems" by simp
  show ?case
    using 1 len by (subst (1 2) sift_down.simps) (auto simp: Let_def sw)
qed

text \<open>With the copy or with the swap, the result is the same: sifting looks at the first \<open>NewSize\<close>
  slots only and the last slot is dropped.\<close>

lemma take_sift_down_cong:
  "i < n \<Longrightarrow> n \<le> length xs \<Longrightarrow> n \<le> length ys \<Longrightarrow> take n xs = take n ys \<Longrightarrow>
   take n (sift_down P n xs i) = take n (sift_down P n ys i)"
proof (induction P n xs i arbitrary: ys rule: sift_down.induct)
  case (1 P n xs i)
  have eq: "xs ! k = ys ! k" if "k < n" for k
    using "1.prems" that by (metis nth_take)
  have sw: "take n (swap_at xs a b) = take n (swap_at ys a b)" if "a < n" "b < n" for a b
    using that "1.prems" by (simp add: swap_at_def take_update_swap eq)
  show ?case
  proof (cases "(i + 1) * 2 \<ge> n")
    case True
    with "1.prems" eq sw show ?thesis
      by (subst (1 2) sift_down.simps) (auto simp: Let_def)
  next
    case False
    let ?t = "if P (xs ! ((i + 1) * 2 - 1)) (xs ! ((i + 1) * 2)) then (i + 1) * 2 - 1 else (i + 1) * 2"
    have t: "?t < n" using False by auto
    have "take n (sift_down P n (swap_at xs ?t i) ?t) = take n (sift_down P n (swap_at ys ?t i) ?t)"
      if "P (xs ! ?t) (xs ! i)"
      by (rule "1.IH" [OF refl refl False refl]) (use that t "1.prems" sw in auto)
    with False "1.prems" eq t show ?thesis
      by (subst (1 2) sift_down.simps) (auto simp: Let_def)
  qed
qed

lemma remove_min_pod: "remove_min pod P xs = remove_min True P xs"
proof (cases "pod \<or> length xs \<le> 1")
  case True
  then show ?thesis by (auto simp: remove_min_def Let_def)
next
  case False
  let ?n = "length xs - 1"
  have n: "0 < ?n" "?n < length xs" using False by auto
  have "take ?n (sift_down P ?n (swap_at xs 0 ?n) 0) = take ?n (sift_down P ?n (xs[0 := xs ! ?n]) 0)"
    by (rule take_sift_down_cong) (use n in \<open>auto simp: swap_at_def\<close>)
  with False n show ?thesis
    by (simp add: remove_min_def Let_def butlast_conv_take)
qed

lemma mset_pq_insert: "mset (pq_insert P xs v) = add_mset v (mset xs)"
  by (simp add: pq_insert_def Let_def mset_sift_up)

lemma remove_min_hd: "remove_min pod P xs = Some (x, ys) \<Longrightarrow> xs \<noteq> [] \<and> x = hd xs"
  by (auto simp: remove_min_def pq_empty_def Let_def hd_conv_nth split: if_splits)

lemma remove_min_Some: "xs \<noteq> [] \<Longrightarrow> \<exists>ys. remove_min pod P xs = Some (hd xs, ys)"
  by (simp add: remove_min_def pq_empty_def Let_def hd_conv_nth)

lemma mset_remove_min:
  assumes "remove_min pod P xs = Some (x, ys)"
  shows "mset xs = add_mset x (mset ys)"
proof -
  have r: "remove_min True P xs = Some (x, ys)" using assms by (simp add: remove_min_pod [of pod])
  have ne: "xs \<noteq> []" and x: "x = hd xs" using remove_min_hd [OF r] by auto
  let ?n = "length xs - 1"
  have "mset ys = mset xs - {#hd xs#}"
  proof (cases "?n = 0")
    case True
    then have "length xs = 1" using ne by (cases xs) auto
    then obtain z where "xs = [z]" by (auto simp: length_Suc_conv)
    with r show ?thesis by (simp add: remove_min_def pq_empty_def Let_def)
  next
    case False
    let ?zs = "xs[0 := xs ! ?n]"
    have ys: "ys = take ?n (sift_down P ?n ?zs 0)"
      using r False ne by (simp add: remove_min_def pq_empty_def Let_def butlast_conv_take)
    have "mset ys = mset (take ?n ?zs)"
      unfolding ys using mset_take_sift_down [of 0 ?n ?zs P] False by simp
    also have "take ?n ?zs = butlast (xs[0 := last xs])"
      using ne by (simp add: butlast_conv_take last_conv_nth)
    finally show ?thesis using mset_butlast_swap_last [OF ne] by simp
  qed
  with x ne show ?thesis by simp
qed

section \<open>Contract of the ordering\<close>

text \<open>What \<^verbatim>\<open>Sorter\<close> must be for the container to be a priority queue: a strict weak order.\<close>

locale weak_order =
  fixes Precedes :: "'a \<Rightarrow> 'a \<Rightarrow> bool"
  assumes asym: "Precedes x y \<Longrightarrow> \<not> Precedes y x"
    and neg_trans: "\<not> Precedes x y \<Longrightarrow> \<not> Precedes y z \<Longrightarrow> \<not> Precedes x z"
begin

lemma heap_but_up_swap:
  assumes "heap_but_up Precedes xs i" "i < length xs" "0 < i"
    and "Precedes (xs ! i) (xs ! pq_parent i)"
  shows "heap_but_up Precedes (swap_at xs i (pq_parent i)) (pq_parent i)"
proof -
  let ?p = "pq_parent i"
  have p: "?p < i" using assms(3) by simp
  have ord: "\<And>k. k < length xs \<Longrightarrow> 0 < k \<Longrightarrow> k \<noteq> i \<Longrightarrow> \<not> Precedes (xs ! k) (xs ! pq_parent k)"
    and grand: "\<And>k. k < length xs \<Longrightarrow> 0 < k \<Longrightarrow> pq_parent k = i \<Longrightarrow> \<not> Precedes (xs ! k) (xs ! ?p)"
    using assms by (auto simp: heap_but_up_def)
  have parent: "\<not> Precedes (xs ! ?p) (xs ! pq_parent ?p)" if "0 < ?p"
    using ord [of ?p] that p assms(2) by simp
  have n: "swap_at xs i ?p ! k = (if k = i then xs ! ?p else if k = ?p then xs ! i else xs ! k)"
    if "k < length xs" for k
    using that assms(2) p by (simp add: nth_swap_at)
  show ?thesis
    unfolding heap_but_up_def
  proof (intro conjI allI impI)
    fix k
    assume k: "k < length (swap_at xs i ?p)" "0 < k" "k \<noteq> ?p"
    then have pk: "pq_parent k < length xs" "k < length xs" by auto
    show "\<not> Precedes (swap_at xs i ?p ! k) (swap_at xs i ?p ! pq_parent k)"
    proof (cases "k = i")
      case True
      with n pk p asym [OF assms(4)] show ?thesis by simp
    next
      case False
      then have o: "\<not> Precedes (xs ! k) (xs ! pq_parent k)" using ord k by simp
      consider "pq_parent k = i" | "pq_parent k = ?p" | "pq_parent k \<noteq> i" "pq_parent k \<noteq> ?p" by blast
      then show ?thesis
      proof cases
        case 1
        then show ?thesis using n pk k False grand [of k] by simp
      next
        case 2
        then have "\<not> Precedes (xs ! k) (xs ! i)"
          using o asym [OF assms(4)] neg_trans by metis
        with 2 p show ?thesis using n pk k False by simp
      next
        case 3
        with o show ?thesis using n pk k False by simp
      qed
    qed
  next
    fix k
    assume k: "k < length (swap_at xs i ?p)" "0 < k" "pq_parent k = ?p" "0 < ?p"
    have ppi: "pq_parent ?p < ?p" using k(4) by simp
    then have pp: "swap_at xs i ?p ! pq_parent ?p = xs ! pq_parent ?p"
      using n [of "pq_parent ?p"] p assms(2) by simp
    show "\<not> Precedes (swap_at xs i ?p ! k) (swap_at xs i ?p ! pq_parent ?p)"
    proof (cases "k = i")
      case True
      with parent k show ?thesis using n [of k] pp by simp
    next
      case False
      have "k \<noteq> ?p" using k ppi by auto
      moreover have "\<not> Precedes (xs ! k) (xs ! ?p)" using ord [of k] False k by simp
      then have "\<not> Precedes (xs ! k) (xs ! pq_parent ?p)" using parent [OF k(4)] neg_trans by metis
      ultimately show ?thesis using n [of k] pp k False by simp
    qed
  qed
qed

lemma sift_up_heap:
  "heap_but_up Precedes xs i \<Longrightarrow> i < length xs \<Longrightarrow> 0 < i \<Longrightarrow> is_heap Precedes (sift_up Precedes xs i)"
proof (induction i arbitrary: xs rule: less_induct)
  case (less i)
  let ?p = "pq_parent i"
  have p: "?p < i" using less.prems by simp
  show ?case
  proof (cases "Precedes (xs ! i) (xs ! ?p)")
    case False
    with less.prems have "is_heap Precedes xs" by (auto simp: is_heap_def heap_but_up_def)
    with False show ?thesis by (subst sift_up.simps) (simp add: Let_def)
  next
    case True
    have sw: "heap_but_up Precedes (swap_at xs i ?p) ?p"
      by (rule heap_but_up_swap [OF less.prems True])
    show ?thesis
    proof (cases "?p = 0")
      case True
      from sw True have "is_heap Precedes (swap_at xs i ?p)"
        by (auto simp: is_heap_def heap_but_up_def)
      with True \<open>Precedes (xs ! i) (xs ! ?p)\<close> show ?thesis
        by (subst sift_up.simps) (simp add: Let_def)
    next
      case False
      have "is_heap Precedes (sift_up Precedes (swap_at xs i ?p) ?p)"
        by (rule less.IH [OF p sw]) (use p less.prems False in auto)
      with True False show ?thesis by (subst sift_up.simps) (simp add: Let_def)
    qed
  qed
qed

lemma insert_heap:
  assumes "is_heap Precedes xs"
  shows "is_heap Precedes (pq_insert Precedes xs v)"
proof (cases "xs = []")
  case True
  then show ?thesis by (simp add: pq_insert_def is_heap_def)
next
  case False
  have "heap_but_up Precedes (xs @ [v]) (length xs)"
    using assms by (auto simp: heap_but_up_def is_heap_def nth_append less_Suc_eq dest: asym)
  then show ?thesis
    using False sift_up_heap [of "xs @ [v]" "length xs"] by (simp add: pq_insert_def Let_def)
qed

lemma heap_root_least:
  assumes "is_heap Precedes xs" "k < length xs"
  shows "\<not> Precedes (xs ! k) (xs ! 0)"
  using assms(2)
proof (induction k rule: less_induct)
  case (less k)
  show ?case
  proof (cases "k = 0")
    case True
    then show ?thesis using asym by blast
  next
    case False
    then have "\<not> Precedes (xs ! pq_parent k) (xs ! 0)" using less by simp
    moreover have "\<not> Precedes (xs ! k) (xs ! pq_parent k)"
      using assms(1) less.prems False by (simp add: is_heap_def)
    ultimately show ?thesis using neg_trans by blast
  qed
qed

lemma heap_but_down_swap:
  assumes hb: "heap_but_down Precedes n xs i" and n: "n \<le> length xs"
    and t: "t < n" "0 < t" "pq_parent t = i" and prec: "Precedes (xs ! t) (xs ! i)"
    and least: "\<And>k. k < n \<Longrightarrow> 0 < k \<Longrightarrow> pq_parent k = i \<Longrightarrow> \<not> Precedes (xs ! k) (xs ! t)"
  shows "heap_but_down Precedes n (swap_at xs t i) t"
proof -
  have i: "i < t" using t(2,3) by auto
  have ord: "\<And>k. k < n \<Longrightarrow> 0 < k \<Longrightarrow> pq_parent k \<noteq> i \<Longrightarrow> \<not> Precedes (xs ! k) (xs ! pq_parent k)"
    and grand: "0 < i \<Longrightarrow> \<not> Precedes (xs ! t) (xs ! pq_parent i)"
    using hb t by (auto simp: heap_but_down_def)
  have nth: "swap_at xs t i ! k = (if k = t then xs ! i else if k = i then xs ! t else xs ! k)"
    if "k < n" for k
    using that n t i by (simp add: nth_swap_at)
  show ?thesis
    unfolding heap_but_down_def
  proof (intro conjI allI impI)
    fix k
    assume k: "k < n" "0 < k" "pq_parent k \<noteq> t"
    have pk: "pq_parent k < n" "pq_parent k < k" using k by auto
    consider "k = t" | "k = i" | "k \<noteq> t" "k \<noteq> i" "pq_parent k = i" | "k \<noteq> t" "k \<noteq> i" "pq_parent k \<noteq> i"
      by blast
    then show "\<not> Precedes (swap_at xs t i ! k) (swap_at xs t i ! pq_parent k)"
    proof cases
      case 1
      then show ?thesis using nth [of k] nth [of "pq_parent k"] t i k asym [OF prec] by simp
    next
      case 2
      then show ?thesis using nth [of k] nth [of "pq_parent k"] i k pk grand by simp
    next
      case 3
      then show ?thesis using nth [of k] nth [of "pq_parent k"] i k pk least [of k] by simp
    next
      case 4
      then show ?thesis using nth [of k] nth [of "pq_parent k"] i k pk ord [of k] by simp
    qed
  next
    fix k
    assume k: "k < n" "0 < k" "pq_parent k = t" "0 < t"
    then have "t < k" by auto
    moreover have "\<not> Precedes (xs ! k) (xs ! t)" using ord [of k] k i by simp
    ultimately show "\<not> Precedes (swap_at xs t i ! k) (swap_at xs t i ! pq_parent t)"
      using nth [of k] nth [of i] k t i by simp
  qed
qed

lemma heap_but_down_done:
  assumes "heap_but_down Precedes n xs i" "n \<le> length xs"
    and "\<And>k. k < n \<Longrightarrow> 0 < k \<Longrightarrow> pq_parent k = i \<Longrightarrow> \<not> Precedes (xs ! k) (xs ! i)"
  shows "is_heap Precedes (take n xs)"
  unfolding is_heap_def
proof (intro allI impI)
  fix k
  assume k: "k < length (take n xs)" "0 < k"
  then have "k < n" "pq_parent k < n" by auto
  moreover have "\<not> Precedes (xs ! k) (xs ! pq_parent k)"
    using assms k by (cases "pq_parent k = i") (auto simp: heap_but_down_def)
  ultimately show "\<not> Precedes (take n xs ! k) (take n xs ! pq_parent k)" by simp
qed

lemma sift_down_heap:
  "heap_but_down Precedes n xs i \<Longrightarrow> i < n \<Longrightarrow> n \<le> length xs \<Longrightarrow>
   is_heap Precedes (take n (sift_down Precedes n xs i))"
proof (induction "n - i" arbitrary: xs i rule: less_induct)
  case less
  let ?R = "(i + 1) * 2"
  have kids: "k = 2 * i + 1 \<or> k = 2 * i + 2" if "pq_parent k = i" "0 < k" for k
    using that by presburger
  have irr: "\<not> Precedes x x" for x using asym by blast
  note fin = heap_but_down_done [OF less.prems(1,3)]
  consider "2 * i + 1 \<ge> n" | "2 * i + 1 < n" "2 * i + 2 \<ge> n" | "2 * i + 2 < n" by linarith
  then show ?case
  proof cases
    case 1
    then have "is_heap Precedes (take n xs)" by (intro fin) (use kids in fastforce)
    with 1 show ?thesis by (subst sift_down.simps) (simp add: Let_def)
  next
    case 2
    have only: "k = 2 * i + 1" if "k < n" "0 < k" "pq_parent k = i" for k
      using kids [of k] that 2 by linarith
    show ?thesis
    proof (cases "Precedes (xs ! (2 * i + 1)) (xs ! i)")
      case False
      have "is_heap Precedes (take n xs)"
      proof (rule fin)
        fix k assume "k < n" "0 < k" "pq_parent k = i"
        then have "k = 2 * i + 1" by (rule only)
        with False show "\<not> Precedes (xs ! k) (xs ! i)" by simp
      qed
      with False 2 show ?thesis by (subst sift_down.simps) (simp add: Let_def mult.commute)
    next
      case True
      have "heap_but_down Precedes n (swap_at xs (2 * i + 1) i) (2 * i + 1)"
      proof (rule heap_but_down_swap [OF less.prems(1,3) 2(1) _ _ True])
        fix k assume "k < n" "0 < k" "pq_parent k = i"
        then have "k = 2 * i + 1" by (rule only)
        with irr show "\<not> Precedes (xs ! k) (xs ! (2 * i + 1))" by simp
      qed simp_all
      then have "is_heap Precedes (take n (swap_at xs (2 * i + 1) i))"
        by (rule heap_but_down_done) (use less.prems 2 in auto)
      with True 2 show ?thesis by (subst sift_down.simps) (simp add: Let_def mult.commute)
    qed
  next
    case 3
    define t where "t = (if Precedes (xs ! (2 * i + 1)) (xs ! (2 * i + 2)) then 2 * i + 1 else 2 * i + 2)"
    have t: "t < n" "0 < t" "pq_parent t = i" "i < t" using 3 by (auto simp: t_def)
    have least: "\<not> Precedes (xs ! k) (xs ! t)" if "k < n" "0 < k" "pq_parent k = i" for k
      using kids [OF that(3,2)] irr asym by (auto simp: t_def)
    have step: "sift_down Precedes n xs i =
        (if Precedes (xs ! t) (xs ! i) then sift_down Precedes n (swap_at xs t i) t else xs)"
      using 3 by (subst sift_down.simps) (simp add: Let_def t_def mult.commute [of i 2])
    show ?thesis
    proof (cases "Precedes (xs ! t) (xs ! i)")
      case False
      have "is_heap Precedes (take n xs)"
        by (rule fin) (use least False neg_trans in blast)
      with False step show ?thesis by simp
    next
      case True
      have "is_heap Precedes (take n (sift_down Precedes n (swap_at xs t i) t))"
        by (rule less.hyps) (use t less.prems heap_but_down_swap [OF less.prems(1,3) t(1-3) True] least in auto)
      with True step show ?thesis by simp
    qed
  qed
qed

lemma remove_min_heap:
  assumes hp: "is_heap Precedes xs" and r: "remove_min pod Precedes xs = Some (x, ys)"
  shows "is_heap Precedes ys"
proof (cases "length xs \<le> 1")
  case True
  with r show ?thesis
    by (auto simp: remove_min_def Let_def is_heap_def split: if_splits)
next
  case False
  let ?n = "length xs - 1"
  let ?zs = "xs[0 := xs ! ?n]"
  have n: "0 < ?n" "?n \<le> length ?zs" using False by auto
  have ys: "ys = take ?n (sift_down Precedes ?n ?zs 0)"
    using r False unfolding remove_min_pod [of pod]
    by (auto simp: remove_min_def pq_empty_def Let_def butlast_conv_take split: if_splits)
  have "heap_but_down Precedes ?n ?zs 0"
    using hp by (auto simp: heap_but_down_def is_heap_def nth_list_update)
  then show ?thesis unfolding ys by (rule sift_down_heap) (use n in auto)
qed

lemma remove_min_least:
  assumes "is_heap Precedes xs" "remove_min pod Precedes xs = Some (x, ys)" "y \<in> set xs"
  shows "\<not> Precedes y x"
proof -
  have "x = xs ! 0" "xs \<noteq> []" using remove_min_hd [OF assms(2)] by (auto simp: hd_conv_nth)
  moreover obtain k where "k < length xs" "y = xs ! k" using assms(3) by (auto simp: in_set_conv_nth)
  ultimately show ?thesis using heap_root_least [OF assms(1)] by simp
qed

end

section \<open>Contract of the work list\<close>

locale worklist =
  fixes ins :: "'q \<Rightarrow> 'a \<Rightarrow> 'q"
    and del :: "'q \<Rightarrow> ('a \<times> 'q) option"
    and elems :: "'q \<Rightarrow> 'a multiset"
  assumes elems_ins: "elems (ins q x) = add_mset x (elems q)"
    and del_Some: "del q = Some (x, q') \<Longrightarrow> elems q = add_mset x (elems q')"
    and del_None: "del q = None \<longleftrightarrow> elems q = {#}"
begin

lemma size_del: "del q = Some (x, q') \<Longrightarrow> size (elems q') < size (elems q)"
  by (simp add: del_Some)

lemma del_in: "del q = Some (x, q') \<Longrightarrow> x \<in># elems q"
  by (simp add: del_Some)

lemma ins_del_fresh: "del (ins q x) \<noteq> None"
  by (simp add: del_None elems_ins)

end

text \<open>Whatever the ordering, and even if it changes from call to call, the heap is a work list.\<close>

interpretation heap_list: worklist "pq_insert P" "remove_min pod P'" mset
  for P P' :: "'a \<Rightarrow> 'a \<Rightarrow> bool" and pod
proof unfold_locales
  show "mset (pq_insert P q x) = add_mset x (mset q)" for q :: "'a list" and x
    by (rule mset_pq_insert)
  show "mset q = add_mset x (mset q')" if "remove_min pod P' q = Some (x, q')"
    for q :: "'a list" and x q'
    using that by (rule mset_remove_min)
  show "remove_min pod P' q = None \<longleftrightarrow> mset q = {#}" for q :: "'a list"
    by (simp add: remove_min_def pq_empty_def Let_def)
qed

end
