(* ===== verification/LLVM_IR.thy ===== *)
theory LLVM_IR
  imports Prelude
begin

text \<open>
  The part of LLVM's in-memory IR that the passes and the diff tool read.  LLVM itself is not part
  of the repository: this theory only fixes the data its client code sees through accessors
  (\<^verbatim>\<open>getOpcode\<close>, \<^verbatim>\<open>getOperand\<close>, \<^verbatim>\<open>getSuccessor\<close>, \<^verbatim>\<open>getParent\<close>, \<dots>).
  Objects are identified by an address, a \<open>vid\<close>, because the sources compare \<^verbatim>\<open>Value *\<close> pointers
  and key their maps by them.  Constants and types are uniqued by LLVM within a context, so pointer
  equality on them is structural equality here.
\<close>

section \<open>Values\<close>

type_synonym vid = nat

datatype ty = VoidTy | IntegerTy nat | FloatTy | DoubleTy | PointerTy ty | OtherTy nat

fun isPointerTy :: "ty \<Rightarrow> bool" where
  "isPointerTy (PointerTy _) = True"
| "isPointerTy _ = False"

datatype opcode =
    ICmp | FCmp | Call | PHI | Invoke | Br | IndirectBr | Switch | Unreachable
  | Ret | Resume | Load | Store | GetElementPtr | OtherOp nat

datatype gkind = FunctionG | GlobalVariableG | AliasG | IFuncG

datatype irconst =
    ConstantInt nat int \<comment> \<open>bit width and two's complement value\<close>
  | GlobalValue vid gkind string
  | ConstantExpr opcode nat "irconst list" \<comment> \<open>opcode, predicate, operands\<close>
  | ConstantPointerNull ty
  | UndefValue ty
  | ConstantAggregateZero ty
  | BlockAddress vid vid \<comment> \<open>function and block\<close>
  | ConstantVector "irconst list"
  | ConstantOther nat vid

datatype irvalue =
    Const irconst
  | Inst opcode vid
  | Arg vid
  | Block vid
  | InlineAsm vid
  | OtherValue nat vid

text \<open>\<^verbatim>\<open>getValueID()\<close>: one identifier per concrete class, and per opcode for instructions.\<close>

datatype valueid =
    ConstantIntVal | GlobalVal gkind | ConstantExprVal | ConstantPointerNullVal | UndefValueVal
  | ConstantAggregateZeroVal | BlockAddressVal | ConstantVectorVal | ConstantOtherVal nat
  | InstructionVal opcode | ArgumentVal | BasicBlockVal | InlineAsmVal | OtherVal nat

fun constant_ID :: "irconst \<Rightarrow> valueid" where
  "constant_ID (ConstantInt _ _) = ConstantIntVal"
| "constant_ID (GlobalValue _ k _) = GlobalVal k"
| "constant_ID (ConstantExpr _ _ _) = ConstantExprVal"
| "constant_ID (ConstantPointerNull _) = ConstantPointerNullVal"
| "constant_ID (UndefValue _) = UndefValueVal"
| "constant_ID (ConstantAggregateZero _) = ConstantAggregateZeroVal"
| "constant_ID (BlockAddress _ _) = BlockAddressVal"
| "constant_ID (ConstantVector _) = ConstantVectorVal"
| "constant_ID (ConstantOther k _) = ConstantOtherVal k"

fun value_ID :: "irvalue \<Rightarrow> valueid" where
  "value_ID (Const c) = constant_ID c"
| "value_ID (Inst op _) = InstructionVal op"
| "value_ID (Arg _) = ArgumentVal"
| "value_ID (Block _) = BasicBlockVal"
| "value_ID (InlineAsm _) = InlineAsmVal"
| "value_ID (OtherValue k _) = OtherVal k"

section \<open>Instructions, blocks, functions, modules\<close>

datatype ikind =
    CmpInst bool nat irvalue irvalue \<comment> \<open>floating point?, predicate, operands\<close>
  | CallInst irvalue "irvalue list" \<comment> \<open>called value, arguments\<close>
  | PHINode "(irvalue \<times> vid) list"
  | InvokeInst irvalue "irvalue list" vid vid \<comment> \<open>normal and unwind destination\<close>
  | BranchInst vid
  | CondBranchInst irvalue vid vid \<comment> \<open>condition, successors 0 and 1\<close>
  | IndirectBrInst irvalue "vid list"
  | SwitchInst irvalue vid "(irconst \<times> vid) list" \<comment> \<open>condition, default, cases\<close>
  | UnreachableInst
  | ReturnInst "irvalue list"
  | ResumeInst irvalue
  | LoadInst irvalue
  | StoreInst irvalue irvalue \<comment> \<open>stored value, pointer\<close>
  | OtherInst nat "irvalue list"

record debugloc =
  dl_line :: nat
  dl_col :: nat
  dl_dir :: string
  dl_file :: string
  dl_inlined :: "(nat \<times> string) option"

record inst =
  iaddr :: vid
  iname :: string
  ity :: ty
  ikind :: ikind
  use_empty :: bool
  idebug :: "debugloc option"
  nosanitize :: bool

record block =
  baddr :: vid
  bname :: string
  insts :: "inst list"

record func =
  faddr :: vid
  fname :: string
  fargs :: "(vid \<times> string) list"
  blocks :: "block list"

record llvm_module =
  mod_id :: string
  funcs :: "func list"

fun kind_opcode :: "ikind \<Rightarrow> opcode" where
  "kind_opcode (CmpInst fp _ _ _) = (if fp then FCmp else ICmp)"
| "kind_opcode (CallInst _ _) = Call"
| "kind_opcode (PHINode _) = PHI"
| "kind_opcode (InvokeInst _ _ _ _) = Invoke"
| "kind_opcode (BranchInst _) = Br"
| "kind_opcode (CondBranchInst _ _ _) = Br"
| "kind_opcode (IndirectBrInst _ _) = IndirectBr"
| "kind_opcode (SwitchInst _ _ _) = Switch"
| "kind_opcode UnreachableInst = Unreachable"
| "kind_opcode (ReturnInst _) = Ret"
| "kind_opcode (ResumeInst _) = Resume"
| "kind_opcode (LoadInst _) = Load"
| "kind_opcode (StoreInst _ _) = Store"
| "kind_opcode (OtherInst n _) = OtherOp n"

abbreviation inst_opcode :: "inst \<Rightarrow> opcode" where
  "inst_opcode I \<equiv> kind_opcode (ikind I)"

text \<open>\<^verbatim>\<open>getOperand\<close>: LLVM keeps the callee of a call after its arguments and the operands of a
  branch in reverse order.\<close>

fun kind_operands :: "ikind \<Rightarrow> irvalue list" where
  "kind_operands (CmpInst _ _ a b) = [a, b]"
| "kind_operands (CallInst f as) = as @ [f]"
| "kind_operands (PHINode ps) = map fst ps"
| "kind_operands (InvokeInst f as n u) = as @ [f, Block n, Block u]"
| "kind_operands (BranchInst t) = [Block t]"
| "kind_operands (CondBranchInst c t f) = [c, Block f, Block t]"
| "kind_operands (IndirectBrInst a ds) = a # map Block ds"
| "kind_operands (SwitchInst c d cs) =
     c # Block d # concat (map (\<lambda>(v, b). [Const v, Block b]) cs)"
| "kind_operands UnreachableInst = []"
| "kind_operands (ReturnInst vs) = vs"
| "kind_operands (ResumeInst v) = [v]"
| "kind_operands (LoadInst p) = [p]"
| "kind_operands (StoreInst v p) = [v, p]"
| "kind_operands (OtherInst _ vs) = vs"

abbreviation operands :: "inst \<Rightarrow> irvalue list" where
  "operands I \<equiv> kind_operands (ikind I)"

text \<open>\<^verbatim>\<open>getSuccessor\<close>, in order.\<close>

fun kind_succs :: "ikind \<Rightarrow> vid list" where
  "kind_succs (InvokeInst _ _ n u) = [n, u]"
| "kind_succs (BranchInst t) = [t]"
| "kind_succs (CondBranchInst _ t f) = [t, f]"
| "kind_succs (IndirectBrInst _ ds) = ds"
| "kind_succs (SwitchInst _ d cs) = d # map snd cs"
| "kind_succs _ = []"

abbreviation inst_value :: "inst \<Rightarrow> irvalue" where
  "inst_value I \<equiv> Inst (inst_opcode I) (iaddr I)"

abbreviation func_value :: "func \<Rightarrow> irvalue" where
  "func_value F \<equiv> Const (GlobalValue (faddr F) FunctionG (fname F))"

definition terminator :: "block \<Rightarrow> inst option" where
  "terminator B = (if insts B = [] then None else Some (last (insts B)))"

definition succs :: "block \<Rightarrow> vid list" where
  "succs B = (case terminator B of None \<Rightarrow> [] | Some I \<Rightarrow> kind_succs (ikind I))"

text \<open>\<^verbatim>\<open>pred_begin(Block) .. pred_end(Block)\<close>: one entry per edge.\<close>

definition preds :: "func \<Rightarrow> vid \<Rightarrow> vid list" where
  "preds F b = concat (map (\<lambda>B. map (\<lambda>_. baddr B) (filter (\<lambda>s. s = b) (succs B))) (blocks F))"

definition get_block :: "func \<Rightarrow> vid \<Rightarrow> block option" where
  "get_block F b = find (\<lambda>B. baddr B = b) (blocks F)"

definition get_function :: "llvm_module \<Rightarrow> string \<Rightarrow> func option" where
  "get_function M n = find (\<lambda>F. fname F = n) (funcs M)"

abbreviation is_call :: "inst \<Rightarrow> bool" where
  "is_call I \<equiv> inst_opcode I = Call"

text \<open>\<^verbatim>\<open>getCalledFunction()\<close>: the callee when it is a function itself, null otherwise.\<close>

fun called_function :: "irvalue \<Rightarrow> (vid \<times> string) option" where
  "called_function (Const (GlobalValue a FunctionG n)) = Some (a, n)"
| "called_function _ = None"

lemma get_block_Some: "get_block F b = Some B \<Longrightarrow> B \<in> set (blocks F) \<and> baddr B = b"
  by (auto simp: get_block_def find_Some_iff)

lemma get_block_None: "get_block F b = None \<longleftrightarrow> b \<notin> baddr ` set (blocks F)"
  by (auto simp: get_block_def find_None_iff)

section \<open>Navigation\<close>

definition func_insts :: "func \<Rightarrow> inst list" where
  "func_insts F = concat (map insts (blocks F))"

definition module_insts :: "llvm_module \<Rightarrow> inst list" where
  "module_insts M = concat (map func_insts (funcs M))"

definition get_inst :: "llvm_module \<Rightarrow> vid \<Rightarrow> inst option" where
  "get_inst M a = find (\<lambda>I. iaddr I = a) (module_insts M)"

text \<open>\<^verbatim>\<open>Inst->getParent()\<close>, with the function the block is in.\<close>

definition inst_parent :: "llvm_module \<Rightarrow> vid \<Rightarrow> (func \<times> block) option" where
  "inst_parent M a =
     find (\<lambda>(F, B). a \<in> iaddr ` set (insts B))
       (concat (map (\<lambda>F. map (\<lambda>B. (F, B)) (blocks F)) (funcs M)))"

text \<open>The instructions among \<^verbatim>\<open>V->users()\<close>.\<close>

definition inst_users :: "llvm_module \<Rightarrow> irvalue \<Rightarrow> vid list" where
  "inst_users M v = map iaddr (filter (\<lambda>I. v \<in> set (operands I)) (module_insts M))"

text \<open>The terminators of the predecessors of a block.\<close>

definition pred_terminators :: "func \<Rightarrow> vid \<Rightarrow> vid list" where
  "pred_terminators F b =
     concat (map (\<lambda>p. case get_block F p of None \<Rightarrow> []
                      | Some B \<Rightarrow> (case terminator B of None \<Rightarrow> [] | Some I \<Rightarrow> [iaddr I]))
                 (preds F b))"

text \<open>\<^verbatim>\<open>V->getName()\<close> of a value used inside \<open>F\<close>; empty when it has none.\<close>

definition value_name :: "func \<Rightarrow> irvalue \<Rightarrow> string" where
  "value_name F v =
     (case v of
        Const (GlobalValue _ _ n) \<Rightarrow> n
      | Inst _ a \<Rightarrow> (case find (\<lambda>I. iaddr I = a) (func_insts F) of Some I \<Rightarrow> iname I | None \<Rightarrow> [])
      | Arg a \<Rightarrow> (case map_of (fargs F) a of Some n \<Rightarrow> n | None \<Rightarrow> [])
      | Block b \<Rightarrow> (case get_block F b of Some B \<Rightarrow> bname B | None \<Rightarrow> [])
      | _ \<Rightarrow> [])"

text \<open>\<^verbatim>\<open>getFirstNonPHIOrDbgOrLifetime()\<close>.\<close>

definition str_prefix :: "string \<Rightarrow> string \<Rightarrow> bool" where
  "str_prefix p s = (take (length p) s = p)"

definition dbg_or_lifetime :: "inst \<Rightarrow> bool" where
  "dbg_or_lifetime I =
     (case ikind I of
        CallInst f _ \<Rightarrow>
          (case called_function f of
             Some (_, n) \<Rightarrow> str_prefix ''llvm.dbg.'' n \<or> str_prefix ''llvm.lifetime.'' n
           | None \<Rightarrow> False)
      | _ \<Rightarrow> False)"

definition first_real_inst :: "block \<Rightarrow> inst option" where
  "first_real_inst B = find (\<lambda>I. inst_opcode I \<noteq> PHI \<and> \<not> dbg_or_lifetime I) (insts B)"

section \<open>A small function\<close>

text \<open>Constructors for the sample programs on which the witnesses of the other theories run, and a
  function that increments what its argument points to unless it is zero.\<close>

definition mk_inst :: "vid \<Rightarrow> bool \<Rightarrow> ikind \<Rightarrow> inst" where
  "mk_inst a u k = \<lparr>iaddr = a, iname = [], ity = (if u then VoidTy else IntegerTy 32), ikind = k,
     use_empty = u, idebug = None, nosanitize = False\<rparr>"

definition mk_block :: "vid \<Rightarrow> inst list \<Rightarrow> block" where
  "mk_block a is = \<lparr>baddr = a, bname = [], insts = is\<rparr>"

definition sample_func :: func where
  "sample_func = \<lparr>faddr = 1, fname = ''f'', fargs = [(2, ''p'')], blocks =
     [mk_block 10 [mk_inst 20 False (LoadInst (Arg 2)),
                   mk_inst 21 False (CmpInst False 32 (Inst Load 20) (Const (ConstantInt 32 0))),
                   mk_inst 22 True (CondBranchInst (Inst ICmp 21) 11 12)],
      mk_block 11 [mk_inst 23 True (StoreInst (Inst Load 20) (Arg 2)),
                   mk_inst 24 True (BranchInst 12)],
      mk_block 12 [mk_inst 25 True (ReturnInst [])]]\<rparr>"

text \<open>The same function as another module has it, without the store.\<close>

definition sample_patched :: func where
  "sample_patched = \<lparr>faddr = 101, fname = ''f'', fargs = [(102, ''p'')], blocks =
     [mk_block 110 [mk_inst 120 False (LoadInst (Arg 102)),
                    mk_inst 121 False (CmpInst False 32 (Inst Load 120) (Const (ConstantInt 32 0))),
                    mk_inst 122 True (CondBranchInst (Inst ICmp 121) 111 112)],
      mk_block 111 [mk_inst 124 True (BranchInst 112)],
      mk_block 112 [mk_inst 125 True (ReturnInst [])]]\<rparr>"

definition sample_module :: llvm_module where
  "sample_module = \<lparr>mod_id = ''m'', funcs = [sample_func]\<rparr>"

definition patched_module :: llvm_module where
  "patched_module = \<lparr>mod_id = ''m'', funcs = [sample_patched]\<rparr>"

end
