(* ===== verification/Diff_Log.thy ===== *)
theory Diff_Log
  imports LLVM_IR
begin

text \<open>
  \<^verbatim>\<open>tools/llvm-diff-parmesan/DiffLog.{h,cpp}\<close>: the two builders that collect a log message and an
  instruction diff and hand it to the consumer when they are destroyed, and the calls of the
  \<^verbatim>\<open>Consumer\<close> interface (\<^verbatim>\<open>DiffConsumer.h\<close>).  The methods of that interface return nothing, so
  the difference engine is modelled as producing the sequence of its calls, and a consumer as a
  function of that sequence.
\<close>

section \<open>The consumer interface\<close>

datatype DiffChange = DC_match | DC_left | DC_right

type_synonym DiffRecord = "irvalue option \<times> irvalue option"

datatype event =
    EnterContext irvalue irvalue
  | ExitContext
  | Log string
  | LogF string "irvalue list"
  | LogD "DiffRecord list"

section \<open>LogBuilder\<close>

record LogBuilder =
  lb_consumer :: bool \<comment> \<open>the consumer pointer is not null\<close>
  lb_Format :: string
  lb_Arguments :: "irvalue list"

definition lb_new :: "string \<Rightarrow> LogBuilder" where
  "lb_new fmt = \<lparr>lb_consumer = True, lb_Format = fmt, lb_Arguments = []\<rparr>"

text \<open>The move constructor: the new object and what is left of the old one.\<close>

definition lb_move :: "LogBuilder \<Rightarrow> LogBuilder \<times> LogBuilder" where
  "lb_move L = (\<lparr>lb_consumer = lb_consumer L, lb_Format = lb_Format L, lb_Arguments = lb_Arguments L\<rparr>,
                L\<lparr>lb_consumer := False, lb_Arguments := []\<rparr>)"

definition lb_push :: "LogBuilder \<Rightarrow> irvalue \<Rightarrow> LogBuilder" where
  "lb_push L V = L\<lparr>lb_Arguments := lb_Arguments L @ [V]\<rparr>"

definition lb_destroy :: "LogBuilder \<Rightarrow> event list" where
  "lb_destroy L = (if lb_consumer L then [LogF (lb_Format L) (lb_Arguments L)] else [])"

definition lb_getNumArguments :: "LogBuilder \<Rightarrow> nat" where
  "lb_getNumArguments L = length (lb_Arguments L)"

definition lb_getArgument :: "LogBuilder \<Rightarrow> nat \<Rightarrow> irvalue option" where
  "lb_getArgument L I = (if I < length (lb_Arguments L) then Some (lb_Arguments L ! I) else None)"

text \<open>\<^verbatim>\<open>Engine.logf(text) << a << b\<close>: \<^verbatim>\<open>logf\<close> returns the builder by value, the arguments are
  pushed and the temporaries die at the end of the full expression.\<close>

definition logf :: "string \<Rightarrow> irvalue list \<Rightarrow> event list" where
  "logf text args =
     (let (L, old) = lb_move (lb_new text)
      in lb_destroy old @ lb_destroy (foldl lb_push L args))"

lemma foldl_lb_push:
  "foldl lb_push L args = L\<lparr>lb_Arguments := lb_Arguments L @ args\<rparr>"
  by (induction args arbitrary: L) (simp_all add: lb_push_def)

text \<open>A message is delivered exactly once, with the arguments in the order they were streamed.\<close>

lemma logf_once [simp]: "logf text args = [LogF text args]"
  by (simp add: logf_def lb_move_def lb_new_def lb_destroy_def foldl_lb_push)

section \<open>DiffLogBuilder\<close>

definition addMatch :: "DiffRecord list \<Rightarrow> irvalue \<Rightarrow> irvalue \<Rightarrow> DiffRecord list" where
  "addMatch Diff L R = Diff @ [(Some L, Some R)]"

definition addLeft :: "DiffRecord list \<Rightarrow> irvalue \<Rightarrow> DiffRecord list" where
  "addLeft Diff L = Diff @ [(Some L, None)]"

definition addRight :: "DiffRecord list \<Rightarrow> irvalue \<Rightarrow> DiffRecord list" where
  "addRight Diff R = Diff @ [(None, Some R)]"

definition getLineKind :: "DiffRecord \<Rightarrow> DiffChange" where
  "getLineKind r = (if fst r \<noteq> None then (if snd r \<noteq> None then DC_match else DC_left) else DC_right)"

lemma getLineKind_simps [simp]:
  "getLineKind (Some l, Some r) = DC_match"
  "getLineKind (Some l, None) = DC_left"
  "getLineKind (None, x) = DC_right"
  by (simp_all add: getLineKind_def)

section \<open>Well-formed sequences of calls\<close>

text \<open>The number of values a format string takes; \<open>None\<close> for a string that \<^verbatim>\<open>logf\<close> cannot print.\<close>

fun fmt_args :: "string \<Rightarrow> nat option" where
  "fmt_args [] = Some 0"
| "fmt_args [ch] = (if ch = CHR ''%'' then None else Some 0)"
| "fmt_args (ch # d # fmt) =
     (if ch \<noteq> CHR ''%'' then fmt_args (d # fmt)
      else if d = CHR ''%'' then fmt_args fmt
      else if d = CHR ''l'' \<or> d = CHR ''r'' then map_option Suc (fmt_args fmt)
      else None)"

fun message :: "event \<Rightarrow> bool" where
  "message (Log _) = True"
| "message (LogF fmt args) = (fmt_args fmt = Some (length args))"
| "message (LogD _) = True"
| "message _ = False"

text \<open>Messages inside properly nested contexts.  The first argument says which left values may open
  a context.\<close>

inductive nested :: "(irvalue \<Rightarrow> bool) \<Rightarrow> event list \<Rightarrow> bool" for Q where
  nested_Nil [simp, intro]: "nested Q []"
| nested_message [intro]: "message e \<Longrightarrow> nested Q es \<Longrightarrow> nested Q (e # es)"
| nested_context [intro]: "Q L \<Longrightarrow> nested Q es \<Longrightarrow> nested Q fs \<Longrightarrow>
    nested Q (EnterContext L R # es @ ExitContext # fs)"

lemma nested_append [intro]: "nested Q es \<Longrightarrow> nested Q fs \<Longrightarrow> nested Q (es @ fs)"
  by (induction rule: nested.induct) auto

lemma nested_single: "message e \<Longrightarrow> nested Q [e]"
  by auto

lemma nested_mono: "nested Q es \<Longrightarrow> (\<And>x. Q x \<Longrightarrow> Q' x) \<Longrightarrow> nested Q' es"
  by (induction rule: nested.induct) auto

lemma nested_block: "nested Q es \<Longrightarrow> Q L \<Longrightarrow> nested Q (EnterContext L R # es @ [ExitContext])"
  using nested_context [of Q L es "[]" R] by simp

text \<open>The left values of the contexts opened by a sequence of calls, in order.\<close>

definition opened :: "event list \<Rightarrow> irvalue list" where
  "opened es = concat (map (\<lambda>e. case e of EnterContext L R \<Rightarrow> [L] | _ \<Rightarrow> []) es)"

lemma opened_simps [simp]:
  "opened [] = []"
  "opened (es @ fs) = opened es @ opened fs"
  "opened (EnterContext L R # es) = L # opened es"
  "opened (ExitContext # es) = opened es"
  by (simp_all add: opened_def)

lemma opened_message [simp]: "message e \<Longrightarrow> opened (e # es) = opened es"
  by (cases e) (simp_all add: opened_def)

lemma nested_opened: "nested Q es \<Longrightarrow> \<forall>v \<in> set (opened es). Q v"
  by (induction rule: nested.induct) auto

end
