(* ===== verification/Difference_Engine.thy ===== *)
theory Difference_Engine
  imports Priority_Queue Diff_Log
begin

text \<open>
  \<^verbatim>\<open>tools/llvm-diff-parmesan/DifferenceEngine.cpp\<close>: the structural comparison of two functions and of
  two modules.  The state of the class \<^verbatim>\<open>FunctionDifferenceEngine\<close> is the record \<open>fde\<close>; the calls
  to the consumer are appended to its \<open>trace\<close>.  \<^verbatim>\<open>Blocks\<close> distinguishes an absent key from a key
  with a null pointer, because \<^verbatim>\<open>Blocks[b]\<close> creates the latter and \<^verbatim>\<open>Blocks.count(b)\<close> sees it.
  The flag \<open>asserts\<close> records whether every \<^verbatim>\<open>assert\<close> on the way held (a release build goes on).
\<close>

section \<open>State\<close>

type_synonym bmap = "vid \<rightharpoonup> vid option"

record fde =
  Values :: "vid \<rightharpoonup> vid"
  Blocks :: bmap
  TentativeValues :: "(vid \<times> vid) list"
  Queue :: "(vid \<times> vid) list"
  trace :: "event list"
  asserts :: bool

datatype 'a outcome = Done 'a | Undefined | OutOfFuel

definition fde_init :: fde where
  "fde_init = \<lparr>Values = Map.empty, Blocks = Map.empty, TentativeValues = [], Queue = [], trace = [],
     asserts = True\<rparr>"

definition emit :: "event list \<Rightarrow> fde \<Rightarrow> fde" where
  "emit es st = st\<lparr>trace := trace st @ es\<rparr>"

definition complain :: "bool \<Rightarrow> event list \<Rightarrow> fde \<Rightarrow> fde" where
  "complain Complain es st = (if Complain then emit es st else st)"

section \<open>The queue of unified blocks\<close>

definition getUnprocPredCount :: "func \<Rightarrow> bmap \<Rightarrow> vid \<Rightarrow> nat" where
  "getUnprocPredCount F B b = length (filter (\<lambda>p. B p = None) (preds F b))"

definition QueueSorter :: "func \<Rightarrow> bmap \<Rightarrow> vid \<times> vid \<Rightarrow> vid \<times> vid \<Rightarrow> bool" where
  "QueueSorter F B Old New = (getUnprocPredCount F B (fst Old) < getUnprocPredCount F B (fst New))"

definition tryUnify :: "func \<Rightarrow> vid \<Rightarrow> vid \<Rightarrow> fde \<Rightarrow> bool \<times> fde" where
  "tryUnify F L R st =
     (case Blocks st L of
        Some (Some Ref) \<Rightarrow>
          if Ref = R then (False, st)
          else (True, emit (logf ''successor %l cannot be equivalent to %r; it's already equivalent to %r''
                              [Block L, Block R, Block Ref]) st)
      | _ \<Rightarrow>
          let st1 = st\<lparr>Blocks := (Blocks st)(L \<mapsto> Some R)\<rparr>
          in (False, st1\<lparr>Queue := pq_insert (QueueSorter F (Blocks st1)) (Queue st1) (L, R)\<rparr>))"

section \<open>Equivalence of operands\<close>

text \<open>The side effect of reading \<^verbatim>\<open>Blocks[b]\<close>.\<close>

definition touch :: "bmap \<Rightarrow> vid \<Rightarrow> bmap" where
  "touch B b = (if B b = None then B(b \<mapsto> None) else B)"

text \<open>\<^verbatim>\<open>DifferenceEngine::equivalentAsOperands\<close>, with the optional oracle.\<close>

fun const_name :: "irconst \<Rightarrow> string" where
  "const_name (GlobalValue _ _ n) = n"
| "const_name _ = []"

definition equiv_globals :: "(irconst \<Rightarrow> irconst \<Rightarrow> bool) option \<Rightarrow> irconst \<Rightarrow> irconst \<Rightarrow> bool" where
  "equiv_globals oracle L R =
     (case oracle of Some f \<Rightarrow> f L R | None \<Rightarrow> const_name L = const_name R)"

function equiv_const :: "(irconst \<Rightarrow> irconst \<Rightarrow> bool) \<Rightarrow> irconst \<Rightarrow> irconst \<Rightarrow> bmap \<Rightarrow> bool \<times> bmap"
  and equiv_consts :: "(irconst \<Rightarrow> irconst \<Rightarrow> bool) \<Rightarrow> irconst list \<Rightarrow> irconst list \<Rightarrow> bmap \<Rightarrow> bool \<times> bmap"
where
  "equiv_const G L R B =
     (if L = R then (True, B)
      else if constant_ID L \<noteq> constant_ID R then (False, B)
      else case (L, R) of
          (GlobalValue _ _ _, _) \<Rightarrow> (G L R, B)
        | (ConstantExpr op p os, ConstantExpr op' p' os') \<Rightarrow>
            if op \<noteq> op' then (False, B)
            else if (op = ICmp \<or> op = FCmp) \<and> p \<noteq> p' then (False, B)
            else if length os \<noteq> length os' then (False, B)
            else equiv_consts G os os' B
        | (ConstantPointerNull _, _) \<Rightarrow> (True, B)
        | (UndefValue _, _) \<Rightarrow> (True, B)
        | (ConstantAggregateZero _, _) \<Rightarrow> (True, B)
        | (BlockAddress _ b, BlockAddress _ b') \<Rightarrow> (B b = Some (Some b'), touch B b)
        | (ConstantVector os, ConstantVector os') \<Rightarrow>
            if length os \<noteq> length os' then (False, B) else equiv_consts G os os' B
        | _ \<Rightarrow> (False, B))"
| "equiv_consts G [] ys B = (True, B)"
| "equiv_consts G (x # xs) [] B = (False, B)"
| "equiv_consts G (x # xs) (y # ys) B =
     (case equiv_const G x y B of
        (True, B') \<Rightarrow> equiv_consts G xs ys B'
      | (False, B') \<Rightarrow> (False, B'))"
  by pat_completeness auto
termination
  by (relation "measure (\<lambda>z. case z of Inl (_, L, _, _) \<Rightarrow> size L | Inr (_, xs, _, _) \<Rightarrow> size_list size xs)")
     auto

declare equiv_const.simps [simp del]

text \<open>\<^verbatim>\<open>equivalentAsOperands(Value *, Value *)\<close>.\<close>

fun equiv_value :: "(irconst \<Rightarrow> irconst \<Rightarrow> bool) \<Rightarrow> irvalue \<Rightarrow> irvalue \<Rightarrow> fde \<Rightarrow> bool \<times> fde" where
  "equiv_value G L R st =
     (if value_ID L \<noteq> value_ID R then (False, st)
      else case (L, R) of
          (Const c, Const c') \<Rightarrow>
            (let (b, B') = equiv_const G c c' (Blocks st) in (b, st\<lparr>Blocks := B'\<rparr>))
        | (Inst _ a, Inst _ a') \<Rightarrow>
            (Values st a = Some a' \<or> (a, a') \<in> set (TentativeValues st), st)
        | (Arg a, Arg a') \<Rightarrow> (Values st a = Some a', st)
        | (Block b, Block b') \<Rightarrow>
            (Blocks st b \<noteq> Some (Some b'), st\<lparr>Blocks := touch (Blocks st) b\<rparr>)
        | _ \<Rightarrow> (True, st))"

declare equiv_value.simps [simp del]

text \<open>A loop over operands that stops at the first pair that differs.\<close>

fun first_diff ::
  "(irconst \<Rightarrow> irconst \<Rightarrow> bool) \<Rightarrow> irvalue list \<Rightarrow> irvalue list \<Rightarrow> fde \<Rightarrow> (irvalue \<times> irvalue) option \<times> fde"
where
  "first_diff G (l # ls) (r # rs) st =
     (let (b, st1) = equiv_value G l r st
      in if b then first_diff G ls rs st1 else (Some (l, r), st1))"
| "first_diff G _ _ st = (None, st)"

section \<open>Comparing instructions\<close>

definition diffCallSites ::
  "(irconst \<Rightarrow> irconst \<Rightarrow> bool) \<Rightarrow> bool \<Rightarrow> irvalue \<times> irvalue list \<Rightarrow> irvalue \<times> irvalue list \<Rightarrow> fde \<Rightarrow> bool \<times> fde"
where
  "diffCallSites G Complain L R st =
     (let (b, st1) = equiv_value G (fst L) (fst R) st
      in if \<not> b then (True, complain Complain [Log ''called functions differ''] st1)
         else if length (snd L) \<noteq> length (snd R)
         then (True, complain Complain [Log ''argument counts differ''] st1)
         else case first_diff G (snd L) (snd R) st1 of
                (Some (l, r), st2) \<Rightarrow> (True, complain Complain (logf ''arguments %l and %r differ'' [l, r]) st2)
              | (None, st2) \<Rightarrow> (False, st2))"

text \<open>The part after the opcode-specific checks: the operands one by one.\<close>

definition diff_operands ::
  "(irconst \<Rightarrow> irconst \<Rightarrow> bool) \<Rightarrow> bool \<Rightarrow> irvalue list \<Rightarrow> irvalue list \<Rightarrow> fde \<Rightarrow> bool \<times> fde"
where
  "diff_operands G Complain ls rs st =
     (if length ls \<noteq> length rs
      then (True, complain Complain [Log ''instructions have different operand counts''] st)
      else case first_diff G ls rs st of
             (Some (l, r), st1) \<Rightarrow> (True, complain Complain (logf ''operands %l and %r differ'' [l, r]) st1)
           | (None, st1) \<Rightarrow> (False, st1))"

definition unify_if :: "bool \<Rightarrow> func \<Rightarrow> vid \<Rightarrow> vid \<Rightarrow> fde \<Rightarrow> fde" where
  "unify_if TryUnify F L R st = (if TryUnify then snd (tryUnify F L R st) else st)"

fun unify_dests :: "bool \<Rightarrow> func \<Rightarrow> vid list \<Rightarrow> vid list \<Rightarrow> fde \<Rightarrow> fde" where
  "unify_dests tu F (l # ls) (r # rs) st = unify_dests tu F ls rs (unify_if tu F l r st)"
| "unify_dests tu F _ _ st = st"

text \<open>The table \<^verbatim>\<open>LCases\<close> of the left switch, and the loop over the cases of the right one.\<close>

definition case_table :: "(irconst \<times> vid) list \<Rightarrow> (irconst \<times> vid) list" where
  "case_table cs = foldl (\<lambda>m (v, b). filter (\<lambda>e. fst e \<noteq> v) m @ [(v, b)]) [] cs"

fun switch_cases ::
  "bool \<Rightarrow> bool \<Rightarrow> func \<Rightarrow> (irconst \<times> vid) list \<Rightarrow> (irconst \<times> vid) list \<Rightarrow> bool \<Rightarrow> fde \<Rightarrow>
   (irconst \<times> vid) list \<times> bool \<times> fde"
where
  "switch_cases Complain tu F [] LCases Difference st = (LCases, Difference, st)"
| "switch_cases Complain tu F ((CaseValue, succ) # cs) LCases Difference st =
     (case map_of LCases CaseValue of
        Some LCase \<Rightarrow>
          switch_cases Complain tu F cs (filter (\<lambda>e. fst e \<noteq> CaseValue) LCases) Difference
            (unify_if tu F LCase succ st)
      | None \<Rightarrow>
          switch_cases Complain tu F cs LCases True
            (complain Complain (logf ''right switch has extra case %r'' [Const CaseValue]) st))"

definition diff_switch ::
  "(irconst \<Rightarrow> irconst \<Rightarrow> bool) \<Rightarrow> bool \<Rightarrow> bool \<Rightarrow> func \<Rightarrow> irvalue \<times> vid \<times> (irconst \<times> vid) list \<Rightarrow>
   irvalue \<times> vid \<times> (irconst \<times> vid) list \<Rightarrow> fde \<Rightarrow> bool \<times> fde"
where
  "diff_switch G Complain tu F L R st =
     (case (L, R) of ((lc, ld, lcs), (rc, rd, rcs)) \<Rightarrow>
       (let (b, st1) = equiv_value G lc rc st
        in if \<not> b then (True, complain Complain [Log ''switch conditions differ''] st1)
           else let st2 = unify_if tu F ld rd st1;
                    (LCases, Difference, st3) = switch_cases Complain tu F rcs (case_table lcs) False st2
                in if Difference then (True, st3)
                   else (LCases \<noteq> [],
                         fold (\<lambda>e. complain Complain (logf ''left switch has extra case %l'' [Const (fst e)]))
                              LCases st3)))"

definition diff_inst ::
  "(irconst \<Rightarrow> irconst \<Rightarrow> bool) \<Rightarrow> func \<Rightarrow> bool \<Rightarrow> bool \<Rightarrow> inst \<Rightarrow> inst \<Rightarrow> fde \<Rightarrow> bool \<times> fde"
where
  "diff_inst G F Complain TryUnify L R st =
     (if inst_opcode L \<noteq> inst_opcode R
      then (True, complain Complain [Log ''different instruction types''] st)
      else case (ikind L, ikind R) of
          (CmpInst _ p _ _, CmpInst _ p' _ _) \<Rightarrow>
            if p \<noteq> p' then (True, complain Complain [Log ''different predicates''] st)
            else diff_operands G Complain (operands L) (operands R) st
        | (CallInst f as, CallInst f' as') \<Rightarrow> diffCallSites G Complain (f, as) (f', as') st
        | (PHINode _, _) \<Rightarrow>
            if ity L \<noteq> ity R \<and> (\<not> isPointerTy (ity L) \<or> \<not> isPointerTy (ity R))
            then (True, complain Complain [Log ''different phi types''] st)
            else (False, st)
        | (InvokeInst f as n u, InvokeInst f' as' n' u') \<Rightarrow>
            (case diffCallSites G Complain (f, as) (f', as') st of
               (True, st1) \<Rightarrow> (True, st1)
             | (False, st1) \<Rightarrow> (False, unify_if TryUnify F u u' (unify_if TryUnify F n n' st1)))
        | (BranchInst t, BranchInst t') \<Rightarrow> (False, unify_if TryUnify F t t' st)
        | (CondBranchInst c t f, CondBranchInst c' t' f') \<Rightarrow>
            (case equiv_value G c c' st of
               (False, st1) \<Rightarrow> (True, complain Complain [Log ''branch conditions differ''] st1)
             | (True, st1) \<Rightarrow> (False, unify_if TryUnify F t t' (unify_if TryUnify F f f' st1)))
        | (BranchInst _, CondBranchInst _ _ _) \<Rightarrow>
            (True, complain Complain [Log ''branch conditionality differs''] st)
        | (CondBranchInst _ _ _, BranchInst _) \<Rightarrow>
            (True, complain Complain [Log ''branch conditionality differs''] st)
        | (IndirectBrInst a ds, IndirectBrInst a' ds') \<Rightarrow>
            if length ds \<noteq> length ds'
            then (True, complain Complain [Log ''indirectbr # of destinations differ''] st)
            else (case equiv_value G a a' st of
                    (False, st1) \<Rightarrow> (True, complain Complain [Log ''indirectbr addresses differ''] st1)
                  | (True, st1) \<Rightarrow> (False, unify_dests TryUnify F ds ds' st1))
        | (SwitchInst c d cs, SwitchInst c' d' cs') \<Rightarrow>
            diff_switch G Complain TryUnify F (c, d, cs) (c', d', cs') st
        | (UnreachableInst, _) \<Rightarrow> (False, st)
        | _ \<Rightarrow> diff_operands G Complain (operands L) (operands R) st)"

definition unify :: "(irconst \<Rightarrow> irconst \<Rightarrow> bool) \<Rightarrow> func \<Rightarrow> inst \<Rightarrow> inst \<Rightarrow> fde \<Rightarrow> fde" where
  "unify G F L R st =
     (let (Result, st1) = diff_inst G F True True L R (emit [EnterContext (inst_value L) (inst_value R)] st);
          st2 = st1\<lparr>asserts := asserts st1 \<and> \<not> Result\<rparr>;
          st3 = (if use_empty L then st2 else st2\<lparr>Values := (Values st2)(iaddr L \<mapsto> iaddr R)\<rparr>)
      in emit [ExitContext] st3)"

section \<open>How a step changes the engine\<close>

text \<open>Blocks that have a partner.\<close>

definition mapped :: "fde \<Rightarrow> vid set" where
  "mapped st = {l. \<exists>r. Blocks st l = Some (Some r)}"

fun is_inst :: "irvalue \<Rightarrow> bool" where
  "is_inst (Inst _ _) = True"
| "is_inst _ = False"

text \<open>\<open>evolves T st st'\<close>: what every operation below a pair of blocks guarantees.  The calls it adds are
  messages inside nested instruction contexts; a partner, once chosen, stays; and the queue gains
  exactly the pairs of blocks that got a partner, each once, all from \<open>T\<close>.\<close>

definition enqueued :: "vid set \<Rightarrow> fde \<Rightarrow> fde \<Rightarrow> (vid \<times> vid) list \<Rightarrow> bool" where
  "enqueued T st st' news \<longleftrightarrow>
     mset (Queue st') = mset (Queue st) + mset news \<and> distinct (map fst news) \<and>
     fst ` set news \<subseteq> T \<and> fst ` set news \<inter> mapped st = {} \<and>
     (\<forall>(l, r) \<in> set news. Blocks st' l = Some (Some r)) \<and>
     mapped st' = mapped st \<union> fst ` set news"

definition kept :: "fde \<Rightarrow> fde \<Rightarrow> bool" where
  "kept st st' \<longleftrightarrow> (\<forall>l r. Blocks st l = Some (Some r) \<longrightarrow> Blocks st' l = Some (Some r))"

definition calls :: "fde \<Rightarrow> fde \<Rightarrow> bool" where
  "calls st st' \<longleftrightarrow> (\<exists>es. trace st' = trace st @ es \<and> nested is_inst es)"

definition evolves :: "vid set \<Rightarrow> fde \<Rightarrow> fde \<Rightarrow> bool" where
  "evolves T st st' \<longleftrightarrow> calls st st' \<and> kept st st' \<and> (\<exists>news. enqueued T st st' news)"

lemma kept_refl [simp]: "kept st st" by (simp add: kept_def)

lemma kept_trans: "kept a b \<Longrightarrow> kept b c \<Longrightarrow> kept a c" by (simp add: kept_def)

lemma calls_trans: "calls a b \<Longrightarrow> calls b c \<Longrightarrow> calls a c"
  unfolding calls_def by (metis append_assoc nested_append)

lemma enqueued_trans:
  assumes ab: "enqueued T a b xs" and bc: "enqueued T b c ys" and k: "kept b c"
  shows "enqueued T a c (xs @ ys)"
proof -
  have "mset (Queue c) = mset (Queue a) + mset (xs @ ys)" using ab bc by (simp add: enqueued_def)
  moreover have "fst ` set xs \<inter> fst ` set ys = {}" using ab bc by (auto simp: enqueued_def)
  then have "distinct (map fst (xs @ ys))" using ab bc by (auto simp: enqueued_def)
  moreover have "\<forall>(l, r) \<in> set (xs @ ys). Blocks c l = Some (Some r)"
    using ab bc k by (auto simp: enqueued_def kept_def)
  moreover have "mapped c = mapped a \<union> fst ` set (xs @ ys)" using ab bc by (auto simp: enqueued_def)
  moreover have "fst ` set (xs @ ys) \<subseteq> T" "fst ` set (xs @ ys) \<inter> mapped a = {}"
    using ab bc by (auto simp: enqueued_def)
  ultimately show ?thesis by (simp add: enqueued_def)
qed

lemma evolves_trans [trans]: "evolves T a b \<Longrightarrow> evolves T b c \<Longrightarrow> evolves T a c"
  unfolding evolves_def using calls_trans kept_trans enqueued_trans by blast

text \<open>A step that touches neither the queue nor the partners.\<close>

lemma evolves_same:
  assumes "Queue st' = Queue st" "kept st st'" "mapped st' = mapped st" "calls st st'"
  shows "evolves T st st'"
proof -
  have "enqueued T st st' []" using assms by (simp add: enqueued_def)
  with assms show ?thesis unfolding evolves_def by blast
qed

lemma evolves_upd [simp, intro]:
  "evolves T st st"
  "evolves T st (st\<lparr>Values := v\<rparr>)"
  "evolves T st (st\<lparr>TentativeValues := t\<rparr>)"
  "evolves T st (st\<lparr>asserts := a\<rparr>)"
  by (intro evolves_same; simp add: kept_def mapped_def calls_def)+

lemma evolves_touch [simp, intro]: "evolves T st (st\<lparr>Blocks := touch (Blocks st) b\<rparr>)"
  by (rule evolves_same) (auto simp: kept_def mapped_def calls_def touch_def)

lemma evolves_emit: "nested is_inst es \<Longrightarrow> evolves T st (emit es st)"
  by (rule evolves_same) (auto simp: kept_def mapped_def calls_def emit_def)

lemma evolves_complain: "nested is_inst es \<Longrightarrow> evolves T st (complain c es st)"
  by (auto simp: complain_def intro: evolves_emit)

lemma evolves_tryUnify:
  assumes "L \<in> T"
  shows "evolves T st (snd (tryUnify F L R st))"
proof (cases "L \<in> mapped st")
  case True
  then obtain Ref where r: "Blocks st L = Some (Some Ref)" by (auto simp: mapped_def)
  show ?thesis
  proof (cases "Ref = R")
    case False
    then show ?thesis using r by (auto simp: tryUnify_def intro!: evolves_emit nested_message)
  qed (simp add: r tryUnify_def)
next
  case False
  let ?B = "(Blocks st)(L \<mapsto> Some R)"
  have eq: "snd (tryUnify F L R st) = st\<lparr>Blocks := ?B, Queue := pq_insert (QueueSorter F ?B) (Queue st) (L, R)\<rparr>"
    using False by (auto simp: tryUnify_def mapped_def Let_def split: option.splits)
  have "enqueued T st (snd (tryUnify F L R st)) [(L, R)]"
    unfolding eq using False assms by (auto simp: enqueued_def mset_pq_insert mapped_def)
  moreover have "kept st (snd (tryUnify F L R st))"
    unfolding eq using False by (auto simp: kept_def mapped_def)
  ultimately show ?thesis unfolding evolves_def eq by (auto simp: calls_def)
qed

lemma evolves_unify_if: "L \<in> T \<Longrightarrow> evolves T st (unify_if tu F L R st)"
  by (simp add: unify_if_def evolves_tryUnify)

text \<open>Comparing constants only adds null entries to \<^verbatim>\<open>Blocks\<close>.\<close>

definition touched :: "bmap \<Rightarrow> bmap \<Rightarrow> bool" where
  "touched B B' \<longleftrightarrow> (\<forall>l. B' l = B l \<or> B l = None \<and> B' l = Some None)"

lemma touched_refl [simp]: "touched B B" by (simp add: touched_def)

lemma touched_trans: "touched A B \<Longrightarrow> touched B C \<Longrightarrow> touched A C"
  unfolding touched_def by (metis option.distinct(1))

lemma touched_touch [simp]: "touched B (touch B b)" by (simp add: touched_def touch_def)

lemma touched_evolves: "touched (Blocks st) B \<Longrightarrow> evolves T st (st\<lparr>Blocks := B\<rparr>)"
proof (rule evolves_same)
  assume t: "touched (Blocks st) B"
  have "B l = Some (Some r) \<longleftrightarrow> Blocks st l = Some (Some r)" for l r
    using t [unfolded touched_def, rule_format, of l] by auto
  then show "mapped (st\<lparr>Blocks := B\<rparr>) = mapped st" "kept st (st\<lparr>Blocks := B\<rparr>)"
    by (simp_all add: mapped_def kept_def)
qed (simp_all add: calls_def)

lemma equiv_const_touched:
  shows "touched B (snd (equiv_const G L R B))"
    and "touched B (snd (equiv_consts G Ls Rs B))"
proof (induction G L R B and G Ls Rs B rule: equiv_const_equiv_consts.induct)
  case (1 G L R B)
  then show ?case
    by (subst equiv_const.simps) (auto split: irconst.split)
next
  case (4 G x xs y ys B)
  then show ?case
    by (auto split: prod.split bool.split intro: touched_trans)
qed simp_all

lemma equiv_const_touchedD: "equiv_const G L R B = (b, B') \<Longrightarrow> touched B B'"
  using equiv_const_touched(1) [of B G L R] by simp

lemma evolves_equiv_value: "evolves T st (snd (equiv_value G L R st))"
  by (subst equiv_value.simps)
     (auto split: irvalue.split prod.split intro!: touched_evolves dest: equiv_const_touchedD)

lemma evolves_equiv_valueD: "equiv_value G L R st = (b, st') \<Longrightarrow> evolves T st st'"
  using evolves_equiv_value [of T st G L R] by simp

lemma evolves_first_diff: "evolves T st (snd (first_diff G ls rs st))"
proof (induction G ls rs st rule: first_diff.induct)
  case (1 G l ls r rs st)
  then show ?case
    using evolves_equiv_value [of T st G l r]
    by (auto split: prod.split intro: evolves_trans)
qed simp_all

lemma evolves_first_diffD: "first_diff G ls rs st = (d, st') \<Longrightarrow> evolves T st st'"
  using evolves_first_diff [of T st G ls rs] by simp

lemma evolves_then: "evolves T a b \<Longrightarrow> nested is_inst es \<Longrightarrow> evolves T a (complain c es b)"
  by (rule evolves_trans [OF _ evolves_complain])

lemma evolves_diffCallSites: "evolves T st (snd (diffCallSites G c L R st))"
  by (auto simp: diffCallSites_def split: prod.split option.split
      intro!: evolves_then nested_message intro: evolves_trans
      dest!: evolves_equiv_valueD [of _ _ _ _ _ _ T] evolves_first_diffD [of _ _ _ _ _ _ T])

lemma evolves_diffCallSitesD: "diffCallSites G c L R st = (d, st') \<Longrightarrow> evolves T st st'"
  using evolves_diffCallSites [of T st G c L R] by simp

lemma evolves_diff_operands: "evolves T st (snd (diff_operands G c ls rs st))"
  by (auto simp: diff_operands_def split: prod.split option.split
      intro!: evolves_then nested_message dest!: evolves_first_diffD [of _ _ _ _ _ _ T])

lemma evolves_unify_dests: "set ls \<subseteq> T \<Longrightarrow> evolves T st (unify_dests tu F ls rs st)"
proof (induction tu F ls rs st rule: unify_dests.induct)
  case (1 tu F l ls r rs st)
  then show ?case using evolves_unify_if [of l T st tu F r] evolves_trans by fastforce
qed simp_all

lemma set_case_table_aux:
  "snd ` set (foldl (\<lambda>m (v, b). filter (\<lambda>e. fst e \<noteq> v) m @ [(v, b)]) m cs) \<subseteq> snd ` set m \<union> snd ` set cs"
proof (induction cs arbitrary: m)
  case (Cons e cs)
  obtain v b where e: "e = (v, b)" by fastforce
  have "snd ` set (filter (\<lambda>x. fst x \<noteq> v) m @ [(v, b)]) \<subseteq> snd ` set m \<union> {b}" by auto
  then show ?case using Cons.IH [of "filter (\<lambda>x. fst x \<noteq> v) m @ [(v, b)]"] by (auto simp: e)
qed simp

lemma set_case_table: "snd ` set (case_table cs) \<subseteq> snd ` set cs"
  using set_case_table_aux [of "[]" cs] by (simp add: case_table_def)

lemma evolves_switch_cases:
  "switch_cases c tu F cs LCases d st = (m, d', st') \<Longrightarrow> snd ` set LCases \<subseteq> T \<Longrightarrow> evolves T st st'"
proof (induction c tu F cs LCases d st rule: switch_cases.induct)
  case (2 c tu F v s cs LCases d st)
  show ?case
  proof (cases "map_of LCases v")
    case None
    then have "evolves T (complain c (logf ''right switch has extra case %r'' [Const v]) st) st'"
      using 2 by auto
    then show ?thesis
      by (rule evolves_trans [OF evolves_complain, rotated]) (simp add: nested_single)
  next
    case (Some l)
    then have "l \<in> T" using 2 by (force dest: map_of_SomeD)
    moreover have "snd ` set (filter (\<lambda>e. fst e \<noteq> v) LCases) \<subseteq> T" using 2 by auto
    then have "evolves T (unify_if tu F l s st) st'" using Some 2 by auto
    ultimately show ?thesis using evolves_unify_if evolves_trans by blast
  qed
qed simp

lemma evolves_fold_complain:
  "(\<And>e. nested is_inst (f e)) \<Longrightarrow> evolves T st (fold (\<lambda>e. complain c (f e)) es st)"
proof (induction es arbitrary: st)
  case (Cons e es)
  then show ?case using evolves_complain evolves_trans by fastforce
qed simp

lemma evolves_diff_switch:
  assumes "ld \<in> T" "snd ` set lcs \<subseteq> T"
  shows "evolves T st (snd (diff_switch G c tu F (lc, ld, lcs) (rc, rd, rcs) st))"
proof -
  obtain b st1 where 1: "equiv_value G lc rc st = (b, st1)" by fastforce
  let ?st2 = "unify_if tu F ld rd st1"
  obtain m d st3 where 3: "switch_cases c tu F rcs (case_table lcs) False ?st2 = (m, d, st3)"
    by (metis prod_cases3)
  have e1: "evolves T st st1" using 1 by (rule evolves_equiv_valueD)
  have "evolves T st1 ?st2" using assms by (simp add: evolves_unify_if)
  moreover have "evolves T ?st2 st3" using evolves_switch_cases [OF 3] set_case_table assms by blast
  ultimately have e3: "evolves T st st3" using e1 evolves_trans by blast
  then have "evolves T st (fold (\<lambda>e. complain c (logf ''left switch has extra case %l'' [Const (fst e)])) m st3)"
    by (rule evolves_trans) (rule evolves_fold_complain, simp add: nested_single)
  with 1 3 e1 e3 show ?thesis
    by (auto simp: diff_switch_def intro!: evolves_then nested_message)
qed

lemma evolves_diff_inst:
  assumes "set (kind_succs (ikind L)) \<subseteq> T"
  shows "evolves T st (snd (diff_inst G F c tu L R st))"
proof (cases "inst_opcode L = inst_opcode R")
  case True
  note u = evolves_trans [OF _ evolves_unify_if [of _ T]]
  show ?thesis
  proof (cases "ikind L")
    case (CallInst f as)
    then show ?thesis using True by (cases "ikind R")
      (auto simp: diff_inst_def evolves_diffCallSites evolves_diff_operands)
  next
    case (InvokeInst f as n v)
    then show ?thesis using True assms by (cases "ikind R")
      (auto simp: diff_inst_def evolves_diff_operands split: prod.split bool.split
        intro!: u dest: evolves_diffCallSitesD [of _ _ _ _ _ _ _ T] intro: u)
  next
    case (BranchInst t)
    then show ?thesis using True assms by (cases "ikind R")
      (auto simp: diff_inst_def evolves_diff_operands intro!: evolves_unify_if evolves_complain nested_message)
  next
    case (CondBranchInst q t f)
    then show ?thesis using True assms by (cases "ikind R")
      (auto simp: diff_inst_def evolves_diff_operands split: prod.split bool.split
        intro!: evolves_then nested_message u evolves_complain dest: evolves_equiv_valueD [of _ _ _ _ _ _ T])
  next
    case (IndirectBrInst a ds)
    then show ?thesis using True assms by (cases "ikind R")
      (auto simp: diff_inst_def evolves_diff_operands split: prod.split bool.split
        intro!: evolves_then nested_message evolves_complain evolves_trans [OF _ evolves_unify_dests]
        dest: evolves_equiv_valueD [of _ _ _ _ _ _ T])
  next
    case (SwitchInst q d cs)
    then show ?thesis using True assms by (cases "ikind R")
      (auto simp: diff_inst_def evolves_diff_operands intro!: evolves_diff_switch)
  qed (use True in \<open>cases "ikind R"; auto simp: diff_inst_def evolves_diff_operands
         intro!: evolves_complain nested_message\<close>)+
qed (auto simp: diff_inst_def intro!: evolves_complain nested_message)

lemma evolves_diff_instD:
  "diff_inst G F c tu L R st = (d, st') \<Longrightarrow> set (kind_succs (ikind L)) \<subseteq> T \<Longrightarrow> evolves T st st'"
  using evolves_diff_inst [of L T st G F c tu R] by simp

text \<open>The comparison inside the context of the two instructions.\<close>

lemma calls_context:
  assumes "calls (emit [EnterContext L R] a) b" "is_inst L"
  shows "calls a (emit [ExitContext] b)"
proof -
  obtain es where es: "trace b = trace a @ [EnterContext L R] @ es" "nested is_inst es"
    using assms(1) by (auto simp: calls_def emit_def)
  then show ?thesis using nested_block [OF es(2) assms(2)] by (auto simp: calls_def emit_def)
qed

lemma evolves_context:
  assumes "evolves T (emit [EnterContext L R] a) b" "is_inst L"
  shows "evolves T a (emit [ExitContext] b)"
proof -
  have "enqueued T a (emit [ExitContext] b) news = enqueued T (emit [EnterContext L R] a) b news" for news
    by (simp add: enqueued_def emit_def mapped_def)
  moreover have "kept a (emit [ExitContext] b) = kept (emit [EnterContext L R] a) b"
    by (simp add: kept_def emit_def)
  ultimately show ?thesis using assms by (auto simp: evolves_def intro: calls_context)
qed

lemma evolves_unify:
  assumes "set (kind_succs (ikind L)) \<subseteq> T"
  shows "evolves T st (unify G F L R st)"
proof -
  obtain d st1 where d: "diff_inst G F True True L R (emit [EnterContext (inst_value L) (inst_value R)] st) = (d, st1)"
    by fastforce
  let ?st2 = "st1\<lparr>asserts := asserts st1 \<and> \<not> d\<rparr>"
  have "evolves T (emit [EnterContext (inst_value L) (inst_value R)] st) st1"
    using evolves_diff_instD [OF d assms] .
  then have "evolves T (emit [EnterContext (inst_value L) (inst_value R)] st)
      (if use_empty L then ?st2 else ?st2\<lparr>Values := (Values ?st2)(iaddr L \<mapsto> iaddr R)\<rparr>)"
    by (auto intro!: evolves_trans [OF _ evolves_upd(2)] evolves_trans [OF _ evolves_upd(4)])
  then show ?thesis
    unfolding unify_def d Let_def prod.case by (rule evolves_context) simp
qed

section \<open>Properties\<close>

interpretation qs: weak_order "QueueSorter F B"
  by unfold_locales (auto simp: QueueSorter_def)

text \<open>For a fixed set of blocks with a partner, the queue hands out a pair whose left block has the
  fewest unprocessed predecessors, keeps all other pairs and stays a heap.\<close>

theorem queue_min:
  assumes "is_heap (QueueSorter F B) q" "remove_min pod (QueueSorter F B) q = Some (x, q')"
  shows "is_heap (QueueSorter F B) q' \<and> mset q = add_mset x (mset q') \<and>
    list_all (\<lambda>y. getUnprocPredCount F B (fst x) \<le> getUnprocPredCount F B (fst y)) q"
  using qs.remove_min_heap [OF assms] qs.remove_min_least [OF assms] heap_list.del_Some [OF assms(2)]
  by (auto simp: list_all_iff QueueSorter_def not_less)

text \<open>A function in which block 1 has one predecessor and both edges to block 2 come from block 3, and the
  engine after blocks 1 and 2 got their partners.\<close>

definition stale_func :: func where
  "stale_func = \<lparr>faddr = 100, fname = ''g'', fargs = [], blocks =
     [mk_block 1 [mk_inst 11 True (ReturnInst [])], mk_block 2 [mk_inst 12 True (ReturnInst [])],
      mk_block 3 [mk_inst 13 True (CondBranchInst (Arg 9) 2 2)], mk_block 4 [mk_inst 14 True (BranchInst 1)],
      mk_block 5 [mk_inst 15 True (CondBranchInst (Arg 9) 3 3)]]\<rparr>"

definition stale_state :: fde where
  "stale_state = snd (tryUnify stale_func 2 22 (snd (tryUnify stale_func 1 21 fde_init)))"

lemma stale_heap:
  "is_heap (QueueSorter stale_func (Blocks stale_state)) (Queue stale_state)"
  "remove_min True (QueueSorter stale_func (Blocks stale_state)) (Queue stale_state) = Some ((1, 21), [(2, 22)])"
  by code_simp+

theorem queue_min_witness:
  "is_heap (QueueSorter stale_func (Blocks stale_state)) [(2, 22)] \<and>
   mset (Queue stale_state) = add_mset (1, 21) (mset [(2, 22)]) \<and>
   list_all (\<lambda>y. getUnprocPredCount stale_func (Blocks stale_state) (fst (1 :: vid, 21 :: vid))
      \<le> getUnprocPredCount stale_func (Blocks stale_state) (fst y)) (Queue stale_state)"
  by (rule queue_min [OF stale_heap])

text \<open>The order of the queue is not kept when a block gets its partner: the new partner lowers the number
  of unprocessed predecessors of its successors, but the pairs already in the queue are not moved.
  Here block 2 has no unprocessed predecessor left and block 1 has one, yet block 1 is next.\<close>

theorem queue_order_lost:
  "is_heap (QueueSorter stale_func (Blocks stale_state)) (Queue stale_state) \<and>
   Queue (snd (tryUnify stale_func 3 23 stale_state)) ! 0 = (1, 21) \<and>
   getUnprocPredCount stale_func (Blocks (snd (tryUnify stale_func 3 23 stale_state))) 1 = 1 \<and>
   getUnprocPredCount stale_func (Blocks (snd (tryUnify stale_func 3 23 stale_state))) 2 = 0"
  by code_simp

end
