(* ===== verification/Block_Diff.thy ===== *)
theory Block_Diff
  imports Difference_Engine
begin

text \<open>
  \<^verbatim>\<open>DifferenceEngine.cpp\<close>, second part: the comparison of two blocks.  \<open>diff_block\<close> first walks the
  two instruction lists in lock step; at the first difference \<open>runBlockDiff\<close> computes an alignment
  by dynamic programming, one row of \<open>DiffEntry\<close> values per right instruction.  What would read past
  the end of a container is the outcome \<open>Undefined\<close>.
\<close>

section \<open>The two lists in lock step\<close>

fun diff_prefix ::
  "(irconst \<Rightarrow> irconst \<Rightarrow> bool) \<Rightarrow> func \<Rightarrow> inst list \<Rightarrow> inst list \<Rightarrow> fde \<Rightarrow> (bool \<times> fde) outcome"
where
  "diff_prefix G F (l # ls) (r # rs) st =
     (let (d, st1) = diff_inst G F False False l r st
      in if d then Done (True, st1)
         else let st2 = (if use_empty l then st1
                         else st1\<lparr>TentativeValues := (iaddr l, iaddr r) # TentativeValues st1\<rparr>)
              in if ls = [] then Done (False, st2) else diff_prefix G F ls rs st2)"
| "diff_prefix G F _ _ st = Undefined"

fun unify_all ::
  "(irconst \<Rightarrow> irconst \<Rightarrow> bool) \<Rightarrow> func \<Rightarrow> inst list \<Rightarrow> inst list \<Rightarrow> fde \<Rightarrow> fde outcome"
where
  "unify_all G F [] rs st = Done st"
| "unify_all G F (l # ls) [] st = Undefined"
| "unify_all G F (l # ls) (r # rs) st = unify_all G F ls rs (unify G F l r st)"

section \<open>The alignment\<close>

type_synonym DiffEntry = "nat \<times> DiffChange list"

definition push :: "nat \<Rightarrow> DiffChange \<Rightarrow> DiffEntry \<Rightarrow> DiffEntry" where
  "push cost c e = (fst e + cost, snd e @ [c])"

definition matchForBlockDiff ::
  "(irconst \<Rightarrow> irconst \<Rightarrow> bool) \<Rightarrow> func \<Rightarrow> inst \<Rightarrow> inst \<Rightarrow> fde \<Rightarrow> bool \<times> fde"
where
  "matchForBlockDiff G F l r st = (let (d, st1) = diff_inst G F False False l r st in (\<not> d, st1))"

text \<open>\<open>Cur\<close> before any right instruction.\<close>

definition first_column :: "nat \<Rightarrow> DiffEntry list" where
  "first_column NL = map (\<lambda>I. (I * 2, replicate I DC_left)) [0..<NL + 1]"

text \<open>The entry \<open>Next[Index]\<close> from \<open>Cur[Index-1]\<close>, \<open>Cur[Index]\<close> and \<open>Next[Index-1]\<close>.\<close>

definition next_entry :: "bool \<Rightarrow> DiffEntry \<Rightarrow> DiffEntry \<Rightarrow> DiffEntry \<Rightarrow> DiffEntry" where
  "next_entry m c0 c1 prev =
     (if m then push 0 DC_match c0
      else if fst prev \<le> fst c1 then push 2 DC_left prev
      else push 2 DC_right c1)"

definition note_match :: "bool \<Rightarrow> inst \<Rightarrow> inst \<Rightarrow> fde \<Rightarrow> fde" where
  "note_match m l r st =
     (if m then st\<lparr>TentativeValues := (iaddr l, iaddr r) # TentativeValues st\<rparr> else st)"

text \<open>The inner loop: \<open>Cur[Index-1 ..]\<close>, the entry \<open>Next[Index-1]\<close>, and the entries \<open>Next[Index ..]\<close>
  as the result.\<close>

fun diff_row ::
  "(irconst \<Rightarrow> irconst \<Rightarrow> bool) \<Rightarrow> func \<Rightarrow> inst \<Rightarrow> inst list \<Rightarrow> DiffEntry list \<Rightarrow> DiffEntry \<Rightarrow> fde \<Rightarrow>
   DiffEntry list \<times> fde"
where
  "diff_row G F r (l # ls) (c0 # c1 # cs) prev st =
     (let (m, st1) = matchForBlockDiff G F l r st;
          e = next_entry m c0 c1 prev;
          (es, st2) = diff_row G F r ls (c1 # cs) e (note_match m l r st1)
      in (e # es, st2))"
| "diff_row G F r _ _ prev st = ([], st)"

fun diff_rows ::
  "(irconst \<Rightarrow> irconst \<Rightarrow> bool) \<Rightarrow> func \<Rightarrow> inst list \<Rightarrow> inst list \<Rightarrow> DiffEntry list \<Rightarrow> fde \<Rightarrow>
   DiffEntry list \<times> fde"
where
  "diff_rows G F [] ls Cur st = (Cur, st)"
| "diff_rows G F (r # rs) ls Cur st =
     (let n0 = push 2 DC_right (hd Cur);
          (es, st1) = diff_row G F r ls Cur n0 st
      in diff_rows G F rs ls (n0 # es) st1)"

text \<open>\<^verbatim>\<open>while (Path.back() == DC_match) Path.pop_back()\<close>: \<^verbatim>\<open>back()\<close> of an empty vector is undefined.\<close>

function drop_trailing :: "DiffChange list \<Rightarrow> DiffChange list option" where
  "drop_trailing Path =
     (if Path = [] then None
      else if last Path = DC_match then drop_trailing (butlast Path) else Some Path)"
  by pat_completeness auto
termination by (relation "measure length") (auto simp: length_greater_0_conv)

declare drop_trailing.simps [simp del]

text \<open>The leading matches are unified and not reported.\<close>

fun skip_leading ::
  "(irconst \<Rightarrow> irconst \<Rightarrow> bool) \<Rightarrow> func \<Rightarrow> DiffChange list \<Rightarrow> inst list \<Rightarrow> inst list \<Rightarrow> fde \<Rightarrow>
   (DiffChange list \<times> inst list \<times> inst list \<times> fde) outcome"
where
  "skip_leading G F (DC_match # p) (l # ls) (r # rs) st = skip_leading G F p ls rs (unify G F l r st)"
| "skip_leading G F (DC_match # p) _ _ st = Undefined"
| "skip_leading G F p ls rs st = Done (p, ls, rs, st)"

fun walk_path ::
  "(irconst \<Rightarrow> irconst \<Rightarrow> bool) \<Rightarrow> func \<Rightarrow> DiffChange list \<Rightarrow> inst list \<Rightarrow> inst list \<Rightarrow>
   DiffRecord list \<Rightarrow> fde \<Rightarrow> (inst list \<times> inst list \<times> DiffRecord list \<times> fde) outcome"
where
  "walk_path G F [] ls rs Diff st = Done (ls, rs, Diff, st)"
| "walk_path G F (DC_match # p) (l # ls) (r # rs) Diff st =
     walk_path G F p ls rs (addMatch Diff (inst_value l) (inst_value r)) (unify G F l r st)"
| "walk_path G F (DC_left # p) (l # ls) rs Diff st =
     walk_path G F p ls rs (addLeft Diff (inst_value l)) st"
| "walk_path G F (DC_right # p) ls (r # rs) Diff st =
     walk_path G F p ls rs (addRight Diff (inst_value r)) st"
| "walk_path G F _ _ _ _ _ = Undefined"

section \<open>Terminators of different kinds\<close>

definition last_but_one :: "'a list \<Rightarrow> 'a option" where
  "last_but_one xs = (if length xs < 2 then None else Some (xs ! (length xs - 2)))"

definition unify_call_invoke ::
  "(irconst \<Rightarrow> irconst \<Rightarrow> bool) \<Rightarrow> func \<Rightarrow> inst \<times> irvalue \<Rightarrow> inst \<times> irvalue \<Rightarrow> vid \<Rightarrow> vid \<Rightarrow> fde \<Rightarrow> fde"
where
  "unify_call_invoke G F L R ls rs st =
     (let (b, st1) = equiv_value G (snd L) (snd R) st
      in if \<not> b then st1
         else let st2 = (if use_empty (fst L) then st1
                         else st1\<lparr>Values := (Values st1)(iaddr (fst L) \<mapsto> iaddr (fst R))\<rparr>)
              in snd (tryUnify F ls rs st2))"

definition unify_terminators ::
  "(irconst \<Rightarrow> irconst \<Rightarrow> bool) \<Rightarrow> func \<Rightarrow> inst list \<Rightarrow> inst list \<Rightarrow> fde \<Rightarrow> fde"
where
  "unify_terminators G F ls rs st =
     (if ls = [] \<or> rs = [] then st
      else case (ikind (last ls), ikind (last rs)) of
          (BranchInst t, InvokeInst f as n u) \<Rightarrow>
            (case last_but_one ls of
               Some I \<Rightarrow> (case ikind I of
                   CallInst g bs \<Rightarrow> unify_call_invoke G F (I, g) (last rs, f) t n st
                 | _ \<Rightarrow> st)
             | None \<Rightarrow> st)
        | (InvokeInst f as n u, BranchInst t) \<Rightarrow>
            (case last_but_one rs of
               Some I \<Rightarrow> (case ikind I of
                   CallInst g bs \<Rightarrow> unify_call_invoke G F (last ls, f) (I, g) n t st
                 | _ \<Rightarrow> st)
             | None \<Rightarrow> st)
        | _ \<Rightarrow> st)"

section \<open>One pair of blocks\<close>

definition apply_path ::
  "(irconst \<Rightarrow> irconst \<Rightarrow> bool) \<Rightarrow> func \<Rightarrow> DiffChange list \<Rightarrow> inst list \<Rightarrow> inst list \<Rightarrow> fde \<Rightarrow>
   (DiffRecord list \<times> fde) outcome"
where
  "apply_path G F Path ls rs st =
     (case drop_trailing Path of
        None \<Rightarrow> Undefined
      | Some Path' \<Rightarrow>
          (case skip_leading G F Path' ls rs st of
             Done (p, ls1, rs1, st1) \<Rightarrow>
               (case walk_path G F p ls1 rs1 [] st1 of
                  Done (ls2, rs2, Diff, st2) \<Rightarrow>
                    (case unify_all G F ls2 rs2 st2 of
                       Done st3 \<Rightarrow> Done (Diff, st3)
                     | _ \<Rightarrow> Undefined)
                | _ \<Rightarrow> Undefined)
           | _ \<Rightarrow> Undefined))"

text \<open>The destructor of the local \<^verbatim>\<open>DiffLogBuilder\<close> delivers the diff on every return.\<close>

definition runBlockDiff ::
  "(irconst \<Rightarrow> irconst \<Rightarrow> bool) \<Rightarrow> func \<Rightarrow> inst list \<Rightarrow> inst list \<Rightarrow> fde \<Rightarrow> fde outcome"
where
  "runBlockDiff G F ls rs st =
     (let st0 = st\<lparr>asserts := asserts st \<and> TentativeValues st = []\<rparr>;
          (Cur, st1) = diff_rows G F rs ls (first_column (length ls)) st0;
          st2 = st1\<lparr>TentativeValues := []\<rparr>
      in case apply_path G F (snd (Cur ! length ls)) ls rs st2 of
           Done (Diff, st3) \<Rightarrow> Done (emit [LogD Diff] (unify_terminators G F ls rs st3))
         | _ \<Rightarrow> Undefined)"

definition diff_block ::
  "(irconst \<Rightarrow> irconst \<Rightarrow> bool) \<Rightarrow> func \<Rightarrow> block \<Rightarrow> block \<Rightarrow> fde \<Rightarrow> fde outcome"
where
  "diff_block G F L R st =
     (let st0 = emit [EnterContext (Block (baddr L)) (Block (baddr R))] st
      in case (case diff_prefix G F (insts L) (insts R) st0 of
                 Done (d, st1) \<Rightarrow>
                   if d then runBlockDiff G F (insts L) (insts R) (st1\<lparr>TentativeValues := []\<rparr>)
                   else unify_all G F (insts L) (insts R) (st1\<lparr>TentativeValues := []\<rparr>)
               | _ \<Rightarrow> Undefined) of
           Done st2 \<Rightarrow> Done (emit [ExitContext] st2)
         | _ \<Rightarrow> Undefined)"

section \<open>The steps between two blocks\<close>

text \<open>Possible destinations of a list of instructions.\<close>

definition dests :: "inst list \<Rightarrow> vid set" where
  "dests is = (\<Union>I \<in> set is. set (kind_succs (ikind I)))"

lemma dests_simps [simp]:
  "dests [] = {}"
  "dests (l # ls) = set (kind_succs (ikind l)) \<union> dests ls"
  by (simp_all add: dests_def)

lemma dests_member: "I \<in> set is \<Longrightarrow> set (kind_succs (ikind I)) \<subseteq> dests is"
  by (auto simp: dests_def)

lemma evolves_diff_prefix:
  "diff_prefix G F ls rs st = Done (d, st') \<Longrightarrow> dests ls \<subseteq> T \<Longrightarrow> evolves T st st'"
proof (induction G F ls rs st rule: diff_prefix.induct)
  case (1 G F l ls r rs st)
  obtain e st1 where e: "diff_inst G F False False l r st = (e, st1)" by fastforce
  let ?st2 = "if use_empty l then st1 else st1\<lparr>TentativeValues := (iaddr l, iaddr r) # TentativeValues st1\<rparr>"
  have s1: "evolves T st st1" using evolves_diff_instD [OF e] "1.prems" by simp
  have s2: "evolves T st ?st2" using s1 evolves_trans [OF s1 evolves_upd(3)] by auto
  show ?case
  proof (cases e)
    case False
    then have "evolves T ?st2 st'" if "ls \<noteq> []" using 1 e that by (simp add: Let_def)
    with s2 evolves_trans 1 e False show ?thesis by (fastforce simp: Let_def split: if_splits)
  qed (use s1 e "1.prems" in simp)
qed simp_all

lemma evolves_unify_all: "unify_all G F ls rs st = Done st' \<Longrightarrow> dests ls \<subseteq> T \<Longrightarrow> evolves T st st'"
proof (induction G F ls rs st rule: unify_all.induct)
  case (3 G F l ls r rs st)
  then have "evolves T (unify G F l r st) st'" by simp
  with 3 show ?case by (auto intro: evolves_trans [OF evolves_unify])
qed simp_all

lemma evolves_note_match [simp]: "evolves T st (note_match m l r st)"
  by (simp add: note_match_def)

lemma evolves_matchForBlockDiff:
  "matchForBlockDiff G F l r st = (m, st1) \<Longrightarrow> set (kind_succs (ikind l)) \<subseteq> T \<Longrightarrow> evolves T st st1"
  using evolves_diff_inst [of l T st G F False False r]
  by (auto simp: matchForBlockDiff_def split: prod.splits)

lemma evolves_diff_row:
  "diff_row G F r ls cur prev st = (es, st') \<Longrightarrow> dests ls \<subseteq> T \<Longrightarrow> evolves T st st'"
proof (induction G F r ls cur prev st arbitrary: es rule: diff_row.induct)
  case (1 G F r l ls c0 c1 cs prev st)
  obtain m st1 where m: "matchForBlockDiff G F l r st = (m, st1)" by fastforce
  obtain es' where "diff_row G F r ls (c1 # cs) (next_entry m c0 c1 prev) (note_match m l r st1) = (es', st')"
    using "1.prems" m by (auto simp: Let_def split: prod.splits)
  then have "evolves T (note_match m l r st1) st'" using "1.IH" [OF m [symmetric] refl] "1.prems" by simp
  moreover have "evolves T st st1" using evolves_matchForBlockDiff [OF m] "1.prems" by simp
  ultimately show ?case using evolves_trans evolves_note_match by blast
qed simp_all

lemma evolves_diff_rows: "dests ls \<subseteq> T \<Longrightarrow> evolves T st (snd (diff_rows G F rs ls cur st))"
proof (induction G F rs ls cur st rule: diff_rows.induct)
  case (2 G F r rs ls Cur st)
  let ?n = "push 2 DC_right (hd Cur)"
  obtain es st1 where e: "diff_row G F r ls Cur ?n st = (es, st1)" by fastforce
  have "evolves T st st1" using evolves_diff_row [OF e] 2 by simp
  moreover have "evolves T st1 (snd (diff_rows G F rs ls (?n # es) st1))"
    using "2.IH" [OF refl e [symmetric] refl] "2.prems" by simp
  ultimately show ?case using e by (auto intro: evolves_trans)
qed simp

lemma evolves_skip_leading:
  "skip_leading G F p ls rs st = Done (p', ls', rs', st') \<Longrightarrow> dests ls \<subseteq> T \<Longrightarrow>
   evolves T st st' \<and> dests ls' \<subseteq> T"
proof (induction G F p ls rs st rule: skip_leading.induct)
  case (1 G F p l ls r rs st)
  then have "evolves T (unify G F l r st) st' \<and> dests ls' \<subseteq> T" by simp
  with 1 show ?case by (auto intro: evolves_trans [OF evolves_unify])
qed simp_all

lemma evolves_walk_path:
  "walk_path G F p ls rs Diff st = Done (ls', rs', Diff', st') \<Longrightarrow> dests ls \<subseteq> T \<Longrightarrow>
   evolves T st st' \<and> dests ls' \<subseteq> T"
proof (induction G F p ls rs Diff st rule: walk_path.induct)
  case (2 G F p l ls r rs Diff st)
  then have "evolves T (unify G F l r st) st' \<and> dests ls' \<subseteq> T" by simp
  with 2 show ?case by (auto intro: evolves_trans [OF evolves_unify])
qed simp_all

lemma evolves_apply_path:
  assumes "apply_path G F p ls rs st = Done (Diff, st')" "dests ls \<subseteq> T"
  shows "evolves T st st'"
proof -
  obtain p' p1 ls1 rs1 st1 ls2 rs2 st2 where
    1: "skip_leading G F p' ls rs st = Done (p1, ls1, rs1, st1)" and
    2: "walk_path G F p1 ls1 rs1 [] st1 = Done (ls2, rs2, Diff, st2)" and
    3: "unify_all G F ls2 rs2 st2 = Done st'"
    using assms(1) by (auto simp: apply_path_def split: option.splits outcome.splits prod.splits)
  from evolves_skip_leading [OF 1 assms(2)] have e1: "evolves T st st1" "dests ls1 \<subseteq> T" by auto
  from evolves_walk_path [OF 2 e1(2)] have e2: "evolves T st1 st2" "dests ls2 \<subseteq> T" by auto
  from e1(1) e2(1) evolves_unify_all [OF 3 e2(2)] show ?thesis using evolves_trans by blast
qed

lemma evolves_unify_call_invoke:
  "t \<in> T \<Longrightarrow> evolves T st (unify_call_invoke G F L R t n st)"
  by (auto simp: unify_call_invoke_def Let_def split: prod.split
      intro!: evolves_trans [OF _ evolves_tryUnify] evolves_trans [OF _ evolves_upd(2)]
      dest: evolves_equiv_valueD [of _ _ _ _ _ _ T])

lemma evolves_unify_terminators:
  assumes "dests ls \<subseteq> T"
  shows "evolves T st (unify_terminators G F ls rs st)"
proof (cases "ls = [] \<or> rs = []")
  case False
  then have d: "set (kind_succs (ikind (last ls))) \<subseteq> T" using assms dests_member [of "last ls" ls] by simp
  show ?thesis
  proof (cases "ikind (last ls)")
    case (BranchInst t)
    then show ?thesis using False d by (auto simp: unify_terminators_def evolves_unify_call_invoke
        split: ikind.split option.split)
  next
    case (InvokeInst f as n u)
    then show ?thesis using False d by (auto simp: unify_terminators_def evolves_unify_call_invoke
        split: ikind.split option.split)
  qed (use False in \<open>auto simp: unify_terminators_def split: ikind.split\<close>)
qed (simp add: unify_terminators_def)

lemma evolves_runBlockDiff:
  assumes "runBlockDiff G F ls rs st = Done st'" "dests ls \<subseteq> T"
  shows "evolves T st st'"
proof -
  let ?st0 = "st\<lparr>asserts := asserts st \<and> TentativeValues st = []\<rparr>"
  obtain Cur st1 where 1: "diff_rows G F rs ls (first_column (length ls)) ?st0 = (Cur, st1)" by fastforce
  obtain Diff st3 where 3: "apply_path G F (snd (Cur ! length ls)) ls rs (st1\<lparr>TentativeValues := []\<rparr>) = Done (Diff, st3)"
    and st': "st' = emit [LogD Diff] (unify_terminators G F ls rs st3)"
    using assms(1) 1 by (auto simp: runBlockDiff_def Let_def split: outcome.splits prod.splits)
  have "evolves T ?st0 st1" using evolves_diff_rows [OF assms(2), of ?st0 G F rs "first_column (length ls)"] 1 by simp
  from evolves_trans [OF evolves_trans [OF evolves_upd(4) this] evolves_upd(3)]
  have "evolves T st (st1\<lparr>TentativeValues := []\<rparr>)" .
  also note evolves_apply_path [OF 3 assms(2)]
  also note evolves_unify_terminators [OF assms(2), of st3 G F rs]
  also have "evolves T (unify_terminators G F ls rs st3) st'"
    unfolding st' by (rule evolves_emit) (simp add: nested_single)
  finally show ?thesis .
qed

section \<open>The alignment is optimal\<close>

text \<open>The answers of \<open>matchForBlockDiff\<close> in the order it is asked: they depend on the state, which
  earlier answers change, but not on the costs.\<close>

fun match_row ::
  "(irconst \<Rightarrow> irconst \<Rightarrow> bool) \<Rightarrow> func \<Rightarrow> inst \<Rightarrow> inst list \<Rightarrow> fde \<Rightarrow> bool list \<times> fde"
where
  "match_row G F r [] st = ([], st)"
| "match_row G F r (l # ls) st =
     (let (m, st1) = matchForBlockDiff G F l r st;
          (ms, st2) = match_row G F r ls (note_match m l r st1)
      in (m # ms, st2))"

fun match_rows ::
  "(irconst \<Rightarrow> irconst \<Rightarrow> bool) \<Rightarrow> func \<Rightarrow> inst list \<Rightarrow> inst list \<Rightarrow> fde \<Rightarrow> bool list list \<times> fde"
where
  "match_rows G F [] ls st = ([], st)"
| "match_rows G F (r # rs) ls st =
     (let (ms, st1) = match_row G F r ls st;
          (M, st2) = match_rows G F rs ls st1
      in (ms # M, st2))"

fun dp_row :: "bool list \<Rightarrow> DiffEntry list \<Rightarrow> DiffEntry \<Rightarrow> DiffEntry list" where
  "dp_row (m # ms) (c0 # c1 # cs) prev =
     (let e = next_entry m c0 c1 prev in e # dp_row ms (c1 # cs) e)"
| "dp_row _ _ prev = []"

fun dp_rows :: "bool list list \<Rightarrow> DiffEntry list \<Rightarrow> DiffEntry list" where
  "dp_rows [] Cur = Cur"
| "dp_rows (ms # M) Cur =
     (let n0 = push 2 DC_right (hd Cur) in dp_rows M (n0 # dp_row ms Cur n0))"

lemma length_match_row [simp]: "length (fst (match_row G F r ls st)) = length ls"
  by (induction ls arbitrary: st) (simp_all add: Let_def case_prod_unfold)

lemma length_match_rows:
  "length (fst (match_rows G F rs ls st)) = length rs"
  "ms \<in> set (fst (match_rows G F rs ls st)) \<Longrightarrow> length ms = length ls"
  by (induction rs arbitrary: st) (auto simp: Let_def case_prod_unfold)

lemma length_dp_row [simp]: "length cur = Suc (length ms) \<Longrightarrow> length (dp_row ms cur prev) = length ms"
proof (induction ms arbitrary: cur prev)
  case (Cons m ms)
  then obtain c0 c1 cs where "cur = c0 # c1 # cs" by (cases cur; cases "tl cur") auto
  then show ?case using Cons by (simp add: Let_def)
qed simp

lemma diff_row_dp:
  "length cur = Suc (length ls) \<Longrightarrow>
   diff_row G F r ls cur prev st = (dp_row (fst (match_row G F r ls st)) cur prev, snd (match_row G F r ls st))"
proof (induction ls arbitrary: cur prev st)
  case (Cons l ls)
  then obtain c0 c1 cs where "cur = c0 # c1 # cs" by (cases cur; cases "tl cur") auto
  then show ?case using Cons by (simp add: Let_def split: prod.split)
qed simp

lemma diff_rows_dp:
  "length cur = Suc (length ls) \<Longrightarrow>
   diff_rows G F rs ls cur st = (dp_rows (fst (match_rows G F rs ls st)) cur, snd (match_rows G F rs ls st))"
proof (induction rs arbitrary: cur st)
  case (Cons r rs)
  obtain ms st1 where m: "match_row G F r ls st = (ms, st1)" by fastforce
  then have "length ms = length ls" using length_match_row [of G F r ls st] by simp
  then show ?case using Cons m by (simp add: Let_def diff_row_dp split: prod.split)
qed simp

text \<open>An alignment of the first \<open>i\<close> left with the first \<open>j\<close> right instructions, with matches only where
  the matrix allows one.\<close>

inductive align :: "bool list list \<Rightarrow> DiffChange list \<Rightarrow> nat \<Rightarrow> nat \<Rightarrow> bool" for M where
  align_Nil: "align M [] 0 0"
| align_left: "align M p i j \<Longrightarrow> align M (p @ [DC_left]) (Suc i) j"
| align_right: "align M p i j \<Longrightarrow> align M (p @ [DC_right]) i (Suc j)"
| align_match: "align M p i j \<Longrightarrow> M ! j ! i \<Longrightarrow> align M (p @ [DC_match]) (Suc i) (Suc j)"

definition path_cost :: "DiffChange list \<Rightarrow> nat" where
  "path_cost p = 2 * length (filter (\<lambda>c. c \<noteq> DC_match) p)"

lemma path_cost_simps [simp]:
  "path_cost [] = 0" "path_cost (p @ q) = path_cost p + path_cost q"
  "path_cost (c # p) = (if c = DC_match then 0 else 2) + path_cost p"
  by (simp_all add: path_cost_def)

fun edit_distance :: "bool list list \<Rightarrow> nat \<Rightarrow> nat \<Rightarrow> nat" where
  "edit_distance M 0 j = 2 * j"
| "edit_distance M (Suc i) 0 = 2 * Suc i"
| "edit_distance M (Suc i) (Suc j) =
     (if M ! j ! i then edit_distance M i j
      else min (edit_distance M i (Suc j)) (edit_distance M (Suc i) j) + 2)"

lemma edit_distance_0 [simp]: "edit_distance M i 0 = 2 * i"
  by (cases i) auto

lemma edit_distance_step:
  "edit_distance M (Suc i) j \<le> edit_distance M i j + 2 \<and> edit_distance M i j \<le> edit_distance M (Suc i) j + 2 \<and>
   edit_distance M i (Suc j) \<le> edit_distance M i j + 2 \<and> edit_distance M i j \<le> edit_distance M i (Suc j) + 2"
proof (induction "i + j" arbitrary: i j rule: less_induct)
  case less
  have j: "edit_distance M (Suc i') (Suc j') \<le> edit_distance M i' (Suc j') + 2 \<and>
      edit_distance M i' (Suc j') \<le> edit_distance M (Suc i') (Suc j') + 2 \<and>
      edit_distance M (Suc i') (Suc j') \<le> edit_distance M (Suc i') j' + 2 \<and>
      edit_distance M (Suc i') j' \<le> edit_distance M (Suc i') (Suc j') + 2"
    if "i' + j' < i + j" for i' j'
    using less.hyps [OF that] by auto
  show ?case
  proof (cases i; cases j)
    fix j' assume *: "i = 0" "j = Suc j'"
    show ?thesis using j [of 0 j'] * by auto
  next
    fix i' assume *: "i = Suc i'" "j = 0"
    show ?thesis using j [of i' 0] * by auto
  next
    fix i' j' assume *: "i = Suc i'" "j = Suc j'"
    show ?thesis using j [of i' j] j [of i j'] * less.hyps [of i' j] less.hyps [of i j'] by auto
  qed auto
qed

lemma align_lower: "align M p i j \<Longrightarrow> edit_distance M i j \<le> path_cost p"
proof (induction rule: align.induct)
  case (align_left p i j)
  then show ?case using edit_distance_step [of M i j] by simp
next
  case (align_right p i j)
  then show ?case using edit_distance_step [of M i j] by simp
qed auto

definition optimal :: "bool list list \<Rightarrow> nat \<Rightarrow> nat \<Rightarrow> DiffEntry \<Rightarrow> bool" where
  "optimal M i j e \<longleftrightarrow> align M (snd e) i j \<and> fst e = path_cost (snd e) \<and> fst e = edit_distance M i j"

lemma optimal_next:
  assumes "optimal M i j c0" "optimal M (Suc i) j c1" "optimal M i (Suc j) prev"
  shows "optimal M (Suc i) (Suc j) (next_entry (M ! j ! i) c0 c1 prev)"
  using assms by (auto simp: optimal_def next_entry_def push_def intro: align.intros)

lemma optimal_right: "optimal M 0 j e \<Longrightarrow> optimal M 0 (Suc j) (push 2 DC_right e)"
  by (auto simp: optimal_def push_def intro: align.intros)

lemma dp_row_optimal:
  "length cur = Suc (length ms) \<Longrightarrow> (\<And>i. i \<le> length ms \<Longrightarrow> optimal M (k + i) j (cur ! i)) \<Longrightarrow>
   (\<And>i. i < length ms \<Longrightarrow> M ! j ! (k + i) = ms ! i) \<Longrightarrow> optimal M k (Suc j) prev \<Longrightarrow>
   i < length ms \<Longrightarrow> optimal M (Suc (k + i)) (Suc j) (dp_row ms cur prev ! i)"
proof (induction ms arbitrary: cur prev k i)
  case (Cons m ms)
  obtain c0 c1 cs where cur: "cur = c0 # c1 # cs" using Cons.prems(1) by (cases cur; cases "tl cur") auto
  have "optimal M k j c0" "optimal M (Suc k) j c1" "M ! j ! k = m"
    using Cons.prems(2) [of 0] Cons.prems(2) [of 1] Cons.prems(3) [of 0] by (simp_all add: cur)
  then have e: "optimal M (Suc k) (Suc j) (next_entry m c0 c1 prev)"
    using optimal_next [OF _ _ Cons.prems(4)] by blast
  have o: "optimal M (Suc k + i') j ((c1 # cs) ! i')" if "i' \<le> length ms" for i'
    using Cons.prems(2) [of "Suc i'"] that by (simp add: cur)
  have m: "M ! j ! (Suc k + i') = ms ! i'" if "i' < length ms" for i'
    using Cons.prems(3) [of "Suc i'"] that by simp
  show ?case
  proof (cases i)
    case (Suc i')
    then show ?thesis using Cons.IH [of "c1 # cs" "Suc k", OF _ o m e, of i'] Cons.prems(1,5) cur by (simp add: Let_def)
  qed (use e cur in \<open>simp add: Let_def\<close>)
qed simp

definition row_optimal :: "bool list list \<Rightarrow> nat \<Rightarrow> nat \<Rightarrow> DiffEntry list \<Rightarrow> bool" where
  "row_optimal M n j cur \<longleftrightarrow> length cur = Suc n \<and> (\<forall>i \<le> n. optimal M i j (cur ! i))"

lemma row_optimal_first: "row_optimal M n 0 (first_column n)"
proof -
  have "align M (replicate i DC_left) i 0" for i
    by (induction i) (auto simp: replicate_append_same [symmetric] intro: align.intros)
  moreover have "path_cost (replicate i DC_left) = 2 * i" for i by (simp add: path_cost_def)
  ultimately show ?thesis by (simp add: row_optimal_def first_column_def optimal_def del: upt_Suc)
qed

lemma row_optimal_next:
  assumes "row_optimal M n j cur" "length (M ! j) = n"
  shows "row_optimal M n (Suc j) (push 2 DC_right (hd cur) # dp_row (M ! j) cur (push 2 DC_right (hd cur)))"
proof -
  let ?n0 = "push 2 DC_right (hd cur)"
  have "cur \<noteq> []" using assms by (auto simp: row_optimal_def)
  then have n0: "optimal M 0 (Suc j) ?n0"
    using assms optimal_right [of M j "hd cur"] by (auto simp: row_optimal_def hd_conv_nth)
  have "optimal M (Suc i) (Suc j) (dp_row (M ! j) cur ?n0 ! i)" if "i < n" for i
    using dp_row_optimal [of cur "M ! j" M 0 j ?n0 i] assms n0 that by (simp add: row_optimal_def)
  then show ?thesis using n0 assms by (auto simp: row_optimal_def nth_Cons split: nat.split)
qed

lemma dp_rows_optimal:
  "row_optimal M n j cur \<Longrightarrow> \<forall>ms \<in> set M. length ms = n \<Longrightarrow> j \<le> length M \<Longrightarrow>
   row_optimal M n (length M) (dp_rows (drop j M) cur)"
proof (induction "length M - j" arbitrary: j cur)
  case (Suc k)
  then have j: "j < length M" by simp
  then have "drop j M = M ! j # drop (Suc j) M" by (simp add: Cons_nth_drop_Suc)
  moreover have "row_optimal M n (Suc j) (push 2 DC_right (hd cur) # dp_row (M ! j) cur (push 2 DC_right (hd cur)))"
    using row_optimal_next Suc.prems j by simp
  ultimately show ?case using Suc.hyps(1) [of "Suc j"] Suc.hyps(2) Suc.prems j by (simp add: Let_def)
qed simp

text \<open>What the algorithm computes: \<open>block_matrix\<close> are the answers it got, \<open>block_path\<close> is its path.\<close>

definition block_matrix :: "(irconst \<Rightarrow> irconst \<Rightarrow> bool) \<Rightarrow> func \<Rightarrow> inst list \<Rightarrow> inst list \<Rightarrow> fde \<Rightarrow> bool list list" where
  "block_matrix G F ls rs st = fst (match_rows G F rs ls st)"

definition block_path :: "(irconst \<Rightarrow> irconst \<Rightarrow> bool) \<Rightarrow> func \<Rightarrow> inst list \<Rightarrow> inst list \<Rightarrow> fde \<Rightarrow> DiffEntry" where
  "block_path G F ls rs st = fst (diff_rows G F rs ls (first_column (length ls)) st) ! length ls"

lemma block_path_optimal:
  "optimal (block_matrix G F ls rs st) (length ls) (length rs) (block_path G F ls rs st)"
proof -
  let ?M = "block_matrix G F ls rs st"
  have "\<forall>ms \<in> set ?M. length ms = length ls" "length ?M = length rs"
    using length_match_rows by (auto simp: block_matrix_def)
  then have "row_optimal ?M (length ls) (length rs) (dp_rows ?M (first_column (length ls)))"
    using dp_rows_optimal [OF row_optimal_first, of ?M "length ls"] by simp
  then show ?thesis
    by (simp add: block_path_def diff_rows_dp row_optimal_def block_matrix_def first_column_def del: upt_Suc)
qed

section \<open>The path is consumed exactly\<close>

definition lefts :: "DiffChange list \<Rightarrow> nat" where
  "lefts p = length (filter (\<lambda>c. c \<noteq> DC_right) p)"

definition rights :: "DiffChange list \<Rightarrow> nat" where
  "rights p = length (filter (\<lambda>c. c \<noteq> DC_left) p)"

lemma lefts_rights_simps [simp]:
  "lefts [] = 0" "rights [] = 0"
  "lefts (p @ q) = lefts p + lefts q" "rights (p @ q) = rights p + rights q"
  "lefts (c # p) = (if c = DC_right then 0 else 1) + lefts p"
  "rights (c # p) = (if c = DC_left then 0 else 1) + rights p"
  "lefts (replicate n DC_match) = n" "rights (replicate n DC_match) = n"
  by (simp_all add: lefts_def rights_def)

lemma align_lefts_rights: "align M p i j \<Longrightarrow> lefts p = i \<and> rights p = j"
  by (induction rule: align.induct) auto

lemma drop_trailing_None: "drop_trailing p = None \<longleftrightarrow> set p \<subseteq> {DC_match}"
proof (induction p rule: drop_trailing.induct)
  case (1 p)
  show ?case
  proof (cases p rule: rev_cases)
    case (snoc q c)
    then show ?thesis using 1 by (subst drop_trailing.simps) auto
  qed (simp add: drop_trailing.simps)
qed

lemma drop_trailing_Some:
  "drop_trailing p = Some q \<Longrightarrow> \<exists>k. p = q @ replicate k DC_match \<and> q \<noteq> [] \<and> last q \<noteq> DC_match"
proof (induction p rule: drop_trailing.induct)
  case (1 p)
  show ?case
  proof (cases p rule: rev_cases)
    case (snoc r c)
    show ?thesis
    proof (cases "c = DC_match")
      case True
      then have "drop_trailing r = Some q" using 1 snoc by (subst (asm) (2) drop_trailing.simps) simp
      then obtain k where "r = q @ replicate k DC_match \<and> q \<noteq> [] \<and> last q \<noteq> DC_match" using 1 snoc True by auto
      then show ?thesis using snoc True by (intro exI [of _ "Suc k"]) (simp add: replicate_append_same)
    next
      case False
      then have "q = p" using 1 snoc by (subst (asm) (2) drop_trailing.simps) simp
      then show ?thesis using snoc False by (intro exI [of _ 0]) simp
    qed
  qed (use "1.prems" in \<open>simp add: drop_trailing.simps\<close>)
qed

lemma unify_all_Done: "length ls \<le> length rs \<Longrightarrow> \<exists>st'. unify_all G F ls rs st = Done st'"
  by (induction G F ls rs st rule: unify_all.induct) auto

lemma skip_leading_Done:
  "lefts p \<le> length ls \<Longrightarrow> rights p \<le> length rs \<Longrightarrow>
   \<exists>p' ls' rs' st'. skip_leading G F p ls rs st = Done (p', ls', rs', st') \<and>
     (p' = dropWhile (\<lambda>c. c = DC_match) p) \<and>
     length ls + lefts p' = length ls' + lefts p \<and> length rs + rights p' = length rs' + rights p"
  by (induction G F p ls rs st rule: skip_leading.induct) auto

lemma walk_path_Done:
  "lefts p \<le> length ls \<Longrightarrow> rights p \<le> length rs \<Longrightarrow>
   \<exists>ls' rs' Diff' st'. walk_path G F p ls rs Diff st = Done (ls', rs', Diff', st') \<and>
     length ls = length ls' + lefts p \<and> length rs = length rs' + rights p \<and>
     map getLineKind Diff' = map getLineKind Diff @ p"
  by (induction G F p ls rs Diff st rule: walk_path.induct)
     (auto simp: addMatch_def addLeft_def addRight_def split: if_splits)

text \<open>\<open>trimmed Diff p\<close>: the path without its leading and trailing matches is the sequence of line kinds.\<close>

definition trimmed :: "DiffRecord list \<Rightarrow> DiffChange list \<Rightarrow> bool" where
  "trimmed Diff p \<longleftrightarrow>
     (\<exists>a b. p = replicate a DC_match @ map getLineKind Diff @ replicate b DC_match) \<and>
     Diff \<noteq> [] \<and> getLineKind (hd Diff) \<noteq> DC_match \<and> getLineKind (last Diff) \<noteq> DC_match"

lemma takeWhile_replicate: "takeWhile (\<lambda>c. c = x) p = replicate (length (takeWhile (\<lambda>c. c = x) p)) x"
  by (induction p) auto

lemma dropWhile_replicate: "\<exists>a. p = replicate a x @ dropWhile (\<lambda>c. c = x) p"
  by (metis takeWhile_dropWhile_id takeWhile_replicate)

lemma apply_path_Done:
  assumes "lefts p = length ls" "rights p = length rs" "\<not> set p \<subseteq> {DC_match}"
  shows "\<exists>Diff st'. apply_path G F p ls rs st = Done (Diff, st') \<and> trimmed Diff p"
proof -
  have "drop_trailing p \<noteq> None" using assms(3) drop_trailing_None by blast
  then obtain q where q0: "drop_trailing p = Some q" by blast
  then obtain k where q: "drop_trailing p = Some q" "p = q @ replicate k DC_match" "q \<noteq> []" "last q \<noteq> DC_match"
    using drop_trailing_Some [OF q0] by blast
  have le: "lefts q \<le> length ls" "rights q \<le> length rs" using assms q(2) by auto
  let ?d = "dropWhile (\<lambda>c. c = DC_match) q"
  obtain a where a: "q = replicate a DC_match @ ?d" using dropWhile_replicate [of q DC_match] ..
  have d1: "?d \<noteq> []"
  proof
    assume "?d = []"
    then have "\<forall>c \<in> set q. c = DC_match" by (simp add: dropWhile_eq_Nil_conv)
    with q(3,4) show False by simp
  qed
  moreover have "last (replicate a DC_match @ ?d) = last ?d" using d1 by simp
  then have "last q = last ?d" by (simp only: a [symmetric])
  ultimately have d: "?d \<noteq> []" "last ?d = last q" by simp_all
  obtain ls1 rs1 st1 where 1: "skip_leading G F q ls rs st = Done (?d, ls1, rs1, st1)"
      "length ls + lefts ?d = length ls1 + lefts q" "length rs + rights ?d = length rs1 + rights q"
    using skip_leading_Done [OF le, of G F st] by blast
  then have "lefts ?d \<le> length ls1" "rights ?d \<le> length rs1" using le by auto
  then obtain ls2 rs2 Diff st2 where 2: "walk_path G F ?d ls1 rs1 [] st1 = Done (ls2, rs2, Diff, st2)"
      "length ls1 = length ls2 + lefts ?d" "length rs1 = length rs2 + rights ?d" "map getLineKind Diff = ?d"
    using walk_path_Done [of ?d ls1 rs1 G F "[]" st1] by auto
  have "length ls = lefts q + k" "length rs = rights q + k" using assms(1,2) q(2) by simp_all
  then have "length ls2 = k" "length rs2 = k" using 1 2 by simp_all
  then obtain st' where 3: "unify_all G F ls2 rs2 st2 = Done st'" using unify_all_Done [of ls2 rs2 G F st2] by auto
  have Diff: "Diff \<noteq> []" using 2(4) d(1) by (metis list.simps(8))
  have "getLineKind (hd Diff) = hd ?d" using 2(4) Diff by (metis hd_map)
  then have "getLineKind (hd Diff) \<noteq> DC_match" using hd_dropWhile [of "\<lambda>c. c = DC_match" q] d(1) by auto
  moreover have "getLineKind (last Diff) = last q" using 2(4) Diff d(2) by (metis last_map)
  moreover have "p = replicate a DC_match @ map getLineKind Diff @ replicate k DC_match"
    using q(2) a 2(4) by (metis append_assoc)
  ultimately have "trimmed Diff p" using Diff q(4) unfolding trimmed_def by auto
  then show ?thesis using q(1) 1(1) 2(1) 3 by (simp add: apply_path_def)
qed

lemma edit_distance_zero: "edit_distance M i j = 0 \<longleftrightarrow> i = j \<and> (\<forall>k < i. M ! k ! k)"
  by (induction M i j rule: edit_distance.induct) (auto simp: less_Suc_eq)

lemma path_cost_zero: "path_cost p = 0 \<longleftrightarrow> set p \<subseteq> {DC_match}"
  by (auto simp: path_cost_def filter_empty_conv)

text \<open>The state in which \<open>runBlockDiff\<close> computes its alignment.\<close>

definition run_state :: "fde \<Rightarrow> fde" where
  "run_state st = st\<lparr>asserts := asserts st \<and> TentativeValues st = []\<rparr>"

lemma runBlockDiff_unfold:
  "runBlockDiff G F ls rs st =
     (case apply_path G F (snd (block_path G F ls rs (run_state st))) ls rs
             ((snd (match_rows G F rs ls (run_state st)))\<lparr>TentativeValues := []\<rparr>) of
        Done (Diff, st3) \<Rightarrow> Done (emit [LogD Diff] (unify_terminators G F ls rs st3))
      | _ \<Rightarrow> Undefined)"
  by (simp add: runBlockDiff_def block_path_def run_state_def Let_def diff_rows_dp first_column_def
      del: upt_Suc)

lemma runBlockDiff_Done:
  assumes "\<not> (length ls = length rs \<and> (\<forall>i < length ls. block_matrix G F ls rs (run_state st) ! i ! i))"
  shows "\<exists>Diff st'. runBlockDiff G F ls rs st = Done (emit [LogD Diff] st') \<and>
           trimmed Diff (snd (block_path G F ls rs (run_state st)))"
proof -
  let ?e = "block_path G F ls rs (run_state st)"
  note o = block_path_optimal [of G F ls rs "run_state st", unfolded optimal_def]
  have "lefts (snd ?e) = length ls" "rights (snd ?e) = length rs" using o align_lefts_rights by blast+
  moreover have "path_cost (snd ?e) \<noteq> 0" using o assms edit_distance_zero by metis
  ultimately obtain Diff st' where
    "apply_path G F (snd ?e) ls rs ((snd (match_rows G F rs ls (run_state st)))\<lparr>TentativeValues := []\<rparr>) = Done (Diff, st')"
    "trimmed Diff (snd ?e)"
    using apply_path_Done path_cost_zero by metis
  then show ?thesis unfolding runBlockDiff_unfold by auto
qed

lemma runBlockDiff_Undefined:
  assumes "length ls = length rs" "\<forall>i < length ls. block_matrix G F ls rs (run_state st) ! i ! i"
  shows "runBlockDiff G F ls rs st = Undefined"
proof -
  let ?e = "block_path G F ls rs (run_state st)"
  note o = block_path_optimal [of G F ls rs "run_state st", unfolded optimal_def]
  have "path_cost (snd ?e) = 0" using o assms edit_distance_zero by metis
  then have "drop_trailing (snd ?e) = None" by (simp add: drop_trailing_None path_cost_zero)
  then show ?thesis by (simp add: runBlockDiff_unfold apply_path_def)
qed

section \<open>Properties\<close>

text \<open>C6. The alignment that the dynamic program finds uses a match only where the comparison of the two
  instructions succeeded, accounts for every instruction of both blocks, and no alignment with these
  matches leaves fewer instructions unmatched.\<close>

theorem block_alignment_minimal:
  "align (block_matrix G F ls rs st) (snd (block_path G F ls rs st)) (length ls) (length rs) \<and>
   {q. align (block_matrix G F ls rs st) q (length ls) (length rs) \<and>
       path_cost q < path_cost (snd (block_path G F ls rs st))} = {}"
  using block_path_optimal [of G F ls rs st] align_lower by (fastforce simp: optimal_def)

text \<open>C7. The block diff is undefined behaviour, a read of the last element of an empty vector, exactly when
  both lists have the same length and every pair on the diagonal matched; otherwise it returns, so the
  walk along the path never runs past the end of a block.\<close>

theorem runBlockDiff_undefined_iff:
  "(runBlockDiff G F ls rs st = Undefined \<longleftrightarrow>
      length ls = length rs \<and> list_all (\<lambda>i. block_matrix G F ls rs (run_state st) ! i ! i) [0..<length ls]) \<and>
   runBlockDiff G F ls rs st \<noteq> OutOfFuel"
proof -
  have all: "list_all (\<lambda>i. block_matrix G F ls rs (run_state st) ! i ! i) [0..<length ls] =
      (\<forall>i < length ls. block_matrix G F ls rs (run_state st) ! i ! i)"
    by (auto simp: list_all_iff)
  show ?thesis
    unfolding all using runBlockDiff_Done [of ls rs G F st] runBlockDiff_Undefined [of ls rs G F st]
    by (metis outcome.distinct(1,3,5))
qed

text \<open>When the block diff returns, its last call hands over the computed alignment without the matches at
  both ends: the report starts and ends with an instruction that only one block has.\<close>

theorem runBlockDiff_report:
  assumes "runBlockDiff G F ls rs st = Done st'"
  shows "\<exists>Diff. last (trace st') = LogD Diff \<and> trimmed Diff (snd (block_path G F ls rs (run_state st)))"
proof -
  have "\<not> (length ls = length rs \<and> (\<forall>i < length ls. block_matrix G F ls rs (run_state st) ! i ! i))"
    using runBlockDiff_Undefined assms by (metis outcome.distinct(1))
  from runBlockDiff_Done [OF this] assms show ?thesis by (auto simp: emit_def)
qed

text \<open>Blocks 11 and 111 of the sample functions.\<close>

definition sample_left :: "inst list" where
  "sample_left = insts (blocks sample_func ! 1)"

definition sample_right :: "inst list" where
  "sample_right = insts (blocks sample_patched ! 1)"

definition sample_state :: fde where
  "sample_state = fde_init\<lparr>Values := [2 \<mapsto> 102, 20 \<mapsto> 120]\<rparr>"

fun is_done :: "'a outcome \<Rightarrow> bool" where
  "is_done (Done x) = True"
| "is_done _ = False"

definition the_done :: "'a outcome \<Rightarrow> 'a" where
  "the_done x = (case x of Done a \<Rightarrow> a)"

lemma the_done: "is_done x \<Longrightarrow> x = Done (the_done x)"
  by (cases x) (simp_all add: the_done_def)

definition sample_diff :: fde where
  "sample_diff = the_done (runBlockDiff (equiv_globals None) sample_func sample_left sample_right sample_state)"

lemma sample_block_diff:
  "runBlockDiff (equiv_globals None) sample_func sample_left sample_right sample_state = Done sample_diff"
  unfolding sample_diff_def by (rule the_done) code_simp

theorem runBlockDiff_report_witness:
  "\<exists>Diff. last (trace sample_diff) = LogD Diff \<and>
     trimmed Diff (snd (block_path (equiv_globals None) sample_func sample_left sample_right (run_state sample_state)))"
  by (rule runBlockDiff_report [OF sample_block_diff])

end
