(* ===== verification/ID_Assigner.thy ===== *)
theory ID_Assigner
  imports LLVM_IR "HOL-Library.Product_Lexorder"
begin

text \<open>
  \<^verbatim>\<open>tools/llvm-diff-parmesan/id-assigner-pass\<close>: the module pass that numbers every function,
  argument, block and instruction, relates the blocks to the Angora comparison identifiers found in
  the arguments of the trace calls, collects the static control flow edges, and the comparisons that
  dominate an indirect call site.

  \<^verbatim>\<open>IdentifierType\<close> is \<^typ>\<open>u64\<close>; \<^verbatim>\<open>CmpIdType\<close> and \<^verbatim>\<open>CallSiteIdType\<close> are \<^typ>\<open>int\<close> values of 32-bit
  two's complement range, made by \<open>to_int32\<close>.  A result \<open>None\<close> is a run into undefined behaviour: a
  block without terminator, a missing call argument, or the use of the uninitialised
  \<^verbatim>\<open>PrevCallSiteId\<close>.
\<close>

section \<open>State\<close>

definition to_int32 :: "int \<Rightarrow> int" where
  "to_int32 i = (i + 2 ^ 31) mod 2 ^ 32 - 2 ^ 31"

record id_state =
  SerialIdentifier :: u64
  IdMap :: "vid \<rightharpoonup> u64"
  CmpMap :: "(int, u64 oset) omap"
  CallSiteDominatorsMap :: "(int, int oset) omap"
  IdToAngoraMap :: "u64 \<rightharpoonup> int"
  CfgEdges :: "(u64 \<times> u64) oset"
  cmpBbSet :: "u64 oset" \<comment> \<open>the local of \<^verbatim>\<open>runOnModule\<close>\<close>

definition id_init :: id_state where
  "id_init = \<lparr>SerialIdentifier = 1, IdMap = Map.empty, CmpMap = [], CallSiteDominatorsMap = [],
     IdToAngoraMap = Map.empty, CfgEdges = [], cmpBbSet = []\<rparr>"

text \<open>The map reads \<^verbatim>\<open>IdMap[v]\<close> and \<^verbatim>\<open>IdToAngoraMap[id]\<close>: 0 for an absent key.\<close>

definition id_of :: "id_state \<Rightarrow> vid \<Rightarrow> u64" where
  "id_of s v = (case IdMap s v of Some i \<Rightarrow> i | None \<Rightarrow> 0)"

section \<open>Numbering\<close>

definition getUniqueIdentifier :: "id_state \<Rightarrow> u64 \<times> id_state" where
  "getUniqueIdentifier s = (SerialIdentifier s, s\<lparr>SerialIdentifier := SerialIdentifier s + 1\<rparr>)"

definition assign_id :: "vid \<Rightarrow> id_state \<Rightarrow> id_state" where
  "assign_id v s = (let (i, s') = getUniqueIdentifier s in s'\<lparr>IdMap := (IdMap s')(v \<mapsto> i)\<rparr>)"

definition number_order :: "func \<Rightarrow> vid list" where
  "number_order F =
     faddr F # map fst (fargs F) @ concat (map (\<lambda>B. baddr B # map iaddr (insts B)) (blocks F))"

definition number_function :: "func \<Rightarrow> id_state \<Rightarrow> id_state" where
  "number_function F s = fold assign_id (number_order F) s"

section \<open>Comparison identifiers\<close>

definition TraceFunctions :: "string list" where
  "TraceFunctions =
     [''__angora_trace_cmp'', ''__angora_trace_switch'', ''__dfsw___angora_trace_cmp_tt'',
      ''__dfsw___angora_trace_exploit_val_tt'', ''__dfsw___angora_trace_switch_tt'',
      ''__dfsw___angora_trace_fn_tt'']"

definition ends_with :: "string \<Rightarrow> string \<Rightarrow> bool" where
  "ends_with n suffix = (length suffix \<le> length n \<and> drop (length n - length suffix) n = suffix)"

definition cmp_arg_index :: "string \<Rightarrow> nat" where
  "cmp_arg_index n =
     (let argIndex = (1::nat);
          argIndex = (if ends_with n ''_tt'' then 0 else argIndex)
      in if n = ''__angora_trace_switch'' then 0 else argIndex)"

text \<open>The body of the loop over the instructions of a block, for one call.\<close>

definition visit_trace_call :: "inst \<Rightarrow> id_state \<Rightarrow> id_state option" where
  "visit_trace_call I s =
     (case ikind I of
        CallInst f args \<Rightarrow>
          (case called_function f of
             None \<Rightarrow> Some s
           | Some (_, n) \<Rightarrow>
               if n \<notin> set TraceFunctions then Some s
               else let argIndex = cmp_arg_index n
                    in if length args < (if argIndex = 0 then 1 else argIndex - 1) then Some s
                       else if argIndex \<ge> length args then None
                       else (case args ! argIndex of
                               Const (ConstantInt _ v) \<Rightarrow>
                                 let cmpId = to_int32 v
                                 in Some (s\<lparr>IdToAngoraMap :=
                                              fold (\<lambda>bb m. m(bb \<mapsto> cmpId)) (cmpBbSet s) (IdToAngoraMap s),
                                            CmpMap := omap_upd cmpId (cmpBbSet s) (CmpMap s),
                                            cmpBbSet := []\<rparr>)
                             | _ \<Rightarrow> Some s))
      | _ \<Rightarrow> Some s)"

definition visit_block :: "block \<Rightarrow> id_state \<Rightarrow> id_state option" where
  "visit_block BB s =
     (case terminator BB of
        None \<Rightarrow> None
      | Some TInst \<Rightarrow>
          let srcId = id_of s (baddr BB);
              s1 = s\<lparr>CfgEdges := fold (\<lambda>Succ E. oset_insert (srcId, id_of s Succ) E)
                                     (kind_succs (ikind TInst)) (CfgEdges s)\<rparr>;
              s2 = s1\<lparr>cmpBbSet := oset_insert srcId (cmpBbSet s1)\<rparr>
          in ofold visit_trace_call (insts BB) s2)"

section \<open>Comparisons that dominate an indirect call\<close>

text \<open>The instructions \<^verbatim>\<open>collectPreviousIndirectBranch\<close> recurses into, in the order of the calls.
  \<open>ClFollowIndDominators\<close> is the command line flag.\<close>

definition block_pred_terms :: "llvm_module \<Rightarrow> vid \<Rightarrow> vid list" where
  "block_pred_terms M a =
     (case inst_parent M a of None \<Rightarrow> [] | Some (F, B) \<Rightarrow> pred_terminators F (baddr B))"

definition next_insts :: "llvm_module \<Rightarrow> bool \<Rightarrow> inst \<Rightarrow> vid list" where
  "next_insts M ClFollowIndDominators I =
     (case ikind I of
        CondBranchInst V _ _ \<Rightarrow>
          (case V of Inst _ a \<Rightarrow> [a] | _ \<Rightarrow> []) @
          (if ClFollowIndDominators then block_pred_terms M (iaddr I) else [])
      | BranchInst _ \<Rightarrow> (if ClFollowIndDominators then block_pred_terms M (iaddr I) else [])
      | LoadInst V \<Rightarrow> inst_users M V
      | StoreInst _ _ \<Rightarrow> block_pred_terms M (iaddr I)
      | _ \<Rightarrow> [])"

fun is_cmp :: "ikind \<Rightarrow> bool" where
  "is_cmp (CmpInst _ _ _ _) = True"
| "is_cmp _ = False"

text \<open>The recursion, with the sets \<open>(Result, Seen)\<close> threaded through and a depth bound; the depth
  never exceeds the number of instructions, see \<open>collect_total\<close>.\<close>

fun collectPreviousIndirectBranch ::
  "llvm_module \<Rightarrow> bool \<Rightarrow> nat \<Rightarrow> vid \<Rightarrow> vid list \<times> vid list \<Rightarrow> (vid list \<times> vid list) option" where
  "collectPreviousIndirectBranch M fl 0 a st = None"
| "collectPreviousIndirectBranch M fl (Suc n) a (Result, Seen) =
     (if a \<in> set Seen then Some (Result, Seen)
      else case get_inst M a of
             None \<Rightarrow> Some (Result, a # Seen)
           | Some I \<Rightarrow>
               if is_cmp (ikind I) then Some (List.insert a Result, a # Seen)
               else ofold (collectPreviousIndirectBranch M fl n) (next_insts M fl I) (Result, a # Seen))"

definition collect_fuel :: "llvm_module \<Rightarrow> nat" where
  "collect_fuel M = length (module_insts M) + 1"

definition getAngoraCmpIdForBB :: "id_state \<Rightarrow> vid \<Rightarrow> int" where
  "getAngoraCmpIdForBB s BB = (case IdToAngoraMap s (id_of s BB) of Some c \<Rightarrow> c | None \<Rightarrow> 0)"

text \<open>One instruction of the loop in \<^verbatim>\<open>collectCallSiteDominators\<close>; the first component is
  \<^verbatim>\<open>PrevCallSiteId\<close>, \<open>None\<close> while it is uninitialised.\<close>

definition visit_callsite ::
  "llvm_module \<Rightarrow> bool \<Rightarrow> func \<Rightarrow> inst \<Rightarrow> int option \<times> id_state \<Rightarrow> (int option \<times> id_state) option" where
  "visit_callsite M fl F I st =
     (case st of (PrevCallSiteId, s) \<Rightarrow>
       (case ikind I of
          StoreInst CV V \<Rightarrow>
            if value_name F V = ''__angora_indirect_call_site''
            then (case CV of
                    Const (ConstantInt w c) \<Rightarrow> Some (Some (to_int32 (c mod 2 ^ w)), s)
                  | _ \<Rightarrow> Some st)
            else Some st
        | CallInst f args \<Rightarrow>
            (case called_function f of
               Some _ \<Rightarrow> Some st
             | None \<Rightarrow>
                 (case args of
                    Inst _ a # _ \<Rightarrow>
                      (case collectPreviousIndirectBranch M fl (collect_fuel M) a ([], []) of
                         None \<Rightarrow> None
                       | Some (BranchSet, _) \<Rightarrow>
                           (let CSDominatorCmpIds =
                              fold (\<lambda>E ids. case inst_parent M E of
                                              None \<Rightarrow> ids
                                            | Some (_, DomBB) \<Rightarrow>
                                                oset_insert (getAngoraCmpIdForBB s (baddr DomBB)) ids)
                                   BranchSet []
                            in case PrevCallSiteId of
                                 None \<Rightarrow> None
                               | Some cs \<Rightarrow>
                                   Some (PrevCallSiteId,
                                         s\<lparr>CallSiteDominatorsMap :=
                                             omap_upd cs CSDominatorCmpIds (CallSiteDominatorsMap s)\<rparr>)))
                  | _ \<Rightarrow> Some st))
        | _ \<Rightarrow> Some st))"

definition collectCallSiteDominators ::
  "llvm_module \<Rightarrow> bool \<Rightarrow> func \<Rightarrow> id_state \<Rightarrow> id_state option" where
  "collectCallSiteDominators M fl F s =
     ofold (\<lambda>BB s. map_option snd (ofold (visit_callsite M fl F) (insts BB) (None, s))) (blocks F) s"

section \<open>The pass\<close>

definition visit_function :: "llvm_module \<Rightarrow> bool \<Rightarrow> func \<Rightarrow> id_state \<Rightarrow> id_state option" where
  "visit_function M fl F s =
     Option.bind (ofold visit_block (blocks F) (number_function F s))
       (collectCallSiteDominators M fl F)"

definition runOnModule_ids :: "llvm_module \<Rightarrow> bool \<Rightarrow> id_state option" where
  "runOnModule_ids M fl = ofold (visit_function M fl) (funcs M) id_init"

text \<open>\<^verbatim>\<open>getCmpCfg\<close>: the edges between blocks as edges between comparisons; a block that no comparison
  claims reads as comparison 0.\<close>

definition cmp_rev_map :: "(int, u64 oset) omap \<Rightarrow> (u64, int) omap" where
  "cmp_rev_map cm = fold (\<lambda>(c, bbs) m. fold (\<lambda>bb m. omap_new bb c m) bbs m) cm []"

definition getCmpCfg :: "id_state \<Rightarrow> (int \<times> int) oset" where
  "getCmpCfg s =
     (let rev_map = cmp_rev_map (CmpMap s);
          rd = (\<lambda>b. case map_of rev_map b of Some c \<Rightarrow> c | None \<Rightarrow> 0)
      in fold (\<lambda>(src, dst) result. oset_insert (rd src, rd dst) result) (CfgEdges s) [])"

section \<open>Numbering: every object gets its own nonzero identifier\<close>

text \<open>The identifiers handed out so far are \<open>1 .. SerialIdentifier - 1\<close>, each to one object.\<close>

definition ids_inv :: "nat \<Rightarrow> vid set \<Rightarrow> id_state \<Rightarrow> bool" where
  "ids_inv k A s \<longleftrightarrow>
     SerialIdentifier s = of_nat (k + 1) \<and> dom (IdMap s) = A \<and>
     (\<forall>a \<in> A. \<exists>i. 0 < i \<and> i \<le> k \<and> IdMap s a = Some (of_nat i)) \<and> inj_on (IdMap s) A"

lemma ids_invD: "ids_inv k A s \<Longrightarrow> a \<in> A \<Longrightarrow> \<exists>i. 0 < i \<and> i \<le> k \<and> IdMap s a = Some (of_nat i)"
  unfolding ids_inv_def by (elim conjE) (rule bspec)

lemma u64_of_nat_inj: "m < 2 ^ 64 \<Longrightarrow> n < 2 ^ 64 \<Longrightarrow> (of_nat m :: u64) = of_nat n \<longleftrightarrow> m = n"
  by (simp add: word_of_nat_eq_iff take_bit_nat_eq_self)

lemma ids_inv_assign:
  assumes inv: "ids_inv k A s" and fresh: "a \<notin> A" and k: "k + 1 < 2 ^ 64"
  shows "ids_inv (Suc k) (insert a A) (assign_id a s)"
proof -
  have new: "IdMap s b \<noteq> Some (of_nat (k + 1))" if b: "b \<in> A" for b
  proof -
    obtain i where i: "i \<le> k" "IdMap s b = Some (of_nat i)" using ids_invD [OF inv b] by auto
    with k have "(of_nat i :: u64) \<noteq> of_nat (k + 1)"
      using u64_of_nat_inj [of i "k + 1"] by simp
    with i show ?thesis by simp
  qed
  have inj: "inj_on (IdMap s) A" using inv by (simp add: ids_inv_def)
  have "inj_on ((IdMap s)(a \<mapsto> of_nat (k + 1))) (insert a A)"
    using inj fresh new unfolding inj_on_def by (metis fun_upd_apply insert_iff)
  moreover have "\<forall>b \<in> insert a A. \<exists>i. 0 < i \<and> i \<le> Suc k \<and>
      ((IdMap s)(a \<mapsto> of_nat (k + 1))) b = Some (of_nat i)"
    using inv by (auto simp: ids_inv_def intro: exI [of _ "Suc k"] le_SucI)
  ultimately show ?thesis
    using inv by (auto simp: ids_inv_def assign_id_def getUniqueIdentifier_def)
qed

lemma ids_inv_fold:
  "ids_inv k A s \<Longrightarrow> distinct xs \<Longrightarrow> set xs \<inter> A = {} \<Longrightarrow> k + length xs < 2 ^ 64 \<Longrightarrow>
   ids_inv (k + length xs) (A \<union> set xs) (fold assign_id xs s)"
proof (induction xs arbitrary: k A s)
  case (Cons x xs)
  then have "ids_inv (Suc k) (insert x A) (assign_id x s)"
    by (intro ids_inv_assign) auto
  then have "ids_inv (Suc k + length xs) (insert x A \<union> set xs) (fold assign_id xs (assign_id x s))"
    using Cons.prems by (intro Cons.IH) auto
  then show ?case by simp
qed simp

text \<open>The later phases keep the numbering.\<close>

abbreviation same_ids :: "id_state \<Rightarrow> id_state \<Rightarrow> bool" where
  "same_ids s t \<equiv> IdMap t = IdMap s \<and> SerialIdentifier t = SerialIdentifier s"

lemma visit_trace_call_ids: "visit_trace_call I s = Some t \<Longrightarrow> same_ids s t"
  by (auto simp: visit_trace_call_def Let_def
      split: ikind.splits option.splits irvalue.splits irconst.splits if_splits)

lemma ofold_trace_ids: "ofold visit_trace_call xs s = Some t \<Longrightarrow> same_ids s t"
  by (rule ofold_invariant [where P = "same_ids s"]) (use visit_trace_call_ids in fastforce)+

lemma visit_block_ids: "visit_block B s = Some t \<Longrightarrow> same_ids s t"
  by (auto simp: visit_block_def Let_def split: option.splits dest!: ofold_trace_ids)

lemma visit_callsite_ids:
  "visit_callsite M fl F I (p, s) = Some (q, t) \<Longrightarrow>
   same_ids s t \<and> CmpMap t = CmpMap s \<and> IdToAngoraMap t = IdToAngoraMap s \<and>
   CfgEdges t = CfgEdges s \<and> cmpBbSet t = cmpBbSet s"
  by (auto simp: visit_callsite_def Let_def
      split: ikind.splits option.splits irvalue.splits irconst.splits if_splits list.splits)

lemma collectCallSiteDominators_frame:
  assumes "collectCallSiteDominators M fl F s = Some t"
  shows "same_ids s t \<and> CmpMap t = CmpMap s \<and> IdToAngoraMap t = IdToAngoraMap s \<and>
         CfgEdges t = CfgEdges s \<and> cmpBbSet t = cmpBbSet s"
proof -
  let ?P = "\<lambda>u. same_ids s u \<and> CmpMap u = CmpMap s \<and> IdToAngoraMap u = IdToAngoraMap s \<and>
         CfgEdges u = CfgEdges s \<and> cmpBbSet u = cmpBbSet s"
  have step: "?P (snd v)" if "ofold (visit_callsite M fl F) xs (None, u) = Some v" "?P u" for xs u v
    by (rule ofold_invariant [where P = "\<lambda>v. ?P (snd v)", OF that(1)])
       (use that(2) visit_callsite_ids in fastforce)+
  from assms show ?thesis
    unfolding collectCallSiteDominators_def
    by (rule ofold_invariant) (use step in fastforce)+
qed

lemma visit_function_ids:
  assumes "visit_function M fl F s = Some t"
  shows "same_ids (number_function F s) t"
proof -
  obtain u where u: "ofold visit_block (blocks F) (number_function F s) = Some u"
      "collectCallSiteDominators M fl F u = Some t"
    using assms by (auto simp: visit_function_def Option.bind_eq_Some_conv)
  have "same_ids (number_function F s) u"
    by (rule ofold_invariant [where P = "same_ids (number_function F s)", OF u(1)])
       (use visit_block_ids in fastforce)+
  with collectCallSiteDominators_frame [OF u(2)] show ?thesis by simp
qed

definition module_order :: "func list \<Rightarrow> vid list" where
  "module_order Fs = concat (map number_order Fs)"

lemma ids_inv_cong: "same_ids s t \<Longrightarrow> ids_inv k A s \<Longrightarrow> ids_inv k A t"
  by (simp add: ids_inv_def)

lemma runOnModule_ids_inv:
  "ofold (visit_function M fl) Fs s = Some t \<Longrightarrow> ids_inv k A s \<Longrightarrow> distinct (module_order Fs) \<Longrightarrow>
   set (module_order Fs) \<inter> A = {} \<Longrightarrow> k + length (module_order Fs) < 2 ^ 64 \<Longrightarrow>
   ids_inv (k + length (module_order Fs)) (A \<union> set (module_order Fs)) t"
proof (induction Fs arbitrary: s k A)
  case (Cons F Fs)
  let ?n = "number_order F"
  have mo: "module_order (F # Fs) = ?n @ module_order Fs" by (simp add: module_order_def)
  obtain u where u: "visit_function M fl F s = Some u" "ofold (visit_function M fl) Fs u = Some t"
    using Cons.prems(1) by (auto split: option.splits)
  have "ids_inv (k + length ?n) (A \<union> set ?n) (number_function F s)"
    unfolding number_function_def using Cons.prems mo by (intro ids_inv_fold) auto
  then have "ids_inv (k + length ?n) (A \<union> set ?n) u"
    using visit_function_ids [OF u(1)] ids_inv_cong by blast
  then have "ids_inv (k + length ?n + length (module_order Fs)) (A \<union> set ?n \<union> set (module_order Fs)) t"
    using Cons.prems mo by (intro Cons.IH [OF u(2)]) auto
  then show ?case by (simp add: mo Un_assoc add.assoc)
qed (simp add: module_order_def)

lemma ids_inv_init: "ids_inv 0 {} id_init"
  by (simp add: ids_inv_def id_init_def)

lemma ids_inv_nonzero:
  assumes "ids_inv k A s" "k < 2 ^ 64" "a \<in> A"
  shows "id_of s a \<noteq> 0"
proof -
  obtain i where "0 < i" "i \<le> k" "IdMap s a = Some (of_nat i)"
    using ids_invD [OF assms(1,3)] by auto
  then show ?thesis
    using assms(2) u64_of_nat_inj [of i 0] by (simp add: id_of_def)
qed

lemma ids_inv_inj:
  assumes "ids_inv k A s"
  shows "inj_on (id_of s) A"
proof (rule inj_onI)
  fix a b
  assume ab: "a \<in> A" "b \<in> A" "id_of s a = id_of s b"
  have "IdMap s a = IdMap s b"
    using ids_invD [OF assms ab(1)] ids_invD [OF assms ab(2)] ab(3) by (auto simp: id_of_def)
  moreover have "inj_on (IdMap s) A" using assms by (simp add: ids_inv_def)
  ultimately show "a = b" using ab by (simp add: inj_on_def)
qed

lemma runOnModule_numbering:
  assumes "runOnModule_ids M fl = Some s" "distinct (module_order (funcs M))"
    and "length (module_order (funcs M)) < 2 ^ 64"
  shows "dom (IdMap s) = set (module_order (funcs M)) \<and>
         inj_on (id_of s) (set (module_order (funcs M))) \<and>
         (\<forall>v \<in> set (module_order (funcs M)). id_of s v \<noteq> 0)"
proof -
  have inv: "ids_inv (length (module_order (funcs M))) (set (module_order (funcs M))) s"
    using runOnModule_ids_inv [OF assms(1) [unfolded runOnModule_ids_def] ids_inv_init assms(2)] assms(3)
    by simp
  have "dom (IdMap s) = set (module_order (funcs M))" using inv by (simp only: ids_inv_def)
  with ids_inv_inj [OF inv] ids_inv_nonzero [OF inv assms(3)] show ?thesis by blast
qed

section \<open>The search for dominating comparisons\<close>

definition flow_edges :: "llvm_module \<Rightarrow> bool \<Rightarrow> (vid \<times> vid) set" where
  "flow_edges M fl = {(a, b). \<exists>I. get_inst M a = Some I \<and> b \<in> set (next_insts M fl I)}"

definition cmp_at :: "llvm_module \<Rightarrow> vid \<Rightarrow> bool" where
  "cmp_at M a = (case get_inst M a of None \<Rightarrow> False | Some I \<Rightarrow> is_cmp (ikind I))"

text \<open>What one call, or a sequence of calls, of the search from the instructions \<open>X\<close> achieves.\<close>

definition search_post ::
  "llvm_module \<Rightarrow> bool \<Rightarrow> vid set \<Rightarrow> vid list \<times> vid list \<Rightarrow> vid list \<times> vid list \<Rightarrow> bool" where
  "search_post M fl X st st' \<longleftrightarrow>
     set (snd st) \<subseteq> set (snd st') \<and> X \<subseteq> set (snd st') \<and>
     (\<forall>b \<in> set (snd st') - set (snd st). flow_edges M fl `` {b} \<subseteq> set (snd st')) \<and>
     set (snd st') - set (snd st) \<subseteq> (flow_edges M fl)\<^sup>* `` X \<and>
     set (fst st') = set (fst st) \<union> {b \<in> set (snd st') - set (snd st). cmp_at M b}"

lemma search_post_refl: "X \<subseteq> set (snd st) \<Longrightarrow> search_post M fl X st st"
  by (auto simp: search_post_def)

lemma search_post_trans:
  assumes "search_post M fl X s t" "search_post M fl Y t u"
  shows "search_post M fl (X \<union> Y) s u"
proof -
  have "set (snd u) - set (snd s) = (set (snd u) - set (snd t)) \<union> (set (snd t) - set (snd s))"
    using assms by (auto simp: search_post_def)
  with assms show ?thesis
    unfolding search_post_def Image_Un by (intro conjI ballI) (auto 4 4)
qed

lemma search_post_ofold:
  assumes "\<And>x s t. x \<in> set xs \<Longrightarrow> f x s = Some t \<Longrightarrow> search_post M fl {x} s t"
    and "ofold f xs s = Some t"
  shows "search_post M fl (set xs) s t"
  using assms
proof (induction xs arbitrary: s)
  case Nil
  then show ?case by (auto simp: search_post_refl)
next
  case (Cons x xs)
  then obtain u where u: "f x s = Some u" "ofold f xs u = Some t" by (auto split: option.splits)
  have "search_post M fl {x} s u" using Cons.prems(1) u(1) by simp
  moreover have "search_post M fl (set xs) u t" using Cons.IH Cons.prems(1) u(2) by simp
  ultimately have "search_post M fl ({x} \<union> set xs) s t" by (rule search_post_trans)
  then show ?case by simp
qed

lemma next_insts_cmp: "is_cmp (ikind I) \<Longrightarrow> next_insts M fl I = []"
  by (cases "ikind I") (auto simp: next_insts_def)

lemma search_post_visit:
  assumes I: "get_inst M a = Some I" and ncmp: "\<not> is_cmp (ikind I)" and fresh: "a \<notin> set S"
    and rest: "search_post M fl (set (next_insts M fl I)) (R, a # S) t"
  shows "search_post M fl {a} (R, S) t"
proof -
  have succ: "flow_edges M fl `` {a} = set (next_insts M fl I)"
    using I by (auto simp: flow_edges_def)
  have step: "(flow_edges M fl)\<^sup>* `` set (next_insts M fl I) \<subseteq> (flow_edges M fl)\<^sup>* `` {a}"
    unfolding succ [symmetric] by (auto intro: converse_rtrancl_into_rtrancl)
  have at: "a \<in> set (snd t)" and nc: "\<not> cmp_at M a"
    using rest I ncmp by (auto simp: search_post_def cmp_at_def)
  have new: "set (snd t) - set S = insert a (set (snd t) - set (a # S))"
    using at fresh by auto
  show ?thesis
    using rest succ step at nc
    unfolding search_post_def fst_conv snd_conv new
    by (intro conjI ballI) (auto 4 4)
qed

lemma collect_post:
  "collectPreviousIndirectBranch M fl n a st = Some st' \<Longrightarrow> search_post M fl {a} st st'"
proof (induction n arbitrary: a st st')
  case (Suc n)
  obtain R S where st: "st = (R, S)" by (cases st)
  show ?case
  proof (cases "a \<in> set S")
    case True
    with Suc.prems st show ?thesis by (auto simp: search_post_refl)
  next
    case fresh: False
    show ?thesis
    proof (cases "get_inst M a")
      case None
      then have "flow_edges M fl `` {a} = {}" "\<not> cmp_at M a" by (auto simp: flow_edges_def cmp_at_def)
      with None fresh Suc.prems st show ?thesis by (auto simp: search_post_def)
    next
      case (Some I)
      show ?thesis
      proof (cases "is_cmp (ikind I)")
        case True
        with Some have "flow_edges M fl `` {a} = {}" "cmp_at M a"
          by (auto simp: flow_edges_def cmp_at_def next_insts_cmp)
        with True Some fresh Suc.prems st show ?thesis by (auto simp: search_post_def)
      next
        case False
        have "ofold (collectPreviousIndirectBranch M fl n) (next_insts M fl I) (R, a # S) = Some st'"
          using Suc.prems st fresh Some False by simp
        then have "search_post M fl (set (next_insts M fl I)) (R, a # S) st'"
          by (rule search_post_ofold [rotated]) (rule Suc.IH)
        with search_post_visit [OF Some False fresh] st show ?thesis by simp
      qed
    qed
  qed
qed simp

text \<open>The depth of the recursion is bounded by the instructions not yet seen.\<close>

lemma get_inst_in: "get_inst M a = Some I \<Longrightarrow> a \<in> iaddr ` set (module_insts M)"
  by (auto simp: get_inst_def find_Some_iff)

lemma collect_total:
  "card (iaddr ` set (module_insts M) - set (snd st)) < n \<Longrightarrow>
   \<exists>st'. collectPreviousIndirectBranch M fl n a st = Some st'"
proof (induction n arbitrary: a st)
  case (Suc n)
  let ?N = "iaddr ` set (module_insts M)"
  obtain R S where st: "st = (R, S)" by (cases st)
  show ?case
  proof (cases "a \<in> set S \<or> get_inst M a = None")
    case True
    with st show ?thesis by auto
  next
    case False
    then obtain I where I: "get_inst M a = Some I" and fresh: "a \<notin> set S" by auto
    let ?P = "\<lambda>st. set (a # S) \<subseteq> set (snd st)"
    have "?N - set (a # S) \<subset> ?N - set S" using get_inst_in [OF I] fresh by auto
    then have small: "card (?N - set (a # S)) < n"
      using Suc.prems st psubset_card_mono [of "?N - set S"] by fastforce
    have "\<exists>t. ofold (collectPreviousIndirectBranch M fl n) (next_insts M fl I) (R, a # S) = Some t \<and> ?P t"
    proof (rule ofold_total)
      fix x and s :: "vid list \<times> vid list"
      assume P: "?P s"
      have "card (?N - set (snd s)) \<le> card (?N - set (a # S))"
        using P by (intro card_mono) auto
      with small obtain t where t: "collectPreviousIndirectBranch M fl n x s = Some t"
        using Suc.IH by (meson le_less_trans)
      with P collect_post [OF t] show "\<exists>t. collectPreviousIndirectBranch M fl n x s = Some t \<and> ?P t"
        by (auto simp: search_post_def)
    qed simp
    with I fresh st show ?thesis by auto
  qed
qed simp

lemma collect_exact:
  "\<exists>Result Seen. collectPreviousIndirectBranch M fl (collect_fuel M) a ([], []) = Some (Result, Seen) \<and>
     set Result = {b. (a, b) \<in> (flow_edges M fl)\<^sup>* \<and> cmp_at M b}"
proof -
  have "card (iaddr ` set (module_insts M)) \<le> length (module_insts M)"
    by (metis card_length length_map list.set_map)
  then have "card (iaddr ` set (module_insts M) - set (snd ([]::vid list, []::vid list))) < collect_fuel M"
    by (simp add: collect_fuel_def)
  from collect_total [OF this, of fl a] obtain R S where
    r: "collectPreviousIndirectBranch M fl (collect_fuel M) a ([], []) = Some (R, S)" by auto
  note p = collect_post [OF r, unfolded search_post_def]
  have "b \<in> set S" if "(a, b) \<in> (flow_edges M fl)\<^sup>*" for b
    using that by (induction rule: rtrancl_induct) (use p in auto)
  with p have "set S = (flow_edges M fl)\<^sup>* `` {a}" by auto
  with p r show ?thesis by auto
qed

section \<open>Control flow edges\<close>

lemma set_fold_insort: "set (fold (\<lambda>x E. oset_insert (f x) E) xs E) = set E \<union> f ` set xs"
  by (induction xs arbitrary: E) (auto simp: set_insort_insert)

lemma visit_trace_call_edges: "visit_trace_call I s = Some t \<Longrightarrow> CfgEdges t = CfgEdges s"
  by (auto simp: visit_trace_call_def Let_def
      split: ikind.splits option.splits irvalue.splits irconst.splits if_splits)

lemma visit_block_edges:
  assumes "visit_block B s = Some t"
  shows "set (CfgEdges t) = set (CfgEdges s) \<union> (\<lambda>x. (id_of s (baddr B), id_of s x)) ` set (succs B)"
proof -
  obtain T where T: "terminator B = Some T" using assms by (auto simp: visit_block_def split: option.splits)
  let ?u = "s\<lparr>CfgEdges := fold (\<lambda>Succ E. oset_insert (id_of s (baddr B), id_of s Succ) E)
                               (kind_succs (ikind T)) (CfgEdges s),
              cmpBbSet := oset_insert (id_of s (baddr B)) (cmpBbSet s)\<rparr>"
  have "ofold visit_trace_call (insts B) ?u = Some t"
    using assms T by (simp add: visit_block_def Let_def)
  then have "CfgEdges t = CfgEdges ?u"
    by (rule ofold_invariant [where P = "\<lambda>v. CfgEdges v = CfgEdges ?u"])
       (simp_all add: visit_trace_call_edges)
  then show ?thesis using T by (simp add: succs_def set_fold_insort)
qed

definition block_edges :: "(vid \<Rightarrow> u64) \<Rightarrow> block list \<Rightarrow> (u64 \<times> u64) set" where
  "block_edges f Bs = (\<Union>B \<in> set Bs. (\<lambda>x. (f (baddr B), f x)) ` set (succs B))"

lemma visit_blocks_edges:
  "ofold visit_block Bs s = Some t \<Longrightarrow>
   same_ids s t \<and> set (CfgEdges t) = set (CfgEdges s) \<union> block_edges (id_of s) Bs"
proof (induction Bs arbitrary: s)
  case (Cons B Bs)
  then obtain u where u: "visit_block B s = Some u" "ofold visit_block Bs u = Some t"
    by (auto split: option.splits)
  have "id_of u = id_of s" using visit_block_ids [OF u(1)] by (simp add: fun_eq_iff id_of_def)
  with Cons.IH [OF u(2)] visit_block_ids [OF u(1)] visit_block_edges [OF u(1)] show ?case
    by (auto simp: block_edges_def)
qed (simp add: block_edges_def)

lemma visit_function_edges:
  assumes "visit_function M fl F s = Some t"
  shows "set (CfgEdges t) = set (CfgEdges s) \<union> block_edges (id_of t) (blocks F)"
proof -
  obtain u where u: "ofold visit_block (blocks F) (number_function F s) = Some u"
      "collectCallSiteDominators M fl F u = Some t"
    using assms by (auto simp: visit_function_def Option.bind_eq_Some_conv)
  have "CfgEdges (fold assign_id xs v) = CfgEdges v" for xs v
    by (induction xs arbitrary: v) (auto simp: assign_id_def getUniqueIdentifier_def)
  then have "CfgEdges (number_function F s) = CfgEdges s" by (simp add: number_function_def)
  moreover have "id_of t = id_of (number_function F s)"
    using visit_function_ids [OF assms] by (simp add: fun_eq_iff id_of_def)
  ultimately show ?thesis
    using visit_blocks_edges [OF u(1)] collectCallSiteDominators_frame [OF u(2)] by simp
qed

text \<open>Numbering a function leaves the other objects alone.\<close>

lemma fold_assign_id_other: "v \<notin> set xs \<Longrightarrow> IdMap (fold assign_id xs s) v = IdMap s v"
  by (induction xs arbitrary: s) (auto simp: assign_id_def getUniqueIdentifier_def)

lemma visit_functions_other:
  "ofold (visit_function M fl) Fs s = Some t \<Longrightarrow> v \<notin> set (module_order Fs) \<Longrightarrow> id_of t v = id_of s v"
proof (induction Fs arbitrary: s)
  case (Cons F Fs)
  then obtain u where u: "visit_function M fl F s = Some u" "ofold (visit_function M fl) Fs u = Some t"
    by (auto split: option.splits)
  have "id_of u v = id_of s v"
    using visit_function_ids [OF u(1)] Cons.prems(2)
    by (simp add: id_of_def number_function_def fold_assign_id_other module_order_def)
  with Cons.IH [OF u(2)] Cons.prems(2) show ?case by (simp add: module_order_def)
qed simp

lemma block_edges_cong:
  "(\<And>v. v \<in> baddr ` set Bs \<union> (\<Union>B \<in> set Bs. set (succs B)) \<Longrightarrow> f v = g v) \<Longrightarrow>
   block_edges f Bs = block_edges g Bs"
  unfolding block_edges_def by (intro SUP_cong refl image_cong) auto

text \<open>Every branch stays in its function.\<close>

definition local_cfg :: "func \<Rightarrow> bool" where
  "local_cfg F = (\<forall>B \<in> set (blocks F). \<forall>x \<in> set (succs B). x \<in> baddr ` set (blocks F))"

lemma baddr_in_order: "B \<in> set (blocks F) \<Longrightarrow> baddr B \<in> set (number_order F)"
  by (auto simp: number_order_def)

lemma visit_functions_edges:
  "ofold (visit_function M fl) Fs s = Some t \<Longrightarrow> distinct (module_order Fs) \<Longrightarrow>
   (\<forall>F \<in> set Fs. local_cfg F) \<Longrightarrow>
   set (CfgEdges t) = set (CfgEdges s) \<union> (\<Union>F \<in> set Fs. block_edges (id_of t) (blocks F))"
proof (induction Fs arbitrary: s)
  case (Cons F Fs)
  then obtain u where u: "visit_function M fl F s = Some u" "ofold (visit_function M fl) Fs u = Some t"
    by (auto split: option.splits)
  have "id_of t v = id_of u v" if "v \<in> baddr ` set (blocks F)" for v
    using that baddr_in_order Cons.prems(2) visit_functions_other [OF u(2)]
    by (fastforce simp: module_order_def)
  then have "block_edges (id_of u) (blocks F) = block_edges (id_of t) (blocks F)"
    using Cons.prems(3) by (intro block_edges_cong) (auto simp: local_cfg_def)
  moreover have "set (CfgEdges t) = set (CfgEdges u) \<union> (\<Union>F \<in> set Fs. block_edges (id_of t) (blocks F))"
    using Cons.prems by (intro Cons.IH [OF u(2)]) (auto simp: module_order_def)
  ultimately show ?case using visit_function_edges [OF u(1)] by (simp add: Un_assoc)
qed simp

section \<open>Blocks and comparisons\<close>

lemma distinct_heads:
  "distinct (concat (map (\<lambda>B. h B # g B) Bs)) \<Longrightarrow> distinct (map h Bs)"
  by (induction Bs) auto

text \<open>\<open>V\<close> are the identifiers of the blocks visited so far.  Each is claimed by at most one comparison,
  or still waits in \<^verbatim>\<open>cmpBbSet\<close>, and \<^verbatim>\<open>IdToAngoraMap\<close> is the inverse of \<^verbatim>\<open>CmpMap\<close>.\<close>

definition cmp_inv :: "u64 set \<Rightarrow> id_state \<Rightarrow> bool" where
  "cmp_inv V s \<longleftrightarrow>
     omap_ok (CmpMap s) \<and> set (cmpBbSet s) \<subseteq> V \<and>
     (\<forall>c S. map_of (CmpMap s) c = Some S \<longrightarrow> set S \<subseteq> V \<and> set S \<inter> set (cmpBbSet s) = {} \<and>
        (\<forall>b \<in> set S. IdToAngoraMap s b = Some c))"

lemma fold_upd_const: "fold (\<lambda>b m. m(b \<mapsto> c)) xs m = (\<lambda>b. if b \<in> set xs then Some c else m b)"
  by (induction xs arbitrary: m) (auto simp: fun_eq_iff)

lemma cmp_inv_claim:
  assumes "cmp_inv V s"
  shows "cmp_inv V (s\<lparr>IdToAngoraMap := fold (\<lambda>bb m. m(bb \<mapsto> c)) (cmpBbSet s) (IdToAngoraMap s),
                      CmpMap := omap_upd c (cmpBbSet s) (CmpMap s), cmpBbSet := []\<rparr>)"
  using assms
  by (auto simp: cmp_inv_def omap_ok_upd map_of_omap_upd fold_upd_const split: if_splits)

lemma cmp_inv_trace_call:
  assumes "visit_trace_call I s = Some t" "cmp_inv V s"
  shows "cmp_inv V t"
proof -
  have "t = s \<or> (\<exists>c. t = s\<lparr>IdToAngoraMap := fold (\<lambda>bb m. m(bb \<mapsto> c)) (cmpBbSet s) (IdToAngoraMap s),
                      CmpMap := omap_upd c (cmpBbSet s) (CmpMap s), cmpBbSet := []\<rparr>)"
    using assms(1) by (auto simp: visit_trace_call_def Let_def
      split: ikind.splits option.splits irvalue.splits irconst.splits if_splits)
  with assms(2) cmp_inv_claim show ?thesis by blast
qed

lemma cmp_inv_block:
  assumes "visit_block B s = Some t" "cmp_inv V s" "id_of s (baddr B) \<notin> V"
  shows "cmp_inv (insert (id_of s (baddr B)) V) t"
proof -
  obtain E where u: "ofold visit_trace_call (insts B)
      (s\<lparr>CfgEdges := E, cmpBbSet := oset_insert (id_of s (baddr B)) (cmpBbSet s)\<rparr>) = Some t"
    using assms(1) by (auto simp: visit_block_def Let_def split: option.splits)
  have "cmp_inv (insert (id_of s (baddr B)) V)
      (s\<lparr>CfgEdges := E, cmpBbSet := oset_insert (id_of s (baddr B)) (cmpBbSet s)\<rparr>)"
    using assms(2,3) unfolding cmp_inv_def
    by (simp add: set_insort_insert) (meson insertCI subset_iff)
  then show ?thesis using ofold_invariant [OF u] cmp_inv_trace_call by metis
qed

lemma cmp_inv_blocks:
  "ofold visit_block Bs s = Some t \<Longrightarrow> cmp_inv V s \<Longrightarrow> distinct (map (id_of s \<circ> baddr) Bs) \<Longrightarrow>
   V \<inter> (id_of s \<circ> baddr) ` set Bs = {} \<Longrightarrow> cmp_inv (V \<union> (id_of s \<circ> baddr) ` set Bs) t"
proof (induction Bs arbitrary: s V)
  case (Cons B Bs)
  then obtain u where u: "visit_block B s = Some u" "ofold visit_block Bs u = Some t"
    by (auto split: option.splits)
  have ids: "id_of u = id_of s" using visit_block_ids [OF u(1)] by (simp add: fun_eq_iff id_of_def)
  have "cmp_inv (insert (id_of s (baddr B)) V) u"
    using Cons.prems by (intro cmp_inv_block [OF u(1)]) auto
  then have "cmp_inv (insert (id_of s (baddr B)) V \<union> (id_of u \<circ> baddr) ` set Bs) t"
    using Cons.prems by (intro Cons.IH [OF u(2)]) (auto simp: ids)
  then show ?case by (simp add: ids)
qed simp

lemma cmp_inv_frame:
  "cmp_inv V s \<Longrightarrow> CmpMap t = CmpMap s \<Longrightarrow> IdToAngoraMap t = IdToAngoraMap s \<Longrightarrow>
   cmpBbSet t = cmpBbSet s \<Longrightarrow> cmp_inv V t"
  by (simp add: cmp_inv_def)

lemma number_function_frame:
  "CmpMap (number_function F s) = CmpMap s \<and> IdToAngoraMap (number_function F s) = IdToAngoraMap s \<and>
   cmpBbSet (number_function F s) = cmpBbSet s"
proof -
  have "CmpMap (fold assign_id xs v) = CmpMap v \<and> IdToAngoraMap (fold assign_id xs v) = IdToAngoraMap v \<and>
     cmpBbSet (fold assign_id xs v) = cmpBbSet v" for xs v
    by (induction xs arbitrary: v) (auto simp: assign_id_def getUniqueIdentifier_def)
  then show ?thesis by (simp add: number_function_def)
qed

lemma cmp_inv_mono: "cmp_inv V s \<Longrightarrow> V \<subseteq> W \<Longrightarrow> cmp_inv W s"
  unfolding cmp_inv_def by blast

lemma cmp_inv_function:
  assumes f: "visit_function M fl F s = Some t" and inv: "cmp_inv (id_of s ` A) s"
    and ids: "ids_inv k A s" and d: "distinct (number_order F)" "set (number_order F) \<inter> A = {}"
    and k: "k + length (number_order F) < 2 ^ 64"
  shows "cmp_inv (id_of t ` (A \<union> set (number_order F))) t"
proof -
  let ?n = "number_function F s"
  obtain u where u: "ofold visit_block (blocks F) ?n = Some u"
      "collectCallSiteDominators M fl F u = Some t"
    using f by (auto simp: visit_function_def Option.bind_eq_Some_conv)
  have idt: "id_of t = id_of ?n" using visit_function_ids [OF f] by (simp add: fun_eq_iff id_of_def)
  have "ids_inv (k + length (number_order F)) (A \<union> set (number_order F)) ?n"
    unfolding number_function_def using ids d k by (intro ids_inv_fold) auto
  then have inj: "inj_on (id_of ?n) (A \<union> set (number_order F))" by (rule ids_inv_inj)
  have "id_of ?n x = id_of s x" if "x \<in> A" for x
  proof -
    have "x \<notin> set (number_order F)" using that d(2) by auto
    then show ?thesis by (simp add: id_of_def number_function_def fold_assign_id_other)
  qed
  then have same: "id_of ?n ` A = id_of s ` A" by (intro image_cong) auto
  have bd: "distinct (map baddr (blocks F))" "baddr ` set (blocks F) \<subseteq> set (number_order F)"
    using d(1) baddr_in_order
      distinct_heads [of baddr "\<lambda>B. map iaddr (insts B)" "blocks F"]
    by (auto simp: number_order_def simp del: map_map)
  have "cmp_inv (id_of ?n ` A \<union> (id_of ?n \<circ> baddr) ` set (blocks F)) u"
  proof (rule cmp_inv_blocks [OF u(1)])
    show "cmp_inv (id_of ?n ` A) ?n" using inv number_function_frame same by (metis cmp_inv_frame)
    show "distinct (map (id_of ?n \<circ> baddr) (blocks F))"
      using bd inj unfolding map_map [symmetric] distinct_map [of "id_of ?n"]
      by (auto intro: inj_on_subset)
    show "id_of ?n ` A \<inter> (id_of ?n \<circ> baddr) ` set (blocks F) = {}"
      using inj d(2) bd(2) by (fastforce simp: inj_on_def)
  qed
  then have "cmp_inv (id_of ?n ` (A \<union> set (number_order F))) u"
    by (rule cmp_inv_mono) (use bd(2) in auto)
  then show ?thesis
    using collectCallSiteDominators_frame [OF u(2)] idt by (auto intro: cmp_inv_frame)
qed

lemma visit_functions_cmp:
  "ofold (visit_function M fl) Fs s = Some t \<Longrightarrow> cmp_inv (id_of s ` A) s \<Longrightarrow> ids_inv k A s \<Longrightarrow>
   distinct (module_order Fs) \<Longrightarrow> set (module_order Fs) \<inter> A = {} \<Longrightarrow>
   k + length (module_order Fs) < 2 ^ 64 \<Longrightarrow> \<exists>V. cmp_inv V t"
proof (induction Fs arbitrary: s k A)
  case (Cons F Fs)
  let ?n = "number_order F"
  have mo: "module_order (F # Fs) = ?n @ module_order Fs" by (simp add: module_order_def)
  obtain u where u: "visit_function M fl F s = Some u" "ofold (visit_function M fl) Fs u = Some t"
    using Cons.prems(1) by (auto split: option.splits)
  have "ids_inv (k + length ?n) (A \<union> set ?n) (number_function F s)"
    unfolding number_function_def using Cons.prems mo by (intro ids_inv_fold) auto
  then have "ids_inv (k + length ?n) (A \<union> set ?n) u"
    using visit_function_ids [OF u(1)] ids_inv_cong by blast
  moreover have "cmp_inv (id_of u ` (A \<union> set ?n)) u"
    using Cons.prems mo by (intro cmp_inv_function [OF u(1)]) auto
  ultimately show ?case
    using Cons.prems mo by (intro Cons.IH [OF u(2), of "A \<union> set ?n" "k + length ?n"]) auto
qed auto

lemma cmp_inv_init: "cmp_inv (id_of id_init ` {}) id_init"
  by (simp add: cmp_inv_def id_init_def)

lemma runOnModule_cmp_inv:
  assumes "runOnModule_ids M fl = Some s" "distinct (module_order (funcs M))"
    and "length (module_order (funcs M)) < 2 ^ 64"
  shows "\<exists>V. cmp_inv V s"
  using visit_functions_cmp [OF assms(1) [unfolded runOnModule_ids_def] cmp_inv_init ids_inv_init assms(2)]
    assms(3) by simp

lemma cmp_inv_disjoint:
  assumes "cmp_inv V s" "map_of (CmpMap s) c = Some S" "map_of (CmpMap s) c' = Some S'" "c \<noteq> c'"
  shows "set S \<inter> set S' = {}"
  using assms unfolding cmp_inv_def by (metis disjoint_iff option.inject)

text \<open>The comparison a block belongs to, as \<^verbatim>\<open>getCmpCfg\<close> reads it.\<close>

definition cmp_of_block :: "id_state \<Rightarrow> u64 \<Rightarrow> int" where
  "cmp_of_block s b =
     (case find (\<lambda>(c, S). b \<in> set S) (CmpMap s) of Some (c, _) \<Rightarrow> c | None \<Rightarrow> 0)"

lemma rev_map_block:
  "omap_ok m \<Longrightarrow> omap_ok (fold (\<lambda>bb m. omap_new bb c m) S m) \<and>
   map_of (fold (\<lambda>bb m. omap_new bb c m) S m) b =
     (case map_of m b of Some x \<Rightarrow> Some x | None \<Rightarrow> if b \<in> set S then Some c else None)"
proof (induction S arbitrary: m)
  case (Cons x S)
  then show ?case by (auto simp: omap_ok_new map_of_omap_new split: option.splits)
qed (simp split: option.split)

lemma rev_map_all:
  "omap_ok m \<Longrightarrow> omap_ok (fold (\<lambda>(c, bbs) m. fold (\<lambda>bb m. omap_new bb c m) bbs m) cm m) \<and>
   map_of (fold (\<lambda>(c, bbs) m. fold (\<lambda>bb m. omap_new bb c m) bbs m) cm m) b =
     (case map_of m b of Some x \<Rightarrow> Some x
      | None \<Rightarrow> map_option fst (find (\<lambda>(c, S). b \<in> set S) cm))"
proof (induction cm arbitrary: m)
  case (Cons e cm)
  obtain c S where e: "e = (c, S)" by (cases e)
  from rev_map_block [OF Cons.prems, of c S] Cons.IH [of "fold (\<lambda>bb m. omap_new bb c m) S m"]
  show ?case by (auto simp: e split: option.splits)
qed (simp split: option.split)

lemma getCmpCfg_set:
  "set (getCmpCfg s) = (\<lambda>(x, y). (cmp_of_block s x, cmp_of_block s y)) ` set (CfgEdges s)"
proof -
  have rd: "(case map_of (cmp_rev_map (CmpMap s)) b of Some c \<Rightarrow> c | None \<Rightarrow> 0) = cmp_of_block s b" for b
    using rev_map_all [of "[]" "CmpMap s" b]
    by (auto simp: cmp_rev_map_def cmp_of_block_def split: option.splits)
  have "set (fold (\<lambda>(src, dst) r. oset_insert (f src, f dst) r) E R) =
      set R \<union> (\<lambda>(x, y). (f x, f y)) ` set E" for f :: "u64 \<Rightarrow> int" and E R
    by (induction E arbitrary: R) (auto simp: set_insort_insert)
  then show ?thesis by (simp add: getCmpCfg_def rd)
qed

lemma cmp_of_block_iff:
  assumes "cmp_inv V s" "map_of (CmpMap s) c = Some S" "b \<in> set S"
  shows "cmp_of_block s b = c"
proof -
  have "(c, S) \<in> set (CmpMap s)" using assms(2) by (rule map_of_SomeD)
  then have "find (\<lambda>(c, S). b \<in> set S) (CmpMap s) \<noteq> None" using assms(3) by (auto simp: find_None_iff)
  then obtain c' S' where f: "find (\<lambda>(c, S). b \<in> set S) (CmpMap s) = Some (c', S')" by auto
  then have "(c', S') \<in> set (CmpMap s)" "b \<in> set S'" by (auto dest: find_SomeD)
  moreover have "omap_ok (CmpMap s)" using assms(1) by (simp add: cmp_inv_def)
  ultimately have "c' = c" using cmp_inv_disjoint [OF assms(1) _ assms(2)] assms(3)
    by (metis IntI empty_iff omap_ok_unique)
  with f show ?thesis by (simp add: cmp_of_block_def)
qed

lemma cmp_of_block_none:
  "omap_ok (CmpMap s) \<Longrightarrow> (\<And>c S. map_of (CmpMap s) c = Some S \<Longrightarrow> b \<notin> set S) \<Longrightarrow> cmp_of_block s b = 0"
  by (auto simp: cmp_of_block_def omap_ok_unique [symmetric] dest!: find_SomeD split: option.splits)

section \<open>Properties\<close>

text \<open>C8. The pass gives every function, argument, block and instruction of the module an identifier of its
  own, none of them the 0 that stands for an unknown object, as long as the 64-bit counter does not
  wrap around.\<close>

theorem id_numbering:
  assumes "runOnModule_ids M fl = Some s" "distinct (module_order (funcs M))"
    and "length (module_order (funcs M)) < 2 ^ 64"
  shows "dom (IdMap s) = set (module_order (funcs M)) \<and> inj_on (id_of s) (set (module_order (funcs M))) \<and>
         0 \<notin> id_of s ` set (module_order (funcs M))"
  using runOnModule_numbering [OF assms] by (auto simp: image_iff)

text \<open>A function whose two blocks end in traced comparisons 7 and 9.\<close>

definition traced_module :: llvm_module where
  "traced_module =
     (let tr = (\<lambda>a c. mk_inst a True (CallInst (Const (GlobalValue 90 FunctionG ''__dfsw___angora_trace_cmp_tt''))
                                        [Const (ConstantInt 32 c)]))
      in \<lparr>mod_id = ''t'', funcs =
           [\<lparr>faddr = 1, fname = ''f'', fargs = [(2, ''p'')], blocks =
              [mk_block 10 [mk_inst 20 False (CmpInst False 32 (Arg 2) (Const (ConstantInt 32 0))),
                            tr 21 7, mk_inst 22 True (CondBranchInst (Inst ICmp 20) 11 12)],
               mk_block 11 [tr 23 9, mk_inst 24 True (BranchInst 12)],
               mk_block 12 [mk_inst 25 True (ReturnInst [])]]\<rparr>]\<rparr>)"

definition traced_ids :: id_state where
  "traced_ids = the (runOnModule_ids traced_module True)"

lemma traced_run: "runOnModule_ids traced_module True = Some traced_ids"
proof -
  have "runOnModule_ids traced_module True \<noteq> None" by code_simp
  then show ?thesis by (auto simp: traced_ids_def)
qed

lemma traced_order:
  "distinct (module_order (funcs traced_module))" "length (module_order (funcs traced_module)) < 2 ^ 64"
proof -
  have "length (module_order (funcs traced_module)) = 11" by code_simp
  then show "length (module_order (funcs traced_module)) < 2 ^ 64" by simp
qed code_simp

theorem id_numbering_witness:
  "dom (IdMap traced_ids) = set (module_order (funcs traced_module)) \<and>
   inj_on (id_of traced_ids) (set (module_order (funcs traced_module))) \<and>
   0 \<notin> id_of traced_ids ` set (module_order (funcs traced_module))"
  by (rule id_numbering [OF traced_run traced_order])

text \<open>C9. The search for the comparisons that decide an indirect call always ends, whatever cycles the
  control flow and the def-use chains have, and returns exactly the comparison instructions that its
  steps (condition of a branch, terminators of predecessors, users of a loaded address) lead to.\<close>

theorem collect_terminates_exact:
  "\<exists>Result Seen. collectPreviousIndirectBranch M fl (collect_fuel M) a ([], []) = Some (Result, Seen) \<and>
     set Result = {b. (a, b) \<in> (flow_edges M fl)\<^sup>* \<and> cmp_at M b}"
  by (rule collect_exact)

text \<open>C10. The recorded control-flow graph has exactly the edges of the functions' branches, between the
  final identifiers of the blocks.\<close>

theorem cfg_edges_exact:
  assumes "runOnModule_ids M fl = Some s" "distinct (module_order (funcs M))" "list_all local_cfg (funcs M)"
  shows "set (CfgEdges s) = (\<Union>F \<in> set (funcs M). block_edges (id_of s) (blocks F))"
  using visit_functions_edges [OF assms(1) [unfolded runOnModule_ids_def] assms(2)] assms(3)
  by (auto simp: list_all_iff id_init_def)

theorem cfg_edges_exact_witness:
  "set (CfgEdges traced_ids) = (\<Union>F \<in> set (funcs traced_module). block_edges (id_of traced_ids) (blocks F))"
proof (rule cfg_edges_exact [OF traced_run traced_order(1)])
  show "list_all local_cfg (funcs traced_module)" by code_simp
qed

text \<open>C11. A block belongs to at most one comparison: the block sets that the pass assigns to two different
  comparison identifiers have no block in common.\<close>

theorem cmp_blocks_disjoint:
  assumes "runOnModule_ids M fl = Some s" "distinct (module_order (funcs M))"
    and "length (module_order (funcs M)) < 2 ^ 64"
    and "map_of (CmpMap s) c = Some S" "map_of (CmpMap s) c' = Some S'" "c \<noteq> c'"
  shows "set S \<inter> set S' = {}"
  using runOnModule_cmp_inv [OF assms(1-3)] cmp_inv_disjoint assms(4-6) by blast

lemma traced_cmps: "map_of (CmpMap traced_ids) 7 = Some [3]" "map_of (CmpMap traced_ids) 9 = Some [7]"
  by code_simp+

theorem cmp_blocks_disjoint_witness: "set [3 :: u64] \<inter> set [7] = {}"
  by (rule cmp_blocks_disjoint [OF traced_run traced_order traced_cmps]) simp

text \<open>The graph of comparisons is the image of the graph of blocks: its edges are those between the
  comparisons of the two ends of a block edge, 0 standing for a block without one.\<close>

theorem cmp_cfg_image:
  "set (getCmpCfg s) = (\<lambda>(x, y). (cmp_of_block s x, cmp_of_block s y)) ` set (CfgEdges s)"
  by (rule getCmpCfg_set)

end
