(* ===== verification/ID_Output.thy ===== *)
theory ID_Output
  imports ID_Assigner
begin

text \<open>
  The reports and the custom targets of the identifier pass (\<^verbatim>\<open>IDAssigner.cpp\<close>): the CSV files with
  the identifiers, the control flow edges and the comparison map, and the insertion of calls to
  \<^verbatim>\<open>__parmesan_custom_target\<close> at the source lines listed in a file.  LLVM's number and location
  formatting is a parameter (\<open>outfmt\<close>); the iteration order of the identifier map, which LLVM leaves
  open, is the order of the list the functions take.
\<close>

section \<open>Reports\<close>

record outfmt =
  fmt_hex :: "u64 \<Rightarrow> string" \<comment> \<open>\<^verbatim>\<open>formatv("{0:x}")\<close>\<close>
  fmt_hex16 :: "u64 \<Rightarrow> string" \<comment> \<open>\<^verbatim>\<open>formatv("{0,16:x}")\<close>\<close>
  print_loc :: "debugloc \<Rightarrow> string" \<comment> \<open>\<^verbatim>\<open>DebugLoc::print\<close>\<close>

datatype idobj = OFunction func | OArgument func vid | OBlock func block | OInst func inst

fun writeFunctionName :: "idobj \<Rightarrow> string" where
  "writeFunctionName (OFunction F) = fname F"
| "writeFunctionName (OArgument F _) = fname F"
| "writeFunctionName (OBlock F _) = fname F"
| "writeFunctionName (OInst F _) = fname F"

definition writeInstDebugInfo :: "outfmt \<Rightarrow> inst \<Rightarrow> string" where
  "writeInstDebugInfo P I =
     (case idebug I of
        None \<Rightarrow> []
      | Some Loc \<Rightarrow> (if dl_dir Loc \<noteq> [] then dl_dir Loc @ ''/'' else []) @ print_loc P Loc)"

definition first_debug :: "outfmt \<Rightarrow> block list \<Rightarrow> string" where
  "first_debug P Bs =
     (case Bs of
        [] \<Rightarrow> []
      | B # _ \<Rightarrow> (case first_real_inst B of Some I \<Rightarrow> writeInstDebugInfo P I | None \<Rightarrow> []))"

fun writeDebugInfo :: "outfmt \<Rightarrow> idobj \<Rightarrow> string" where
  "writeDebugInfo P (OFunction F) = first_debug P (blocks F)"
| "writeDebugInfo P (OArgument F _) = first_debug P (blocks F)"
| "writeDebugInfo P (OBlock _ B) = first_debug P [B]"
| "writeDebugInfo P (OInst _ I) = writeInstDebugInfo P I"

fun obj_title :: "idobj \<Rightarrow> string" where
  "obj_title (OFunction _) = ''Function:'' @ [CHR 0x09]"
| "obj_title (OArgument _ _) = ''Argument:'' @ [CHR 0x09]"
| "obj_title (OBlock _ _) = ''BasicBlock:'' @ [CHR 0x09]"
| "obj_title (OInst _ _) = ''Instruction:'' @ [CHR 0x09]"

fun obj_tag :: "idobj \<Rightarrow> string" where
  "obj_tag (OFunction _) = ''func,''"
| "obj_tag (OArgument _ _) = ''farg,''"
| "obj_tag (OBlock _ _) = ''babl,''"
| "obj_tag (OInst _ _) = ''inst,''"

definition id_print :: "outfmt \<Rightarrow> (idobj \<times> u64) list \<Rightarrow> string" where
  "id_print P m =
     concat (map (\<lambda>(v, i). fmt_hex16 P i @ '': '' @ obj_title v @ ''('' @ writeFunctionName v @ '') ''
                           @ writeDebugInfo P v @ nl) m)"

definition emitInfoFile :: "outfmt \<Rightarrow> (idobj \<times> u64) list \<Rightarrow> string" where
  "emitInfoFile P m =
     ''id,type,function,debug_info'' @ nl @
     concat (map (\<lambda>(v, i). fmt_hex P i @ '','' @ obj_tag v @ writeFunctionName v @ '','' @ dq
                           @ writeDebugInfo P v @ dq @ nl) m)"

definition emitCfgFile :: "id_state \<Rightarrow> string" where
  "emitCfgFile s =
     ''src,dst'' @ nl @
     concat (map (\<lambda>(src, dst). show_nat (unat src) @ '','' @ show_nat (unat dst) @ nl) (CfgEdges s))"

text \<open>The comparison identifier is printed as a \<^verbatim>\<open>uint32_t\<close>.\<close>

definition to_uint32 :: "int \<Rightarrow> nat" where
  "to_uint32 i = nat (i mod 2 ^ 32)"

definition emitCmpMapFile :: "id_state \<Rightarrow> string" where
  "emitCmpMapFile s =
     ''cmpId,bbId'' @ nl @
     concat (map (\<lambda>(c, bbs). concat (map (\<lambda>E. show_nat (to_uint32 c) @ '','' @ show_nat (unat E) @ nl) bbs))
                 (CmpMap s))"

section \<open>Custom targets\<close>

text \<open>\<^verbatim>\<open>getDebugLoc\<close> updates its two reference arguments only when there is a location.\<close>

definition getDebugLoc :: "inst \<Rightarrow> string \<times> nat \<Rightarrow> string \<times> nat" where
  "getDebugLoc I fl =
     (case idebug I of
        None \<Rightarrow> fl
      | Some Loc \<Rightarrow>
          if dl_file Loc = []
          then (case dl_inlined Loc of
                  Some (l, f) \<Rightarrow> (f, l)
                | None \<Rightarrow> (dl_file Loc, dl_line Loc))
          else (dl_file Loc, dl_line Loc))"

text \<open>\<^verbatim>\<open>std::string::find_last_of\<close> and \<^verbatim>\<open>substr(pos + 1)\<close>; \<open>None\<close> is \<^verbatim>\<open>npos\<close>.\<close>

fun find_last_of :: "char set \<Rightarrow> string \<Rightarrow> nat option" where
  "find_last_of cs [] = None"
| "find_last_of cs (x # xs) =
     (case find_last_of cs xs of
        Some i \<Rightarrow> Some (Suc i)
      | None \<Rightarrow> if x \<in> cs then Some 0 else None)"

text \<open>\<^verbatim>\<open>atoi\<close> of a string: leading white space, a sign, digits; as \<^verbatim>\<open>unsigned int\<close>.\<close>

definition is_space :: "char \<Rightarrow> bool" where
  "is_space c = (c \<in> {CHR '' '', CHR 0x09, CHR 0x0A, CHR 0x0B, CHR 0x0C, CHR 0x0D})"

definition is_digit :: "char \<Rightarrow> bool" where
  "is_digit c = (48 \<le> (of_char c :: nat) \<and> (of_char c :: nat) \<le> 57)"

definition atoi :: "string \<Rightarrow> int" where
  "atoi s =
     (let t = dropWhile is_space s
      in case t of
           [] \<Rightarrow> 0
         | c # r \<Rightarrow>
             if c = CHR ''-'' then - int (read_nat 0 (takeWhile is_digit r))
             else if c = CHR ''+'' then int (read_nat 0 (takeWhile is_digit r))
             else int (read_nat 0 (takeWhile is_digit t)))"

definition strip_dir :: "string \<Rightarrow> string" where
  "strip_dir t = (case find_last_of {CHR ''/'', CHR 0x5C} t of None \<Rightarrow> t | Some i \<Rightarrow> drop (i + 1) t)"

definition target_match :: "string \<Rightarrow> string \<Rightarrow> nat \<Rightarrow> bool" where
  "target_match target filename ln =
     (let (target_file, rest) =
        (case find_last_of {CHR '':''} target of
           None \<Rightarrow> (target, target)
         | Some pos \<Rightarrow> (take pos target, drop (pos + 1) target))
      in target_file = filename \<and> to_uint32 (atoi rest) = ln)"

text \<open>State of the loop: \<^verbatim>\<open>is_target\<close>, the target list (its entries are cut down in place) and the
  calls inserted so far, each with the instruction it precedes and its argument.\<close>

type_synonym ct_state = "bool \<times> string list \<times> (vid \<times> u32) list"

text \<open>The loop over the targets for one instruction.\<close>

fun match_targets :: "u32 \<Rightarrow> vid \<Rightarrow> string \<Rightarrow> nat \<Rightarrow> string list \<Rightarrow> bool \<Rightarrow> ct_state" where
  "match_targets i a filename ln [] hit = (hit, [], [])"
| "match_targets i a filename ln (t # ts) hit =
     (let t' = strip_dir t; m = target_match t' filename ln;
          (hit', ts', calls) = match_targets i a filename ln ts (hit \<or> m)
      in (hit', t' # ts', (if m then [(a, i)] else []) @ calls))"

definition Xlibs :: string where "Xlibs = ''/usr/''"

fun ct_insts :: "id_state \<Rightarrow> inst list \<Rightarrow> string \<times> nat \<Rightarrow> ct_state \<Rightarrow> ct_state" where
  "ct_insts s [] fl st = st"
| "ct_insts s (I # Is) fl (is_target, targets, calls) =
     (if is_target then (is_target, targets, calls)
      else let fl' = getDebugLoc I fl; (filename, ln) = fl'
           in if filename = [] \<or> ln = 0 \<or> str_prefix Xlibs filename
              then ct_insts s Is fl' (is_target, targets, calls)
              else let (hit, targets', new) =
                         match_targets (ucast (id_of s (iaddr I))) (iaddr I) filename ln targets is_target
                   in ct_insts s Is fl' (hit, targets', calls @ new))"

definition ct_function :: "id_state \<Rightarrow> func \<Rightarrow> string list \<times> (vid \<times> u32) list \<Rightarrow> string list \<times> (vid \<times> u32) list" where
  "ct_function s F tc =
     snd (fold (\<lambda>B st. ct_insts s (insts B) ([], 0) st) (blocks F) (False, tc))"

text \<open>The calls inserted into the module, for the lines of the target file (\<open>None\<close>: it cannot be
  opened).\<close>

definition addCustomTargetsFromFile :: "string \<Rightarrow> string list option \<Rightarrow> id_state \<Rightarrow> llvm_module \<Rightarrow> (vid \<times> u32) list" where
  "addCustomTargetsFromFile Path file_lines s M =
     (if Path = [] then []
      else case file_lines of
             None \<Rightarrow> []
           | Some targets \<Rightarrow> snd (fold (ct_function s) (funcs M) (targets, [])))"

section \<open>At most one instruction per function is marked\<close>

lemma match_targets_spec:
  "match_targets i a f ln ts hit = (hit', ts', calls) \<Longrightarrow>
   hit' = (hit \<or> calls \<noteq> []) \<and> (\<forall>c \<in> set calls. c = (a, i)) \<and> ts' = map strip_dir ts \<and>
   length calls = length (filter (\<lambda>t. target_match t f ln) ts')"
proof (induction ts arbitrary: hit hit' ts' calls)
  case (Cons t ts)
  obtain h us cs where r: "match_targets i a f ln ts (hit \<or> target_match (strip_dir t) f ln) = (h, us, cs)"
    by (metis prod_cases3)
  from Cons.IH [OF r] r Cons.prems show ?case by (auto simp: Let_def split: if_splits)
qed simp

text \<open>\<open>new\<close> calls, all in front of one instruction, added only if nothing was marked before.\<close>

definition ct_step :: "ct_state \<Rightarrow> ct_state \<Rightarrow> bool" where
  "ct_step st st' \<longleftrightarrow>
     (\<exists>new a. snd (snd st') = snd (snd st) @ new \<and> (\<forall>c \<in> set new. fst c = a) \<and>
        fst st' = (fst st \<or> new \<noteq> []) \<and> (fst st \<longrightarrow> new = []))"

lemma ct_step_refl: "ct_step st st"
  by (auto simp: ct_step_def intro: exI [of _ "[]"])

lemma ct_step_trans:
  assumes "ct_step st st'" "ct_step st' st''"
  shows "ct_step st st''"
proof -
  obtain new a new' a' where n: "snd (snd st') = snd (snd st) @ new" "\<forall>c \<in> set new. fst c = a"
      "fst st' = (fst st \<or> new \<noteq> [])" "fst st \<longrightarrow> new = []"
      "snd (snd st'') = snd (snd st') @ new'" "\<forall>c \<in> set new'. fst c = a'"
      "fst st'' = (fst st' \<or> new' \<noteq> [])" "fst st' \<longrightarrow> new' = []"
    using assms unfolding ct_step_def by blast
  have "\<forall>c \<in> set (new @ new'). fst c = (if new = [] then a' else a)" using n by auto
  with n show ?thesis unfolding ct_step_def
    by (intro exI [of _ "new @ new'"] exI [of _ "if new = [] then a' else a"]) auto
qed

lemma ct_insts_step: "ct_step st (ct_insts s Is fl st)"
proof (induction s Is fl st rule: ct_insts.induct)
  case (2 s I Is fl is_target targets calls)
  show ?case
  proof (cases "is_target")
    case True
    then show ?thesis by (simp add: ct_step_refl)
  next
    case False
    obtain f ln where fl: "getDebugLoc I fl = (f, ln)" by (cases "getDebugLoc I fl")
    obtain hit ts' new where m:
      "match_targets (ucast (id_of s (iaddr I))) (iaddr I) f ln targets is_target = (hit, ts', new)"
      by (metis prod_cases3)
    have "ct_step (is_target, targets, calls) (hit, ts', calls @ new)"
      using match_targets_spec [OF m] False
      by (auto simp: ct_step_def intro!: exI [of _ new] exI [of _ "iaddr I"])
    with 2 False fl m show ?thesis
      by (auto simp: Let_def intro: ct_step_trans)
  qed
qed (simp add: ct_step_refl)

lemma ct_function_marks:
  assumes "ct_function s F (ts, calls) = (ts', calls')"
  shows "\<exists>new a. calls' = calls @ new \<and> (\<forall>c \<in> set new. fst c = a)"
proof -
  have "ct_step st (fold (\<lambda>B st. ct_insts s (insts B) ([], 0) st) Bs st)" for Bs st
  proof (induction Bs arbitrary: st)
    case (Cons B Bs)
    show ?case using ct_step_trans [OF ct_insts_step Cons.IH] by simp
  qed (simp add: ct_step_refl)
  from this [of "(False, ts, calls)" "blocks F"] assms show ?thesis
    by (auto simp: ct_function_def ct_step_def split: prod.splits)
qed

text \<open>Once a directory is stripped from a target, stripping it again changes nothing.\<close>

lemma find_last_of_drop: "find_last_of cs t = Some i \<Longrightarrow> find_last_of cs (drop (Suc i) t) = None"
proof (induction t arbitrary: i)
  case (Cons x t)
  then show ?case by (cases i) (auto split: option.splits if_splits)
qed simp

lemma strip_dir_idem: "strip_dir (strip_dir t) = strip_dir t"
  by (auto simp: strip_dir_def find_last_of_drop split: option.splits)

section \<open>Properties\<close>

text \<open>Within one function the custom target pass inserts its marker before at most one instruction,
  however many lines of the target file match.\<close>

theorem custom_target_one_instruction:
  "\<exists>new a. snd (ct_function s F (ts, calls)) = calls @ new \<and> list_all (\<lambda>c. fst c = a) new"
  using ct_function_marks [of s F ts calls "fst (ct_function s F (ts, calls))" "snd (ct_function s F (ts, calls))"]
  by (auto simp: list_all_iff)

text \<open>The cast in the file of comparisons undoes the sign that \<^verbatim>\<open>CmpIdType\<close> gives a comparison identifier: the
  fuzzer reads back the unsigned 32-bit identifier that the instrumentation passed to the runtime.\<close>

theorem cmp_id_unsigned: "int (to_uint32 (to_int32 v)) = v mod 2 ^ 32"
proof -
  have "(v + 2 ^ 31) mod 2 ^ 32 - 2 ^ 31 = (v + 2 ^ 31) - 2 ^ 32 * ((v + 2 ^ 31) div 2 ^ 32) - 2 ^ 31"
    by (simp add: minus_div_mult_eq_mod [symmetric] mult.commute)
  then have "to_int32 v = v - 2 ^ 32 * ((v + 2 ^ 31) div 2 ^ 32)" by (simp add: to_int32_def)
  then have "to_int32 v mod 2 ^ 32 = v mod 2 ^ 32" by (simp add: mod_diff_right_eq [symmetric])
  then show ?thesis by (simp add: to_uint32_def)
qed

end
