(* ===== verification/Diff_Consumer.thy ===== *)
theory Diff_Consumer
  imports Diff_Log ID_Output
begin

text \<open>
  \<^verbatim>\<open>tools/llvm-diff-parmesan/DiffConsumer.{h,cpp}\<close>: the consumer of the difference engine's calls.
  It keeps the stack of contexts, prints the differences, collects the identifiers of the basic
  blocks in which a difference was reported and at the end prints the targets.

  \<open>penv\<close> is what the consumer asks LLVM about a value: its name, whether its type is void, its
  instruction kind, its function, and how LLVM prints it; the last one is LLVM's own text.
  \<open>None\<close> is undefined behaviour (\<^verbatim>\<open>contexts.back()\<close> of an empty stack, a format string that ends in
  \<^verbatim>\<open>%\<close>, \<^verbatim>\<open>llvm_unreachable\<close>, a missing format argument).
\<close>

section \<open>State\<close>

record penv =
  pe_name :: "irvalue \<Rightarrow> string"
  pe_void :: "irvalue \<Rightarrow> bool"
  pe_kind :: "irvalue \<Rightarrow> ikind option"
  pe_func :: "irvalue \<Rightarrow> func option"
  pe_print :: "irvalue \<Rightarrow> string"

type_synonym numbering = "(irvalue \<times> nat) list"

record DiffContext =
  ctx_L :: irvalue
  ctx_R :: irvalue
  ctx_Differences :: bool
  IsFunction :: bool
  LNumbering :: numbering
  RNumbering :: numbering

record consumer =
  out :: string
  dbg :: string
  contexts :: "DiffContext list" \<comment> \<open>the innermost context last\<close>
  Differences :: bool
  Indent :: nat
  DiffIdSet :: "u64 oset"

definition consumer_init :: consumer where
  "consumer_init = \<lparr>out = [], dbg = [], contexts = [], Differences = False, Indent = 0, DiffIdSet = []\<rparr>"

fun is_function :: "irvalue \<Rightarrow> bool" where
  "is_function (Const (GlobalValue _ FunctionG _)) = True"
| "is_function _ = False"

fun is_global :: "irvalue \<Rightarrow> bool" where
  "is_global (Const (GlobalValue _ _ _)) = True"
| "is_global _ = False"

definition new_context :: "irvalue \<Rightarrow> irvalue \<Rightarrow> DiffContext" where
  "new_context L R = \<lparr>ctx_L = L, ctx_R = R, ctx_Differences = False, IsFunction = is_function L,
     LNumbering = [], RNumbering = []\<rparr>"

definition put :: "string \<Rightarrow> consumer \<Rightarrow> consumer" where
  "put t c = c\<lparr>out := out c @ t\<rparr>"

section \<open>Printing values\<close>

text \<open>\<^verbatim>\<open>ComputeNumbering\<close>: arguments, blocks and value-producing instructions without a name, in
  order.\<close>

definition unnamed_values :: "func \<Rightarrow> irvalue list" where
  "unnamed_values F =
     map (\<lambda>(a, _). Arg a) (filter (\<lambda>(a, n). n = []) (fargs F)) @
     concat (map (\<lambda>B. (if bname B = [] then [Block (baddr B)] else []) @
                      map inst_value (filter (\<lambda>I. iname I = [] \<and> ity I \<noteq> VoidTy) (insts B)))
                 (blocks F))"

definition ComputeNumbering :: "func \<Rightarrow> numbering" where
  "ComputeNumbering F = zip (unnamed_values F) [0..<length (unnamed_values F)]"

text \<open>\<^verbatim>\<open>Numbering[V]\<close>: an absent value is entered with number 0.\<close>

definition read_numbering :: "numbering \<Rightarrow> irvalue \<Rightarrow> nat \<times> numbering" where
  "read_numbering N V = (case map_of N V of Some n \<Rightarrow> (n, N) | None \<Rightarrow> (0, N @ [(V, 0)]))"

text \<open>The search for the innermost function context, from the top of the stack.\<close>

definition innermost_function :: "DiffContext list \<Rightarrow> nat option" where
  "innermost_function cs =
     find (\<lambda>i. IsFunction (cs ! i)) (rev [0..<length cs])"

definition print_local :: "penv \<Rightarrow> irvalue \<Rightarrow> bool \<Rightarrow> consumer \<Rightarrow> consumer" where
  "print_local E V isL c =
     (case innermost_function (contexts c) of
        None \<Rightarrow> put ''<anonymous>'' c
      | Some N \<Rightarrow>
          let ctxt = contexts c ! N
          in if isL
             then let num = (if LNumbering ctxt = []
                             then (case pe_func E (ctx_L ctxt) of
                                     Some F \<Rightarrow> ComputeNumbering F | None \<Rightarrow> [])
                             else LNumbering ctxt);
                      (n, num') = read_numbering num V
                  in put (''%'' @ show_nat n)
                       (c\<lparr>contexts := (contexts c)[N := ctxt\<lparr>LNumbering := num'\<rparr>]\<rparr>)
             else let num = (if RNumbering ctxt = []
                             then (case pe_func E (ctx_R ctxt) of
                                     Some F \<Rightarrow> ComputeNumbering F | None \<Rightarrow> [])
                             else RNumbering ctxt);
                      (n, num') = read_numbering num V
                  in put (''%'' @ show_nat n)
                       (c\<lparr>contexts := (contexts c)[N := ctxt\<lparr>RNumbering := num'\<rparr>]\<rparr>))"

text \<open>\<^verbatim>\<open>printValue\<close>, with a bound on the recursion into the operand of a void instruction.  The
  operand is a pointer and never void itself, so the bound 2 is never reached, see
  \<open>printValue_bound\<close>.\<close>

fun printValue :: "penv \<Rightarrow> nat \<Rightarrow> irvalue \<Rightarrow> bool \<Rightarrow> consumer \<Rightarrow> consumer option" where
  "printValue E 0 V isL c = None"
| "printValue E (Suc d) V isL c =
     (if pe_name E V \<noteq> []
      then Some (put ((if is_global V then ''@'' else ''%'') @ pe_name E V) c)
      else if pe_void E V
      then (case pe_kind E V of
              Some (StoreInst _ p) \<Rightarrow> printValue E d p isL (put ''store to '' c)
            | Some (CallInst f _) \<Rightarrow> printValue E d f isL (put ''call to '' c)
            | Some (InvokeInst f _ _ _) \<Rightarrow> printValue E d f isL (put ''invoke to '' c)
            | _ \<Rightarrow> Some (put (pe_print E V) c))
      else (case V of
              Const _ \<Rightarrow> Some (put (pe_print E V) c)
            | _ \<Rightarrow> Some (print_local E V isL c)))"

abbreviation print_value :: "penv \<Rightarrow> irvalue \<Rightarrow> bool \<Rightarrow> consumer \<Rightarrow> consumer option" where
  "print_value E \<equiv> printValue E 2"

section \<open>Contexts and messages\<close>

definition id_lookup :: "id_state \<Rightarrow> irvalue \<Rightarrow> u64" where
  "id_lookup ids V = (case V of Block b \<Rightarrow> id_of ids b | _ \<Rightarrow> 0)"

text \<open>What \<^verbatim>\<open>header\<close> prints for a context; a block is entered into \<^verbatim>\<open>DiffIdSet\<close>.\<close>

definition header_title :: "penv \<Rightarrow> id_state \<Rightarrow> irvalue \<Rightarrow> irvalue \<Rightarrow> consumer \<Rightarrow> consumer option" where
  "header_title E ids L R c =
     (case L of
        Const (GlobalValue _ FunctionG ln) \<Rightarrow>
          let c1 = (if Differences c then put (nl @ nl) c else c); rn = pe_name E R
          in Some (put (if ln \<noteq> rn then ''in function '' @ ln @ '' / '' @ rn @ '':'' @ nl
                        else ''in function '' @ ln @ '':'' @ nl) c1)
      | Block _ \<Rightarrow>
          let diffId = id_lookup ids L;
              c1 = c\<lparr>DiffIdSet := oset_insert diffId (DiffIdSet c)\<rparr>;
              ln = pe_name E L; rn = pe_name E R
          in if ln \<noteq> [] \<and> rn \<noteq> [] \<and> ln = rn
             then Some (put (''  in block %'' @ ln @ '':'' @ nl @
                             ''  in block %'' @ ln @ ''('' @ show_nat (unat diffId) @ '')'' @ '':'' @ nl) c1)
             else Option.bind (print_value E L True (put ''  in block '' c1))
                    (\<lambda>c2. map_option (put ('' ('' @ show_nat (unat diffId) @ '')'' @ '':'' @ nl))
                            (print_value E R False (put '' / '' c2)))
      | Inst _ _ \<Rightarrow>
          Option.bind (print_value E L True (put ''    in instruction '' c))
            (\<lambda>c2. map_option (put ('':'' @ nl)) (print_value E R False (put '' / '' c2)))
      | _ \<Rightarrow> Some c)"

definition set_flag :: "nat \<Rightarrow> consumer \<Rightarrow> consumer" where
  "set_flag i c = c\<lparr>contexts := (contexts c)[i := (contexts c ! i)\<lparr>ctx_Differences := True\<rparr>]\<rparr>"

text \<open>One iteration of the loop in \<^verbatim>\<open>header\<close>, for the context number \<open>i\<close>.\<close>

definition header_one :: "penv \<Rightarrow> id_state \<Rightarrow> nat \<Rightarrow> consumer \<Rightarrow> consumer option" where
  "header_one E ids i c =
     (let I = contexts c ! i
      in if ctx_Differences I then Some c
         else map_option (set_flag i) (header_title E ids (ctx_L I) (ctx_R I) c))"

definition header :: "penv \<Rightarrow> id_state \<Rightarrow> consumer \<Rightarrow> consumer option" where
  "header E ids c = ofold (header_one E ids) [0..<length (contexts c)] c"

definition indent :: "consumer \<Rightarrow> consumer" where
  "indent c = put (replicate (Indent c) (CHR '' '')) c"

definition hadDifferences :: "consumer \<Rightarrow> bool" where
  "hadDifferences c = Differences c"

definition enterContext :: "irvalue \<Rightarrow> irvalue \<Rightarrow> consumer \<Rightarrow> consumer" where
  "enterContext L R c = c\<lparr>contexts := contexts c @ [new_context L R], Indent := Indent c + 2\<rparr>"

definition exitContext :: "consumer \<Rightarrow> consumer option" where
  "exitContext c =
     (if contexts c = [] then None
      else Some (c\<lparr>Differences := Differences c \<or> ctx_Differences (last (contexts c)),
                   contexts := butlast (contexts c), Indent := Indent c - 2\<rparr>))"

definition log_text :: "penv \<Rightarrow> id_state \<Rightarrow> string \<Rightarrow> consumer \<Rightarrow> consumer option" where
  "log_text E ids text c = map_option (\<lambda>c. put (text @ nl) (indent c)) (header E ids c)"

text \<open>The formatting loop of \<^verbatim>\<open>logf\<close>.\<close>

fun logf_format :: "penv \<Rightarrow> string \<Rightarrow> irvalue list \<Rightarrow> consumer \<Rightarrow> consumer option" where
  "logf_format E [] args c = Some c"
| "logf_format E [ch] args c = (if ch = CHR ''%'' then None else Some (put [ch] c))"
| "logf_format E (ch # d # fmt) args c =
     (if ch \<noteq> CHR ''%'' then logf_format E (d # fmt) args (put [ch] c)
      else if d = CHR ''%'' then logf_format E fmt args (put ''%'' c)
      else if d = CHR ''l''
        then (case args of [] \<Rightarrow> None
              | a # as \<Rightarrow> Option.bind (print_value E a True c) (logf_format E fmt as))
      else if d = CHR ''r''
        then (case args of [] \<Rightarrow> None
              | a # as \<Rightarrow> Option.bind (print_value E a False c) (logf_format E fmt as))
      else None)"

definition logf_text :: "penv \<Rightarrow> id_state \<Rightarrow> string \<Rightarrow> irvalue list \<Rightarrow> consumer \<Rightarrow> consumer option" where
  "logf_text E ids fmt args c =
     Option.bind (header E ids c)
       (\<lambda>c. map_option
              (\<lambda>c. put (nl @ ''Diff IDs: '' @
                        concat (map (\<lambda>e. show_nat (unat e) @ '', '') (DiffIdSet c)) @ nl @ nl) c)
              (logf_format E fmt args (indent c)))"

definition logd_line :: "penv \<Rightarrow> DiffRecord \<Rightarrow> consumer \<Rightarrow> consumer" where
  "logd_line E r c =
     (let c1 = indent c;
          say = (\<lambda>v c. case v of None \<Rightarrow> c | Some V \<Rightarrow> c\<lparr>dbg := dbg c @ pe_print E V @ nl\<rparr>)
      in case getLineKind r of
           DC_match \<Rightarrow> say (fst r) (put ''  '' c1)
         | DC_left \<Rightarrow> say (fst r) (put ''< '' c1)
         | DC_right \<Rightarrow> say (snd r) (put ''> '' c1))"

definition logd_text :: "penv \<Rightarrow> id_state \<Rightarrow> DiffRecord list \<Rightarrow> consumer \<Rightarrow> consumer option" where
  "logd_text E ids Diff c = map_option (fold (logd_line E) Diff) (header E ids c)"

section \<open>Handling the engine's calls\<close>

fun consume :: "penv \<Rightarrow> id_state \<Rightarrow> event \<Rightarrow> consumer \<Rightarrow> consumer option" where
  "consume E ids (EnterContext L R) c = Some (enterContext L R c)"
| "consume E ids ExitContext c = exitContext c"
| "consume E ids (Log t) c = log_text E ids t c"
| "consume E ids (LogF f as) c = logf_text E ids f as c"
| "consume E ids (LogD d) c = logd_text E ids d c"

definition consume_all :: "penv \<Rightarrow> id_state \<Rightarrow> event list \<Rightarrow> consumer \<Rightarrow> consumer option" where
  "consume_all E ids = ofold (consume E ids)"

section \<open>Targets\<close>

text \<open>The comparisons that claim a block with a difference.\<close>

definition diff_cmps :: "id_state \<Rightarrow> consumer \<Rightarrow> int oset" where
  "diff_cmps ids c =
     fold (\<lambda>(e, bbs) cmps.
             fold (\<lambda>bb cmps. if bb \<in> set (DiffIdSet c) then oset_insert e cmps else cmps) bbs cmps)
          (CmpMap ids) []"

definition printStats :: "id_state \<Rightarrow> consumer \<Rightarrow> consumer" where
  "printStats ids c =
     put (nl @ ''Diff BB IDs: '' @ concat (map (\<lambda>e. show_nat (unat e) @ '' '') (DiffIdSet c)) @ nl @
          ''Diff Cmp IDs: '' @ concat (map (\<lambda>e. show_int e @ '' '') (diff_cmps ids c)) @ nl @
          ''Call Site Dominators:'' @ nl @
          concat (map (\<lambda>(cs, bbs). show_int cs @ '': '' @ concat (map (\<lambda>bb. show_int bb @ '','') bbs) @ nl)
                      (CallSiteDominatorsMap ids))) c"

text \<open>A loop that prints a separator before every element but the first.\<close>

fun sep_loop :: "bool \<Rightarrow> string list \<Rightarrow> string" where
  "sep_loop first [] = []"
| "sep_loop first (x # xs) = (if first then [] else '', '') @ x @ sep_loop False xs"

definition printStatsJson :: "id_state \<Rightarrow> consumer \<Rightarrow> string" where
  "printStatsJson ids c =
     ''{'' @ nl @ dq @ ''targets'' @ dq @ '': ['' @
     sep_loop True (map show_int (diff_cmps ids c)) @ ''],'' @ nl @
     dq @ ''edges'' @ dq @ '': ['' @
     sep_loop True (map (\<lambda>(src, dst). ''['' @ show_int src @ '','' @ show_int dst @ '']'') (getCmpCfg ids)) @
     ''],'' @ nl @
     dq @ ''callsite_dominators'' @ dq @ '':'' @ ''{'' @
     sep_loop True (map (\<lambda>(cs, bbs). dq @ show_int cs @ dq @ '': ['' @ sep_loop True (map show_int bbs) @ '']'')
                        (CallSiteDominatorsMap ids)) @
     ''}'' @ nl @ ''}''"

lemma diff_cmps_set:
  "set (diff_cmps ids c) = {e. \<exists>bbs. (e, bbs) \<in> set (CmpMap ids) \<and> set bbs \<inter> set (DiffIdSet c) \<noteq> {}}"
proof -
  have inner: "set (fold (\<lambda>bb cmps. if bb \<in> D then oset_insert e cmps else cmps) bbs cmps) =
      set cmps \<union> (if set bbs \<inter> D \<noteq> {} then {e} else {})" for D :: "u64 set" and e :: int and bbs cmps
    by (induction bbs arbitrary: cmps) (auto simp: set_insort_insert)
  have "set (fold (\<lambda>(e, bbs) cmps. fold (\<lambda>bb cmps. if bb \<in> D then oset_insert e cmps else cmps) bbs cmps) m cmps) =
      set cmps \<union> {e. \<exists>bbs. (e, bbs) \<in> set m \<and> set bbs \<inter> D \<noteq> {}}"
    for D :: "u64 set" and m :: "(int, u64 oset) omap" and cmps
    by (induction m arbitrary: cmps) (auto simp: inner split: if_splits)
  then show ?thesis by (simp add: diff_cmps_def)
qed

lemma diff_cmps_ok: "oset_ok (diff_cmps ids c)"
proof -
  have inner: "oset_ok cmps \<Longrightarrow> oset_ok (fold (\<lambda>bb cmps. if bb \<in> D then oset_insert e cmps else cmps) bbs cmps)"
    for D :: "u64 set" and e :: int and bbs cmps
    by (induction bbs arbitrary: cmps) (auto simp: oset_ok_insert)
  have "oset_ok cmps \<Longrightarrow>
      oset_ok (fold (\<lambda>(e, bbs) cmps. fold (\<lambda>bb cmps. if bb \<in> D then oset_insert e cmps else cmps) bbs cmps) m cmps)"
    for D :: "u64 set" and m :: "(int, u64 oset) omap" and cmps
    by (induction m arbitrary: cmps) (auto simp: inner)
  then show ?thesis by (simp add: diff_cmps_def)
qed

section \<open>What printing leaves alone\<close>

definition ctx_view :: "DiffContext \<Rightarrow> irvalue \<times> bool" where
  "ctx_view x = (ctx_L x, ctx_Differences x)"

definition same_shape :: "consumer \<Rightarrow> consumer \<Rightarrow> bool" where
  "same_shape c c' \<longleftrightarrow>
     map ctx_view (contexts c') = map ctx_view (contexts c) \<and> DiffIdSet c' = DiffIdSet c \<and>
     Differences c' = Differences c \<and> Indent c' = Indent c"

lemma same_shape_refl [simp]: "same_shape c c"
  by (simp add: same_shape_def)

lemma same_shape_trans [trans]: "same_shape a b \<Longrightarrow> same_shape b c \<Longrightarrow> same_shape a c"
  by (simp add: same_shape_def)

lemma same_shape_put [simp]: "same_shape c (put t c') = same_shape c c'"
  by (simp add: same_shape_def put_def)

lemma map_ctx_view_update:
  "i < length cs \<Longrightarrow> map ctx_view (cs[i := x]) = (map ctx_view cs)[i := ctx_view x]"
  by (simp add: map_update)

lemma print_local_shape: "same_shape c (print_local E V isL c)"
proof (cases "innermost_function (contexts c)")
  case None
  then show ?thesis by (simp add: print_local_def)
next
  case (Some N)
  then have "N < length (contexts c)"
    by (auto simp: innermost_function_def dest: find_SomeD)
  then have upd: "map ctx_view ((contexts c)[N := x]) = map ctx_view (contexts c)"
    if "ctx_view x = ctx_view (contexts c ! N)" for x
    using that by (metis list_update_id map_update nth_map)
  show ?thesis
    using Some by (auto simp: print_local_def Let_def same_shape_def put_def upd ctx_view_def split: prod.splits)
qed

lemma printValue_shape: "printValue E d V isL c = Some c' \<Longrightarrow> same_shape c c'"
proof (induction E d V isL c rule: printValue.induct)
  case (2 E d V isL c)
  show ?case
  proof (cases "pe_name E V \<noteq> [] \<or> \<not> pe_void E V")
    case True
    with "2.prems" show ?thesis by (auto simp: print_local_shape split: if_splits irvalue.splits)
  next
    case False
    have sp: "same_shape (put t c) x \<Longrightarrow> same_shape c x" for t x
      by (simp add: same_shape_def put_def)
    from False 2 show ?thesis
      by (auto split: option.splits ikind.splits intro: sp)
  qed
qed simp

lemma printValue_bound:
  assumes "\<And>f as. pe_kind E V = Some (CallInst f as) \<Longrightarrow> \<not> pe_void E f"
    and "\<And>v p. pe_kind E V = Some (StoreInst v p) \<Longrightarrow> \<not> pe_void E p"
    and "\<And>f as n u. pe_kind E V = Some (InvokeInst f as n u) \<Longrightarrow> \<not> pe_void E f"
  shows "\<exists>c'. print_value E V isL c = Some c'"
proof -
  have base: "\<exists>c'. printValue E (Suc d) W isL x = Some c'" if "\<not> pe_void E W" for W x d
    using that by (cases W) auto
  show ?thesis
    using assms base by (auto simp: numeral_2_eq_2 split: option.splits ikind.splits irvalue.splits)
qed

section \<open>What a message reports\<close>

fun block_ids :: "id_state \<Rightarrow> irvalue \<Rightarrow> u64 set" where
  "block_ids ids (Block b) = {id_of ids b}"
| "block_ids ids _ = {}"

text \<open>Context \<open>i\<close> is flagged, its block recorded, everything else kept.\<close>

definition flag_post :: "id_state \<Rightarrow> nat \<Rightarrow> consumer \<Rightarrow> consumer \<Rightarrow> bool" where
  "flag_post ids i c c' \<longleftrightarrow>
     map ctx_view (contexts c') = (map ctx_view (contexts c))[i := (ctx_L (contexts c ! i), True)] \<and>
     set (DiffIdSet c') = set (DiffIdSet c) \<union>
        (if ctx_Differences (contexts c ! i) then {} else block_ids ids (ctx_L (contexts c ! i))) \<and>
     Differences c' = Differences c \<and> Indent c' = Indent c"

fun note_block :: "id_state \<Rightarrow> irvalue \<Rightarrow> consumer \<Rightarrow> consumer" where
  "note_block ids (Block b) c = c\<lparr>DiffIdSet := oset_insert (id_of ids b) (DiffIdSet c)\<rparr>"
| "note_block ids _ c = c"

lemma note_block_frame [simp]:
  "contexts (note_block ids V c) = contexts c"
  "Differences (note_block ids V c) = Differences c"
  "Indent (note_block ids V c) = Indent c"
  "set (DiffIdSet (note_block ids V c)) = set (DiffIdSet c) \<union> block_ids ids V"
  by (cases V; simp add: set_insort_insert)+

lemma two_prints_shape:
  assumes "Option.bind (print_value E V b (put t c))
      (\<lambda>c2. map_option (put u) (print_value E W b' (put t' c2))) = Some d"
  shows "same_shape c d"
proof -
  obtain c2 d' where *: "print_value E V b (put t c) = Some c2"
      "print_value E W b' (put t' c2) = Some d'" "d = put u d'"
    using assms by (auto simp: Option.bind_eq_Some_conv)
  have "same_shape (put t c) c2" "same_shape (put t' c2) d'"
    using * printValue_shape by blast+
  then show ?thesis using * by (simp add: same_shape_def put_def)
qed

lemma header_title_shape:
  assumes "header_title E ids L R c = Some d"
  shows "same_shape (note_block ids L c) d"
proof (cases L)
  case (Const k)
  show ?thesis
  proof (cases k)
    case (GlobalValue a g n)
    with assms Const show ?thesis by (cases g) (auto simp: header_title_def Let_def)
  qed (use assms Const in \<open>auto simp: header_title_def\<close>)
next
  case (Block b)
  with assms show ?thesis
    by (auto simp: header_title_def Let_def id_lookup_def split: if_splits dest: two_prints_shape)
next
  case (Inst op a)
  with assms show ?thesis by (auto simp: header_title_def dest: two_prints_shape)
qed (use assms in \<open>auto simp: header_title_def\<close>)

lemma header_one_post:
  assumes h: "header_one E ids i c = Some c'" and i: "i < length (contexts c)"
  shows "flag_post ids i c c'"
proof (cases "ctx_Differences (contexts c ! i)")
  case True
  with h have "c' = c" by (simp add: header_one_def Let_def)
  moreover have "(map ctx_view (contexts c))[i := (ctx_L (contexts c ! i), True)] = map ctx_view (contexts c)"
    using True i by (simp add: list_update_same_conv ctx_view_def)
  ultimately show ?thesis using True by (simp add: flag_post_def)
next
  case False
  let ?I = "contexts c ! i"
  obtain d where d: "same_shape (note_block ids (ctx_L ?I) c) d" "c' = set_flag i d"
    using h False by (auto simp: header_one_def Let_def dest: header_title_shape)
  have eqv: "map ctx_view (contexts d) = map ctx_view (contexts c)"
    using d(1) by (simp add: same_shape_def)
  have len: "length (contexts d) = length (contexts c)"
    using arg_cong [OF eqv, of length] by simp
  have "ctx_view (contexts d ! i) = ctx_view ?I"
    using arg_cong [OF eqv, of "\<lambda>xs. xs ! i"] i len by simp
  then have "ctx_view ((contexts d ! i)\<lparr>ctx_Differences := True\<rparr>) = (ctx_L ?I, True)"
    by (simp add: ctx_view_def)
  then show ?thesis
    using d i len False
    by (simp add: flag_post_def same_shape_def map_ctx_view_update set_flag_def)
qed

text \<open>A message flags every open context and records all their blocks.\<close>

definition report_post :: "id_state \<Rightarrow> consumer \<Rightarrow> consumer \<Rightarrow> bool" where
  "report_post ids c c' \<longleftrightarrow>
     map ctx_view (contexts c') = map (\<lambda>x. (ctx_L x, True)) (contexts c) \<and>
     set (DiffIdSet c') = set (DiffIdSet c) \<union>
        (\<Union>x \<in> set (contexts c). if ctx_Differences x then {} else block_ids ids (ctx_L x)) \<and>
     Differences c' = Differences c \<and> Indent c' = Indent c"

lemma header_prefix:
  "n \<le> length (contexts c) \<Longrightarrow> ofold (header_one E ids) [0..<n] c = Some c' \<Longrightarrow>
   map ctx_view (contexts c') =
     map (\<lambda>x. (ctx_L x, True)) (take n (contexts c)) @ map ctx_view (drop n (contexts c)) \<and>
   set (DiffIdSet c') = set (DiffIdSet c) \<union>
     (\<Union>x \<in> set (take n (contexts c)). if ctx_Differences x then {} else block_ids ids (ctx_L x)) \<and>
   Differences c' = Differences c \<and> Indent c' = Indent c"
proof (induction n arbitrary: c')
  case (Suc n)
  obtain d where d: "ofold (header_one E ids) [0..<n] c = Some d" "header_one E ids n d = Some c'"
    using Suc.prems(2) by (auto simp: ofold_append Option.bind_eq_Some_conv split: option.splits)
  have n: "n < length (contexts c)" using Suc.prems(1) by simp
  have IH: "map ctx_view (contexts d) =
      map (\<lambda>x. (ctx_L x, True)) (take n (contexts c)) @ map ctx_view (drop n (contexts c))"
      "set (DiffIdSet d) = set (DiffIdSet c) \<union>
     (\<Union>x \<in> set (take n (contexts c)). if ctx_Differences x then {} else block_ids ids (ctx_L x))"
      "Differences d = Differences c" "Indent d = Indent c"
    using Suc.IH [OF _ d(1)] n by simp_all
  have len: "length (contexts d) = length (contexts c)" using IH(1) n by (metis length_append length_drop
        length_map length_take le_add_diff_inverse less_imp_le min.absorb2)
  have "map ctx_view (contexts d) ! n = ctx_view (contexts c ! n)"
    unfolding IH(1) using n by (simp add: nth_append)
  then have dn: "ctx_L (contexts d ! n) = ctx_L (contexts c ! n)"
      "ctx_Differences (contexts d ! n) = ctx_Differences (contexts c ! n)"
    using n len by (simp_all add: ctx_view_def)
  have f: "flag_post ids n d c'" using header_one_post [OF d(2)] n len by simp
  have "map ctx_view (contexts c') = (map (\<lambda>x. (ctx_L x, True)) (take n (contexts c)) @
      map ctx_view (drop n (contexts c)))[n := (ctx_L (contexts c ! n), True)]"
    using f IH(1) dn by (simp add: flag_post_def)
  also have "\<dots> = map (\<lambda>x. (ctx_L x, True)) (take (Suc n) (contexts c)) @ map ctx_view (drop (Suc n) (contexts c))"
    using n by (simp add: list_update_append take_Suc_conv_app_nth Cons_nth_drop_Suc [symmetric])
  finally show ?case
    using f IH dn n by (auto simp: flag_post_def take_Suc_conv_app_nth)
qed simp

lemma header_report: "header E ids c = Some c' \<Longrightarrow> report_post ids c c'"
  using header_prefix [of "length (contexts c)" c E ids c'] by (simp add: header_def report_post_def)

lemma report_post_shape: "report_post ids c d \<Longrightarrow> same_shape d e \<Longrightarrow> report_post ids c e"
  by (simp add: report_post_def same_shape_def)

lemma indent_shape [simp]: "same_shape c (indent c') = same_shape c c'"
  by (simp add: indent_def)

lemma logf_format_shape: "logf_format E f as c = Some c' \<Longrightarrow> same_shape c c'"
proof (induction E f as c rule: logf_format.induct)
  case (3 E ch d fmt args c)
  have sp: "same_shape (put t c) x \<Longrightarrow> same_shape c x" for t x
    by (simp add: same_shape_def put_def)
  from 3 show ?case
    by (auto simp: Option.bind_eq_Some_conv split: if_splits list.splits
        intro: sp same_shape_trans dest: printValue_shape)
qed (auto split: if_splits)

lemma logd_line_shape: "same_shape c (logd_line E r c)"
  by (auto simp: logd_line_def Let_def same_shape_def indent_def put_def split: DiffChange.split option.split)

lemma logd_lines_shape: "same_shape c (fold (logd_line E) d c)"
proof (induction d arbitrary: c)
  case (Cons r d)
  show ?case using same_shape_trans [OF logd_line_shape Cons.IH] by simp
qed simp

lemma log_events_report:
  "consume E ids (Log t) c = Some c' \<Longrightarrow> report_post ids c c'"
  "consume E ids (LogF f as) c = Some c' \<Longrightarrow> report_post ids c c'"
  "consume E ids (LogD d) c = Some c' \<Longrightarrow> report_post ids c c'"
  by (auto simp: log_text_def logf_text_def logd_text_def Option.bind_eq_Some_conv
      intro!: report_post_shape [OF header_report] logd_lines_shape
      dest!: logf_format_shape simp del: indent_shape)
     (simp_all add: same_shape_def put_def indent_def)

section \<open>The set of blocks with a difference, from the sequence of calls\<close>

text \<open>Abstract view of a run: the left values of all contexts that were open at some message.\<close>

fun trace_reports :: "irvalue list \<Rightarrow> event list \<Rightarrow> irvalue set" where
  "trace_reports stk [] = {}"
| "trace_reports stk (EnterContext L R # tr) = trace_reports (stk @ [L]) tr"
| "trace_reports stk (ExitContext # tr) = trace_reports (butlast stk) tr"
| "trace_reports stk (_ # tr) = set stk \<union> trace_reports stk tr"

definition flags_recorded :: "id_state \<Rightarrow> consumer \<Rightarrow> bool" where
  "flags_recorded ids c =
     (\<forall>x \<in> set (contexts c). ctx_Differences x \<longrightarrow> block_ids ids (ctx_L x) \<subseteq> set (DiffIdSet c))"

definition any_difference :: "consumer \<Rightarrow> bool" where
  "any_difference c = (Differences c \<or> (\<exists>x \<in> set (contexts c). ctx_Differences x))"

definition reported_ids :: "id_state \<Rightarrow> irvalue list \<Rightarrow> event list \<Rightarrow> u64 set" where
  "reported_ids ids stk tr = (\<Union>V \<in> trace_reports stk tr. block_ids ids V)"

definition run_post :: "id_state \<Rightarrow> event list \<Rightarrow> consumer \<Rightarrow> consumer \<Rightarrow> bool" where
  "run_post ids tr c c' \<longleftrightarrow>
     flags_recorded ids c' \<and>
     set (DiffIdSet c') = set (DiffIdSet c) \<union> reported_ids ids (map ctx_L (contexts c)) tr \<and>
     any_difference c' = (any_difference c \<or> trace_reports (map ctx_L (contexts c)) tr \<noteq> {})"

lemma report_post_views:
  assumes "report_post ids c d"
  shows "map ctx_L (contexts d) = map ctx_L (contexts c)" "\<forall>x \<in> set (contexts d). ctx_Differences x"
proof -
  have v: "map ctx_view (contexts d) = map (\<lambda>x. (ctx_L x, True)) (contexts c)"
    using assms by (simp add: report_post_def)
  have "map fst (map ctx_view (contexts d)) = map fst (map (\<lambda>x. (ctx_L x, True)) (contexts c))"
    using v by simp
  then show "map ctx_L (contexts d) = map ctx_L (contexts c)" by (simp add: ctx_view_def comp_def)
  have "ctx_view ` set (contexts d) = (\<lambda>x. (ctx_L x, True)) ` set (contexts c)"
    using v by (metis list.set_map)
  then show "\<forall>x \<in> set (contexts d). ctx_Differences x"
    by (auto simp: ctx_view_def image_iff set_eq_iff)
qed

lemma run_post_log:
  assumes "report_post ids c d" "flags_recorded ids c" "run_post ids tr d c'"
    and ev: "trace_reports (map ctx_L (contexts c)) (e # tr) =
       set (map ctx_L (contexts c)) \<union> trace_reports (map ctx_L (contexts c)) tr"
  shows "run_post ids (e # tr) c c'"
proof -
  note v = report_post_views [OF assms(1)]
  have ids: "set (DiffIdSet d) = set (DiffIdSet c) \<union> (\<Union>x \<in> set (contexts c). block_ids ids (ctx_L x))"
    using assms(1,2) by (fastforce simp: report_post_def flags_recorded_def)
  have "contexts d = [] \<longleftrightarrow> contexts c = []" using v(1) by (metis Nil_is_map_conv)
  then have "any_difference d = (any_difference c \<or> contexts c \<noteq> [])"
    using v(2) assms(1) by (cases "contexts d") (auto simp: any_difference_def report_post_def)
  with assms(3) ids ev v(1) show ?thesis
    by (auto simp: run_post_def reported_ids_def)
qed

lemma consume_run:
  "consume_all E ids tr c = Some c' \<Longrightarrow> flags_recorded ids c \<Longrightarrow> run_post ids tr c c'"
proof (induction tr arbitrary: c)
  case Nil
  then show ?case by (simp add: consume_all_def run_post_def reported_ids_def)
next
  case (Cons e tr)
  then obtain d where d: "consume E ids e c = Some d" "consume_all E ids tr d = Some c'"
    by (auto simp: consume_all_def split: option.splits)
  note IH = Cons.IH [OF d(2)]
  have log: "run_post ids (e # tr) c c'" if "report_post ids c d"
     "trace_reports (map ctx_L (contexts c)) (e # tr) =
       set (map ctx_L (contexts c)) \<union> trace_reports (map ctx_L (contexts c)) tr"
  proof -
    note v = report_post_views [OF that(1)]
    have "set (DiffIdSet d) = set (DiffIdSet c) \<union> (\<Union>x \<in> set (contexts c). block_ids ids (ctx_L x))"
      using that(1) Cons.prems(2) by (fastforce simp: report_post_def flags_recorded_def)
    moreover have "ctx_L ` set (contexts d) = ctx_L ` set (contexts c)" using v(1) by (metis list.set_map)
    ultimately have "flags_recorded ids d"
      by (auto simp: flags_recorded_def image_iff set_eq_iff) metis
    with run_post_log [OF that(1) Cons.prems(2) IH that(2)] show ?thesis by simp
  qed
  show ?case
  proof (cases e)
    case (EnterContext L R)
    then have "d = enterContext L R c" using d(1) by simp
    then have "flags_recorded ids d" "any_difference d = any_difference c"
        "map ctx_L (contexts d) = map ctx_L (contexts c) @ [L]" "DiffIdSet d = DiffIdSet c"
      using Cons.prems(2) by (auto simp: flags_recorded_def any_difference_def enterContext_def new_context_def)
    with IH EnterContext show ?thesis by (simp add: run_post_def reported_ids_def)
  next
    case ExitContext
    then obtain xs x where x: "contexts c = xs @ [x]"
        "d = c\<lparr>Differences := Differences c \<or> ctx_Differences x, contexts := xs, Indent := Indent c - 2\<rparr>"
      using d(1) by (cases "contexts c" rule: rev_cases) (auto simp: exitContext_def)
    then have "flags_recorded ids d" "any_difference d = any_difference c"
        "map ctx_L (contexts d) = butlast (map ctx_L (contexts c))" "DiffIdSet d = DiffIdSet c"
      using Cons.prems(2) by (auto simp: flags_recorded_def any_difference_def)
    with IH ExitContext show ?thesis by (simp add: run_post_def reported_ids_def)
  next
    case (Log t)
    then show ?thesis using d(1) by (intro log log_events_report(1) [of E ids t]) auto
  next
    case (LogF f as)
    then show ?thesis using d(1) by (intro log log_events_report(2) [of E ids f as]) auto
  next
    case (LogD r)
    then show ?thesis using d(1) by (intro log log_events_report(3) [of E ids r]) auto
  qed
qed

section \<open>Properties\<close>

text \<open>The targets are the comparisons that claim a block with a difference, in increasing order and without
  repetition.\<close>

theorem targets_exact:
  "set (diff_cmps ids c) = {e. \<exists>bbs. (e, bbs) \<in> set (CmpMap ids) \<and> set bbs \<inter> set (DiffIdSet c) \<noteq> {}} \<and>
   oset_ok (diff_cmps ids c)"
  by (simp add: diff_cmps_set diff_cmps_ok)

text \<open>The JSON file does not undo that sign: a target whose identifier is at least 2 to the 31 is printed
  as a negative number, which the fuzzer's unsigned type does not accept.\<close>

theorem json_prints_signed_targets:
  "printStatsJson (id_init\<lparr>CmpMap := [(to_int32 3000000000, [5])]\<rparr>) (consumer_init\<lparr>DiffIdSet := [5]\<rparr>) =
     ''{'' @ nl @ dq @ ''targets'' @ dq @ '': [-1294967296],'' @ nl @ dq @ ''edges'' @ dq @ '': [],'' @ nl @
     dq @ ''callsite_dominators'' @ dq @ '':{}'' @ nl @ ''}''"
proof -
  have "to_int32 3000000000 = -1294967296" by (simp add: to_int32_def)
  moreover have "show_int (-1294967296) = ''-1294967296''"
    by (simp add: show_int_def show_nat.simps digit_def digit_chars)
  ultimately show ?thesis
    by (simp add: printStatsJson_def diff_cmps_def getCmpCfg_def id_init_def consumer_init_def Let_def
        insort_insert_key_def)
qed

end
