(* ===== verification/Module_Diff.thy ===== *)
theory Module_Diff
  imports Block_Diff Diff_Consumer
begin

text \<open>
  \<^verbatim>\<open>DifferenceEngine.cpp\<close>, last part, and \<^verbatim>\<open>llvm-diff.cpp\<close>: the work list over pairs of blocks, the
  comparison of two functions and of two modules, and the tool's \<^verbatim>\<open>main\<close>.  The modules come from
  \<^verbatim>\<open>parseIRFile\<close>, so \<open>diff_main\<close> takes them as arguments, \<open>None\<close> for a file that does not parse.
\<close>

section \<open>Functions\<close>

fun processQueue ::
  "nat \<Rightarrow> (irconst \<Rightarrow> irconst \<Rightarrow> bool) \<Rightarrow> func \<Rightarrow> func \<Rightarrow> fde \<Rightarrow> fde outcome"
where
  "processQueue 0 G L R st = (if pq_empty (Queue st) then Done st else OutOfFuel)"
| "processQueue (Suc n) G L R st =
     (case remove_min True (QueueSorter L (Blocks st)) (Queue st) of
        None \<Rightarrow> Done st
      | Some ((l, r), q) \<Rightarrow>
          (case (get_block L l, get_block R r) of
             (Some LB, Some RB) \<Rightarrow>
               (case diff_block G L LB RB (st\<lparr>Queue := q\<rparr>) of
                  Done st' \<Rightarrow> processQueue n G L R st'
                | Undefined \<Rightarrow> Undefined
                | OutOfFuel \<Rightarrow> OutOfFuel)
           | _ \<Rightarrow> Undefined))"

text \<open>Every left block enters the queue at most once, and only the entry block and successors of
  blocks do.\<close>

definition left_targets :: "func \<Rightarrow> vid list" where
  "left_targets L = remdups (concat (map (\<lambda>B. baddr B # concat (map (kind_succs \<circ> ikind) (insts B))) (blocks L)))"

definition diff_fuel :: "func \<Rightarrow> nat" where
  "diff_fuel L = length (left_targets L)"

fun map_args :: "(vid \<times> string) list \<Rightarrow> (vid \<times> string) list \<Rightarrow> (vid \<rightharpoonup> vid) \<Rightarrow> (vid \<rightharpoonup> vid)" where
  "map_args ((l, _) # ls) ((r, _) # rs) V = map_args ls rs (V(l \<mapsto> r))"
| "map_args _ _ V = V"

definition diff_function ::
  "(irconst \<Rightarrow> irconst \<Rightarrow> bool) \<Rightarrow> func \<Rightarrow> func \<Rightarrow> fde \<Rightarrow> fde outcome"
where
  "diff_function G L R st =
     (if blocks L = [] \<or> blocks R = [] then Undefined
      else let st1 = (if length (fargs L) \<noteq> length (fargs R)
                      then emit [Log ''different argument counts''] st else st);
               st2 = st1\<lparr>Values := map_args (fargs L) (fargs R) (Values st1)\<rparr>;
               st3 = snd (tryUnify L (baddr (hd (blocks L))) (baddr (hd (blocks R))) st2)
           in processQueue (diff_fuel L) G L R st3)"

text \<open>\<^verbatim>\<open>DifferenceEngine::diff(Function *, Function *)\<close>: the calls it makes.\<close>

definition engine_diff_function ::
  "(irconst \<Rightarrow> irconst \<Rightarrow> bool) option \<Rightarrow> func \<Rightarrow> func \<Rightarrow> event list outcome"
where
  "engine_diff_function oracle L R =
     (let enter = EnterContext (func_value L) (func_value R)
      in if blocks L = [] \<and> blocks R = [] then Done [enter, ExitContext]
         else if blocks L = []
         then Done [enter, Log ''left function is declaration, right function is definition'', ExitContext]
         else if blocks R = []
         then Done [enter, Log ''right function is declaration, left function is definition'', ExitContext]
         else case diff_function (equiv_globals oracle) L R fde_init of
                Done st \<Rightarrow> Done (enter # trace st @ [ExitContext])
              | Undefined \<Rightarrow> Undefined
              | OutOfFuel \<Rightarrow> OutOfFuel)"

section \<open>Modules\<close>

definition left_pairs :: "llvm_module \<Rightarrow> func list \<Rightarrow> (func \<times> func) list" where
  "left_pairs R fs =
     concat (map (\<lambda>LFn. case get_function R (fname LFn) of Some RFn \<Rightarrow> [(LFn, RFn)] | None \<Rightarrow> []) fs)"

definition only_left :: "llvm_module \<Rightarrow> func list \<Rightarrow> event list" where
  "only_left R fs =
     concat (map (\<lambda>LFn. case get_function R (fname LFn) of
                          Some _ \<Rightarrow> []
                        | None \<Rightarrow> logf ''function %l exists only in left module'' [func_value LFn]) fs)"

definition only_right :: "string set \<Rightarrow> func list \<Rightarrow> event list" where
  "only_right LNames fs =
     concat (map (\<lambda>RFn. if fname RFn \<in> LNames then []
                        else logf ''function %r exists only in right module'' [func_value RFn]) fs)"

fun diff_pairs ::
  "(irconst \<Rightarrow> irconst \<Rightarrow> bool) option \<Rightarrow> (func \<times> func) list \<Rightarrow> event list outcome"
where
  "diff_pairs oracle [] = Done []"
| "diff_pairs oracle ((L, R) # ps) =
     (case engine_diff_function oracle L R of
        Done es \<Rightarrow> (case diff_pairs oracle ps of Done es' \<Rightarrow> Done (es @ es') | x \<Rightarrow> x)
      | x \<Rightarrow> x)"

definition engine_diff_module ::
  "(irconst \<Rightarrow> irconst \<Rightarrow> bool) option \<Rightarrow> llvm_module \<Rightarrow> llvm_module \<Rightarrow> event list outcome"
where
  "engine_diff_module oracle L R =
     (case diff_pairs oracle (left_pairs R (funcs L)) of
        Done es \<Rightarrow> Done (only_left R (funcs L) @ only_right (fname ` set (funcs L)) (funcs R) @ es)
      | x \<Rightarrow> x)"

section \<open>llvm-diff.cpp\<close>

definition drop_sigil :: "string \<Rightarrow> string" where
  "drop_sigil Name = (if str_prefix ''@'' Name then tl Name else Name)"

text \<open>The engine's calls, or the text written to the error stream.\<close>

definition diffGlobal :: "llvm_module \<Rightarrow> llvm_module \<Rightarrow> string \<Rightarrow> (string + event list) outcome" where
  "diffGlobal L R nm =
     (let Name = drop_sigil nm
      in case (get_function L Name, get_function R Name) of
           (Some LFn, Some RFn) \<Rightarrow>
             (case engine_diff_function None LFn RFn of
                Done es \<Rightarrow> Done (Inr es) | Undefined \<Rightarrow> Undefined | OutOfFuel \<Rightarrow> OutOfFuel)
         | (None, None) \<Rightarrow> Done (Inl (''No function named @'' @ Name @ '' in either module'' @ nl))
         | (None, Some _) \<Rightarrow> Done (Inl (''No function named @'' @ Name @ '' in left module'' @ nl))
         | (Some _, None) \<Rightarrow> Done (Inl (''No function named @'' @ Name @ '' in right module'' @ nl)))"

definition feed :: "penv \<Rightarrow> id_state \<Rightarrow> (string + event list) outcome \<Rightarrow> consumer \<Rightarrow> consumer option" where
  "feed E ids x c =
     (case x of Done (Inl t) \<Rightarrow> Some (put t c) | Done (Inr es) \<Rightarrow> consume_all E ids es c | _ \<Rightarrow> None)"

definition diff_modules ::
  "penv \<Rightarrow> id_state \<Rightarrow> string list \<Rightarrow> llvm_module \<Rightarrow> llvm_module \<Rightarrow> consumer option"
where
  "diff_modules E ids Globals L R =
     (if Globals \<noteq> [] then ofold (\<lambda>nm. feed E ids (diffGlobal L R nm)) Globals consumer_init
      else feed E ids (case engine_diff_module None L R of
                         Done es \<Rightarrow> Done (Inr es) | Undefined \<Rightarrow> Undefined | OutOfFuel \<Rightarrow> OutOfFuel)
             consumer_init)"

record diff_result =
  exit_code :: nat
  err_text :: string
  targets_json :: "string option"

definition diff_main ::
  "penv \<Rightarrow> bool \<Rightarrow> bool \<Rightarrow> string list \<Rightarrow> llvm_module option \<Rightarrow> llvm_module option \<Rightarrow> diff_result option"
where
  "diff_main E fl EmitJson Globals LModule RModule =
     (case (LModule, RModule) of
        (Some L, Some R) \<Rightarrow>
          (case runOnModule_ids L fl of
             None \<Rightarrow> None
           | Some ids \<Rightarrow>
               (case diff_modules E ids Globals L R of
                  None \<Rightarrow> None
                | Some c \<Rightarrow>
                    let c' = printStats ids c
                    in Some \<lparr>exit_code = (if hadDifferences c' then 1 else 0), err_text = out c',
                             targets_json = (if EmitJson then Some (printStatsJson ids c') else None)\<rparr>))
      | _ \<Rightarrow> Some \<lparr>exit_code = 1, err_text = [], targets_json = None\<rparr>)"

section \<open>The work list\<close>

text \<open>One pair of blocks: a context of its own around the steps of \<open>evolves\<close>.\<close>

lemma diff_block_steps:
  assumes "diff_block G F L R st = Done st'" "dests (insts L) \<subseteq> T"
  shows "(\<exists>es. trace st' = trace st @ EnterContext (Block (baddr L)) (Block (baddr R)) # es @ [ExitContext] \<and>
            nested is_inst es) \<and> kept st st' \<and> (\<exists>news. enqueued T st st' news)"
proof -
  let ?enter = "EnterContext (Block (baddr L)) (Block (baddr R))"
  let ?st0 = "emit [?enter] st"
  obtain d st1 st2 where 1: "diff_prefix G F (insts L) (insts R) ?st0 = Done (d, st1)"
    and 2: "(if d then runBlockDiff G F (insts L) (insts R) (st1\<lparr>TentativeValues := []\<rparr>)
             else unify_all G F (insts L) (insts R) (st1\<lparr>TentativeValues := []\<rparr>)) = Done st2"
    and st': "st' = emit [ExitContext] st2"
    using assms(1) by (auto simp: diff_block_def Let_def split: outcome.splits prod.splits)
  have "evolves T ?st0 st1" using evolves_diff_prefix [OF 1 assms(2)] .
  also have "evolves T st1 (st1\<lparr>TentativeValues := []\<rparr>)" by (rule evolves_upd)
  also have "evolves T (st1\<lparr>TentativeValues := []\<rparr>) st2"
    using 2 evolves_runBlockDiff [OF _ assms(2)] evolves_unify_all [OF _ assms(2)] by (cases d) auto
  finally have e: "calls ?st0 st2" "kept ?st0 st2" "\<exists>news. enqueued T ?st0 st2 news" by (simp_all add: evolves_def)
  have "enqueued T st st' news = enqueued T ?st0 st2 news" for news
    unfolding st' by (simp add: enqueued_def emit_def mapped_def)
  moreover have "kept st st' = kept ?st0 st2" unfolding st' by (simp add: kept_def emit_def)
  moreover obtain es where "trace st2 = trace st @ [?enter] @ es" "nested is_inst es"
    using e(1) by (auto simp: calls_def emit_def)
  ultimately show ?thesis using e unfolding st' by (auto simp: emit_def)
qed

lemma dests_left_targets: "B \<in> set (blocks L) \<Longrightarrow> dests (insts B) \<subseteq> set (left_targets L)"
  by (auto simp: dests_def left_targets_def)

lemma entry_left_targets: "B \<in> set (blocks L) \<Longrightarrow> baddr B \<in> set (left_targets L)"
  by (auto simp: left_targets_def)

text \<open>Blocks without a partner plus pairs in the queue: the number of pairs still to come.\<close>

definition todo :: "vid set \<Rightarrow> fde \<Rightarrow> nat" where
  "todo T st = card (T - mapped st) + length (Queue st)"

lemma enqueued_todo:
  assumes "enqueued T st st' news" "finite T"
  shows "todo T st' = todo T st"
proof -
  have "length (Queue st') = length (Queue st) + length news"
    using assms(1) by (metis enqueued_def mset_append size_mset size_union)
  moreover have "card (fst ` set news) = length news"
    using assms(1) by (metis enqueued_def distinct_card length_map list.set_map)
  moreover have "T - mapped st = (T - mapped st') \<union> fst ` set news" "(T - mapped st') \<inter> fst ` set news = {}"
    using assms(1) by (auto simp: enqueued_def)
  then have "card (T - mapped st) = card (T - mapped st') + card (fst ` set news)"
    using assms(2) by (simp add: card_Un_disjoint)
  ultimately show ?thesis by (simp add: todo_def)
qed

fun is_block :: "irvalue \<Rightarrow> bool" where
  "is_block (Block _) = True"
| "is_block _ = False"

text \<open>The invariant of the work list: the block contexts opened so far belong to the blocks with a
  partner that are not waiting in the queue, each once.\<close>

definition queue_inv :: "fde \<Rightarrow> bool" where
  "queue_inv st \<longleftrightarrow>
     distinct (map fst (Queue st)) \<and> (\<forall>(l, r) \<in> set (Queue st). Blocks st l = Some (Some r)) \<and>
     distinct (filter is_block (opened (trace st))) \<and>
     set (filter is_block (opened (trace st))) = Block ` (mapped st - fst ` set (Queue st)) \<and>
     nested (\<lambda>v. is_inst v \<or> is_block v) (trace st)"

lemma enqueued_queue:
  assumes "enqueued T st st' news" "kept st st'" "distinct (map fst (Queue st))"
    and "\<forall>(l, r) \<in> set (Queue st). Blocks st l = Some (Some r)"
  shows "distinct (map fst (Queue st'))" "\<forall>(l, r) \<in> set (Queue st'). Blocks st' l = Some (Some r)"
    and "mapped st' - fst ` set (Queue st') = mapped st - fst ` set (Queue st)"
proof -
  have m: "mset (Queue st') = mset (Queue st @ news)" using assms(1) by (simp add: enqueued_def)
  then have s: "set (Queue st') = set (Queue st) \<union> set news" by (metis mset_eq_setD set_append)
  have q: "fst ` set (Queue st) \<subseteq> mapped st" using assms(4) by (auto simp: mapped_def)
  then have "distinct (map fst (Queue st @ news))" using assms(1,3) by (auto simp: enqueued_def)
  moreover have "mset (map fst (Queue st')) = mset (map fst (Queue st @ news))" using m by (metis mset_map)
  ultimately show "distinct (map fst (Queue st'))" using mset_eq_imp_distinct_iff by blast
  show "\<forall>(l, r) \<in> set (Queue st'). Blocks st' l = Some (Some r)"
    using s assms by (auto simp: enqueued_def kept_def)
  show "mapped st' - fst ` set (Queue st') = mapped st - fst ` set (Queue st)"
    using s q assms(1) by (auto simp: enqueued_def)
qed

lemma opened_insts: "nested is_inst es \<Longrightarrow> filter is_block (opened es) = []"
proof -
  assume "nested is_inst es"
  then have "\<forall>v \<in> set (opened es). is_inst v" by (rule nested_opened)
  moreover have "is_inst v \<Longrightarrow> \<not> is_block v" for v by (cases v) auto
  ultimately show ?thesis by (simp add: filter_empty_conv)
qed

lemma queue_inv_step:
  assumes inv: "queue_inv st" and rm: "remove_min pod P (Queue st) = Some ((l, r), q)"
    and db: "diff_block G L LB RB (st\<lparr>Queue := q\<rparr>) = Done st'"
    and T: "dests (insts LB) \<subseteq> T" "finite T" and l: "baddr LB = l"
  shows "queue_inv st' \<and> todo T st = Suc (todo T st') \<and> kept st st'"
proof -
  let ?s = "st\<lparr>Queue := q\<rparr>"
  obtain es news where es: "trace st' = trace st @ EnterContext (Block l) (Block (baddr RB)) # es @ [ExitContext]"
      "nested is_inst es" and k: "kept ?s st'" and n: "enqueued T ?s st' news"
    using diff_block_steps [OF db T(1)] l by auto
  have q: "mset (Queue st) = add_mset (l, r) (mset q)" using mset_remove_min [OF rm] by simp
  then have sq: "set (Queue st) = insert (l, r) (set q)" by (metis set_mset_add_mset_insert set_mset_mset)
  have "mset (map fst (Queue st)) = mset (l # map fst q)" using q by simp
  then have "distinct (map fst (Queue st)) \<longleftrightarrow> distinct (l # map fst q)" by (rule mset_eq_imp_distinct_iff)
  then have d: "distinct (map fst q)" "l \<notin> fst ` set q" using inv by (simp_all add: queue_inv_def)
  have b: "\<forall>(l, r) \<in> set q. Blocks ?s l = Some (Some r)" "l \<in> mapped st"
    using inv sq by (auto simp: queue_inv_def mapped_def)
  note e = enqueued_queue [OF n k]
  have m: "mapped st' - fst ` set (Queue st') = insert l (mapped st - fst ` set (Queue st))"
    using e(3) d b sq by (auto simp: mapped_def)
  have o: "filter is_block (opened (trace st')) = filter is_block (opened (trace st)) @ [Block l]"
    by (simp add: es(1) opened_insts [OF es(2)])
  have "l \<in> fst ` set (Queue st)" using sq by force
  then have "Block l \<notin> set (filter is_block (opened (trace st)))" using inv by (auto simp: queue_inv_def)
  moreover have "distinct (filter is_block (opened (trace st)))" using inv unfolding queue_inv_def by blast
  ultimately have "distinct (filter is_block (opened (trace st')))" unfolding o by auto
  moreover have "set (filter is_block (opened (trace st'))) = Block ` (mapped st' - fst ` set (Queue st'))"
  proof -
    have "set (filter is_block (opened (trace st))) = Block ` (mapped st - fst ` set (Queue st))"
      using inv unfolding queue_inv_def by blast
    then show ?thesis unfolding m o by simp
  qed
  moreover have "nested (\<lambda>v. is_inst v \<or> is_block v) (trace st')"
    unfolding es(1) using inv by (intro nested_append nested_block nested_mono [OF es(2)]) (auto simp: queue_inv_def)
  ultimately have "queue_inv st'" using e(1,2) d b unfolding queue_inv_def by simp
  moreover have "todo T st = Suc (todo T ?s)"
    using arg_cong [OF q, of size] by (simp add: todo_def mapped_def)
  moreover have "todo T st' = todo T ?s" using enqueued_todo [OF n T(2)] .
  ultimately show ?thesis using k by (simp add: kept_def)
qed

lemma processQueue_run:
  assumes "set (left_targets L) \<subseteq> T" "finite T"
  shows "queue_inv st \<Longrightarrow> todo T st \<le> n \<Longrightarrow>
    processQueue n G L R st \<noteq> OutOfFuel \<and>
    (\<forall>st'. processQueue n G L R st = Done st' \<longrightarrow> queue_inv st' \<and> Queue st' = [] \<and> kept st st')"
proof (induction n arbitrary: st)
  case (Suc n)
  show ?case
  proof (cases "remove_min True (QueueSorter L (Blocks st)) (Queue st)")
    case None
    then have "Queue st = []" using remove_min_Some by (metis option.distinct(1))
    with None Suc.prems show ?thesis by auto
  next
    case (Some x)
    obtain l r q where x: "x = ((l, r), q)" by (metis surj_pair)
    note rm = Some [unfolded x]
    show ?thesis
    proof (cases "\<exists>LB RB st1. get_block L l = Some LB \<and> get_block R r = Some RB \<and>
        diff_block G L LB RB (st\<lparr>Queue := q\<rparr>) = Done st1")
      case True
      then obtain LB RB st1 where b: "get_block L l = Some LB" "get_block R r = Some RB"
          "diff_block G L LB RB (st\<lparr>Queue := q\<rparr>) = Done st1" by blast
      have "dests (insts LB) \<subseteq> T" "baddr LB = l"
        using get_block_Some [OF b(1)] dests_left_targets [of LB L] assms(1) by auto
      from queue_inv_step [OF Suc.prems(1) rm b(3) this(1) assms(2) this(2)]
      have s: "queue_inv st1" "todo T st1 \<le> n" "kept st st1" using Suc.prems(2) by auto
      have eq: "processQueue (Suc n) G L R st = processQueue n G L R st1" using rm b by simp
      show ?thesis unfolding eq using Suc.IH [OF s(1,2)] kept_trans [OF s(3)] by blast
    next
      case False
      moreover have "diff_block G L LB RB (st\<lparr>Queue := q\<rparr>) \<noteq> OutOfFuel" for LB RB
        by (auto simp: diff_block_def Let_def split: outcome.split)
      ultimately show ?thesis using rm by (auto split: option.splits outcome.splits)
    qed
  qed
qed (auto simp: todo_def pq_empty_def)

lemma fde_init_inv: "queue_inv fde_init" "todo T fde_init = card T"
  by (simp_all add: queue_inv_def todo_def fde_init_def mapped_def)

lemma queue_inv_evolves:
  assumes "queue_inv st" "evolves T st st'"
  shows "queue_inv st'"
proof -
  obtain es news where es: "trace st' = trace st @ es" "nested is_inst es" and k: "kept st st'"
    and n: "enqueued T st st' news" using assms(2) by (auto simp: evolves_def calls_def)
  have i: "distinct (map fst (Queue st))" "\<forall>(l, r) \<in> set (Queue st). Blocks st l = Some (Some r)"
    using assms(1) unfolding queue_inv_def by blast+
  have "nested (\<lambda>v. is_inst v \<or> is_block v) (trace st')"
    unfolding es(1) using assms(1) nested_mono [OF es(2)] by (auto simp: queue_inv_def)
  then show ?thesis
    using assms(1) enqueued_queue [OF n k i] opened_insts [OF es(2)] es(1) by (simp add: queue_inv_def)
qed

text \<open>The state in which the work list starts.\<close>

definition start_state :: "func \<Rightarrow> func \<Rightarrow> fde" where
  "start_state L R =
     (let st1 = (if length (fargs L) \<noteq> length (fargs R)
                 then emit [Log ''different argument counts''] fde_init else fde_init)
      in snd (tryUnify L (baddr (hd (blocks L))) (baddr (hd (blocks R)))
           (st1\<lparr>Values := map_args (fargs L) (fargs R) (Values st1)\<rparr>)))"

lemma start_state_evolves:
  assumes "blocks L \<noteq> []"
  shows "evolves (set (left_targets L)) fde_init (start_state L R)"
proof -
  let ?T = "set (left_targets L)"
  let ?st1 = "if length (fargs L) \<noteq> length (fargs R)
     then emit [Log ''different argument counts''] fde_init else fde_init"
  have "evolves ?T fde_init ?st1" by (auto intro!: evolves_emit nested_single)
  also have "evolves ?T ?st1 (?st1\<lparr>Values := map_args (fargs L) (fargs R) (Values ?st1)\<rparr>)" by (rule evolves_upd)
  also have "evolves ?T (?st1\<lparr>Values := map_args (fargs L) (fargs R) (Values ?st1)\<rparr>) (start_state L R)"
    unfolding start_state_def Let_def using assms by (intro evolves_tryUnify entry_left_targets) simp
  finally show ?thesis .
qed

lemma diff_function_start:
  "blocks L \<noteq> [] \<Longrightarrow> blocks R \<noteq> [] \<Longrightarrow>
   diff_function G L R fde_init = processQueue (diff_fuel L) G L R (start_state L R)"
  by (simp add: diff_function_def start_state_def Let_def)

lemma start_state_todo: "blocks L \<noteq> [] \<Longrightarrow> todo (set (left_targets L)) (start_state L R) \<le> diff_fuel L"
proof -
  assume "blocks L \<noteq> []"
  then obtain news where "enqueued (set (left_targets L)) fde_init (start_state L R) news"
    using start_state_evolves unfolding evolves_def by blast
  then have "todo (set (left_targets L)) (start_state L R) = card (set (left_targets L))"
    using enqueued_todo fde_init_inv(2) by (metis List.finite_set)
  then show ?thesis by (simp add: diff_fuel_def card_length)
qed

lemma diff_function_run:
  assumes "blocks L \<noteq> []" "blocks R \<noteq> []"
  shows "diff_function G L R fde_init \<noteq> OutOfFuel"
    and "diff_function G L R fde_init = Done st \<Longrightarrow>
      queue_inv st \<and> Queue st = [] \<and> kept (start_state L R) st"
  using processQueue_run [of L "set (left_targets L)" "start_state L R" "diff_fuel L" G R]
    queue_inv_evolves [OF fde_init_inv(1) start_state_evolves [OF assms(1), of R]]
    start_state_todo [OF assms(1), of R] diff_function_start [OF assms, of G] by auto

lemma engine_diff_function_fuel: "engine_diff_function oracle L R \<noteq> OutOfFuel"
proof (cases "blocks L = [] \<or> blocks R = []")
  case False
  then show ?thesis using diff_function_run(1) [of L R "equiv_globals oracle"]
    by (auto simp: engine_diff_function_def Let_def split: outcome.split)
qed (auto simp: engine_diff_function_def Let_def)

fun is_scope :: "irvalue \<Rightarrow> bool" where
  "is_scope (Const (GlobalValue _ FunctionG _)) = True"
| "is_scope (Block _) = True"
| "is_scope (Inst _ _) = True"
| "is_scope _ = False"

lemma is_scope_sub: "is_inst v \<or> is_block v \<Longrightarrow> is_scope v"
  by (cases v) auto

lemma engine_diff_function_nested:
  assumes "engine_diff_function oracle L R = Done es"
  shows "nested is_scope es"
proof (cases "blocks L = [] \<or> blocks R = []")
  case True
  have "nested is_scope [EnterContext (func_value L) (func_value R), Log t, ExitContext]" for t
    using nested_block [of is_scope "[Log t]"] by (simp add: nested_single)
  moreover have "nested is_scope [EnterContext (func_value L) (func_value R), ExitContext]"
    using nested_block [of is_scope "[]"] by simp
  ultimately show ?thesis using assms True by (auto simp: engine_diff_function_def Let_def split: if_splits)
next
  case False
  then obtain st where st: "diff_function (equiv_globals oracle) L R fde_init = Done st"
      "es = EnterContext (func_value L) (func_value R) # trace st @ [ExitContext]"
    using assms by (auto simp: engine_diff_function_def Let_def split: outcome.splits)
  have "queue_inv st" using diff_function_run(2) [OF _ _ st(1)] False by blast
  then have "nested is_scope (trace st)" unfolding queue_inv_def using nested_mono is_scope_sub by blast
  then show ?thesis unfolding st(2) by (rule nested_block) simp
qed

lemma diff_pairs_run:
  "diff_pairs oracle ps \<noteq> OutOfFuel"
  "diff_pairs oracle ps = Done es \<Longrightarrow> nested is_scope es"
proof (induction ps arbitrary: es)
  case (Cons p ps)
  obtain L R where p: "p = (L, R)" by fastforce
  { case 1 then show ?case using Cons.IH(1) engine_diff_function_fuel by (auto simp: p split: outcome.split) }
  { case 2 then show ?case
      using Cons.IH(2) engine_diff_function_nested by (auto simp: p split: outcome.splits) }
qed simp_all

lemma only_nested: "nested is_scope (only_left R fs)" "nested is_scope (only_right N fs)"
  by (induction fs) (auto simp: only_left_def only_right_def nested_message split: option.split)

lemma engine_diff_module_fuel: "engine_diff_module oracle L R \<noteq> OutOfFuel"
  using diff_pairs_run(1) by (auto simp: engine_diff_module_def split: outcome.split)

lemma engine_diff_module_nested:
  "engine_diff_module oracle L R = Done es \<Longrightarrow> nested is_scope es"
  using only_nested diff_pairs_run(2)
  by (auto simp: engine_diff_module_def split: outcome.splits intro!: nested_append)

section \<open>The consumer accepts what the engine sends\<close>

text \<open>LLVM's typing of the operands the consumer prints: a callee and a store's pointer have pointer
  type, so they are not void.\<close>

definition penv_ok :: "penv \<Rightarrow> bool" where
  "penv_ok E \<longleftrightarrow>
     (\<forall>V f as. pe_kind E V = Some (CallInst f as) \<longrightarrow> \<not> pe_void E f) \<and>
     (\<forall>V v p. pe_kind E V = Some (StoreInst v p) \<longrightarrow> \<not> pe_void E p) \<and>
     (\<forall>V f as n u. pe_kind E V = Some (InvokeInst f as n u) \<longrightarrow> \<not> pe_void E f)"

lemma print_value_total: "penv_ok E \<Longrightarrow> \<exists>c'. print_value E V isL c = Some c'"
  unfolding penv_ok_def by (rule printValue_bound) blast+

lemma header_title_total:
  assumes "penv_ok E"
  shows "\<exists>c'. header_title E ids L R c = Some c'"
proof -
  have "\<exists>c2. print_value E V l x = Some c2" for V l x
    using print_value_total [OF assms] by blast
  then have two: "\<exists>c'. Option.bind (print_value E V True x) (\<lambda>c2. map_option g (print_value E R False (h c2))) = Some c'"
    for V x g h by (metis bind.bind_lunit option.map(2))
  show ?thesis
    unfolding header_title_def Let_def
    by (auto split: irvalue.split irconst.split gkind.split simp del: printValue.simps simp: two)
qed

lemma header_total: "penv_ok E \<Longrightarrow> \<exists>c'. header E ids c = Some c'"
proof -
  assume E: "penv_ok E"
  have "\<exists>c'. header_one E ids i c = Some c'" for i c
    using header_title_total [OF E] by (auto simp: header_one_def Let_def)
  then have "\<exists>c'. ofold (header_one E ids) xs c = Some c'" for xs c
    by (induction xs arbitrary: c) (simp, metis ofold.simps(2) option.simps(5))
  then show ?thesis by (simp add: header_def)
qed

lemma logf_format_total:
  "penv_ok E \<Longrightarrow> fmt_args fmt = Some (length args) \<Longrightarrow> \<exists>c'. logf_format E fmt args c = Some c'"
proof (induction E fmt args c rule: logf_format.induct)
  case (3 E ch d fmt args c)
  have p: "\<exists>c'. print_value E V isL c = Some c'" for V isL using print_value_total [OF "3.prems"(1)] .
  show ?case
  proof (cases "ch = CHR ''%'' \<and> (d = CHR ''l'' \<or> d = CHR ''r'')")
    case True
    then obtain a as where "args = a # as" "fmt_args fmt = Some (length as)"
      using "3.prems"(2) by (cases args) auto
    then show ?thesis using True 3 p [of a True] p [of a False] by (auto simp del: printValue.simps)
  qed (use 3 in auto)
qed (auto split: if_splits)

lemma consume_message:
  assumes "penv_ok E" "message e"
  shows "\<exists>c'. consume E ids e c = Some c' \<and> map ctx_L (contexts c') = map ctx_L (contexts c)"
proof -
  obtain d where d: "header E ids c = Some d" using header_total [OF assms(1)] by blast
  have "\<exists>c'. consume E ids e c = Some c'"
  proof (cases e)
    case (LogF fmt args)
    then obtain c' where "logf_format E fmt args (indent d) = Some c'"
      using logf_format_total [OF assms(1), of fmt args "indent d"] assms(2) by auto
    then show ?thesis using d LogF by (simp add: logf_text_def)
  qed (use d assms(2) in \<open>auto simp: log_text_def logd_text_def\<close>)
  then obtain c' where c': "consume E ids e c = Some c'" by blast
  then have "report_post ids c c'" using log_events_report assms(2) by (cases e) auto
  with c' report_post_views(1) show ?thesis by blast
qed

lemma consume_all_Cons: "consume_all E ids (e # es) c = Option.bind (consume E ids e c) (consume_all E ids es)"
  by (simp add: consume_all_def split: option.split)

lemma consume_all_append:
  "consume_all E ids (es @ fs) c = Option.bind (consume_all E ids es c) (consume_all E ids fs)"
  by (simp add: consume_all_def ofold_append)

lemma consume_nested:
  assumes "penv_ok E"
  shows "nested Q es \<Longrightarrow> \<exists>c'. consume_all E ids es c = Some c' \<and> map ctx_L (contexts c') = map ctx_L (contexts c)"
proof (induction arbitrary: c rule: nested.induct)
  case nested_Nil
  then show ?case by (simp add: consume_all_def)
next
  case (nested_message e es)
  obtain d where "consume E ids e c = Some d" "map ctx_L (contexts d) = map ctx_L (contexts c)"
    using consume_message [OF assms nested_message(1)] by blast
  then show ?case using nested_message.IH [of d] by (auto simp: consume_all_Cons)
next
  case (nested_context L es fs R)
  obtain d where d: "consume_all E ids es (enterContext L R c) = Some d"
      "map ctx_L (contexts d) = map ctx_L (contexts c) @ [L]"
    using nested_context.IH(1) [of "enterContext L R c"] by (auto simp: enterContext_def new_context_def)
  then obtain e where e: "exitContext d = Some e" "contexts e = butlast (contexts d)"
    by (cases "contexts d = []") (auto simp: exitContext_def)
  have "map ctx_L (contexts e) = map ctx_L (contexts c)" using d(2) e(2) by (simp add: map_butlast)
  then show ?case using d(1) e(1) nested_context.IH(2) [of e]
    by (auto simp: consume_all_Cons consume_all_append)
qed

text \<open>A run of the whole tool on two modules.\<close>

lemma consumer_init_flags: "flags_recorded ids consumer_init" "\<not> any_difference consumer_init"
  by (simp_all add: flags_recorded_def consumer_init_def any_difference_def)

lemma consume_engine_trace:
  assumes "penv_ok E" "nested is_scope es"
  shows "\<exists>c. consume_all E ids es consumer_init = Some c \<and> contexts c = [] \<and>
     set (DiffIdSet c) = reported_ids ids [] es \<and> (Differences c \<longleftrightarrow> trace_reports [] es \<noteq> {})"
proof -
  obtain c where c: "consume_all E ids es consumer_init = Some c" "contexts c = []"
    using consume_nested [OF assms, of ids consumer_init] by (auto simp: consumer_init_def)
  have "run_post ids es consumer_init c" using consume_run [OF c(1) consumer_init_flags(1)] .
  then show ?thesis using c by (auto simp: run_post_def any_difference_def consumer_init_def)
qed

lemma toplevel_reports: "\<forall>e \<in> set es. \<exists>f as. e = LogF f as \<Longrightarrow> trace_reports [] es = {}"
  by (induction es) auto

section \<open>Properties\<close>

text \<open>C3. The comparison of two modules ends: the number of rounds that the work list gets, one per left block,
  is enough whatever the shape of the control flow, because every left block gets a partner at most
  once.\<close>

theorem module_diff_terminates: "engine_diff_module oracle L R \<noteq> OutOfFuel"
  by (rule engine_diff_module_fuel)

text \<open>C5. When two functions were compared, every left block that got a partner was compared in a context of
  its own exactly once, starting with the pair of entry blocks, whose partnership is never changed.\<close>

theorem blocks_compared_once:
  assumes "diff_function G L R fde_init = Done st"
  shows "distinct (filter is_block (opened (trace st))) \<and>
    set (filter is_block (opened (trace st))) = Block ` mapped st \<and>
    Blocks st (baddr (hd (blocks L))) = Some (Some (baddr (hd (blocks R))))"
proof -
  have b: "blocks L \<noteq> []" "blocks R \<noteq> []" using assms by (auto simp: diff_function_def split: if_splits)
  note r = diff_function_run(2) [OF b assms]
  have "Blocks (start_state L R) (baddr (hd (blocks L))) = Some (Some (baddr (hd (blocks R))))"
    by (simp add: start_state_def tryUnify_def fde_init_def emit_def Let_def)
  then show ?thesis using r by (simp add: queue_inv_def kept_def)
qed

definition sample_run :: fde where
  "sample_run = the_done (diff_function (equiv_globals None) sample_func sample_patched fde_init)"

lemma sample_run: "diff_function (equiv_globals None) sample_func sample_patched fde_init = Done sample_run"
  unfolding sample_run_def by (rule the_done) code_simp

theorem blocks_compared_once_witness:
  "distinct (filter is_block (opened (trace sample_run))) \<and>
   set (filter is_block (opened (trace sample_run))) = Block ` mapped sample_run \<and>
   Blocks sample_run (baddr (hd (blocks sample_func))) = Some (Some (baddr (hd (blocks sample_patched))))"
  by (rule blocks_compared_once [OF sample_run])

text \<open>C4. The consumer can handle every sequence of calls that the engine produces: contexts are closed as
  often as they are opened, every format string gets its arguments.  At the end the difference set
  holds exactly the identifiers of the left blocks that were open at some message, and the tool
  reports a difference exactly when some context was open at a message.\<close>

theorem diff_modules_report:
  assumes "penv_ok E" "engine_diff_module None L R = Done es"
  shows "\<exists>c. diff_modules E ids [] L R = Some c \<and> contexts c = [] \<and>
    set (DiffIdSet c) = reported_ids ids [] es \<and> (hadDifferences c \<longleftrightarrow> trace_reports [] es \<noteq> {})"
  using consume_engine_trace [OF assms(1) engine_diff_module_nested [OF assms(2)], of ids] assms(2)
  by (auto simp: diff_modules_def feed_def hadDifferences_def)

definition sample_env :: penv where
  "sample_env = \<lparr>pe_name = (\<lambda>_. []), pe_void = (\<lambda>_. False), pe_kind = (\<lambda>_. None), pe_func = (\<lambda>_. None),
     pe_print = (\<lambda>_. [])\<rparr>"

lemma sample_env_ok: "penv_ok sample_env"
  by (simp add: penv_ok_def sample_env_def)

definition sample_trace :: "event list" where
  "sample_trace = the_done (engine_diff_module None sample_module patched_module)"

lemma sample_trace: "engine_diff_module None sample_module patched_module = Done sample_trace"
  unfolding sample_trace_def by (rule the_done) code_simp

theorem diff_modules_report_witness:
  "\<exists>c. diff_modules sample_env id_init [] sample_module patched_module = Some c \<and> contexts c = [] \<and>
    set (DiffIdSet c) = reported_ids id_init [] sample_trace \<and>
    (hadDifferences c \<longleftrightarrow> trace_reports [] sample_trace \<noteq> {})"
  by (rule diff_modules_report [OF sample_env_ok sample_trace])

text \<open>A function that exists in one module only does not count as a difference: its message is outside
  every context, so when the modules have no function in common the tool exits with success.\<close>

theorem one_sided_functions_no_difference:
  assumes "penv_ok E" "left_pairs R (funcs L) = []"
  shows "\<exists>c. diff_modules E ids [] L R = Some c \<and> \<not> hadDifferences c \<and> DiffIdSet c = []"
proof -
  obtain es where es: "engine_diff_module None L R = Done es"
      "es = only_left R (funcs L) @ only_right (fname ` set (funcs L)) (funcs R)"
    using assms(2) by (simp add: engine_diff_module_def)
  have "trace_reports [] es = {}"
    unfolding es(2) by (rule toplevel_reports) (auto simp: only_left_def only_right_def split: option.splits if_splits)
  then show ?thesis
    using consume_engine_trace [OF assms(1) engine_diff_module_nested [OF es(1)], of ids] es(1)
    by (auto simp: diff_modules_def feed_def hadDifferences_def reported_ids_def)
qed

definition empty_module :: llvm_module where
  "empty_module = \<lparr>mod_id = ''e'', funcs = []\<rparr>"

theorem one_sided_functions_no_difference_witness:
  "\<exists>c. diff_modules sample_env id_init [] sample_module empty_module = Some c \<and> \<not> hadDifferences c \<and> DiffIdSet c = []"
  by (rule one_sided_functions_no_difference [OF sample_env_ok]) code_simp

definition double_load :: "vid \<Rightarrow> vid \<Rightarrow> block" where
  "double_load k stored = mk_block (k + 10)
     [mk_inst (k + 20) False (LoadInst (Arg (k + 2))), mk_inst (k + 21) False (LoadInst (Arg (k + 2))),
      mk_inst (k + 22) True (StoreInst (Inst Load stored) (Arg (k + 2))), mk_inst (k + 23) True (ReturnInst [])]"

definition double_load_func :: func where
  "double_load_func = \<lparr>faddr = 1, fname = ''h'', fargs = [(2, ''p'')], blocks = [double_load 0 20]\<rparr>"

definition double_load_other :: func where
  "double_load_other = \<lparr>faddr = 101, fname = ''h'', fargs = [(102, ''p'')], blocks = [double_load 100 121]\<rparr>"

text \<open>The undefined case is reachable: the two blocks load the same address twice and then store the
  first, respectively the second, loaded value.  The tentative pair of the first left and the second
  right load makes the stores match, so the alignment has no difference although the comparison in
  lock step found one.\<close>

theorem function_diff_undefined_reachable:
  "engine_diff_function None double_load_func double_load_other = Undefined"
  by code_simp

end
