(* ===== verification/Copy_Diff.thy ===== *)
theory Copy_Diff
  imports Module_Diff
begin

text \<open>
  The comparison of a module with a copy of itself.  The two modules of the tool are read from two
  files, so even identical files give objects at different addresses: the copy is the module with
  every address renamed by \<open>\<rho>\<close>.  The result is that the engine then makes no complaint, which is what
  keeps code that a patch did not touch out of the targets.
\<close>

section \<open>A renamed copy\<close>

fun rn_const :: "(vid \<Rightarrow> vid) \<Rightarrow> irconst \<Rightarrow> irconst" where
  "rn_const \<rho> (GlobalValue a k n) = GlobalValue (\<rho> a) k n"
| "rn_const \<rho> (ConstantExpr op p os) = ConstantExpr op p (map (rn_const \<rho>) os)"
| "rn_const \<rho> (BlockAddress f b) = BlockAddress (\<rho> f) (\<rho> b)"
| "rn_const \<rho> (ConstantVector os) = ConstantVector (map (rn_const \<rho>) os)"
| "rn_const \<rho> c = c"

fun rn_value :: "(vid \<Rightarrow> vid) \<Rightarrow> irvalue \<Rightarrow> irvalue" where
  "rn_value \<rho> (Const c) = Const (rn_const \<rho> c)"
| "rn_value \<rho> (Inst op a) = Inst op (\<rho> a)"
| "rn_value \<rho> (Arg a) = Arg (\<rho> a)"
| "rn_value \<rho> (Block b) = Block (\<rho> b)"
| "rn_value \<rho> v = v"

fun rn_kind :: "(vid \<Rightarrow> vid) \<Rightarrow> ikind \<Rightarrow> ikind" where
  "rn_kind \<rho> (CmpInst fp p a b) = CmpInst fp p (rn_value \<rho> a) (rn_value \<rho> b)"
| "rn_kind \<rho> (CallInst f as) = CallInst (rn_value \<rho> f) (map (rn_value \<rho>) as)"
| "rn_kind \<rho> (PHINode ps) = PHINode (map (\<lambda>(v, b). (rn_value \<rho> v, \<rho> b)) ps)"
| "rn_kind \<rho> (InvokeInst f as n u) = InvokeInst (rn_value \<rho> f) (map (rn_value \<rho>) as) (\<rho> n) (\<rho> u)"
| "rn_kind \<rho> (BranchInst t) = BranchInst (\<rho> t)"
| "rn_kind \<rho> (CondBranchInst c t f) = CondBranchInst (rn_value \<rho> c) (\<rho> t) (\<rho> f)"
| "rn_kind \<rho> (IndirectBrInst a ds) = IndirectBrInst (rn_value \<rho> a) (map \<rho> ds)"
| "rn_kind \<rho> (SwitchInst c d cs) = SwitchInst (rn_value \<rho> c) (\<rho> d) (map (\<lambda>(v, b). (v, \<rho> b)) cs)"
| "rn_kind \<rho> UnreachableInst = UnreachableInst"
| "rn_kind \<rho> (ReturnInst vs) = ReturnInst (map (rn_value \<rho>) vs)"
| "rn_kind \<rho> (ResumeInst v) = ResumeInst (rn_value \<rho> v)"
| "rn_kind \<rho> (LoadInst p) = LoadInst (rn_value \<rho> p)"
| "rn_kind \<rho> (StoreInst v p) = StoreInst (rn_value \<rho> v) (rn_value \<rho> p)"
| "rn_kind \<rho> (OtherInst n vs) = OtherInst n (map (rn_value \<rho>) vs)"

definition rn_inst :: "(vid \<Rightarrow> vid) \<Rightarrow> inst \<Rightarrow> inst" where
  "rn_inst \<rho> I = I\<lparr>iaddr := \<rho> (iaddr I), ikind := rn_kind \<rho> (ikind I)\<rparr>"

definition rn_block :: "(vid \<Rightarrow> vid) \<Rightarrow> block \<Rightarrow> block" where
  "rn_block \<rho> B = B\<lparr>baddr := \<rho> (baddr B), insts := map (rn_inst \<rho>) (insts B)\<rparr>"

definition rn_func :: "(vid \<Rightarrow> vid) \<Rightarrow> func \<Rightarrow> func" where
  "rn_func \<rho> F = F\<lparr>faddr := \<rho> (faddr F), fargs := map (\<lambda>(a, n). (\<rho> a, n)) (fargs F),
     blocks := map (rn_block \<rho>) (blocks F)\<rparr>"

definition rn_module :: "(vid \<Rightarrow> vid) \<Rightarrow> llvm_module \<Rightarrow> llvm_module" where
  "rn_module \<rho> M = M\<lparr>funcs := map (rn_func \<rho>) (funcs M)\<rparr>"

lemma rn_sel [simp]:
  "iaddr (rn_inst \<rho> I) = \<rho> (iaddr I)" "ikind (rn_inst \<rho> I) = rn_kind \<rho> (ikind I)"
  "ity (rn_inst \<rho> I) = ity I" "use_empty (rn_inst \<rho> I) = use_empty I"
  "baddr (rn_block \<rho> B) = \<rho> (baddr B)" "insts (rn_block \<rho> B) = map (rn_inst \<rho>) (insts B)"
  "fname (rn_func \<rho> F) = fname F" "blocks (rn_func \<rho> F) = map (rn_block \<rho>) (blocks F)"
  "faddr (rn_func \<rho> F) = \<rho> (faddr F)" "fargs (rn_func \<rho> F) = map (\<lambda>(a, n). (\<rho> a, n)) (fargs F)"
  "funcs (rn_module \<rho> M) = map (rn_func \<rho>) (funcs M)"
  by (simp_all add: rn_inst_def rn_block_def rn_func_def rn_module_def)

lemma rn_kind_opcode [simp]: "kind_opcode (rn_kind \<rho> k) = kind_opcode k"
  by (cases k) simp_all

lemma rn_kind_operands: "\<not> (\<exists>c d cs. k = SwitchInst c d cs) \<Longrightarrow> kind_operands (rn_kind \<rho> k) = map (rn_value \<rho>) (kind_operands k)"
  by (cases k) (simp_all add: case_prod_unfold)

lemma rn_const_ID [simp]: "constant_ID (rn_const \<rho> c) = constant_ID c"
  by (cases c) simp_all

lemma rn_value_ID [simp]: "value_ID (rn_value \<rho> v) = value_ID v"
  by (cases v) simp_all

section \<open>Equal operands\<close>

text \<open>A constant without the address of a block in it.\<close>

fun no_blockaddr :: "irconst \<Rightarrow> bool" where
  "no_blockaddr (BlockAddress _ _) = False"
| "no_blockaddr (ConstantExpr _ _ os) = list_all no_blockaddr os"
| "no_blockaddr (ConstantVector os) = list_all no_blockaddr os"
| "no_blockaddr _ = True"

lemma equiv_const_copy:
  "no_blockaddr c \<Longrightarrow> equiv_const (equiv_globals None) c (rn_const \<rho> c) B = (True, B)"
proof (induction c arbitrary: B)
  case (ConstantExpr op p os)
  have "equiv_consts (equiv_globals None) os (map (rn_const \<rho>) os) B = (True, B)" for B
    using ConstantExpr by (induction os arbitrary: B) auto
  then show ?case by (subst equiv_const.simps) simp
next
  case (ConstantVector os)
  have "equiv_consts (equiv_globals None) os (map (rn_const \<rho>) os) B = (True, B)" for B
    using ConstantVector by (induction os arbitrary: B) auto
  then show ?case by (subst equiv_const.simps) simp
qed (subst equiv_const.simps, simp add: equiv_globals_def)+

text \<open>The values known so far: \<open>A\<close> holds the mapped arguments, \<open>K\<close> the mapped or tentatively mapped
  instructions.\<close>

fun known :: "vid set \<Rightarrow> vid set \<Rightarrow> irvalue \<Rightarrow> bool" where
  "known A K (Const c) = no_blockaddr c"
| "known A K (Inst _ a) = (a \<in> K)"
| "known A K (Arg a) = (a \<in> A)"
| "known A K (Block b) = False"
| "known A K _ = True"

lemma known_mono: "known A K v \<Longrightarrow> A \<subseteq> A' \<Longrightarrow> K \<subseteq> K' \<Longrightarrow> known A' K' v"
  by (cases v) auto

definition value_map :: "(vid \<Rightarrow> vid) \<Rightarrow> fde \<Rightarrow> vid set" where
  "value_map \<rho> st = {a. Values st a = Some (\<rho> a)}"

definition tentative_map :: "(vid \<Rightarrow> vid) \<Rightarrow> fde \<Rightarrow> vid set" where
  "tentative_map \<rho> st = {a. (a, \<rho> a) \<in> set (TentativeValues st)}"

abbreviation knows :: "(vid \<Rightarrow> vid) \<Rightarrow> fde \<Rightarrow> irvalue \<Rightarrow> bool" where
  "knows \<rho> st \<equiv> known (value_map \<rho> st) (value_map \<rho> st \<union> tentative_map \<rho> st)"

lemma equiv_value_copy:
  "knows \<rho> st v \<Longrightarrow> equiv_value (equiv_globals None) v (rn_value \<rho> v) st = (True, st)"
  by (subst equiv_value.simps, cases v) (auto simp: equiv_const_copy value_map_def tentative_map_def)

lemma first_diff_copy:
  "list_all (knows \<rho> st) vs \<Longrightarrow> first_diff (equiv_globals None) vs (map (rn_value \<rho>) vs) st = (None, st)"
  by (induction vs) (auto simp: equiv_value_copy)

section \<open>Equal instructions\<close>

text \<open>The operands that the comparison of two instructions looks at.\<close>

fun checked :: "ikind \<Rightarrow> irvalue list" where
  "checked (CallInst f as) = f # as"
| "checked (InvokeInst f as n u) = f # as"
| "checked (PHINode _) = []"
| "checked (BranchInst _) = []"
| "checked (CondBranchInst c _ _) = [c]"
| "checked (IndirectBrInst a _) = [a]"
| "checked (SwitchInst c _ _) = [c]"
| "checked UnreachableInst = []"
| "checked k = kind_operands k"

text \<open>The pairs of successors in the order in which they are unified.\<close>

fun unify_order :: "ikind \<Rightarrow> vid list" where
  "unify_order (CondBranchInst _ t f) = [f, t]"
| "unify_order k = kind_succs k"

lemma set_unify_order [simp]: "set (unify_order k) = set (kind_succs k)"
  by (cases k) auto

definition enq :: "(vid \<Rightarrow> vid) \<Rightarrow> func \<Rightarrow> vid list \<Rightarrow> fde \<Rightarrow> fde" where
  "enq \<rho> F bs st = fold (\<lambda>b st. snd (tryUnify F b (\<rho> b) st)) bs st"

text \<open>LLVM allows no two cases of a switch with the same value.\<close>

fun cases_ok :: "ikind \<Rightarrow> bool" where
  "cases_ok (SwitchInst _ _ cs) = distinct (map fst cs)"
| "cases_ok _ = True"

lemma filter_other_keys: "v \<notin> fst ` set cs \<Longrightarrow> filter (\<lambda>e. fst e \<noteq> v) cs = cs"
  by (induction cs) auto

lemma case_table_distinct: "distinct (map fst cs) \<Longrightarrow> case_table cs = cs"
proof -
  have "distinct (map fst (m @ cs)) \<Longrightarrow>
      foldl (\<lambda>m (v, b). filter (\<lambda>e. fst e \<noteq> v) m @ [(v, b)]) m cs = m @ cs" for m
    by (induction cs arbitrary: m) (auto simp: filter_other_keys)
  then show "distinct (map fst cs) \<Longrightarrow> case_table cs = cs" by (simp add: case_table_def)
qed

lemma switch_cases_copy:
  "distinct (map fst cs) \<Longrightarrow>
   switch_cases c True F (map (\<lambda>(v, b). (v, \<rho> b)) cs) cs False st = ([], False, enq \<rho> F (map snd cs) st) \<and>
   switch_cases c False F (map (\<lambda>(v, b). (v, \<rho> b)) cs) cs False st = ([], False, st)"
  by (induction cs arbitrary: st) (auto simp: filter_other_keys enq_def unify_if_def)

lemma unify_dests_copy:
  "unify_dests True F ds (map \<rho> ds) st = enq \<rho> F ds st" "unify_dests False F ds (map \<rho> ds) st = st"
  by (induction ds arbitrary: st) (auto simp: enq_def unify_if_def)

lemma diff_inst_copy:
  assumes "list_all (knows \<rho> st) (checked (ikind I))" "cases_ok (ikind I)"
  shows "diff_inst (equiv_globals None) F c tu I (rn_inst \<rho> I) st =
    (False, if tu then enq \<rho> F (unify_order (ikind I)) st else st)"
proof (cases "ikind I")
  case (SwitchInst q d cs)
  then show ?thesis using assms switch_cases_copy [of cs c F \<rho>]
    by (cases tu) (auto simp: diff_inst_def diff_switch_def equiv_value_copy case_table_distinct
        unify_if_def enq_def)
qed (use assms in \<open>cases tu; simp add: diff_inst_def diffCallSites_def diff_operands_def equiv_value_copy
       first_diff_copy [of \<rho> st "[a, b]" for a b, simplified]
       first_diff_copy [of \<rho> st "[a]" for a, simplified] first_diff_copy unify_if_def enq_def
       unify_dests_copy [unfolded enq_def]\<close>)+

section \<open>Equal blocks\<close>

text \<open>Partners and queued pairs follow the renaming.\<close>

definition renamed :: "(vid \<Rightarrow> vid) \<Rightarrow> fde \<Rightarrow> bool" where
  "renamed \<rho> st \<longleftrightarrow> (\<forall>l r. Blocks st l = Some (Some r) \<longrightarrow> r = \<rho> l) \<and> (\<forall>(l, r) \<in> set (Queue st). r = \<rho> l)"

text \<open>\<open>silent \<rho> bs ks st st'\<close>: the step opened and closed contexts without a message, gave the blocks \<open>bs\<close>
  their partners and the values \<open>ks\<close> theirs.\<close>

definition silent :: "(vid \<Rightarrow> vid) \<Rightarrow> vid set \<Rightarrow> vid set \<Rightarrow> fde \<Rightarrow> fde \<Rightarrow> bool" where
  "silent \<rho> bs ks st st' \<longleftrightarrow>
     renamed \<rho> st' \<and> filter message (trace st') = filter message (trace st) \<and>
     value_map \<rho> st' = value_map \<rho> st \<union> ks \<and> TentativeValues st' = TentativeValues st \<and>
     asserts st' = asserts st \<and> mapped st' = mapped st \<union> bs \<and>
     fst ` set (Queue st') = fst ` set (Queue st) \<union> (bs - mapped st)"

lemma silent_refl: "renamed \<rho> st \<Longrightarrow> silent \<rho> {} {} st st"
  by (simp add: silent_def)

lemma silent_trans: "silent \<rho> bs ks a b \<Longrightarrow> silent \<rho> cs ls b c \<Longrightarrow> silent \<rho> (bs \<union> cs) (ks \<union> ls) a c"
  unfolding silent_def by auto

lemma silent_renamed: "silent \<rho> bs ks st st' \<Longrightarrow> renamed \<rho> st'"
  by (simp add: silent_def)

lemma set_pq_insert: "set (pq_insert P xs v) = insert v (set xs)"
  by (metis mset_pq_insert set_mset_add_mset_insert set_mset_mset)

lemma silent_tryUnify: "renamed \<rho> st \<Longrightarrow> silent \<rho> {b} {} st (snd (tryUnify F b (\<rho> b) st))"
proof (cases "b \<in> mapped st")
  case True
  assume r: "renamed \<rho> st"
  with True have "Blocks st b = Some (Some (\<rho> b))" by (auto simp: mapped_def renamed_def)
  then show ?thesis using True r by (auto simp: tryUnify_def silent_def)
next
  case False
  assume r: "renamed \<rho> st"
  let ?B = "(Blocks st)(b \<mapsto> Some (\<rho> b))"
  have eq: "snd (tryUnify F b (\<rho> b) st) =
      st\<lparr>Blocks := ?B, Queue := pq_insert (QueueSorter F ?B) (Queue st) (b, \<rho> b)\<rparr>"
    using False by (auto simp: tryUnify_def mapped_def Let_def split: option.splits)
  show ?thesis unfolding eq using False r
    by (auto simp: silent_def renamed_def value_map_def mapped_def set_pq_insert)
qed

lemma silent_enq: "renamed \<rho> st \<Longrightarrow> silent \<rho> (set bs) {} st (enq \<rho> F bs st)"
proof (induction bs arbitrary: st)
  case (Cons b bs)
  note 1 = silent_tryUnify [OF Cons.prems, of b F]
  show ?case using silent_trans [OF 1 Cons.IH [OF silent_renamed [OF 1]]] by (simp add: enq_def)
qed (simp add: enq_def silent_refl)

definition inst_defs :: "inst list \<Rightarrow> vid set" where
  "inst_defs is = iaddr ` {I \<in> set is. \<not> use_empty I}"

lemma inst_defs_simps [simp]:
  "inst_defs [] = {}"
  "inst_defs (I # is) = (if use_empty I then {} else {iaddr I}) \<union> inst_defs is"
  by (auto simp: inst_defs_def)

lemma silent_unify:
  assumes "renamed \<rho> st" "list_all (knows \<rho> st) (checked (ikind I))" "cases_ok (ikind I)"
  shows "silent \<rho> (set (kind_succs (ikind I))) (inst_defs [I]) st (unify (equiv_globals None) F I (rn_inst \<rho> I) st)"
proof -
  let ?st0 = "emit [EnterContext (inst_value I) (inst_value (rn_inst \<rho> I))] st"
  have k: "list_all (knows \<rho> ?st0) (checked (ikind I))" "renamed \<rho> ?st0"
    using assms(1,2) by (simp_all add: emit_def value_map_def tentative_map_def renamed_def)
  note s = silent_enq [OF k(2), of "unify_order (ikind I)" F]
  show ?thesis
    using s unfolding unify_def diff_inst_copy [OF k(1) assms(3)]
    by (auto simp: Let_def silent_def emit_def renamed_def value_map_def mapped_def)
qed

text \<open>Every operand that is compared is known when its instruction is reached.\<close>

fun uses_ok :: "vid set \<Rightarrow> vid set \<Rightarrow> inst list \<Rightarrow> bool" where
  "uses_ok A K [] = True"
| "uses_ok A K (I # is) =
     (list_all (known A K) (checked (ikind I)) \<and> cases_ok (ikind I) \<and>
      uses_ok A (if use_empty I then K else insert (iaddr I) K) is)"

lemma uses_ok_mono: "uses_ok A K is \<Longrightarrow> A \<subseteq> A' \<Longrightarrow> K \<subseteq> K' \<Longrightarrow> uses_ok A' K' is"
proof (induction "is" arbitrary: K K')
  case (Cons I "is")
  then have "list_all (known A' K') (checked (ikind I))" by (auto simp: list_all_iff intro: known_mono)
  moreover have "uses_ok A' (if use_empty I then K' else insert (iaddr I) K') is"
    using Cons.prems by (intro Cons.IH [of "if use_empty I then K else insert (iaddr I) K"]) auto
  ultimately show ?case using Cons.prems by simp
qed simp

abbreviation ready :: "(vid \<Rightarrow> vid) \<Rightarrow> fde \<Rightarrow> inst list \<Rightarrow> bool" where
  "ready \<rho> st \<equiv> uses_ok (value_map \<rho> st) (value_map \<rho> st \<union> tentative_map \<rho> st)"

lemma diff_prefix_copy:
  "is \<noteq> [] \<Longrightarrow> ready \<rho> st is \<Longrightarrow>
   \<exists>t. diff_prefix (equiv_globals None) F is (map (rn_inst \<rho>) is) st = Done (False, st\<lparr>TentativeValues := t\<rparr>)"
proof (induction "is" arbitrary: st)
  case (Cons I "is")
  let ?st2 = "if use_empty I then st else st\<lparr>TentativeValues := (iaddr I, \<rho> (iaddr I)) # TentativeValues st\<rparr>"
  have d: "diff_inst (equiv_globals None) F False False I (rn_inst \<rho> I) st = (False, st)"
    using diff_inst_copy Cons.prems by simp
  have "ready \<rho> ?st2 is"
    using Cons.prems(2) by (auto simp: value_map_def tentative_map_def elim!: uses_ok_mono)
  then have "is \<noteq> [] \<Longrightarrow> \<exists>t. diff_prefix (equiv_globals None) F is (map (rn_inst \<rho>) is) ?st2 =
      Done (False, ?st2\<lparr>TentativeValues := t\<rparr>)"
    using Cons.IH by blast
  moreover have "\<exists>t. ?st2 = st\<lparr>TentativeValues := t\<rparr>"
    by (cases "use_empty I") (auto intro: exI [of _ "TentativeValues st"])
  ultimately show ?case using d by (auto simp: Let_def)
qed simp

lemma unify_all_copy:
  "renamed \<rho> st \<Longrightarrow> ready \<rho> st is \<Longrightarrow>
   \<exists>st'. unify_all (equiv_globals None) F is (map (rn_inst \<rho>) is) st = Done st' \<and>
     silent \<rho> (dests is) (inst_defs is) st st'"
proof (induction "is" arbitrary: st)
  case (Cons I "is")
  let ?st1 = "unify (equiv_globals None) F I (rn_inst \<rho> I) st"
  have s: "silent \<rho> (set (kind_succs (ikind I))) (inst_defs [I]) st ?st1"
    using silent_unify Cons.prems by simp
  then have "value_map \<rho> ?st1 = value_map \<rho> st \<union> inst_defs [I]" "tentative_map \<rho> ?st1 = tentative_map \<rho> st"
    by (simp_all add: silent_def tentative_map_def)
  then have "ready \<rho> ?st1 is" using Cons.prems(2) by (auto elim!: uses_ok_mono split: if_splits)
  then obtain st' where "unify_all (equiv_globals None) F is (map (rn_inst \<rho>) is) ?st1 = Done st'"
      "silent \<rho> (dests is) (inst_defs is) ?st1 st'"
    using Cons.IH [of ?st1] silent_renamed [OF s] by blast
  then show ?case using silent_trans [OF s] by fastforce
qed (simp add: silent_refl dests_def)

lemma diff_block_copy:
  assumes "renamed \<rho> st" "TentativeValues st = []" "insts B \<noteq> []"
    and "uses_ok (value_map \<rho> st) (value_map \<rho> st) (insts B)"
  shows "\<exists>st'. diff_block (equiv_globals None) F B (rn_block \<rho> B) st = Done st' \<and>
     silent \<rho> (dests (insts B)) (inst_defs (insts B)) st st'"
proof -
  let ?st0 = "emit [EnterContext (Block (baddr B)) (Block (\<rho> (baddr B)))] st"
  have t0: "tentative_map \<rho> ?st0 = {}" "value_map \<rho> ?st0 = value_map \<rho> st" "renamed \<rho> ?st0"
    using assms(1,2) by (simp_all add: tentative_map_def emit_def value_map_def renamed_def)
  then obtain t where t: "diff_prefix (equiv_globals None) F (insts B) (map (rn_inst \<rho>) (insts B)) ?st0 =
      Done (False, ?st0\<lparr>TentativeValues := t\<rparr>)"
    using diff_prefix_copy [OF assms(3), of \<rho> ?st0 F] assms(4) by auto
  have "?st0\<lparr>TentativeValues := []\<rparr> = ?st0" using assms(2) by (simp add: emit_def)
  then obtain st' where "unify_all (equiv_globals None) F (insts B) (map (rn_inst \<rho>) (insts B)) ?st0 = Done st'"
      "silent \<rho> (dests (insts B)) (inst_defs (insts B)) ?st0 st'"
    using unify_all_copy [OF t0(3), of "insts B" F] assms(4) t0 by auto
  then show ?thesis using t \<open>?st0\<lparr>TentativeValues := []\<rparr> = ?st0\<close>
    by (auto simp: diff_block_def Let_def silent_def emit_def renamed_def value_map_def mapped_def)
qed

section \<open>Equal functions\<close>

text \<open>\<open>via F P b\<close>: block \<open>b\<close> is reachable from the entry through blocks of \<open>P\<close>.  A block strictly dominates
  \<open>b\<close> when \<open>b\<close> is not reachable without it.\<close>

inductive via :: "func \<Rightarrow> vid set \<Rightarrow> vid \<Rightarrow> bool" for F P where
  via_entry: "blocks F \<noteq> [] \<Longrightarrow> via F P (baddr (hd (blocks F)))"
| via_step: "via F P b \<Longrightarrow> b \<in> P \<Longrightarrow> get_block F b = Some B \<Longrightarrow> c \<in> dests (insts B) \<Longrightarrow> via F P c"

lemma via_mono: "via F P b \<Longrightarrow> P \<subseteq> P' \<Longrightarrow> via F P' b"
  by (induction rule: via.induct) (auto intro: via.intros)

definition available :: "func \<Rightarrow> block \<Rightarrow> vid set" where
  "available F B = (\<Union>D \<in> {D \<in> set (blocks F). \<not> via F (- {baddr D}) (baddr B)}. inst_defs (insts D))"

text \<open>What LLVM's verifier guarantees of a function, and no block address among its constants.\<close>

definition copy_ok :: "func \<Rightarrow> bool" where
  "copy_ok F \<longleftrightarrow>
     distinct (map baddr (blocks F)) \<and>
     (\<forall>B \<in> set (blocks F).
        insts B \<noteq> [] \<and> dests (insts B) \<subseteq> baddr ` set (blocks F) \<and>
        uses_ok (fst ` set (fargs F)) (available F B) (insts B))"

definition copy_inv :: "(vid \<Rightarrow> vid) \<Rightarrow> func \<Rightarrow> fde \<Rightarrow> bool" where
  "copy_inv \<rho> F st \<longleftrightarrow>
     queue_inv st \<and> renamed \<rho> st \<and> TentativeValues st = [] \<and> filter message (trace st) = [] \<and> asserts st \<and>
     fst ` set (fargs F) \<subseteq> value_map \<rho> st \<and> mapped st \<subseteq> baddr ` set (blocks F) \<and>
     (\<forall>B \<in> set (blocks F). baddr B \<in> mapped st - fst ` set (Queue st) \<longrightarrow> inst_defs (insts B) \<subseteq> value_map \<rho> st) \<and>
     (\<forall>b \<in> mapped st. via F (mapped st - fst ` set (Queue st)) b)"

lemma get_block_distinct:
  "distinct (map baddr (blocks F)) \<Longrightarrow> B \<in> set (blocks F) \<Longrightarrow> get_block F (baddr B) = Some B"
proof -
  assume *: "distinct (map baddr (blocks F))" "B \<in> set (blocks F)"
  then have "get_block F (baddr B) \<noteq> None" by (simp add: get_block_None)
  then obtain D where D: "get_block F (baddr B) = Some D" by blast
  have "inj_on baddr (set (blocks F))" using *(1) by (simp add: distinct_map)
  then have "D = B" using get_block_Some [OF D] *(2) by (blast dest: inj_onD)
  with D show ?thesis by simp
qed

lemma get_block_copy:
  "inj_on \<rho> (baddr ` set (blocks F)) \<Longrightarrow> distinct (map baddr (blocks F)) \<Longrightarrow> B \<in> set (blocks F) \<Longrightarrow>
   get_block (rn_func \<rho> F) (\<rho> (baddr B)) = Some (rn_block \<rho> B)"
proof -
  assume *: "inj_on \<rho> (baddr ` set (blocks F))" "distinct (map baddr (blocks F))" "B \<in> set (blocks F)"
  then have "distinct (map \<rho> (map baddr (blocks F)))" by (subst distinct_map) simp
  then have "distinct (map baddr (blocks (rn_func \<rho> F)))" by (simp add: comp_def)
  then show ?thesis using get_block_distinct [of "rn_func \<rho> F" "rn_block \<rho> B"] * by simp
qed

lemma available_known:
  assumes "copy_inv \<rho> F st" "baddr B \<in> mapped st"
  shows "available F B \<subseteq> value_map \<rho> st"
proof
  fix a assume "a \<in> available F B"
  then obtain D where D: "D \<in> set (blocks F)" "\<not> via F (- {baddr D}) (baddr B)" "a \<in> inst_defs (insts D)"
    by (auto simp: available_def)
  have v: "via F (mapped st - fst ` set (Queue st)) (baddr B)"
    using assms unfolding copy_inv_def by blast
  have "baddr D \<in> mapped st - fst ` set (Queue st)"
  proof (rule ccontr)
    assume "baddr D \<notin> mapped st - fst ` set (Queue st)"
    then have "mapped st - fst ` set (Queue st) \<subseteq> - {baddr D}" by auto
    with D(2) via_mono [OF v] show False by blast
  qed
  then show "a \<in> value_map \<rho> st" using assms(1) D(1,3) unfolding copy_inv_def by blast
qed

lemma copy_inv_step:
  assumes inv: "copy_inv \<rho> F st" and ok: "copy_ok F" and inj: "inj_on \<rho> (baddr ` set (blocks F))"
    and rm: "remove_min pod P (Queue st) = Some ((l, r), q)"
  shows "\<exists>B st'. get_block F l = Some B \<and> get_block (rn_func \<rho> F) r = Some (rn_block \<rho> B) \<and>
     diff_block (equiv_globals None) F B (rn_block \<rho> B) (st\<lparr>Queue := q\<rparr>) = Done st' \<and> copy_inv \<rho> F st'"
proof -
  let ?s = "st\<lparr>Queue := q\<rparr>"
  have m: "mset (Queue st) = add_mset (l, r) (mset q)" using mset_remove_min [OF rm] by simp
  then have sq: "set (Queue st) = insert (l, r) (set q)" by (metis set_mset_add_mset_insert set_mset_mset)
  have "mset (map fst (Queue st)) = mset (l # map fst q)" using m by simp
  then have lq: "l \<notin> fst ` set q"
    using mset_eq_imp_distinct_iff [of "map fst (Queue st)" "l # map fst q"] inv
    by (auto simp: copy_inv_def queue_inv_def)
  have rs: "renamed \<rho> st" "\<forall>(l, r) \<in> set (Queue st). Blocks st l = Some (Some r)"
    using inv by (simp_all add: copy_inv_def queue_inv_def)
  have "(l, r) \<in> set (Queue st)" using sq by simp
  then have r2: "Blocks st l = Some (Some r)" using rs(2) by blast
  then have r1: "r = \<rho> l" using rs(1) unfolding renamed_def by blast
  have r3: "renamed \<rho> ?s" using rs(1) unfolding renamed_def sq by simp
  note r = r1 r2 r3
  then have lm: "l \<in> mapped st" by (auto simp: mapped_def)
  then obtain B where B: "B \<in> set (blocks F)" "baddr B = l" using inv by (auto simp: copy_inv_def)
  have d: "distinct (map baddr (blocks F))" using ok by (simp add: copy_ok_def)
  have g: "get_block F l = Some B" "get_block (rn_func \<rho> F) r = Some (rn_block \<rho> B)"
    using get_block_distinct [OF d B(1)] get_block_copy [OF inj d B(1)] B(2) r(1) by simp_all
  have "uses_ok (fst ` set (fargs F)) (available F B) (insts B)" "insts B \<noteq> []"
    using ok [unfolded copy_ok_def, THEN conjunct2, rule_format, OF B(1)] by simp_all
  moreover have "available F B \<subseteq> value_map \<rho> st" using available_known [OF inv] B(2) lm by simp
  moreover have "fst ` set (fargs F) \<subseteq> value_map \<rho> st" using inv unfolding copy_inv_def by blast
  moreover have "value_map \<rho> ?s = value_map \<rho> st" by (simp add: value_map_def)
  ultimately have u: "insts B \<noteq> []" "uses_ok (value_map \<rho> ?s) (value_map \<rho> ?s) (insts B)"
    using uses_ok_mono by metis+
  obtain st' where st': "diff_block (equiv_globals None) F B (rn_block \<rho> B) ?s = Done st'"
      "silent \<rho> (dests (insts B)) (inst_defs (insts B)) ?s st'"
    using diff_block_copy [OF r(3) _ u, of F] inv by (auto simp: copy_inv_def)
  have qi: "queue_inv st'"
    using queue_inv_step [OF _ rm st'(1) dests_left_targets [OF B(1)] _ B(2)] inv by (simp add: copy_inv_def)
  have mm: "mapped ?s = mapped st" "value_map \<rho> ?s = value_map \<rho> st" by (simp_all add: mapped_def value_map_def)
  have lq': "l \<in> fst ` set (Queue st)" using sq by force
  have P: "mapped st' - fst ` set (Queue st') = insert l (mapped st - fst ` set (Queue st))"
    using st'(2) sq lq lm mm by (auto simp: silent_def)
  have via: "via F (insert l (mapped st - fst ` set (Queue st))) b" if "b \<in> mapped st" for b
    using inv that via_mono [of F "mapped st - fst ` set (Queue st)" b] unfolding copy_inv_def by blast
  then have via': "via F (insert l (mapped st - fst ` set (Queue st))) b" if "b \<in> mapped st'" for b
    using that st'(2) mm via_step [OF via [OF lm] _ g(1)] by (auto simp: silent_def)
  have "copy_inv \<rho> F st'"
    unfolding copy_inv_def P
  proof (intro conjI ballI impI)
    show "mapped st' \<subseteq> baddr ` set (blocks F)"
      using st'(2) inv ok B(1) mm by (auto simp: silent_def copy_inv_def copy_ok_def)
    fix D assume D: "D \<in> set (blocks F)" "baddr D \<in> insert l (mapped st - fst ` set (Queue st))"
    show "inst_defs (insts D) \<subseteq> value_map \<rho> st'"
    proof (cases "baddr D = l")
      case True
      then have "D = B" using D(1) B d by (auto simp: distinct_map inj_on_def)
      then show ?thesis using st'(2) by (auto simp: silent_def)
    next
      case False
      then have "inst_defs (insts D) \<subseteq> value_map \<rho> st" using inv D unfolding copy_inv_def by blast
      then show ?thesis using st'(2) mm by (auto simp: silent_def)
    qed
  qed (use st'(2) inv qi mm via' in \<open>auto simp: silent_def copy_inv_def\<close>)
  with g st'(1) show ?thesis by blast
qed

lemma processQueue_copy:
  assumes "copy_ok F" "inj_on \<rho> (baddr ` set (blocks F))"
  shows "copy_inv \<rho> F st \<Longrightarrow> processQueue n (equiv_globals None) F (rn_func \<rho> F) st \<noteq> OutOfFuel \<Longrightarrow>
    \<exists>st'. processQueue n (equiv_globals None) F (rn_func \<rho> F) st = Done st' \<and> copy_inv \<rho> F st'"
proof (induction n arbitrary: st)
  case (Suc n)
  show ?case
  proof (cases "remove_min True (QueueSorter F (Blocks st)) (Queue st)")
    case (Some x)
    obtain l r q where x: "x = ((l, r), q)" by (metis surj_pair)
    obtain B st' where s: "get_block F l = Some B" "get_block (rn_func \<rho> F) r = Some (rn_block \<rho> B)"
        "diff_block (equiv_globals None) F B (rn_block \<rho> B) (st\<lparr>Queue := q\<rparr>) = Done st'" "copy_inv \<rho> F st'"
      using copy_inv_step [OF Suc.prems(1) assms Some [unfolded x]] by blast
    have "processQueue (Suc n) (equiv_globals None) F (rn_func \<rho> F) st =
        processQueue n (equiv_globals None) F (rn_func \<rho> F) st'"
      using Some x s by simp
    with Suc.IH [OF s(4)] Suc.prems(2) show ?thesis by metis
  qed (use Suc.prems in simp)
qed (simp split: if_splits)

lemma map_args_copy:
  "a \<in> fst ` set xs \<or> V a = Some (\<rho> a) \<Longrightarrow> map_args xs (map (\<lambda>(a, n). (\<rho> a, n)) xs) V a = Some (\<rho> a)"
proof (induction xs arbitrary: V)
  case (Cons x xs)
  obtain b n where x: "x = (b, n)" by fastforce
  have "a \<in> fst ` set xs \<or> (V(b \<mapsto> \<rho> b)) a = Some (\<rho> a)" using Cons.prems x by auto
  from Cons.IH [of "V(b \<mapsto> \<rho> b)", OF this] show ?case by (simp add: x fun_upd_def)
qed simp

lemma start_state_copy:
  assumes "blocks F \<noteq> []"
  shows "copy_inv \<rho> F (start_state F (rn_func \<rho> F))"
proof -
  let ?e = "baddr (hd (blocks F))"
  let ?st = "fde_init\<lparr>Values := map_args (fargs F) (map (\<lambda>(a, n). (\<rho> a, n)) (fargs F)) Map.empty\<rparr>"
  have e: "start_state F (rn_func \<rho> F) = snd (tryUnify F ?e (\<rho> ?e) ?st)"
    using assms by (simp add: start_state_def fde_init_def hd_map)
  have "renamed \<rho> ?st" by (simp add: renamed_def fde_init_def)
  note s = silent_tryUnify [OF this, of ?e F, folded e]
  have q: "queue_inv (start_state F (rn_func \<rho> F))"
    using queue_inv_evolves [OF fde_init_inv(1) start_state_evolves [OF assms]] .
  have m: "mapped ?st = {}" "Queue ?st = []" "trace ?st = []" "TentativeValues ?st = []" "asserts ?st"
    by (simp_all add: mapped_def fde_init_def)
  have "fst ` set (fargs F) \<subseteq> value_map \<rho> ?st"
    using map_args_copy [of _ "fargs F" Map.empty \<rho>] by (auto simp: value_map_def simp del: fun_upd_apply)
  then have a: "fst ` set (fargs F) \<subseteq> value_map \<rho> (start_state F (rn_func \<rho> F))" using s by (auto simp: silent_def)
  have "?e \<in> baddr ` set (blocks F)" using assms by simp
  then show ?thesis using s q m a via_entry [OF assms] by (auto simp: copy_inv_def silent_def)
qed

lemma engine_diff_function_copy:
  assumes "copy_ok F" "inj_on \<rho> (baddr ` set (blocks F))"
  shows "\<exists>es. engine_diff_function None F (rn_func \<rho> F) = Done es \<and> filter message es = []"
proof (cases "blocks F = []")
  case False
  then have b: "blocks (rn_func \<rho> F) \<noteq> []" by simp
  obtain st where "diff_function (equiv_globals None) F (rn_func \<rho> F) fde_init = Done st" "copy_inv \<rho> F st"
    using processQueue_copy [OF assms start_state_copy [OF False]] diff_function_run(1) [OF False b]
      diff_function_start [OF False b] by metis
  then show ?thesis using False by (simp add: engine_diff_function_def Let_def copy_inv_def)
qed (simp add: engine_diff_function_def Let_def)

section \<open>Equal modules\<close>

definition module_copy_ok :: "(vid \<Rightarrow> vid) \<Rightarrow> llvm_module \<Rightarrow> bool" where
  "module_copy_ok \<rho> M \<longleftrightarrow>
     distinct (map fname (funcs M)) \<and>
     (\<forall>F \<in> set (funcs M). copy_ok F \<and> inj_on \<rho> (baddr ` set (blocks F)))"

lemma find_key:
  assumes "distinct (map k xs)" "x \<in> set xs"
  shows "find (\<lambda>y. k y = k x) xs = Some x"
proof -
  obtain y where y: "find (\<lambda>y. k y = k x) xs = Some y"
    using assms(2) by (cases "find (\<lambda>y. k y = k x) xs") (auto simp: find_None_iff)
  then have "y \<in> set xs" "k y = k x" by (auto simp: find_Some_iff)
  moreover have "inj_on k (set xs)" using assms(1) by (simp add: distinct_map)
  ultimately have "y = x" using assms(2) by (blast dest: inj_onD)
  with y show ?thesis by simp
qed

lemma get_function_copy:
  assumes "distinct (map fname (funcs M))" "F \<in> set (funcs M)"
  shows "get_function (rn_module \<rho> M) (fname F) = Some (rn_func \<rho> F)"
proof -
  have "distinct (map fname (map (rn_func \<rho>) (funcs M)))" using assms(1) by (simp add: comp_def)
  from find_key [OF this, of "rn_func \<rho> F"] assms(2) show ?thesis by (simp add: get_function_def)
qed

lemma engine_diff_module_copy:
  assumes "module_copy_ok \<rho> M"
  shows "\<exists>es. engine_diff_module None M (rn_module \<rho> M) = Done es \<and> filter message es = []"
proof -
  let ?R = "rn_module \<rho> M"
  have g: "get_function ?R (fname F) = Some (rn_func \<rho> F)" if "F \<in> set (funcs M)" for F
    using assms that by (intro get_function_copy) (simp add: module_copy_ok_def)
  have "\<exists>es. diff_pairs None (left_pairs ?R fs) = Done es \<and> filter message es = []"
    if "set fs \<subseteq> set (funcs M)" for fs
    using that
  proof (induction fs)
    case (Cons F fs)
    then have F: "F \<in> set (funcs M)" by simp
    then have "copy_ok F" "inj_on \<rho> (baddr ` set (blocks F))" using assms by (simp_all add: module_copy_ok_def)
    from engine_diff_function_copy [OF this] Cons show ?case by (auto simp: left_pairs_def g [OF F])
  qed (simp add: left_pairs_def)
  then obtain es where es: "diff_pairs None (left_pairs ?R (funcs M)) = Done es" "filter message es = []" by blast
  have "only_left ?R (funcs M) = []" using g by (auto simp: only_left_def split: option.split)
  moreover have "only_right (fname ` set (funcs M)) (funcs ?R) = []" by (auto simp: only_right_def)
  ultimately show ?thesis using es by (simp add: engine_diff_module_def)
qed

lemma nested_events: "nested Q es \<Longrightarrow> e \<in> set es \<Longrightarrow> message e \<or> e = ExitContext \<or> (\<exists>L R. e = EnterContext L R)"
  by (induction rule: nested.induct) auto

lemma quiet_reports: "nested Q es \<Longrightarrow> filter message es = [] \<Longrightarrow> trace_reports stk es = {}"
proof -
  assume "nested Q es" "filter message es = []"
  then have "\<forall>e \<in> set es. e = ExitContext \<or> (\<exists>L R. e = EnterContext L R)"
    using nested_events by (fastforce simp: filter_empty_conv)
  then show ?thesis by (induction es arbitrary: stk) auto
qed

section \<open>Properties\<close>


text \<open>In the sample function every path to another block leads through the entry.\<close>

lemma sample_via: "via sample_func (- {10}) b \<Longrightarrow> b = 10"
  by (induction rule: via.induct) (simp_all add: sample_func_def mk_block_def)

lemma sample_available:
  "b \<noteq> 10 \<Longrightarrow> baddr B = b \<Longrightarrow> {20, 21} \<subseteq> available sample_func B"
proof -
  assume b: "b \<noteq> 10" "baddr B = b"
  let ?D = "hd (blocks sample_func)"
  have D: "?D \<in> set (blocks sample_func)" "baddr ?D = 10" "inst_defs (insts ?D) = {20, 21}"
    by (auto simp: sample_func_def mk_block_def mk_inst_def)
  have "\<not> via sample_func (- {10}) (baddr B)" using sample_via b by blast
  then have "?D \<in> {D \<in> set (blocks sample_func). \<not> via sample_func (- {baddr D}) (baddr B)}"
    using D(1,2) by simp
  then have "inst_defs (insts ?D) \<subseteq> available sample_func B" unfolding available_def by (rule UN_upper)
  then show ?thesis by (simp only: D(3))
qed

lemma sample_copy_ok: "copy_ok sample_func"
  unfolding copy_ok_def
proof (intro conjI ballI)
  fix B assume B: "B \<in> set (blocks sample_func)"
  have "uses_ok {2} (if baddr B = 10 then {} else {20, 21}) (insts B)"
    using B by (auto simp: sample_func_def mk_block_def mk_inst_def)
  moreover have "(if baddr B = 10 then {} else {20, 21}) \<subseteq> available sample_func B"
    using sample_available [of "baddr B" B] by simp
  ultimately show "uses_ok (fst ` set (fargs sample_func)) (available sample_func B) (insts B)"
    by (elim uses_ok_mono) (simp_all add: sample_func_def)
qed (auto simp: sample_func_def mk_block_def mk_inst_def)


end
