(* ===== verification/Memory.thy ===== *)
theory Memory
  imports Prelude "HOL-Library.Monad_Syntax"
begin

text \<open>
  The address space of the instrumented program and the loops over it that the runtime is made of.  A
  memory is a total function on 64-bit addresses; pointer arithmetic wraps around.  The byte loops are those
  of \<^verbatim>\<open>sanitizer_common/sanitizer_libc.cc\<close>, the C string functions are what the wrappers of
  \<^verbatim>\<open>dfsan_custom.cc\<close> call.  An unbounded scan that finds nothing does not return: it is \<open>None\<close>.
\<close>

section \<open>Scanning\<close>

type_synonym memory = "u64 \<Rightarrow> u8"

text \<open>\<^verbatim>\<open>for (size_t i = i0;; ++i) if (P(i)) return i;\<close>\<close>

partial_function (option) first_index :: "(u64 \<Rightarrow> bool) \<Rightarrow> u64 \<Rightarrow> u64 option" where
  [code]: "first_index P i = (if P i then Some i else first_index P (i + 1))"

lemma first_index_sound:
  assumes "first_index P i = Some j"
  shows "P j \<and> (\<exists>k. j = i + of_nat k \<and> (\<forall>k'<k. \<not> P (i + of_nat k')))"
proof -
  define Q where "Q = (\<lambda>(x :: (u64 \<Rightarrow> bool) \<times> u64) j.
    fst x j \<and> (\<exists>k. j = snd x + of_nat k \<and> (\<forall>k'<k. \<not> fst x (snd x + of_nat k'))))"
  have "Q (P, i) j"
  proof (rule first_index.raw_induct [OF _ assms])
    fix rec P i j
    assume IH: "\<And>P i j. rec P i = Some j \<Longrightarrow> Q (P, i) j"
      and r: "(if P i then Some i else rec P (i + 1)) = Some j"
    show "Q (P, i) j"
    proof (cases "P i")
      case True
      with r show ?thesis unfolding Q_def by (auto intro!: exI [of _ 0])
    next
      case False
      with r have "Q (P, i + 1) j" by (intro IH) simp
      then obtain k where k: "P j" "j = i + 1 + of_nat k" "\<forall>k'<k. \<not> P (i + 1 + of_nat k')" by (auto simp: Q_def)
      have "\<not> P (i + of_nat k')" if "k' < Suc k" for k'
        using that k(3) False by (cases k') (simp_all add: add.assoc)
      then show ?thesis using k(1,2) unfolding Q_def by (auto intro!: exI [of _ "Suc k"] simp: add.assoc)
    qed
  qed
  then show ?thesis by (simp add: Q_def)
qed

lemma first_index_steps: "P (i + of_nat k) \<Longrightarrow> \<forall>k'<k. \<not> P (i + of_nat k') \<Longrightarrow> first_index P i = Some (i + of_nat k)"
proof (induction k arbitrary: i)
  case (Suc k)
  have shift: "i + 1 + of_nat k' = i + of_nat (Suc k')" for k' by (simp add: add.assoc)
  have "\<not> P i" using Suc.prems(2) [rule_format, of 0] by simp
  moreover have "first_index P (i + 1) = Some (i + 1 + of_nat k)"
  proof (rule Suc.IH)
    show "P (i + 1 + of_nat k)" unfolding shift by (rule Suc.prems(1))
    show "\<forall>k'<k. \<not> P (i + 1 + of_nat k')" unfolding shift using Suc.prems(2) by (metis Suc_mono)
  qed
  ultimately show ?case by (subst first_index.simps) (simp add: add.assoc)
qed (subst first_index.simps, simp)

lemma first_index_total: "P j \<Longrightarrow> \<exists>k. first_index P i = Some (i + of_nat k) \<and> k \<le> unat (j - i)"
proof -
  assume "P j"
  then have ex: "P (i + of_nat (unat (j - i)))" by simp
  define k where "k = (LEAST k. P (i + of_nat k))"
  have "P (i + of_nat k)" unfolding k_def by (rule LeastI [of "\<lambda>k. P (i + of_nat k)", OF ex])
  moreover have "k \<le> unat (j - i)" unfolding k_def by (rule Least_le [of "\<lambda>k. P (i + of_nat k)", OF ex])
  moreover have "\<forall>k'<k. \<not> P (i + of_nat k')" unfolding k_def by (blast dest: not_less_Least)
  ultimately show ?thesis using first_index_steps [of P i k] by blast
qed

text \<open>The scan returns iff some address satisfies \<open>P\<close>.\<close>

lemma first_index_None: "first_index P i = None \<longleftrightarrow> (\<forall>j. \<not> P j)"
proof
  assume n: "first_index P i = None"
  have "\<not> P j" for j using first_index_total [of P j i] n by fastforce
  then show "\<forall>j. \<not> P j" by blast
next
  assume "\<forall>j. \<not> P j"
  then show "first_index P i = None" using first_index_sound [of P i] by (cases "first_index P i") auto
qed

lemma first_index_Some:
  "first_index P i = Some j \<longleftrightarrow> (\<exists>k. j = i + of_nat k \<and> P j \<and> (\<forall>k'<k. \<not> P (i + of_nat k')))"
  using first_index_sound [of P i j] first_index_steps [of P i] by blast

section \<open>Copying and filling\<close>

text \<open>One loop for bytes (stride 1) and for the four-byte label cells (stride 4), from the lowest index up.\<close>

primrec copy_loop :: "nat \<Rightarrow> u64 \<Rightarrow> (u64 \<Rightarrow> 'a) \<Rightarrow> u64 \<Rightarrow> u64 \<Rightarrow> (u64 \<Rightarrow> 'a)" where
  "copy_loop 0 st m d s = m"
| "copy_loop (Suc k) st m d s = copy_loop k st (m(d := m s)) (d + st) (s + st)"

primrec fill_loop :: "nat \<Rightarrow> memory \<Rightarrow> u64 \<Rightarrow> u8 \<Rightarrow> memory" where
  "fill_loop 0 m t c = m"
| "fill_loop (Suc k) m t c = fill_loop k (m(t := c)) (t + 1) c"

definition internal_memcpy :: "memory \<Rightarrow> u64 \<Rightarrow> u64 \<Rightarrow> u64 \<Rightarrow> u64 \<times> memory" where
  "internal_memcpy m dest src n = (dest, copy_loop (unat n) 1 m dest src)"

definition internal_memset :: "memory \<Rightarrow> u64 \<Rightarrow> u32 \<Rightarrow> u64 \<Rightarrow> u64 \<times> memory" where
  "internal_memset m s c n = (s, fill_loop (unat n) m s (ucast c))"

text \<open>\<open>in_range st d k a\<close>: one of the \<open>k\<close> cells from \<open>d\<close> on, \<open>st\<close> bytes apart.\<close>

definition in_range :: "u64 \<Rightarrow> u64 \<Rightarrow> nat \<Rightarrow> u64 \<Rightarrow> bool" where
  "in_range st d k a \<longleftrightarrow> (\<exists>i<k. a = d + st * of_nat i)"

lemma in_range_Suc: "in_range st d (Suc k) a \<longleftrightarrow> a = d \<or> in_range st (d + st) k a"
proof -
  have "(\<exists>i<Suc k. a = d + st * of_nat i) \<longleftrightarrow> a = d + st * of_nat 0 \<or> (\<exists>i<k. a = d + st * of_nat (Suc i))"
    by (simp only: Ex_less_Suc2)
  then show ?thesis by (simp add: in_range_def algebra_simps)
qed

lemma in_range_0 [simp]: "\<not> in_range st d 0 a"
  by (simp add: in_range_def)

lemma copy_loop_other: "\<not> in_range st d k a \<Longrightarrow> copy_loop k st m d s a = m a"
  by (induction k arbitrary: m d s) (simp_all add: in_range_Suc)

lemma copy_loop_at:
  assumes "i < k" "inj_on (\<lambda>i. d + st * of_nat i) {..<k}" "\<And>j. j < k \<Longrightarrow> \<not> in_range st d k (s + st * of_nat j)"
  shows "copy_loop k st m d s (d + st * of_nat i) = m (s + st * of_nat i)"
  using assms
proof (induction k arbitrary: m d s i)
  case (Suc k)
  have shift: "x + st * of_nat (Suc j) = x + st + st * of_nat j" for x j by (simp add: algebra_simps)
  have inj: "inj_on (\<lambda>i. d + st + st * of_nat i) {..<k}"
    using Suc.prems(2) unfolding inj_on_def shift [symmetric] by (metis Suc_inject Suc_mono lessThan_iff)
  have out: "\<not> in_range st (d + st) k (s + st + st * of_nat j)" if "j < k" for j
    using Suc.prems(3) [of "Suc j"] that unfolding shift by (simp add: in_range_Suc)
  show ?case
  proof (cases i)
    case 0
    have "\<not> in_range st (d + st) k d"
    proof
      assume "in_range st (d + st) k d"
      then obtain j where "j < k" "d + st * of_nat 0 = d + st * of_nat (Suc j)"
        unfolding in_range_def shift by auto
      then show False using inj_onD [OF Suc.prems(2), of 0 "Suc j"] by simp
    qed
    then show ?thesis using 0 by (simp add: copy_loop_other)
  next
    case (Suc i')
    have "s + st * of_nat i \<noteq> d" using Suc.prems(3) [OF Suc.prems(1)] by (auto simp: in_range_Suc)
    moreover have "copy_loop k st (m(d := m s)) (d + st) (s + st) (d + st + st * of_nat i')
        = (m(d := m s)) (s + st + st * of_nat i')"
      by (rule Suc.IH [OF _ inj out]) (use Suc.prems(1) Suc in auto)
    ultimately show ?thesis unfolding Suc shift by (simp add: Suc algebra_simps)
  qed
qed simp

lemma fill_loop_at: "fill_loop k m t c a = (if in_range 1 t k a then c else m a)"
  by (induction k arbitrary: m t) (auto simp: in_range_Suc)

section \<open>C strings\<close>

definition strlen :: "memory \<Rightarrow> u64 \<Rightarrow> u64 option" where
  "strlen m s = first_index (\<lambda>i. m (s + i) = 0) 0"

text \<open>A byte read as the signed \<open>char\<close> of the x86 ABI and promoted to \<open>int\<close>.\<close>

definition to_int :: "u8 \<Rightarrow> u32" where
  "to_int c = scast c"

definition tolower :: "u32 \<Rightarrow> u32" where
  "tolower c = (if 65 \<le> c \<and> c \<le> 90 then c + 32 else c)"

definition strcpy :: "memory \<Rightarrow> u64 \<Rightarrow> u64 \<Rightarrow> memory option" where
  "strcpy m dest src = map_option (\<lambda>n. copy_loop (unat n + 1) 1 m dest src) (strlen m src)"

definition memchr :: "memory \<Rightarrow> u64 \<Rightarrow> u32 \<Rightarrow> u64 \<Rightarrow> u64" where
  "memchr m s c n =
     (case find (\<lambda>i. m (s + of_nat i) = ucast c) [0..<unat n] of None \<Rightarrow> 0 | Some i \<Rightarrow> s + of_nat i)"

definition strrchr :: "memory \<Rightarrow> u64 \<Rightarrow> u32 \<Rightarrow> u64 option" where
  "strrchr m s c = map_option (\<lambda>n.
     case find (\<lambda>i. m (s + of_nat i) = ucast c) (rev [0..<unat n + 1]) of None \<Rightarrow> 0 | Some i \<Rightarrow> s + of_nat i)
   (strlen m s)"

definition strstr :: "memory \<Rightarrow> u64 \<Rightarrow> u64 \<Rightarrow> u64 option" where
  "strstr m haystack needle = do {
     h \<leftarrow> strlen m haystack;
     n \<leftarrow> strlen m needle;
     Some (case find (\<lambda>p. list_all (\<lambda>j. m (haystack + of_nat (p + j)) = m (needle + of_nat j)) [0..<unat n])
                  [0..<unat h + 1 - unat n] of
             None \<Rightarrow> 0 | Some p \<Rightarrow> haystack + of_nat p)
   }"

lemma strlen_total: "m a = 0 \<Longrightarrow> \<exists>n. strlen m s = Some n \<and> n \<le> a - s"
proof -
  assume "m a = 0"
  then have "m (s + (a - s)) = 0" by simp
  from first_index_total [where P = "\<lambda>i. m (s + i) = 0" and j = "a - s" and i = 0, OF this]
  obtain k where k: "strlen m s = Some (of_nat k)" "k \<le> unat (a - s)" by (auto simp: strlen_def)
  have "(of_nat k :: u64) \<le> a - s" 
    using k(2) by (simp add: word_le_nat_alt unat_of_nat)
  then show ?thesis using k by blast
qed

lemma strlen_Some: "strlen m s = Some n \<Longrightarrow> m (s + n) = 0 \<and> (\<forall>i<unat n. m (s + of_nat i) \<noteq> 0)"
proof -
  assume "strlen m s = Some n"
  then obtain k where k: "n = of_nat k" "m (s + n) = 0" "\<forall>k'<k. m (s + of_nat k') \<noteq> 0"
    by (auto simp: strlen_def first_index_Some)
  have "unat n \<le> k" using k(1) by (simp add: unat_of_nat)
  then show ?thesis using k by auto
qed

end
