(* ===== verification/Tag_Set.thy ===== *)
theory Tag_Set
  imports Prelude "HOL-Library.Monad_Syntax"
begin

text \<open>
  \<^verbatim>\<open>runtime/src/tag_set.rs\<close>, \<^verbatim>\<open>len_label.rs\<close> and \<^verbatim>\<open>tag_set_wrap.rs\<close>: the store behind the taint labels of the
  instrumented program.  A label is the index of a node of a binary trie; the offsets it stands for
  are read off along the chain of \<open>parent\<close> pointers.  Indices are natural numbers and an index out of
  range, the panic of a full store and a loop that makes no progress are \<open>None\<close>; offsets are 32-bit
  words that wrap around, as in the release build.
\<close>

unbundle bit_operations_syntax

section \<open>Nodes\<close>

record TagSeg =
  seg_sign :: bool
  seg_begin :: u32
  seg_end :: u32

record TagNode =
  tn_left :: nat
  tn_right :: nat
  tn_parent :: nat
  tn_and_op :: bool
  tn_seg :: TagSeg

type_synonym TagSet = "TagNode list"

definition MAX_LB :: int where
  "MAX_LB = 4194303"

definition TagNode_new :: "nat \<Rightarrow> u32 \<Rightarrow> u32 \<Rightarrow> TagNode" where
  "TagNode_new parent b e = \<lparr>tn_left = 0, tn_right = 0, tn_parent = parent, tn_and_op = False,
     tn_seg = \<lparr>seg_sign = False, seg_begin = b, seg_end = e\<rparr>\<rparr>"

definition get_seg_size :: "TagNode \<Rightarrow> u32" where
  "get_seg_size n = seg_end (tn_seg n) - seg_begin (tn_seg n)"

definition TagSet_new :: TagSet where
  "TagSet_new = [TagNode_new 0 0 0]"

definition new_node :: "TagSet \<Rightarrow> nat \<Rightarrow> u32 \<Rightarrow> u32 \<Rightarrow> (nat \<times> TagSet) option" where
  "new_node ts parent b e =
     (if int (length ts) < MAX_LB then Some (length ts, ts @ [TagNode_new parent b e]) else None)"

text \<open>Indexed access with Rust's bounds check.\<close>

definition tnode :: "TagSet \<Rightarrow> nat \<Rightarrow> TagNode option" where
  "tnode ts i = (if i < length ts then Some (ts ! i) else None)"

definition tupd :: "TagSet \<Rightarrow> nat \<Rightarrow> (TagNode \<Rightarrow> TagNode) \<Rightarrow> TagSet option" where
  "tupd ts i f = (if i < length ts then Some (ts[i := f (ts ! i)]) else None)"

abbreviation set_begin :: "u32 \<Rightarrow> TagNode \<Rightarrow> TagNode" where
  "set_begin b n \<equiv> n\<lparr>tn_seg := (tn_seg n)\<lparr>seg_begin := b\<rparr>\<rparr>"

abbreviation set_sign_bit :: "TagNode \<Rightarrow> TagNode" where
  "set_sign_bit n \<equiv> n\<lparr>tn_seg := (tn_seg n)\<lparr>seg_sign := True\<rparr>\<rparr>"

section \<open>Insertion\<close>

text \<open>The loops stop when \<open>n\<close> is 0.  A round that does not stop takes the length of a segment off \<open>n\<close> and goes one
  level down the trie, so the number of rounds allowed, \<open>n\<close> plus the number of nodes, is not reached unless the trie
  has a cycle of empty segments, in which the loop of the source runs forever.\<close>

fun zeros_loop :: "nat \<Rightarrow> TagSet \<Rightarrow> nat \<Rightarrow> u32 \<Rightarrow> nat \<Rightarrow> (nat \<times> TagSet) option" where
  "zeros_loop 0 ts cur_lb n last_one_lb = (if n = 0 then Some (cur_lb, ts) else None)"
| "zeros_loop (Suc k) ts cur_lb n last_one_lb =
     (if n = 0 then Some (cur_lb, ts)
      else do {
        cur \<leftarrow> tnode ts cur_lb;
        let next = tn_left cur;
        nxt \<leftarrow> tnode ts next;
        let off = seg_end (tn_seg cur);
        if next = 0 then do {
          (new_lb, ts1) \<leftarrow> new_node ts last_one_lb off (off + n);
          ts2 \<leftarrow> tupd ts1 cur_lb (tn_left_update (\<lambda>_. new_lb));
          Some (new_lb, ts2)
        } else if get_seg_size nxt > n then do {
          (new_lb, ts1) \<leftarrow> new_node ts last_one_lb off (off + n);
          ts2 \<leftarrow> tupd ts1 cur_lb (tn_left_update (\<lambda>_. new_lb));
          ts3 \<leftarrow> tupd ts2 new_lb (tn_left_update (\<lambda>_. next));
          ts4 \<leftarrow> tupd ts3 next (set_begin (off + n));
          Some (new_lb, ts4)
        } else zeros_loop k ts next (n - get_seg_size nxt) last_one_lb
      })"

definition insert_n_zeros :: "TagSet \<Rightarrow> nat \<Rightarrow> u32 \<Rightarrow> nat \<Rightarrow> (nat \<times> TagSet) option" where
  "insert_n_zeros ts cur_lb num last_one_lb = zeros_loop (unat num + length ts) ts cur_lb num last_one_lb"

fun ones_loop :: "nat \<Rightarrow> TagSet \<Rightarrow> nat \<Rightarrow> u32 \<Rightarrow> nat \<Rightarrow> (nat \<times> TagSet) option" where
  "ones_loop 0 ts cur_lb n last_one_lb = (if n = 0 then Some (cur_lb, ts) else None)"
| "ones_loop (Suc k) ts cur_lb n last_one_lb =
     (if n = 0 then Some (cur_lb, ts)
      else do {
        cur \<leftarrow> tnode ts cur_lb;
        let next = tn_right cur;
        let last_end = seg_end (tn_seg cur);
        if next = 0 then do {
          (new_lb, ts1) \<leftarrow> new_node ts last_one_lb last_end (last_end + n);
          ts2 \<leftarrow> tupd ts1 cur_lb (tn_right_update (\<lambda>_. new_lb));
          Some (new_lb, ts2)
        } else do {
          nxt \<leftarrow> tnode ts next;
          let next_size = seg_end (tn_seg nxt) - last_end;
          if next_size > n then do {
            (new_lb, ts1) \<leftarrow> new_node ts last_one_lb last_end (last_end + n);
            ts2 \<leftarrow> tupd ts1 cur_lb (tn_right_update (\<lambda>_. new_lb));
            ts3 \<leftarrow> tupd ts2 new_lb (tn_right_update (\<lambda>_. next));
            ts4 \<leftarrow> tupd ts3 next (\<lambda>x. set_begin (last_end + n) (x\<lparr>tn_parent := new_lb\<rparr>));
            Some (new_lb, ts4)
          } else ones_loop k ts next (n - next_size) next
        }
      })"

definition insert_n_ones :: "TagSet \<Rightarrow> nat \<Rightarrow> u32 \<Rightarrow> nat \<Rightarrow> (nat \<times> TagSet) option" where
  "insert_n_ones ts cur_lb num last_one_lb = ones_loop (unat num + length ts) ts cur_lb num last_one_lb"

definition tag_insert :: "TagSet \<Rightarrow> u32 \<Rightarrow> (nat \<times> TagSet) option" where
  "tag_insert ts offset = do {
     (cur_lb, ts1) \<leftarrow> insert_n_zeros ts 0 offset 0;
     insert_n_ones ts1 cur_lb 1 0
   }"

section \<open>Combination\<close>

text \<open>Both parent chains are walked towards the root, the segments that are not covered by a later one are
  pushed on a stack.\<close>

fun combine_walk ::
  "nat \<Rightarrow> TagSet \<Rightarrow> nat \<Rightarrow> nat \<Rightarrow> u32 \<Rightarrow> nat list \<Rightarrow> (nat \<times> nat \<times> nat list) option"
where
  "combine_walk k ts l1 l2 last_begin lb_st =
     (if l1 = 0 \<or> l1 = l2 then Some (l1, l2, lb_st)
      else case k of 0 \<Rightarrow> None
      | Suc k' \<Rightarrow> do {
        n1 \<leftarrow> tnode ts l1;
        n2 \<leftarrow> tnode ts l2;
        let b1 = seg_begin (tn_seg n1);
        let b2 = seg_begin (tn_seg n2);
        if b1 < b2
        then (if b2 < last_begin then combine_walk k' ts l1 (tn_parent n2) b2 (l2 # lb_st)
              else combine_walk k' ts l1 (tn_parent n2) last_begin lb_st)
        else (if b1 < last_begin then combine_walk k' ts (tn_parent n1) l2 b1 (l1 # lb_st)
              else combine_walk k' ts (tn_parent n1) l2 last_begin lb_st)
      })"

declare combine_walk.simps [simp del]

fun combine_build :: "TagSet \<Rightarrow> nat \<Rightarrow> nat list \<Rightarrow> (nat \<times> TagSet) option" where
  "combine_build ts cur_lb [] = Some (cur_lb, ts)"
| "combine_build ts cur_lb (next # lb_st) = do {
     cur \<leftarrow> tnode ts cur_lb;
     nxt \<leftarrow> tnode ts next;
     let cur_seg = tn_seg cur;
     let next_seg = tn_seg nxt;
     (lb, ts1) \<leftarrow>
       (if seg_end cur_seg \<ge> seg_begin next_seg
        then (if seg_end next_seg > seg_end cur_seg
              then insert_n_ones ts cur_lb (seg_end next_seg - seg_end cur_seg) cur_lb
              else Some (cur_lb, ts))
        else do {
          (z, ts') \<leftarrow> insert_n_zeros ts cur_lb (seg_begin next_seg - seg_end cur_seg) cur_lb;
          insert_n_ones ts' z (seg_end next_seg - seg_begin next_seg) cur_lb
        });
     ts2 \<leftarrow> (if seg_sign next_seg then tupd ts1 lb set_sign_bit else Some ts1);
     combine_build ts2 lb lb_st
   }"

definition combine :: "TagSet \<Rightarrow> nat \<Rightarrow> nat \<Rightarrow> (nat \<times> TagSet) option" where
  "combine ts l1 l2 =
     (if l1 = 0 then Some (l2, ts)
      else if l2 = 0 \<or> l1 = l2 then Some (l1, ts)
      else do {
        (m1, m2, lb_st) \<leftarrow> combine_walk (2 * length ts) ts (min l1 l2) (max l1 l2) (of_int MAX_LB) [];
        combine_build ts (if m1 > 0 then m1 else m2) lb_st
      })"

definition infer_shape :: "TagSet \<Rightarrow> nat \<Rightarrow> nat \<Rightarrow> nat \<Rightarrow> (nat option \<times> TagSet) option" where
  "infer_shape ts l1 l2 len =
     (if len \<noteq> 2 \<and> len \<noteq> 4 \<and> len \<noteq> 8 then Some (None, ts)
      else do {
        n1 \<leftarrow> tnode ts l1;
        if tn_parent n1 \<noteq> 0 then Some (None, ts)
        else do {
          n2 \<leftarrow> tnode ts l2;
          if tn_parent n2 = 0 \<and> seg_begin (tn_seg n1) + of_nat len = seg_end (tn_seg n2)
          then do {
            (cur_lb, ts1) \<leftarrow> insert_n_ones ts l1 (of_nat (len - 1)) l1;
            m1 \<leftarrow> tnode ts1 l1;
            ts2 \<leftarrow> tupd ts1 cur_lb (set_begin (seg_begin (tn_seg m1)));
            Some (Some cur_lb, ts2)
          } else Some (None, ts)
        }
      })"

fun combine_rest :: "TagSet \<Rightarrow> nat \<Rightarrow> nat list \<Rightarrow> (nat \<times> TagSet) option" where
  "combine_rest ts cur_lb [] = Some (cur_lb, ts)"
| "combine_rest ts cur_lb (l # ls) = do { (lb, ts1) \<leftarrow> combine ts cur_lb l; combine_rest ts1 lb ls }"

definition combine_n :: "TagSet \<Rightarrow> nat list \<Rightarrow> bool \<Rightarrow> (nat \<times> TagSet) option" where
  "combine_n ts lbs infer =
     (case dropWhile (\<lambda>l. l = 0) lbs of
        [] \<Rightarrow> Some (0, ts)
      | [cur_lb] \<Rightarrow> Some (cur_lb, ts)
      | cur_lb # rest \<Rightarrow>
          if infer then do {
            (r, ts1) \<leftarrow> infer_shape ts cur_lb (last lbs) (length lbs);
            case r of Some lb \<Rightarrow> Some (lb, ts1) | None \<Rightarrow> combine_rest ts1 cur_lb rest
          } else combine_rest ts cur_lb rest)"

section \<open>Signs, groups and the offsets of a label\<close>

definition set_sign :: "TagSet \<Rightarrow> nat \<Rightarrow> TagSet option" where
  "set_sign ts lb = tupd ts lb set_sign_bit"

definition get_sign :: "TagSet \<Rightarrow> nat \<Rightarrow> bool" where
  "get_sign ts lb = (if lb < length ts then seg_sign (tn_seg (ts ! lb)) else False)"

definition combine_and :: "TagSet \<Rightarrow> nat \<Rightarrow> TagSet option" where
  "combine_and ts lb = tupd ts lb (tn_and_op_update (\<lambda>_. True))"

fun nth_parent :: "nat \<Rightarrow> TagSet \<Rightarrow> nat \<Rightarrow> nat option option" where
  "nth_parent 0 ts cur_lb = Some (Some cur_lb)"
| "nth_parent (Suc k) ts cur_lb = do {
     n \<leftarrow> tnode ts cur_lb;
     if tn_parent n = 0 then Some None else nth_parent k ts (tn_parent n)
   }"

text \<open>\<^verbatim>\<open>0..(len - 1)\<close> with \<open>len = 0\<close> wraps around; the instrumentation passes the size of an operand.\<close>

definition infer_shape2 :: "TagSet \<Rightarrow> nat \<Rightarrow> nat \<Rightarrow> TagSet option" where
  "infer_shape2 ts lb len =
     (if lb = 0 then Some ts
      else do {
        n \<leftarrow> tnode ts lb;
        if seg_begin (tn_seg n) + 1 < seg_end (tn_seg n) then Some ts
        else if len = 0 then None
        else do {
          r \<leftarrow> nth_parent (len - 1) ts lb;
          case r of
            None \<Rightarrow> Some ts
          | Some cur_lb \<Rightarrow> do {
              c \<leftarrow> tnode ts cur_lb;
              if tn_parent c = 0 \<and> seg_begin (tn_seg c) + of_nat len = seg_end (tn_seg n)
              then tupd ts lb (set_begin (seg_begin (tn_seg c)))
              else Some ts
            }
        }
      })"

fun split_ones :: "nat \<Rightarrow> TagSet \<Rightarrow> nat \<Rightarrow> nat \<Rightarrow> TagSet option" where
  "split_ones 0 ts cur_lb lb = (if cur_lb = lb then Some ts else None)"
| "split_ones (Suc k) ts cur_lb lb =
     (if cur_lb = lb then Some ts
      else do { (c, ts1) \<leftarrow> insert_n_ones ts cur_lb 1 cur_lb; split_ones k ts1 c lb })"

definition split_and_op :: "TagSet \<Rightarrow> nat \<Rightarrow> TagSet option" where
  "split_and_op ts lb = do {
     n \<leftarrow> tnode ts lb;
     let sg = tn_seg n;
     if seg_end sg - seg_begin sg > 1 then do {
       let p = tn_parent n;
       if p = 0 then Some ts
       else do {
         pn \<leftarrow> tnode ts p;
         if seg_begin (tn_seg pn) \<ge> seg_begin sg then do {
           ts1 \<leftarrow> (if seg_end (tn_seg pn) < seg_end sg
                   then split_ones (unat (seg_end sg - seg_end (tn_seg pn))) ts p lb else Some ts);
           tupd ts1 lb (set_begin (seg_end sg - 1))
         } else Some ts
       }
     } else Some ts
   }"

fun find_loop :: "nat \<Rightarrow> TagSet \<Rightarrow> nat \<Rightarrow> u32 \<Rightarrow> TagSeg list \<Rightarrow> (TagSeg list \<times> TagSet) option" where
  "find_loop k ts lb last_begin acc =
     (if lb = 0 then Some (acc, ts)
      else case k of 0 \<Rightarrow> None
      | Suc k' \<Rightarrow> do {
        n \<leftarrow> tnode ts lb;
        ts1 \<leftarrow> (if tn_and_op n then split_and_op ts lb else Some ts);
        n1 \<leftarrow> tnode ts1 lb;
        let t = tn_seg n1;
        if seg_begin t < last_begin then find_loop k' ts1 (tn_parent n1) (seg_begin t) (t # acc)
        else find_loop k' ts1 (tn_parent n1) last_begin acc
      })"

declare find_loop.simps [simp del]

text \<open>The segments of a label in increasing order.  The ends of the segments decrease along the parents, so
  there are fewer rounds than the end of the first segment and the number of nodes allow.\<close>

definition tag_find :: "TagSet \<Rightarrow> nat \<Rightarrow> (TagSeg list \<times> TagSet) option" where
  "tag_find ts lb =
     (if lb = 0 then Some ([], ts)
      else do { n \<leftarrow> tnode ts lb; find_loop (unat (seg_end (tn_seg n)) + length ts) ts lb (of_int MAX_LB) [] })"

section \<open>Labels stay in range\<close>

definition links_ok :: "nat \<Rightarrow> TagNode \<Rightarrow> bool" where
  "links_ok n x \<longleftrightarrow> tn_left x < n \<and> tn_right x < n \<and> tn_parent x < n"

text \<open>Every pointer leads to a node, and the store has at most \<open>MAX_LB\<close> nodes.\<close>

definition tags_ok :: "TagSet \<Rightarrow> bool" where
  "tags_ok ts \<longleftrightarrow> ts \<noteq> [] \<and> int (length ts) \<le> MAX_LB \<and> list_all (links_ok (length ts)) ts"

lemma links_ok_mono: "links_ok n x \<Longrightarrow> n \<le> m \<Longrightarrow> links_ok m x"
  by (auto simp: links_ok_def)

lemma tags_ok_new: "tags_ok TagSet_new"
  by (simp add: tags_ok_def TagSet_new_def TagNode_new_def links_ok_def MAX_LB_def)

text \<open>\<open>grown ts ts' lb\<close>: a well-formed store with at least the nodes of \<open>ts\<close>, and a label of it.\<close>

definition grown :: "TagSet \<Rightarrow> TagSet \<Rightarrow> nat \<Rightarrow> bool" where
  "grown ts ts' lb \<longleftrightarrow> tags_ok ts' \<and> length ts \<le> length ts' \<and> lb < length ts'"

lemma grown_trans: "grown a b l \<Longrightarrow> grown b c m \<Longrightarrow> grown a c m"
  by (simp add: grown_def)

lemma tnode_SomeD: "tnode ts i = Some n \<Longrightarrow> i < length ts \<and> n = ts ! i"
  by (simp add: tnode_def split: if_splits)

lemma tnode_links: "tags_ok ts \<Longrightarrow> tnode ts i = Some n \<Longrightarrow> links_ok (length ts) n"
  by (auto simp: tags_ok_def list_all_length dest!: tnode_SomeD)

lemma new_node_grown:
  "new_node ts p b e = Some (lb, ts') \<Longrightarrow> tags_ok ts \<Longrightarrow> p < length ts \<Longrightarrow>
   lb = length ts \<and> length ts' = Suc lb \<and> grown ts ts' lb"
  by (fastforce simp: new_node_def grown_def tags_ok_def links_ok_def TagNode_new_def list_all_iff
      intro: less_SucI split: if_splits)

lemma tupd_grown:
  assumes "tupd ts i f = Some ts'" "tags_ok ts" "\<And>x. links_ok (length ts) x \<Longrightarrow> links_ok (length ts) (f x)"
  shows "length ts' = length ts \<and> tags_ok ts'"
proof -
  have i: "i < length ts" "ts' = ts[i := f (ts ! i)]" using assms(1) by (auto simp: tupd_def split: if_splits)
  have "links_ok (length ts) (ts ! j)" if "j < length ts" for j
    using assms(2) that by (simp add: tags_ok_def list_all_length)
  then have "list_all (links_ok (length ts)) ts'"
    using i assms(3) by (auto simp: list_all_length nth_list_update)
  then show ?thesis using assms(2) i by (auto simp: tags_ok_def)
qed

lemma tupd_left_grown:
  "tupd ts i (tn_left_update (\<lambda>_. l)) = Some ts' \<Longrightarrow> tags_ok ts \<Longrightarrow> l < length ts \<Longrightarrow> length ts' = length ts \<and> tags_ok ts'"
  by (erule tupd_grown) (simp_all add: links_ok_def)

lemma tupd_right_grown:
  "tupd ts i (tn_right_update (\<lambda>_. l)) = Some ts' \<Longrightarrow> tags_ok ts \<Longrightarrow> l < length ts \<Longrightarrow> length ts' = length ts \<and> tags_ok ts'"
  by (erule tupd_grown) (simp_all add: links_ok_def)

lemma tupd_seg_grown:
  "tupd ts i (\<lambda>x. tn_seg_update f x) = Some ts' \<Longrightarrow> tags_ok ts \<Longrightarrow> length ts' = length ts \<and> tags_ok ts'"
  "tupd ts i set_sign_bit = Some ts' \<Longrightarrow> tags_ok ts \<Longrightarrow> length ts' = length ts \<and> tags_ok ts'"
  "tupd ts i (set_begin b) = Some ts' \<Longrightarrow> tags_ok ts \<Longrightarrow> length ts' = length ts \<and> tags_ok ts'"
  by ((erule tupd_grown; simp add: links_ok_def)+)

lemma tupd_parent_grown:
  "tupd ts i (\<lambda>x. set_begin b (x\<lparr>tn_parent := p\<rparr>)) = Some ts' \<Longrightarrow> tags_ok ts \<Longrightarrow> p < length ts \<Longrightarrow>
   length ts' = length ts \<and> tags_ok ts'"
  by (erule tupd_grown) (simp_all add: links_ok_def)

lemma zeros_loop_grown:
  "zeros_loop k ts cur n lo = Some (lb, ts') \<Longrightarrow> tags_ok ts \<Longrightarrow> cur < length ts \<Longrightarrow> lo < length ts \<Longrightarrow>
   grown ts ts' lb"
proof (induction k ts cur n lo rule: zeros_loop.induct)
  case (2 k ts cur n lo)
  show ?case
  proof (cases "n = 0")
    case False
    obtain c where c: "tnode ts cur = Some c" using "2.prems" False by (auto simp: Option.bind_eq_Some_conv)
    let ?next = "tn_left c" let ?off = "seg_end (tn_seg c)"
    obtain x where x: "tnode ts ?next = Some x" using "2.prems" False c by (auto simp: Option.bind_eq_Some_conv Let_def)
    have nx: "?next < length ts" using tnode_SomeD [OF x] by simp
    note r = "2.prems"(1) [simplified, unfolded c]
    consider (leaf) "?next = 0" | (split) "?next \<noteq> 0" "get_seg_size x > n" | (go) "?next \<noteq> 0" "\<not> get_seg_size x > n"
      by blast
    then show ?thesis
    proof cases
      case leaf
      then obtain ts1 where s: "new_node ts lo ?off (?off + n) = Some (lb, ts1)"
          "tupd ts1 cur (tn_left_update (\<lambda>_. lb)) = Some ts'"
        using r False x by (auto simp: Option.bind_eq_Some_conv Let_def)
      from new_node_grown [OF s(1) "2.prems"(2,4)] tupd_left_grown [OF s(2)] show ?thesis by (simp add: grown_def)
    next
      case split
      then obtain ts1 ts2 ts3 where s: "new_node ts lo ?off (?off + n) = Some (lb, ts1)"
          "tupd ts1 cur (tn_left_update (\<lambda>_. lb)) = Some ts2" "tupd ts2 lb (tn_left_update (\<lambda>_. ?next)) = Some ts3"
          "tupd ts3 ?next (set_begin (?off + n)) = Some ts'"
        using r False x by (auto simp: Option.bind_eq_Some_conv Let_def)
      note g = new_node_grown [OF s(1) "2.prems"(2,4)]
      have "length ts2 = length ts1 \<and> tags_ok ts2" using tupd_left_grown [OF s(2)] g by (simp add: grown_def)
      then have "length ts3 = length ts1 \<and> tags_ok ts3" using tupd_left_grown [OF s(3)] g nx by simp
      then show ?thesis using tupd_seg_grown(3) [OF s(4)] g by (simp add: grown_def)
    next
      case go
      then have "zeros_loop k ts ?next (n - get_seg_size x) lo = Some (lb, ts')"
        using r False x by (auto simp: Let_def)
      then show ?thesis using "2.IH" [OF False c refl x refl go(1) go(2)] "2.prems" nx by blast
    qed
  qed (use 2 in \<open>simp add: grown_def\<close>)
qed (simp add: grown_def split: if_splits)

lemma ones_loop_grown:
  "ones_loop k ts cur n lo = Some (lb, ts') \<Longrightarrow> tags_ok ts \<Longrightarrow> cur < length ts \<Longrightarrow> lo < length ts \<Longrightarrow>
   grown ts ts' lb"
proof (induction k ts cur n lo rule: ones_loop.induct)
  case (2 k ts cur n lo)
  show ?case
  proof (cases "n = 0")
    case False
    obtain c where c: "tnode ts cur = Some c" using "2.prems" False by (auto simp: Option.bind_eq_Some_conv)
    let ?next = "tn_right c" let ?off = "seg_end (tn_seg c)"
    note r = "2.prems"(1) [simplified, unfolded c]
    show ?thesis
    proof (cases "?next = 0")
      case True
      then obtain ts1 where s: "new_node ts lo ?off (?off + n) = Some (lb, ts1)"
          "tupd ts1 cur (tn_right_update (\<lambda>_. lb)) = Some ts'"
        using r False by (auto simp: Option.bind_eq_Some_conv Let_def)
      from new_node_grown [OF s(1) "2.prems"(2,4)] tupd_right_grown [OF s(2)] show ?thesis by (simp add: grown_def)
    next
      case inner: False
      obtain x where x: "tnode ts ?next = Some x" using r False inner by (auto simp: Option.bind_eq_Some_conv Let_def)
      have nx: "?next < length ts" using tnode_SomeD [OF x] by simp
      show ?thesis
      proof (cases "seg_end (tn_seg x) - ?off > n")
        case True
        then obtain ts1 ts2 ts3 where s: "new_node ts lo ?off (?off + n) = Some (lb, ts1)"
            "tupd ts1 cur (tn_right_update (\<lambda>_. lb)) = Some ts2" "tupd ts2 lb (tn_right_update (\<lambda>_. ?next)) = Some ts3"
            "tupd ts3 ?next (\<lambda>x. set_begin (?off + n) (x\<lparr>tn_parent := lb\<rparr>)) = Some ts'"
          using r False x inner by (auto simp: Option.bind_eq_Some_conv Let_def)
        note g = new_node_grown [OF s(1) "2.prems"(2,4)]
        have "length ts2 = length ts1 \<and> tags_ok ts2" using tupd_right_grown [OF s(2)] g by (simp add: grown_def)
        then have "length ts3 = length ts1 \<and> tags_ok ts3" using tupd_right_grown [OF s(3)] g nx by simp
        then show ?thesis using tupd_parent_grown [OF s(4)] g by (simp add: grown_def)
      next
        case go: False
        then have "ones_loop k ts ?next (n - (seg_end (tn_seg x) - ?off)) ?next = Some (lb, ts')"
          using r False x inner by (auto simp: Let_def)
        then show ?thesis using "2.IH" [OF False c refl refl inner x refl go] "2.prems" nx by blast
      qed
    qed
  qed (use 2 in \<open>simp add: grown_def\<close>)
qed (simp add: grown_def split: if_splits)

lemma tag_insert_grown: "tag_insert ts off = Some (lb, ts') \<Longrightarrow> tags_ok ts \<Longrightarrow> grown ts ts' lb"
proof -
  assume i: "tag_insert ts off = Some (lb, ts')" and ok: "tags_ok ts"
  then obtain z ts1 where z: "insert_n_zeros ts 0 off 0 = Some (z, ts1)" and o: "insert_n_ones ts1 z 1 0 = Some (lb, ts')"
    by (auto simp: tag_insert_def Option.bind_eq_Some_conv)
  have p: "0 < length ts" using ok by (simp add: tags_ok_def)
  have g: "grown ts ts1 z" by (rule zeros_loop_grown [OF z [unfolded insert_n_zeros_def] ok p p])
  then have "tags_ok ts1" "z < length ts1" "0 < length ts1" using p by (auto simp: grown_def)
  then have "grown ts1 ts' lb" by (rule ones_loop_grown [OF o [unfolded insert_n_ones_def]])
  with g show ?thesis by (rule grown_trans)
qed

lemma combine_step_grown:
  assumes "(if seg_end cs \<ge> seg_begin ns
        then (if seg_end ns > seg_end cs
              then insert_n_ones ts cur (seg_end ns - seg_end cs) cur
              else Some (cur, ts))
        else do {
          (z, ts') \<leftarrow> insert_n_zeros ts cur (seg_begin ns - seg_end cs) cur;
          insert_n_ones ts' z (seg_end ns - seg_begin ns) cur
        }) = Some (lb, ts1)" "tags_ok ts" "cur < length ts"
  shows "grown ts ts1 lb"
proof (cases "seg_end cs \<ge> seg_begin ns")
  case True
  then show ?thesis using assms ones_loop_grown
    by (auto simp: grown_def insert_n_ones_def split: if_splits)
next
  case False
  then obtain z t where z: "insert_n_zeros ts cur (seg_begin ns - seg_end cs) cur = Some (z, t)"
    and o: "insert_n_ones t z (seg_end ns - seg_begin ns) cur = Some (lb, ts1)"
    using assms(1) by (auto simp: Option.bind_eq_Some_conv)
  have g: "grown ts t z" by (rule zeros_loop_grown [OF z [unfolded insert_n_zeros_def] assms(2,3,3)])
  then have "grown t ts1 lb" using ones_loop_grown [OF o [unfolded insert_n_ones_def]] assms(3) by (simp add: grown_def)
  with g show ?thesis by (rule grown_trans)
qed

lemma combine_build_grown:
  "combine_build ts cur st = Some (lb, ts') \<Longrightarrow> tags_ok ts \<Longrightarrow> cur < length ts \<Longrightarrow> grown ts ts' lb"
proof (induction st arbitrary: ts cur)
  case (Cons nx st)
  obtain c n l ts1 ts2 where s: "tnode ts cur = Some c" "tnode ts nx = Some n"
    "(if seg_end (tn_seg c) \<ge> seg_begin (tn_seg n)
        then (if seg_end (tn_seg n) > seg_end (tn_seg c)
              then insert_n_ones ts cur (seg_end (tn_seg n) - seg_end (tn_seg c)) cur
              else Some (cur, ts))
        else do {
          (z, ts') \<leftarrow> insert_n_zeros ts cur (seg_begin (tn_seg n) - seg_end (tn_seg c)) cur;
          insert_n_ones ts' z (seg_end (tn_seg n) - seg_begin (tn_seg n)) cur
        }) = Some (l, ts1)"
    "(if seg_sign (tn_seg n) then tupd ts1 l set_sign_bit else Some ts1) = Some ts2"
    "combine_build ts2 l st = Some (lb, ts')"
    using Cons.prems(1) by (auto simp: Option.bind_eq_Some_conv Let_def split del: if_split)
  have g: "grown ts ts1 l" by (rule combine_step_grown [OF s(3) Cons.prems(2,3)])
  then have "length ts2 = length ts1 \<and> tags_ok ts2"
    using s(4) tupd_seg_grown(2) [of ts1 l ts2] by (simp add: grown_def split: if_splits)
  with g have g2: "grown ts ts2 l" by (simp add: grown_def)
  then have "grown ts2 ts' lb" using Cons.IH [OF s(5)] by (simp add: grown_def)
  with g2 show ?case by (rule grown_trans)
qed (simp add: grown_def)

lemma combine_walk_grown:
  "combine_walk k ts l1 l2 lb st = Some (m1, m2, st') \<Longrightarrow> tags_ok ts \<Longrightarrow> l1 < length ts \<Longrightarrow> l2 < length ts \<Longrightarrow>
   m1 < length ts \<and> m2 < length ts"
proof (induction k arbitrary: l1 l2 lb st)
  case 0
  then show ?case by (simp add: combine_walk.simps split: if_splits)
next
  case (Suc k)
  show ?case
  proof (cases "l1 = 0 \<or> l1 = l2")
    case True
    then show ?thesis using Suc.prems by (auto simp: combine_walk.simps)
  next
    case False
    have n: "tnode ts l1 = Some (ts ! l1)" "tnode ts l2 = Some (ts ! l2)" using Suc.prems by (simp_all add: tnode_def)
    have p: "tn_parent (ts ! l1) < length ts" "tn_parent (ts ! l2) < length ts"
      using tnode_links [OF Suc.prems(2) n(1)] tnode_links [OF Suc.prems(2) n(2)] by (simp_all add: links_ok_def)
    note r = Suc.prems(1) [unfolded combine_walk.simps [of "Suc k"]]
    show ?thesis using r False n Suc.IH Suc.prems(2-4) p by (simp add: Let_def split: if_splits)
  qed
qed

lemma combine_grown:
  assumes "combine ts l1 l2 = Some (lb, ts')" "tags_ok ts" "l1 < length ts" "l2 < length ts"
  shows "grown ts ts' lb"
proof (cases "l1 = 0 \<or> l2 = 0 \<or> l1 = l2")
  case True
  then show ?thesis using assms by (auto simp: combine_def grown_def split: if_splits)
next
  case False
  then obtain m1 m2 st where w: "combine_walk (2 * length ts) ts (min l1 l2) (max l1 l2) (of_int MAX_LB) [] = Some (m1, m2, st)"
    and b: "combine_build ts (if m1 > 0 then m1 else m2) st = Some (lb, ts')"
    using assms(1) by (auto simp: combine_def Option.bind_eq_Some_conv)
  have "m1 < length ts \<and> m2 < length ts" using combine_walk_grown [OF w] assms by simp
  then show ?thesis using combine_build_grown [OF b] assms(2) by simp
qed

lemma combine_rest_grown:
  "combine_rest ts cur ls = Some (lb, ts') \<Longrightarrow> tags_ok ts \<Longrightarrow> cur < length ts \<Longrightarrow> list_all (\<lambda>l. l < length ts) ls \<Longrightarrow>
   grown ts ts' lb"
proof (induction ls arbitrary: ts cur)
  case (Cons l ls)
  then obtain m t where s: "combine ts cur l = Some (m, t)" "combine_rest t m ls = Some (lb, ts')"
    by (auto simp: Option.bind_eq_Some_conv)
  have g: "grown ts t m" using combine_grown [OF s(1)] Cons.prems by simp
  then have "grown t ts' lb" using Cons.IH [OF s(2)] Cons.prems(4)
    by (auto simp: grown_def list_all_iff intro: less_le_trans)
  with g show ?case by (rule grown_trans)
qed (simp add: grown_def)

lemma infer_shape_grown:
  assumes "infer_shape ts l1 l2 n = Some (r, ts')" "tags_ok ts" "l1 < length ts"
  shows "tags_ok ts' \<and> length ts \<le> length ts' \<and> (\<forall>lb. r = Some lb \<longrightarrow> lb < length ts')"
proof (cases r)
  case None
  then show ?thesis using assms
    by (auto simp: infer_shape_def Option.bind_eq_Some_conv Let_def split: if_splits)
next
  case (Some lb)
  then obtain b ts1 where o: "insert_n_ones ts l1 (of_nat (n - 1)) l1 = Some (lb, ts1)"
    and u: "tupd ts1 lb (set_begin b) = Some ts'"
    using assms(1) by (auto simp: infer_shape_def Option.bind_eq_Some_conv Let_def split: if_splits)
  have g: "grown ts ts1 lb" by (rule ones_loop_grown [OF o [unfolded insert_n_ones_def] assms(2,3,3)])
  then show ?thesis using tupd_seg_grown(3) [OF u] Some by (simp add: grown_def)
qed

lemma combine_n_grown:
  assumes "combine_n ts lbs infer = Some (lb, ts')" "tags_ok ts" "list_all (\<lambda>l. l < length ts) lbs"
  shows "grown ts ts' lb"
proof -
  let ?d = "dropWhile (\<lambda>l. l = 0) lbs"
  have sub: "set ?d \<subseteq> set lbs" by (meson set_dropWhileD subsetI)
  then have d: "list_all (\<lambda>l. l < length ts) ?d" using assms(3) by (auto simp: list_all_iff)
  have nz: "0 < length ts" using assms(2) by (simp add: tags_ok_def)
  consider (none) "?d = []" | (one) c where "?d = [c]" | (more) c x r where "?d = c # x # r"
    by (metis neq_Nil_conv)
  then show ?thesis
  proof cases
    case none
    then show ?thesis using assms nz unfolding combine_n_def none by (simp add: grown_def)
  next
    case one
    then show ?thesis using assms d by (simp add: combine_n_def grown_def)
  next
    case more
    note c = combine_rest_grown [of _ c "x # r" lb ts']
    show ?thesis
    proof (cases infer)
      case False
      then show ?thesis using assms(1,2) more d c by (simp add: combine_n_def)
    next
      case True
      then obtain o' t where o: "infer_shape ts c (last lbs) (length lbs) = Some (o', t)"
        and r: "(case o' of Some lb \<Rightarrow> Some (lb, t) | None \<Rightarrow> combine_rest t c (x # r)) = Some (lb, ts')"
        using assms(1) more by (auto simp: combine_n_def Option.bind_eq_Some_conv split del: option.split)
      have g: "tags_ok t" "length ts \<le> length t" "\<forall>l. o' = Some l \<longrightarrow> l < length t"
        using infer_shape_grown [OF o assms(2)] d more by simp_all
      show ?thesis
      proof (cases o')
        case None
        have "list_all (\<lambda>l. l < length t) ?d" using d g(2) by (auto simp: list_all_iff)
        then have "grown t ts' lb" using c [of t] r None g more by simp
        then show ?thesis using g(2) by (simp add: grown_def)
      next
        case (Some l)
        then show ?thesis using r g by (simp add: grown_def)
      qed
    qed
  qed
qed
section \<open>Labels of input lengths\<close>

text \<open>The upper ten bits of a label are the index of a length read by the program (\<^verbatim>\<open>len_label.rs\<close>).\<close>

definition MAX_NORMAL_LABEL :: u32 where
  "MAX_NORMAL_LABEL = 4194303"

definition MAX_LEN_LABEL :: u32 where
  "MAX_LEN_LABEL = 1023"

definition is_len_label :: "u32 \<Rightarrow> bool" where
  "is_len_label lb \<longleftrightarrow> lb > MAX_NORMAL_LABEL"

definition get_len_label :: "u32 \<Rightarrow> u32" where
  "get_len_label lb = drop_bit 22 lb AND MAX_LEN_LABEL"

definition get_normal_label :: "u32 \<Rightarrow> u32" where
  "get_normal_label lb = lb AND MAX_NORMAL_LABEL"

definition get_fat_label :: "u32 \<Rightarrow> u32 \<Rightarrow> u32" where
  "get_fat_label normal_lb len_lb = push_bit 22 len_lb OR normal_lb"

text \<open>\<open>LEN_INFO\<close> holds a dummy first entry; the index 0 means that there is no length.\<close>

definition LEN_INFO_init :: "(u32 \<times> u32) list" where
  "LEN_INFO_init = [(0, 1)]"

definition angora_get_len_label :: "(u32 \<times> u32) list \<Rightarrow> u32 \<Rightarrow> u32 \<Rightarrow> u32 \<times> (u32 \<times> u32) list" where
  "angora_get_len_label len_info offset sz =
     (if length len_info < unat MAX_LEN_LABEL
      then (get_fat_label 0 (of_nat (length len_info)), len_info @ [(offset, sz)])
      else (get_fat_label 0 0, len_info))"

section \<open>The interface of the runtime\<close>

text \<open>The static \<open>TS\<close> is \<open>None\<close> after \<open>__angora_tag_set_fini\<close>.  A call returns the label and the new \<open>TS\<close>; the
  outer option is the panic of the store.\<close>

type_synonym TS = "TagSet option"

abbreviation label_of :: "nat \<times> TagSet \<Rightarrow> u32 \<times> TS" where
  "label_of r \<equiv> (of_nat (fst r), Some (snd r))"

definition angora_tag_set_insert :: "TS \<Rightarrow> u32 \<Rightarrow> (u32 \<times> TS) option" where
  "angora_tag_set_insert tsl offset =
     (case tsl of None \<Rightarrow> Some (0, None) | Some ts \<Rightarrow> map_option label_of (tag_insert ts offset))"

definition angora_tag_set_combine :: "TS \<Rightarrow> u32 \<Rightarrow> u32 \<Rightarrow> (u32 \<times> TS) option" where
  "angora_tag_set_combine tsl lb1 lb2 = do {
     let (lb1', len1) = (if is_len_label lb1
                         then (get_normal_label lb1, get_len_label (get_normal_label lb1)) else (lb1, 0));
     let (lb2', len_lb) = (if is_len_label lb2
                           then (get_normal_label lb2, get_len_label (get_normal_label lb2)) else (lb2, len1));
     (lb, tsl') \<leftarrow> (case tsl of None \<Rightarrow> Some (0, None)
                     | Some ts \<Rightarrow> map_option label_of (combine ts (unat lb1') (unat lb2')));
     Some (get_fat_label lb len_lb, tsl')
   }"

definition angora_tag_set_combine_n :: "TS \<Rightarrow> u32 list \<Rightarrow> bool \<Rightarrow> (u32 \<times> TS) option" where
  "angora_tag_set_combine_n tsl lbs infer = do {
     let len_lb = (case filter is_len_label lbs of [] \<Rightarrow> 0 | ls \<Rightarrow> get_len_label (last ls));
     let lbs' = map (\<lambda>l. unat (if is_len_label l then get_normal_label l else l)) lbs;
     (lb, tsl') \<leftarrow> (case tsl of None \<Rightarrow> Some (0, None)
                     | Some ts \<Rightarrow> map_option label_of (combine_n ts lbs' infer));
     Some (get_fat_label lb len_lb, tsl')
   }"

definition with_store :: "TS \<Rightarrow> (TagSet \<Rightarrow> TagSet option) \<Rightarrow> TS option" where
  "with_store tsl f = (case tsl of None \<Rightarrow> Some None | Some ts \<Rightarrow> map_option Some (f ts))"

definition angora_tag_set_mark_sign :: "TS \<Rightarrow> u32 \<Rightarrow> TS option" where
  "angora_tag_set_mark_sign tsl lb = with_store tsl (\<lambda>ts. set_sign ts (unat (get_normal_label lb)))"

definition angora_tag_set_infer_shape_in_math_op :: "TS \<Rightarrow> u32 \<Rightarrow> u32 \<Rightarrow> TS option" where
  "angora_tag_set_infer_shape_in_math_op tsl lb len =
     with_store tsl (\<lambda>ts. infer_shape2 ts (unat (get_normal_label lb)) (unat len))"

text \<open>\<open>DISABLE_INFER_SHAPE_IF_HAS_AND_OP\<close> is set in \<^verbatim>\<open>common/src/config.rs\<close>.\<close>

definition angora_tag_set_combine_and :: "TS \<Rightarrow> u32 \<Rightarrow> TS option" where
  "angora_tag_set_combine_and tsl lb = with_store tsl (\<lambda>ts. combine_and ts (unat (get_normal_label lb)))"

definition angora_tag_set_fini :: "TS \<Rightarrow> TS" where
  "angora_tag_set_fini tsl = None"

definition tag_set_find :: "TS \<Rightarrow> nat \<Rightarrow> (TagSeg list \<times> TS) option" where
  "tag_set_find tsl lb =
     (case tsl of None \<Rightarrow> Some ([], None)
      | Some ts \<Rightarrow> map_option (map_prod id Some) (tag_find ts (take_bit 22 lb)))"
subsection \<open>What the interface promises\<close>

lemma get_normal_label_take: "get_normal_label lb = take_bit 22 lb"
  by (simp add: get_normal_label_def MAX_NORMAL_LABEL_def take_bit_eq_mask mask_eq_exp_minus_1)

lemma get_len_label_take: "get_len_label lb = take_bit 10 (drop_bit 22 lb)"
  by (simp add: get_len_label_def MAX_LEN_LABEL_def take_bit_eq_mask mask_eq_exp_minus_1)

lemma not_len_label: "\<not> is_len_label lb \<longleftrightarrow> unat lb < 2 ^ 22"
  by (auto simp: is_len_label_def MAX_NORMAL_LABEL_def word_less_nat_alt)

lemma normal_label_self: "\<not> is_len_label lb \<longleftrightarrow> get_normal_label lb = lb"
  by (simp only: not_len_label get_normal_label_take take_bit_self)

lemma fat_normal: "get_normal_label (get_fat_label n l) = get_normal_label n"
  unfolding get_normal_label_take get_fat_label_def by (rule bit_word_eqI) (auto simp: bit_simps)

lemma fat_len: "get_normal_label n = n \<Longrightarrow> get_len_label (get_fat_label n l) = take_bit 10 l"
proof -
  assume "get_normal_label n = n"
  then have b: "\<not> bit n (22 + i)" for i
    by (metis get_normal_label_take bit_take_bit_iff not_add_less1)
  show ?thesis unfolding get_len_label_take get_fat_label_def by (rule bit_word_eqI) (auto simp: bit_simps b)
qed

lemma fat_zero: "get_fat_label n 0 = n"
  by (simp add: get_fat_label_def)

lemma len_of_normal: "get_len_label (get_normal_label lb) = 0"
  unfolding get_len_label_take get_normal_label_take by (rule bit_word_eqI) (auto simp: bit_simps)

lemma normal_idem [simp]: "get_normal_label (get_normal_label lb) = get_normal_label lb"
  by (simp add: get_normal_label_take)

lemma normal_zero [simp]: "get_normal_label 0 = 0"
  by (simp add: get_normal_label_take)

definition store_ok :: "TS \<Rightarrow> bool" where
  "store_ok tsl = (case tsl of None \<Rightarrow> True | Some ts \<Rightarrow> tags_ok ts)"

text \<open>A label of the store: its index is a node.\<close>

definition label_ok :: "TS \<Rightarrow> u32 \<Rightarrow> bool" where
  "label_ok tsl lb = (case tsl of None \<Rightarrow> True | Some ts \<Rightarrow> unat (get_normal_label lb) < length ts)"

text \<open>\<open>extends tsl tsl'\<close>: a well-formed store in which the labels of \<open>tsl\<close> are labels.\<close>

definition extends :: "TS \<Rightarrow> TS \<Rightarrow> bool" where
  "extends tsl tsl' \<longleftrightarrow> store_ok tsl' \<and>
     (case (tsl, tsl') of (None, None) \<Rightarrow> True | (Some ts, Some ts') \<Rightarrow> length ts \<le> length ts' | _ \<Rightarrow> False)"

lemma extends_ok: "extends a b \<Longrightarrow> store_ok b"
  by (simp add: extends_def)

lemma extends_refl: "store_ok a \<Longrightarrow> extends a a"
  by (simp add: extends_def split: option.split)

lemma extends_trans: "extends a b \<Longrightarrow> extends b c \<Longrightarrow> extends a c"
  by (auto simp: extends_def split: option.splits)

lemma extends_label: "extends a b \<Longrightarrow> label_ok a l \<Longrightarrow> label_ok b l"
  by (auto simp: extends_def label_ok_def split: option.splits)

lemma label_ok_zero: "store_ok a \<Longrightarrow> label_ok a 0"
  by (auto simp: store_ok_def label_ok_def tags_ok_def split: option.split)

lemma grown_label:
  assumes "grown ts ts' lb"
  shows "extends (Some ts) (Some ts')" "unat (of_nat lb :: u32) = lb" "\<not> is_len_label (of_nat lb)"
        "label_ok (Some ts') (get_fat_label (of_nat lb) l)"
proof -
  have b: "lb < length ts'" "length ts' < 2 ^ 22" using assms by (auto simp: grown_def tags_ok_def MAX_LB_def)
  then show u: "unat (of_nat lb :: u32) = lb" by (simp add: unat_of_nat)
  then show n: "\<not> is_len_label (of_nat lb)" using b by (simp add: not_len_label)
  show "extends (Some ts) (Some ts')" using assms by (simp add: grown_def extends_def store_ok_def)
  show "label_ok (Some ts') (get_fat_label (of_nat lb) l)"
    using n u b(1) normal_label_self [of "of_nat lb"] by (simp add: label_ok_def fat_normal)
qed

lemma plain_label: "(if is_len_label l then get_normal_label l else l) = get_normal_label l"
  using normal_label_self [of l] by simp

text \<open>The length part is read from the label whose length part has just been cleared.\<close>

lemma combine_wrap:
  "angora_tag_set_combine tsl a b =
     (case tsl of None \<Rightarrow> Some (0, None)
      | Some ts \<Rightarrow> map_option label_of (combine ts (unat (get_normal_label a)) (unat (get_normal_label b))))"
  using normal_label_self [of a] normal_label_self [of b]
  by (auto simp: angora_tag_set_combine_def len_of_normal fat_zero Let_def split: option.split)

lemma combine_wrap_ok:
  assumes "angora_tag_set_combine tsl a b = Some (l, tsl')" "store_ok tsl" "label_ok tsl a" "label_ok tsl b"
  shows "extends tsl tsl' \<and> label_ok tsl' l \<and> \<not> is_len_label l"
proof (cases tsl)
  case None
  then show ?thesis using assms not_len_label [of 0] by (simp add: combine_wrap extends_def store_ok_def label_ok_def)
next
  case (Some ts)
  then obtain n ts' where c: "combine ts (unat (get_normal_label a)) (unat (get_normal_label b)) = Some (n, ts')"
    and r: "l = of_nat n" "tsl' = Some ts'"
    using assms(1) by (auto simp: combine_wrap)
  have "grown ts ts' n" using combine_grown [OF c] assms Some by (simp add: store_ok_def label_ok_def)
  from grown_label [OF this] grown_label(4) [OF this, of 0] show ?thesis using r Some by (simp add: fat_zero)
qed

lemma combine_n_wrap_ok:
  assumes "angora_tag_set_combine_n tsl ls infer = Some (l, tsl')" "store_ok tsl" "list_all (label_ok tsl) ls"
  shows "extends tsl tsl' \<and> label_ok tsl' l"
proof (cases tsl)
  case None
  then show ?thesis using assms by (auto simp: angora_tag_set_combine_n_def extends_def store_ok_def label_ok_def Let_def)
next
  case (Some ts)
  then obtain n ts' len where c: "combine_n ts (map (\<lambda>l. unat (get_normal_label l)) ls) infer = Some (n, ts')"
    and r: "l = get_fat_label (of_nat n) len" "tsl' = Some ts'"
    using assms(1) unfolding angora_tag_set_combine_n_def plain_label Let_def by (auto simp: Option.bind_eq_Some_conv)
  have "list_all (\<lambda>l. l < length ts) (map (\<lambda>l. unat (get_normal_label l)) ls)"
    using assms(3) Some by (simp add: list_all_iff label_ok_def)
  then have "grown ts ts' n" using combine_n_grown [OF c] assms Some by (simp add: store_ok_def)
  from grown_label(1) [OF this] grown_label(4) [OF this] show ?thesis using r Some by simp
qed

lemma insert_wrap_ok:
  assumes "angora_tag_set_insert tsl off = Some (l, tsl')" "store_ok tsl"
  shows "extends tsl tsl' \<and> label_ok tsl' l \<and> \<not> is_len_label l"
proof (cases tsl)
  case None
  then show ?thesis using assms not_len_label [of 0] by (simp add: angora_tag_set_insert_def extends_def store_ok_def label_ok_def)
next
  case (Some ts)
  then obtain n ts' where c: "tag_insert ts off = Some (n, ts')" and r: "l = of_nat n" "tsl' = Some ts'"
    using assms(1) by (auto simp: angora_tag_set_insert_def)
  have "grown ts ts' n" using tag_insert_grown [OF c] assms Some by (simp add: store_ok_def)
  from grown_label [OF this] grown_label(4) [OF this, of 0] show ?thesis using r Some by (simp add: fat_zero)
qed

lemma tupd_wrap_ok:
  assumes "with_store tsl f = Some tsl'" "store_ok tsl"
    "\<And>ts ts'. f ts = Some ts' \<Longrightarrow> tags_ok ts \<Longrightarrow> length ts' = length ts \<and> tags_ok ts'"
  shows "extends tsl tsl'"
  using assms by (fastforce simp: with_store_def extends_def store_ok_def split: option.splits)

lemma infer_shape2_grown: "infer_shape2 ts lb n = Some ts' \<Longrightarrow> tags_ok ts \<Longrightarrow> length ts' = length ts \<and> tags_ok ts'"
  unfolding infer_shape2_def
  by (auto simp: Option.bind_eq_Some_conv split: if_splits option.splits dest: tupd_seg_grown(3))

lemma mark_sign_wrap_ok: "angora_tag_set_mark_sign tsl l = Some tsl' \<Longrightarrow> store_ok tsl \<Longrightarrow> extends tsl tsl'"
  unfolding angora_tag_set_mark_sign_def set_sign_def by (erule (1) tupd_wrap_ok) (rule tupd_seg_grown(2))

lemma infer_shape_wrap_ok:
  "angora_tag_set_infer_shape_in_math_op tsl l n = Some tsl' \<Longrightarrow> store_ok tsl \<Longrightarrow> extends tsl tsl'"
  unfolding angora_tag_set_infer_shape_in_math_op_def by (erule (1) tupd_wrap_ok) (rule infer_shape2_grown)

lemma combine_and_wrap_ok: "angora_tag_set_combine_and tsl l = Some tsl' \<Longrightarrow> store_ok tsl \<Longrightarrow> extends tsl tsl'"
  unfolding angora_tag_set_combine_and_def combine_and_def
  by (erule (1) tupd_wrap_ok) (erule tupd_grown, simp_all add: links_ok_def)
section \<open>Properties\<close>

lemma fat_split: "get_fat_label (get_normal_label l) (get_len_label l) = l"
  unfolding get_fat_label_def get_normal_label_take get_len_label_take
  by (rule bit_word_eqI) (auto simp: bit_simps)

text \<open>Fat labels.  A label and a length index that fit their fields can be recovered from the combined label, and
  every 32-bit label is the combination of its two parts.\<close>

theorem fat_label_roundtrip:
  assumes "n \<le> MAX_NORMAL_LABEL" "len \<le> MAX_LEN_LABEL"
  shows "get_normal_label (get_fat_label n len) = n \<and> get_len_label (get_fat_label n len) = len \<and>
         (is_len_label (get_fat_label n len) \<longleftrightarrow> len \<noteq> 0) \<and>
         get_fat_label (get_normal_label lb) (get_len_label lb) = lb"
proof -
  have n: "get_normal_label n = n" using assms(1) normal_label_self [of n] by (simp add: is_len_label_def not_less)
  have "unat len < 2 ^ 10" using assms(2) by (simp add: MAX_LEN_LABEL_def word_le_nat_alt)
  then have l: "take_bit 10 len = len" by (simp only: take_bit_self)
  have "is_len_label (get_fat_label n len) \<longleftrightarrow> len \<noteq> 0"
  proof
    assume "is_len_label (get_fat_label n len)"
    then have "get_fat_label n len \<noteq> n" using normal_label_self [of "get_fat_label n len"] by (simp add: fat_normal n)
    then show "len \<noteq> 0" using fat_zero [of n] by auto
  next
    assume z: "len \<noteq> 0"
    show "is_len_label (get_fat_label n len)"
    proof (rule ccontr)
      assume "\<not> is_len_label (get_fat_label n len)"
      then have "get_fat_label n len = n" using normal_label_self [of "get_fat_label n len"] by (simp add: fat_normal n)
      then have "take_bit 10 len = get_len_label n" using fat_len [OF n, of len] by simp
      then show False using z l len_of_normal [of n] n by simp
    qed
  qed
  then show ?thesis using fat_normal [of n len] fat_len [OF n, of len] n l fat_split by simp
qed

theorem fat_label_roundtrip_witness:
  "get_normal_label (get_fat_label 4194303 1023) = 4194303 \<and> get_len_label (get_fat_label 4194303 1023) = 1023"
  using fat_label_roundtrip [of 4194303 1023] by (simp add: MAX_NORMAL_LABEL_def MAX_LEN_LABEL_def)

text \<open>A length is lost when its label is combined.  \<open>__angora_tag_set_combine\<close> reads the length part of a label after
  it has cleared it, so the label of a combination never has a length part, while \<open>__angora_tag_set_combine_n\<close> keeps
  the one of its last argument that has one.\<close>

theorem combine_loses_length:
  assumes "angora_tag_set_combine tsl a b = Some (l, tsl')" "store_ok tsl" "label_ok tsl a" "label_ok tsl b"
  shows "\<not> is_len_label l"
  using combine_wrap_ok [OF assms] by blast

theorem combine_loses_length_witness:
  "is_len_label 0x400000 \<and> angora_tag_set_combine (Some TagSet_new) 0x400000 0 = Some (0, Some TagSet_new) \<and> \<not> is_len_label 0 \<and>
   angora_tag_set_combine_n (Some TagSet_new) [0x400000, 0] False = Some (0x400000, Some TagSet_new)"
proof -
  have c: "angora_tag_set_combine (Some TagSet_new) 0x400000 0 = Some (0, Some TagSet_new)" by code_simp
  have n: "angora_tag_set_combine_n (Some TagSet_new) [0x400000, 0] False = Some (0x400000, Some TagSet_new)" by code_simp
  have o: "store_ok (Some TagSet_new)" "label_ok (Some TagSet_new) 0x400000" "label_ok (Some TagSet_new) 0" by code_simp+
  have "is_len_label 0x400000" by code_simp
  then show ?thesis using combine_loses_length [OF c o] c n by blast
qed
end
