(* ===== verification/Dfsan_Runtime.thy ===== *)
theory Dfsan_Runtime
  imports Memory Tag_Set
begin

text \<open>
  The taint runtime, \<^verbatim>\<open>llvm_mode/dfsan_rt/dfsan\<close>: the address layout of \<^verbatim>\<open>dfsan_platform.h\<close>, the label
  operations of \<^verbatim>\<open>dfsan.cc\<close> and the \<open>mmap\<close> interceptors.  Every application byte has a 32-bit label in a
  cell of shadow memory.  The shadow is a function from cell addresses to labels, beside the application
  memory: the cells are four bytes wide and four-aligned, so two different cells never share a byte.  An access
  to a cell outside the region that \<open>dfsan_init\<close> maps is a fault, and a fault, like a panic of the label store,
  is \<open>None\<close>.
\<close>

section \<open>The address layout (dfsan_platform.h)\<close>

record Mapping =
  kShadowAddr :: u64
  kUnionTableAddr :: u64
  kAppAddr :: u64
  kShadowMask :: u64

definition Mapping_x86_64 :: Mapping where
  "Mapping_x86_64 = \<lparr>kShadowAddr = 0x10000, kUnionTableAddr = 0x400000000000, kAppAddr = 0x700000008000,
     kShadowMask = NOT 0x700000000000\<rparr>"

definition Mapping_mips64 :: Mapping where
  "Mapping_mips64 = \<lparr>kShadowAddr = 0x10000, kUnionTableAddr = 0x2000000000, kAppAddr = 0xF000008000,
     kShadowMask = NOT 0xF000000000\<rparr>"

definition Mapping39 :: Mapping where
  "Mapping39 = \<lparr>kShadowAddr = 0x10000, kUnionTableAddr = 0x1000000000, kAppAddr = 0x7000008000,
     kShadowMask = NOT 0x7800000000\<rparr>"

definition Mapping42 :: Mapping where
  "Mapping42 = \<lparr>kShadowAddr = 0x10000, kUnionTableAddr = 0x8000000000, kAppAddr = 0x3ff00008000,
     kShadowMask = NOT 0x3c000000000\<rparr>"

definition Mapping48 :: Mapping where
  "Mapping48 = \<lparr>kShadowAddr = 0x10000, kUnionTableAddr = 0x8000000000, kAppAddr = 0xffff00008000,
     kShadowMask = NOT 0xfffff0000000\<rparr>"

text \<open>The compiled-for architecture; on aarch64 with the \<open>vmaSize\<close> found at start-up.\<close>

datatype arch = x86_64 | mips64 | aarch64 (vmaSize: u32)

datatype MappingType = MAPPING_SHADOW_ADDR | MAPPING_UNION_TABLE_ADDR | MAPPING_APP_ADDR | MAPPING_SHADOW_MASK

fun MappingImpl :: "Mapping \<Rightarrow> MappingType \<Rightarrow> u64" where
  "MappingImpl M MAPPING_SHADOW_ADDR = kShadowAddr M"
| "MappingImpl M MAPPING_UNION_TABLE_ADDR = kUnionTableAddr M"
| "MappingImpl M MAPPING_APP_ADDR = kAppAddr M"
| "MappingImpl M MAPPING_SHADOW_MASK = kShadowMask M"

text \<open>\<^verbatim>\<open>DCHECK(0)\<close> is compiled out of the release build, which returns 0.\<close>

fun MappingArchImpl :: "arch \<Rightarrow> MappingType \<Rightarrow> u64" where
  "MappingArchImpl x86_64 T = MappingImpl Mapping_x86_64 T"
| "MappingArchImpl mips64 T = MappingImpl Mapping_mips64 T"
| "MappingArchImpl (aarch64 v) T =
     (if v = 39 then MappingImpl Mapping39 T
      else if v = 42 then MappingImpl Mapping42 T
      else if v = 48 then MappingImpl Mapping48 T
      else 0)"

definition ShadowAddr :: "arch \<Rightarrow> u64" where
  "ShadowAddr A = MappingArchImpl A MAPPING_SHADOW_ADDR"

definition UnionTableAddr :: "arch \<Rightarrow> u64" where
  "UnionTableAddr A = MappingArchImpl A MAPPING_UNION_TABLE_ADDR"

definition AppAddr :: "arch \<Rightarrow> u64" where
  "AppAddr A = MappingArchImpl A MAPPING_APP_ADDR"

definition ShadowMask :: "arch \<Rightarrow> u64" where
  "ShadowMask A = MappingArchImpl A MAPPING_SHADOW_MASK"

definition UnusedAddr :: "arch \<Rightarrow> u64" where
  "UnusedAddr A = MappingArchImpl A MAPPING_UNION_TABLE_ADDR"

definition shadow_on :: "arch \<Rightarrow> u64 \<Rightarrow> u64" where
  "shadow_on A ptr = push_bit 2 (ptr AND ShadowMask A)"

section \<open>Start-up\<close>

text \<open>\<^verbatim>\<open>CHECK_NE(x, 0U)\<close> dies on 0, where \<open>__builtin_clzl\<close> is undefined.\<close>

definition MostSignificantSetBitIndex :: "u64 \<Rightarrow> u64 option" where
  "MostSignificantSetBitIndex x = map_option of_nat (find (bit x) (rev [0..<64]))"

text \<open>On aarch64 the size of the address space is read off the address of the current frame; any other size
  than the three supported ones is fatal.\<close>

datatype target = T_x86_64 | T_mips64 | T_aarch64

fun InitializePlatformEarly :: "target \<Rightarrow> u64 \<Rightarrow> arch option" where
  "InitializePlatformEarly T_x86_64 frame = Some x86_64"
| "InitializePlatformEarly T_mips64 frame = Some mips64"
| "InitializePlatformEarly T_aarch64 frame = do {
     i \<leftarrow> MostSignificantSetBitIndex frame;
     let vma = ucast (i + 1);
     if vma = 39 \<or> vma = 42 \<or> vma = 48 then Some (aarch64 vma) else None
   }"

text \<open>The calls that map or protect memory, in order; \<open>no_reserve_ok\<close> says whether the mapping succeeds.\<close>

datatype map_call = MmapFixedNoReserve u64 u64 | MmapFixedNoAccess u64 u64

definition dfsan_init :: "target \<Rightarrow> u64 \<Rightarrow> bool \<Rightarrow> u64 \<Rightarrow> (arch \<times> map_call list) option" where
  "dfsan_init T frame no_reserve_ok init_addr = do {
     A \<leftarrow> InitializePlatformEarly T frame;
     let m = MmapFixedNoReserve (ShadowAddr A) (UnusedAddr A - ShadowAddr A);
     if \<not> no_reserve_ok then None
     else Some (A, if \<not> (UnusedAddr A \<le> init_addr \<and> init_addr < AppAddr A)
                   then [m, MmapFixedNoAccess (UnusedAddr A) (AppAddr A - UnusedAddr A)] else [m])
   }"

section \<open>The state\<close>

text \<open>The flags of \<^verbatim>\<open>dfsan_flags.inc\<close> that the code reads.\<close>

record Flags =
  warn_unimplemented :: bool
  warn_nonzero_labels :: bool
  strict_data_dependencies :: bool

definition SetDefaults :: Flags where
  "SetDefaults = \<lparr>warn_unimplemented = True, warn_nonzero_labels = False, strict_data_dependencies = True\<rparr>"

record rt =
  mem :: memory
  shadow :: "u64 \<Rightarrow> u32"
  tags :: TS
  rt_flags :: Flags
  write_callback_trampoline :: u64
  write_callback :: u64
  reports :: "string list"

definition rt_start :: "memory \<Rightarrow> rt" where
  "rt_start m = \<lparr>mem = m, shadow = (\<lambda>_. 0), tags = Some TagSet_new, rt_flags = SetDefaults,
     write_callback_trampoline = 0, write_callback = 0, reports = []\<rparr>"

text \<open>The runtime is built for x86-64.\<close>

definition shadow_for :: "u64 \<Rightarrow> u64" where
  "shadow_for ptr = shadow_on x86_64 ptr"

definition cell_ok :: "u64 \<Rightarrow> bool" where
  "cell_ok lp \<longleftrightarrow> ShadowAddr x86_64 \<le> lp \<and> lp < UnusedAddr x86_64"

text \<open>\<open>n\<close> labels from a cell on, as \<^verbatim>\<open>slice::from_raw_parts\<close> reads them.\<close>

definition read_cells :: "rt \<Rightarrow> u64 \<Rightarrow> nat \<Rightarrow> u32 list option" where
  "read_cells s ls n = (let cells = map (\<lambda>i. ls + 4 * of_nat i) [0..<n] in
     if list_all cell_ok cells then Some (map (shadow s) cells) else None)"

definition put_tags :: "rt \<Rightarrow> 'a \<times> TS \<Rightarrow> 'a \<times> rt" where
  "put_tags s r = (fst r, s\<lparr>tags := snd r\<rparr>)"

section \<open>Label operations (dfsan.cc)\<close>

definition dfsan_union_uneq :: "rt \<Rightarrow> u32 \<Rightarrow> u32 \<Rightarrow> (u32 \<times> rt) option" where
  "dfsan_union_uneq s l1 l2 =
     (if l1 = 0 then Some (l2, s)
      else if l2 = 0 then Some (l1, s)
      else map_option (put_tags s) (angora_tag_set_combine (tags s) l1 l2))"

definition dfsan_union_load :: "rt \<Rightarrow> u64 \<Rightarrow> u64 \<Rightarrow> (u32 \<times> rt) option" where
  "dfsan_union_load s ls n =
     (if ls = 0 then Some (0, s)
      else do {
        lbs \<leftarrow> read_cells s ls (unat (ucast n :: u32));
        map_option (put_tags s) (angora_tag_set_combine_n (tags s) lbs True)
      })"

definition dfsan_unimplemented :: "rt \<Rightarrow> string \<Rightarrow> rt" where
  "dfsan_unimplemented s fname =
     (if warn_unimplemented (rt_flags s)
      then s\<lparr>reports := reports s @ [''WARNING: DataFlowSanitizer: call to uninstrumented function '' @ fname]\<rparr>
      else s)"

definition dfsan_nonzero_label :: "rt \<Rightarrow> rt" where
  "dfsan_nonzero_label s =
     (if warn_nonzero_labels (rt_flags s)
      then s\<lparr>reports := reports s @ [''WARNING: DataFlowSanitizer: saw nonzero label'']\<rparr> else s)"

text \<open>\<^verbatim>\<open>Die()\<close> after the report.\<close>

definition dfsan_vararg_wrapper :: "rt \<Rightarrow> string \<Rightarrow> rt option" where
  "dfsan_vararg_wrapper s fname = None"

definition tag_call :: "rt \<Rightarrow> u32 \<Rightarrow> (TS \<Rightarrow> u32 \<Rightarrow> TS option) \<Rightarrow> rt option" where
  "tag_call s l f = (if l > 0 then map_option (\<lambda>t. s\<lparr>tags := t\<rparr>) (f (tags s) l) else Some s)"

definition dfsan_mark_signed :: "rt \<Rightarrow> u32 \<Rightarrow> u32 \<Rightarrow> (u32 \<times> rt) option" where
  "dfsan_mark_signed s l1 l2 = do {
     s1 \<leftarrow> tag_call s l1 angora_tag_set_mark_sign;
     s2 \<leftarrow> tag_call s1 l2 angora_tag_set_mark_sign;
     Some (0, s2)
   }"

definition dfsan_infer_shape_in_math_op :: "rt \<Rightarrow> u32 \<Rightarrow> u32 \<Rightarrow> u32 \<Rightarrow> rt option" where
  "dfsan_infer_shape_in_math_op s l1 l2 len = do {
     s1 \<leftarrow> tag_call s l1 (\<lambda>t l. angora_tag_set_infer_shape_in_math_op t l len);
     tag_call s1 l2 (\<lambda>t l. angora_tag_set_infer_shape_in_math_op t l len)
   }"

definition dfsan_combine_and_ins :: "rt \<Rightarrow> u32 \<Rightarrow> rt option" where
  "dfsan_combine_and_ins s lb = map_option (\<lambda>t. s\<lparr>tags := t\<rparr>) (angora_tag_set_combine_and (tags s) lb)"

definition dfsan_union :: "rt \<Rightarrow> u32 \<Rightarrow> u32 \<Rightarrow> (u32 \<times> rt) option" where
  "dfsan_union s l1 l2 = (if l1 = l2 then Some (l1, s) else dfsan_union_uneq s l1 l2)"

definition dfsan_create_label :: "rt \<Rightarrow> u32 \<Rightarrow> (u32 \<times> rt) option" where
  "dfsan_create_label s pos = map_option (put_tags s) (angora_tag_set_insert (tags s) pos)"

text \<open>The loop reads the cell before it decides to write it.\<close>

primrec set_label_loop :: "nat \<Rightarrow> rt \<Rightarrow> u32 \<Rightarrow> u64 \<Rightarrow> rt option" where
  "set_label_loop 0 s label labelp = Some s"
| "set_label_loop (Suc k) s label labelp =
     (if \<not> cell_ok labelp then None
      else if label = shadow s labelp then set_label_loop k s label (labelp + 4)
      else set_label_loop k (s\<lparr>shadow := (shadow s)(labelp := label)\<rparr>) label (labelp + 4))"

definition dfsan_set_label :: "rt \<Rightarrow> u32 \<Rightarrow> u64 \<Rightarrow> u64 \<Rightarrow> rt option" where
  "dfsan_set_label s label addr n = set_label_loop (unat n) s label (shadow_for addr)"

primrec add_label_loop :: "nat \<Rightarrow> rt \<Rightarrow> u32 \<Rightarrow> u64 \<Rightarrow> rt option" where
  "add_label_loop 0 s label labelp = Some s"
| "add_label_loop (Suc k) s label labelp =
     (if \<not> cell_ok labelp then None
      else if shadow s labelp \<noteq> label
      then do {
        (l, s1) \<leftarrow> dfsan_union_uneq s (shadow s labelp) label;
        add_label_loop k (s1\<lparr>shadow := (shadow s1)(labelp := l)\<rparr>) label (labelp + 4)
      }
      else add_label_loop k s label (labelp + 4))"

definition dfsan_add_label :: "rt \<Rightarrow> u32 \<Rightarrow> u64 \<Rightarrow> u64 \<Rightarrow> rt option" where
  "dfsan_add_label s label addr n = add_label_loop (unat n) s label (shadow_for addr)"

definition dfsw_dfsan_get_label :: "rt \<Rightarrow> u64 \<Rightarrow> u32 \<Rightarrow> u32 \<times> u32 \<times> rt" where
  "dfsw_dfsan_get_label s data data_label = (data_label, 0, s)"

definition dfsan_read_label :: "rt \<Rightarrow> u64 \<Rightarrow> u64 \<Rightarrow> (u32 \<times> rt) option" where
  "dfsan_read_label s addr n =
     (if n = 0 then Some (0, s)
      else let ls = shadow_for addr in
        if ls = 0 then Some (0, s)
        else do {
          lbs \<leftarrow> read_cells s ls (unat (ucast n :: u32));
          map_option (put_tags s) (angora_tag_set_combine_n (tags s) lbs False)
        })"

section \<open>The mmap interceptors (dfsan_interceptors.cc)\<close>

definition IsPowerOfTwo :: "u64 \<Rightarrow> bool" where
  "IsPowerOfTwo x \<longleftrightarrow> x AND (x - 1) = 0"

definition RoundUpTo :: "u64 \<Rightarrow> u64 \<Rightarrow> u64 option" where
  "RoundUpTo n boundary =
     (if IsPowerOfTwo boundary then Some ((n + boundary - 1) AND NOT (boundary - 1)) else None)"

text \<open>\<open>real_mmap\<close> stands for the intercepted function applied to the arguments; \<open>mmap64\<close> is the same code.\<close>

definition interceptor_mmap :: "(memory \<Rightarrow> u64 \<times> memory) \<Rightarrow> u64 \<Rightarrow> rt \<Rightarrow> u64 \<Rightarrow> (u64 \<times> rt) option" where
  "interceptor_mmap real_mmap page_size s len = do {
     let (res, m) = real_mmap (mem s);
     let s1 = s\<lparr>mem := m\<rparr>;
     if res \<noteq> - 1 then do {
       n \<leftarrow> RoundUpTo len page_size;
       s2 \<leftarrow> dfsan_set_label s1 0 res n;
       Some (res, s2)
     } else Some (res, s1)
   }"

definition interceptor_mmap64 :: "(memory \<Rightarrow> u64 \<times> memory) \<Rightarrow> u64 \<Rightarrow> rt \<Rightarrow> u64 \<Rightarrow> (u64 \<times> rt) option" where
  "interceptor_mmap64 real_mmap64 page_size s len = do {
     let (res, m) = real_mmap64 (mem s);
     let s1 = s\<lparr>mem := m\<rparr>;
     if res \<noteq> - 1 then do {
       n \<leftarrow> RoundUpTo len page_size;
       s2 \<leftarrow> dfsan_set_label s1 0 res n;
       Some (res, s2)
     } else Some (res, s1)
   }"

text \<open>A second initialisation fails the \<open>CHECK_EQ\<close>.\<close>

definition InitializeInterceptors :: "bool \<Rightarrow> bool option" where
  "InitializeInterceptors inited = (if inited then None else Some True)"

section \<open>The mapping of addresses to cells\<close>

text \<open>The addresses of the program: from \<open>AppAddr\<close> to the end of the 47-bit user space.\<close>

definition app :: "u64 \<Rightarrow> bool" where
  "app p \<longleftrightarrow> AppAddr x86_64 \<le> p \<and> p < 0x800000000000"

definition app_range :: "u64 \<Rightarrow> nat \<Rightarrow> bool" where
  "app_range a n \<longleftrightarrow> app a \<and> unat a + n \<le> 0x800000000000"

definition in_bytes :: "u64 \<Rightarrow> nat \<Rightarrow> u64 \<Rightarrow> bool" where
  "in_bytes a n p \<longleftrightarrow> unat a \<le> unat p \<and> unat p < unat a + n"

definition label_at :: "rt \<Rightarrow> u64 \<Rightarrow> u32" where
  "label_at s p = shadow s (shadow_for p)"

lemmas layout_x86 = ShadowAddr_def UnusedAddr_def AppAddr_def ShadowMask_def Mapping_x86_64_def

lemma app_unat: "app p \<longleftrightarrow> 0x700000008000 \<le> unat p \<and> unat p < 0x800000000000"
  by (simp add: app_def layout_x86 word_le_nat_alt word_less_nat_alt)

lemma mask_app: "p < 0x800000000000 \<Longrightarrow> p AND NOT 0x700000000000 = take_bit 44 p" for p :: u64
proof -
  assume "p < 0x800000000000"
  then have "take_bit 47 p = p" by (simp add: take_bit_self word_less_nat_alt)
  then have high: "\<not> bit p n" if "n \<ge> 47" for n using that by (metis bit_take_bit_iff not_less)
  have c: "(0x700000000000 :: u64) = push_bit 44 (mask 3)" by (simp add: mask_eq_exp_minus_1 push_bit_eq_mult)
  show ?thesis unfolding c by (rule bit_word_eqI) (use high in \<open>auto simp: bit_simps\<close>)
qed

lemma shadow_app: "app p \<Longrightarrow> shadow_for p = 4 * (p - 0x700000000000)"
proof -
  assume a: "app p"
  then have "p < 0x800000000000" by (simp add: app_def)
  moreover have "take_bit 44 p = p - 0x700000000000"
  proof -
    have "unat (take_bit 44 p) = unat p mod 2 ^ 44" by (simp only: unsigned_take_bit_eq) (simp add: take_bit_eq_mod)
    also have "\<dots> = (unat p - 0x700000000000 + 7 * 2 ^ 44) mod 2 ^ 44" using a by (simp add: app_unat)
    also have "\<dots> = (unat p - 0x700000000000) mod 2 ^ 44" by (rule mod_mult_self1)
    also have "\<dots> = unat p - 0x700000000000" using a by (intro mod_less) (auto simp: app_unat)
    also have "\<dots> = unat (p - 0x700000000000)" using a by (simp add: app_unat unat_sub word_le_nat_alt)
    finally show ?thesis by (simp add: word_unat_eq_iff)
  qed
  moreover have "ShadowMask x86_64 = NOT 0x700000000000" by (simp add: layout_x86)
  ultimately have "p AND ShadowMask x86_64 = p - 0x700000000000" by (simp only: mask_app)
  then show ?thesis unfolding shadow_for_def shadow_on_def push_bit_eq_mult by simp
qed

lemma unat_shadow: "app p \<Longrightarrow> unat (shadow_for p) = 4 * (unat p - 0x700000000000)"
proof -
  assume a: "app p"
  have d: "unat (p - 0x700000000000) = unat p - 0x700000000000" using a by (simp add: app_unat unat_sub word_le_nat_alt)
  moreover have "unat (4 * x) = 4 * unat x" if "unat x < 2 ^ 44" for x :: u64
    using that by (simp add: unat_word_ariths)
  moreover have "unat p - 0x700000000000 < 2 ^ 44" using a by (auto simp: app_unat)
  ultimately show ?thesis unfolding shadow_app [OF a] by metis
qed

lemma shadow_inj: "app p \<Longrightarrow> app q \<Longrightarrow> shadow_for p = shadow_for q \<longleftrightarrow> p = q"
  using unat_shadow [of p] unat_shadow [of q] by (auto simp: app_unat word_unat_eq_iff)

lemma cell_ok_app: "app p \<Longrightarrow> cell_ok (shadow_for p)"
proof -
  assume a: "app p"
  then have "0x20000 \<le> unat (shadow_for p)" "unat (shadow_for p) < 0x400000000000"
    unfolding unat_shadow [OF a] app_unat by arith+
  then show ?thesis by (simp add: cell_ok_def layout_x86 word_le_nat_alt word_less_nat_alt)
qed

lemma app_range_nth:
  assumes "app_range a n" "i < n"
  shows "app (a + of_nat i)" "unat (a + of_nat i) = unat a + i"
    "shadow_for a + 4 * of_nat i = shadow_for (a + of_nat i)"
proof -
  have "unat (of_nat i :: u64) = i" using assms by (simp add: app_range_def unat_of_nat)
  then show u: "unat (a + of_nat i) = unat a + i"
    using assms by (simp add: app_range_def app_unat unat_word_ariths)
  then show n: "app (a + of_nat i)" using assms by (simp add: app_range_def app_unat)
  show "shadow_for a + 4 * of_nat i = shadow_for (a + of_nat i)"
    using assms n by (simp add: app_range_def shadow_app algebra_simps)
qed

lemma in_bytes_nth: "app_range a n \<Longrightarrow> in_bytes a n p \<longleftrightarrow> (\<exists>i<n. p = a + of_nat i)"
proof
  assume r: "app_range a n" and "in_bytes a n p"
  then have i: "unat p - unat a < n" "unat a + (unat p - unat a) = unat p" by (auto simp: in_bytes_def)
  then have "p = a + of_nat (unat p - unat a)" using app_range_nth(2) [OF r i(1)] by (simp add: word_unat_eq_iff)
  with i(1) show "\<exists>i<n. p = a + of_nat i" by blast
qed (auto simp: in_bytes_def app_range_nth(2))

lemma in_range_cells:
  assumes "app_range a n" "app p"
  shows "in_range 4 (shadow_for a) n (shadow_for p) \<longleftrightarrow> in_bytes a n p"
proof -
  have "in_range 4 (shadow_for a) n (shadow_for p) \<longleftrightarrow> (\<exists>i<n. shadow_for p = shadow_for (a + of_nat i))"
    unfolding in_range_def using app_range_nth(3) [OF assms(1)] by metis
  also have "\<dots> \<longleftrightarrow> (\<exists>i<n. p = a + of_nat i)"
    using shadow_inj [OF assms(2) app_range_nth(1) [OF assms(1)]] by blast
  finally show ?thesis using in_bytes_nth [OF assms(1)] by simp
qed

lemma in_range_bytes: "app_range a n \<Longrightarrow> in_range 1 a n p \<longleftrightarrow> in_bytes a n p"
  by (simp add: in_bytes_nth in_range_def)

lemma cells_inj:
  assumes "app_range a n"
  shows "inj_on (\<lambda>i. shadow_for a + 4 * of_nat i) {..<n}" "inj_on (\<lambda>i. a + 1 * of_nat i) {..<n}"
proof -
  have i: "i = j" if "i < n" "j < n" "a + of_nat i = a + of_nat j" for i j
    using app_range_nth(2) [OF assms that(1)] app_range_nth(2) [OF assms that(2)]
    unfolding that(3) by linarith
  then show "inj_on (\<lambda>i. a + 1 * of_nat i) {..<n}" by (auto simp: inj_on_def)
  show "inj_on (\<lambda>i. shadow_for a + 4 * of_nat i) {..<n}"
  proof (rule inj_onI)
    fix x y assume "x \<in> {..<n}" "y \<in> {..<n}" and e: "shadow_for a + 4 * of_nat x = shadow_for a + 4 * of_nat y"
    then have b: "x < n" "y < n" by simp_all
    have "shadow_for (a + of_nat x) = shadow_for (a + of_nat y)"
      using e app_range_nth(3) [OF assms b(1)] app_range_nth(3) [OF assms b(2)] by simp
    then show "x = y" using i [OF b] shadow_inj [OF app_range_nth(1) [OF assms b(1)] app_range_nth(1) [OF assms b(2)]] by blast
  qed
qed

section \<open>Setting and reading labels\<close>

lemma set_label_loop_eq:
  "set_label_loop k s l lp =
     (if \<forall>i<k. cell_ok (lp + 4 * of_nat i)
      then Some (s\<lparr>shadow := (\<lambda>c. if in_range 4 lp k c then l else shadow s c)\<rparr>) else None)"
proof (induction k arbitrary: s l lp)
  case (Suc k)
  have all: "(\<forall>i<Suc k. cell_ok (lp + 4 * of_nat i)) \<longleftrightarrow> cell_ok lp \<and> (\<forall>i<k. cell_ok (lp + 4 + 4 * of_nat i))"
    by (simp add: All_less_Suc2 algebra_simps)
  have step: "set_label_loop (Suc k) s l lp =
      (if cell_ok lp then set_label_loop k (s\<lparr>shadow := (shadow s)(lp := l)\<rparr>) l (lp + 4) else None)"
    by (cases "l = shadow s lp") simp_all
  have "(\<lambda>c. if in_range 4 lp (Suc k) c then l else shadow s c)
      = (\<lambda>c. if in_range 4 (lp + 4) k c then l else ((shadow s)(lp := l)) c)"
    by (auto simp: in_range_Suc)
  then show ?case unfolding all step by (simp add: Suc.IH cong: if_cong)
qed simp

lemma set_label_frame:
  "dfsan_set_label s l a n = Some s' \<Longrightarrow> s' = s\<lparr>shadow := shadow s'\<rparr> \<and> (\<forall>c. shadow s' c = l \<or> shadow s' c = shadow s c)"
  by (auto simp: dfsan_set_label_def set_label_loop_eq split: if_splits)

lemma set_label_app:
  assumes "app_range a (unat n)"
  shows "\<exists>s'. dfsan_set_label s l a n = Some s' \<and> s' = s\<lparr>shadow := shadow s'\<rparr> \<and>
              (\<forall>p. app p \<longrightarrow> label_at s' p = (if in_bytes a (unat n) p then l else label_at s p))"
proof -
  have "\<forall>i<unat n. cell_ok (shadow_for a + 4 * of_nat i)"
    using app_range_nth [OF assms] by (simp add: cell_ok_app)
  then show ?thesis
    by (simp add: dfsan_set_label_def set_label_loop_eq label_at_def in_range_cells [OF assms])
qed

lemma read_cells_app:
  assumes "app_range a n"
  shows "read_cells s (shadow_for a) n = Some (map (\<lambda>i. label_at s (a + of_nat i)) [0..<n])"
  using app_range_nth [OF assms] by (simp add: read_cells_def Let_def label_at_def list_all_iff cell_ok_app)

lemma read_cells_set: "read_cells s ls n = Some lbs \<Longrightarrow> set lbs \<subseteq> range (shadow s)"
  by (auto simp: read_cells_def Let_def split: if_splits)

lemma read_label_app:
  assumes "app_range a (unat n)" "unat n < 2 ^ 32"
  shows "dfsan_read_label s a n =
    (if n = 0 then Some (0, s)
     else map_option (put_tags s)
       (angora_tag_set_combine_n (tags s) (map (\<lambda>i. label_at s (a + of_nat i)) [0..<unat n]) False))"
proof -
  have u: "unat (ucast n :: u32) = unat n" using assms(2) by (simp add: unsigned_ucast_eq take_bit_nat_eq_self_iff)
  have "unat (shadow_for a) \<noteq> 0" using assms(1) unat_shadow [of a] by (auto simp: app_range_def app_unat)
  then have "shadow_for a \<noteq> 0" by auto
  then show ?thesis using read_cells_app [OF assms(1)] u by (simp add: dfsan_read_label_def Let_def)
qed
section \<open>Properties of the shadow memory\<close>

text \<open>C22. On x86-64 the label cells are a faithful image of the program's memory: the cell of every application
  address lies in the region that \<open>dfsan_init\<close> maps and outside of the application's own addresses, different bytes
  have different cells, and neighbouring bytes have neighbouring cells, so that the loops which advance a cell pointer
  by one label follow the bytes.\<close>

theorem shadow_map_faithful:
  assumes "app p" "app q"
  shows "cell_ok (shadow_for p) \<and> \<not> app (shadow_for p) \<and> (shadow_for p = shadow_for q \<longleftrightarrow> p = q) \<and>
         (app (p + 1) \<longrightarrow> shadow_for (p + 1) = shadow_for p + 4)"
proof -
  have "unat (shadow_for p) < 0x400000000000"
    using cell_ok_app [OF assms(1)] by (simp add: cell_ok_def layout_x86 word_less_nat_alt)
  then have "\<not> app (shadow_for p)" by (simp add: app_unat)
  moreover have "app (p + 1) \<Longrightarrow> shadow_for (p + 1) = shadow_for p + 4"
    using assms(1) by (simp add: shadow_app algebra_simps)
  ultimately show ?thesis using cell_ok_app [OF assms(1)] shadow_inj [OF assms] by blast
qed

theorem shadow_map_faithful_witness:
  "app 0x7fffffffe000 \<and> app 0x700000008000 \<and> cell_ok (shadow_for 0x7fffffffe000) \<and>
   shadow_for 0x7fffffffe000 \<noteq> shadow_for 0x700000008000"
proof -
  have a: "app 0x7fffffffe000" "app 0x700000008000" by (simp_all add: app_unat)
  show ?thesis using shadow_map_faithful [OF a] a by simp
qed

lemma put_tags_same: "put_tags s (l, tags s) = (l, s)"
  by (simp add: put_tags_def)

lemma combine_rest_same: "m \<noteq> 0 \<Longrightarrow> combine_rest ts m (replicate k m) = Some (m, ts)"
  by (induction k) (simp_all add: combine_def)

lemma combine_n_same: "k > 0 \<Longrightarrow> combine_n ts (replicate k m) False = Some (m, ts)"
proof (cases "m = 0")
  case False
  assume "k > 0"
  then obtain j where k: "k = Suc j" by (cases k) auto
  have "dropWhile (\<lambda>l. l = 0) (replicate k m) = m # replicate j m" using False k by simp
  moreover have "combine ts m m = Some (m, ts)" using False by (simp add: combine_def)
  ultimately show ?thesis using combine_rest_same [OF False, of ts] unfolding combine_n_def
    by (cases j) (simp_all only: list.case replicate.simps combine_rest.simps if_False Option.bind.simps prod.case)
qed (simp add: combine_n_def split: list.split)

lemma combine_n_wrap_same:
  assumes "k > 0"
  shows "angora_tag_set_combine_n (Some ts) (replicate k l) False = Some (l, Some ts)"
proof -
  obtain j where k: "k = Suc j" using assms by (cases k) auto
  have n: "combine_n ts (replicate k (unat (get_normal_label l))) False = Some (unat (get_normal_label l), ts)"
    by (rule combine_n_same [OF assms])
  show ?thesis
  proof (cases "is_len_label l")
    case True
    then have "(case filter is_len_label (replicate k l) of [] \<Rightarrow> 0 | ls \<Rightarrow> get_len_label (last ls)) = get_len_label l"
      using k by (simp add: last_replicate)
    then show ?thesis unfolding angora_tag_set_combine_n_def plain_label Let_def by (simp add: n fat_split)
  next
    case False
    then have f: "filter is_len_label (replicate k l) = []" by simp
    have "get_normal_label l = l" using False normal_label_self by simp
    then show ?thesis using n unfolding angora_tag_set_combine_n_def plain_label Let_def f by (simp add: fat_zero)
  qed
qed

lemma unat_in_bytes: "app_range a (unat n) \<Longrightarrow> i < unat n \<Longrightarrow> in_bytes a (unat n) (a + of_nat i)"
  using app_range_nth(2) [of a "unat n" i] by (simp add: in_bytes_def)

text \<open>Setting a label and reading it back.  For a range of application memory \<open>dfsan_set_label\<close> gives exactly
  the bytes of the range the label and changes nothing else, and \<open>dfsan_read_label\<close> of the whole range then returns
  that label, whichever it is (a length label keeps its length part), without adding nodes to the label store.\<close>

theorem set_label_read_back:
  assumes "app_range a (unat n)" "0 < n" "unat n < 2 ^ 32" "tags s = Some ts"
  shows "\<exists>s'. dfsan_set_label s l a n = Some s' \<and> dfsan_read_label s' a n = Some (l, s') \<and>
              s' = s\<lparr>shadow := shadow s'\<rparr> \<and>
              (\<forall>p. app p \<longrightarrow> label_at s' p = (if in_bytes a (unat n) p then l else label_at s p))"
proof -
  obtain s' where s': "dfsan_set_label s l a n = Some s'" "s' = s\<lparr>shadow := shadow s'\<rparr>"
      "\<forall>p. app p \<longrightarrow> label_at s' p = (if in_bytes a (unat n) p then l else label_at s p)"
    using set_label_app [OF assms(1)] by blast
  have t: "tags s' = Some ts" using s'(2) assms(4) by (metis rt.select_convs(3) rt.surjective rt.update_convs(2))
  have "label_at s' (a + of_nat i) = l" if "i < unat n" for i
    using s'(3) app_range_nth(1) [OF assms(1) that] unat_in_bytes [OF assms(1) that] by simp
  then have "map (\<lambda>i. label_at s' (a + of_nat i)) [0..<unat n] = replicate (unat n) l"
    by (intro nth_equalityI) simp_all
  moreover have "unat n > 0" using assms(2) by (simp add: unat_gt_0)
  ultimately have "dfsan_read_label s' a n = map_option (put_tags s') (Some (l, Some ts))"
    using read_label_app [OF assms(1,3), of s'] combine_n_wrap_same [of "unat n" ts l] assms(2)
    unfolding t by (auto simp: word_neq_0_conv)
  then have "dfsan_read_label s' a n = Some (l, s')" using put_tags_same [of s' l] unfolding t by simp
  then show ?thesis using s' by blast
qed

theorem set_label_read_back_witness:
  "\<exists>s'. dfsan_set_label (rt_start (\<lambda>_. 0)) 0x400005 0x7fffffffe000 4 = Some s' \<and>
        dfsan_read_label s' 0x7fffffffe000 4 = Some (0x400005, s')"
  using set_label_read_back [where a = "0x7fffffffe000" and n = 4 and s = "rt_start (\<lambda>_. 0)" and ts = TagSet_new
      and l = "0x400005"]
  by (auto simp: app_range_def app_unat rt_start_def)

text \<open>The layouts of the other platforms were not adapted to 32-bit labels.  With four bytes of shadow per
  application byte the cells of application addresses on mips64 and on aarch64 with 39 and 42 address bits lie beyond
  the region that \<open>dfsan_init\<close> maps.  Shown for the last byte of each address space, and on aarch64 with 42 bits
  already for the first application address.\<close>

theorem other_platforms_outside_shadow:
  "shadow_on mips64 0xFFFFFFFFFF \<ge> UnusedAddr mips64 \<and>
   shadow_on (aarch64 39) 0x7FFFFFFFFF \<ge> UnusedAddr (aarch64 39) \<and>
   shadow_on (aarch64 42) 0x3FFFFFFFFFF \<ge> UnusedAddr (aarch64 42) \<and>
   shadow_on (aarch64 42) (AppAddr (aarch64 42)) \<ge> UnusedAddr (aarch64 42)"
  by code_simp
end
