(* ===== verification/Dfsan_Custom.thy ===== *)
theory Dfsan_Custom
  imports Dfsan_Runtime
begin

text \<open>
  The wrappers of the C library, \<^verbatim>\<open>dfsan_rt/dfsan/dfsan_custom.cc\<close>.  The instrumented program calls
  \<^verbatim>\<open>__dfsw_f\<close> in place of \<open>f\<close>, with a label for every argument; the wrapper does what \<open>f\<close> does and computes the
  label of the result.  A wrapper returns the value, the label it stores through \<open>ret_label\<close> and the new state;
  a wrapper that does not write \<open>ret_label\<close> takes the previous contents \<open>rl\<close>.  \<open>None\<close> is a fault, a panic of the
  label store, or a scan that never ends.  A call of the operating system or of a library function that is
  not modelled is an argument \<open>sys\<close> of the wrapper: what the call returns and the memory it leaves, for the
  given arguments.  Sizes of structures are those of x86-64 Linux.  The weak hooks of \<open>memcmp\<close>, \<open>strcmp\<close> and \<open>strncmp\<close> are
  not defined anywhere and the calls to them are skipped.
\<close>

abbreviation strict :: "rt \<Rightarrow> bool" where
  "strict s \<equiv> strict_data_dependencies (rt_flags s)"

text \<open>The result of a wrapper whose return value carries the label \<open>l\<close>.\<close>

type_synonym 'r wrapped = "('r \<times> u32 \<times> rt) option"

definition labelled :: "'r \<Rightarrow> (u32 \<times> rt) option \<Rightarrow> 'r wrapped" where
  "labelled r x = map_option (\<lambda>(l, s). (r, l, s)) x"

text \<open>\<^verbatim>\<open>dfsan_union(dfsan_read_label(a, n), dfsan_read_label(b, m))\<close>\<close>

definition union_of_reads :: "rt \<Rightarrow> u64 \<Rightarrow> u64 \<Rightarrow> u64 \<Rightarrow> u64 \<Rightarrow> (u32 \<times> rt) option" where
  "union_of_reads s a n b m = do {
     (l1, s1) \<leftarrow> dfsan_read_label s a n;
     (l2, s2) \<leftarrow> dfsan_read_label s1 b m;
     dfsan_union s2 l1 l2
   }"

text \<open>\<^verbatim>\<open>dfsan_union(dfsan_read_label(a, n), dfsan_union(l1, l2))\<close>\<close>

definition union_of_read_labels :: "rt \<Rightarrow> u64 \<Rightarrow> u64 \<Rightarrow> u32 \<Rightarrow> u32 \<Rightarrow> (u32 \<times> rt) option" where
  "union_of_read_labels s a n l1 l2 = do {
     (l, s1) \<leftarrow> dfsan_read_label s a n;
     (l', s2) \<leftarrow> dfsan_union s1 l1 l2;
     dfsan_union s2 l l'
   }"

section \<open>Searching and comparing\<close>

definition dfsw_strchr :: "rt \<Rightarrow> u64 \<Rightarrow> u32 \<Rightarrow> u32 \<Rightarrow> u32 \<Rightarrow> u64 wrapped" where
  "dfsw_strchr st s c s_label c_label = do {
     i \<leftarrow> first_index (\<lambda>i. to_int (mem st (s + i)) = c \<or> mem st (s + i) = 0) 0;
     labelled (if mem st (s + i) = 0 then 0 else s + i)
       (if strict st then Some (s_label, st) else union_of_read_labels st s (i + 1) s_label c_label)
   }"

definition dfsw_memcmp :: "rt \<Rightarrow> u64 \<Rightarrow> u64 \<Rightarrow> u64 \<Rightarrow> u32 \<Rightarrow> u32 \<Rightarrow> u32 \<Rightarrow> u32 wrapped" where
  "dfsw_memcmp st cs1 cs2 n s1_label s2_label n_label =
     (case find (\<lambda>i. mem st (cs1 + of_nat i) \<noteq> mem st (cs2 + of_nat i)) [0..<unat n] of
        Some i \<Rightarrow>
          labelled (to_int (mem st (cs1 + of_nat i)) - to_int (mem st (cs2 + of_nat i)))
            (if strict st then Some (0, st) else union_of_reads st cs1 (of_nat i + 1) cs2 (of_nat i + 1))
      | None \<Rightarrow> labelled 0 (if strict st then Some (0, st) else union_of_reads st cs1 n cs2 n))"

definition dfsw_strcmp :: "rt \<Rightarrow> u64 \<Rightarrow> u64 \<Rightarrow> u32 \<Rightarrow> u32 \<Rightarrow> u32 wrapped" where
  "dfsw_strcmp st s1 s2 s1_label s2_label = do {
     i \<leftarrow> first_index (\<lambda>i. mem st (s1 + i) \<noteq> mem st (s2 + i) \<or> mem st (s1 + i) = 0 \<or> mem st (s2 + i) = 0) 0;
     labelled (to_int (mem st (s1 + i)) - to_int (mem st (s2 + i)))
       (if strict st then Some (0, st) else union_of_reads st s1 (i + 1) s2 (i + 1))
   }"

definition dfsw_strcasecmp :: "rt \<Rightarrow> u64 \<Rightarrow> u64 \<Rightarrow> u32 \<Rightarrow> u32 \<Rightarrow> u32 wrapped" where
  "dfsw_strcasecmp st s1 s2 s1_label s2_label = do {
     i \<leftarrow> first_index (\<lambda>i. tolower (to_int (mem st (s1 + i))) \<noteq> tolower (to_int (mem st (s2 + i))) \<or>
                            mem st (s1 + i) = 0 \<or> mem st (s2 + i) = 0) 0;
     labelled (to_int (mem st (s1 + i)) - to_int (mem st (s2 + i)))
       (if strict st then Some (0, st) else union_of_reads st s1 (i + 1) s2 (i + 1))
   }"

definition dfsw_strncmp :: "rt \<Rightarrow> u64 \<Rightarrow> u64 \<Rightarrow> u64 \<Rightarrow> u32 \<Rightarrow> u32 \<Rightarrow> u32 \<Rightarrow> u32 wrapped" where
  "dfsw_strncmp st s1 s2 n s1_label s2_label n_label =
     (if n = 0 then Some (0, 0, st)
      else do {
        i \<leftarrow> first_index (\<lambda>i. mem st (s1 + i) \<noteq> mem st (s2 + i) \<or> mem st (s1 + i) = 0 \<or> mem st (s2 + i) = 0 \<or>
                               i = n - 1) 0;
        labelled (to_int (mem st (s1 + i)) - to_int (mem st (s2 + i)))
          (if strict st then Some (0, st) else union_of_reads st s1 (i + 1) s2 (i + 1))
      })"

definition dfsw_strncasecmp :: "rt \<Rightarrow> u64 \<Rightarrow> u64 \<Rightarrow> u64 \<Rightarrow> u32 \<Rightarrow> u32 \<Rightarrow> u32 \<Rightarrow> u32 wrapped" where
  "dfsw_strncasecmp st s1 s2 n s1_label s2_label n_label =
     (if n = 0 then Some (0, 0, st)
      else do {
        i \<leftarrow> first_index (\<lambda>i. tolower (to_int (mem st (s1 + i))) \<noteq> tolower (to_int (mem st (s2 + i))) \<or>
                               mem st (s1 + i) = 0 \<or> mem st (s2 + i) = 0 \<or> i = n - 1) 0;
        labelled (to_int (mem st (s1 + i)) - to_int (mem st (s2 + i)))
          (if strict st then Some (0, st) else union_of_reads st s1 (i + 1) s2 (i + 1))
      })"

definition dfsw_strlen :: "rt \<Rightarrow> u64 \<Rightarrow> u32 \<Rightarrow> u64 wrapped" where
  "dfsw_strlen st s s_label = do {
     ret \<leftarrow> strlen (mem st) s;
     labelled ret (if strict st then Some (0, st) else dfsan_read_label st s (ret + 1))
   }"

definition dfsw_memchr :: "rt \<Rightarrow> u64 \<Rightarrow> u32 \<Rightarrow> u64 \<Rightarrow> u32 \<Rightarrow> u32 \<Rightarrow> u32 \<Rightarrow> u64 wrapped" where
  "dfsw_memchr st s c n s_label c_label n_label =
     (let ret = memchr (mem st) s c n in
      labelled ret
        (if strict st then Some (if ret \<noteq> 0 then s_label else 0, st)
         else union_of_read_labels st s (if ret \<noteq> 0 then ret - s + 1 else n) s_label c_label))"

definition dfsw_strrchr :: "rt \<Rightarrow> u64 \<Rightarrow> u32 \<Rightarrow> u32 \<Rightarrow> u32 \<Rightarrow> u64 wrapped" where
  "dfsw_strrchr st s c s_label c_label = do {
     ret \<leftarrow> strrchr (mem st) s c;
     len \<leftarrow> strlen (mem st) s;
     labelled ret
       (if strict st then Some (if ret \<noteq> 0 then s_label else 0, st)
        else union_of_read_labels st s (len + 1) s_label c_label)
   }"

definition dfsw_strstr :: "rt \<Rightarrow> u64 \<Rightarrow> u64 \<Rightarrow> u32 \<Rightarrow> u32 \<Rightarrow> u64 wrapped" where
  "dfsw_strstr st haystack needle haystack_label needle_label = do {
     ret \<leftarrow> strstr (mem st) haystack needle;
     hlen \<leftarrow> strlen (mem st) haystack;
     nlen \<leftarrow> strlen (mem st) needle;
     labelled ret
       (if strict st then Some (if ret \<noteq> 0 then haystack_label else 0, st)
        else do {
          (l, st1) \<leftarrow> dfsan_read_label st haystack (if ret \<noteq> 0 then ret + nlen - haystack else hlen + 1);
          (l', st2) \<leftarrow> union_of_read_labels st1 needle (nlen + 1) haystack_label needle_label;
          dfsan_union st2 l l'
        })
   }"

section \<open>Copying\<close>

text \<open>\<^verbatim>\<open>internal_memcpy(shadow_for(dest), shadow_for(src), n * sizeof(dfsan_label))\<close>; the byte count wraps around.
  Source and destination cells are four-aligned, so the byte loop copies cell after cell.\<close>

definition copy_labels :: "rt \<Rightarrow> u64 \<Rightarrow> u64 \<Rightarrow> u64 \<Rightarrow> rt option" where
  "copy_labels st dest src n =
     (let k = unat (n * 4) div 4; d = shadow_for dest; s = shadow_for src in
      if list_all (\<lambda>i. cell_ok (d + 4 * of_nat i) \<and> cell_ok (s + 4 * of_nat i)) [0..<k]
      then Some (st\<lparr>shadow := copy_loop k 4 (shadow st) d s\<rparr>) else None)"

definition dfsan_memcpy :: "rt \<Rightarrow> u64 \<Rightarrow> u64 \<Rightarrow> u64 \<Rightarrow> (u64 \<times> rt) option" where
  "dfsan_memcpy st dest src n = do {
     st1 \<leftarrow> copy_labels st dest src n;
     let (r, m) = internal_memcpy (mem st1) dest src n;
     Some (r, st1\<lparr>mem := m\<rparr>)
   }"

definition dfsan_memset :: "rt \<Rightarrow> u64 \<Rightarrow> u32 \<Rightarrow> u32 \<Rightarrow> u64 \<Rightarrow> rt option" where
  "dfsan_memset st s c c_label n = dfsan_set_label (st\<lparr>mem := snd (internal_memset (mem st) s c n)\<rparr>) c_label s n"

definition dfsw_memcpy :: "rt \<Rightarrow> u64 \<Rightarrow> u64 \<Rightarrow> u64 \<Rightarrow> u32 \<Rightarrow> u32 \<Rightarrow> u32 \<Rightarrow> u64 wrapped" where
  "dfsw_memcpy st dest src n dest_label src_label n_label = do {
     (r, st1) \<leftarrow> dfsan_memcpy st dest src n;
     Some (r, dest_label, st1)
   }"

text \<open>The check of the destination size has an empty body.\<close>

definition dfsw_mempcpy_chk :: "rt \<Rightarrow> u64 \<Rightarrow> u64 \<Rightarrow> u64 \<Rightarrow> u64 \<Rightarrow> u32 \<Rightarrow> u32 \<Rightarrow> u32 \<Rightarrow> u32 \<Rightarrow> u64 wrapped" where
  "dfsw_mempcpy_chk st dest src n dst_len dest_label src_label n_label dst_len_label = do {
     (r, st1) \<leftarrow> dfsan_memcpy st dest src n;
     Some (r, dest_label, st1)
   }"

definition dfsw_memset :: "rt \<Rightarrow> u64 \<Rightarrow> u32 \<Rightarrow> u64 \<Rightarrow> u32 \<Rightarrow> u32 \<Rightarrow> u32 \<Rightarrow> u64 wrapped" where
  "dfsw_memset st s c n s_label c_label n_label = do {
     st1 \<leftarrow> dfsan_memset st s c c_label n;
     Some (s, s_label, st1)
   }"

definition dfsw_strcat :: "rt \<Rightarrow> u64 \<Rightarrow> u64 \<Rightarrow> u32 \<Rightarrow> u32 \<Rightarrow> u64 wrapped" where
  "dfsw_strcat st dest src d_label s_label = do {
     len \<leftarrow> strlen (mem st) dest;
     n \<leftarrow> strlen (mem st) src;
     (_, st1) \<leftarrow> dfsan_memcpy st (dest + len) src (n + 1);
     Some (dest, d_label, st1)
   }"

text \<open>An allocation: the pointer returned for a size, and the memory afterwards.\<close>

type_synonym alloc = "u64 \<Rightarrow> memory \<Rightarrow> u64 \<times> memory"

definition dfsw_strdup :: "alloc \<Rightarrow> rt \<Rightarrow> u64 \<Rightarrow> u32 \<Rightarrow> u64 wrapped" where
  "dfsw_strdup malloc st s s_label = do {
     len \<leftarrow> strlen (mem st) s;
     let (p, m) = malloc (len + 1) (mem st);
     (_, st1) \<leftarrow> dfsan_memcpy (st\<lparr>mem := m\<rparr>) p s (len + 1);
     Some (p, 0, st1)
   }"

definition dfsw___strdup :: "alloc \<Rightarrow> rt \<Rightarrow> u64 \<Rightarrow> u32 \<Rightarrow> u64 wrapped" where
  "dfsw___strdup malloc st s s_label = do {
     len \<leftarrow> strlen (mem st) s;
     let (p, m) = malloc (len + 1) (mem st);
     (_, st1) \<leftarrow> dfsan_memcpy (st\<lparr>mem := m\<rparr>) p s (len + 1);
     Some (p, 0, st1)
   }"

definition dfsw___strndup :: "alloc \<Rightarrow> rt \<Rightarrow> u64 \<Rightarrow> u64 \<Rightarrow> u32 \<Rightarrow> u32 \<Rightarrow> u64 wrapped" where
  "dfsw___strndup malloc st s n s_label n_label = do {
     len0 \<leftarrow> strlen (mem st) s;
     let len = (if len0 > n then n else len0);
     let (p, m) = malloc (len + 1) (mem st);
     (_, st1) \<leftarrow> dfsan_memcpy (st\<lparr>mem := m\<rparr>) p s len;
     Some (p, 0, st1\<lparr>mem := (mem st1)(p + len := 0)\<rparr>)
   }"

definition dfsw_strncpy :: "rt \<Rightarrow> u64 \<Rightarrow> u64 \<Rightarrow> u64 \<Rightarrow> u32 \<Rightarrow> u32 \<Rightarrow> u32 \<Rightarrow> u64 wrapped" where
  "dfsw_strncpy st s1 s2 n s1_label s2_label n_label = do {
     len \<leftarrow> strlen (mem st) s2;
     st' \<leftarrow> (if len < n then do {
               (_, st1) \<leftarrow> dfsan_memcpy st s1 s2 (len + 1);
               dfsan_memset st1 (s1 + len + 1) 0 0 (n - len - 1)
             } else map_option snd (dfsan_memcpy st s1 s2 n));
     Some (s1, s1_label, st')
   }"

text \<open>\<open>strcpy\<close> and \<open>stpcpy\<close> return a pointer into the destination, which is null only for a null destination.
  The length is taken again after the copy.\<close>

definition dfsw_strcpy :: "rt \<Rightarrow> u64 \<Rightarrow> u64 \<Rightarrow> u32 \<Rightarrow> u32 \<Rightarrow> u64 wrapped" where
  "dfsw_strcpy st dest src dst_label src_label = do {
     m \<leftarrow> strcpy (mem st) dest src;
     let st1 = st\<lparr>mem := m\<rparr>;
     st2 \<leftarrow> (if dest \<noteq> 0 then do { n \<leftarrow> strlen m src; copy_labels st1 dest src (n + 1) } else Some st1);
     Some (dest, dst_label, st2)
   }"

definition dfsw_stpcpy :: "rt \<Rightarrow> u64 \<Rightarrow> u64 \<Rightarrow> u32 \<Rightarrow> u32 \<Rightarrow> u64 wrapped" where
  "dfsw_stpcpy st dest src dst_label src_label = do {
     len \<leftarrow> strlen (mem st) src;
     m \<leftarrow> strcpy (mem st) dest src;
     let ret = dest + len;
     let st1 = st\<lparr>mem := m\<rparr>;
     st2 \<leftarrow> (if ret \<noteq> 0 then do { n \<leftarrow> strlen m src; copy_labels st1 dest src (n + 1) } else Some st1);
     Some (ret, dst_label, st2)
   }"

section \<open>Conversions\<close>

text \<open>\<open>conv\<close> stands for \<open>strtol\<close> and its relatives applied to the string and the base: the value and the end pointer.
  Storing the end pointer through \<open>endptr\<close> writes eight bytes, lowest first.\<close>

definition store64 :: "memory \<Rightarrow> u64 \<Rightarrow> u64 \<Rightarrow> memory" where
  "store64 m a v = fold (\<lambda>i m. m(a + of_nat i := ucast (drop_bit (8 * i) v))) [0..<8] m"

definition load64 :: "memory \<Rightarrow> u64 \<Rightarrow> u64" where
  "load64 m a = fold (\<lambda>i v. v OR push_bit (8 * i) (ucast (m (a + of_nat i)))) [0..<8] 0"

definition conv_label :: "rt \<Rightarrow> u64 \<Rightarrow> u64 \<Rightarrow> (u32 \<times> rt) option" where
  "conv_label st nptr tmp_endptr =
     dfsan_read_label st nptr (tmp_endptr - nptr + (if mem st tmp_endptr \<noteq> 0 then 0 else 1))"

definition store_endptr :: "rt \<Rightarrow> u64 \<Rightarrow> u64 \<Rightarrow> rt" where
  "store_endptr st endptr tmp_endptr =
     (if endptr \<noteq> 0 then st\<lparr>mem := store64 (mem st) endptr tmp_endptr\<rparr> else st)"

definition dfsw_strtol ::
  "(memory \<Rightarrow> u64 \<Rightarrow> u32 \<Rightarrow> u64 \<times> u64) \<Rightarrow> rt \<Rightarrow> u64 \<Rightarrow> u64 \<Rightarrow> u32 \<Rightarrow> u32 \<Rightarrow> u32 \<Rightarrow> u32 \<Rightarrow> u64 wrapped"
where
  "dfsw_strtol strtol st nptr endptr base nptr_label endptr_label base_label = do {
     let (ret, tmp_endptr) = strtol (mem st) nptr base;
     let st1 = store_endptr st endptr tmp_endptr;
     labelled ret
       (if tmp_endptr > nptr
        then do { (l, st2) \<leftarrow> conv_label st1 nptr tmp_endptr; dfsan_union st2 base_label l }
        else Some (0, st1))
   }"

definition dfsw_strtod ::
  "(memory \<Rightarrow> u64 \<Rightarrow> u64 \<times> u64) \<Rightarrow> rt \<Rightarrow> u64 \<Rightarrow> u64 \<Rightarrow> u32 \<Rightarrow> u32 \<Rightarrow> u64 wrapped"
where
  "dfsw_strtod strtod st nptr endptr nptr_label endptr_label = do {
     let (ret, tmp_endptr) = strtod (mem st) nptr;
     let st1 = store_endptr st endptr tmp_endptr;
     labelled ret (if tmp_endptr > nptr then conv_label st1 nptr tmp_endptr else Some (0, st1))
   }"

definition dfsw_strtoll ::
  "(memory \<Rightarrow> u64 \<Rightarrow> u32 \<Rightarrow> u64 \<times> u64) \<Rightarrow> rt \<Rightarrow> u64 \<Rightarrow> u64 \<Rightarrow> u32 \<Rightarrow> u32 \<Rightarrow> u32 \<Rightarrow> u32 \<Rightarrow> u64 wrapped"
where
  "dfsw_strtoll strtoll st nptr endptr base nptr_label endptr_label base_label = do {
     let (ret, tmp_endptr) = strtoll (mem st) nptr base;
     let st1 = store_endptr st endptr tmp_endptr;
     labelled ret
       (if tmp_endptr > nptr
        then do { (l, st2) \<leftarrow> conv_label st1 nptr tmp_endptr; dfsan_union st2 base_label l }
        else Some (0, st1))
   }"

definition dfsw_strtoul ::
  "(memory \<Rightarrow> u64 \<Rightarrow> u32 \<Rightarrow> u64 \<times> u64) \<Rightarrow> rt \<Rightarrow> u64 \<Rightarrow> u64 \<Rightarrow> u32 \<Rightarrow> u32 \<Rightarrow> u32 \<Rightarrow> u32 \<Rightarrow> u64 wrapped"
where
  "dfsw_strtoul strtoul st nptr endptr base nptr_label endptr_label base_label = do {
     let (ret, tmp_endptr) = strtoul (mem st) nptr base;
     let st1 = store_endptr st endptr tmp_endptr;
     labelled ret
       (if tmp_endptr > nptr
        then do { (l, st2) \<leftarrow> conv_label st1 nptr tmp_endptr; dfsan_union st2 base_label l }
        else Some (0, st1))
   }"

text \<open>The third parameter is declared as the label of the string and the fourth as the base, while the caller
  passes the base third and the label fourth, as for the other conversions: \<open>x3\<close> and \<open>x4\<close> are what is passed.\<close>

definition dfsw_strtoull ::
  "(memory \<Rightarrow> u64 \<Rightarrow> u32 \<Rightarrow> u64 \<times> u64) \<Rightarrow> rt \<Rightarrow> u64 \<Rightarrow> u64 \<Rightarrow> u32 \<Rightarrow> u32 \<Rightarrow> u32 \<Rightarrow> u32 \<Rightarrow> u64 wrapped"
where
  "dfsw_strtoull strtoull st nptr endptr x3 x4 endptr_label base_label = do {
     let nptr_label = x3; let base = x4;
     let (ret, tmp_endptr) = strtoull (mem st) nptr base;
     let st1 = store_endptr st endptr tmp_endptr;
     labelled ret
       (if tmp_endptr > nptr
        then do { (l, st2) \<leftarrow> conv_label st1 nptr tmp_endptr; dfsan_union st2 base_label l }
        else Some (0, st1))
   }"
section \<open>Operating system calls\<close>

type_synonym 'r sys = "memory \<Rightarrow> 'r \<times> memory"

definition os_call :: "'r sys \<Rightarrow> rt \<Rightarrow> 'r \<times> rt" where
  "os_call sys st = (let (r, m) = sys (mem st) in (r, st\<lparr>mem := m\<rparr>))"

definition dfsw_clock_gettime :: "(u32 \<Rightarrow> u64 \<Rightarrow> u32 sys) \<Rightarrow> rt \<Rightarrow> u32 \<Rightarrow> u64 \<Rightarrow> u32 \<Rightarrow> u32 \<Rightarrow> u32 wrapped" where
  "dfsw_clock_gettime clock_gettime st clk_id tp clk_id_label tp_label = do {
     let (ret, st1) = os_call (clock_gettime clk_id tp) st;
     labelled ret (map_option (Pair 0) (if ret = 0 then dfsan_set_label st1 0 tp 16 else Some st1))
   }"

definition unpoison :: "rt \<Rightarrow> u64 \<Rightarrow> u64 \<Rightarrow> rt option" where
  "unpoison st ptr n = dfsan_set_label st 0 ptr n"

text \<open>Little-endian loads of header fields.\<close>

definition load_le :: "nat \<Rightarrow> memory \<Rightarrow> u64 \<Rightarrow> u64" where
  "load_le k m a = fold (\<lambda>i v. v OR push_bit (8 * i) (ucast (m (a + of_nat i)))) [0..<k] 0"

text \<open>\<^verbatim>\<open>ForEachMappedRegion\<close>: the loadable segments of an ELF object, relocated to the address it is loaded at and
  rounded to pages.  The offsets are those of the 64-bit ELF and program headers.\<close>

definition loadable :: "memory \<Rightarrow> u64 \<Rightarrow> u64 list" where
  "loadable m base = (
     let phdrs = base + load_le 8 m (base + 32); entsize = load_le 2 m (base + 54); num = unat (load_le 2 m (base + 56))
     in filter (\<lambda>ph. load_le 4 m ph = 1)
          (if entsize = 0 then [] else map (\<lambda>i. phdrs + entsize * of_nat i) [0..<num]))"

definition RoundDownTo :: "u64 \<Rightarrow> u64 \<Rightarrow> u64" where
  "RoundDownTo x boundary = x AND NOT (boundary - 1)"

fun for_regions :: "rt \<Rightarrow> (rt \<Rightarrow> u64 \<Rightarrow> u64 \<Rightarrow> rt option) \<Rightarrow> u64 \<Rightarrow> u64 \<Rightarrow> u64 list \<Rightarrow> rt option" where
  "for_regions st cb page delta [] = Some st"
| "for_regions st cb page delta (ph # phs) = do {
     let seg_start = load_le 8 (mem st) (ph + 16) + delta;
     let seg_end = seg_start + load_le 8 (mem st) (ph + 40);
     let a = RoundDownTo seg_start page;
     e \<leftarrow> RoundUpTo seg_end page;
     st1 \<leftarrow> cb st a (e - a);
     for_regions st1 cb page delta phs
   }"

definition ForEachMappedRegion :: "u64 \<Rightarrow> rt \<Rightarrow> u64 \<Rightarrow> (rt \<Rightarrow> u64 \<Rightarrow> u64 \<Rightarrow> rt option) \<Rightarrow> rt option" where
  "ForEachMappedRegion page st map_ptr cb = (
     let base = load_le 8 (mem st) map_ptr;
         phs = loadable (mem st) base;
         preferred_base = foldr (\<lambda>ph b. min b (load_le 8 (mem st) (ph + 16))) phs (- 1)
     in if map_ptr = 0 then None else for_regions st cb page (base - preferred_base) phs)"

definition dfsw_dlopen ::
  "u64 \<Rightarrow> (u64 \<Rightarrow> u32 \<Rightarrow> u64 sys) \<Rightarrow> (u64 \<Rightarrow> u64) \<Rightarrow> rt \<Rightarrow> u64 \<Rightarrow> u32 \<Rightarrow> u32 \<Rightarrow> u32 \<Rightarrow> u64 wrapped"
where
  "dfsw_dlopen page dlopen link_map_of st filename flag filename_label flag_label = do {
     let (handle, st1) = os_call (dlopen filename flag) st;
     let map = link_map_of handle;
     st2 \<leftarrow> (if map \<noteq> 0 then ForEachMappedRegion page st1 map unpoison else Some st1);
     Some (handle, 0, st2)
   }"

text \<open>The structure \<open>pthread_create_info\<close> is three pointers; the callback hands them to the trampoline with a zero
  argument label.\<close>

definition store_pci :: "memory \<Rightarrow> u64 \<Rightarrow> u64 \<Rightarrow> u64 \<Rightarrow> u64 \<Rightarrow> memory" where
  "store_pci m pci trampoline start_routine arg =
     store64 (store64 (store64 m pci trampoline) (pci + 8) start_routine) (pci + 16) arg"

definition pthread_create_cb ::
  "(u64 \<Rightarrow> memory \<Rightarrow> memory) \<Rightarrow> (u64 \<Rightarrow> u64 \<Rightarrow> u64 \<Rightarrow> u32 \<Rightarrow> rt \<Rightarrow> 'r) \<Rightarrow> rt \<Rightarrow> u64 \<Rightarrow> 'r"
where
  "pthread_create_cb free call st p =
     call (load64 (mem st) p) (load64 (mem st) (p + 8)) (load64 (mem st) (p + 16)) 0 (st\<lparr>mem := free p (mem st)\<rparr>)"

definition dfsw_pthread_create ::
  "alloc \<Rightarrow> (u64 \<Rightarrow> memory \<Rightarrow> memory) \<Rightarrow> (u64 \<Rightarrow> u64 \<Rightarrow> u64 \<Rightarrow> u32 sys) \<Rightarrow> rt \<Rightarrow> u64 \<Rightarrow> u64 \<Rightarrow> u64 \<Rightarrow> u64 \<Rightarrow> u64 \<Rightarrow> u32 wrapped"
where
  "dfsw_pthread_create malloc free pthread_create st thread attr trampoline start_routine arg =
     (let (pci, m) = malloc 24 (mem st);
          (rv, st1) = os_call (pthread_create thread attr pci) (st\<lparr>mem := store_pci m pci trampoline start_routine arg\<rparr>);
          st2 = (if rv \<noteq> 0 then st1\<lparr>mem := free pci (mem st1)\<rparr> else st1)
      in Some (rv, 0, st2))"

text \<open>\<open>dlpi_name\<close>, \<open>dlpi_phdr\<close> and \<open>dlpi_phnum\<close> are at the offsets 8, 16 and 24 of the 64-byte \<open>dl_phdr_info\<close>, a program
  header is 56 bytes long.  \<open>call\<close> is the trampoline with the callback of the program.\<close>

definition dl_iterate_phdr_cb :: "(rt \<Rightarrow> u64 \<Rightarrow> (u32 \<times> rt) option) \<Rightarrow> rt \<Rightarrow> u64 \<Rightarrow> (u32 \<times> rt) option" where
  "dl_iterate_phdr_cb call st info = do {
     st1 \<leftarrow> dfsan_set_label st 0 info 64;
     let name = load64 (mem st) (info + 8);
     n \<leftarrow> strlen (mem st) name;
     st2 \<leftarrow> dfsan_set_label st1 0 name (n + 1);
     st3 \<leftarrow> dfsan_set_label st2 0 (load64 (mem st) (info + 16)) (56 * load_le 2 (mem st) (info + 24));
     call st3 info
   }"

text \<open>\<open>dl_iterate_phdr\<close> calls back for every loaded object until a callback returns nonzero.\<close>

fun iterate_infos :: "(rt \<Rightarrow> u64 \<Rightarrow> (u32 \<times> rt) option) \<Rightarrow> rt \<Rightarrow> u32 \<Rightarrow> u64 list \<Rightarrow> (u32 \<times> rt) option" where
  "iterate_infos cb st r [] = Some (r, st)"
| "iterate_infos cb st r (i # is) = do {
     (r', st1) \<leftarrow> cb st i;
     if r' \<noteq> 0 then Some (r', st1) else iterate_infos cb st1 r' is
   }"

definition dfsw_dl_iterate_phdr :: "u64 list \<Rightarrow> (rt \<Rightarrow> u64 \<Rightarrow> (u32 \<times> rt) option) \<Rightarrow> rt \<Rightarrow> u32 wrapped" where
  "dfsw_dl_iterate_phdr infos call st = do {
     (r, st1) \<leftarrow> iterate_infos (dl_iterate_phdr_cb call) st 0 infos;
     Some (r, 0, st1)
   }"

definition dfsw_ctime_r :: "(u64 \<Rightarrow> u64 \<Rightarrow> u64 sys) \<Rightarrow> rt \<Rightarrow> u64 \<Rightarrow> u64 \<Rightarrow> u32 \<Rightarrow> u32 \<Rightarrow> u64 wrapped" where
  "dfsw_ctime_r ctime_r st timep buf timep_label buf_label = do {
     let (ret, st1) = os_call (ctime_r timep buf) st;
     if ret \<noteq> 0 then do {
       (l, st2) \<leftarrow> dfsan_read_label st1 timep 8;
       n \<leftarrow> strlen (mem st1) buf;
       st3 \<leftarrow> dfsan_set_label st2 l buf (n + 1);
       Some (ret, buf_label, st3)
     } else Some (ret, 0, st1)
   }"

definition dfsw_getcwd :: "(u64 \<Rightarrow> u64 \<Rightarrow> u64 sys) \<Rightarrow> rt \<Rightarrow> u64 \<Rightarrow> u64 \<Rightarrow> u32 \<Rightarrow> u32 \<Rightarrow> u64 wrapped" where
  "dfsw_getcwd getcwd st buf n buf_label size_label = do {
     let (ret, st1) = os_call (getcwd buf n) st;
     if ret \<noteq> 0 then do {
       len \<leftarrow> strlen (mem st1) ret;
       st2 \<leftarrow> dfsan_set_label st1 0 ret (len + 1);
       Some (ret, buf_label, st2)
     } else Some (ret, 0, st1)
   }"

definition dfsw_get_current_dir_name :: "u64 sys \<Rightarrow> rt \<Rightarrow> u64 wrapped" where
  "dfsw_get_current_dir_name get_current_dir_name st = do {
     let (ret, st1) = os_call get_current_dir_name st;
     st2 \<leftarrow> (if ret \<noteq> 0 then do { len \<leftarrow> strlen (mem st1) ret; dfsan_set_label st1 0 ret (len + 1) } else Some st1);
     Some (ret, 0, st2)
   }"

definition dfsw_gethostname :: "(u64 \<Rightarrow> u64 \<Rightarrow> u32 sys) \<Rightarrow> rt \<Rightarrow> u64 \<Rightarrow> u64 \<Rightarrow> u32 \<Rightarrow> u32 \<Rightarrow> u32 wrapped" where
  "dfsw_gethostname gethostname st name len name_label len_label = do {
     let (ret, st1) = os_call (gethostname name len) st;
     st2 \<leftarrow> (if ret = 0 then do { n \<leftarrow> strlen (mem st1) name; dfsan_set_label st1 0 name (n + 1) } else Some st1);
     Some (ret, 0, st2)
   }"
text \<open>The wrappers that clear the labels of what the call fills in.\<close>

definition dfsw_getrlimit :: "(u32 \<Rightarrow> u64 \<Rightarrow> u32 sys) \<Rightarrow> rt \<Rightarrow> u32 \<Rightarrow> u64 \<Rightarrow> u32 \<Rightarrow> u32 \<Rightarrow> u32 wrapped" where
  "dfsw_getrlimit getrlimit st resource rlim resource_label rlim_label = do {
     let (ret, st1) = os_call (getrlimit resource rlim) st;
     labelled ret (map_option (Pair 0) (if ret = 0 then dfsan_set_label st1 0 rlim 16 else Some st1))
   }"

definition dfsw_getrusage :: "(u32 \<Rightarrow> u64 \<Rightarrow> u32 sys) \<Rightarrow> rt \<Rightarrow> u32 \<Rightarrow> u64 \<Rightarrow> u32 \<Rightarrow> u32 \<Rightarrow> u32 wrapped" where
  "dfsw_getrusage getrusage st who usage who_label usage_label = do {
     let (ret, st1) = os_call (getrusage who usage) st;
     labelled ret (map_option (Pair 0) (if ret = 0 then dfsan_set_label st1 0 usage 144 else Some st1))
   }"

definition dfsw_time :: "(u64 \<Rightarrow> u64 sys) \<Rightarrow> rt \<Rightarrow> u64 \<Rightarrow> u32 \<Rightarrow> u64 wrapped" where
  "dfsw_time time st t t_label = do {
     let (ret, st1) = os_call (time t) st;
     labelled ret (map_option (Pair 0) (if ret \<noteq> - 1 \<and> t \<noteq> 0 then dfsan_set_label st1 0 t 8 else Some st1))
   }"

definition dfsw_inet_pton ::
  "(u32 \<Rightarrow> u64 \<Rightarrow> u64 \<Rightarrow> u32 sys) \<Rightarrow> rt \<Rightarrow> u32 \<Rightarrow> u64 \<Rightarrow> u64 \<Rightarrow> u32 \<Rightarrow> u32 \<Rightarrow> u32 \<Rightarrow> u32 wrapped"
where
  "dfsw_inet_pton inet_pton st af src dst af_label src_label dst_label = do {
     let (ret, st1) = os_call (inet_pton af src dst) st;
     st3 \<leftarrow> (if ret = 1 then do {
               n \<leftarrow> strlen (mem st1) src;
               (l, st2) \<leftarrow> dfsan_read_label st1 src (n + 1);
               dfsan_set_label st2 l dst (if af = 2 then 4 else 16)
             } else Some st1);
     Some (ret, 0, st3)
   }"

definition dfsw_localtime_r :: "(u64 \<Rightarrow> u64 \<Rightarrow> u64 sys) \<Rightarrow> rt \<Rightarrow> u64 \<Rightarrow> u64 \<Rightarrow> u32 \<Rightarrow> u32 \<Rightarrow> u64 wrapped" where
  "dfsw_localtime_r localtime_r st timep result timep_label result_label = do {
     let (ret, st1) = os_call (localtime_r timep result) st;
     if ret \<noteq> 0 then do {
       (l, st2) \<leftarrow> dfsan_read_label st1 timep 8;
       st3 \<leftarrow> dfsan_set_label st2 l result 56;
       Some (ret, result_label, st3)
     } else Some (ret, 0, st1)
   }"

definition dfsw_getpwuid_r ::
  "(u32 \<Rightarrow> u64 \<Rightarrow> u64 \<Rightarrow> u64 \<Rightarrow> u64 \<Rightarrow> u32 sys) \<Rightarrow> rt \<Rightarrow> u32 \<Rightarrow> u64 \<Rightarrow> u64 \<Rightarrow> u64 \<Rightarrow> u64 \<Rightarrow> u32 wrapped"
where
  "dfsw_getpwuid_r getpwuid_r st uid pwd buf buflen result = do {
     let (ret, st1) = os_call (getpwuid_r uid pwd buf buflen result) st;
     st2 \<leftarrow> (if ret = 0 then do {
               t \<leftarrow> dfsan_set_label st1 0 pwd 48;
               n \<leftarrow> strlen (mem t) buf;
               dfsan_set_label t 0 buf (n + 1)
             } else Some st1);
     st3 \<leftarrow> dfsan_set_label st2 0 result 8;
     Some (ret, 0, st3)
   }"

text \<open>The field \<open>revents\<close> is the two bytes at offset 6 of the eight bytes of a \<open>pollfd\<close>; the last entry comes first.\<close>

primrec clear_revents :: "nat \<Rightarrow> rt \<Rightarrow> u64 \<Rightarrow> rt option" where
  "clear_revents 0 st fds = Some st"
| "clear_revents (Suc k) st fds = do { st1 \<leftarrow> dfsan_set_label st 0 (fds + 8 * of_nat k + 6) 2; clear_revents k st1 fds }"

definition dfsw_poll :: "(u64 \<Rightarrow> u64 \<Rightarrow> u32 \<Rightarrow> u32 sys) \<Rightarrow> rt \<Rightarrow> u64 \<Rightarrow> u64 \<Rightarrow> u32 \<Rightarrow> u32 \<Rightarrow> u32 \<Rightarrow> u32 \<Rightarrow> u32 wrapped" where
  "dfsw_poll poll st fds nfds timeout dfs_label nfds_label timeout_label = do {
     let (ret, st1) = os_call (poll fds nfds timeout) st;
     labelled ret (map_option (Pair 0) (if sint ret \<ge> 0 then clear_revents (unat nfds) st1 fds else Some st1))
   }"

definition clear_unless_null :: "rt \<Rightarrow> u64 \<Rightarrow> u64 \<Rightarrow> rt option" where
  "clear_unless_null st p n = (if p \<noteq> 0 then dfsan_set_label st 0 p n else Some st)"

definition dfsw_select ::
  "(u32 \<Rightarrow> u64 \<Rightarrow> u64 \<Rightarrow> u64 \<Rightarrow> u64 \<Rightarrow> u32 sys) \<Rightarrow> rt \<Rightarrow> u32 \<Rightarrow> u64 \<Rightarrow> u64 \<Rightarrow> u64 \<Rightarrow> u64 \<Rightarrow> u32 wrapped"
where
  "dfsw_select select st nfds readfds writefds exceptfds timeout = do {
     let (ret, st1) = os_call (select nfds readfds writefds exceptfds timeout) st;
     st2 \<leftarrow> clear_unless_null st1 readfds 128;
     st3 \<leftarrow> clear_unless_null st2 writefds 128;
     st4 \<leftarrow> clear_unless_null st3 exceptfds 128;
     st5 \<leftarrow> dfsan_set_label st4 0 timeout 16;
     Some (ret, 0, st5)
   }"

definition dfsw_sched_getaffinity ::
  "(u32 \<Rightarrow> u64 \<Rightarrow> u64 \<Rightarrow> u32 sys) \<Rightarrow> rt \<Rightarrow> u32 \<Rightarrow> u64 \<Rightarrow> u64 \<Rightarrow> u32 \<Rightarrow> u32 \<Rightarrow> u32 \<Rightarrow> u32 wrapped"
where
  "dfsw_sched_getaffinity sched_getaffinity st pid cpusetsize msk pid_label cpusetsize_label mask_label = do {
     let (ret, st1) = os_call (sched_getaffinity pid cpusetsize msk) st;
     labelled ret (map_option (Pair 0) (if ret = 0 then dfsan_set_label st1 0 msk cpusetsize else Some st1))
   }"

text \<open>The label of the result is not written.\<close>

definition dfsw_sigemptyset :: "(u64 \<Rightarrow> u32 sys) \<Rightarrow> rt \<Rightarrow> u64 \<Rightarrow> u32 \<Rightarrow> u32 \<Rightarrow> u32 wrapped" where
  "dfsw_sigemptyset sigemptyset st sset set_label rl = do {
     let (ret, st1) = os_call (sigemptyset sset) st;
     labelled ret (map_option (Pair rl) (dfsan_set_label st1 0 sset 128))
   }"

definition dfsw_sigaction ::
  "(u32 \<Rightarrow> u64 \<Rightarrow> u64 \<Rightarrow> u32 sys) \<Rightarrow> rt \<Rightarrow> u32 \<Rightarrow> u64 \<Rightarrow> u64 \<Rightarrow> u32 \<Rightarrow> u32 \<Rightarrow> u32 \<Rightarrow> u32 wrapped"
where
  "dfsw_sigaction sigaction st signum act oldact signum_label act_label oldact_label = do {
     let (ret, st1) = os_call (sigaction signum act oldact) st;
     labelled ret (map_option (Pair 0) (clear_unless_null st1 oldact 152))
   }"

definition dfsw_gettimeofday :: "(u64 \<Rightarrow> u64 \<Rightarrow> u32 sys) \<Rightarrow> rt \<Rightarrow> u64 \<Rightarrow> u64 \<Rightarrow> u32 \<Rightarrow> u32 \<Rightarrow> u32 wrapped" where
  "dfsw_gettimeofday gettimeofday st tv tz tv_label tz_label = do {
     let (ret, st1) = os_call (gettimeofday tv tz) st;
     st2 \<leftarrow> clear_unless_null st1 tv 16;
     st3 \<leftarrow> clear_unless_null st2 tz 8;
     Some (ret, 0, st3)
   }"

definition dfsw_nanosleep :: "(u64 \<Rightarrow> u64 \<Rightarrow> u32 sys) \<Rightarrow> rt \<Rightarrow> u64 \<Rightarrow> u64 \<Rightarrow> u32 \<Rightarrow> u32 \<Rightarrow> u32 wrapped" where
  "dfsw_nanosleep nanosleep st req rem req_label rem_label = do {
     let (ret, st1) = os_call (nanosleep req rem) st;
     labelled ret (map_option (Pair 0) (if ret = - 1 then dfsan_set_label st1 0 rem 16 else Some st1))
   }"

definition dfsw_socketpair ::
  "(u32 \<Rightarrow> u32 \<Rightarrow> u32 \<Rightarrow> u64 \<Rightarrow> u32 sys) \<Rightarrow> rt \<Rightarrow> u32 \<Rightarrow> u32 \<Rightarrow> u32 \<Rightarrow> u64 \<Rightarrow> u32 \<Rightarrow> u32 \<Rightarrow> u32 \<Rightarrow> u32 \<Rightarrow> u32 wrapped"
where
  "dfsw_socketpair socketpair st domain type protocol sv domain_label type_label protocol_label sv_label = do {
     let (ret, st1) = os_call (socketpair domain type protocol sv) st;
     labelled ret (map_option (Pair 0) (if ret = 0 then dfsan_set_label st1 0 sv 8 else Some st1))
   }"

section \<open>The write callback\<close>

definition dfsw_dfsan_set_write_callback :: "rt \<Rightarrow> u64 \<Rightarrow> u64 \<Rightarrow> u32 \<Rightarrow> rt" where
  "dfsw_dfsan_set_write_callback st trampoline callback callback_label =
     st\<lparr>write_callback_trampoline := trampoline, write_callback := callback\<rparr>"

text \<open>\<open>call\<close> runs the registered trampoline of the program.\<close>

definition dfsw_write ::
  "(rt \<Rightarrow> u64 \<Rightarrow> u64 \<Rightarrow> u32 \<Rightarrow> u64 \<Rightarrow> u64 \<Rightarrow> u32 \<Rightarrow> u32 \<Rightarrow> u32 \<Rightarrow> rt option) \<Rightarrow> (u32 \<Rightarrow> u64 \<Rightarrow> u64 \<Rightarrow> u64 sys) \<Rightarrow>
   rt \<Rightarrow> u32 \<Rightarrow> u64 \<Rightarrow> u64 \<Rightarrow> u32 \<Rightarrow> u32 \<Rightarrow> u32 \<Rightarrow> u32 wrapped"
where
  "dfsw_write call write st fd buf cnt fd_label buf_label count_label = do {
     st1 \<leftarrow> (if write_callback st \<noteq> 0
             then call st (write_callback_trampoline st) (write_callback st) fd buf cnt fd_label buf_label count_label
             else Some st);
     let (ret, st2) = os_call (write fd buf cnt) st1;
     Some (ucast ret, 0, st2)
   }"
section \<open>Properties of the wrappers\<close>

lemma byte_cells: "unat n < 2 ^ 62 \<Longrightarrow> unat (n * 4) div 4 = unat n" for n :: u64
  by (simp add: unat_word_ariths)

lemma copy_labels_app:
  assumes "app_range d (unat n)" "app_range a (unat n)"
  shows "copy_labels st d a n = Some (st\<lparr>shadow := copy_loop (unat n) 4 (shadow st) (shadow_for d) (shadow_for a)\<rparr>)"
proof -
  have "unat n < 2 ^ 62" using assms(1) by (simp add: app_range_def)
  then show ?thesis
    using app_range_nth [OF assms(1)] app_range_nth [OF assms(2)] byte_cells [of n]
    by (simp add: copy_labels_def Let_def list_all_iff cell_ok_app)
qed

definition apart :: "u64 \<Rightarrow> u64 \<Rightarrow> nat \<Rightarrow> bool" where
  "apart d a n \<longleftrightarrow> unat d + n \<le> unat a \<or> unat a + n \<le> unat d"

lemma apart_bytes: "apart d a n \<Longrightarrow> in_bytes a n p \<Longrightarrow> \<not> in_bytes d n p"
  by (auto simp: apart_def in_bytes_def)

text \<open>Copying the label cells of a buffer to those of another.\<close>

lemma copy_labels_effect:
  assumes "app_range d (unat n)" "app_range a (unat n)" "apart d a (unat n)"
  shows "\<exists>sh. copy_labels st d a n = Some (st\<lparr>shadow := sh\<rparr>) \<and>
    (\<forall>i<unat n. sh (shadow_for (d + of_nat i)) = shadow st (shadow_for (a + of_nat i))) \<and>
    (\<forall>p. app p \<longrightarrow> \<not> in_bytes d (unat n) p \<longrightarrow> sh (shadow_for p) = shadow st (shadow_for p))"
proof -
  let ?k = "unat n"
  let ?sh = "copy_loop ?k 4 (shadow st) (shadow_for d) (shadow_for a)"
  have "?sh (shadow_for (d + of_nat i)) = shadow st (shadow_for (a + of_nat i))" if i: "i < ?k" for i
  proof -
    have "\<not> in_range 4 (shadow_for d) ?k (shadow_for a + 4 * of_nat j)" if "j < ?k" for j
      using in_range_cells [OF assms(1) app_range_nth(1) [OF assms(2) that]] app_range_nth(3) [OF assms(2) that]
        apart_bytes [OF assms(3) unat_in_bytes [OF assms(2) that]] by simp
    from copy_loop_at [OF i cells_inj(1) [OF assms(1)] this, of "shadow st"]
    show ?thesis using app_range_nth(3) [OF assms(1) i] app_range_nth(3) [OF assms(2) i] by simp
  qed
  moreover have "?sh (shadow_for p) = shadow st (shadow_for p)" if "app p" "\<not> in_bytes d ?k p" for p
    using that in_range_cells [OF assms(1) that(1)] by (simp add: copy_loop_other)
  ultimately show ?thesis using copy_labels_app [OF assms(1,2)] by blast
qed

text \<open>C23. A copy carries the labels with the bytes.  For application buffers that do not overlap \<open>dfsan_memcpy\<close>, the
  work of the wrappers of \<open>memcpy\<close>, \<open>strcpy\<close>, \<open>strcat\<close>, \<open>strdup\<close> and \<open>strncpy\<close>, succeeds, gives the destination both the
  contents and the labels of the source, and leaves contents and labels of all other application memory alone.\<close>

theorem memcpy_copies_labels:
  assumes "app_range d (unat n)" "app_range a (unat n)" "apart d a (unat n)"
  shows "\<exists>s'. dfsan_memcpy st d a n = Some (d, s') \<and> tags s' = tags st \<and>
    (\<forall>i<unat n. mem s' (d + of_nat i) = mem st (a + of_nat i) \<and>
                label_at s' (d + of_nat i) = label_at st (a + of_nat i)) \<and>
    (\<forall>p. app p \<longrightarrow> \<not> in_bytes d (unat n) p \<longrightarrow> mem s' p = mem st p \<and> label_at s' p = label_at st p)"
proof -
  let ?k = "unat n"
  let ?m = "copy_loop ?k 1 (mem st) d a"
  obtain sh where sh: "copy_labels st d a n = Some (st\<lparr>shadow := sh\<rparr>)"
      "\<forall>i<?k. sh (shadow_for (d + of_nat i)) = shadow st (shadow_for (a + of_nat i))"
      "\<forall>p. app p \<longrightarrow> \<not> in_bytes d ?k p \<longrightarrow> sh (shadow_for p) = shadow st (shadow_for p)"
    using copy_labels_effect [OF assms] by blast
  have out: "\<not> in_bytes d ?k (a + of_nat j)" if "j < ?k" for j
    using apart_bytes [OF assms(3) unat_in_bytes [OF assms(2) that]] .
  have b: "?m (d + of_nat i) = mem st (a + of_nat i)" if "i < ?k" for i
    using copy_loop_at [OF that cells_inj(2) [OF assms(1)], of a "mem st"] out in_range_bytes [OF assms(1)] by simp
  have o: "?m p = mem st p" if "\<not> in_bytes d ?k p" for p
    using that in_range_bytes [OF assms(1)] by (simp add: copy_loop_other)
  have "dfsan_memcpy st d a n = Some (d, st\<lparr>shadow := sh, mem := ?m\<rparr>)"
    by (simp add: dfsan_memcpy_def sh(1) internal_memcpy_def)
  then show ?thesis using b o sh(2,3) by (intro exI [of _ "st\<lparr>shadow := sh, mem := ?m\<rparr>"]) (auto simp: label_at_def)
qed

theorem memcpy_copies_labels_witness:
  "\<exists>s'. dfsan_memcpy (rt_start (\<lambda>_. 7)) 0x7fffffffe000 0x700000009000 16 = Some (0x7fffffffe000, s') \<and>
        (\<forall>i<unat (16 :: u64). mem s' (0x7fffffffe000 + of_nat i) = mem (rt_start (\<lambda>_. 7)) (0x700000009000 + of_nat i))"
  using memcpy_copies_labels [where d = "0x7fffffffe000" and a = "0x700000009000" and n = 16 and st = "rt_start (\<lambda>_. 7)"]
  by (auto simp: app_range_def app_unat apart_def)

lemma to_int_inj: "to_int x = to_int y \<longleftrightarrow> x = y"
proof
  assume e: "to_int x = to_int y"
  have "ucast (to_int z) = z" for z
    unfolding to_int_def by (rule bit_word_eqI) (auto simp: bit_simps)
  then show "x = y" using e by metis
qed simp

text \<open>The wrapper of \<open>strcmp\<close> terminates on a terminated string and decides equality: in the strict mode, which
  is the default, it returns 0 exactly if the second string has the same length and the same bytes, its result is
  unlabelled and the state does not change.\<close>

theorem strcmp_decides_equality:
  assumes "strlen (mem st) s1 = Some n" "strict st"
  shows "\<exists>r. dfsw_strcmp st s1 s2 l1 l2 = Some (r, 0, st) \<and>
    (r = 0 \<longleftrightarrow> strlen (mem st) s2 = Some n \<and> (\<forall>i<unat n. mem st (s1 + of_nat i) = mem st (s2 + of_nat i)))"
proof -
  let ?m = "mem st"
  define P where "P = (\<lambda>i. ?m (s1 + i) \<noteq> ?m (s2 + i) \<or> ?m (s1 + i) = 0 \<or> ?m (s2 + i) = 0)"
  have n: "?m (s1 + n) = 0" "\<And>i. i < unat n \<Longrightarrow> ?m (s1 + of_nat i) \<noteq> 0" using strlen_Some [OF assms(1)] by auto
  obtain k where k: "first_index P 0 = Some (0 + of_nat k)" "k \<le> unat n"
    using first_index_total [of P n 0] n(1) by (auto simp: P_def)
  then have Pk: "P (of_nat k)" using first_index_sound [of P 0] by simp
  let ?x = "?m (s1 + of_nat k)" and ?y = "?m (s2 + of_nat k)"
  have u: "unat (of_nat i :: u64) = i" if "i \<le> unat n" for i
    using that le_less_trans [OF that unsigned_less] by (simp add: unat_of_nat)
  obtain k' where k': "(of_nat k :: u64) = of_nat k'" "\<forall>i<k'. \<not> P (of_nat i)"
    using first_index_sound [OF k(1)] by auto
  have "k \<le> k'" using k'(1) u [OF k(2)] by (metis unat_of_nat mod_less_eq_dividend)
  then have before: "\<not> P (of_nat i)" if "i < k" for i using k'(2) that by simp
  have r: "dfsw_strcmp st s1 s2 l1 l2 = Some (to_int ?x - to_int ?y, 0, st)"
    using k(1) assms(2) unfolding dfsw_strcmp_def P_def by (simp add: labelled_def)
  have "?x = ?y \<longleftrightarrow> strlen ?m s2 = Some n \<and> (\<forall>i<unat n. ?m (s1 + of_nat i) = ?m (s2 + of_nat i))"
  proof
    assume e: "?x = ?y"
    then have z: "?x = 0" using Pk by (auto simp: P_def)
    then have kn: "k = unat n" using n(2) [of k] k(2) by (cases "k < unat n") auto
    have "first_index (\<lambda>i. ?m (s2 + i) = 0) 0 = Some (0 + of_nat k)"
      by (rule first_index_steps) (use e z before in \<open>auto simp: P_def\<close>)
    then show "strlen ?m s2 = Some n \<and> (\<forall>i<unat n. ?m (s1 + of_nat i) = ?m (s2 + of_nat i))"
      using before kn by (auto simp: strlen_def P_def)
  next
    assume e: "strlen ?m s2 = Some n \<and> (\<forall>i<unat n. ?m (s1 + of_nat i) = ?m (s2 + of_nat i))"
    show "?x = ?y"
    proof (cases "k < unat n")
      case True
      then show ?thesis using e by blast
    next
      case False
      then have "of_nat k = n" using k(2) by simp
      then show ?thesis using n(1) strlen_Some [OF conjunct1 [OF e]] by simp
    qed
  qed
  then show ?thesis using r to_int_inj [of ?x ?y] by auto
qed

definition sample_mem :: "(u64 \<times> string) list \<Rightarrow> memory" where
  "sample_mem xs a = (case find (\<lambda>(p, t). p \<le> a \<and> a < p + of_nat (length t)) xs of
     None \<Rightarrow> 0 | Some (p, t) \<Rightarrow> of_char (t ! unat (a - p)))"

theorem strcmp_decides_equality_witness:
  "\<exists>r. dfsw_strcmp (rt_start (sample_mem [(0x700000009000, ''ab''), (0x70000000a000, ''ac'')]))
         0x700000009000 0x70000000a000 0 0
       = Some (r, 0, rt_start (sample_mem [(0x700000009000, ''ab''), (0x70000000a000, ''ac'')])) \<and> r \<noteq> 0"
proof -
  let ?m = "sample_mem [(0x700000009000, ''ab''), (0x70000000a000, ''ac'')]"
  have l: "strlen (mem (rt_start ?m)) 0x700000009000 = Some 2" by code_simp
  have d: "?m (0x700000009000 + of_nat 1) \<noteq> ?m (0x70000000a000 + of_nat 1)" by code_simp
  have "strict (rt_start ?m)" by (simp add: rt_start_def SetDefaults_def)
  from strcmp_decides_equality [OF l this, of "0x70000000a000" 0 0]
  obtain r where r: "dfsw_strcmp (rt_start ?m) 0x700000009000 0x70000000a000 0 0 = Some (r, 0, rt_start ?m)"
    "r = 0 \<Longrightarrow> (\<forall>i<unat (2 :: u64). ?m (0x700000009000 + of_nat i) = ?m (0x70000000a000 + of_nat i))"
    by (auto simp: rt_start_def)
  have "r \<noteq> 0" using r(2) [rule_format, of 1] d by auto
  with r(1) show ?thesis by blast
qed

text \<open>A conversion of a wrong parameter order: \<open>__dfsw_strtoull\<close> declares the label of the string where its caller
  passes the base, so that it converts with the label of the string pointer as the base and ignores the base: it does
  what the wrapper of \<open>strtoul\<close> does for the base \<open>nptr_label\<close>.  For an unlabelled pointer that is base 0.\<close>

theorem strtoull_converts_with_label:
  "dfsw_strtoull conv st nptr endptr base nptr_label endptr_label base_label =
   dfsw_strtoul conv st nptr endptr nptr_label l endptr_label base_label"
  by (simp add: dfsw_strtoull_def dfsw_strtoul_def)

text \<open>The wrapper of \<open>select\<close> clears the labels of \<open>timeout\<close> without the test for null that the three sets have:
  a call that waits without a timeout faults in the shadow of address 0, whatever \<open>select\<close> returns.\<close>

theorem select_without_timeout_faults:
  "dfsw_select sel st nfds readfds writefds exceptfds 0 = None"
proof -
  have z: "dfsan_set_label t 0 0 16 = None" for t
  proof -
    have "\<not> cell_ok (shadow_for 0)" by code_simp
    moreover have "unat (16 :: u64) = Suc 15" by simp
    ultimately show ?thesis unfolding dfsan_set_label_def by (simp only: set_label_loop.simps) simp
  qed
  show ?thesis by (auto simp: dfsw_select_def z Let_def split: prod.split option.split bind_split)
qed
end
