(* ===== verification/Dfsan_Format.thy ===== *)
theory Dfsan_Format
  imports Dfsan_Custom
begin

text \<open>
  The formatted output of \<^verbatim>\<open>dfsan_custom.cc\<close>: \<open>format_buffer\<close> cuts the format into literal chunks and single
  directives, lets \<open>snprintf\<close> format each of them, and labels the bytes each one produced.  \<open>snprintf\<close> is an
  argument: for a destination, the space left, a format and the arguments it gives the returned number and the
  memory.  The variable arguments are a list; taking an argument of the wrong kind, or one that is not there, is
  \<open>None\<close>, as is reading a label past the end of \<open>va_labels\<close>.
\<close>

datatype va = VInt u64 | VDouble u64 | VLongDouble "80 word"

type_synonym snprintf = "u64 \<Rightarrow> u64 \<Rightarrow> u8 list \<Rightarrow> va list \<Rightarrow> memory \<Rightarrow> u32 \<times> memory"

text \<open>The \<open>Formatter\<close> and, beside it, what is left of the arguments and of their labels, and the state.\<close>

record Formatter =
  str :: u64
  str_off :: u64
  fsize :: u64
  fmt_start :: u64
  fmt_cur :: u64
  width :: u32
  ap :: "va list"
  va_labels :: "u32 list"
  st_of :: rt

definition Formatter_new :: "rt \<Rightarrow> u64 \<Rightarrow> u64 \<Rightarrow> u64 \<Rightarrow> u32 list \<Rightarrow> va list \<Rightarrow> Formatter" where
  "Formatter_new st s fmt n labels args =
     \<lparr>str = s, str_off = 0, fsize = n, fmt_start = fmt, fmt_cur = fmt, width = - 1, ap = args, va_labels = labels, st_of = st\<rparr>"

definition num_avail :: "Formatter \<Rightarrow> u64" where
  "num_avail f = (if str_off f < fsize f then fsize f - str_off f else 0)"

definition build_format_string :: "Formatter \<Rightarrow> u8 list" where
  "build_format_string f =
     map (\<lambda>i. mem (st_of f) (fmt_start f + of_nat i)) [0..<unat (fmt_cur f - fmt_start f + 1)]"

definition str_cur :: "Formatter \<Rightarrow> u64" where
  "str_cur f = str f + str_off f"

definition run_snprintf :: "snprintf \<Rightarrow> Formatter \<Rightarrow> va list \<Rightarrow> u32 \<times> Formatter" where
  "run_snprintf snprintf f args =
     (let (r, m) = snprintf (str_cur f) (num_avail f) (build_format_string f) args (mem (st_of f))
      in (r, f\<lparr>st_of := (st_of f)\<lparr>mem := m\<rparr>\<rparr>))"

definition format0 :: "snprintf \<Rightarrow> Formatter \<Rightarrow> u32 \<times> Formatter" where
  "format0 snprintf f = run_snprintf snprintf f [VInt 0]"

definition format1 :: "snprintf \<Rightarrow> Formatter \<Rightarrow> va \<Rightarrow> u32 \<times> Formatter" where
  "format1 snprintf f arg =
     (if sint (width f) \<ge> 0 then run_snprintf snprintf f [VInt (ucast (width f)), arg] else run_snprintf snprintf f [arg])"

definition num_written_bytes :: "Formatter \<Rightarrow> u32 \<Rightarrow> u64" where
  "num_written_bytes f retval =
     (if sint retval < 0 then 0
      else if num_avail f = 0 then 0
      else let num_written = ucast retval in
        if num_written \<ge> num_avail f then num_written - num_avail f else num_written)"

section \<open>Directives\<close>

text \<open>\<open>va_arg\<close> for the integer, floating point and pointer types.\<close>

fun va_int :: "va list \<Rightarrow> (va \<times> va list) option" where
  "va_int (VInt v # vs) = Some (VInt (ucast (ucast v :: u32)), vs)"
| "va_int _ = None"

fun va_word :: "va list \<Rightarrow> (u64 \<times> va list) option" where
  "va_word (VInt v # vs) = Some (v, vs)"
| "va_word _ = None"

fun va_double :: "va list \<Rightarrow> (va \<times> va list) option" where
  "va_double (VDouble v # vs) = Some (VDouble v, vs)"
| "va_double _ = None"

fun va_long_double :: "va list \<Rightarrow> (va \<times> va list) option" where
  "va_long_double (VLongDouble v # vs) = Some (VLongDouble v, vs)"
| "va_long_double _ = None"

abbreviation va_long :: "va list \<Rightarrow> (va \<times> va list) option" where
  "va_long vs \<equiv> map_option (\<lambda>(v, vs'). (VInt v, vs')) (va_word vs)"

text \<open>\<^verbatim>\<open>*va_labels++\<close>\<close>

definition next_label :: "Formatter \<Rightarrow> (u32 \<times> Formatter) option" where
  "next_label f = (case va_labels f of [] \<Rightarrow> None | l # ls \<Rightarrow> Some (l, f\<lparr>va_labels := ls\<rparr>))"

definition set_out_label :: "Formatter \<Rightarrow> u32 \<Rightarrow> u32 \<Rightarrow> Formatter option" where
  "set_out_label f l retval =
     map_option (\<lambda>s. f\<lparr>st_of := s\<rparr>) (dfsan_set_label (st_of f) l (str_cur f) (num_written_bytes f retval))"

text \<open>A directive that consumes one argument and labels its output with the label of the argument.\<close>

definition value_directive ::
  "snprintf \<Rightarrow> (va list \<Rightarrow> (va \<times> va list) option) \<Rightarrow> Formatter \<Rightarrow> (u32 \<times> Formatter) option"
where
  "value_directive snprintf va_arg f = do {
     (arg, vs) \<leftarrow> va_arg (ap f);
     let (retval, f1) = format1 snprintf (f\<lparr>ap := vs\<rparr>) arg;
     (l, f2) \<leftarrow> next_label f1;
     f3 \<leftarrow> set_out_label f2 l retval;
     Some (retval, f3)
   }"

definition literal :: "snprintf \<Rightarrow> Formatter \<Rightarrow> (u32 \<times> Formatter) option" where
  "literal snprintf f = do {
     let (retval, f1) = format0 snprintf f;
     f2 \<leftarrow> set_out_label f1 0 retval;
     Some (retval, f2)
   }"

definition string_directive :: "snprintf \<Rightarrow> Formatter \<Rightarrow> (u32 \<times> Formatter) option" where
  "string_directive snprintf f = do {
     (arg, vs) \<leftarrow> va_word (ap f);
     let (retval, f1) = format1 snprintf (f\<lparr>ap := vs\<rparr>) (VInt arg);
     s \<leftarrow> copy_labels (st_of f1) (str_cur f1) arg (num_written_bytes f1 retval);
     Some (retval, f1\<lparr>va_labels := drop 1 (va_labels f1), st_of := s\<rparr>)
   }"

definition store32 :: "memory \<Rightarrow> u64 \<Rightarrow> u32 \<Rightarrow> memory" where
  "store32 m a v = fold (\<lambda>i m. m(a + of_nat i := ucast (drop_bit (8 * i) v))) [0..<4] m"

definition count_directive :: "Formatter \<Rightarrow> (u32 \<times> Formatter) option" where
  "count_directive f = do {
     (ptr, vs) \<leftarrow> va_word (ap f);
     let s = (st_of f)\<lparr>mem := store32 (mem (st_of f)) ptr (ucast (str_off f))\<rparr>;
     s1 \<leftarrow> dfsan_set_label s 0 ptr 8;
     Some (0, f\<lparr>ap := vs, va_labels := drop 1 (va_labels f), st_of := s1\<rparr>)
   }"

text \<open>The type of an integer argument follows from the characters before the conversion; \<open>long\<close>, \<open>long long\<close>,
  \<open>intmax_t\<close> and \<open>size_t\<close> are 64 bits wide.\<close>

definition int_type :: "Formatter \<Rightarrow> va list \<Rightarrow> (va \<times> va list) option" where
  "int_type f = (
     let p = mem (st_of f) (fmt_cur f - 1) in
     if p = 104 then va_int
     else if p = 108 then va_long
     else if p = 113 then va_long
     else if p = 106 then va_long
     else if p = 122 \<or> p = 116 then va_long
     else va_int)"

text \<open>One round of the inner loop: whether the directive has ended, the returned number and the formatter.\<close>

definition directive :: "snprintf \<Rightarrow> u32 \<Rightarrow> Formatter \<Rightarrow> (bool \<times> u32 \<times> Formatter) option" where
  "directive snprintf retval f0 = (
     let f = f0\<lparr>fmt_cur := fmt_cur f0 + 1\<rparr>; c = mem (st_of f) (fmt_cur f);
         ends = map_option (Pair True)
     in if c \<in> {100, 105, 111, 117, 120, 88} then ends (value_directive snprintf (int_type f) f)
        else if c \<in> {97, 65, 101, 69, 102, 70, 103, 71}
        then ends (value_directive snprintf (if mem (st_of f) (fmt_cur f - 1) = 76 then va_long_double else va_double) f)
        else if c = 99 then ends (value_directive snprintf va_int f)
        else if c = 115 then ends (string_directive snprintf f)
        else if c = 112 then ends (value_directive snprintf va_long f)
        else if c = 110 then ends (map_option (\<lambda>(_, g). (retval, g)) (count_directive f))
        else if c = 37 then ends (literal snprintf f)
        else if c = 42
        then do {
          (w, vs) \<leftarrow> va_word (ap f);
          Some (False, retval, f\<lparr>width := ucast w, ap := vs, va_labels := drop 1 (va_labels f)\<rparr>)
        }
        else Some (False, retval, f))"

partial_function (option) directive_loop :: "snprintf \<Rightarrow> u32 \<Rightarrow> Formatter \<Rightarrow> (u32 \<times> Formatter) option" where
  [code]: "directive_loop snprintf retval f =
     (if mem (st_of f) (fmt_cur f) = 0 then Some (retval, f)
      else do {
        (end_fmt, r, f1) \<leftarrow> directive snprintf retval f;
        if end_fmt then Some (r, f1) else directive_loop snprintf r f1
      })"

section \<open>The loop over the format\<close>

definition chunk :: "snprintf \<Rightarrow> Formatter \<Rightarrow> (u32 \<times> Formatter) option" where
  "chunk snprintf f0 = (
     let f = f0\<lparr>fmt_start := fmt_cur f0, width := - 1\<rparr>; m = mem (st_of f) in
     if m (fmt_cur f) \<noteq> 37 then do {
       j \<leftarrow> first_index (\<lambda>j. m (j + 1) = 0 \<or> m (j + 1) = 37) (fmt_cur f);
       literal snprintf (f\<lparr>fmt_cur := j\<rparr>)
     } else directive_loop snprintf 0 f)"

text \<open>A negative number ends the loop before \<open>ret_label\<close> is written: \<open>rl\<close> is its previous contents.\<close>

partial_function (option) format_loop :: "snprintf \<Rightarrow> u32 \<Rightarrow> Formatter \<Rightarrow> u32 wrapped" where
  [code]: "format_loop snprintf rl f =
     (if mem (st_of f) (fmt_cur f) = 0 then Some (ucast (str_off f), 0, st_of f)
      else do {
        (retval, f1) \<leftarrow> chunk snprintf f;
        if sint retval < 0 then Some (retval, rl, st_of f1)
        else format_loop snprintf rl (f1\<lparr>fmt_cur := fmt_cur f1 + 1, str_off := str_off f1 + ucast retval\<rparr>)
      })"

definition format_buffer :: "snprintf \<Rightarrow> rt \<Rightarrow> u64 \<Rightarrow> u64 \<Rightarrow> u64 \<Rightarrow> u32 list \<Rightarrow> u32 \<Rightarrow> va list \<Rightarrow> u32 wrapped" where
  "format_buffer snprintf st s n fmt labels rl args = format_loop snprintf rl (Formatter_new st s fmt n labels args)"

definition dfsw_sprintf ::
  "snprintf \<Rightarrow> rt \<Rightarrow> u64 \<Rightarrow> u64 \<Rightarrow> u32 \<Rightarrow> u32 \<Rightarrow> u32 list \<Rightarrow> u32 \<Rightarrow> va list \<Rightarrow> u32 wrapped"
where
  "dfsw_sprintf snprintf st s fmt str_label format_label labels rl args = format_buffer snprintf st s (- 1) fmt labels rl args"

definition dfsw_snprintf ::
  "snprintf \<Rightarrow> rt \<Rightarrow> u64 \<Rightarrow> u64 \<Rightarrow> u64 \<Rightarrow> u32 \<Rightarrow> u32 \<Rightarrow> u32 \<Rightarrow> u32 list \<Rightarrow> u32 \<Rightarrow> va list \<Rightarrow> u32 wrapped"
where
  "dfsw_snprintf snprintf st s n fmt str_label size_label format_label labels rl args =
     format_buffer snprintf st s n fmt labels rl args"

section \<open>Properties\<close>

lemma format_loop_end: "mem (st_of f) (fmt_cur f) = 0 \<Longrightarrow> format_loop sp rl f = Some (ucast (str_off f), 0, st_of f)"
  by (subst format_loop.simps) simp

lemma format_loop_chunk:
  "mem (st_of f) (fmt_cur f) \<noteq> 0 \<Longrightarrow> chunk sp f = Some (r, f1) \<Longrightarrow> sint r \<ge> 0 \<Longrightarrow>
   format_loop sp rl f = format_loop sp rl (f1\<lparr>fmt_cur := fmt_cur f1 + 1, str_off := str_off f1 + ucast r\<rparr>)"
  by (subst format_loop.simps) simp

lemma directive_loop_step:
  "mem (st_of f) (fmt_cur f) \<noteq> 0 \<Longrightarrow> directive sp r f = Some (True, r', f') \<Longrightarrow> directive_loop sp r f = Some (r', f')"
  by (subst directive_loop.simps) simp

lemma sint_ucast_64: "sint r \<ge> 0 \<Longrightarrow> ucast (ucast r :: u64) = r" for r :: u32
  by (rule bit_word_eqI) (auto simp: bit_simps)

text \<open>Formatting a string argument.  For the format \<open>%s\<close> and an output that fits, the result of \<open>__dfsw_snprintf\<close> is
  the number \<open>snprintf\<close> returned, unlabelled, and exactly the labels of the argument string are copied to the output:
  the label of the pointer to the string plays no part.  \<open>snprintf\<close> is assumed to leave the format alone.\<close>

theorem format_string_copies_labels:
  assumes "mem st fmt = 37" "mem st (fmt + 1) = 115" "mem st (fmt + 2) = 0"
    and "snprintf d n [37, 115] [VInt arg] (mem st) = (r, m')" "m' (fmt + 2) = 0"
    and "sint r \<ge> 0" "ucast r < n"
  shows "dfsw_snprintf snprintf st d n fmt l1 l2 l3 (l # ls) rl (VInt arg # vs) =
    map_option (\<lambda>s. (r, 0, s)) (copy_labels (st\<lparr>mem := m'\<rparr>) d arg (ucast r))"
proof -
  let ?start = "Formatter_new st d fmt n (l # ls) (VInt arg # vs)"
  let ?f = "?start\<lparr>fmt_start := fmt, width := - 1\<rparr>"
  let ?g = "?f\<lparr>fmt_cur := fmt + 1\<rparr>"
  let ?f1 = "?g\<lparr>ap := vs, st_of := st\<lparr>mem := m'\<rparr>\<rparr>"
  have w: "\<not> sint (width (?g\<lparr>ap := vs\<rparr>)) \<ge> 0" by (simp add: Formatter_new_def)
  have avail: "num_avail (?g\<lparr>ap := vs\<rparr>) = n" "num_avail ?f1 = n"
    using assms(7) by (auto simp: num_avail_def Formatter_new_def word_gt_0 intro: word_not_simps)
  have b: "build_format_string (?g\<lparr>ap := vs\<rparr>) = [37, 115]"
    using assms(1,2) by (simp add: build_format_string_def Formatter_new_def upt_rec)
  have "run_snprintf snprintf (?g\<lparr>ap := vs\<rparr>) [VInt arg] = (r, ?f1)"
    unfolding run_snprintf_def avail b using assms(4) by (simp add: Formatter_new_def str_cur_def)
  then have f1: "format1 snprintf (?g\<lparr>ap := vs\<rparr>) (VInt arg) = (r, ?f1)" unfolding format1_def using w by simp
  have nw: "num_written_bytes ?f1 r = ucast r"
    using assms(6,7) unfolding num_written_bytes_def avail by (auto simp: Let_def)
  have sd: "string_directive snprintf ?g =
      map_option (\<lambda>s. (r, ?f1\<lparr>va_labels := ls, st_of := s\<rparr>)) (copy_labels (st\<lparr>mem := m'\<rparr>) d arg (ucast r))"
    unfolding string_directive_def using f1 nw
    by (cases "copy_labels (st\<lparr>mem := m'\<rparr>) d arg (ucast r)") (simp_all add: Formatter_new_def str_cur_def)
  show ?thesis
  proof (cases "copy_labels (st\<lparr>mem := m'\<rparr>) d arg (ucast r)")
    case None
    then have "directive snprintf 0 ?f = None" using assms(2) sd by (simp add: directive_def Formatter_new_def)
    then have "directive_loop snprintf 0 ?f = None"
      using assms(1) by (subst directive_loop.simps) (simp add: Formatter_new_def)
    then have "chunk snprintf ?start = None" using assms(1) by (simp add: chunk_def Formatter_new_def)
    then show ?thesis using None assms(1)
      by (simp add: dfsw_snprintf_def format_buffer_def) (subst format_loop.simps, simp add: Formatter_new_def)
  next
    case (Some s)
    let ?f2 = "?f1\<lparr>va_labels := ls, st_of := s\<rparr>"
    have ms: "mem s = m'" using Some by (auto simp: copy_labels_def Let_def split: if_splits)
    have "directive snprintf 0 ?f = Some (True, r, ?f2)" using assms(2) sd Some by (simp add: directive_def Formatter_new_def)
    then have "directive_loop snprintf 0 ?f = Some (r, ?f2)"
      by (intro directive_loop_step) (use assms(1) in \<open>simp add: Formatter_new_def\<close>)
    then have "chunk snprintf ?start = Some (r, ?f2)" using assms(1) by (simp add: chunk_def Formatter_new_def)
    then have "format_loop snprintf rl ?start = format_loop snprintf rl (?f2\<lparr>fmt_cur := fmt_cur ?f2 + 1, str_off := str_off ?f2 + ucast r\<rparr>)"
      by (intro format_loop_chunk) (use assms(1,6) in \<open>simp_all add: Formatter_new_def\<close>)
    also have "\<dots> = Some (ucast (ucast r :: u64), 0, s)"
      by (subst format_loop_end) (use assms(5) ms in \<open>simp_all add: Formatter_new_def add.commute\<close>)
    finally have "format_loop snprintf rl ?start = Some (ucast (ucast r :: u64), 0, s)" by (simp add: Formatter_new_def)
    then show ?thesis using Some sint_ucast_64 [OF assms(6)] by (simp add: dfsw_snprintf_def format_buffer_def)
  qed
qed
text \<open>An \<open>snprintf\<close> that knows \<open>%s\<close> and ordinary characters.\<close>

definition sample_snprintf :: snprintf where
  "sample_snprintf d n fmt args m = (
     let t = (case args of
                [VInt a] \<Rightarrow> if fmt = [37, 115]
                  then (case strlen m a of None \<Rightarrow> [] | Some k \<Rightarrow> map (\<lambda>i. m (a + of_nat i)) [0..<unat k]) else fmt
              | _ \<Rightarrow> fmt)
     in (of_nat (length t),
         if n = 0 then m
         else fold (\<lambda>(i, c) m. m(d + of_nat i := c)) (enumerate 0 (take (unat n - 1) t @ [0])) m))"

definition sample_st :: rt where
  "sample_st = (rt_start (sample_mem [(0x700000009000, ''%s''), (0x70000000a000, ''hey''), (0x70000000b000, ''0123456789'')]))
     \<lparr>shadow := (\<lambda>c. if c = shadow_for 0x70000000a001 then 5 else if c = shadow_for 0x70000000c005 then 9 else 0)\<rparr>"

theorem format_string_copies_labels_witness:
  "dfsw_snprintf sample_snprintf sample_st 0x70000000c000 8 0x700000009000 0 0 0 [1] 0 [VInt 0x70000000a000] =
   map_option (\<lambda>s. (3, 0, s)) (copy_labels
     (sample_st\<lparr>mem := snd (sample_snprintf 0x70000000c000 8 [37, 115] [VInt 0x70000000a000] (mem sample_st))\<rparr>)
     0x70000000c000 0x70000000a000 3)"
proof -
  let ?p = "sample_snprintf 0x70000000c000 8 [37, 115] [VInt 0x70000000a000] (mem sample_st)"
  have r: "fst ?p = 3" by code_simp
  have e: "snd ?p (0x700000009000 + 2) = 0" by code_simp
  have p: "?p = (3, snd ?p)" using r by (simp add: prod_eq_iff)
  have m: "mem sample_st 0x700000009000 = 37" "mem sample_st (0x700000009000 + 1) = 115" "mem sample_st (0x700000009000 + 2) = 0"
    by code_simp+
  from format_string_copies_labels [where st = sample_st and snprintf = sample_snprintf and d = "0x70000000c000" and n = 8
      and r = 3 and m' = "snd ?p" and fmt = "0x700000009000" and arg = "0x70000000a000" and ls = "[]" and vs = "[]" and l = 1 and rl = 0, OF m p e]
  show ?thesis by simp
qed

text \<open>Truncated output is labelled wrongly.  \<open>num_written_bytes\<close> subtracts the space that was available from the
  number returned where it should limit it: formatting ten characters into a buffer of two bytes relabels eight bytes,
  so the label of a byte outside of the buffer is lost (here the one five bytes after its start).\<close>

theorem truncation_labels_past_buffer:
  "label_at sample_st 0x70000000c005 = 9 \<and>
   map_option (\<lambda>(r, l, s). (r, label_at s 0x70000000c005))
     (dfsw_snprintf sample_snprintf sample_st 0x70000000c000 2 0x70000000b000 0 0 0 [] 0 []) = Some (10, 0)"
  by code_simp

text \<open>A format that ends inside a directive is read past its end.  The inner loop stops on the terminator and the
  outer loop then steps over it: with the format \<open>%\<close> the text behind the terminator, here \<open>A\<close>, is formatted too.\<close>

theorem incomplete_directive_reads_past_end:
  "map_option (\<lambda>(r, l, s). (r, mem s 0x70000000c000))
     (dfsw_snprintf sample_snprintf (rt_start (sample_mem [(0x700000009000, [CHR ''%'', CHR 0x00, CHR ''A''])]))
        0x70000000c000 8 0x700000009000 0 0 0 [] 0 []) = Some (1, 65)"
  by code_simp
end
