(* ===== verification/Dfsan_Contract.thy ===== *)
theory Dfsan_Contract
  imports Dfsan_Format
begin

text \<open>
  What the wrappers of the C library preserve.  They touch labels only through the operations of
  \<^verbatim>\<open>dfsan.cc\<close>, so a property of the state that those operations keep is kept by every wrapper: the locale
  \<open>taint_contract\<close> states what the operations promise, and one lemma per wrapper follows inside it.  It is
  interpreted twice: every label in the shadow is a node of the label store, and a program that reads no input
  has no labels at all.
\<close>

section \<open>Computations of the runtime\<close>

lemma holds_labelled [wp]: "holds (labelled r x) Q \<longleftrightarrow> holds x (\<lambda>(l, s). Q (r, l, s))"
  by (cases x) (auto simp: labelled_def holds_def)

text \<open>Computations that only read memory.\<close>

lemma holds_scan [wp_op]:
  "(\<And>y. Q y) \<Longrightarrow> holds (first_index P i) Q"
  "(\<And>y. Q y) \<Longrightarrow> holds (strlen m a) Q"
  "(\<And>y. Q y) \<Longrightarrow> holds (strrchr m a c) Q"
  "(\<And>y. Q y) \<Longrightarrow> holds (strstr m a b) Q"
  by (simp_all add: holds_def)

lemma holds_pure [wp_op]:
  "(\<And>y. Q' y) \<Longrightarrow> holds (RoundUpTo n b) Q'"
  "(\<And>y. R y) \<Longrightarrow> holds (strcpy m a d) R"
  by (simp_all add: holds_def)

text \<open>The result of a wrapper called in the state \<open>st\<close>: the property of states holds again, the label of the result
  is good, and labels that were good still are.\<close>

definition sound :: "(rt \<Rightarrow> bool) \<Rightarrow> (rt \<Rightarrow> u32 \<Rightarrow> bool) \<Rightarrow> rt \<Rightarrow> 'r wrapped \<Rightarrow> bool" where
  "sound okay good st x \<longleftrightarrow> holds x (\<lambda>(r, l, s'). okay s' \<and> good s' l \<and> (\<forall>y. good st y \<longrightarrow> good s' y))"

text \<open>The same for a formatter: its state and the labels of the arguments that are left.\<close>

definition fmt_ok :: "(rt \<Rightarrow> bool) \<Rightarrow> (rt \<Rightarrow> u32 \<Rightarrow> bool) \<Rightarrow> Formatter \<Rightarrow> bool" where
  "fmt_ok okay good f \<longleftrightarrow> okay (st_of f) \<and> list_all (good (st_of f)) (va_labels f)"

definition fmt_rel :: "(rt \<Rightarrow> bool) \<Rightarrow> (rt \<Rightarrow> u32 \<Rightarrow> bool) \<Rightarrow> Formatter \<Rightarrow> Formatter \<Rightarrow> bool" where
  "fmt_rel okay good f g \<longleftrightarrow> fmt_ok okay good g \<and> (\<forall>x. good (st_of f) x \<longrightarrow> good (st_of g) x)"

section \<open>Programs\<close>

text \<open>One call of the instrumented program, which holds values with the labels \<open>L\<close>: the label of the value returned
  and the new state.  The labels passed are labels the program holds.  A \<open>write\<close> with a registered callback and
  \<open>dl_iterate_phdr\<close> run code of the program in between and are not single steps.\<close>

inductive dfsw_call :: "u32 set \<Rightarrow> rt \<Rightarrow> u32 \<Rightarrow> rt \<Rightarrow> bool" for L :: "u32 set" and s :: rt where
  strchr: "dfsw_strchr s a c l1 l2 = Some (r, l, s') \<Longrightarrow> {l1, l2} \<subseteq> L \<Longrightarrow> dfsw_call L s l s'"
| strlen: "dfsw_strlen s a l1 = Some (r, l, s') \<Longrightarrow> l1 \<in> L \<Longrightarrow> dfsw_call L s l s'"
| memchr: "dfsw_memchr s a c n l1 l2 l3 = Some (r, l, s') \<Longrightarrow> {l1, l2, l3} \<subseteq> L \<Longrightarrow> dfsw_call L s l s'"
| strrchr: "dfsw_strrchr s a c l1 l2 = Some (r, l, s') \<Longrightarrow> {l1, l2} \<subseteq> L \<Longrightarrow> dfsw_call L s l s'"
| strstr: "dfsw_strstr s a b l1 l2 = Some (r, l, s') \<Longrightarrow> {l1, l2} \<subseteq> L \<Longrightarrow> dfsw_call L s l s'"
| memcmp: "dfsw_memcmp s a b n l1 l2 l3 = Some (r', l, s') \<Longrightarrow> {l1, l2, l3} \<subseteq> L \<Longrightarrow> dfsw_call L s l s'"
| strcmp: "dfsw_strcmp s a b l1 l2 = Some (r', l, s') \<Longrightarrow> {l1, l2} \<subseteq> L \<Longrightarrow> dfsw_call L s l s'"
| strcasecmp: "dfsw_strcasecmp s a b l1 l2 = Some (r', l, s') \<Longrightarrow> {l1, l2} \<subseteq> L \<Longrightarrow> dfsw_call L s l s'"
| strncmp: "dfsw_strncmp s a b n l1 l2 l3 = Some (r', l, s') \<Longrightarrow> {l1, l2, l3} \<subseteq> L \<Longrightarrow> dfsw_call L s l s'"
| strncasecmp: "dfsw_strncasecmp s a b n l1 l2 l3 = Some (r', l, s') \<Longrightarrow> {l1, l2, l3} \<subseteq> L \<Longrightarrow> dfsw_call L s l s'"
| memcpy: "dfsw_memcpy s d a n l1 l2 l3 = Some (r, l, s') \<Longrightarrow> {l1, l2, l3} \<subseteq> L \<Longrightarrow> dfsw_call L s l s'"
| mempcpy_chk: "dfsw_mempcpy_chk s d a n k l1 l2 l3 l4 = Some (r, l, s') \<Longrightarrow> {l1, l2, l3, l4} \<subseteq> L \<Longrightarrow> dfsw_call L s l s'"
| memset: "dfsw_memset s d c n l1 l2 l3 = Some (r, l, s') \<Longrightarrow> {l1, l2, l3} \<subseteq> L \<Longrightarrow> dfsw_call L s l s'"
| strcat: "dfsw_strcat s d a l1 l2 = Some (r, l, s') \<Longrightarrow> {l1, l2} \<subseteq> L \<Longrightarrow> dfsw_call L s l s'"
| strncpy: "dfsw_strncpy s d a n l1 l2 l3 = Some (r, l, s') \<Longrightarrow> {l1, l2, l3} \<subseteq> L \<Longrightarrow> dfsw_call L s l s'"
| strcpy: "dfsw_strcpy s d a l1 l2 = Some (r, l, s') \<Longrightarrow> {l1, l2} \<subseteq> L \<Longrightarrow> dfsw_call L s l s'"
| stpcpy: "dfsw_stpcpy s d a l1 l2 = Some (r, l, s') \<Longrightarrow> {l1, l2} \<subseteq> L \<Longrightarrow> dfsw_call L s l s'"
| strdup: "dfsw_strdup malloc s a l1 = Some (r, l, s') \<Longrightarrow> l1 \<in> L \<Longrightarrow> dfsw_call L s l s'"
| strdup': "dfsw___strdup malloc s a l1 = Some (r, l, s') \<Longrightarrow> l1 \<in> L \<Longrightarrow> dfsw_call L s l s'"
| strndup: "dfsw___strndup malloc s a n l1 l2 = Some (r, l, s') \<Longrightarrow> {l1, l2} \<subseteq> L \<Longrightarrow> dfsw_call L s l s'"
| strtol: "dfsw_strtol conv s a e base l1 l2 l3 = Some (r, l, s') \<Longrightarrow> {l1, l2, l3} \<subseteq> L \<Longrightarrow> dfsw_call L s l s'"
| strtoll: "dfsw_strtoll conv s a e base l1 l2 l3 = Some (r, l, s') \<Longrightarrow> {l1, l2, l3} \<subseteq> L \<Longrightarrow> dfsw_call L s l s'"
| strtoul: "dfsw_strtoul conv s a e base l1 l2 l3 = Some (r, l, s') \<Longrightarrow> {l1, l2, l3} \<subseteq> L \<Longrightarrow> dfsw_call L s l s'"
| strtoull: "dfsw_strtoull conv s a e base l1 l2 l3 = Some (r, l, s') \<Longrightarrow> {l1, l2, l3} \<subseteq> L \<Longrightarrow> dfsw_call L s l s'"
| strtod: "dfsw_strtod conv' s a e l1 l2 = Some (r, l, s') \<Longrightarrow> {l1, l2} \<subseteq> L \<Longrightarrow> dfsw_call L s l s'"
| clock_gettime: "dfsw_clock_gettime f2 s x2 p l1 l2 = Some (r', l, s') \<Longrightarrow> {l1, l2} \<subseteq> L \<Longrightarrow> dfsw_call L s l s'"
| getrlimit: "dfsw_getrlimit f2 s x2 p l1 l2 = Some (r', l, s') \<Longrightarrow> {l1, l2} \<subseteq> L \<Longrightarrow> dfsw_call L s l s'"
| getrusage: "dfsw_getrusage f2 s x2 p l1 l2 = Some (r', l, s') \<Longrightarrow> {l1, l2} \<subseteq> L \<Longrightarrow> dfsw_call L s l s'"
| time: "dfsw_time f1 s p l1 = Some (r, l, s') \<Longrightarrow> l1 \<in> L \<Longrightarrow> dfsw_call L s l s'"
| poll: "dfsw_poll fp s p n x2 l1 l2 l3 = Some (r', l, s') \<Longrightarrow> {l1, l2, l3} \<subseteq> L \<Longrightarrow> dfsw_call L s l s'"
| select: "dfsw_select fs s x2 p q r t = Some (r', l, s') \<Longrightarrow> dfsw_call L s l s'"
| sched_getaffinity: "dfsw_sched_getaffinity fa s x2 n p l1 l2 l3 = Some (r', l, s') \<Longrightarrow> {l1, l2, l3} \<subseteq> L \<Longrightarrow> dfsw_call L s l s'"
| sigaction: "dfsw_sigaction fa s x2 q p l1 l2 l3 = Some (r', l, s') \<Longrightarrow> {l1, l2, l3} \<subseteq> L \<Longrightarrow> dfsw_call L s l s'"
| gettimeofday: "dfsw_gettimeofday fg s p q l1 l2 = Some (r', l, s') \<Longrightarrow> {l1, l2} \<subseteq> L \<Longrightarrow> dfsw_call L s l s'"
| nanosleep: "dfsw_nanosleep fg s p q l1 l2 = Some (r', l, s') \<Longrightarrow> {l1, l2} \<subseteq> L \<Longrightarrow> dfsw_call L s l s'"
| socketpair: "dfsw_socketpair fk s x2 x3 x4 p l1 l2 l3 l4 = Some (r', l, s') \<Longrightarrow> {l1, l2, l3, l4} \<subseteq> L \<Longrightarrow> dfsw_call L s l s'"
| dlopen: "dfsw_dlopen page fd lm s p x l1 l2 = Some (r, l, s') \<Longrightarrow> {l1, l2} \<subseteq> L \<Longrightarrow> dfsw_call L s l s'"
| ctime_r: "dfsw_ctime_r fc s p q l1 l2 = Some (r, l, s') \<Longrightarrow> {l1, l2} \<subseteq> L \<Longrightarrow> dfsw_call L s l s'"
| getcwd: "dfsw_getcwd fc s p n l1 l2 = Some (r, l, s') \<Longrightarrow> {l1, l2} \<subseteq> L \<Longrightarrow> dfsw_call L s l s'"
| get_current_dir_name: "dfsw_get_current_dir_name f0 s = Some (r, l, s') \<Longrightarrow> dfsw_call L s l s'"
| gethostname: "dfsw_gethostname fh s p n l1 l2 = Some (r', l, s') \<Longrightarrow> {l1, l2} \<subseteq> L \<Longrightarrow> dfsw_call L s l s'"
| inet_pton: "dfsw_inet_pton fi s x p q l1 l2 l3 = Some (r', l, s') \<Longrightarrow> {l1, l2, l3} \<subseteq> L \<Longrightarrow> dfsw_call L s l s'"
| localtime_r: "dfsw_localtime_r fc s p q l1 l2 = Some (r, l, s') \<Longrightarrow> {l1, l2} \<subseteq> L \<Longrightarrow> dfsw_call L s l s'"
| getpwuid_r: "dfsw_getpwuid_r fw s x p q n r = Some (r', l, s') \<Longrightarrow> dfsw_call L s l s'"
| sigemptyset: "dfsw_sigemptyset fe s p l1 rl = Some (r', l, s') \<Longrightarrow> {l1, rl} \<subseteq> L \<Longrightarrow> dfsw_call L s l s'"
| pthread_create: "dfsw_pthread_create malloc free pc s t at tr sr arg = Some (r', l, s') \<Longrightarrow> dfsw_call L s l s'"
| write_fd: "dfsw_write cb wr s fd' buf n l1 l2 l3 = Some (r', l, s') \<Longrightarrow> write_callback s = 0 \<Longrightarrow> dfsw_call L s l s'"
| set_write_callback: "l \<in> L \<Longrightarrow> dfsw_call L s l (dfsw_dfsan_set_write_callback s t c l)"
| sprintf: "dfsw_sprintf sp s d fmt l1 l2 ls rl args = Some (r', l, s') \<Longrightarrow> set ls \<subseteq> L \<Longrightarrow> {l1, l2, rl} \<subseteq> L \<Longrightarrow> dfsw_call L s l s'"
| snprintf: "dfsw_snprintf sp s d n fmt l1 l2 l3 ls rl args = Some (r', l, s') \<Longrightarrow> set ls \<subseteq> L \<Longrightarrow> {l1, l2, l3, rl} \<subseteq> L \<Longrightarrow>
    dfsw_call L s l s'"

text \<open>What the instrumented code itself does with labels: combine the labels of operands, load and store labels with
  values, mark operands as signed and infer their shape, map memory.\<close>

inductive label_op :: "u32 set \<Rightarrow> rt \<Rightarrow> u32 \<Rightarrow> rt \<Rightarrow> bool" for L :: "u32 set" and s :: rt where
  "dfsan_union s l1 l2 = Some (l, s') \<Longrightarrow> {l1, l2} \<subseteq> L \<Longrightarrow> label_op L s l s'"
| "dfsan_union_load s ls n = Some (l, s') \<Longrightarrow> label_op L s l s'"
| "dfsan_read_label s a n = Some (l, s') \<Longrightarrow> label_op L s l s'"
| "dfsan_set_label s l a n = Some s' \<Longrightarrow> l \<in> L \<Longrightarrow> label_op L s l s'"
| "dfsan_add_label s l a n = Some s' \<Longrightarrow> l \<in> L \<Longrightarrow> label_op L s l s'"
| "dfsan_mark_signed s l1 l2 = Some (l, s') \<Longrightarrow> {l1, l2} \<subseteq> L \<Longrightarrow> label_op L s l s'"
| "dfsan_infer_shape_in_math_op s l1 l k = Some s' \<Longrightarrow> {l1, l} \<subseteq> L \<Longrightarrow> label_op L s l s'"
| "dfsan_combine_and_ins s l = Some s' \<Longrightarrow> l \<in> L \<Longrightarrow> label_op L s l s'"
| "interceptor_mmap mm page s n = Some (r, s') \<Longrightarrow> l \<in> L \<Longrightarrow> label_op L s l s'"
| "interceptor_mmap64 mm page s n = Some (r, s') \<Longrightarrow> l \<in> L \<Longrightarrow> label_op L s l s'"
| "l \<in> L \<Longrightarrow> label_op L s l (s\<lparr>mem := m\<rparr>)"

text \<open>A run from the start of the program.  Labels are born in \<open>dfsan_create_label\<close> only, which the input functions
  call for the offsets they read; with \<open>reads\<close> false the program reads no input.\<close>

inductive run :: "bool \<Rightarrow> u32 set \<Rightarrow> rt \<Rightarrow> bool" for reads :: bool where
  start: "run reads {0} (rt_start m)"
| call: "run reads L s \<Longrightarrow> dfsw_call L s l s' \<Longrightarrow> run reads (insert l L) s'"
| op: "run reads L s \<Longrightarrow> label_op L s l s' \<Longrightarrow> run reads (insert l L) s'"
| input: "run reads L s \<Longrightarrow> reads \<Longrightarrow> dfsan_create_label s pos = Some (l, s') \<Longrightarrow> run reads (insert l L) s'"

section \<open>The contract\<close>

locale taint_contract =
  fixes okay :: "rt \<Rightarrow> bool" and good :: "rt \<Rightarrow> u32 \<Rightarrow> bool"
  assumes zero: "okay s \<Longrightarrow> good s 0"
    and inv_mem: "okay (s\<lparr>mem := m\<rparr>) = okay s"
    and good_mem: "good (s\<lparr>mem := m\<rparr>) = good s"
    and inv_callback: "okay (s\<lparr>write_callback_trampoline := t, write_callback := c\<rparr>) = okay s"
    and good_callback: "good (s\<lparr>write_callback_trampoline := t, write_callback := c\<rparr>) = good s"
    and union_law: "dfsan_union_uneq s a b = Some (l, s') \<Longrightarrow> okay s \<Longrightarrow> good s a \<Longrightarrow> good s b \<Longrightarrow>
           okay s' \<and> good s' l \<and> (\<forall>x. good s x \<longrightarrow> good s' x)"
    and read_law: "dfsan_read_label s p n = Some (l, s') \<Longrightarrow> okay s \<Longrightarrow> okay s' \<and> good s' l \<and> (\<forall>x. good s x \<longrightarrow> good s' x)"
    and load_law: "dfsan_union_load s ls n = Some (l, s') \<Longrightarrow> okay s \<Longrightarrow> okay s' \<and> good s' l \<and> (\<forall>x. good s x \<longrightarrow> good s' x)"
    and set_law: "dfsan_set_label s l p n = Some s' \<Longrightarrow> okay s \<Longrightarrow> good s l \<Longrightarrow> okay s' \<and> (\<forall>x. good s x \<longrightarrow> good s' x)"
    and cell_law: "okay s \<Longrightarrow> good s (shadow s c)"
    and put_law: "okay s \<Longrightarrow> good s l \<Longrightarrow> okay (s\<lparr>shadow := (shadow s)(p := l)\<rparr>) \<and>
           (\<forall>x. good s x \<longrightarrow> good (s\<lparr>shadow := (shadow s)(p := l)\<rparr>) x)"
    and sign_law: "dfsan_mark_signed s a b = Some (l, s') \<Longrightarrow> okay s \<Longrightarrow> good s a \<Longrightarrow> good s b \<Longrightarrow>
           okay s' \<and> good s' l \<and> (\<forall>x. good s x \<longrightarrow> good s' x)"
    and shape_law: "dfsan_infer_shape_in_math_op s a b k = Some s' \<Longrightarrow> okay s \<Longrightarrow> good s a \<Longrightarrow> good s b \<Longrightarrow>
           okay s' \<and> (\<forall>x. good s x \<longrightarrow> good s' x)"
    and and_law: "dfsan_combine_and_ins s a = Some s' \<Longrightarrow> okay s \<Longrightarrow> good s a \<Longrightarrow>
           okay s' \<and> (\<forall>x. good s x \<longrightarrow> good s' x)"
    and copy_law: "copy_labels s d p n = Some s' \<Longrightarrow> okay s \<Longrightarrow> okay s' \<and> (\<forall>x. good s x \<longrightarrow> good s' x)"
begin

lemmas frame = zero inv_mem good_mem inv_callback good_callback

lemma union_wp [wp_op]:
  "okay s \<Longrightarrow> good s a \<Longrightarrow> good s b \<Longrightarrow>
   (\<And>l s'. okay s' \<Longrightarrow> good s' l \<Longrightarrow> (\<And>x. good s x \<Longrightarrow> good s' x) \<Longrightarrow> Q (l, s')) \<Longrightarrow> holds (dfsan_union s a b) Q"
  using union_law [of s a b] by (auto simp: holds_def dfsan_union_def)

lemma read_wp [wp_op]:
  "okay s \<Longrightarrow> (\<And>l s'. okay s' \<Longrightarrow> good s' l \<Longrightarrow> (\<And>x. good s x \<Longrightarrow> good s' x) \<Longrightarrow> Q (l, s')) \<Longrightarrow>
   holds (dfsan_read_label s p n) Q"
  using read_law [of s p n] by (auto simp: holds_def)

lemma set_wp [wp_op]:
  "okay s \<Longrightarrow> good s l \<Longrightarrow> (\<And>s'. okay s' \<Longrightarrow> (\<And>x. good s x \<Longrightarrow> good s' x) \<Longrightarrow> Q s') \<Longrightarrow> holds (dfsan_set_label s l p n) Q"
  using set_law [of s l p n] by (auto simp: holds_def)

lemma copy_wp [wp_op]:
  "okay s \<Longrightarrow> (\<And>s'. okay s' \<Longrightarrow> (\<And>x. good s x \<Longrightarrow> good s' x) \<Longrightarrow> Q s') \<Longrightarrow> holds (copy_labels s d p n) Q"
  using copy_law [of s d p n] by (auto simp: holds_def)

lemma union_of_reads_wp [wp_op]:
  "okay s \<Longrightarrow> (\<And>l s'. okay s' \<Longrightarrow> good s' l \<Longrightarrow> (\<And>x. good s x \<Longrightarrow> good s' x) \<Longrightarrow> Q (l, s')) \<Longrightarrow>
   holds (union_of_reads s a n b m) Q"
  by (auto simp: union_of_reads_def wp intro!: wp_op)

lemma union_of_read_labels_wp [wp_op]:
  "okay s \<Longrightarrow> good s l1 \<Longrightarrow> good s l2 \<Longrightarrow>
   (\<And>l s'. okay s' \<Longrightarrow> good s' l \<Longrightarrow> (\<And>x. good s x \<Longrightarrow> good s' x) \<Longrightarrow> Q (l, s')) \<Longrightarrow>
   holds (union_of_read_labels s a n l1 l2) Q"
  by (auto simp: union_of_read_labels_def wp intro!: wp_op)

lemma search_sound:
  assumes "okay st"
  shows "good st sl \<Longrightarrow> good st cl \<Longrightarrow> sound okay good st (dfsw_strchr st a c sl cl)"
    "sound okay good st (dfsw_strlen st a sl)"
    "good st sl \<Longrightarrow> good st cl \<Longrightarrow> sound okay good st (dfsw_memchr st a c n sl cl l3)"
    "good st sl \<Longrightarrow> good st cl \<Longrightarrow> sound okay good st (dfsw_strrchr st a c sl cl)"
    "good st sl \<Longrightarrow> good st cl \<Longrightarrow> sound okay good st (dfsw_strstr st a b sl cl)"
  using assms
  by (auto simp: sound_def dfsw_strchr_def dfsw_strlen_def dfsw_memchr_def dfsw_strrchr_def dfsw_strstr_def
      Let_def wp frame intro!: wp_op)

lemma compare_sound:
  assumes "okay st"
  shows "sound okay good st (dfsw_memcmp st a b n l1 l2 l3)"
    "sound okay good st (dfsw_strcmp st a b l1 l2)"
    "sound okay good st (dfsw_strcasecmp st a b l1 l2)"
    "sound okay good st (dfsw_strncmp st a b n l1 l2 l3)"
    "sound okay good st (dfsw_strncasecmp st a b n l1 l2 l3)"
  using assms
  by (auto simp: sound_def dfsw_memcmp_def dfsw_strcmp_def dfsw_strcasecmp_def dfsw_strncmp_def dfsw_strncasecmp_def
      wp frame intro!: wp_op split: option.split)

lemma memcpy_wp [wp_op]:
  "okay s \<Longrightarrow> (\<And>r s'. okay s' \<Longrightarrow> (\<And>x. good s x \<Longrightarrow> good s' x) \<Longrightarrow> Q (r, s')) \<Longrightarrow> holds (dfsan_memcpy s d p n) Q"
  by (auto simp: dfsan_memcpy_def internal_memcpy_def wp frame intro!: wp_op)

lemma memset_wp [wp_op]:
  "okay s \<Longrightarrow> good s l \<Longrightarrow> (\<And>s'. okay s' \<Longrightarrow> (\<And>x. good s x \<Longrightarrow> good s' x) \<Longrightarrow> Q s') \<Longrightarrow> holds (dfsan_memset s p c l n) Q"
  by (auto simp: dfsan_memset_def wp frame intro!: wp_op)

lemma copy_sound:
  assumes "okay st" "good st dl"
  shows "sound okay good st (dfsw_memcpy st d a n dl l2 l3)"
    "sound okay good st (dfsw_mempcpy_chk st d a n k dl l2 l3 l4)"
    "good st cl \<Longrightarrow> sound okay good st (dfsw_memset st d c n dl cl l3)"
    "sound okay good st (dfsw_strcat st d a dl l2)"
    "sound okay good st (dfsw_strncpy st d a n dl l2 l3)"
    "sound okay good st (dfsw_strcpy st d a dl l2)"
    "sound okay good st (dfsw_stpcpy st d a dl l2)"
  using assms
  by (auto simp: sound_def dfsw_memcpy_def dfsw_mempcpy_chk_def dfsw_memset_def dfsw_strcat_def dfsw_strncpy_def
      dfsw_strcpy_def dfsw_stpcpy_def Let_def wp frame intro!: wp_op)

lemma duplicate_sound:
  assumes "okay st"
  shows "sound okay good st (dfsw_strdup malloc st a l1)"
    "sound okay good st (dfsw___strdup malloc st a l1)"
    "sound okay good st (dfsw___strndup malloc st a n l1 l2)"
  using assms
  by (auto simp: sound_def dfsw_strdup_def dfsw___strdup_def dfsw___strndup_def Let_def wp frame
      intro!: wp_op split: prod.splits)

lemma conv_wp [wp_op]:
  "okay s \<Longrightarrow> (\<And>l s'. okay s' \<Longrightarrow> good s' l \<Longrightarrow> (\<And>x. good s x \<Longrightarrow> good s' x) \<Longrightarrow> Q (l, s')) \<Longrightarrow> holds (conv_label s a e) Q"
  by (auto simp: conv_label_def intro!: wp_op)

lemma store_endptr_frame: "okay (store_endptr s e t) = okay s" "good (store_endptr s e t) = good s"
  by (simp_all add: store_endptr_def frame)

lemma convert_sound:
  assumes "okay st"
  shows "good st bl \<Longrightarrow> sound okay good st (dfsw_strtol conv st a e base l1 l2 bl)"
    "good st bl \<Longrightarrow> sound okay good st (dfsw_strtoll conv st a e base l1 l2 bl)"
    "good st bl \<Longrightarrow> sound okay good st (dfsw_strtoul conv st a e base l1 l2 bl)"
    "good st bl \<Longrightarrow> sound okay good st (dfsw_strtoull conv st a e l1 base l2 bl)"
    "sound okay good st (dfsw_strtod conv' st a e l1 l2)"
  using assms
  by (auto simp: sound_def dfsw_strtol_def dfsw_strtoll_def dfsw_strtoul_def dfsw_strtoull_def dfsw_strtod_def
      Let_def wp frame store_endptr_frame intro!: wp_op split: prod.splits)

lemma os_call_frame: "os_call sys s = (r, s') \<Longrightarrow> okay s' = okay s \<and> good s' = good s"
  by (auto simp: os_call_def frame split: prod.splits)

lemma os_call_prod [wp_op]:
  "(\<And>r s'. okay s' = okay s \<Longrightarrow> good s' = good s \<Longrightarrow> Q r s') \<Longrightarrow> case os_call sys s of (r, s') \<Rightarrow> Q r s'"
  using os_call_frame [of sys s] by (cases "os_call sys s") auto

lemma clear_unless_null_wp [wp_op]:
  "okay s \<Longrightarrow> (\<And>s'. okay s' \<Longrightarrow> (\<And>x. good s x \<Longrightarrow> good s' x) \<Longrightarrow> Q s') \<Longrightarrow> holds (clear_unless_null s p n) Q"
  by (auto simp: clear_unless_null_def wp frame intro!: wp_op)

lemma clear_revents_wp [wp_op]:
  "okay s \<Longrightarrow> (\<And>s'. okay s' \<Longrightarrow> (\<And>x. good s x \<Longrightarrow> good s' x) \<Longrightarrow> Q s') \<Longrightarrow> holds (clear_revents k s p) Q"
proof (induction k arbitrary: s)
  case (Suc k)
  show ?case using Suc.prems by (auto simp: wp frame intro!: set_wp Suc.IH)
qed (simp add: wp)

lemma regions_wp:
  assumes "\<And>s a n. okay s \<Longrightarrow> holds (cb s a n) (\<lambda>s'. okay s' \<and> (\<forall>x. good s x \<longrightarrow> good s' x))"
  shows "okay s \<Longrightarrow> holds (for_regions s cb page delta phs) (\<lambda>s'. okay s' \<and> (\<forall>x. good s x \<longrightarrow> good s' x))"
proof (induction phs arbitrary: s)
  case (Cons ph phs)
  show ?case unfolding for_regions.simps Let_def wp
    by (intro holds_pure holds_mono [OF assms [OF Cons.prems]] holds_mono [OF Cons.IH]) auto
qed (simp add: wp)

lemma unpoison_wp: "okay s \<Longrightarrow> holds (unpoison s a n) (\<lambda>s'. okay s' \<and> (\<forall>x. good s x \<longrightarrow> good s' x))"
  by (auto simp: unpoison_def frame intro!: set_wp)

lemma mapped_regions_wp [wp_op]:
  "okay s \<Longrightarrow> (\<And>s'. okay s' \<Longrightarrow> (\<And>x. good s x \<Longrightarrow> good s' x) \<Longrightarrow> Q s') \<Longrightarrow> holds (ForEachMappedRegion page s p unpoison) Q"
  unfolding ForEachMappedRegion_def Let_def wp
  by (intro conjI impI holds_None holds_mono [OF regions_wp [OF unpoison_wp]]) auto

lemma clearing_sound:
  assumes "okay st"
  shows "sound okay good st (dfsw_clock_gettime f2 st x2 p l1 l2)"
    "sound okay good st (dfsw_getrlimit f2 st x2 p l1 l2)"
    "sound okay good st (dfsw_getrusage f2 st x2 p l1 l2)"
    "sound okay good st (dfsw_time f1 st p l1)"
    "sound okay good st (dfsw_poll fp st p n x2 l1 l2 l3)"
    "sound okay good st (dfsw_select fs st x2 p q r t)"
    "sound okay good st (dfsw_sched_getaffinity fa st x2 n p l1 l2 l3)"
    "sound okay good st (dfsw_sigaction fa st x2 q p l1 l2 l3)"
    "sound okay good st (dfsw_gettimeofday fg st p q l1 l2)"
    "sound okay good st (dfsw_nanosleep fg st p q l1 l2)"
    "sound okay good st (dfsw_socketpair fk st x2 x3 x4 p l1 l2 l3 l4)"
  using assms
  by (auto simp: sound_def dfsw_clock_gettime_def dfsw_getrlimit_def dfsw_getrusage_def dfsw_time_def dfsw_poll_def
      dfsw_select_def dfsw_sched_getaffinity_def dfsw_sigaction_def dfsw_gettimeofday_def dfsw_nanosleep_def
      dfsw_socketpair_def Let_def wp frame intro!: wp_op)

lemma naming_sound:
  assumes "okay st"
  shows "sound okay good st (dfsw_dlopen page fd lm st p x l1 l2)"
    "good st bl \<Longrightarrow> sound okay good st (dfsw_ctime_r fc st p q l1 bl)"
    "good st bl \<Longrightarrow> sound okay good st (dfsw_getcwd fc st p n bl l2)"
    "sound okay good st (dfsw_get_current_dir_name f0 st)"
    "sound okay good st (dfsw_gethostname fh st p n l1 l2)"
    "sound okay good st (dfsw_inet_pton fi st x p q l1 l2 l3)"
    "good st bl \<Longrightarrow> sound okay good st (dfsw_localtime_r fc st p q l1 bl)"
    "sound okay good st (dfsw_getpwuid_r fw st x p q n r)"
    "good st bl \<Longrightarrow> sound okay good st (dfsw_sigemptyset fe st p l1 bl)"
  using assms
  by (auto simp: sound_def dfsw_dlopen_def dfsw_ctime_r_def dfsw_getcwd_def dfsw_get_current_dir_name_def
      dfsw_gethostname_def dfsw_inet_pton_def dfsw_localtime_r_def dfsw_getpwuid_r_def dfsw_sigemptyset_def
      Let_def wp frame intro!: wp_op)

lemma thread_sound: "okay st \<Longrightarrow> sound okay good st (dfsw_pthread_create malloc free pc st t at tr sr arg)"
  by (auto simp: sound_def dfsw_pthread_create_def Let_def wp frame split: prod.splits dest!: os_call_frame)

lemma mmap_sound:
  assumes "okay s"
  shows "holds (interceptor_mmap mm page s n) (\<lambda>(r, s'). okay s' \<and> (\<forall>x. good s x \<longrightarrow> good s' x))"
    "holds (interceptor_mmap64 mm page s n) (\<lambda>(r, s'). okay s' \<and> (\<forall>x. good s x \<longrightarrow> good s' x))"
  using assms
  by (auto simp: interceptor_mmap_def interceptor_mmap64_def Let_def wp frame intro!: wp_op split: prod.splits)

lemma add_label_wp:
  "okay s \<Longrightarrow> good s l \<Longrightarrow>
   holds (add_label_loop k s l p) (\<lambda>s'. okay s' \<and> (\<forall>x. good s x \<longrightarrow> good s' x))"
proof (induction k arbitrary: s p)
  case (Suc k)
  have "holds (add_label_loop k (s1\<lparr>shadow := (shadow s1)(p := l')\<rparr>) l (p + 4)) (\<lambda>s'. okay s' \<and> (\<forall>x. good s x \<longrightarrow> good s' x))"
    if u: "dfsan_union_uneq s (shadow s p) l = Some (l', s1)" for l' s1
  proof -
    have "okay s1" "good s1 l'" and m: "\<And>x. good s x \<Longrightarrow> good s1 x"
      using union_law [OF u Suc.prems(1) cell_law [OF Suc.prems(1)] Suc.prems(2)] by auto
    then have "okay (s1\<lparr>shadow := (shadow s1)(p := l')\<rparr>)" and g: "\<And>x. good s1 x \<Longrightarrow> good (s1\<lparr>shadow := (shadow s1)(p := l')\<rparr>) x"
      using put_law [of s1 l' p] by auto
    from Suc.IH [OF this(1) g [OF m [OF Suc.prems(2)]]] show ?thesis by (rule holds_mono) (use m g in blast)
  qed
  then show ?case using Suc.IH [OF Suc.prems] by (auto simp: holds_def Option.bind_eq_Some_conv split: if_splits)
qed (simp add: wp)

lemma write_sound:
  assumes "okay st" "\<And>s t. okay s \<Longrightarrow> call s (write_callback_trampoline s) (write_callback s) fd buf n l1 l2 l3 = Some t \<Longrightarrow>
      okay t \<and> (\<forall>x. good s x \<longrightarrow> good t x)"
  shows "sound okay good st (dfsw_write call wr st fd buf n l1 l2 l3)"
proof -
  have c: "holds (call st (write_callback_trampoline st) (write_callback st) fd buf n l1 l2 l3)
      (\<lambda>t. okay t \<and> (\<forall>x. good st x \<longrightarrow> good t x))"
    using assms by (auto simp: holds_def)
  show ?thesis unfolding sound_def dfsw_write_def Let_def wp
    by (intro conjI impI holds_mono [OF c] os_call_prod) (use assms(1) zero in auto)
qed

lemma iterate_sound:
  assumes "okay st" "\<And>s i r t. okay s \<Longrightarrow> call s i = Some (r, t) \<Longrightarrow> okay t \<and> (\<forall>x. good s x \<longrightarrow> good t x)"
  shows "sound okay good st (dfsw_dl_iterate_phdr infos call st)"
proof -
  have cb: "holds (dl_iterate_phdr_cb call s i) (\<lambda>(r, t). okay t \<and> (\<forall>x. good s x \<longrightarrow> good t x))" if "okay s" for s i
  proof -
    have c: "holds (call t i) (\<lambda>(r, t'). okay t' \<and> (\<forall>x. good t x \<longrightarrow> good t' x))" if "okay t" for t
      using assms(2) [OF that] by (auto simp: holds_def)
    show ?thesis using that by (auto simp: dl_iterate_phdr_cb_def Let_def wp frame intro!: wp_op holds_mono [OF c])
  qed
  have it: "holds (iterate_infos (dl_iterate_phdr_cb call) s r infos) (\<lambda>(r, t). okay t \<and> (\<forall>x. good s x \<longrightarrow> good t x))"
    if "okay s" for s r using that
  proof (induction infos arbitrary: s r)
    case (Cons i infos)
    show ?case unfolding iterate_infos.simps wp
      by (intro holds_mono [OF cb [OF Cons.prems]]) (auto simp: wp intro!: holds_mono [OF Cons.IH])
  qed (simp add: wp)
  show ?thesis unfolding sound_def dfsw_dl_iterate_phdr_def wp
    by (intro holds_mono [OF it [OF assms(1)]]) (auto simp: wp zero)
qed

lemma fmt_rel_trans: "fmt_rel okay good f g \<Longrightarrow> fmt_rel okay good g h \<Longrightarrow> fmt_rel okay good f h"
  by (simp add: fmt_rel_def)

lemma run_snprintf_wp:
  assumes "fmt_ok okay good f" "\<And>r f'. fmt_rel okay good f f' \<Longrightarrow> Q r f'"
  shows "case run_snprintf sp f args of (r, f') \<Rightarrow> Q r f'"
proof -
  have "fmt_rel okay good f (f\<lparr>st_of := (st_of f)\<lparr>mem := m\<rparr>\<rparr>)" for m
    using assms(1) by (simp add: fmt_rel_def fmt_ok_def frame)
  then show ?thesis using assms(2) by (simp add: run_snprintf_def Let_def split: prod.split)
qed

lemma format_wp [wp_op]:
  "fmt_ok okay good f \<Longrightarrow> (\<And>r f'. fmt_rel okay good f f' \<Longrightarrow> Q r f') \<Longrightarrow> case format1 sp f arg of (r, f') \<Rightarrow> Q r f'"
  "fmt_ok okay good f \<Longrightarrow> (\<And>r f'. fmt_rel okay good f f' \<Longrightarrow> Q r f') \<Longrightarrow> case format0 sp f of (r, f') \<Rightarrow> Q r f'"
  unfolding format1_def format0_def by (cases "sint (width f) \<ge> 0"; simp only: if_True if_False; rule run_snprintf_wp; assumption)
    (rule run_snprintf_wp; assumption)

lemma next_label_wp [wp_op]:
  "fmt_ok okay good f \<Longrightarrow> (\<And>l f'. fmt_rel okay good f f' \<Longrightarrow> good (st_of f') l \<Longrightarrow> Q (l, f')) \<Longrightarrow> holds (next_label f) Q"
  by (auto simp: next_label_def fmt_ok_def fmt_rel_def wp split: list.split)

lemma set_out_label_wp [wp_op]:
  "fmt_ok okay good f \<Longrightarrow> good (st_of f) l \<Longrightarrow> (\<And>f'. fmt_rel okay good f f' \<Longrightarrow> Q f') \<Longrightarrow> holds (set_out_label f l r) Q"
  unfolding set_out_label_def wp
  by (rule set_wp) (auto simp: fmt_ok_def fmt_rel_def list_all_iff)

lemma value_directive_wp:
  assumes "fmt_ok okay good f"
  shows "holds (value_directive sp va f) (\<lambda>(r, f'). fmt_rel okay good f f')"
proof -
  have "holds (value_directive sp va f) (\<lambda>(r, f'). fmt_rel okay good f f')" if v: "va (ap f) = Some (arg, vs)" for arg vs
  proof -
    have s: "fmt_ok okay good (f\<lparr>ap := vs\<rparr>)" using assms by (simp add: fmt_ok_def)
    have "case format1 sp (f\<lparr>ap := vs\<rparr>) arg of (retval, f1) \<Rightarrow>
        holds (next_label f1) (\<lambda>(l, f2). holds (set_out_label f2 l retval) (\<lambda>f3. fmt_rel okay good f f3))"
      by (rule format_wp(1) [OF s]) (auto simp: fmt_rel_def fmt_ok_def intro!: next_label_wp set_out_label_wp)
    then show ?thesis by (simp add: value_directive_def v wp Let_def split: prod.splits)
  qed
  then show ?thesis by (cases "va (ap f)") (auto simp: value_directive_def wp)
qed

lemma literal_wp:
  assumes "fmt_ok okay good f"
  shows "holds (literal sp f) (\<lambda>(r, f'). fmt_rel okay good f f')"
  unfolding literal_def Let_def wp
  by (rule format_wp(2) [OF assms]) (auto simp: fmt_rel_def fmt_ok_def zero wp intro!: set_out_label_wp)

lemma string_directive_wp:
  assumes "fmt_ok okay good f"
  shows "holds (string_directive sp f) (\<lambda>(r, f'). fmt_rel okay good f f')"
proof (cases "va_word (ap f)")
  case (Some p)
  obtain arg vs where p: "p = (arg, vs)" by (cases p)
  have s: "fmt_ok okay good (f\<lparr>ap := vs\<rparr>)" using assms by (simp add: fmt_ok_def)
  have d: "list_all P xs \<Longrightarrow> list_all P (drop 1 xs)" for P and xs :: "u32 list" by (cases xs) simp_all
  have "case format1 sp (f\<lparr>ap := vs\<rparr>) (VInt arg) of (retval, f1) \<Rightarrow>
      holds (copy_labels (st_of f1) (str_cur f1) arg (num_written_bytes f1 retval))
        (\<lambda>s. fmt_rel okay good f (f1\<lparr>va_labels := drop 1 (va_labels f1), st_of := s\<rparr>))"
    by (rule format_wp(1) [OF s]) (auto simp: fmt_rel_def fmt_ok_def list_all_iff dest: in_set_dropD intro!: copy_wp)
  then show ?thesis by (simp add: string_directive_def Some p wp Let_def split: prod.splits)
qed (simp add: string_directive_def wp)

lemma count_directive_wp:
  assumes "fmt_ok okay good f"
  shows "holds (count_directive f) (\<lambda>(r, f'). fmt_rel okay good f f')"
proof (cases "va_word (ap f)")
  case (Some p)
  then show ?thesis using assms
    by (cases p) (auto simp: count_directive_def wp Let_def fmt_rel_def fmt_ok_def frame list_all_iff
        dest: in_set_dropD intro!: set_wp)
qed (simp add: count_directive_def wp)

lemma directive_wp:
  assumes "fmt_ok okay good f"
  shows "holds (directive sp r f) (\<lambda>(e, r, f'). fmt_rel okay good f f')"
proof -
  let ?f = "f\<lparr>fmt_cur := fmt_cur f + 1\<rparr>"
  have s: "fmt_ok okay good ?f" using assms by (simp add: fmt_ok_def)
  have b: "fmt_rel okay good ?f g \<Longrightarrow> fmt_rel okay good f g" for g by (simp add: fmt_rel_def)
  have w: "fmt_rel okay good f (?f\<lparr>width := ucast w, ap := vs, va_labels := drop 1 (va_labels f)\<rparr>)" for w vs
    using assms by (auto simp: fmt_rel_def fmt_ok_def list_all_iff dest: in_set_dropD)
  note d = value_directive_wp [OF s] literal_wp [OF s] string_directive_wp [OF s] count_directive_wp [OF s]
  have ends: "holds x (\<lambda>(r, f'). fmt_rel okay good ?f f') \<Longrightarrow>
      holds (map_option (Pair True) x) (\<lambda>(e, r, f'). fmt_rel okay good f f')" for x
    unfolding wp by (erule holds_mono) (auto intro: b)
  have count: "holds (map_option (\<lambda>(_, g). (r, g)) (count_directive ?f)) (\<lambda>(r, f'). fmt_rel okay good ?f f')"
    unfolding wp by (rule holds_mono [OF d(4)]) auto
  have star: "holds (va_word (ap ?f) \<bind> (\<lambda>(w, vs).
      Some (False, r, ?f\<lparr>width := ucast w, ap := vs, va_labels := drop 1 (va_labels ?f)\<rparr>)))
      (\<lambda>(e, r, f'). fmt_rel okay good f f')"
    using w by (cases "va_word (ap f)") (auto simp: wp)
  have other: "holds (Some (False, r, ?f)) (\<lambda>(e, r, f'). fmt_rel okay good f f')"
    using assms by (auto simp: wp fmt_rel_def fmt_ok_def)
  show ?thesis unfolding directive_def Let_def
    by (intro holds_ifI ends d(1) d(2) d(3) count star other)
qed

lemma directive_loop_wp:
  assumes "directive_loop sp r f = Some (r', f')" "fmt_ok okay good f"
  shows "fmt_rel okay good f f'"
proof -
  define P where "P = (\<lambda>((sp :: snprintf, r :: u32), f) (r' :: u32, f'). fmt_ok okay good f \<longrightarrow> fmt_rel okay good f f')"
  have "P ((sp, r), f) (r', f')"
  proof (rule directive_loop.raw_induct [OF _ assms(1)])
    fix rec :: "snprintf \<Rightarrow> u32 \<Rightarrow> Formatter \<Rightarrow> (u32 \<times> Formatter) option" and sp r f y
    assume IH: "\<And>sp r f y. rec sp r f = Some y \<Longrightarrow> P ((sp, r), f) y"
      and e: "(if mem (st_of f) (fmt_cur f) = 0 then Some (r, f)
        else directive sp r f \<bind> (\<lambda>(end_fmt, r, f1). if end_fmt then Some (r, f1) else rec sp r f1)) = Some y"
    show "P ((sp, r), f) y"
    proof (cases "mem (st_of f) (fmt_cur f) = 0")
      case True
      then show ?thesis using e by (auto simp: P_def fmt_rel_def)
    next
      case False
      then obtain en r1 f1 where d: "directive sp r f = Some (en, r1, f1)"
        and n: "(if en then Some (r1, f1) else rec sp r1 f1) = Some y"
        using e by (auto simp: Option.bind_eq_Some_conv)
      have "fmt_ok okay good f \<Longrightarrow> fmt_rel okay good f f1" using holdsD [OF directive_wp d] by simp
      moreover have "\<not> en \<Longrightarrow> P ((sp, r1), f1) y" using n by (intro IH) simp
      ultimately show ?thesis using n by (cases y; cases en) (auto simp: P_def fmt_rel_def)
    qed
  qed
  then show ?thesis using assms(2) by (simp add: P_def)
qed

lemma chunk_wp:
  assumes "chunk sp f = Some (r, f')" "fmt_ok okay good f"
  shows "fmt_rel okay good f f'"
proof -
  let ?f = "f\<lparr>fmt_start := fmt_cur f, width := - 1\<rparr>"
  have s: "fmt_ok okay good ?f" "fmt_ok okay good (?f\<lparr>fmt_cur := j\<rparr>)" for j using assms(2) by (simp_all add: fmt_ok_def)
  show ?thesis
  proof (cases "mem (st_of f) (fmt_cur f) = 37")
    case True
    then have "directive_loop sp 0 ?f = Some (r, f')" using assms(1) by (simp add: chunk_def)
    from directive_loop_wp [OF this s(1)] show ?thesis by (simp add: fmt_rel_def)
  next
    case False
    then obtain j where "literal sp (?f\<lparr>fmt_cur := j\<rparr>) = Some (r, f')"
      using assms(1) by (auto simp: chunk_def Let_def Option.bind_eq_Some_conv)
    from holdsD [OF literal_wp [OF s(2)] this] show ?thesis by (simp add: fmt_rel_def)
  qed
qed

lemma format_loop_wp:
  assumes "format_loop sp rl f = Some (r, l, s')" "fmt_ok okay good f" "good (st_of f) rl"
  shows "okay s' \<and> good s' l \<and> (\<forall>x. good (st_of f) x \<longrightarrow> good s' x)"
proof -
  define P where "P = (\<lambda>((sp :: snprintf, rl), f) (r :: u32, l, s'). fmt_ok okay good f \<longrightarrow> good (st_of f) rl \<longrightarrow>
    okay s' \<and> good s' l \<and> (\<forall>x. good (st_of f) x \<longrightarrow> good s' x))"
  have "P ((sp, rl), f) (r, l, s')"
  proof (rule format_loop.raw_induct [OF _ assms(1)])
    fix rec :: "snprintf \<Rightarrow> u32 \<Rightarrow> Formatter \<Rightarrow> u32 wrapped" and sp rl f y
    assume IH: "\<And>sp rl f y. rec sp rl f = Some y \<Longrightarrow> P ((sp, rl), f) y"
      and e: "(if mem (st_of f) (fmt_cur f) = 0 then Some (ucast (str_off f), 0, st_of f)
        else chunk sp f \<bind> (\<lambda>(retval, f1). if sint retval < 0 then Some (retval, rl, st_of f1)
          else rec sp rl (f1\<lparr>fmt_cur := fmt_cur f1 + 1, str_off := str_off f1 + ucast retval\<rparr>))) = Some y"
    show "P ((sp, rl), f) y"
    proof (cases "mem (st_of f) (fmt_cur f) = 0")
      case True
      then show ?thesis using e by (auto simp: P_def fmt_ok_def zero)
    next
      case False
      then obtain q f1 where d: "chunk sp f = Some (q, f1)"
        and n: "(if sint q < 0 then Some (q, rl, st_of f1)
          else rec sp rl (f1\<lparr>fmt_cur := fmt_cur f1 + 1, str_off := str_off f1 + ucast q\<rparr>)) = Some y"
        using e by (auto simp: Option.bind_eq_Some_conv)
      have c: "fmt_ok okay good f \<Longrightarrow> fmt_rel okay good f f1" by (rule chunk_wp [OF d])
      show ?thesis
      proof (cases "sint q < 0")
        case True
        then show ?thesis using n c by (auto simp: P_def fmt_rel_def fmt_ok_def)
      next
        case False
        then have "P ((sp, rl), f1\<lparr>fmt_cur := fmt_cur f1 + 1, str_off := str_off f1 + ucast q\<rparr>) y" using n by (intro IH) simp
        then show ?thesis using c by (cases y) (auto simp: P_def fmt_rel_def fmt_ok_def)
      qed
    qed
  qed
  then show ?thesis using assms(2,3) by (simp add: P_def)
qed

lemma format_sound:
  assumes "okay st" "list_all (good st) labels" "good st rl"
  shows "sound okay good st (dfsw_sprintf sp st s fmt l1 l2 labels rl args)"
    "sound okay good st (dfsw_snprintf sp st s n fmt l1 l2 l3 labels rl args)"
proof -
  have f: "fmt_ok okay good (Formatter_new st s fmt n labels args)" "st_of (Formatter_new st s fmt n labels args) = st" for n
    using assms(1,2) by (simp_all add: fmt_ok_def Formatter_new_def)
  have "sound okay good st (format_buffer sp st s n fmt labels rl args)" for n
    unfolding sound_def holds_def format_buffer_def
    using format_loop_wp [OF _ f(1)] assms(3) unfolding f(2) by auto
  then show "sound okay good st (dfsw_sprintf sp st s fmt l1 l2 labels rl args)"
    "sound okay good st (dfsw_snprintf sp st s n fmt l1 l2 l3 labels rl args)"
    by (simp_all add: dfsw_sprintf_def dfsw_snprintf_def)
qed

lemma call_sound:
  assumes "dfsw_call L s l s'" "okay s" "\<forall>x\<in>L. good s x"
  shows "okay s' \<and> good s' l \<and> (\<forall>x\<in>L. good s' x)"
proof -
  note s = search_sound compare_sound copy_sound duplicate_sound convert_sound clearing_sound naming_sound thread_sound
  have r: "okay s' \<and> good s' l \<and> (\<forall>x\<in>L. good s' x)" if "sound okay good s x" "x = Some (r, l, s')" for x and r :: 'r
    using that assms(3) by (auto simp: sound_def holds_def)
  have q: "write_callback s = 0 \<Longrightarrow> sound okay good s (dfsw_write cb wr s fd' buf n l1 l2 l3)" for cb wr fd' buf n l1 l2 l3
    using write_sound [OF assms(2), of "\<lambda>s _ _ _ _ _ _ _ _. Some s" fd' buf n l1 l2 l3 wr]
    by (simp add: dfsw_write_def)
  show ?thesis using assms(1)
    by cases (erule r [rotated]; (rule s q format_sound; use assms(2,3) in \<open>auto simp: list_all_iff\<close>)
      | simp add: dfsw_dfsan_set_write_callback_def frame assms(2,3))+
qed

lemma op_sound:
  assumes "label_op L s l s'" "okay s" "\<forall>x\<in>L. good s x"
  shows "okay s' \<and> good s' l \<and> (\<forall>x\<in>L. good s' x)"
  using assms(1)
proof cases
  case (1 l1 l2)
  then show ?thesis using holdsD [OF union_wp [where Q = "\<lambda>(l, s'). okay s' \<and> good s' l \<and> (\<forall>x. good s x \<longrightarrow> good s' x)"] 1(1)] assms by auto
next
  case 2
  then show ?thesis using load_law [OF 2 assms(2)] assms(3) by blast
next
  case 3
  then show ?thesis using read_law [OF 3 assms(2)] assms(3) by blast
next
  case 4
  then show ?thesis using set_law [OF 4(1) assms(2)] assms(3) by blast
next
  case 5
  then show ?thesis using holdsD [OF add_label_wp [OF assms(2)] 5(1) [unfolded dfsan_add_label_def]] assms(3) by blast
next
  case (6 l1 l2)
  then show ?thesis using sign_law [OF 6(1) assms(2)] assms(3) by auto
next
  case (7 l1)
  then show ?thesis using shape_law [OF 7(1) assms(2)] assms(3) by auto
next
  case 8
  then show ?thesis using and_law [OF 8(1) assms(2)] assms(3) by blast
next
  case 9
  then show ?thesis using holdsD [OF mmap_sound(1) [OF assms(2)] 9(1)] assms(3) by auto
next
  case 10
  then show ?thesis using holdsD [OF mmap_sound(2) [OF assms(2)] 10(1)] assms(3) by auto
next
  case 11
  then show ?thesis using assms by (simp add: frame)
qed

lemma run_sound:
  assumes "run reads L s" "\<And>m. okay (rt_start m)"
    "\<And>s pos l s'. reads \<Longrightarrow> dfsan_create_label s pos = Some (l, s') \<Longrightarrow> okay s \<Longrightarrow> okay s' \<and> good s' l \<and> (\<forall>x. good s x \<longrightarrow> good s' x)"
  shows "okay s \<and> (\<forall>x\<in>L. good s x)"
  using assms(1)
proof induction
  case (start m)
  then show ?case using assms(2) zero by simp
next
  case (call L s l s')
  then show ?case using call_sound by blast
next
  case (op L s l s')
  then show ?case using op_sound by blast
next
  case (input L s pos l s')
  then show ?case using assms(3) [OF input(2,3)] by blast
qed

end

section \<open>Every label is a node of the store\<close>

definition labels_ok :: "rt \<Rightarrow> bool" where
  "labels_ok s \<longleftrightarrow> store_ok (tags s) \<and> (\<forall>c. label_ok (tags s) (shadow s c))"

definition known :: "rt \<Rightarrow> u32 \<Rightarrow> bool" where
  "known s l \<longleftrightarrow> label_ok (tags s) l"

lemma labels_ok_extends:
  "labels_ok s \<Longrightarrow> extends (tags s) t \<Longrightarrow> labels_ok (s\<lparr>tags := t\<rparr>) \<and> (\<forall>x. known s x \<longrightarrow> known (s\<lparr>tags := t\<rparr>) x)"
  by (auto simp: labels_ok_def known_def extends_ok intro: extends_label)

lemma read_cells_ok: "read_cells s ls n = Some lbs \<Longrightarrow> labels_ok s \<Longrightarrow> list_all (label_ok (tags s)) lbs"
  by (auto simp: labels_ok_def list_all_iff dest!: read_cells_set)

lemma combine_cells_ok:
  assumes "read_cells s ls n \<bind> (\<lambda>lbs. map_option (put_tags s) (angora_tag_set_combine_n (tags s) lbs b)) = Some (l, s')"
    "labels_ok s"
  shows "labels_ok s' \<and> known s' l \<and> (\<forall>x. known s x \<longrightarrow> known s' x)"
proof -
  obtain lbs t where r: "read_cells s ls n = Some lbs"
    and c: "angora_tag_set_combine_n (tags s) lbs b = Some (l, t)" "s' = s\<lparr>tags := t\<rparr>"
    using assms(1) by (auto simp: put_tags_def Option.bind_eq_Some_conv)
  have "extends (tags s) t \<and> label_ok t l"
    using combine_n_wrap_ok [OF c(1)] read_cells_ok [OF r assms(2)] assms(2) by (simp add: labels_ok_def)
  then show ?thesis using labels_ok_extends [OF assms(2), of t] c(2) by (simp add: known_def)
qed

lemma tag_call_ok:
  assumes "tag_call s l f = Some s'" "labels_ok s" "\<And>t t'. f t l = Some t' \<Longrightarrow> store_ok t \<Longrightarrow> extends t t'"
  shows "labels_ok s' \<and> (\<forall>x. known s x \<longrightarrow> known s' x)"
proof (cases "l > 0")
  case True
  then obtain t where t: "f (tags s) l = Some t" "s' = s\<lparr>tags := t\<rparr>" using assms(1) by (auto simp: tag_call_def)
  then have "extends (tags s) t" using assms by (simp add: labels_ok_def)
  then show ?thesis using labels_ok_extends [OF assms(2)] t(2) by simp
next
  case False
  then show ?thesis using assms by (simp add: tag_call_def)
qed

lemma copy_loop_range: "copy_loop k st m d a c \<in> range m"
proof (induction k arbitrary: m d a)
  case (Suc k)
  have "copy_loop k st (m(d := m a)) (d + st) (a + st) c \<in> range (m(d := m a))" by (rule Suc.IH)
  also have "range (m(d := m a)) \<subseteq> range m" by auto
  finally show ?case by simp
qed simp

interpretation nodes: taint_contract labels_ok known
proof
  fix s a b l s' assume u: "dfsan_union_uneq s a b = Some (l, s')" and ok: "labels_ok s" "known s a" "known s b"
  show "labels_ok s' \<and> known s' l \<and> (\<forall>x. known s x \<longrightarrow> known s' x)"
  proof (cases "a = 0 \<or> b = 0")
    case True
    then show ?thesis using u ok by (auto simp: dfsan_union_uneq_def split: if_splits)
  next
    case False
    then obtain t where c: "angora_tag_set_combine (tags s) a b = Some (l, t)" "s' = s\<lparr>tags := t\<rparr>"
      using u by (auto simp: dfsan_union_uneq_def put_tags_def)
    have "extends (tags s) t \<and> label_ok t l" using combine_wrap_ok [OF c(1)] ok by (simp add: labels_ok_def known_def)
    then show ?thesis using labels_ok_extends [OF ok(1)] c(2) by (simp add: known_def)
  qed
next
  fix s p n l s' assume r: "dfsan_read_label s p n = Some (l, s')" and ok: "labels_ok s"
  have z: "label_ok (tags s) 0" using ok label_ok_zero by (simp add: labels_ok_def)
  show "labels_ok s' \<and> known s' l \<and> (\<forall>x. known s x \<longrightarrow> known s' x)"
  proof (cases "n = 0 \<or> shadow_for p = 0")
    case True
    then show ?thesis using r ok z by (auto simp: dfsan_read_label_def known_def Let_def split: if_splits)
  next
    case False
    then show ?thesis using combine_cells_ok [OF _ ok] r by (simp add: dfsan_read_label_def Let_def)
  qed
next
  fix s p n l s' assume r: "dfsan_union_load s p n = Some (l, s')" and ok: "labels_ok s"
  have z: "label_ok (tags s) 0" using ok label_ok_zero by (simp add: labels_ok_def)
  show "labels_ok s' \<and> known s' l \<and> (\<forall>x. known s x \<longrightarrow> known s' x)"
  proof (cases "p = 0")
    case True
    then show ?thesis using r ok z by (auto simp: dfsan_union_load_def known_def split: if_splits)
  next
    case False
    then show ?thesis using combine_cells_ok [OF _ ok] r by (simp add: dfsan_union_load_def)
  qed
next
  fix s l p n s' assume "dfsan_set_label s l p n = Some s'" "labels_ok s" "known s l"
  then show "labels_ok s' \<and> (\<forall>x. known s x \<longrightarrow> known s' x)"
    by (auto simp: dfsan_set_label_def set_label_loop_eq labels_ok_def known_def split: if_splits)
next
  fix s d p n s' assume c: "copy_labels s d p n = Some s'" and ok: "labels_ok s"
  have "label_ok (tags s) (copy_loop k st (shadow s) e a c)" for k st e a c
    using copy_loop_range [of k st "shadow s" e a c] ok by (auto simp: labels_ok_def)
  then show "labels_ok s' \<and> (\<forall>x. known s x \<longrightarrow> known s' x)"
    using c ok by (auto simp: copy_labels_def labels_ok_def known_def Let_def split: if_splits)
next
  fix s a b l s' assume m: "dfsan_mark_signed s a b = Some (l, s')" and ok: "labels_ok s"
  then obtain s1 where t: "tag_call s a angora_tag_set_mark_sign = Some s1" "tag_call s1 b angora_tag_set_mark_sign = Some s'" "l = 0"
    by (auto simp: dfsan_mark_signed_def Option.bind_eq_Some_conv)
  have 1: "labels_ok s1 \<and> (\<forall>x. known s x \<longrightarrow> known s1 x)" by (rule tag_call_ok [OF t(1) ok mark_sign_wrap_ok])
  have "labels_ok s' \<and> (\<forall>x. known s1 x \<longrightarrow> known s' x)" by (rule tag_call_ok [OF t(2) _ mark_sign_wrap_ok]) (use 1 in auto)
  then show "labels_ok s' \<and> known s' l \<and> (\<forall>x. known s x \<longrightarrow> known s' x)"
    using 1 t(3) label_ok_zero by (auto simp: labels_ok_def known_def)
next
  fix s a b k s' assume m: "dfsan_infer_shape_in_math_op s a b k = Some s'" and ok: "labels_ok s"
  let ?f = "\<lambda>t l. angora_tag_set_infer_shape_in_math_op t l k"
  obtain s1 where t: "tag_call s a ?f = Some s1" "tag_call s1 b ?f = Some s'"
    using m by (auto simp: dfsan_infer_shape_in_math_op_def Option.bind_eq_Some_conv)
  have 1: "labels_ok s1 \<and> (\<forall>x. known s x \<longrightarrow> known s1 x)" by (rule tag_call_ok [OF t(1) ok infer_shape_wrap_ok])
  have "labels_ok s' \<and> (\<forall>x. known s1 x \<longrightarrow> known s' x)" by (rule tag_call_ok [OF t(2) _ infer_shape_wrap_ok]) (use 1 in auto)
  then show "labels_ok s' \<and> (\<forall>x. known s x \<longrightarrow> known s' x)" using 1 by blast
next
  fix s a s' assume c: "dfsan_combine_and_ins s a = Some s'" and ok: "labels_ok s"
  then obtain t where t: "angora_tag_set_combine_and (tags s) a = Some t" "s' = s\<lparr>tags := t\<rparr>"
    by (auto simp: dfsan_combine_and_ins_def)
  have "extends (tags s) t" using combine_and_wrap_ok [OF t(1)] ok by (simp add: labels_ok_def)
  then show "labels_ok s' \<and> (\<forall>x. known s x \<longrightarrow> known s' x)" using labels_ok_extends [OF ok] t(2) by simp
qed (auto simp: labels_ok_def known_def fun_eq_iff intro: label_ok_zero)

section \<open>No input, no labels\<close>

definition untainted :: "rt \<Rightarrow> bool" where
  "untainted s \<longleftrightarrow> (\<forall>c. shadow s c = 0) \<and> (\<exists>root. tags s = Some [root])"

lemma combine_n_zeros:
  assumes "set lbs \<subseteq> {0}"
  shows "angora_tag_set_combine_n tsl lbs infer = Some (0, tsl)"
proof -
  have "\<not> is_len_label 0" using not_len_label [of 0] by simp
  then have f: "filter is_len_label lbs = []" using assms by (auto simp: filter_empty_conv)
  have d: "dropWhile (\<lambda>l. l = 0) (map (\<lambda>l. unat (get_normal_label l)) lbs) = []" using assms by auto
  show ?thesis unfolding angora_tag_set_combine_n_def plain_label f Let_def combine_n_def d
    by (simp add: fat_zero split: option.split)
qed

lemma read_cells_zero: "read_cells s ls n = Some lbs \<Longrightarrow> untainted s \<Longrightarrow> set lbs \<subseteq> {0}"
  by (auto simp: untainted_def dest!: read_cells_set)

interpretation silence: taint_contract untainted "\<lambda>s l. l = 0"
proof
  fix s p n l s' assume "dfsan_read_label s p n = Some (l, s')" "untainted s"
  then show "untainted s' \<and> l = 0 \<and> (\<forall>x. x = 0 \<longrightarrow> x = 0)"
    by (auto simp: dfsan_read_label_def Let_def Option.bind_eq_Some_conv combine_n_zeros [OF read_cells_zero] put_tags_same split: if_splits)
next
  fix s p n l s' assume "dfsan_union_load s p n = Some (l, s')" "untainted s"
  then show "untainted s' \<and> l = 0 \<and> (\<forall>x. x = 0 \<longrightarrow> x = 0)"
    by (auto simp: dfsan_union_load_def Option.bind_eq_Some_conv combine_n_zeros [OF read_cells_zero] put_tags_same split: if_splits)
next
  fix s d p n s' assume "copy_labels s d p n = Some s'" and u: "untainted s"
  moreover have "copy_loop k st (shadow s) e a c = 0" for k st e a c
    using copy_loop_range [of k st "shadow s" e a c] u by (auto simp: untainted_def)
  ultimately show "untainted s' \<and> (\<forall>x. x = 0 \<longrightarrow> x = 0)"
    by (auto simp: copy_labels_def untainted_def Let_def split: if_splits)
next
  fix s a s' assume "dfsan_combine_and_ins s a = Some s'" "untainted s" "a = 0"
  then show "untainted s' \<and> (\<forall>x. x = 0 \<longrightarrow> x = 0)"
    by (auto simp: dfsan_combine_and_ins_def angora_tag_set_combine_and_def with_store_def combine_and_def tupd_def untainted_def)
qed (auto simp: untainted_def dfsan_union_uneq_def dfsan_set_label_def set_label_loop_eq dfsan_mark_signed_def
      dfsan_infer_shape_in_math_op_def tag_call_def split: if_splits)
section \<open>Properties of whole programs\<close>

lemma create_label_ok:
  assumes "dfsan_create_label s pos = Some (l, s')" "labels_ok s"
  shows "labels_ok s' \<and> known s' l \<and> (\<forall>x. known s x \<longrightarrow> known s' x)"
proof -
  obtain t where c: "angora_tag_set_insert (tags s) pos = Some (l, t)" "s' = s\<lparr>tags := t\<rparr>"
    using assms(1) by (auto simp: dfsan_create_label_def put_tags_def)
  have "extends (tags s) t \<and> label_ok t l" using insert_wrap_ok [OF c(1)] assms(2) by (simp add: labels_ok_def)
  then show ?thesis using labels_ok_extends [OF assms(2)] c(2) by (simp add: known_def)
qed

lemma run_zero: "run reads L s \<Longrightarrow> 0 \<in> L"
  by (induction rule: run.induct) auto


end
