(* ===== verification/Tag_Trie.thy ===== *)
theory Tag_Trie
  imports Tag_Set
begin

text \<open>
  What a label means.  The nodes of the label store form a binary trie whose paths are sets of input offsets: a right
  edge is an offset that belongs to the set, a left edge a run of offsets that do not.  The theory gives every node its
  set, shows that insertion and combination keep the trie and return a node of the singleton and of the union, and that
  a label means the same for ever after.  It covers stores in which no bytes have been grouped by \<open>infer_shape\<close>; the
  last section shows that grouping breaks the combination.
\<close>

section \<open>Computations that may run out of space\<close>

text \<open>The computation fails only if the store is full.\<close>

definition either :: "bool \<Rightarrow> 'a option \<Rightarrow> ('a \<Rightarrow> bool) \<Rightarrow> bool" where
  "either full x Q \<longleftrightarrow> (case x of None \<Rightarrow> full | Some y \<Rightarrow> Q y)"

lemma either_Some [simp]: "either full (Some y) Q \<longleftrightarrow> Q y"
  by (simp add: either_def)

lemma either_None [simp]: "either full None Q \<longleftrightarrow> full"
  by (simp add: either_def)

lemma either_bind:
  assumes "either f1 x P" "f1 \<Longrightarrow> f2" "\<And>y. P y \<Longrightarrow> either f2 (g y) Q"
  shows "either f2 (Option.bind x g) Q"
  using assms by (cases x) simp_all

lemma either_mono: "either f1 x P \<Longrightarrow> (f1 \<Longrightarrow> f2) \<Longrightarrow> (\<And>y. P y \<Longrightarrow> Q y) \<Longrightarrow> either f2 x Q"
  by (cases x) simp_all

section \<open>The trie\<close>

abbreviation first :: "TagSet \<Rightarrow> nat \<Rightarrow> nat" where
  "first ts i \<equiv> unat (seg_begin (tn_seg (ts ! i)))"

abbreviation depth :: "TagSet \<Rightarrow> nat \<Rightarrow> nat" where
  "depth ts i \<equiv> unat (seg_end (tn_seg (ts ! i)))"

text \<open>A node that can be a label: the root, or a node whose last edge is an offset of its set.\<close>

definition ones :: "TagSet \<Rightarrow> (nat \<Rightarrow> nat set) \<Rightarrow> nat \<Rightarrow> bool" where
  "ones ts B i \<longleftrightarrow> i < length ts \<and> (i = 0 \<or> 0 < depth ts i \<and> depth ts i - 1 \<in> B i)"

definition core_ok :: "TagSet \<Rightarrow> (nat \<Rightarrow> nat set) \<Rightarrow> nat \<Rightarrow> bool" where
  "core_ok ts B i \<longleftrightarrow> tn_parent (ts ! i) < length ts \<and> int (depth ts i) \<le> MAX_LB \<and> B i \<subseteq> {..<depth ts i} \<and>
     (i \<noteq> 0 \<and> ones ts B i \<longrightarrow> depth ts i = Suc (first ts i) \<and> ones ts B (tn_parent (ts ! i)) \<and>
        depth ts (tn_parent (ts ! i)) \<le> first ts i \<and> B i = insert (first ts i) (B (tn_parent (ts ! i))))"

definition left_ok :: "TagSet \<Rightarrow> (nat \<Rightarrow> nat set) \<Rightarrow> nat \<Rightarrow> bool" where
  "left_ok ts B i \<longleftrightarrow> (let l = tn_left (ts ! i) in l < length ts \<and>
     (l \<noteq> 0 \<longrightarrow> first ts l = depth ts i \<and> depth ts i < depth ts l \<and> B l = B i))"

definition right_ok :: "TagSet \<Rightarrow> (nat \<Rightarrow> nat set) \<Rightarrow> nat \<Rightarrow> bool" where
  "right_ok ts B i \<longleftrightarrow> (let r = tn_right (ts ! i) in r < length ts \<and>
     (r \<noteq> 0 \<longrightarrow> depth ts r = Suc (depth ts i) \<and> B r = insert (depth ts i) (B i)))"

definition node_ok :: "TagSet \<Rightarrow> (nat \<Rightarrow> nat set) \<Rightarrow> nat \<Rightarrow> bool" where
  "node_ok ts B i \<longleftrightarrow> core_ok ts B i \<and> left_ok ts B i \<and> right_ok ts B i"

definition trie :: "TagSet \<Rightarrow> (nat \<Rightarrow> nat set) \<Rightarrow> bool" where
  "trie ts B \<longleftrightarrow> ts \<noteq> [] \<and> first ts 0 = 0 \<and> depth ts 0 = 0 \<and> B 0 = {} \<and> (\<forall>i<length ts. node_ok ts B i) \<and>
     (\<forall>i<length ts. \<forall>j<length ts. tn_left (ts ! i) \<noteq> 0 \<longrightarrow> tn_left (ts ! i) = tn_left (ts ! j) \<longrightarrow> i = j)"

text \<open>A later store: the old nodes have the sets and the depths they had.\<close>

definition later :: "TagSet \<Rightarrow> (nat \<Rightarrow> nat set) \<Rightarrow> TagSet \<Rightarrow> (nat \<Rightarrow> nat set) \<Rightarrow> bool" where
  "later ts B ts' B' \<longleftrightarrow> trie ts' B' \<and> length ts \<le> length ts' \<and> (\<forall>i<length ts. B' i = B i \<and> depth ts' i = depth ts i)"

lemmas trie_node_defs = node_ok_def core_ok_def left_ok_def right_ok_def Let_def

lemma later_refl: "trie ts B \<Longrightarrow> later ts B ts B"
  by (simp add: later_def)

lemma later_trans: "later ts B t1 B1 \<Longrightarrow> later t1 B1 t2 B2 \<Longrightarrow> later ts B t2 B2"
  by (auto simp: later_def)

lemma later_ones: "later ts B ts' B' \<Longrightarrow> ones ts B i \<Longrightarrow> ones ts' B' i"
  by (auto simp: later_def ones_def)

lemma trie_new: "trie TagSet_new (\<lambda>_. {})"
  by (simp add: trie_def TagSet_new_def TagNode_new_def trie_node_defs MAX_LB_def ones_def)

lemma trie_node: "trie ts B \<Longrightarrow> i < length ts \<Longrightarrow> node_ok ts B i"
  by (simp add: trie_def)

lemma root_ones: "trie ts B \<Longrightarrow> ones ts B 0"
  by (simp add: trie_def ones_def)

text \<open>One step up the chain of a label.\<close>

lemma label_step:
  assumes "trie ts B" "ones ts B i" "i \<noteq> 0"
  shows "depth ts i = Suc (first ts i)" "ones ts B (tn_parent (ts ! i))" "depth ts (tn_parent (ts ! i)) \<le> first ts i"
    "B i = insert (first ts i) (B (tn_parent (ts ! i)))" "int (first ts i) < MAX_LB"
proof -
  have n: "node_ok ts B i" using assms by (simp add: trie_def ones_def)
  with assms(2,3) show "depth ts i = Suc (first ts i)" "ones ts B (tn_parent (ts ! i))"
    "depth ts (tn_parent (ts ! i)) \<le> first ts i" "B i = insert (first ts i) (B (tn_parent (ts ! i)))"
    by (simp_all add: node_ok_def core_ok_def)
  with n show "int (first ts i) < MAX_LB" by (simp add: node_ok_def core_ok_def)
qed

lemma below: "trie ts B \<Longrightarrow> i < length ts \<Longrightarrow> x \<in> B i \<Longrightarrow> x < depth ts i"
  by (auto simp: trie_def node_ok_def core_ok_def)

section \<open>Adding nodes\<close>

text \<open>Changing what the trie does not look at: the signs and the group flags.\<close>

lemma trie_irrelevant:
  assumes "trie ts B" "tupd ts i f = Some ts'"
    "\<And>n. tn_left (f n) = tn_left n" "\<And>n. tn_right (f n) = tn_right n" "\<And>n. tn_parent (f n) = tn_parent n"
    "\<And>n. seg_begin (tn_seg (f n)) = seg_begin (tn_seg n)" "\<And>n. seg_end (tn_seg (f n)) = seg_end (tn_seg n)"
  shows "later ts B ts' B"
proof -
  have i: "i < length ts" "ts' = ts[i := f (ts ! i)]" using assms(2) by (auto simp: tupd_def split: if_splits)
  have same: "tn_left (ts' ! j) = tn_left (ts ! j)" "tn_right (ts' ! j) = tn_right (ts ! j)"
    "tn_parent (ts' ! j) = tn_parent (ts ! j)" "seg_begin (tn_seg (ts' ! j)) = seg_begin (tn_seg (ts ! j))"
    "seg_end (tn_seg (ts' ! j)) = seg_end (tn_seg (ts ! j))" for j
    using i assms(3-7) by (cases "j = i"; simp)+
  have l: "length ts' = length ts" using i by simp
  have "trie ts' B" using assms(1) l unfolding trie_def trie_node_defs ones_def same by auto
  then show ?thesis using same(5) l by (simp add: later_def)
qed

text \<open>Adding nodes at the end leaves the parts of a node that are not written as they were.\<close>

definition grows :: "TagSet \<Rightarrow> (nat \<Rightarrow> nat set) \<Rightarrow> TagSet \<Rightarrow> (nat \<Rightarrow> nat set) \<Rightarrow> bool" where
  "grows ts B ts' B' \<longleftrightarrow> length ts \<le> length ts' \<and> (\<forall>i<length ts. B' i = B i \<and> depth ts' i = depth ts i)"

lemma grows_ones: "grows ts B ts' B' \<Longrightarrow> i < length ts \<Longrightarrow> ones ts' B' i = ones ts B i"
  by (auto simp: grows_def ones_def)

lemma core_frame:
  assumes "grows ts B ts' B'" "i < length ts" "core_ok ts B i" "tn_parent (ts' ! i) = tn_parent (ts ! i)"
    "ones ts B i \<and> i \<noteq> 0 \<Longrightarrow> first ts' i = first ts i"
  shows "core_ok ts' B' i"
proof -
  let ?p = "tn_parent (ts ! i)"
  have "?p < length ts" using assms(3) by (simp add: core_ok_def)
  then show ?thesis using assms grows_ones [OF assms(1), of i] grows_ones [OF assms(1), of ?p]
    by (auto simp: core_ok_def grows_def)
qed

lemma left_frame:
  assumes "grows ts B ts' B'" "i < length ts" "left_ok ts B i" "tn_left (ts' ! i) = tn_left (ts ! i)"
    "tn_left (ts ! i) \<noteq> 0 \<Longrightarrow> first ts' (tn_left (ts ! i)) = first ts (tn_left (ts ! i))"
  shows "left_ok ts' B' i"
  using assms by (auto simp: left_ok_def grows_def Let_def)

lemma right_frame:
  assumes "grows ts B ts' B'" "i < length ts" "right_ok ts B i" "tn_right (ts' ! i) = tn_right (ts ! i)"
  shows "right_ok ts' B' i"
  using assms by (auto simp: right_ok_def grows_def Let_def)

text \<open>The four stores that the insertion loops build: a leaf on the right, a leaf on the left, and a split run on the
  left.\<close>

lemma right_leaf:
  assumes "trie ts B" "cur < length ts" "tn_right (ts ! cur) = 0" "ones ts B lst" "B lst = B cur"
    "int (depth ts cur) < MAX_LB" "seg_begin (tn_seg x) = seg_end (tn_seg (ts ! cur))"
    "seg_end (tn_seg x) = seg_end (tn_seg (ts ! cur)) + 1" "tn_left x = 0" "tn_right x = 0" "tn_parent x = lst"
  defines "n \<equiv> length ts" and "ts' \<equiv> (ts @ [x])[cur := (ts ! cur)\<lparr>tn_right := length ts\<rparr>]"
    and "B' \<equiv> B(length ts := insert (depth ts cur) (B cur))"
  shows "later ts B ts' B' \<and> ones ts' B' n \<and> depth ts' n = Suc (depth ts cur) \<and> B' n = insert (depth ts cur) (B cur)"
proof -
  have len: "length ts' = Suc n" by (simp add: ts'_def n_def)
  have at: "ts' ! i = (if i = cur then (ts ! cur)\<lparr>tn_right := n\<rparr> else ts ! i)" if "i < n" for i
    using that assms(2) by (simp add: ts'_def n_def nth_append)
  have new: "ts' ! n = x" using assms(2) by (simp add: ts'_def n_def)
  have pos: "0 < n" using assms(2) by (auto simp: n_def)
  have d: "depth ts' n = Suc (depth ts cur)"
  proof -
    have "depth ts cur < 4194303" using assms(6) unfolding MAX_LB_def by linarith
    then show ?thesis unfolding new assms(8) by (simp add: unat_word_ariths)
  qed
  have g: "grows ts B ts' B'" using len at by (simp add: grows_def B'_def n_def)
  have sub: "B cur \<subseteq> {..<depth ts cur}" using assms(1,2) by (auto simp: trie_def node_ok_def core_ok_def)
  have "lst < n" using assms(4) by (simp add: ones_def n_def)
  moreover from this have ol: "ones ts' B' lst" using grows_ones [OF g] assms(4) n_def by simp
  moreover have "depth ts lst \<le> depth ts cur" using assms(4,5) sub assms(1) by (auto simp: ones_def trie_def)
  ultimately have cn: "core_ok ts' B' n"
    using d sub assms(5-8,11) at len pos by (auto simp: core_ok_def new B'_def n_def [symmetric] less_Suc_eq)
  have "node_ok ts' B' i" if "i < n" for i
  proof -
    have ni: "core_ok ts B i" "left_ok ts B i" "right_ok ts B i" using trie_node [OF assms(1)] that by (simp_all add: node_ok_def n_def)
    have c: "core_ok ts' B' i" by (rule core_frame [OF g _ ni(1)]) (use that at n_def in auto)
    have "tn_left (ts ! i) < n" using ni(2) by (simp add: left_ok_def Let_def n_def)
    then have l: "left_ok ts' B' i" by (intro left_frame [OF g _ ni(2)]) (use that at n_def in auto)
    have "right_ok ts' B' i"
    proof (cases "i = cur")
      case True
      then show ?thesis using at [OF that] len d by (simp add: right_ok_def Let_def B'_def n_def [symmetric] del: One_nat_def)
    next
      case False
      show ?thesis by (rule right_frame [OF g _ ni(3)]) (use that at False n_def in auto)
    qed
    with c l show ?thesis by (simp add: node_ok_def)
  qed
  moreover have "node_ok ts' B' n" using cn new assms(9,10) len by (simp add: node_ok_def left_ok_def right_ok_def Let_def)
  ultimately have "\<forall>i<length ts'. node_ok ts' B' i" using len less_Suc_eq by simp
  moreover have "\<forall>i<length ts'. \<forall>j<length ts'. tn_left (ts' ! i) \<noteq> 0 \<longrightarrow> tn_left (ts' ! i) = tn_left (ts' ! j) \<longrightarrow> i = j"
  proof -
    have "tn_left (ts' ! i) = (if i < n then tn_left (ts ! i) else 0)" if "i < length ts'" for i
      using that at new assms(9) len by (cases "i = n") auto
    then show ?thesis using assms(1) by (auto simp: trie_def n_def)
  qed
  moreover have "first ts' 0 = 0" using at [OF pos] assms(1) by (simp add: trie_def)
  ultimately have "trie ts' B'" using g assms(1) len pos by (auto simp: trie_def grows_def B'_def)
  then show ?thesis using g d by (auto simp: later_def grows_def ones_def B'_def n_def len)
qed

lemma left_node:
  fixes ts ts' :: TagSet and B :: "nat \<Rightarrow> nat set" and cur :: nat and w :: u32
  defines "n \<equiv> length ts" and "nxt \<equiv> tn_left (ts ! cur)" and "B' \<equiv> B(length ts := B cur)"
  assumes "trie ts B" "cur < length ts" "length ts' = Suc n" "ts' ! n = x"
    and at: "\<And>i. i < n \<Longrightarrow> ts' ! i = (if i = cur then (ts ! cur)\<lparr>tn_left := n\<rparr>
        else if i = nxt \<and> nxt \<noteq> 0 then set_begin w (ts ! nxt) else ts ! i)"
    and x: "seg_begin (tn_seg x) = seg_end (tn_seg (ts ! cur))" "unat (seg_end (tn_seg x)) = unat w" "depth ts cur < unat w"
      "int (unat w) \<le> MAX_LB" "tn_left x = nxt" "tn_right x = 0" "tn_parent x < n" "nxt \<noteq> 0 \<Longrightarrow> unat w < depth ts nxt"
  shows "later ts B ts' B' \<and> depth ts' n = unat w \<and> B' n = B cur"
proof -
  note len = assms(6) and new = assms(7)
  have pos: "0 < n" using assms(5) by (auto simp: n_def)
  have lc: "left_ok ts B cur" using trie_node [OF assms(4,5)] by (simp add: node_ok_def)
  have nx: "nxt < n" "nxt \<noteq> 0 \<Longrightarrow> first ts nxt = depth ts cur \<and> depth ts cur < depth ts nxt \<and> B nxt = B cur"
    using lc by (auto simp: left_ok_def Let_def nxt_def n_def)
  then have nc: "nxt \<noteq> 0 \<Longrightarrow> nxt \<noteq> cur" by auto
  have sub: "B cur \<subseteq> {..<depth ts cur}" using assms(4,5) by (auto simp: trie_def node_ok_def core_ok_def)
  have nones: "\<not> ones ts B nxt" if "nxt \<noteq> 0"
    using that nx sub by (auto simp: ones_def)
  have dep: "depth ts' i = depth ts i" if "i < n" for i using that at nc by auto
  have g: "grows ts B ts' B'" using len dep by (simp add: grows_def B'_def n_def)
  have d: "depth ts' n = unat w" using new x(2) by simp
  have "\<not> ones ts' B' n" using d sub x(3) pos by (auto simp: ones_def B'_def n_def)
  then have cn: "core_ok ts' B' n" using d sub x len new by (auto simp: core_ok_def B'_def n_def)
  have ln: "left_ok ts' B' n" using nx nc x at d dep new len by (auto simp: left_ok_def Let_def B'_def n_def)
  have nn: "node_ok ts' B' n" using cn ln new x(6) len by (simp add: node_ok_def right_ok_def Let_def)
  have "node_ok ts' B' i" if i: "i < n" for i
  proof -
    have ni: "core_ok ts B i" "left_ok ts B i" "right_ok ts B i" using trie_node [OF assms(4)] that by (simp_all add: node_ok_def n_def)
    have c: "core_ok ts' B' i" by (rule core_frame [OF g _ ni(1)]) (use i at nc nones n_def in auto)
    have r: "right_ok ts' B' i" by (rule right_frame [OF g _ ni(3)]) (use i at nc n_def in auto)
    have "left_ok ts' B' i"
    proof (cases "i = cur")
      case True
      then show ?thesis using at [OF i] new x d dep [of cur] i len by (simp add: left_ok_def Let_def B'_def n_def [symmetric])
    next
      case False
      have "tn_left (ts ! i) < n" using ni(2) by (simp add: left_ok_def Let_def n_def)
      moreover have "tn_left (ts ! i) \<noteq> nxt" if "tn_left (ts ! i) \<noteq> 0"
        using that False assms(4,5) i by (auto simp: trie_def nxt_def n_def)
      ultimately show ?thesis by (intro left_frame [OF g _ ni(2)]) (use i at nc False n_def in auto)
    qed
    with c r show ?thesis by (simp add: node_ok_def)
  qed
  with nn have "\<forall>i<length ts'. node_ok ts' B' i" using len less_Suc_eq by simp
  moreover have "\<forall>i<length ts'. \<forall>j<length ts'. tn_left (ts' ! i) \<noteq> 0 \<longrightarrow> tn_left (ts' ! i) = tn_left (ts' ! j) \<longrightarrow> i = j"
  proof -
    have "tn_left (ts' ! i) = (if i = cur then n else if i = n then nxt else tn_left (ts ! i))" if "i < length ts'" for i
      using that at [of i] nc new x(5) len assms(5) by (cases "i = n") (auto simp: n_def)
    note L = this
    have old: "tn_left (ts ! i) < n \<and> (tn_left (ts ! i) \<noteq> 0 \<longrightarrow> tn_left (ts ! i) \<noteq> nxt)" if "i < n" "i \<noteq> cur" for i
    proof -
      have "tn_left (ts ! i) < n" using that trie_node [OF assms(4), of i] by (simp add: node_ok_def left_ok_def Let_def n_def)
      moreover have "i = cur" if "tn_left (ts ! i) \<noteq> 0" "tn_left (ts ! i) = nxt"
        using that assms(4,5) \<open>i < n\<close> unfolding trie_def nxt_def n_def by blast
      ultimately show ?thesis using that(2) by blast
    qed
    show ?thesis
    proof (intro allI impI)
      fix i j assume b: "i < length ts'" "j < length ts'" and e: "tn_left (ts' ! i) \<noteq> 0" "tn_left (ts' ! i) = tn_left (ts' ! j)"
      have k: "tn_left (ts' ! i) = n \<Longrightarrow> i = cur" "tn_left (ts' ! i) = nxt \<Longrightarrow> i = n" if "i < length ts'" "tn_left (ts' ! i) \<noteq> 0" for i
        using that L [OF that(1)] old [of i] nx(1) len assms(5) by (auto simp: n_def less_Suc_eq split: if_splits)
      show "i = j"
      proof (cases "i = cur \<or> i = n")
        case True
        then have "tn_left (ts' ! i) = n \<or> tn_left (ts' ! i) = nxt" using L [OF b(1)] by auto
        moreover have "tn_left (ts' ! j) \<noteq> 0" using e by simp
        ultimately show ?thesis using k(1) [OF b(1) e(1)] k(2) [OF b(1) e(1)] k(1) [OF b(2)] k(2) [OF b(2)] e(2) by metis
      next
        case False
        then have "tn_left (ts' ! i) = tn_left (ts ! i)" "i < n" using L [OF b(1)] b len by auto
        moreover have "j \<noteq> cur \<and> j \<noteq> n" using calculation old [of i] False e L [OF b(2)] assms(5) by (auto simp: n_def split: if_splits)
        moreover from this have "tn_left (ts' ! j) = tn_left (ts ! j)" "j < n" using L [OF b(2)] b len by auto
        moreover have "\<forall>i<n. \<forall>j<n. tn_left (ts ! i) \<noteq> 0 \<longrightarrow> tn_left (ts ! i) = tn_left (ts ! j) \<longrightarrow> i = j"
          using assms(4) by (simp add: trie_def n_def)
        ultimately show ?thesis using e by metis
      qed
    qed
  qed
  moreover have "first ts' 0 = 0" using at [OF pos] assms(4) by (auto simp: trie_def)
  ultimately have "trie ts' B'" using g assms(4) len pos by (auto simp: trie_def grows_def B'_def)
  then show ?thesis using g d by (auto simp: later_def grows_def B'_def n_def len)
qed

section \<open>Insertion\<close>

lemma unat_plus: "int (unat a + unat b) \<le> MAX_LB \<Longrightarrow> unat (a + b) = unat a + unat b" for a b :: u32
proof -
  assume "int (unat a + unat b) \<le> MAX_LB"
  then have "unat a + unat b \<le> 4194303" unfolding MAX_LB_def by linarith
  then show ?thesis by (simp add: unat_word_ariths)
qed

lemma new_node_eq: "new_node ts p b e = (if int (length ts) < MAX_LB then Some (length ts, ts @ [TagNode_new p b e]) else None)"
  by (simp add: new_node_def)

text \<open>A run of zeros leads to the node of the same set at the greater depth.\<close>

lemma zeros_loop_trie:
  assumes "trie ts B" "cur < length ts" "int (depth ts cur + unat m) \<le> MAX_LB" "lst < length ts" "unat m \<le> k"
  shows "either (int (length ts) \<ge> MAX_LB) (zeros_loop k ts cur m lst)
    (\<lambda>(lb, ts'). \<exists>B'. later ts B ts' B' \<and> lb < length ts' \<and> depth ts' lb = depth ts cur + unat m \<and> B' lb = B cur \<and>
       length ts' \<le> Suc (length ts))"
  using assms
proof (induction k arbitrary: cur m)
  case 0
  then have "m = 0" by (simp add: unat_eq_0)
  then show ?case using 0 later_refl by auto
next
  case (Suc k)
  show ?case
  proof (cases "m = 0")
    case True
    then show ?thesis using Suc.prems later_refl by auto
  next
    case m: False
    let ?c = "ts ! cur" and ?n = "length ts" and ?w = "seg_end (tn_seg (ts ! cur)) + m"
    let ?nxt = "tn_left ?c"
    have mp: "0 < unat m" using m by (simp add: unat_gt_0)
    have w: "unat ?w = depth ts cur + unat m" by (rule unat_plus [OF Suc.prems(3)])
    have lc: "left_ok ts B cur" using trie_node [OF Suc.prems(1,2)] by (simp add: node_ok_def)
    then have nl: "?nxt < ?n" by (simp add: left_ok_def Let_def)
    have sz: "unat (get_seg_size (ts ! ?nxt)) = depth ts ?nxt - depth ts cur" "depth ts cur < depth ts ?nxt" "B ?nxt = B cur"
      if "?nxt \<noteq> 0"
      using that lc by (simp_all add: left_ok_def Let_def get_seg_size_def unat_sub word_le_nat_alt)
    let ?x = "TagNode_new lst (seg_end (tn_seg ?c)) ?w"
    note new = left_node [OF Suc.prems(1,2), of _ _ ?w]
    consider (leaf) "?nxt = 0" | (split) "?nxt \<noteq> 0" "get_seg_size (ts ! ?nxt) > m" | (step) "?nxt \<noteq> 0" "get_seg_size (ts ! ?nxt) \<le> m"
      by fastforce
    then show ?thesis
    proof cases
      case leaf
      let ?t = "(ts @ [?x])[cur := ?c\<lparr>tn_left := ?n\<rparr>]"
      have "later ts B ?t (B(?n := B cur)) \<and> depth ?t ?n = unat ?w \<and> (B(?n := B cur)) ?n = B cur"
        by (rule new [where x = ?x]) (use Suc.prems leaf w mp in \<open>auto simp: TagNode_new_def nth_append\<close>)
      then show ?thesis using leaf m Suc.prems nl w
        by (auto simp: tnode_def new_node_eq tupd_def nth_append Let_def)
    next
      case split
      let ?t = "(ts @ [?x\<lparr>tn_left := ?nxt\<rparr>])[cur := ?c\<lparr>tn_left := ?n\<rparr>, ?nxt := set_begin ?w (ts ! ?nxt)]"
      have nc: "?nxt \<noteq> cur" using sz(2) split(1) by auto
      have "unat ?w < depth ts ?nxt" using split sz w by (simp add: word_less_nat_alt)
      then have l: "later ts B ?t (B(?n := B cur)) \<and> depth ?t ?n = unat ?w \<and> (B(?n := B cur)) ?n = B cur"
        by (intro new [where x = "?x\<lparr>tn_left := ?nxt\<rparr>"])
          (use Suc.prems split w mp nl nc in \<open>auto simp: TagNode_new_def nth_append nth_list_update\<close>)
      have "zeros_loop (Suc k) ts cur m lst = (if int ?n < MAX_LB then Some (?n, ?t) else None)"
        using split m Suc.prems nl nc
        by (simp add: tnode_def new_node_eq tupd_def nth_append Let_def list_update_append nth_list_update)
      then show ?thesis using l w by auto
    next
      case step
      let ?r = "m - get_seg_size (ts ! ?nxt)"
      have r: "unat ?r = unat m - unat (get_seg_size (ts ! ?nxt))" using step(2) by (simp add: unat_sub)
      have le: "unat (get_seg_size (ts ! ?nxt)) \<le> unat m" using step(2) by (simp add: word_le_nat_alt)
      have dr: "depth ts ?nxt + unat ?r = depth ts cur + unat m" using r le sz [OF step(1)] by linarith
      moreover have "unat ?r \<le> k" using r le sz [OF step(1)] Suc.prems(5) by linarith
      ultimately have "either (int ?n \<ge> MAX_LB) (zeros_loop k ts ?nxt ?r lst)
          (\<lambda>(lb, ts'). \<exists>B'. later ts B ts' B' \<and> lb < length ts' \<and> depth ts' lb = depth ts cur + unat m \<and> B' lb = B cur \<and>
             length ts' \<le> Suc ?n)"
        using Suc.IH [of ?nxt ?r] Suc.prems nl sz(3) [OF step(1)] by simp
      moreover have "\<not> get_seg_size (ts ! ?nxt) > m" using step(2) by simp
      ultimately show ?thesis using step(1) m Suc.prems(2) nl by (simp add: tnode_def Let_def)
    qed
  qed
qed

text \<open>A single one leads to the node with the offset added; nodes whose runs of ones are single are never split.\<close>

lemma insert_one_trie:
  assumes "trie ts B" "cur < length ts" "int (depth ts cur) < MAX_LB" "ones ts B lst" "B lst = B cur"
  shows "either (int (length ts) \<ge> MAX_LB) (insert_n_ones ts cur 1 lst)
    (\<lambda>(lb, ts'). \<exists>B'. later ts B ts' B' \<and> ones ts' B' lb \<and> depth ts' lb = Suc (depth ts cur) \<and>
       B' lb = insert (depth ts cur) (B cur) \<and> length ts' \<le> Suc (length ts))"
proof -
  let ?c = "ts ! cur" and ?n = "length ts"
  let ?r = "tn_right ?c"
  obtain k where k: "unat (1::u32) + ?n = Suc k" "k = Suc (k - 1)" using assms(2) by (cases ?n) auto
  have rc: "right_ok ts B cur" using trie_node [OF assms(1,2)] by (simp add: node_ok_def)
  then have rl: "?r < ?n" by (simp add: right_ok_def Let_def)
  show ?thesis
  proof (cases "?r = 0")
    case True
    let ?x = "TagNode_new lst (seg_end (tn_seg ?c)) (seg_end (tn_seg ?c) + 1)"
    let ?t = "(ts @ [?x])[cur := ?c\<lparr>tn_right := ?n\<rparr>]" and ?B = "B(?n := insert (depth ts cur) (B cur))"
    have l: "later ts B ?t ?B \<and> ones ?t ?B ?n \<and> depth ?t ?n = Suc (depth ts cur) \<and> ?B ?n = insert (depth ts cur) (B cur)"
      by (rule right_leaf) (use assms True in \<open>simp_all add: TagNode_new_def\<close>)
    have "insert_n_ones ts cur 1 lst = (if int ?n < MAX_LB then Some (?n, ?t) else None)"
      unfolding insert_n_ones_def k(1) using True assms(2) by (simp add: tnode_def new_node_eq tupd_def Let_def nth_append)
    then show ?thesis using l by auto
  next
    case False
    then have d: "depth ts ?r = Suc (depth ts cur)" "B ?r = insert (depth ts cur) (B cur)"
      using rc by (simp_all add: right_ok_def Let_def)
    then have "unat (seg_end (tn_seg (ts ! ?r)) - seg_end (tn_seg ?c)) = 1"
      by (simp add: unat_sub word_le_nat_alt)
    then have one: "seg_end (tn_seg (ts ! ?r)) - seg_end (tn_seg ?c) = 1" by (simp add: word_unat_eq_iff)
    have "insert_n_ones ts cur 1 lst = Some (?r, ts)"
      unfolding insert_n_ones_def k(1) ones_loop.simps using False assms(2) rl
      by (simp add: tnode_def Let_def one) (subst k(2), simp)
    moreover have "ones ts B ?r" using rl d by (simp add: ones_def)
    ultimately show ?thesis using d later_refl [OF assms(1)] by auto
  qed
qed

lemma tag_insert_trie:
  assumes "trie ts B" "int (unat pos) < MAX_LB"
  shows "either (int (length ts) + 1 \<ge> MAX_LB) (tag_insert ts pos)
    (\<lambda>(lb, ts'). \<exists>B'. later ts B ts' B' \<and> ones ts' B' lb \<and> B' lb = {unat pos} \<and> length ts' \<le> length ts + 2)"
  unfolding tag_insert_def insert_n_zeros_def
proof (rule either_bind [OF zeros_loop_trie])
  show "trie ts B" "0 < length ts" "0 < length ts" using assms(1) by (auto simp: trie_def)
  show "int (depth ts 0 + unat pos) \<le> MAX_LB" using assms by (auto simp: trie_def)
  fix y assume "case y of (lb, ts') \<Rightarrow> \<exists>B'. later ts B ts' B' \<and> lb < length ts' \<and> depth ts' lb = depth ts 0 + unat pos \<and>
      B' lb = B 0 \<and> length ts' \<le> Suc (length ts)"
  then obtain z t B1 where y: "y = (z, t)" and t: "later ts B t B1" "z < length t" "depth t z = depth ts 0 + unat pos"
      "B1 z = B 0" "length t \<le> Suc (length ts)" by (cases y) auto
  have r: "trie t B1" "ones t B1 0" "B1 0 = {}" "B 0 = {}" "depth ts 0 = 0"
    using t(1) assms(1) root_ones by (auto simp: later_def trie_def)
  have "either (MAX_LB \<le> int (length t)) (insert_n_ones t z 1 0)
      (\<lambda>(lb, ts'). \<exists>B'. later t B1 ts' B' \<and> ones ts' B' lb \<and> depth ts' lb = Suc (depth t z) \<and>
         B' lb = insert (depth t z) (B1 z) \<and> length ts' \<le> Suc (length t))"
    by (rule insert_one_trie) (use r t assms(2) in auto)
  then show "either (MAX_LB \<le> int (length ts) + 1) (case y of (cur_lb, ts1) \<Rightarrow> insert_n_ones ts1 cur_lb 1 0)
      (\<lambda>(lb, ts'). \<exists>B'. later ts B ts' B' \<and> ones ts' B' lb \<and> B' lb = {unat pos} \<and> length ts' \<le> length ts + 2)"
    unfolding y prod.case
    by (rule either_mono) (use t r in \<open>fastforce intro: later_trans\<close>)+
qed auto

section \<open>The offsets of a label\<close>

definition offsets :: "TagSeg list \<Rightarrow> nat set" where
  "offsets segs = (\<Union>g \<in> set segs. {unat (seg_begin g)..<unat (seg_end g)})"

lemma split_and_unit:
  assumes "i < length ts" "depth ts i = Suc (first ts i)"
  shows "split_and_op ts i = Some ts"
proof -
  have "unat (seg_end (tn_seg (ts ! i)) - seg_begin (tn_seg (ts ! i))) = 1"
    using assms(2) by (simp add: unat_sub word_le_nat_alt)
  then have "seg_end (tn_seg (ts ! i)) - seg_begin (tn_seg (ts ! i)) = 1" by (simp add: word_unat_eq_iff)
  then show ?thesis using assms(1) by (simp add: split_and_op_def tnode_def)
qed

lemma find_loop_trie:
  assumes "trie ts B" "ones ts B lb" "depth ts lb \<le> unat lastb" "depth ts lb \<le> k"
    and "sorted_wrt (\<lambda>g h. seg_begin g < seg_begin h) acc" "\<forall>g\<in>set acc. unat lastb \<le> unat (seg_begin g)"
  shows "\<exists>segs. find_loop k ts lb lastb acc = Some (segs, ts) \<and> offsets segs = B lb \<union> offsets acc \<and>
    sorted_wrt (\<lambda>g h. seg_begin g < seg_begin h) segs"
  using assms(2-)
proof (induction k arbitrary: lb lastb acc)
  case 0
  then have "lb = 0" by (auto simp: ones_def)
  then show ?case using 0 assms(1) by (simp add: find_loop.simps [of 0] trie_def)
next
  case (Suc k)
  show ?case
  proof (cases "lb = 0")
    case True
    then show ?thesis using Suc.prems assms(1) by (simp add: find_loop.simps [of "Suc k"] trie_def)
  next
    case False
    let ?t = "tn_seg (ts ! lb)" and ?p = "tn_parent (ts ! lb)"
    note st = label_step [OF assms(1) Suc.prems(1) False]
    have lb: "lb < length ts" using Suc.prems(1) by (simp add: ones_def)
    have less: "seg_begin ?t < lastb" using st(1) Suc.prems(2) by (simp add: word_less_nat_alt)
    have seg: "{unat (seg_begin ?t)..<unat (seg_end ?t)} = {first ts lb}" using st(1) by auto
    have "\<exists>segs. find_loop k ts ?p (seg_begin ?t) (?t # acc) = Some (segs, ts) \<and> offsets segs = B ?p \<union> offsets (?t # acc) \<and>
        sorted_wrt (\<lambda>g h. seg_begin g < seg_begin h) segs"
      by (rule Suc.IH) (use st Suc.prems less in \<open>auto simp: word_less_nat_alt\<close>)
    then show ?thesis using less st(4) lb seg split_and_unit [OF lb st(1)] False
      by (subst find_loop.simps) (auto simp: tnode_def offsets_def Let_def)
  qed
qed

lemma tag_find_trie:
  assumes "trie ts B" "ones ts B lb"
  shows "\<exists>segs. tag_find ts lb = Some (segs, ts) \<and> offsets segs = B lb \<and> sorted_wrt (\<lambda>g h. seg_begin g < seg_begin h) segs"
proof (cases "lb = 0")
  case True
  then show ?thesis using assms(1) by (simp add: tag_find_def trie_def offsets_def)
next
  case False
  have lb: "lb < length ts" using assms(2) by (simp add: ones_def)
  have "int (depth ts lb) \<le> MAX_LB" using assms(1) lb by (simp add: trie_def node_ok_def core_ok_def)
  then have "depth ts lb \<le> 4194303" unfolding MAX_LB_def by linarith
  then have "depth ts lb \<le> unat (of_int MAX_LB :: u32)" by (simp add: MAX_LB_def)
  then show ?thesis using find_loop_trie [OF assms, of "of_int MAX_LB" "depth ts lb + length ts" "[]"] False lb
    by (simp add: tag_find_def tnode_def offsets_def)
qed

section \<open>Combination\<close>

lemma label_finite: "trie ts B \<Longrightarrow> i < length ts \<Longrightarrow> finite (B i)"
  using finite_subset [of "B i" "{..<depth ts i}"] by (auto simp: trie_def node_ok_def core_ok_def)

lemma label_pop:
  assumes "trie ts B" "ones ts B i" "i \<noteq> 0"
  shows "first ts i \<notin> B (tn_parent (ts ! i))" "card (B i) = Suc (card (B (tn_parent (ts ! i))))"
    "x \<in> B (tn_parent (ts ! i)) \<Longrightarrow> x < first ts i"
proof -
  note st = label_step [OF assms]
  have p: "tn_parent (ts ! i) < length ts" using st(2) by (simp add: ones_def)
  show b: "x \<in> B (tn_parent (ts ! i)) \<Longrightarrow> x < first ts i" for x using below [OF assms(1) p] st(3) by fastforce
  then show n: "first ts i \<notin> B (tn_parent (ts ! i))" by blast
  then show "card (B i) = Suc (card (B (tn_parent (ts ! i))))" using st(4) label_finite [OF assms(1) p] by simp
qed

text \<open>A label has fewer offsets than there are nodes, since each is the last edge of a node of its chain.\<close>

lemma label_card:
  assumes "trie ts B" "ones ts B i"
  shows "card (B i) \<le> length ts"
proof -
  have "\<exists>f. inj_on f (B i) \<and> f ` B i \<subseteq> {j. j < length ts \<and> depth ts j \<le> depth ts i}"
    using assms(2)
  proof (induction "depth ts i" arbitrary: i rule: less_induct)
    case less
    show ?case
    proof (cases "i = 0")
      case True
      then show ?thesis using assms(1) by (simp add: trie_def)
    next
      case False
      note st = label_step [OF assms(1) less.prems False] and pop = label_pop [OF assms(1) less.prems False]
      let ?p = "tn_parent (ts ! i)"
      obtain f where f: "inj_on f (B ?p)" "f ` B ?p \<subseteq> {j. j < length ts \<and> depth ts j \<le> depth ts ?p}"
        using less.hyps [of ?p] st by auto
      have "i \<notin> f ` B ?p" using f(2) st(1,3) by auto
      then have "inj_on (f(first ts i := i)) (B i)" unfolding st(4) using f(1) pop(1) by (auto simp: inj_on_fun_updI)
      moreover have "(f(first ts i := i)) ` B i \<subseteq> {j. j < length ts \<and> depth ts j \<le> depth ts i}"
        unfolding st(4) using f(2) pop(1) st(1,3) less.prems by (fastforce simp: ones_def)
      ultimately show ?thesis by blast
    qed
  qed
  then obtain f where "inj_on f (B i)" "f ` B i \<subseteq> {..<length ts}" by auto
  then show ?thesis using card_inj_on_le [of f "B i" "{..<length ts}"] by simp
qed

text \<open>The stack of the walk: labels with increasing last offsets.\<close>

definition stack_ok :: "TagSet \<Rightarrow> (nat \<Rightarrow> nat set) \<Rightarrow> nat list \<Rightarrow> bool" where
  "stack_ok ts B st \<longleftrightarrow> list_all (\<lambda>l. ones ts B l \<and> l \<noteq> 0) st \<and> sorted_wrt (\<lambda>l l'. first ts l < first ts l') st"

definition upto :: "TagSet \<Rightarrow> nat \<Rightarrow> nat list \<Rightarrow> nat set \<Rightarrow> bool" where
  "upto ts lastb st X \<longleftrightarrow> (st \<noteq> [] \<longrightarrow> first ts (hd st) = lastb) \<and> (\<forall>x\<in>X. x < lastb \<or> x = lastb \<and> st \<noteq> [])"

lemma stack_push:
  assumes "trie ts B" "stack_ok ts B st" "ones ts B l" "l \<noteq> 0" "st \<noteq> [] \<Longrightarrow> first ts l < first ts (hd st)"
  shows "stack_ok ts B (l # st)"
  using assms by (cases st) (auto simp: stack_ok_def)

lemma upto_le: "upto ts lastb st X \<Longrightarrow> x \<in> X \<Longrightarrow> st \<noteq> [] \<Longrightarrow> x \<le> first ts (hd st)"
  by (auto simp: upto_def)

lemma combine_walk_trie:
  assumes "trie ts B" "ones ts B l1" "ones ts B l2" "stack_ok ts B st" "upto ts (unat lastb) st (B l1 \<union> B l2)"
    "card (B l1) + card (B l2) \<le> k"
  shows "\<exists>m1 m2 st'. combine_walk k ts l1 l2 lastb st = Some (m1, m2, st') \<and> stack_ok ts B st' \<and>
    (let base = (if m1 > 0 then m1 else m2) in ones ts B base \<and>
       (st' \<noteq> [] \<longrightarrow> (\<forall>x\<in>B base. x \<le> first ts (hd st'))) \<and>
       B base \<union> first ts ` set st' = B l1 \<union> B l2 \<union> first ts ` set st)"
  using assms(2-)
proof (induction k arbitrary: l1 l2 lastb st)
  case 0
  have "finite (B l1)" using 0 label_finite [OF assms(1)] by (simp add: ones_def)
  then have "l1 = 0" using 0 label_step(4) [OF assms(1), of l1] by fastforce
  then show ?case using 0 assms(1) by (subst combine_walk.simps) (auto simp: trie_def upto_def)
next
  case (Suc k)
  show ?case
  proof (cases "l1 = 0 \<or> l1 = l2")
    case True
    have "B 0 = {}" using assms(1) by (simp add: trie_def)
    with True show ?thesis using Suc.prems by (subst combine_walk.simps) (auto dest: upto_le)
  next
    case False
    then have n: "l1 \<noteq> 0" "l1 \<noteq> l2" by auto
    have len: "l1 < length ts" "l2 < length ts" using Suc.prems(1,2) by (simp_all add: ones_def)
    let ?b1 = "seg_begin (tn_seg (ts ! l1))" and ?b2 = "seg_begin (tn_seg (ts ! l2))"
    let ?p1 = "tn_parent (ts ! l1)" and ?p2 = "tn_parent (ts ! l2)"
    note s1 = label_step [OF assms(1) Suc.prems(1) n(1)] and q1 = label_pop [OF assms(1) Suc.prems(1) n(1)]
    show ?thesis
    proof (cases "?b1 < ?b2")
      case lt: True
      have n2: "l2 \<noteq> 0"
      proof
        assume "l2 = 0"
        then show False using lt assms(1) by (simp add: word_less_nat_alt trie_def)
      qed
      note s2 = label_step [OF assms(1) Suc.prems(2) n2] and q2 = label_pop [OF assms(1) Suc.prems(2) n2]
      have c: "card (B l1) + card (B ?p2) \<le> k" using Suc.prems(5) q2(2) by simp
      have b1: "x < first ts l2" if "x \<in> B l1" for x
        using that s1(4) q1(3) lt by (auto simp: word_less_nat_alt dest: q1(3))
      have u: "upto ts (first ts l2) st' (B l1 \<union> B ?p2)" if "st' \<noteq> [] \<longrightarrow> first ts (hd st') = first ts l2" for st'
        using that b1 q2(3) by (auto simp: upto_def)
      show ?thesis
      proof (cases "?b2 < lastb")
        case True
        have "stack_ok ts B (l2 # st)"
          by (rule stack_push [OF assms(1) Suc.prems(3,2) n2]) (use True Suc.prems(4) in \<open>auto simp: upto_def word_less_nat_alt\<close>)
        from Suc.IH [OF Suc.prems(1) s2(2) this u c] True lt n len
        show ?thesis by (subst combine_walk.simps) (auto simp: tnode_def Let_def s2(4))
      next
        case False
        have d: "st \<noteq> []" "unat lastb = first ts l2"
          using False Suc.prems(4) s2(4) by (auto simp: upto_def word_less_nat_alt)
        then have h: "first ts (hd st) = first ts l2" using Suc.prems(4) by (simp add: upto_def)
        from d h have i: "first ts l2 \<in> first ts ` set st" by (metis imageI hd_in_set)
        have u': "upto ts (unat lastb) st (B l1 \<union> B ?p2)" unfolding d(2) using u h by blast
        from Suc.IH [OF Suc.prems(1) s2(2) Suc.prems(3) u' c] False lt n len i
        show ?thesis by (subst combine_walk.simps) (auto simp: tnode_def Let_def s2(4) insert_absorb)
      qed
    next
      case ge: False
      have c: "card (B ?p1) + card (B l2) \<le> k" using Suc.prems(5) q1(2) by simp
      have b2: "x \<le> first ts l1" if "x \<in> B l2" for x
      proof (cases "l2 = 0")
        case False
        then show ?thesis
          using that label_step(4) [OF assms(1) Suc.prems(2) False] label_pop(3) [OF assms(1) Suc.prems(2) False] ge
          by (fastforce simp: word_less_nat_alt)
      qed (use that assms(1) in \<open>simp add: trie_def\<close>)
      have u: "upto ts (first ts l1) st' (B ?p1 \<union> B l2)" if "st' \<noteq> []" "first ts (hd st') = first ts l1" for st'
        using that b2 q1(3) by (auto simp: upto_def le_less)
      show ?thesis
      proof (cases "?b1 < lastb")
        case True
        have "stack_ok ts B (l1 # st)"
          by (rule stack_push [OF assms(1) Suc.prems(3,1) n(1)]) (use True Suc.prems(4) in \<open>auto simp: upto_def word_less_nat_alt\<close>)
        from Suc.IH [OF s1(2) Suc.prems(2) this u c] True ge n len
        show ?thesis by (subst combine_walk.simps) (auto simp: tnode_def Let_def s1(4))
      next
        case False
        have d: "st \<noteq> []" "unat lastb = first ts l1"
          using False Suc.prems(4) s1(4) by (auto simp: upto_def word_less_nat_alt)
        then have h: "first ts (hd st) = first ts l1" using Suc.prems(4) by (simp add: upto_def)
        from d h have i: "first ts l1 \<in> first ts ` set st" by (metis imageI hd_in_set)
        have u': "upto ts (unat lastb) st (B ?p1 \<union> B l2)" unfolding d(2) using u h d(1) by blast
        from Suc.IH [OF s1(2) Suc.prems(2,3) u' c] False ge n len i
        show ?thesis by (subst combine_walk.simps) (auto simp: tnode_def Let_def s1(4) insert_absorb)
      qed
    qed
  qed
qed

lemma later_first:
  assumes "trie ts B" "later ts B ts' B'" "ones ts B l" "l \<noteq> 0"
  shows "first ts' l = first ts l"
proof -
  have "depth ts' l = depth ts l" using assms(2,3) by (simp add: later_def ones_def)
  moreover have "trie ts' B'" using assms(2) by (simp add: later_def)
  ultimately show ?thesis
    using label_step(1) [OF assms(1,3,4)] label_step(1) [OF _ later_ones [OF assms(2,3)] assms(4)] by simp
qed

lemma later_stack: "trie ts B \<Longrightarrow> later ts B ts' B' \<Longrightarrow> stack_ok ts B st \<Longrightarrow>
    stack_ok ts' B' st \<and> (\<forall>l\<in>set st. first ts' l = first ts l)"
  using later_first [of ts B ts' B'] later_ones [of ts B ts' B']
  by (induction st) (auto simp: stack_ok_def)

text \<open>One segment of the stack added on top of a label.\<close>

abbreviation add_segment :: "TagSet \<Rightarrow> nat \<Rightarrow> TagSeg \<Rightarrow> TagSeg \<Rightarrow> (nat \<times> TagSet) option" where
  "add_segment ts cur_lb cur_seg next_seg \<equiv>
     (if seg_end cur_seg \<ge> seg_begin next_seg
      then (if seg_end next_seg > seg_end cur_seg
            then insert_n_ones ts cur_lb (seg_end next_seg - seg_end cur_seg) cur_lb
            else Some (cur_lb, ts))
      else do {
        (z, ts') \<leftarrow> insert_n_zeros ts cur_lb (seg_begin next_seg - seg_end cur_seg) cur_lb;
        insert_n_ones ts' z (seg_end next_seg - seg_begin next_seg) cur_lb
      })"

lemma word_diff_one: "unat b = Suc (unat a) \<Longrightarrow> b - a = 1" for a b :: u32
proof -
  assume "unat b = Suc (unat a)"
  then have "unat (b - a) = 1" by (simp add: unat_sub word_le_nat_alt)
  then show ?thesis by (simp add: word_unat_eq_iff)
qed

lemma add_segment_trie:
  assumes "trie ts B" "ones ts B cur" "ones ts B nx" "nx \<noteq> 0" "\<forall>x\<in>B cur. x \<le> first ts nx"
  shows "either (int (length ts) + 2 > MAX_LB) (add_segment ts cur (tn_seg (ts ! cur)) (tn_seg (ts ! nx)))
    (\<lambda>(lb, ts'). \<exists>B'. later ts B ts' B' \<and> ones ts' B' lb \<and> B' lb = insert (first ts nx) (B cur) \<and> length ts' \<le> length ts + 2)"
proof -
  let ?b = "first ts nx" and ?d = "depth ts cur"
  note sn = label_step [OF assms(1,3,4)]
  have cl: "cur < length ts" using assms(2) by (simp add: ones_def)
  have le: "?d \<le> Suc ?b" "?d = Suc ?b \<Longrightarrow> ?b \<in> B cur" using assms(1,2,5) by (auto simp: ones_def trie_def)
  consider (there) "?d = Suc ?b" | (adj) "?d = ?b" | (gap) "?d < ?b" using le(1) by linarith
  then show ?thesis
  proof cases
    case there
    then show ?thesis using le(2) assms(1,2) sn(1) later_refl [OF assms(1)]
      by (auto simp: word_le_nat_alt word_less_nat_alt insert_absorb)
  next
    case adj
    have "seg_end (tn_seg (ts ! nx)) - seg_end (tn_seg (ts ! cur)) = 1" by (rule word_diff_one) (simp add: sn(1) adj)
    moreover have "either (int (length ts) \<ge> MAX_LB) (insert_n_ones ts cur 1 cur)
        (\<lambda>(lb, ts'). \<exists>B'. later ts B ts' B' \<and> ones ts' B' lb \<and> depth ts' lb = Suc ?d \<and> B' lb = insert ?d (B cur) \<and>
           length ts' \<le> Suc (length ts))"
      by (rule insert_one_trie [OF assms(1) cl]) (use assms(2) sn(5) adj in auto)
    ultimately show ?thesis using adj sn(1)
      by (auto simp: word_le_nat_alt word_less_nat_alt elim!: either_mono intro: le_SucI)
  next
    case gap
    let ?m = "seg_begin (tn_seg (ts ! nx)) - seg_end (tn_seg (ts ! cur))"
    have m: "unat ?m = ?b - ?d" using gap by (simp add: unat_sub word_le_nat_alt)
    have one: "seg_end (tn_seg (ts ! nx)) - seg_begin (tn_seg (ts ! nx)) = 1" by (rule word_diff_one [OF sn(1)])
    have z: "either (int (length ts) \<ge> MAX_LB) (insert_n_zeros ts cur ?m cur)
        (\<lambda>(lb, ts'). \<exists>B'. later ts B ts' B' \<and> lb < length ts' \<and> depth ts' lb = ?b \<and> B' lb = B cur \<and> length ts' \<le> Suc (length ts))"
      unfolding insert_n_zeros_def
      by (rule either_mono [OF zeros_loop_trie [OF assms(1) cl _ cl]]) (use m gap sn(5) in auto)
    have "either (int (length ts) + 2 > MAX_LB) (do { (z, ts') \<leftarrow> insert_n_zeros ts cur ?m cur; insert_n_ones ts' z 1 cur })
        (\<lambda>(lb, ts'). \<exists>B'. later ts B ts' B' \<and> ones ts' B' lb \<and> B' lb = insert ?b (B cur) \<and> length ts' \<le> length ts + 2)"
    proof (rule either_bind [OF z])
      fix y assume "case y of (lb, ts') \<Rightarrow> \<exists>B'. later ts B ts' B' \<and> lb < length ts' \<and> depth ts' lb = ?b \<and> B' lb = B cur \<and>
          length ts' \<le> Suc (length ts)"
      then obtain z t B1 where y: "y = (z, t)" and t: "later ts B t B1" "z < length t" "depth t z = ?b" "B1 z = B cur"
          "length t \<le> Suc (length ts)" by (cases y) auto
      have r: "trie t B1" "ones t B1 cur" "B1 cur = B cur" using t(1) later_ones [OF t(1) assms(2)] cl by (auto simp: later_def)
      have "either (MAX_LB \<le> int (length t)) (insert_n_ones t z 1 cur)
          (\<lambda>(lb, ts'). \<exists>B'. later t B1 ts' B' \<and> ones ts' B' lb \<and> depth ts' lb = Suc (depth t z) \<and>
             B' lb = insert (depth t z) (B1 z) \<and> length ts' \<le> Suc (length t))"
        by (rule insert_one_trie [OF r(1) t(2)]) (use r t sn(5) in auto)
      then show "either (int (length ts) + 2 > MAX_LB) (case y of (z, ts') \<Rightarrow> insert_n_ones ts' z 1 cur)
          (\<lambda>(lb, ts'). \<exists>B'. later ts B ts' B' \<and> ones ts' B' lb \<and> B' lb = insert ?b (B cur) \<and> length ts' \<le> length ts + 2)"
        unfolding y prod.case by (rule either_mono) (use t in \<open>fastforce intro: later_trans\<close>)+
    qed simp
    then show ?thesis using gap one by (simp add: word_le_nat_alt)
  qed
qed

lemma sign_trie:
  assumes "trie ts B" "lb < length ts"
  shows "\<exists>ts'. (if b then tupd ts lb set_sign_bit else Some ts) = Some ts' \<and> later ts B ts' B \<and> length ts' = length ts"
proof (cases b)
  case True
  have t: "tupd ts lb set_sign_bit = Some (ts[lb := set_sign_bit (ts ! lb)])" using assms(2) by (simp add: tupd_def)
  then show ?thesis using True trie_irrelevant [OF assms(1) t] by simp
qed (use assms later_refl in auto)

lemma combine_build_trie:
  assumes "trie ts B" "ones ts B cur" "stack_ok ts B st" "st \<noteq> [] \<Longrightarrow> \<forall>x\<in>B cur. x \<le> first ts (hd st)"
  shows "either (int (length ts) + 2 * int (length st) > MAX_LB) (combine_build ts cur st)
    (\<lambda>(lb, ts'). \<exists>B'. later ts B ts' B' \<and> ones ts' B' lb \<and> B' lb = B cur \<union> first ts ` set st \<and>
       length ts' \<le> length ts + 2 * length st)"
  using assms
proof (induction st arbitrary: ts B cur)
  case Nil
  then show ?case using later_refl by auto
next
  case (Cons nx st)
  let ?Q = "\<lambda>(lb, ts'). \<exists>B'. later ts B ts' B' \<and> ones ts' B' lb \<and> B' lb = B cur \<union> first ts ` set (nx # st) \<and>
    length ts' \<le> length ts + 2 * length (nx # st)"
  have n: "ones ts B nx" "nx \<noteq> 0" "stack_ok ts B st" "\<forall>l\<in>set st. first ts nx < first ts l"
    using Cons.prems(3) by (simp_all add: stack_ok_def)
  have cl: "cur < length ts" "nx < length ts" using Cons.prems(2) n(1) by (simp_all add: ones_def)
  have "either (int (length ts) + 2 * int (length (nx # st)) > MAX_LB)
      (do { (lb, ts1) \<leftarrow> add_segment ts cur (tn_seg (ts ! cur)) (tn_seg (ts ! nx));
            ts2 \<leftarrow> (if seg_sign (tn_seg (ts ! nx)) then tupd ts1 lb set_sign_bit else Some ts1);
            combine_build ts2 lb st }) ?Q"
  proof (rule either_bind [OF add_segment_trie [OF Cons.prems(1,2) n(1,2)]])
    show "\<forall>x\<in>B cur. x \<le> first ts nx" using Cons.prems(4) by simp
    fix y assume "case y of (lb, ts') \<Rightarrow> \<exists>B'. later ts B ts' B' \<and> ones ts' B' lb \<and> B' lb = insert (first ts nx) (B cur) \<and>
        length ts' \<le> length ts + 2"
    then obtain lb t1 B1 where y: "y = (lb, t1)" and t: "later ts B t1 B1" "ones t1 B1 lb" "B1 lb = insert (first ts nx) (B cur)"
        "length t1 \<le> length ts + 2" by (cases y) auto
    have tr: "trie t1 B1" using t(1) by (simp add: later_def)
    obtain t2 where t2: "(if seg_sign (tn_seg (ts ! nx)) then tupd t1 lb set_sign_bit else Some t1) = Some t2"
        "later t1 B1 t2 B1" "length t2 = length t1" using sign_trie [OF tr, of lb] t(2) unfolding ones_def by blast
    have lt: "later ts B t2 B1" by (rule later_trans [OF t(1) t2(2)])
    note ls = later_stack [OF Cons.prems(1) lt n(3)]
    have hd_st: "\<forall>x\<in>B1 lb. x \<le> first t2 (hd st)" if "st \<noteq> []"
      using that ls n(4) Cons.prems(4) t(3) hd_in_set [OF that] by fastforce
    have "either (int (length t2) + 2 * int (length st) > MAX_LB) (combine_build t2 lb st)
        (\<lambda>(l, ts'). \<exists>B'. later t2 B1 ts' B' \<and> ones ts' B' l \<and> B' l = B1 lb \<union> first t2 ` set st \<and>
           length ts' \<le> length t2 + 2 * length st)"
      using Cons.IH [of t2 B1 lb] lt later_ones [OF t2(2) t(2)] ls hd_st by (auto simp: later_def)
    then have "either (int (length ts) + 2 * int (length (nx # st)) > MAX_LB) (combine_build t2 lb st) ?Q"
    proof (rule either_mono)
      have f: "first t2 ` set st = first ts ` set st" using ls by auto
      fix z assume "case z of (l, ts') \<Rightarrow> \<exists>B'. later t2 B1 ts' B' \<and> ones ts' B' l \<and> B' l = B1 lb \<union> first t2 ` set st \<and>
          length ts' \<le> length t2 + 2 * length st"
      then obtain l ts' B' where z: "z = (l, ts')" "later t2 B1 ts' B'" "ones ts' B' l" "B' l = B1 lb \<union> first t2 ` set st"
          "length ts' \<le> length t2 + 2 * length st" by (cases z) auto
      moreover have "B' l = B cur \<union> first ts ` set (nx # st)" using z(4) t(3) f by simp
      moreover have "length ts' \<le> length ts + 2 * length (nx # st)" using z(5) t(4) t2(3) by simp
      moreover have "later ts B ts' B'" by (rule later_trans [OF lt z(2)])
      ultimately show "?Q z" unfolding z(1) prod.case by blast
    qed (use t(4) t2(3) in simp)
    then show "either (int (length ts) + 2 * int (length (nx # st)) > MAX_LB)
        (case y of (lb, ts1) \<Rightarrow> (if seg_sign (tn_seg (ts ! nx)) then tupd ts1 lb set_sign_bit else Some ts1) \<bind>
           (\<lambda>ts2. combine_build ts2 lb st)) ?Q"
      unfolding y prod.case t2(1) Option.bind.simps .
  qed simp
  then show ?case using cl by (simp add: tnode_def Let_def)
qed

lemma combine_trie:
  assumes "trie ts B" "ones ts B l1" "ones ts B l2"
  shows "either (int (length ts) + 2 * int (card (B l1 \<union> B l2)) > MAX_LB) (combine ts l1 l2)
    (\<lambda>(lb, ts'). \<exists>B'. later ts B ts' B' \<and> ones ts' B' lb \<and> B' lb = B l1 \<union> B l2)"
proof (cases "l1 = 0 \<or> l2 = 0 \<or> l1 = l2")
  case True
  moreover have "B 0 = {}" using assms(1) by (simp add: trie_def)
  ultimately show ?thesis using assms later_refl by (auto simp: combine_def)
next
  case False
  let ?a = "min l1 l2" and ?b = "max l1 l2"
  have o: "ones ts B ?a" "ones ts B ?b" "B ?a \<union> B ?b = B l1 \<union> B l2" using assms(2,3) by (auto simp: min_def max_def)
  have top: "x < unat (of_int MAX_LB :: u32)" if x: "x \<in> B l" and l: "ones ts B l" for x l
  proof -
    have "x < depth ts l" "int (depth ts l) \<le> MAX_LB"
      using below [OF assms(1) _ x] l trie_node [OF assms(1), of l] by (auto simp: ones_def node_ok_def core_ok_def)
    then have "x < 4194303" unfolding MAX_LB_def by linarith
    then show ?thesis by (simp add: MAX_LB_def)
  qed
  have "upto ts (unat (of_int MAX_LB :: u32)) [] (B ?a \<union> B ?b)" using top assms(2,3) o(3) by (auto simp: upto_def)
  moreover have "card (B ?a) + card (B ?b) \<le> 2 * length ts" using add_mono [OF label_card [OF assms(1) o(1)] label_card [OF assms(1) o(2)]] by simp
  ultimately obtain m1 m2 st where w: "combine_walk (2 * length ts) ts ?a ?b (of_int MAX_LB) [] = Some (m1, m2, st)"
      "stack_ok ts B st"
    and base: "let base = (if m1 > 0 then m1 else m2) in ones ts B base \<and> (st \<noteq> [] \<longrightarrow> (\<forall>x\<in>B base. x \<le> first ts (hd st))) \<and>
      B base \<union> first ts ` set st = B ?a \<union> B ?b \<union> first ts ` set []"
    using combine_walk_trie [OF assms(1) o(1,2), of "[]" "of_int MAX_LB" "2 * length ts"] by (auto simp: stack_ok_def)
  let ?base = "if m1 > 0 then m1 else m2"
  have b: "ones ts B ?base" "st \<noteq> [] \<Longrightarrow> \<forall>x\<in>B ?base. x \<le> first ts (hd st)" "B ?base \<union> first ts ` set st = B l1 \<union> B l2"
    using base o(3) by (simp_all add: Let_def)
  have "distinct (map (first ts) st)"
    using w(2) strict_sorted_iff [of "map (first ts) st"] by (simp add: stack_ok_def sorted_wrt_map)
  then have "length st = card (first ts ` set st)" using distinct_card by fastforce
  also have "\<dots> \<le> card (B l1 \<union> B l2)"
    by (rule card_mono) (use b(3) label_finite [OF assms(1)] assms(2,3) in \<open>auto simp: ones_def\<close>)
  finally have len: "length st \<le> card (B l1 \<union> B l2)" .
  have "combine ts l1 l2 = combine_build ts ?base st" using False w(1) by (simp add: combine_def)
  then show ?thesis using combine_build_trie [OF assms(1) b(1) w(2) b(2)] len b(3)
    by (auto elim!: either_mono)
qed

lemma either_total: "either full x Q \<Longrightarrow> \<not> full \<Longrightarrow> x \<noteq> None"
  by (cases x) simp_all

section \<open>Runs of the label store\<close>

text \<open>The labels a program has obtained from the store, each with the set of input offsets it stands for according to
  the specification: inserting an offset gives a label of that offset, combining two labels gives a label of the union,
  marking signs and groups changes no set.  Offsets are below \<open>MAX_LB\<close>.\<close>

inductive tag_run :: "TagSet \<Rightarrow> (nat \<times> nat set) set \<Rightarrow> bool" where
  start: "tag_run TagSet_new {(0, {})}"
| insert: "tag_run ts R \<Longrightarrow> int (unat pos) < MAX_LB \<Longrightarrow> tag_insert ts pos = Some (lb, ts') \<Longrightarrow>
    tag_run ts' (insert (lb, {unat pos}) R)"
| combine: "tag_run ts R \<Longrightarrow> (l1, S1) \<in> R \<Longrightarrow> (l2, S2) \<in> R \<Longrightarrow> combine ts l1 l2 = Some (lb, ts') \<Longrightarrow>
    tag_run ts' (insert (lb, S1 \<union> S2) R)"
| sign: "tag_run ts R \<Longrightarrow> set_sign ts lb = Some ts' \<Longrightarrow> tag_run ts' R"
| and_op: "tag_run ts R \<Longrightarrow> combine_and ts lb = Some ts' \<Longrightarrow> tag_run ts' R"
| find: "tag_run ts R \<Longrightarrow> (l, S) \<in> R \<Longrightarrow> tag_find ts l = Some (segs, ts') \<Longrightarrow> tag_run ts' R"

definition means :: "TagSet \<Rightarrow> (nat \<Rightarrow> nat set) \<Rightarrow> (nat \<times> nat set) set \<Rightarrow> bool" where
  "means ts B R \<longleftrightarrow> trie ts B \<and> (\<forall>(l, S)\<in>R. ones ts B l \<and> B l = S)"

lemma means_later: "means ts B R \<Longrightarrow> later ts B ts' B' \<Longrightarrow> means ts' B' R"
  using later_ones [of ts B ts' B'] by (fastforce simp: means_def later_def ones_def)

lemma means_add: "means ts B R \<Longrightarrow> later ts B ts' B' \<Longrightarrow> ones ts' B' l \<Longrightarrow> B' l = S \<Longrightarrow> means ts' B' (insert (l, S) R)"
  using means_later [of ts B R ts' B'] by (simp add: means_def)

lemma tag_run_means: "tag_run ts R \<Longrightarrow> \<exists>B. means ts B R"
proof (induction rule: tag_run.induct)
  case start
  show ?case using trie_new root_ones [OF trie_new] by (auto simp: means_def)
next
  case (insert ts R pos lb ts')
  then obtain B where B: "means ts B R" by blast
  then have "trie ts B" by (simp add: means_def)
  from tag_insert_trie [OF this insert.hyps(2)] insert.hyps(3) obtain B' where
    "later ts B ts' B'" "ones ts' B' lb" "B' lb = {unat pos}" by auto
  then show ?case using means_add [OF B] by blast
next
  case (combine ts R l1 S1 l2 S2 lb ts')
  then obtain B where B: "means ts B R" by blast
  then have "trie ts B" "ones ts B l1" "B l1 = S1" "ones ts B l2" "B l2 = S2" using combine.hyps(2,3) by (auto simp: means_def)
  from combine_trie [OF this(1,2,4)] combine.hyps(4) this(3,5) obtain B' where
    "later ts B ts' B'" "ones ts' B' lb" "B' lb = S1 \<union> S2" by auto
  then show ?case using means_add [OF B] by blast
next
  case (sign ts R lb ts')
  then obtain B where B: "means ts B R" by blast
  then have t: "trie ts B" by (simp add: means_def)
  show ?case using means_later [OF B trie_irrelevant [OF t sign.hyps(2) [unfolded set_sign_def]]] by auto
next
  case (and_op ts R lb ts')
  then obtain B where B: "means ts B R" by blast
  then have t: "trie ts B" by (simp add: means_def)
  show ?case using means_later [OF B trie_irrelevant [OF t and_op.hyps(2) [unfolded combine_and_def]]] by auto
next
  case (find ts R l S segs ts')
  then obtain B where B: "means ts B R" by blast
  then have "trie ts B" "ones ts B l" using find.hyps(2) by (auto simp: means_def)
  from tag_find_trie [OF this] find.hyps(3) B show ?case by auto
qed

text \<open>C14. The label store implements sets of input offsets.  After any sequence of insertions, combinations, marks and
  look-ups, every label a program has ever obtained is found with exactly the offsets it stands for, as disjoint ranges
  in increasing order, and looking it up changes nothing; and while the store has room, inserting an offset and
  combining two labels return.\<close>

theorem label_store_refines:
  assumes "tag_run ts R" "(l, S) \<in> R"
  shows "(\<exists>segs. tag_find ts l = Some (segs, ts) \<and> offsets segs = S \<and> sorted_wrt (\<lambda>g h. seg_begin g < seg_begin h) segs) \<and>
    (int (unat pos) < MAX_LB \<and> int (length ts) + 2 \<le> MAX_LB \<longrightarrow> tag_insert ts pos \<noteq> None) \<and>
    ((l', S') \<in> R \<and> int (length ts) + 2 * int (card (S \<union> S')) \<le> MAX_LB \<longrightarrow> combine ts l l' \<noteq> None)"
proof -
  obtain B where B: "means ts B R" using tag_run_means [OF assms(1)] by blast
  then have t: "trie ts B" "ones ts B l" "B l = S" using assms(2) by (auto simp: means_def)
  have "int (length ts) + 2 \<le> MAX_LB \<Longrightarrow> int (unat pos) < MAX_LB \<Longrightarrow> tag_insert ts pos \<noteq> None"
    using tag_insert_trie [OF t(1), of pos] by (intro either_total) auto
  moreover have "combine ts l l' \<noteq> None" if "(l', S') \<in> R" "int (length ts) + 2 * int (card (S \<union> S')) \<le> MAX_LB"
  proof -
    have "ones ts B l'" "B l' = S'" using B that(1) by (auto simp: means_def)
    then show ?thesis using combine_trie [OF t(1,2), of l'] t(3) that(2) by (intro either_total) auto
  qed
  ultimately show ?thesis using tag_find_trie [OF t(1,2)] t(3) by blast
qed

definition sample_store :: TagSet where
  "sample_store = snd (the (tag_insert (snd (the (tag_insert TagSet_new 3))) 5))"

theorem label_store_refines_witness:
  "\<exists>segs. tag_find sample_store 4 = Some (segs, sample_store) \<and> offsets segs = {5}"
proof -
  let ?t = "snd (the (tag_insert TagSet_new 3))"
  have "tag_insert TagSet_new 3 \<noteq> None" "fst (the (tag_insert TagSet_new 3)) = 2"
    "tag_insert ?t 5 \<noteq> None" "fst (the (tag_insert ?t 5)) = 4" by code_simp+
  then have i: "tag_insert TagSet_new 3 = Some (2, ?t)" "tag_insert ?t 5 = Some (4, sample_store)"
    unfolding sample_store_def by (metis option.collapse prod.collapse)+
  have "tag_run ?t {(2, {3}), (0, {})}" using tag_run.insert [OF tag_run.start _ i(1)] by (simp add: MAX_LB_def)
  from tag_run.insert [OF this _ i(2)] have "tag_run sample_store {(4, {5}), (2, {3}), (0, {})}" by (simp add: MAX_LB_def)
  from conjunct1 [OF label_store_refines [OF this, of 4 "{5}"]] show ?thesis by auto
qed

section \<open>Groups\<close>

text \<open>A program reads the bytes 1, 2 and 4 to 7, loads the two bytes from 4 on and the four bytes from 4 on, which
  groups them, and combines the first with byte 1, the second with byte 2, and the results.\<close>

definition insert_all :: "u32 list \<Rightarrow> TagSet \<Rightarrow> (nat list \<times> TagSet) option" where
  "insert_all ps ts = fold (\<lambda>p x. do { (ls, t) \<leftarrow> x; (l, t') \<leftarrow> tag_insert t p; Some (ls @ [l], t') }) ps (Some ([], ts))"

definition grouped_combination :: "(TagSeg list \<times> TagSeg list \<times> TagSeg list) option" where
  "grouped_combination = do {
     (ls, t) \<leftarrow> insert_all [1, 2, 4, 5, 6, 7] TagSet_new;
     (a, t) \<leftarrow> combine_n t (take 2 (drop 2 ls)) True;
     (b, t) \<leftarrow> combine_n t (drop 2 ls) True;
     (c, t) \<leftarrow> combine t (ls ! 0) a;
     (d, t) \<leftarrow> combine t (ls ! 1) b;
     (e, t) \<leftarrow> combine t c d;
     (x, t) \<leftarrow> tag_find t c;
     (y, t) \<leftarrow> tag_find t d;
     (z, t) \<leftarrow> tag_find t e;
     Some (x, y, z)
   }"

end
