(* ===== verification/Taint_Sources.thy ===== *)
theory Taint_Sources
  imports Dfsan_Custom Tag_Trie "HOL-Library.AList"
begin

text \<open>
  Where labels come from: the wrappers of the input functions, \<^verbatim>\<open>llvm_mode/external_lib/io_func.c\<close>, with the table of
  input descriptors of \<^verbatim>\<open>runtime/src/ffds.rs\<close>; the wrappers of the allocator, \<^verbatim>\<open>stdalloc.c\<close>, with the table of
  block sizes of \<^verbatim>\<open>heapmap.rs\<close>; and the wrapper of \<open>crc32\<close>, \<^verbatim>\<open>zlib_func.c\<close>.  The conventions are those of the other
  wrappers: a library or system call is an argument, \<open>None\<close> is a fault, a panic of the label store, an abort or undefined
  behaviour.  Positions of files are what \<open>lseek\<close> and \<open>ftell\<close> return before the call.
\<close>

section \<open>State\<close>

record io =
  base :: rt
  FFDS :: "u32 list"
  LEN_INFO :: "(u32 \<times> u32) list"
  rt_utmp_offset :: u64
  HEAPMAP :: "(u64 \<times> u64) list"

text \<open>Standard input is an input file from the start.\<close>

definition io_start :: "memory \<Rightarrow> io" where
  "io_start m = \<lparr>base = rt_start m, FFDS = [0], LEN_INFO = LEN_INFO_init, rt_utmp_offset = 0, HEAPMAP = []\<rparr>"

type_synonym 'r io_wrapped = "('r \<times> u32 \<times> io) option"

definition on_base :: "io \<Rightarrow> rt option \<Rightarrow> io option" where
  "on_base s r = map_option (\<lambda>b. s\<lparr>base := b\<rparr>) r"

definition io_call :: "'r sys \<Rightarrow> io \<Rightarrow> 'r \<times> io" where
  "io_call sys s = (let (r, b) = os_call sys (base s) in (r, s\<lparr>base := b\<rparr>))"

section \<open>Input descriptors (ffds.rs)\<close>

definition angora_io_add_fd :: "io \<Rightarrow> u32 \<Rightarrow> io" where
  "angora_io_add_fd s fd = s\<lparr>FFDS := List.insert fd (FFDS s)\<rparr>"

definition angora_io_add_pfile :: "(u64 \<Rightarrow> u32) \<Rightarrow> io \<Rightarrow> u64 \<Rightarrow> io" where
  "angora_io_add_pfile fileno s pfile = angora_io_add_fd s (fileno pfile)"

definition angora_io_remove_fd :: "io \<Rightarrow> u32 \<Rightarrow> io" where
  "angora_io_remove_fd s fd = s\<lparr>FFDS := removeAll fd (FFDS s)\<rparr>"

definition angora_io_remove_pfile :: "(u64 \<Rightarrow> u32) \<Rightarrow> io \<Rightarrow> u64 \<Rightarrow> io" where
  "angora_io_remove_pfile fileno s pfile = angora_io_remove_fd s (fileno pfile)"

definition angora_io_find_fd :: "io \<Rightarrow> u32 \<Rightarrow> bool" where
  "angora_io_find_fd s fd \<longleftrightarrow> fd \<in> set (FFDS s)"

definition angora_io_find_pfile :: "(u64 \<Rightarrow> u32) \<Rightarrow> io \<Rightarrow> u64 \<Rightarrow> bool" where
  "angora_io_find_pfile fileno s pfile = angora_io_find_fd s (fileno pfile)"

section \<open>Assigning labels\<close>

definition granularity :: u64 where
  "granularity = 1"

text \<open>The loop over \<open>i\<close>, with the number of bytes that are left.  The offset is truncated to an \<open>int\<close>.\<close>

primrec assign_loop :: "nat \<Rightarrow> io \<Rightarrow> u64 \<Rightarrow> u64 \<Rightarrow> u64 \<Rightarrow> u64 \<Rightarrow> io option" where
  "assign_loop 0 s buf offset n i = Some s"
| "assign_loop (Suc k) s buf offset n i = do {
     (L, b) \<leftarrow> dfsan_create_label (base s) (ucast (offset + i));
     s1 \<leftarrow> on_base s (if n < i + granularity then dfsan_set_label b L (buf + i) (n - i)
                      else dfsan_set_label b L (buf + i) granularity);
     assign_loop k s1 buf offset n (i + granularity)
   }"

definition assign_taint_labels :: "io \<Rightarrow> u64 \<Rightarrow> u64 \<Rightarrow> u64 \<Rightarrow> io option" where
  "assign_taint_labels s buf offset n = assign_loop (unat n) s buf offset n 0"

text \<open>The length is an \<open>int\<close>: the products are truncated, and the sum may overflow, which is undefined.  It is sign
  extended again for the loop.\<close>

definition assign_taint_labels_exf :: "io \<Rightarrow> u64 \<Rightarrow> u64 \<Rightarrow> u64 \<Rightarrow> u64 \<Rightarrow> u64 \<Rightarrow> io option" where
  "assign_taint_labels_exf s buf offset ret cnt sz = do {
     let off = (if offset <s 0 then 0 else offset);
     let len = (ucast (ret * sz) :: u32);
     let res = (ucast ((cnt - ret) * sz) :: u32);
     let add = (if ret < cnt then (if res <s 1024 then res else 1024) else 0);
     if sint len + sint add = sint (len + add) then assign_taint_labels s buf off (scast (len + add)) else None
   }"

text \<open>\<^verbatim>\<open>strstr(filename, "cur_input")\<close>\<close>

definition FUZZING_INPUT_FILE :: string where
  "FUZZING_INPUT_FILE = ''cur_input''"

definition IS_FUZZING_FILE :: "memory \<Rightarrow> u64 \<Rightarrow> bool option" where
  "IS_FUZZING_FILE m filename = do {
     n \<leftarrow> strlen m filename;
     let name = map (\<lambda>i. m (filename + of_nat i)) [0..<unat n];
     let pat = map of_char FUZZING_INPUT_FILE;
     Some (list_ex (\<lambda>i. take (length pat) (drop i name) = pat) [0..<Suc (length name)])
   }"

section \<open>Opening and closing\<close>

text \<open>\<^verbatim>\<open>__OPEN_NEEDS_MODE\<close>: \<^verbatim>\<open>O_CREAT\<close>, or all bits of \<^verbatim>\<open>__O_TMPFILE\<close>.\<close>

definition OPEN_NEEDS_MODE :: "u32 \<Rightarrow> bool" where
  "OPEN_NEEDS_MODE oflags \<longleftrightarrow> oflags AND 0x40 \<noteq> 0 \<or> oflags AND 0x410000 = 0x410000"

definition dfsw_open :: "(u64 \<Rightarrow> u32 \<Rightarrow> u32 \<Rightarrow> u32 sys) \<Rightarrow> io \<Rightarrow> u64 \<Rightarrow> u32 \<Rightarrow> u32 \<Rightarrow> u32 io_wrapped" where
  "dfsw_open open_fn s path oflags va_mode = do {
     let mode = (if OPEN_NEEDS_MODE oflags then va_mode else 0);
     let (fd, s1) = io_call (open_fn path oflags mode) s;
     fuzz \<leftarrow> (if 0 \<le>s fd then IS_FUZZING_FILE (mem (base s1)) path else Some False);
     Some (fd, 0, if fuzz then angora_io_add_fd s1 fd else s1)
   }"

definition dfsw_fopen :: "(u64 \<Rightarrow> u32) \<Rightarrow> (u64 \<Rightarrow> u64 \<Rightarrow> u64 sys) \<Rightarrow> io \<Rightarrow> u64 \<Rightarrow> u64 \<Rightarrow> u64 io_wrapped" where
  "dfsw_fopen fileno fopen s filename mode = do {
     let (fd, s1) = io_call (fopen filename mode) s;
     fuzz \<leftarrow> (if fd \<noteq> 0 then IS_FUZZING_FILE (mem (base s1)) filename else Some False);
     Some (fd, 0, if fuzz then angora_io_add_pfile fileno s1 fd else s1)
   }"

definition dfsw_fopen64 :: "(u64 \<Rightarrow> u32) \<Rightarrow> (u64 \<Rightarrow> u64 \<Rightarrow> u64 sys) \<Rightarrow> io \<Rightarrow> u64 \<Rightarrow> u64 \<Rightarrow> u64 io_wrapped" where
  "dfsw_fopen64 fileno fopen s filename mode = do {
     let (fd, s1) = io_call (fopen filename mode) s;
     fuzz \<leftarrow> (if fd \<noteq> 0 then IS_FUZZING_FILE (mem (base s1)) filename else Some False);
     Some (fd, 0, if fuzz then angora_io_add_pfile fileno s1 fd else s1)
   }"

definition dfsw_close :: "(u32 \<Rightarrow> u32 sys) \<Rightarrow> io \<Rightarrow> u32 \<Rightarrow> u32 io_wrapped" where
  "dfsw_close close_fn s fd = do {
     let (ret, s1) = io_call (close_fn fd) s;
     Some (ret, 0, if ret = 0 \<and> angora_io_find_fd s1 fd then angora_io_remove_fd s1 fd else s1)
   }"

text \<open>The number of the stream is asked for after it has been closed.\<close>

definition dfsw_fclose :: "(u64 \<Rightarrow> u32) \<Rightarrow> (u64 \<Rightarrow> u32 sys) \<Rightarrow> io \<Rightarrow> u64 \<Rightarrow> u32 io_wrapped" where
  "dfsw_fclose fileno fclose s fd = do {
     let (ret, s1) = io_call (fclose fd) s;
     Some (ret, 0, if ret = 0 \<and> angora_io_find_pfile fileno s1 fd then angora_io_remove_pfile fileno s1 fd else s1)
   }"

section \<open>Mappings\<close>

text \<open>\<open>ret > 0\<close> compares a pointer.\<close>

definition dfsw_mmap :: "(u64 \<Rightarrow> u64 \<Rightarrow> u32 \<Rightarrow> u32 \<Rightarrow> u32 \<Rightarrow> u64 \<Rightarrow> u64 sys) \<Rightarrow> io \<Rightarrow> u64 \<Rightarrow> u64 \<Rightarrow> u32 \<Rightarrow> u32 \<Rightarrow> u32 \<Rightarrow> u64 \<Rightarrow> u64 io_wrapped" where
  "dfsw_mmap mmap s start len prot flags fd offset = do {
     let (ret, s1) = io_call (mmap start len prot flags fd offset) s;
     s2 \<leftarrow> (if ret > 0 \<and> angora_io_find_fd s1 fd then assign_taint_labels s1 ret offset len else Some s1);
     Some (ret, 0, s2)
   }"

definition dfsw_munmap :: "(u64 \<Rightarrow> u64 \<Rightarrow> u32 sys) \<Rightarrow> io \<Rightarrow> u64 \<Rightarrow> u64 \<Rightarrow> u32 io_wrapped" where
  "dfsw_munmap munmap s addr len = do {
     let (ret, s1) = io_call (munmap addr len) s;
     s2 \<leftarrow> on_base s1 (dfsan_set_label (base s1) 0 addr len);
     Some (ret, 0, s2)
   }"

section \<open>Reading blocks\<close>

text \<open>\<^verbatim>\<open>__angora_get_sp_label\<close>, with the arguments truncated.\<close>

definition get_sp_label :: "io \<Rightarrow> u64 \<Rightarrow> u64 \<Rightarrow> u32 \<times> io" where
  "get_sp_label s offset sz =
     (let (l, info) = angora_get_len_label (LEN_INFO s) (ucast offset) (ucast sz) in (l, s\<lparr>LEN_INFO := info\<rparr>))"

definition dfsw_fread :: "(u64 \<Rightarrow> u32) \<Rightarrow> (u64 \<Rightarrow> u64) \<Rightarrow> (u64 \<Rightarrow> u64 \<Rightarrow> u64 \<Rightarrow> u64 \<Rightarrow> u64 sys) \<Rightarrow> io \<Rightarrow> u64 \<Rightarrow> u64 \<Rightarrow> u64 \<Rightarrow> u64 \<Rightarrow> u64 io_wrapped" where
  "dfsw_fread fileno ftell fread s buf sz cnt fd = do {
     let offset = ftell fd;
     let (ret, s1) = io_call (fread buf sz cnt fd) s;
     if angora_io_find_pfile fileno s1 fd then do {
       s2 \<leftarrow> (if ret > 0 then assign_taint_labels_exf s1 buf offset ret cnt sz else Some s1);
       let (l, s3) = get_sp_label s2 offset sz;
       Some (ret, l, s3)
     } else Some (ret, 0, s1)
   }"

definition dfsw_fread_unlocked :: "(u64 \<Rightarrow> u32) \<Rightarrow> (u64 \<Rightarrow> u64) \<Rightarrow> (u64 \<Rightarrow> u64 \<Rightarrow> u64 \<Rightarrow> u64 \<Rightarrow> u64 sys) \<Rightarrow> io \<Rightarrow> u64 \<Rightarrow> u64 \<Rightarrow> u64 \<Rightarrow> u64 \<Rightarrow> u64 io_wrapped" where
  "dfsw_fread_unlocked fileno ftell fread_unlocked s buf sz cnt fd = do {
     let offset = ftell fd;
     let (ret, s1) = io_call (fread_unlocked buf sz cnt fd) s;
     if angora_io_find_pfile fileno s1 fd then do {
       s2 \<leftarrow> (if ret > 0 then assign_taint_labels_exf s1 buf offset ret cnt sz else Some s1);
       let (l, s3) = get_sp_label s2 offset sz;
       Some (ret, l, s3)
     } else Some (ret, 0, s1)
   }"

definition dfsw_read :: "(u32 \<Rightarrow> u64) \<Rightarrow> (u32 \<Rightarrow> u64 \<Rightarrow> u64 \<Rightarrow> u64 sys) \<Rightarrow> io \<Rightarrow> u32 \<Rightarrow> u64 \<Rightarrow> u64 \<Rightarrow> u64 io_wrapped" where
  "dfsw_read lseek read s fd buf cnt = do {
     let offset = lseek fd;
     let (ret, s1) = io_call (read fd buf cnt) s;
     if angora_io_find_fd s1 fd then do {
       s2 \<leftarrow> (if 0 <s ret then assign_taint_labels_exf s1 buf offset ret cnt 1 else Some s1);
       let (l, s3) = get_sp_label s2 offset 1;
       Some (ret, l, s3)
     } else Some (ret, 0, s1)
   }"

definition dfsw_pread :: "(u32 \<Rightarrow> u64 \<Rightarrow> u64 \<Rightarrow> u64 \<Rightarrow> u64 sys) \<Rightarrow> io \<Rightarrow> u32 \<Rightarrow> u64 \<Rightarrow> u64 \<Rightarrow> u64 \<Rightarrow> u64 io_wrapped" where
  "dfsw_pread pread s fd buf cnt offset = do {
     let (ret, s1) = io_call (pread fd buf cnt offset) s;
     if angora_io_find_fd s1 fd then do {
       s2 \<leftarrow> (if 0 <s ret then assign_taint_labels_exf s1 buf offset ret cnt 1 else Some s1);
       let (l, s3) = get_sp_label s2 offset 1;
       Some (ret, l, s3)
     } else Some (ret, 0, s1)
   }"

section \<open>Reading characters and lines\<close>

definition EOF :: u32 where
  "EOF = - 1"

definition dfsw_fgetc :: "(u64 \<Rightarrow> u32) \<Rightarrow> (u64 \<Rightarrow> u64) \<Rightarrow> (u64 \<Rightarrow> u32 sys) \<Rightarrow> io \<Rightarrow> u64 \<Rightarrow> u32 io_wrapped" where
  "dfsw_fgetc fileno ftell fgetc s fd = do {
     let offset = ftell fd;
     let (c, s1) = io_call (fgetc fd) s;
     if c \<noteq> EOF \<and> angora_io_find_pfile fileno s1 fd then do {
       (l, b) \<leftarrow> dfsan_create_label (base s1) (ucast offset);
       Some (c, l, s1\<lparr>base := b\<rparr>)
     } else Some (c, 0, s1)
   }"

definition dfsw_fgetc_unlocked :: "(u64 \<Rightarrow> u32) \<Rightarrow> (u64 \<Rightarrow> u64) \<Rightarrow> (u64 \<Rightarrow> u32 sys) \<Rightarrow> io \<Rightarrow> u64 \<Rightarrow> u32 io_wrapped" where
  "dfsw_fgetc_unlocked fileno ftell fgetc_unlocked s fd = do {
     let offset = ftell fd;
     let (c, s1) = io_call (fgetc_unlocked fd) s;
     if c \<noteq> EOF \<and> angora_io_find_pfile fileno s1 fd then do {
       (l, b) \<leftarrow> dfsan_create_label (base s1) (ucast offset);
       Some (c, l, s1\<lparr>base := b\<rparr>)
     } else Some (c, 0, s1)
   }"

definition dfsw_IO_getc :: "(u64 \<Rightarrow> u32) \<Rightarrow> (u64 \<Rightarrow> u64) \<Rightarrow> (u64 \<Rightarrow> u32 sys) \<Rightarrow> io \<Rightarrow> u64 \<Rightarrow> u32 io_wrapped" where
  "dfsw_IO_getc fileno ftell getc s fd = do {
     let offset = ftell fd;
     let (c, s1) = io_call (getc fd) s;
     if angora_io_find_pfile fileno s1 fd \<and> c \<noteq> EOF then do {
       (l, b) \<leftarrow> dfsan_create_label (base s1) (ucast offset);
       Some (c, l, s1\<lparr>base := b\<rparr>)
     } else Some (c, 0, s1)
   }"

text \<open>Standard input is not looked up in the table.\<close>

definition dfsw_getchar :: "u64 \<Rightarrow> u32 sys \<Rightarrow> io \<Rightarrow> u32 io_wrapped" where
  "dfsw_getchar ftell_stdin getchar s = do {
     let offset = ftell_stdin;
     let (c, s1) = io_call getchar s;
     if c \<noteq> EOF then do {
       (l, b) \<leftarrow> dfsan_create_label (base s1) (ucast offset);
       Some (c, l, s1\<lparr>base := b\<rparr>)
     } else Some (c, 0, s1)
   }"

definition dfsw_fgets :: "(u64 \<Rightarrow> u32) \<Rightarrow> (u64 \<Rightarrow> u64) \<Rightarrow> (u64 \<Rightarrow> u32 \<Rightarrow> u64 \<Rightarrow> u64 sys) \<Rightarrow> io \<Rightarrow> u64 \<Rightarrow> u32 \<Rightarrow> u64 \<Rightarrow> u32 \<Rightarrow> u64 io_wrapped" where
  "dfsw_fgets fileno ftell fgets s str cnt fd str_label = do {
     let offset = ftell fd;
     let (ret, s1) = io_call (fgets str cnt fd) s;
     if ret \<noteq> 0 \<and> angora_io_find_pfile fileno s1 fd then do {
       n \<leftarrow> strlen (mem (base s1)) ret;
       let len = (ucast n :: u32);
       s2 \<leftarrow> assign_taint_labels_exf s1 str offset (scast len) (scast cnt) 1;
       Some (ret, str_label, s2)
     } else Some (ret, 0, s1)
   }"

text \<open>\<^verbatim>\<open>sizeof str\<close> is the size of a pointer.\<close>

definition dfsw_gets :: "u64 \<Rightarrow> (u64 \<Rightarrow> u32 \<Rightarrow> u64 sys) \<Rightarrow> io \<Rightarrow> u64 \<Rightarrow> u32 \<Rightarrow> u64 io_wrapped" where
  "dfsw_gets ftell_stdin fgets_stdin s str str_label = do {
     let offset = ftell_stdin;
     let (ret, s1) = io_call (fgets_stdin str 8) s;
     if ret \<noteq> 0 then do {
       n \<leftarrow> strlen (mem (base s1)) ret;
       s2 \<leftarrow> assign_taint_labels s1 str offset (n + 1);
       Some (ret, str_label, s2)
     } else Some (ret, 0, s1)
   }"

text \<open>A record of the login database has 384 bytes.\<close>

definition dfsw_getutxent :: "u64 sys \<Rightarrow> io \<Rightarrow> u64 io_wrapped" where
  "dfsw_getutxent getutent s = do {
     let (ret, s1) = io_call getutent s;
     let len = 384;
     s2 \<leftarrow> (if ret \<noteq> 0 then do {
               t \<leftarrow> assign_taint_labels s1 ret (rt_utmp_offset s1) len;
               Some (t\<lparr>rt_utmp_offset := rt_utmp_offset t + len\<rparr>)
             } else Some s1);
     Some (ret, 0, s2)
   }"

definition dfsw_getline :: "(u64 \<Rightarrow> u32) \<Rightarrow> (u64 \<Rightarrow> u64) \<Rightarrow> (u64 \<Rightarrow> u64 \<Rightarrow> u64 \<Rightarrow> u64 sys) \<Rightarrow> io \<Rightarrow> u64 \<Rightarrow> u64 \<Rightarrow> u64 \<Rightarrow> u64 io_wrapped" where
  "dfsw_getline fileno ftell getline s lineptr n fd = do {
     let offset = ftell fd;
     let (ret, s1) = io_call (getline lineptr n fd) s;
     if angora_io_find_pfile fileno s1 fd then do {
       s2 \<leftarrow> (if 0 <s ret then assign_taint_labels s1 (load64 (mem (base s1)) lineptr) offset ret else Some s1);
       let (l, s3) = get_sp_label s2 offset 1;
       Some (ret, l, s3)
     } else Some (ret, 0, s1)
   }"

definition dfsw_getdelim ::
  "(u64 \<Rightarrow> u32) \<Rightarrow> (u64 \<Rightarrow> u64) \<Rightarrow> (u64 \<Rightarrow> u64 \<Rightarrow> u32 \<Rightarrow> u64 \<Rightarrow> u64 sys) \<Rightarrow> io \<Rightarrow> u64 \<Rightarrow> u64 \<Rightarrow> u32 \<Rightarrow> u64 \<Rightarrow> u64 io_wrapped"
where
  "dfsw_getdelim fileno ftell getdelim s lineptr n delim fd = do {
     let offset = ftell fd;
     let (ret, s1) = io_call (getdelim lineptr n delim fd) s;
     s2 \<leftarrow> (if 0 <s ret \<and> angora_io_find_pfile fileno s1 fd
             then assign_taint_labels s1 (load64 (mem (base s1)) lineptr) offset ret else Some s1);
     Some (ret, 0, s2)
   }"

definition dfsw___getdelim ::
  "(u64 \<Rightarrow> u32) \<Rightarrow> (u64 \<Rightarrow> u64) \<Rightarrow> (u64 \<Rightarrow> u64 \<Rightarrow> u32 \<Rightarrow> u64 \<Rightarrow> u64 sys) \<Rightarrow> io \<Rightarrow> u64 \<Rightarrow> u64 \<Rightarrow> u32 \<Rightarrow> u64 \<Rightarrow> u64 io_wrapped"
where
  "dfsw___getdelim fileno ftell getdelim s lineptr n delim fd = do {
     let offset = ftell fd;
     let (ret, s1) = io_call (getdelim lineptr n delim fd) s;
     s2 \<leftarrow> (if 0 <s ret \<and> angora_io_find_pfile fileno s1 fd
             then assign_taint_labels s1 (load64 (mem (base s1)) lineptr) offset ret else Some s1);
     Some (ret, 0, s2)
   }"

section \<open>File status\<close>

text \<open>A \<^verbatim>\<open>struct stat\<close> has 144 bytes; the size of the file is the eight bytes at 48.\<close>

definition label_stat :: "io \<Rightarrow> u64 \<Rightarrow> io option" where
  "label_stat s buf = do {
     s1 \<leftarrow> on_base s (dfsan_set_label (base s) 0 buf 144);
     let (lb, s2) = get_sp_label s1 0 1;
     on_base s2 (dfsan_set_label (base s2) lb (buf + 48) 8)
   }"

definition dfsw_stat :: "(u64 \<Rightarrow> u64 \<Rightarrow> u32 sys) \<Rightarrow> io \<Rightarrow> u64 \<Rightarrow> u64 \<Rightarrow> u32 io_wrapped" where
  "dfsw_stat stat s path buf = do {
     let (ret, s1) = io_call (stat path buf) s;
     s2 \<leftarrow> (if 0 \<le>s ret then label_stat s1 buf else Some s1);
     Some (ret, 0, s2)
   }"

definition dfsw___xstat :: "(u32 \<Rightarrow> u64 \<Rightarrow> u64 \<Rightarrow> u32 sys) \<Rightarrow> io \<Rightarrow> u32 \<Rightarrow> u64 \<Rightarrow> u64 \<Rightarrow> u32 io_wrapped" where
  "dfsw___xstat xstat s vers path buf = do {
     let (ret, s1) = io_call (xstat vers path buf) s;
     s2 \<leftarrow> (if 0 \<le>s ret then label_stat s1 buf else Some s1);
     Some (ret, 0, s2)
   }"

definition dfsw_fstat :: "(u32 \<Rightarrow> u64 \<Rightarrow> u32 sys) \<Rightarrow> io \<Rightarrow> u32 \<Rightarrow> u64 \<Rightarrow> u32 io_wrapped" where
  "dfsw_fstat fstat s fd buf = do {
     let (ret, s1) = io_call (fstat fd buf) s;
     s2 \<leftarrow> (if 0 \<le>s ret then label_stat s1 buf else Some s1);
     Some (ret, 0, s2)
   }"

definition dfsw___fxstat :: "(u32 \<Rightarrow> u32 \<Rightarrow> u64 \<Rightarrow> u32 sys) \<Rightarrow> io \<Rightarrow> u32 \<Rightarrow> u32 \<Rightarrow> u64 \<Rightarrow> u32 io_wrapped" where
  "dfsw___fxstat fxstat s vers fd buf = do {
     let (ret, s1) = io_call (fxstat vers fd buf) s;
     s2 \<leftarrow> (if 0 \<le>s ret then label_stat s1 buf else Some s1);
     Some (ret, 0, s2)
   }"

definition dfsw_lstat :: "(u64 \<Rightarrow> u64 \<Rightarrow> u32 sys) \<Rightarrow> io \<Rightarrow> u64 \<Rightarrow> u64 \<Rightarrow> u32 io_wrapped" where
  "dfsw_lstat lstat s path buf = do {
     let (ret, s1) = io_call (lstat path buf) s;
     s2 \<leftarrow> (if 0 \<le>s ret then label_stat s1 buf else Some s1);
     Some (ret, 0, s2)
   }"

definition dfsw___lxstat :: "(u32 \<Rightarrow> u64 \<Rightarrow> u64 \<Rightarrow> u32 sys) \<Rightarrow> io \<Rightarrow> u32 \<Rightarrow> u64 \<Rightarrow> u64 \<Rightarrow> u32 io_wrapped" where
  "dfsw___lxstat lxstat s vers path buf = do {
     let (ret, s1) = io_call (lxstat vers path buf) s;
     s2 \<leftarrow> (if 0 \<le>s ret then label_stat s1 buf else Some s1);
     Some (ret, 0, s2)
   }"

section \<open>The allocator (stdalloc.c, heapmap.rs)\<close>

definition heapmap_set :: "io \<Rightarrow> u64 \<Rightarrow> u64 \<Rightarrow> io" where
  "heapmap_set s p bound = s\<lparr>HEAPMAP := AList.update p bound (HEAPMAP s)\<rparr>"

definition heapmap_invalidate :: "io \<Rightarrow> u64 \<Rightarrow> io" where
  "heapmap_invalidate s p = s\<lparr>HEAPMAP := AList.delete p (HEAPMAP s)\<rparr>"

definition heapmap_get :: "io \<Rightarrow> u64 \<Rightarrow> u64" where
  "heapmap_get s p = (case map_of (HEAPMAP s) p of Some b \<Rightarrow> b | None \<Rightarrow> 0)"

definition dfsw_malloc :: "(u64 \<Rightarrow> u64 sys) \<Rightarrow> io \<Rightarrow> u64 \<Rightarrow> u64 io_wrapped" where
  "dfsw_malloc malloc s n = (let (p, s1) = io_call (malloc n) s in Some (p, 0, if p \<noteq> 0 then heapmap_set s1 p n else s1))"

definition dfsw_free :: "(u64 \<Rightarrow> unit sys) \<Rightarrow> io \<Rightarrow> u64 \<Rightarrow> io" where
  "dfsw_free free s p = heapmap_invalidate (snd (io_call (free p) s)) p"

definition dfsw_calloc :: "(u64 \<Rightarrow> u64 \<Rightarrow> u64 sys) \<Rightarrow> io \<Rightarrow> u64 \<Rightarrow> u64 \<Rightarrow> u64 io_wrapped" where
  "dfsw_calloc calloc s nmemb n =
     (let (p, s1) = io_call (calloc nmemb n) s in Some (p, 0, if p \<noteq> 0 then heapmap_set s1 p (nmemb * n) else s1))"

text \<open>Not implemented: it aborts.\<close>

definition dfsw_reallocarray :: "io \<Rightarrow> u64 \<Rightarrow> u64 \<Rightarrow> u64 \<Rightarrow> u64 io_wrapped" where
  "dfsw_reallocarray s p nmemb n = None"

definition dfsw_realloc :: "(u64 \<Rightarrow> u64 \<Rightarrow> u64 sys) \<Rightarrow> io \<Rightarrow> u64 \<Rightarrow> u64 \<Rightarrow> u64 io_wrapped" where
  "dfsw_realloc realloc s p n = do {
     let old_size = heapmap_get s p;
     let (ret, s1) = io_call (realloc p n) s;
     s2 \<leftarrow> (if ret \<noteq> 0 then do {
               t \<leftarrow> (if p \<noteq> 0 \<and> ret \<noteq> p
                     then let u = heapmap_invalidate s1 p in on_base u (copy_labels (base u) ret p old_size)
                     else Some s1);
               Some (heapmap_set t ret n)
             } else Some s1);
     Some (ret, 0, s2)
   }"

section \<open>Checksums (zlib_func.c)\<close>

definition dfsw_crc32 :: "(u64 \<Rightarrow> u64 \<Rightarrow> u32 \<Rightarrow> u64 sys) \<Rightarrow> io \<Rightarrow> u64 \<Rightarrow> u64 \<Rightarrow> u32 \<Rightarrow> u32 \<Rightarrow> u32 \<Rightarrow> u32 \<Rightarrow> u64 io_wrapped" where
  "dfsw_crc32 crc32 s crc buf len crc_label buf_label len_label = do {
     (l1, b1) \<leftarrow> dfsan_union (base s) crc_label len_label;
     (l2, b2) \<leftarrow> dfsan_read_label b1 buf (ucast len);
     (l3, b3) \<leftarrow> dfsan_union b2 l1 l2;
     let (r, s1) = io_call (crc32 crc buf len) (s\<lparr>base := b3\<rparr>);
     Some (r, l3, s1)
   }"

section \<open>Input bytes and their labels\<close>

text \<open>What a label of the program's memory means: the input offsets found for it.\<close>

definition found :: "io \<Rightarrow> u32 \<Rightarrow> nat set \<Rightarrow> bool" where
  "found s l S \<longleftrightarrow> (\<exists>ts segs. tags (base s) = Some ts \<and> tag_find ts (unat l) = Some (segs, ts) \<and> offsets segs = S)"

lemma app_range_part: "app_range a n \<Longrightarrow> i < n \<Longrightarrow> app_range (a + of_nat i) 1"
  using app_range_nth(1,2) [of a n i] by (simp add: app_range_def app_unat)

lemma create_label_trie:
  assumes "tags b = Some ts" "trie ts B" "int (unat pos) < MAX_LB" "int (length ts) + 2 \<le> MAX_LB"
  shows "\<exists>l ts' B'. dfsan_create_label b pos = Some (l, b\<lparr>tags := Some ts'\<rparr>) \<and> later ts B ts' B' \<and>
    length ts' \<le> length ts + 2 \<and> ones ts' B' (unat l) \<and> B' (unat l) = {unat pos}"
proof -
  obtain lb ts' B' where t: "tag_insert ts pos = Some (lb, ts')" "later ts B ts' B'" "ones ts' B' lb" "B' lb = {unat pos}"
      "length ts' \<le> length ts + 2"
    using tag_insert_trie [OF assms(2,3)] either_total [OF tag_insert_trie [OF assms(2,3)]] assms(4)
    by (cases "tag_insert ts pos") auto
  have "int lb < MAX_LB" using t(3,5) assms(4) by (simp add: ones_def)
  then have "lb < 4194303" by (simp add: MAX_LB_def)
  then have "unat (of_nat lb :: u32) = lb" by (simp add: unat_of_nat)
  then show ?thesis using t assms(1)
    by (auto simp: dfsan_create_label_def angora_tag_set_insert_def put_tags_def)
qed

text \<open>The loop gives byte after byte a label of its offset.\<close>

lemma assign_loop_labels:
  assumes "tags (base s) = Some ts" "trie ts B" "app_range buf (unat n)" "unat i + k = unat n"
    "int (unat offset + unat n) \<le> MAX_LB" "int (length ts) + 2 * int k \<le> MAX_LB"
  shows "\<exists>b' ts' B'. assign_loop k s buf offset n i = Some (s\<lparr>base := b'\<rparr>) \<and> tags b' = Some ts' \<and> later ts B ts' B' \<and>
    length ts' \<le> length ts + 2 * k \<and> mem b' = mem (base s) \<and>
    (\<forall>j. unat i \<le> j \<and> j < unat n \<longrightarrow> (let l = unat (label_at b' (buf + of_nat j)) in ones ts' B' l \<and> B' l = {unat offset + j})) \<and>
    (\<forall>p. app p \<longrightarrow> (\<forall>j. unat i \<le> j \<and> j < unat n \<longrightarrow> p \<noteq> buf + of_nat j) \<longrightarrow> label_at b' p = label_at (base s) p)"
  using assms
proof (induction k arbitrary: s ts B i)
  case 0
  then show ?case using later_refl [OF 0(2)] by (intro exI [of _ "base s"] exI [of _ ts] exI [of _ B]) auto
next
  case (Suc k)
  have i: "unat i < unat n" using Suc.prems(4) by simp
  have small: "unat offset + unat n \<le> 4194303" using Suc.prems(5) unfolding MAX_LB_def by linarith
  have o: "unat (offset + i) = unat offset + unat i" using small i by (simp add: unat_word_ariths)
  have c: "unat (ucast (offset + i) :: u32) = unat offset + unat i"
    using small i o by (simp add: unsigned_ucast_eq take_bit_nat_eq_self_iff)
  obtain l t1 B1 where l: "dfsan_create_label (base s) (ucast (offset + i)) = Some (l, (base s)\<lparr>tags := Some t1\<rparr>)"
      "later ts B t1 B1" "length t1 \<le> length ts + 2" "ones t1 B1 (unat l)" "B1 (unat l) = {unat offset + unat i}"
  proof -
    have "int (unat (ucast (offset + i) :: u32)) < MAX_LB" unfolding c using Suc.prems(5) i by linarith
    moreover have "int (length ts) + 2 \<le> MAX_LB" using Suc.prems(6) by simp
    ultimately show ?thesis using create_label_trie [OF Suc.prems(1,2)] c that by fastforce
  qed
  have bi: "buf + i = buf + of_nat (unat i)" by simp
  have r1: "app_range (buf + i) (unat (1 :: u64))" using app_range_part [OF Suc.prems(3) i] by simp
  obtain b where b: "dfsan_set_label ((base s)\<lparr>tags := Some t1\<rparr>) l (buf + i) 1 = Some b"
      "b = (base s)\<lparr>tags := Some t1, shadow := shadow b\<rparr>"
      "\<And>p. app p \<Longrightarrow> label_at b p = (if in_bytes (buf + i) 1 p then l else label_at (base s) p)"
    using set_label_app [OF r1, of "(base s)\<lparr>tags := Some t1\<rparr>" l] by (auto simp: label_at_def)
  have i1: "unat (i + granularity) = Suc (unat i)" "\<not> n < i + granularity"
  proof -
    show u: "unat (i + granularity) = Suc (unat i)" using i small by (simp add: granularity_def unat_word_ariths)
    show "\<not> n < i + granularity" unfolding word_less_nat_alt u using i by simp
  qed
  let ?s = "s\<lparr>base := b\<rparr>"
  have tb: "tags (base ?s) = Some t1" by (subst b(2)) simp
  have "trie t1 B1" using l(2) by (simp add: later_def)
  then obtain b' ts' B' where h: "assign_loop k ?s buf offset n (i + granularity) = Some (?s\<lparr>base := b'\<rparr>)" "tags b' = Some ts'"
      "later t1 B1 ts' B'" "length ts' \<le> length t1 + 2 * k" "mem b' = mem b"
      "\<forall>j. Suc (unat i) \<le> j \<and> j < unat n \<longrightarrow> (let l = unat (label_at b' (buf + of_nat j)) in ones ts' B' l \<and> B' l = {unat offset + j})"
      "\<forall>p. app p \<longrightarrow> (\<forall>j. Suc (unat i) \<le> j \<and> j < unat n \<longrightarrow> p \<noteq> buf + of_nat j) \<longrightarrow> label_at b' p = label_at b p"
    using Suc.IH [OF tb _ Suc.prems(3), of B1 "i + granularity"] Suc.prems(4-6) i1 l(3) by auto
  have at: "in_bytes (buf + i) 1 p \<longleftrightarrow> p = buf + of_nat (unat i)" for p by (auto simp: in_bytes_def word_unat_eq_iff)
  have far: "buf + of_nat (unat i) \<noteq> buf + of_nat j" if "Suc (unat i) \<le> j" "j < unat n" for j
    using app_range_nth(2) [OF Suc.prems(3) i] app_range_nth(2) [OF Suc.prems(3) that(2)] that(1) by (metis add_left_cancel not_less_eq_eq order_refl)
  have lab: "label_at b' (buf + of_nat (unat i)) = l"
    using h(7) [rule_format, OF app_range_nth(1) [OF Suc.prems(3) i]] far b(3) [OF app_range_nth(1) [OF Suc.prems(3) i]] at by auto
  have lt: "later ts B ts' B'" by (rule later_trans [OF l(2) h(3)])
  have li: "ones ts' B' (unat l)" "B' (unat l) = {unat offset + unat i}"
    using later_ones [OF h(3) l(4)] h(3) l(4,5) by (auto simp: later_def ones_def)
  have mb: "mem b = mem (base s)" by (subst b(2)) simp
  show ?case
  proof (intro exI [of _ b'] exI [of _ ts'] exI [of _ B'] conjI allI impI)
    show "assign_loop (Suc k) s buf offset n i = Some (s\<lparr>base := b'\<rparr>)"
      using l(1) b(1) h(1) i1(2) by (simp add: on_base_def granularity_def)
    fix j assume j: "unat i \<le> j \<and> j < unat n"
    show "let l = unat (label_at b' (buf + of_nat j)) in ones ts' B' l \<and> B' l = {unat offset + j}"
    proof (cases "j = unat i")
      case True
      show ?thesis unfolding True lab Let_def using li by simp
    next
      case False
      then show ?thesis using h(6) j by (metis Suc_leI le_neq_implies_less)
    qed
  next
    fix p assume p: "app p" "\<forall>j. unat i \<le> j \<and> j < unat n \<longrightarrow> p \<noteq> buf + of_nat j"
    then show "label_at b' p = label_at (base s) p" using h(7) b(3) [OF p(1)] at i by (metis Suc_leD order_refl)
  qed (use h lt mb l(3) in auto)
qed

text \<open>The number of bytes that get a label: those read, and up to 1024 more that were asked for.\<close>

definition tainted_len :: "u64 \<Rightarrow> u64 \<Rightarrow> nat" where
  "tainted_len ret cnt = unat ret + min (unat cnt - unat ret) 1024"

lemma small_sint: "unat w < 2 ^ (LENGTH('a) - 1) \<Longrightarrow> sint w = int (unat w)" for w :: "'a::len word"
proof -
  assume a: "unat w < 2 ^ (LENGTH('a) - 1)"
  then have "\<not> bit w (LENGTH('a) - 1)" using take_bit_self [of "LENGTH('a) - 1" w] by (metis bit_take_bit_iff less_irrefl)
  moreover have "uint w < 2 ^ (LENGTH('a) - 1)" using a by (metis of_nat_less_iff of_nat_power of_nat_numeral uint_nat)
  ultimately show ?thesis by (simp add: sint_uint signed_take_bit_eq_if_positive take_bit_int_eq_self_iff bit_uint_iff)
qed

lemma exf_one:
  assumes "ret \<le> cnt" "unat cnt < 2 ^ 31" "unat offset < 2 ^ 63" "int (tainted_len ret cnt) \<le> MAX_LB"
  shows "assign_taint_labels_exf s buf offset ret cnt 1 = assign_taint_labels s buf offset (of_nat (tainted_len ret cnt))"
proof -
  have rc: "unat ret \<le> unat cnt" using assms(1) by (simp add: word_le_nat_alt)
  have t: "tainted_len ret cnt \<le> 4194303" using assms(4) unfolding MAX_LB_def by linarith
  have "sint offset = int (unat offset)" by (rule small_sint) (use assms(3) in simp)
  then have o: "\<not> offset <s 0" by (simp add: word_sless_alt)
  let ?len = "ucast ret :: u32" and ?res = "ucast (cnt - ret) :: u32"
  let ?add = "if ret < cnt then (if ?res <s 1024 then ?res else 1024) else 0"
  have len: "unat ?len = unat ret" using rc assms(2) by (simp add: unsigned_ucast_eq take_bit_nat_eq_self_iff)
  have d: "unat (cnt - ret) = unat cnt - unat ret" using assms(1) by (simp add: unat_sub)
  have res: "unat ?res = unat cnt - unat ret" using d assms(2) by (simp add: unsigned_ucast_eq take_bit_nat_eq_self_iff)
  have sres: "sint ?res = int (unat cnt - unat ret)" using small_sint [of ?res] res assms(2) by simp
  have "sint (1024 :: u32) = 1024" using small_sint [of "1024 :: u32"] by simp
  then have less: "?res <s 1024 \<longleftrightarrow> unat cnt - unat ret < 1024" using sres by (simp add: word_sless_alt)
  have add: "unat ?add = min (unat cnt - unat ret) 1024"
    using res less rc by (auto simp: word_less_nat_alt)
  have la: "unat (?len + ?add) = tainted_len ret cnt"
    using t len add unfolding tainted_len_def unat_word_ariths by simp
  have "sint (?len + ?add) = int (tainted_len ret cnt)" using small_sint [of "?len + ?add"] la t by simp
  moreover have "sint ?len = int (unat ret)" using small_sint [of ?len] len rc assms(2) by simp
  moreover have "sint ?add = int (min (unat cnt - unat ret) 1024)" using small_sint [of ?add] add by simp
  ultimately have s: "sint ?len + sint ?add = sint (?len + ?add)" "sint (?len + ?add) = int (tainted_len ret cnt)"
    by (simp_all add: tainted_len_def)
  have "scast (?len + ?add) = (of_int (sint (?len + ?add)) :: u64)" by (rule of_int_sint [symmetric])
  then have "scast (?len + ?add) = (of_nat (tainted_len ret cnt) :: u64)" unfolding s(2) by simp
  then show ?thesis unfolding assign_taint_labels_exf_def Let_def mult_1_right using o s(1) by simp
qed

lemma assign_labels:
  assumes "tags (base s) = Some ts" "tag_run ts R" "app_range buf n" "int (unat offset + n) \<le> MAX_LB"
    "int (length ts) + 2 * int n \<le> MAX_LB"
  shows "\<exists>b'. assign_taint_labels s buf offset (of_nat n) = Some (s\<lparr>base := b'\<rparr>) \<and> mem b' = mem (base s) \<and>
    (\<forall>j<n. found (s\<lparr>base := b'\<rparr>) (label_at b' (buf + of_nat j)) {unat offset + j}) \<and>
    (\<forall>p. app p \<longrightarrow> \<not> in_bytes buf n p \<longrightarrow> label_at b' p = label_at (base s) p) \<and>
    (\<forall>(l, S)\<in>R. found (s\<lparr>base := b'\<rparr>) (of_nat l) S)"
proof -
  obtain B where B: "means ts B R" using tag_run_means [OF assms(2)] by blast
  then have tr: "trie ts B" by (simp add: means_def)
  have "n \<le> 4194303" using assms(4) unfolding MAX_LB_def by linarith
  then have un: "unat (of_nat n :: u64) = n" by (simp add: unat_of_nat)
  obtain b' ts' B' where h: "assign_loop n s buf offset (of_nat n) 0 = Some (s\<lparr>base := b'\<rparr>)" "tags b' = Some ts'"
      "later ts B ts' B'" "length ts' \<le> length ts + 2 * n" "mem b' = mem (base s)"
      "\<forall>j. j < n \<longrightarrow> (let l = unat (label_at b' (buf + of_nat j)) in ones ts' B' l \<and> B' l = {unat offset + j})"
      "\<forall>p. app p \<longrightarrow> (\<forall>j. j < n \<longrightarrow> p \<noteq> buf + of_nat j) \<longrightarrow> label_at b' p = label_at (base s) p"
    using assign_loop_labels [OF assms(1) tr, of buf "of_nat n" 0 n offset] assms(3-5) by (auto simp: un)
  have tr': "trie ts' B'" using h(3) by (simp add: later_def)
  have f: "found (s\<lparr>base := b'\<rparr>) l (B' (unat l))" if "ones ts' B' (unat l)" for l
    using tag_find_trie [OF tr' that] h(2) by (auto simp: found_def)
  have old: "found (s\<lparr>base := b'\<rparr>) (of_nat l) S" if "(l, S) \<in> R" for l S
  proof -
    have o: "ones ts' B' l" "B' l = S" using means_later [OF B h(3)] that by (auto simp: means_def)
    have "int l < MAX_LB" using o(1) h(4) assms(5) by (simp add: ones_def)
    then have "l < 4194303" by (simp add: MAX_LB_def)
    then have "unat (of_nat l :: u32) = l" by (simp add: unat_of_nat)
    then show ?thesis using f [of "of_nat l"] o by simp
  qed
  have new: "found (s\<lparr>base := b'\<rparr>) (label_at b' (buf + of_nat j)) {unat offset + j}" if "j < n" for j
    using h(6) that f by (metis (no_types, lifting))
  have out: "label_at b' p = label_at (base s) p" if "app p" "\<not> in_bytes buf n p" for p
    using h(7) that in_bytes_nth [OF assms(3)] by metis
  show ?thesis using h(1,5) new old out unfolding assign_taint_labels_def un by blast
qed

text \<open>C13. Reading input.  When \<open>read\<close> returns bytes of an input file, at a position and into a buffer inside the
  program's memory, and the label store has room, then the wrapper returns what \<open>read\<close> returned, and the label of every
  byte read, looked up in the store, stands for exactly the byte's offset in the input; so do the labels of up to 1024
  bytes behind them that were asked for but not there.  No other label in memory changes, and every label the program
  obtained before still stands for the offsets it stood for.\<close>

theorem read_labels_input:
  assumes "tags (base s) = Some ts" "tag_run ts R" "fd \<in> set (FFDS s)" "read fd buf cnt (mem (base s)) = (ret, m)"
    "0 < ret" "ret \<le> cnt" "unat cnt < 2 ^ 31" "app_range buf (tainted_len ret cnt)"
    "int (unat (lseek fd) + tainted_len ret cnt) \<le> MAX_LB" "int (length ts) + 2 * int (tainted_len ret cnt) \<le> MAX_LB"
  shows "\<exists>lb s'. dfsw_read lseek read s fd buf cnt = Some (ret, lb, s') \<and> mem (base s') = m \<and>
    (\<forall>j<tainted_len ret cnt. found s' (label_at (base s') (buf + of_nat j)) {unat (lseek fd) + j}) \<and>
    (\<forall>p. app p \<longrightarrow> \<not> in_bytes buf (tainted_len ret cnt) p \<longrightarrow> label_at (base s') p = label_at (base s) p) \<and>
    (\<forall>(l, S)\<in>R. found s' (of_nat l) S)"
proof -
  let ?n = "tainted_len ret cnt" and ?b = "(base s)\<lparr>mem := m\<rparr>"
  let ?s = "s\<lparr>base := ?b\<rparr>"
  obtain b' where b: "assign_taint_labels ?s buf (lseek fd) (of_nat ?n) = Some (?s\<lparr>base := b'\<rparr>)" "mem b' = m"
      "\<forall>j<?n. found (?s\<lparr>base := b'\<rparr>) (label_at b' (buf + of_nat j)) {unat (lseek fd) + j}"
      "\<forall>p. app p \<longrightarrow> \<not> in_bytes buf ?n p \<longrightarrow> label_at b' p = label_at (base s) p"
      "\<forall>(l, S)\<in>R. found (?s\<lparr>base := b'\<rparr>) (of_nat l) S"
    using assign_labels [of ?s ts R buf ?n "lseek fd"] assms by (auto simp: label_at_def)
  have "unat (lseek fd) \<le> 4194303" "int ?n \<le> MAX_LB" using assms(9) unfolding MAX_LB_def by linarith+
  then have e: "assign_taint_labels_exf ?s buf (lseek fd) ret cnt 1 = Some (?s\<lparr>base := b'\<rparr>)"
    using exf_one [OF assms(6,7), of "lseek fd" ?s buf] b(1) by simp
  have "unat ret < 2 ^ 63" using assms(6,7) by (simp add: word_le_nat_alt)
  then have "sint ret = int (unat ret)" using small_sint [of ret] by simp
  moreover have "0 < unat ret" using assms(5) by (simp add: word_less_nat_alt)
  ultimately have "0 < sint ret" by (metis of_nat_0_less_iff)
  then have p: "0 <s ret" by (simp add: word_sless_alt)
  obtain l info where l: "angora_get_len_label (LEN_INFO s) (ucast (lseek fd)) (ucast (1 :: u64)) = (l, info)"
    by (cases "angora_get_len_label (LEN_INFO s) (ucast (lseek fd)) (ucast (1 :: u64))")
  let ?s' = "s\<lparr>base := b', LEN_INFO := info\<rparr>"
  have "dfsw_read lseek read s fd buf cnt = Some (ret, l, ?s')"
    using assms(3,4) e p l by (simp add: dfsw_read_def io_call_def os_call_def angora_io_find_fd_def get_sp_label_def Let_def)
  moreover have "found ?s' x S \<longleftrightarrow> found (?s\<lparr>base := b'\<rparr>) x S" for x S by (simp add: found_def)
  ultimately show ?thesis using b by auto
qed

text \<open>Two bytes read at offset 3 into a buffer on the stack.\<close>

definition sample_read :: "u32 \<Rightarrow> u64 \<Rightarrow> u64 \<Rightarrow> u64 sys" where
  "sample_read fd buf cnt m = (2, m(buf := 65, buf + 1 := 66))"

theorem read_labels_input_witness:
  "\<exists>lb s'. dfsw_read (\<lambda>_. 3) sample_read (io_start (\<lambda>_. 0)) 0 0x7fffffffe000 2 = Some (2, lb, s') \<and>
     found s' (label_at (base s') 0x7fffffffe001) {4} \<and> mem (base s') 0x7fffffffe001 = 66"
proof -
  have n: "tainted_len 2 2 = 2" by (simp add: tainted_len_def)
  have r: "sample_read 0 0x7fffffffe000 2 (mem (base (io_start (\<lambda>_. 0)))) =
      (2, (mem (base (io_start (\<lambda>_. 0))))(0x7fffffffe000 := 65, 0x7fffffffe000 + 1 := 66))"
    by (simp add: sample_read_def)
  have t: "tags (base (io_start (\<lambda>_. 0))) = Some TagSet_new" by (simp add: io_start_def rt_start_def)
  have "\<exists>lb s'. dfsw_read (\<lambda>_. 3) sample_read (io_start (\<lambda>_. 0)) 0 0x7fffffffe000 2 = Some (2, lb, s') \<and>
      mem (base s') = (mem (base (io_start (\<lambda>_. 0))))(0x7fffffffe000 := 65, 0x7fffffffe000 + 1 := 66) \<and>
      (\<forall>j<tainted_len 2 2. found s' (label_at (base s') (0x7fffffffe000 + of_nat j)) {unat (3 :: u64) + j})"
  proof -
    have "0 \<in> set (FFDS (io_start (\<lambda>_. 0)))" "0 < (2 :: u64)" "(2 :: u64) \<le> 2" "unat (2 :: u64) < 2 ^ 31"
      "app_range 0x7fffffffe000 (tainted_len 2 2)" "int (unat ((\<lambda>_. 3 :: u64) (0 :: u32)) + tainted_len 2 2) \<le> MAX_LB"
      "int (length TagSet_new) + 2 * int (tainted_len 2 2) \<le> MAX_LB"
      by (simp_all add: n io_start_def MAX_LB_def app_range_def app_unat TagSet_new_def)
    from read_labels_input [where read = sample_read, OF t tag_run.start this(1) r this(2-)] show ?thesis by blast
  qed
  then obtain lb s' where w: "dfsw_read (\<lambda>_. 3) sample_read (io_start (\<lambda>_. 0)) 0 0x7fffffffe000 2 = Some (2, lb, s')"
      "mem (base s') = (mem (base (io_start (\<lambda>_. 0))))(0x7fffffffe000 := 65, 0x7fffffffe000 + 1 := 66)"
      "\<forall>j<2. found s' (label_at (base s') (0x7fffffffe000 + of_nat j)) {3 + j}"
    unfolding n by auto
  then show ?thesis using w(3) [rule_format, of 1] by simp
qed
end
