(* ===== verification/Taint_Program.thy ===== *)
theory Taint_Program
  imports Dfsan_Contract Taint_Sources
begin

text \<open>
  Programs with input.  The contract of the label operations is extended by the two sources of labels, the offsets of
  input bytes and the lengths of reads; the wrappers of \<^verbatim>\<open>io_func.c\<close>, \<^verbatim>\<open>stdalloc.c\<close> and \<^verbatim>\<open>zlib_func.c\<close> then keep what
  the operations keep, and so does every run of a program that calls any of the wrappers in any order.
\<close>

section \<open>Runs\<close>

text \<open>One call of a wrapper of the external library.  The system may do anything to memory and return anything, so
  descriptors, positions and the contents of the files are not constrained.\<close>

inductive io_wrapper :: "u32 set \<Rightarrow> io \<Rightarrow> u32 \<Rightarrow> io \<Rightarrow> bool" for L :: "u32 set" and s :: io where
  open_file: "dfsw_open f s p o1 o2 = Some (r, l, s') \<Longrightarrow> io_wrapper L s l s'"
| fopen: "dfsw_fopen fno f1 s p q = Some (r1, l, s') \<Longrightarrow> io_wrapper L s l s'"
| fopen64: "dfsw_fopen64 fno f1 s p q = Some (r1, l, s') \<Longrightarrow> io_wrapper L s l s'"
| close: "dfsw_close f2 s fd = Some (r, l, s') \<Longrightarrow> io_wrapper L s l s'"
| fclose: "dfsw_fclose fno f3 s p = Some (r, l, s') \<Longrightarrow> io_wrapper L s l s'"
| mmap: "dfsw_mmap f4 s p n o1 o2 fd q = Some (r1, l, s') \<Longrightarrow> io_wrapper L s l s'"
| munmap: "dfsw_munmap f5 s p n = Some (r, l, s') \<Longrightarrow> io_wrapper L s l s'"
| fread: "dfsw_fread fno tell f6 s p n q k = Some (r1, l, s') \<Longrightarrow> io_wrapper L s l s'"
| fread_unlocked: "dfsw_fread_unlocked fno tell f6 s p n q k = Some (r1, l, s') \<Longrightarrow> io_wrapper L s l s'"
| read: "dfsw_read seek f7 s fd p n = Some (r1, l, s') \<Longrightarrow> io_wrapper L s l s'"
| pread: "dfsw_pread f8 s fd p n q = Some (r1, l, s') \<Longrightarrow> io_wrapper L s l s'"
| fgetc: "dfsw_fgetc fno tell f3 s p = Some (r, l, s') \<Longrightarrow> io_wrapper L s l s'"
| fgetc_unlocked: "dfsw_fgetc_unlocked fno tell f3 s p = Some (r, l, s') \<Longrightarrow> io_wrapper L s l s'"
| IO_getc: "dfsw_IO_getc fno tell f3 s p = Some (r, l, s') \<Longrightarrow> io_wrapper L s l s'"
| getchar: "dfsw_getchar q f9 s = Some (r, l, s') \<Longrightarrow> io_wrapper L s l s'"
| fgets: "dfsw_fgets fno tell f10 s p o1 q l1 = Some (r1, l, s') \<Longrightarrow> l1 \<in> L \<Longrightarrow> io_wrapper L s l s'"
| gets: "dfsw_gets q f11 s p l1 = Some (r1, l, s') \<Longrightarrow> l1 \<in> L \<Longrightarrow> io_wrapper L s l s'"
| getutxent: "dfsw_getutxent f12 s = Some (r1, l, s') \<Longrightarrow> io_wrapper L s l s'"
| getline: "dfsw_getline fno tell f13 s p n q = Some (r1, l, s') \<Longrightarrow> io_wrapper L s l s'"
| getdelim: "dfsw_getdelim fno tell f14 s p n o1 q = Some (r1, l, s') \<Longrightarrow> io_wrapper L s l s'"
| getdelim': "dfsw___getdelim fno tell f14 s p n o1 q = Some (r1, l, s') \<Longrightarrow> io_wrapper L s l s'"
| stat: "dfsw_stat f5 s p q = Some (r, l, s') \<Longrightarrow> io_wrapper L s l s'"
| xstat: "dfsw___xstat f15 s o1 p q = Some (r, l, s') \<Longrightarrow> io_wrapper L s l s'"
| fstat: "dfsw_fstat f16 s fd q = Some (r, l, s') \<Longrightarrow> io_wrapper L s l s'"
| fxstat: "dfsw___fxstat f17 s o1 fd q = Some (r, l, s') \<Longrightarrow> io_wrapper L s l s'"
| lstat: "dfsw_lstat f5 s p q = Some (r, l, s') \<Longrightarrow> io_wrapper L s l s'"
| lxstat: "dfsw___lxstat f15 s o1 p q = Some (r, l, s') \<Longrightarrow> io_wrapper L s l s'"
| malloc: "dfsw_malloc f18 s n = Some (r1, l, s') \<Longrightarrow> io_wrapper L s l s'"
| free: "l \<in> L \<Longrightarrow> io_wrapper L s l (dfsw_free f19 s p)"
| calloc: "dfsw_calloc f1 s n q = Some (r1, l, s') \<Longrightarrow> io_wrapper L s l s'"
| reallocarray: "dfsw_reallocarray s p n q = Some (r1, l, s') \<Longrightarrow> io_wrapper L s l s'"
| realloc: "dfsw_realloc f1 s p n = Some (r1, l, s') \<Longrightarrow> io_wrapper L s l s'"
| crc32: "dfsw_crc32 f20 s p q o1 l1 l2 l3 = Some (r1, l, s') \<Longrightarrow> {l1, l2, l3} \<subseteq> L \<Longrightarrow> io_wrapper L s l s'"

text \<open>A run of an instrumented program from its start: wrappers of the external library, wrappers of the C library and
  the label operations of the instrumented code, in any order.\<close>

inductive io_run :: "u32 set \<Rightarrow> io \<Rightarrow> bool" where
  start: "io_run {0} (io_start m)"
| wrapper: "io_run L s \<Longrightarrow> io_wrapper L s l s' \<Longrightarrow> io_run (insert l L) s'"
| call: "io_run L s \<Longrightarrow> dfsw_call L (base s) l b \<Longrightarrow> io_run (insert l L) (s\<lparr>base := b\<rparr>)"
| op: "io_run L s \<Longrightarrow> label_op L (base s) l b \<Longrightarrow> io_run (insert l L) (s\<lparr>base := b\<rparr>)"

section \<open>The contract with the sources of labels\<close>

definition io_sound :: "(rt \<Rightarrow> bool) \<Rightarrow> (rt \<Rightarrow> u32 \<Rightarrow> bool) \<Rightarrow> io \<Rightarrow> 'r io_wrapped \<Rightarrow> bool" where
  "io_sound okay good s x \<longleftrightarrow>
     holds x (\<lambda>(r, l, s'). okay (base s') \<and> good (base s') l \<and> (\<forall>y. good (base s) y \<longrightarrow> good (base s') y))"

lemma table_base [simp]:
  "base (angora_io_add_fd s fd) = base s" "base (angora_io_remove_fd s fd) = base s"
  "base (angora_io_add_pfile fno s p) = base s" "base (angora_io_remove_pfile fno s p) = base s"
  "base (heapmap_set s p n) = base s" "base (heapmap_invalidate s p) = base s"
  by (simp_all add: angora_io_add_fd_def angora_io_remove_fd_def angora_io_add_pfile_def angora_io_remove_pfile_def
      heapmap_set_def heapmap_invalidate_def)

locale source_contract = taint_contract +
  assumes create_law: "dfsan_create_label s pos = Some (l, s') \<Longrightarrow> okay s \<Longrightarrow> okay s' \<and> good s' l \<and> (\<forall>x. good s x \<longrightarrow> good s' x)"
    and length_law: "okay s \<Longrightarrow> good s (fst (angora_get_len_label info offset n))"
begin

lemma create_wp [wp_op]:
  "okay s \<Longrightarrow> (\<And>l s'. okay s' \<Longrightarrow> good s' l \<Longrightarrow> (\<And>x. good s x \<Longrightarrow> good s' x) \<Longrightarrow> Q (l, s')) \<Longrightarrow>
   holds (dfsan_create_label s pos) Q"
  using create_law [of s pos] by (auto simp: holds_def)

lemma on_base_wp [wp]: "holds (on_base s x) Q \<longleftrightarrow> holds x (\<lambda>b. Q (s\<lparr>base := b\<rparr>))"
  by (simp add: on_base_def wp)

lemma io_call_wp [wp_op]:
  "(\<And>r s'. okay (base s') = okay (base s) \<Longrightarrow> good (base s') = good (base s) \<Longrightarrow> Q r s') \<Longrightarrow>
   case io_call sys s of (r, s') \<Rightarrow> Q r s'"
  using os_call_frame [of sys "base s"] by (auto simp: io_call_def split: prod.split)

lemma sp_label_wp [wp_op]:
  "okay (base s) \<Longrightarrow> (\<And>l s'. base s' = base s \<Longrightarrow> good (base s) l \<Longrightarrow> Q l s') \<Longrightarrow>
   case get_sp_label s offset n of (l, s') \<Rightarrow> Q l s'"
  using length_law [of "base s" "LEN_INFO s" "ucast offset" "ucast n"] by (auto simp: get_sp_label_def split: prod.split)

lemma sp_label_frame:
  "get_sp_label s offset n = (l, s') \<Longrightarrow> okay (base s) \<Longrightarrow> base s' = base s \<and> good (base s) l"
  using sp_label_wp [of s "\<lambda>l s'. base s' = base s \<and> good (base s) l" offset n] by simp

lemma assign_loop_wp:
  "okay (base s) \<Longrightarrow> holds (assign_loop k s buf offset n i) (\<lambda>s'. okay (base s') \<and> (\<forall>x. good (base s) x \<longrightarrow> good (base s') x))"
proof (induction k arbitrary: s i)
  case (Suc k)
  show ?case unfolding assign_loop.simps wp using Suc.prems
    by (auto intro!: create_wp set_wp holds_mono [OF Suc.IH] simp: wp)
qed (simp add: wp)

lemma assign_wp [wp_op]:
  "okay (base s) \<Longrightarrow> (\<And>s'. okay (base s') \<Longrightarrow> (\<And>x. good (base s) x \<Longrightarrow> good (base s') x) \<Longrightarrow> Q s') \<Longrightarrow>
   holds (assign_taint_labels s buf offset n) Q"
  unfolding assign_taint_labels_def by (rule holds_mono [OF assign_loop_wp]) auto

lemma assign_exf_wp [wp_op]:
  "okay (base s) \<Longrightarrow> (\<And>s'. okay (base s') \<Longrightarrow> (\<And>x. good (base s) x \<Longrightarrow> good (base s') x) \<Longrightarrow> Q s') \<Longrightarrow>
   holds (assign_taint_labels_exf s buf offset ret cnt n) Q"
  unfolding assign_taint_labels_exf_def Let_def by (auto simp: wp intro!: assign_wp)

lemma fuzzing_file_wp [wp_op]: "(\<And>b. Q b) \<Longrightarrow> holds (IS_FUZZING_FILE m p) Q"
  by (simp add: holds_def)

lemma label_stat_wp [wp_op]:
  "okay (base s) \<Longrightarrow> (\<And>s'. okay (base s') \<Longrightarrow> (\<And>x. good (base s) x \<Longrightarrow> good (base s') x) \<Longrightarrow> Q s') \<Longrightarrow> holds (label_stat s buf) Q"
  unfolding label_stat_def wp by (auto simp: wp frame dest!: sp_label_frame intro!: wp_op)

lemma opening_sound:
  assumes "okay (base s)"
  shows "io_sound okay good s (dfsw_open f s p o1 o2)"
    "io_sound okay good s (dfsw_fopen fno f1 s p q)"
    "io_sound okay good s (dfsw_fopen64 fno f1 s p q)"
    "io_sound okay good s (dfsw_close f2 s fd)"
    "io_sound okay good s (dfsw_fclose fno f3 s p)"
    "io_sound okay good s (dfsw_mmap f4 s p n o1 o2 fd q)"
    "io_sound okay good s (dfsw_munmap f5 s p n)"
  using assms
  by (auto simp: io_sound_def dfsw_open_def dfsw_fopen_def dfsw_fopen64_def dfsw_close_def dfsw_fclose_def dfsw_mmap_def
      dfsw_munmap_def Let_def wp frame intro!: wp_op)

lemma reading_sound:
  assumes "okay (base s)"
  shows "io_sound okay good s (dfsw_fread fno tell f6 s p n q k)"
    "io_sound okay good s (dfsw_fread_unlocked fno tell f6 s p n q k)"
    "io_sound okay good s (dfsw_read seek f7 s fd p n)"
    "io_sound okay good s (dfsw_pread f8 s fd p n q)"
    "io_sound okay good s (dfsw_fgetc fno tell f3 s p)"
    "io_sound okay good s (dfsw_fgetc_unlocked fno tell f3 s p)"
    "io_sound okay good s (dfsw_IO_getc fno tell f3 s p)"
    "io_sound okay good s (dfsw_getchar q f9 s)"
    "io_sound okay good s (dfsw_getutxent f12 s)"
    "io_sound okay good s (dfsw_getline fno tell f13 s p n q)"
    "io_sound okay good s (dfsw_getdelim fno tell f14 s p n o1 q)"
    "io_sound okay good s (dfsw___getdelim fno tell f14 s p n o1 q)"
    "good (base s) l1 \<Longrightarrow> io_sound okay good s (dfsw_fgets fno tell f10 s p o1 q l1)"
    "good (base s) l1 \<Longrightarrow> io_sound okay good s (dfsw_gets q f11 s p l1)"
  using assms
  by (auto simp: io_sound_def dfsw_fread_def dfsw_fread_unlocked_def dfsw_read_def dfsw_pread_def dfsw_fgetc_def
      dfsw_fgetc_unlocked_def dfsw_IO_getc_def dfsw_getchar_def dfsw_getutxent_def dfsw_getline_def dfsw_getdelim_def
      dfsw___getdelim_def dfsw_fgets_def dfsw_gets_def Let_def wp frame dest!: sp_label_frame intro!: wp_op)

lemma status_sound:
  assumes "okay (base s)"
  shows "io_sound okay good s (dfsw_stat f5 s p q)"
    "io_sound okay good s (dfsw___xstat f15 s o1 p q)"
    "io_sound okay good s (dfsw_fstat f16 s fd q)"
    "io_sound okay good s (dfsw___fxstat f17 s o1 fd q)"
    "io_sound okay good s (dfsw_lstat f5 s p q)"
    "io_sound okay good s (dfsw___lxstat f15 s o1 p q)"
  using assms
  by (auto simp: io_sound_def dfsw_stat_def dfsw___xstat_def dfsw_fstat_def dfsw___fxstat_def dfsw_lstat_def
      dfsw___lxstat_def Let_def wp frame intro!: wp_op)

lemma allocating_sound:
  assumes "okay (base s)"
  shows "io_sound okay good s (dfsw_malloc f18 s n)"
    "io_sound okay good s (dfsw_calloc f1 s n q)"
    "io_sound okay good s (dfsw_reallocarray s p n q)"
    "io_sound okay good s (dfsw_realloc f1 s p n)"
    "good (base s) l1 \<Longrightarrow> good (base s) l3 \<Longrightarrow> io_sound okay good s (dfsw_crc32 f20 s p q o1 l1 l2 l3)"
  using assms
  by (auto simp: io_sound_def dfsw_malloc_def dfsw_calloc_def dfsw_reallocarray_def dfsw_realloc_def dfsw_crc32_def
      Let_def wp frame intro!: wp_op)

lemma free_sound: "okay (base (dfsw_free f s p)) = okay (base s)" "good (base (dfsw_free f s p)) = good (base s)"
  using os_call_frame [of "f p" "base s"] by (auto simp: dfsw_free_def io_call_def split: prod.split)

lemma wrapper_sound:
  assumes "io_wrapper L s l s'" "okay (base s)" "\<forall>x\<in>L. good (base s) x"
  shows "okay (base s') \<and> good (base s') l \<and> (\<forall>x\<in>L. good (base s') x)"
proof -
  have r: "okay (base s') \<and> good (base s') l \<and> (\<forall>x\<in>L. good (base s') x)"
    if "io_sound okay good s x" "x = Some (r, l, s')" for x and r :: 'r
    using that assms(3) by (auto simp: io_sound_def holds_def)
  show ?thesis using assms(1)
    by cases (erule r [rotated]; (rule opening_sound reading_sound status_sound allocating_sound; use assms(2,3) in auto)
      | simp add: free_sound assms(2,3))+
qed

lemma io_run_sound:
  assumes "io_run L s" "\<And>m. okay (rt_start m)"
  shows "okay (base s) \<and> (\<forall>x\<in>L. good (base s) x)"
  using assms(1)
proof induction
  case (start m)
  then show ?case using assms(2) zero by (simp add: io_start_def)
next
  case (wrapper L s l s')
  then show ?case using wrapper_sound by blast
next
  case (call L s l b)
  then show ?case using call_sound [OF call(2)] by simp
next
  case (op L s l b)
  then show ?case using op_sound [OF op(2)] by simp
qed

end

section \<open>Every label is a node of the store\<close>

lemma length_label_ok: "store_ok t \<Longrightarrow> label_ok t (fst (angora_get_len_label info offset n))"
proof -
  assume s: "store_ok t"
  have "get_normal_label (fst (angora_get_len_label info offset n)) = get_normal_label 0"
    by (simp add: angora_get_len_label_def fat_normal)
  then show ?thesis using label_ok_zero [OF s] unfolding label_ok_def by (simp split: option.splits)
qed

interpretation sources: source_contract labels_ok known
  by unfold_locales (use create_label_ok length_label_ok in \<open>auto simp: labels_ok_def known_def\<close>)

text \<open>C12. No label dangles.  Whatever sequence of wrapped library calls (files opened and read, memory allocated and
  mapped, strings copied and formatted) and label operations of the instrumented code a program performs, and whatever the
  system returns, the label of every memory cell and every label the program holds is a node of the label store, so
  that looking up its input offsets never leaves the store; the store itself stays well formed.\<close>

theorem io_run_labels_known:
  assumes "io_run L s"
  shows "labels_ok (base s) \<and> (\<forall>l\<in>L. known (base s) l)"
proof (rule sources.io_run_sound [OF assms])
  show "labels_ok (rt_start m)" for m
    using tags_ok_new by (simp add: labels_ok_def rt_start_def store_ok_def label_ok_def tags_ok_def)
qed

text \<open>A program that reads one character of its input.\<close>

definition after_getchar :: io where
  "after_getchar = snd (snd (the (dfsw_getchar 3 (\<lambda>m. (65, m)) (io_start (\<lambda>_. 0)))))"

theorem io_run_labels_known_witness:
  "io_run {2, 0} after_getchar \<and> labels_ok (base after_getchar) \<and> known (base after_getchar) 2"
proof -
  have "dfsw_getchar 3 (\<lambda>m. (65, m)) (io_start (\<lambda>_. 0)) \<noteq> None"
    "fst (snd (the (dfsw_getchar 3 (\<lambda>m. (65, m)) (io_start (\<lambda>_. 0))))) = 2"
    by code_simp+
  then obtain r where "dfsw_getchar 3 (\<lambda>m. (65, m)) (io_start (\<lambda>_. 0)) = Some (r, 2, after_getchar)"
    by (cases "dfsw_getchar 3 (\<lambda>m. (65, m)) (io_start (\<lambda>_. 0))") (auto simp: after_getchar_def)
  then have r: "io_run {2, 0} after_getchar" by (intro io_run.wrapper [OF io_run.start] io_wrapper.getchar)
  from io_run_labels_known [OF this] this show ?thesis by simp
qed

section \<open>Blocks that move\<close>

text \<open>Growing a block.  When \<open>realloc\<close> moves a block that the allocator wrappers recorded, every byte of the old
  block takes its label along, the size of the new block is recorded and the old one is forgotten; no label outside the
  target of the copy changes.\<close>

theorem realloc_moves_labels:
  assumes "map_of (HEAPMAP s) p = Some k" "realloc p n (mem (base s)) = (q, m)" "p \<noteq> 0" "q \<noteq> 0" "q \<noteq> p"
    "app_range p (unat k)" "app_range q (unat k)" "apart q p (unat k)"
  shows "\<exists>s'. dfsw_realloc realloc s p n = Some (q, 0, s') \<and> mem (base s') = m \<and>
    (\<forall>i<unat k. label_at (base s') (q + of_nat i) = label_at (base s) (p + of_nat i)) \<and>
    (\<forall>a. app a \<longrightarrow> \<not> in_bytes q (unat k) a \<longrightarrow> label_at (base s') a = label_at (base s) a) \<and>
    map_of (HEAPMAP s') = (map_of (HEAPMAP s))(p := None, q \<mapsto> n)"
proof -
  let ?t = "heapmap_invalidate (s\<lparr>base := (base s)\<lparr>mem := m\<rparr>\<rparr>) p"
  obtain sh where sh: "copy_labels (base ?t) q p k = Some ((base ?t)\<lparr>shadow := sh\<rparr>)"
      "\<forall>i<unat k. sh (shadow_for (q + of_nat i)) = shadow (base s) (shadow_for (p + of_nat i))"
      "\<forall>a. app a \<longrightarrow> \<not> in_bytes q (unat k) a \<longrightarrow> sh (shadow_for a) = shadow (base s) (shadow_for a)"
    using copy_labels_effect [OF assms(7,6,8), of "base ?t"] by auto
  let ?s = "heapmap_set (?t\<lparr>base := (base ?t)\<lparr>shadow := sh\<rparr>\<rparr>) q n"
  have "dfsw_realloc realloc s p n = Some (q, 0, ?s)"
    using assms(1-5) sh(1) by (simp add: dfsw_realloc_def io_call_def os_call_def heapmap_get_def on_base_def Let_def)
  moreover have "map_of (HEAPMAP ?s) = (map_of (HEAPMAP s))(p := None, q \<mapsto> n)"
    by (simp add: heapmap_set_def heapmap_invalidate_def update_conv' delete_conv')
  ultimately show ?thesis using sh(2,3) by (intro exI [of _ ?s]) (auto simp: label_at_def)
qed

text \<open>A block of four bytes moves.\<close>

definition move_block :: "u64 \<Rightarrow> u64 \<Rightarrow> u64 sys" where
  "move_block p n m = (0x700000009000, m)"

theorem realloc_moves_labels_witness:
  "\<exists>s'. dfsw_realloc move_block (heapmap_set (io_start (\<lambda>_. 0)) 0x700000008000 4) 0x700000008000 9 = Some (0x700000009000, 0, s') \<and>
     map_of (HEAPMAP s') = [0x700000009000 \<mapsto> 9]"
  using realloc_moves_labels [where s = "heapmap_set (io_start (\<lambda>_. 0)) 0x700000008000 4" and p = "0x700000008000" and k = 4
      and realloc = move_block and n = 9 and q = "0x700000009000" and m = "\<lambda>_. 0"]
  by (auto simp: move_block_def heapmap_set_def io_start_def rt_start_def app_range_def app_unat apart_def fun_eq_iff)

end
