(* ===== verification/Dfsan_Types.thy ===== *)
theory Dfsan_Types
  imports Dfsan_Runtime
begin

text \<open>
  The taint instrumentation pass, \<^verbatim>\<open>llvm_mode/pass/DFSanPass.cc\<close>, first part: the types of functions before and
  after the transformation, the attributes of a transformed call, the ABI list and what it decides, and the names of
  transformed functions.  \<open>None\<close> is an assertion that fails or a fatal error.
\<close>

section \<open>Types\<close>

text \<open>A function type is its return type, its parameters and whether it takes further arguments.\<close>

datatype dty =
    VoidT
  | IntT nat
  | FloatT nat
  | PtrT dty
  | FunT dty "dty list" bool
  | StructT "string option" "dty list" \<comment> \<open>the name, unless it is a literal\<close>
  | ArrayT nat dty
  | VectorT nat dty

record functype =
  ret_type :: dty
  params :: "dty list"
  isVarArg :: bool

fun to_type :: "functype \<Rightarrow> dty" where
  "to_type T = FunT (ret_type T) (params T) (isVarArg T)"

definition ShadowTy :: dty where
  "ShadowTy = IntT 32"

definition ShadowPtrTy :: dty where
  "ShadowPtrTy = PtrT ShadowTy"

definition Int8PtrTy :: dty where
  "Int8PtrTy = PtrT (IntT 8)"

text \<open>The function type behind a pointer, for the tests \<^verbatim>\<open>isa<PointerType>\<close> and \<^verbatim>\<open>dyn_cast<FunctionType>\<close>.\<close>

fun fun_pointee :: "dty \<Rightarrow> functype option" where
  "fun_pointee (PtrT (FunT r ps v)) = Some \<lparr>ret_type = r, params = ps, isVarArg = v\<rparr>"
| "fun_pointee _ = None"

definition getArgsFunctionType :: "functype \<Rightarrow> functype" where
  "getArgsFunctionType T =
     (let ArgTypes = params T @ replicate (length (params T)) ShadowTy;
          ArgTypes = (if isVarArg T then ArgTypes @ [ShadowPtrTy] else ArgTypes);
          RetType = (if ret_type T \<noteq> VoidT then StructT None [ret_type T, ShadowTy] else ret_type T)
      in \<lparr>ret_type = RetType, params = ArgTypes, isVarArg = isVarArg T\<rparr>)"

definition getTrampolineFunctionType :: "functype \<Rightarrow> functype option" where
  "getTrampolineFunctionType T =
     (if isVarArg T then None
      else let ArgTypes = PtrT (to_type T) # params T @ replicate (length (params T)) ShadowTy;
               ArgTypes = (if ret_type T \<noteq> VoidT then ArgTypes @ [ShadowPtrTy] else ArgTypes)
           in Some \<lparr>ret_type = ret_type T, params = ArgTypes, isVarArg = False\<rparr>)"

record TransformedFunction =
  OriginalType :: functype
  TransformedType :: functype
  ArgumentIndexMapping :: "nat list"

text \<open>The loop over the parameters, with the parameters and the mapping built so far.\<close>

fun custom_params :: "dty list \<Rightarrow> dty list \<Rightarrow> nat list \<Rightarrow> (dty list \<times> nat list) option" where
  "custom_params [] ArgTypes Mapping = Some (ArgTypes, Mapping)"
| "custom_params (param_type # ps) ArgTypes Mapping =
     (case fun_pointee param_type of
        Some FT \<Rightarrow> do {
          TT \<leftarrow> getTrampolineFunctionType FT;
          custom_params ps (ArgTypes @ [PtrT (to_type TT), Int8PtrTy]) (Mapping @ [length ArgTypes])
        }
      | None \<Rightarrow> custom_params ps (ArgTypes @ [param_type]) (Mapping @ [length ArgTypes]))"

definition getCustomFunctionType :: "functype \<Rightarrow> TransformedFunction option" where
  "getCustomFunctionType T = do {
     (ArgTypes, Mapping) \<leftarrow> custom_params (params T) [] [];
     let ArgTypes = ArgTypes @ replicate (length (params T)) ShadowTy;
     let ArgTypes = (if isVarArg T then ArgTypes @ [ShadowPtrTy] else ArgTypes);
     let ArgTypes = (if ret_type T \<noteq> VoidT then ArgTypes @ [ShadowPtrTy] else ArgTypes);
     Some \<lparr>OriginalType = T, TransformedType = \<lparr>ret_type = ret_type T, params = ArgTypes, isVarArg = isVarArg T\<rparr>,
           ArgumentIndexMapping = Mapping\<rparr>
   }"

section \<open>Attributes of calls\<close>

text \<open>An attribute list is its sets: of the function, of the return value, then of the arguments; an argument beyond
  the list has none.\<close>

type_synonym attrs = "string list list"

definition attr_set :: "attrs \<Rightarrow> nat \<Rightarrow> string list" where
  "attr_set al i = (if i < length al then al ! i else [])"

definition getParamAttributes :: "attrs \<Rightarrow> nat \<Rightarrow> string list" where
  "getParamAttributes al i = attr_set al (i + 2)"

text \<open>An index of the mapping beyond the vector is undefined.\<close>

fun copy_param_attrs :: "attrs \<Rightarrow> nat \<Rightarrow> nat list \<Rightarrow> string list list \<Rightarrow> string list list option" where
  "copy_param_attrs CallSiteAttrs i [] V = Some V"
| "copy_param_attrs CallSiteAttrs i (TransformedIndex # M) V =
     (if TransformedIndex < length V
      then copy_param_attrs CallSiteAttrs (Suc i) M (V[TransformedIndex := getParamAttributes CallSiteAttrs i]) else None)"

definition TransformFunctionAttributes :: "TransformedFunction \<Rightarrow> attrs \<Rightarrow> attrs option" where
  "TransformFunctionAttributes TF CallSiteAttrs = do {
     V \<leftarrow> copy_param_attrs CallSiteAttrs 0 (ArgumentIndexMapping TF)
           (replicate (length (params (TransformedType TF))) []);
     let W = V @ map (getParamAttributes CallSiteAttrs) [length (params (OriginalType TF))..<length CallSiteAttrs];
     Some ([attr_set CallSiteAttrs 0, attr_set CallSiteAttrs 1] @ W)
   }"

section \<open>The ABI list\<close>

text \<open>The special case list of LLVM, \<open>scl prefix query category\<close>, is a parameter.\<close>

type_synonym SpecialCaseList = "string \<Rightarrow> string \<Rightarrow> string \<Rightarrow> bool"

definition isIn_module :: "SpecialCaseList \<Rightarrow> string \<Rightarrow> string \<Rightarrow> bool" where
  "isIn_module SCL module_id Category = SCL ''src'' module_id Category"

definition isIn_function :: "SpecialCaseList \<Rightarrow> string \<Rightarrow> string \<Rightarrow> string \<Rightarrow> bool" where
  "isIn_function SCL module_id name Category \<longleftrightarrow> isIn_module SCL module_id Category \<or> SCL ''fun'' name Category"

fun GetGlobalTypeString :: "dty \<Rightarrow> string" where
  "GetGlobalTypeString (StructT (Some n) ts) = n"
| "GetGlobalTypeString _ = ''<unknown type>''"

definition isIn_alias :: "SpecialCaseList \<Rightarrow> string \<Rightarrow> string \<Rightarrow> dty \<Rightarrow> string \<Rightarrow> bool" where
  "isIn_alias SCL module_id name value_type Category \<longleftrightarrow>
     isIn_module SCL module_id Category \<or>
     (case value_type of
        FunT r ps v \<Rightarrow> SCL ''fun'' name Category
      | _ \<Rightarrow> SCL ''global'' name Category \<or> SCL ''type'' (GetGlobalTypeString value_type) Category)"

definition isInstrumented :: "SpecialCaseList \<Rightarrow> string \<Rightarrow> string \<Rightarrow> bool" where
  "isInstrumented SCL module_id name \<longleftrightarrow> \<not> isIn_function SCL module_id name ''uninstrumented''"

definition isInstrumented_alias :: "SpecialCaseList \<Rightarrow> string \<Rightarrow> string \<Rightarrow> dty \<Rightarrow> bool" where
  "isInstrumented_alias SCL module_id name t \<longleftrightarrow> \<not> isIn_alias SCL module_id name t ''uninstrumented''"

datatype InstrumentedABI = IA_Args | IA_TLS

datatype WrapperKind = WK_Warning | WK_Discard | WK_Functional | WK_Custom

definition getInstrumentedABI :: "bool \<Rightarrow> InstrumentedABI" where
  "getInstrumentedABI ClArgsABI = (if ClArgsABI then IA_Args else IA_TLS)"

definition getWrapperKind :: "SpecialCaseList \<Rightarrow> string \<Rightarrow> string \<Rightarrow> WrapperKind" where
  "getWrapperKind SCL module_id name =
     (if isIn_function SCL module_id name ''functional'' then WK_Functional
      else if isIn_function SCL module_id name ''discard'' then WK_Discard
      else if isIn_function SCL module_id name ''custom'' then WK_Custom
      else WK_Warning)"

section \<open>Names\<close>

text \<open>\<^verbatim>\<open>std::string::find\<close>: the first position at which the pattern occurs.\<close>

definition string_find :: "string \<Rightarrow> string \<Rightarrow> nat option" where
  "string_find s pat = find (\<lambda>i. take (length pat) (drop i s) = pat) [0..<Suc (length s)]"

text \<open>The new name and the new inline assembly of the module.\<close>

definition addGlobalNamePrefix :: "string \<Rightarrow> string \<Rightarrow> string \<times> string" where
  "addGlobalNamePrefix GVName Asm =
     (let Prefix = ''dfs$'';
          SearchStr = ''.symver '' @ GVName @ '','';
          Asm' = (case string_find Asm SearchStr of
                    Some Pos \<Rightarrow> take Pos Asm @ ''.symver '' @ Prefix @ GVName @ '','' @ Prefix @ drop (Pos + length SearchStr) Asm
                  | None \<Rightarrow> Asm)
      in (Prefix @ GVName, Asm'))"

section \<open>Initialisation\<close>

text \<open>What \<open>doInitialization\<close> decides from the target: the constant mask, or none where the runtime provides it.\<close>

datatype TripleArch = Triple_x86_64 | Triple_mips64 | Triple_mips64el | Triple_aarch64 | Triple_aarch64_be | Triple_other nat

definition ShadowWidth :: nat where
  "ShadowWidth = 32"

definition ShadowPtrMul :: u64 where
  "ShadowPtrMul = of_nat (ShadowWidth div 8)"

fun doInitialization :: "TripleArch \<Rightarrow> u64 option option" where
  "doInitialization Triple_x86_64 = Some (Some (NOT 0x700000000000))"
| "doInitialization Triple_mips64 = Some (Some (NOT 0xF000000000))"
| "doInitialization Triple_mips64el = Some (Some (NOT 0xF000000000))"
| "doInitialization Triple_aarch64 = Some None"
| "doInitialization Triple_aarch64_be = Some None"
| "doInitialization (Triple_other n) = None"

end
