(* ===== verification/Dfsan_Code.thy ===== *)
theory Dfsan_Code
  imports Dfsan_Types
begin

text \<open>
  The code that the taint instrumentation inserts, and what it does when the instrumented program runs.  An operand is a
  constant, the result of inserted code (\<open>STmp\<close>, numbered) or a value of the program.  A branch to a new block that joins
  again behind it, and the phi node there, are one structured instruction.  The alignment of loads and stores and the
  branch weights are left out.
\<close>

section \<open>Values and code\<close>

datatype dval =
    VArg nat
  | VInst nat
  | VConstInt int
  | VConst nat
  | VFun nat
  | VBlockAddress nat
  | VGlobal bool nat \<comment> \<open>whether it is constant\<close>
  | VAsm nat
  | VTrampoline string

datatype sv = SImm u64 | STmp nat | SVal dval

text \<open>\<open>DIf r c body v w\<close>: when \<open>c\<close>, run \<open>body\<close> and let \<open>r\<close> be \<open>v\<close>, else let \<open>r\<close> be \<open>w\<close>.  \<open>DChain r steps fb v w\<close>: run the
  steps one after the other while their conditions hold; when all did \<open>r\<close> is \<open>w\<close>, else \<open>fb\<close> is run and \<open>r\<close> is \<open>v\<close>.\<close>

datatype (plugins only: code size) dcode =
    DPtrToInt nat sv
  | DIntToPtr nat sv
  | DLoadMask nat
  | DAnd nat sv sv
  | DMul nat nat sv sv \<comment> \<open>result, width\<close>
  | DOr nat sv sv
  | DShl nat sv nat
  | DLShr nat sv nat
  | DTrunc nat sv \<comment> \<open>to a label\<close>
  | DEq nat sv sv
  | DNe nat sv sv \<comment> \<open>of labels\<close>
  | DSelect nat sv sv sv
  | DGep nat sv u64 \<comment> \<open>pointer and offset in bytes\<close>
  | DLoadLabel nat sv
  | DLoadWide nat sv
  | DStoreLabel sv sv
  | DStoreVec "sv list" sv
  | DStoreZeros nat sv \<comment> \<open>number of labels\<close>
  | DAlloca nat nat \<comment> \<open>local array of labels, and its length\<close>
  | DLoadSlot nat nat
  | DStoreSlot sv nat nat \<comment> \<open>value, array, index\<close>
  | DSlotPtr nat nat
  | DLoadArg nat nat
  | DStoreArg sv nat
  | DLoadRet nat
  | DStoreRet sv
  | DUnion nat sv sv \<comment> \<open>\<^verbatim>\<open>dfsan_union\<close>\<close>
  | DUnionUneq nat sv sv \<comment> \<open>\<^verbatim>\<open>__dfsan_union\<close>\<close>
  | DUnionLoad nat sv sv
  | DMarkSigned sv sv
  | DCombineAnd sv
  | DInferShape sv sv sv
  | DSetLabel sv sv sv
  | DUnimplemented string
  | DNonzeroLabel
  | DMemTransfer sv sv sv
  | DCallCustom nat string "sv list" attrs
  | DCallArgs nat sv "sv list" \<comment> \<open>a call that takes and returns labels\<close>
  | DExtract nat nat nat
  | DReturnPair sv sv
  | DStorePtr sv sv
  | DWhen sv "dcode list"
  | DIf nat sv "dcode list" sv sv
  | DChain nat "(dcode list \<times> sv) list" "dcode list" sv sv

section \<open>Running inserted code\<close>

text \<open>The labels of arguments and of the return value pass through the thread-local \<^verbatim>\<open>__dfsan_arg_tls\<close>, an array of 64
  labels, and \<^verbatim>\<open>__dfsan_retval_tls\<close>.\<close>

record dexec =
  d_tmp :: "nat \<Rightarrow> u64"
  d_rt :: rt
  d_arg_tls :: "nat \<Rightarrow> u32"
  d_retval_tls :: u32
  d_slot :: "nat \<Rightarrow> nat \<Rightarrow> u32"
  d_result :: "(u64 \<times> u32) option" \<comment> \<open>the pair returned with \<open>IA_Args\<close>\<close>

text \<open>What the program around the code provides: its values, the address of a local array, the mask of the runtime,
  and the effect of calls.\<close>

record denv =
  d_val :: "dval \<Rightarrow> u64"
  d_slot_addr :: "nat \<Rightarrow> u64"
  d_mask :: u64
  d_custom :: "string \<Rightarrow> u64 list \<Rightarrow> dexec \<Rightarrow> (u64 \<times> dexec) option"
  d_call :: "u64 \<Rightarrow> u64 list \<Rightarrow> dexec \<Rightarrow> (u64 \<times> dexec) option"
  d_field :: "nat \<Rightarrow> u64 \<Rightarrow> u64"

fun sval :: "denv \<Rightarrow> dexec \<Rightarrow> sv \<Rightarrow> u64" where
  "sval E s (SImm c) = c"
| "sval E s (STmp n) = d_tmp s n"
| "sval E s (SVal v) = d_val E v"

definition slabel :: "denv \<Rightarrow> dexec \<Rightarrow> sv \<Rightarrow> u32" where
  "slabel E s v = ucast (sval E s v)"

definition set_d :: "dexec \<Rightarrow> nat \<Rightarrow> u64 \<Rightarrow> dexec" where
  "set_d s r x = s\<lparr>d_tmp := (d_tmp s)(r := x)\<rparr>"

definition ARG_TLS_SIZE :: nat where
  "ARG_TLS_SIZE = 64"

definition set_label_d :: "dexec \<Rightarrow> nat \<Rightarrow> (u32 \<times> rt) option \<Rightarrow> dexec option" where
  "set_label_d s r x = map_option (\<lambda>(l, t). set_d (s\<lparr>d_rt := t\<rparr>) r (ucast l)) x"

definition on_rt :: "dexec \<Rightarrow> rt option \<Rightarrow> dexec option" where
  "on_rt s x = map_option (\<lambda>t. s\<lparr>d_rt := t\<rparr>) x"

definition cells :: "u64 \<Rightarrow> nat \<Rightarrow> u64 list" where
  "cells p n = map (\<lambda>i. p + 4 * of_nat i) [0..<n]"

definition wide_at :: "rt \<Rightarrow> u64 \<Rightarrow> u64" where
  "wide_at t p = push_bit 32 (ucast (shadow t (p + 4))) OR ucast (shadow t p)"

definition store_cells :: "rt \<Rightarrow> u64 \<Rightarrow> u32 list \<Rightarrow> rt option" where
  "store_cells t p ls =
     (if list_all cell_ok (cells p (length ls))
      then Some (t\<lparr>shadow := fold (\<lambda>(c, l) m. m(c := l)) (zip (cells p (length ls)) ls) (shadow t)\<rparr>) else None)"

definition store_label :: "memory \<Rightarrow> u64 \<Rightarrow> u32 \<Rightarrow> memory" where
  "store_label m p l = fold (\<lambda>i m. m(p + of_nat i := ucast (drop_bit (8 * i) l))) [0..<4] m"

fun run_d :: "denv \<Rightarrow> dexec \<Rightarrow> dcode \<Rightarrow> dexec option"
and run_ds :: "denv \<Rightarrow> dexec \<Rightarrow> dcode list \<Rightarrow> dexec option"
and run_chain :: "denv \<Rightarrow> dexec \<Rightarrow> (dcode list \<times> sv) list \<Rightarrow> (bool \<times> dexec) option" where
  "run_d E s (DPtrToInt r v) = Some (set_d s r (sval E s v))"
| "run_d E s (DIntToPtr r v) = Some (set_d s r (sval E s v))"
| "run_d E s (DLoadMask r) = Some (set_d s r (d_mask E))"
| "run_d E s (DAnd r a b) = Some (set_d s r (sval E s a AND sval E s b))"
| "run_d E s (DMul r w a b) = Some (set_d s r (take_bit w (sval E s a * sval E s b)))"
| "run_d E s (DOr r a b) = Some (set_d s r (sval E s a OR sval E s b))"
| "run_d E s (DShl r a k) = Some (set_d s r (push_bit k (sval E s a)))"
| "run_d E s (DLShr r a k) = Some (set_d s r (drop_bit k (sval E s a)))"
| "run_d E s (DTrunc r a) = Some (set_d s r (ucast (slabel E s a)))"
| "run_d E s (DEq r a b) = Some (set_d s r (if sval E s a = sval E s b then 1 else 0))"
| "run_d E s (DNe r a b) = Some (set_d s r (if slabel E s a \<noteq> slabel E s b then 1 else 0))"
| "run_d E s (DSelect r c a b) = Some (set_d s r (if sval E s c \<noteq> 0 then sval E s a else sval E s b))"
| "run_d E s (DGep r p k) = Some (set_d s r (sval E s p + k))"
| "run_d E s (DLoadLabel r p) =
     (if cell_ok (sval E s p) then Some (set_d s r (ucast (shadow (d_rt s) (sval E s p)))) else None)"
| "run_d E s (DLoadWide r p) =
     (if cell_ok (sval E s p) \<and> cell_ok (sval E s p + 4) then Some (set_d s r (wide_at (d_rt s) (sval E s p))) else None)"
| "run_d E s (DStoreLabel v p) = on_rt s (store_cells (d_rt s) (sval E s p) [slabel E s v])"
| "run_d E s (DStoreVec vs p) = on_rt s (store_cells (d_rt s) (sval E s p) (map (slabel E s) vs))"
| "run_d E s (DStoreZeros n p) = on_rt s (store_cells (d_rt s) (sval E s p) (replicate n 0))"
| "run_d E s (DAlloca a n) = Some s"
| "run_d E s (DLoadSlot r a) = Some (set_d s r (ucast (d_slot s a 0)))"
| "run_d E s (DStoreSlot v a i) = Some (s\<lparr>d_slot := (d_slot s)(a := (d_slot s a)(i := slabel E s v))\<rparr>)"
| "run_d E s (DSlotPtr r a) = Some (set_d s r (d_slot_addr E a))"
| "run_d E s (DLoadArg r i) = (if i < ARG_TLS_SIZE then Some (set_d s r (ucast (d_arg_tls s i))) else None)"
| "run_d E s (DStoreArg v i) =
     (if i < ARG_TLS_SIZE then Some (s\<lparr>d_arg_tls := (d_arg_tls s)(i := slabel E s v)\<rparr>) else None)"
| "run_d E s (DLoadRet r) = Some (set_d s r (ucast (d_retval_tls s)))"
| "run_d E s (DStoreRet v) = Some (s\<lparr>d_retval_tls := slabel E s v\<rparr>)"
| "run_d E s (DUnion r a b) = set_label_d s r (dfsan_union (d_rt s) (slabel E s a) (slabel E s b))"
| "run_d E s (DUnionUneq r a b) = set_label_d s r (dfsan_union_uneq (d_rt s) (slabel E s a) (slabel E s b))"
| "run_d E s (DUnionLoad r p n) = set_label_d s r (dfsan_union_load (d_rt s) (sval E s p) (sval E s n))"
| "run_d E s (DMarkSigned a b) = on_rt s (map_option snd (dfsan_mark_signed (d_rt s) (slabel E s a) (slabel E s b)))"
| "run_d E s (DCombineAnd a) = on_rt s (dfsan_combine_and_ins (d_rt s) (slabel E s a))"
| "run_d E s (DInferShape a b n) =
     on_rt s (dfsan_infer_shape_in_math_op (d_rt s) (slabel E s a) (slabel E s b) (slabel E s n))"
| "run_d E s (DSetLabel l p n) = on_rt s (dfsan_set_label (d_rt s) (slabel E s l) (sval E s p) (sval E s n))"
| "run_d E s (DUnimplemented f) = Some (s\<lparr>d_rt := dfsan_unimplemented (d_rt s) f\<rparr>)"
| "run_d E s DNonzeroLabel = Some (s\<lparr>d_rt := dfsan_nonzero_label (d_rt s)\<rparr>)"
| "run_d E s (DMemTransfer d p n) =
     (let k = unat (sval E s n) div 4 in
      if list_all cell_ok (cells (sval E s p) k)
      then on_rt s (store_cells (d_rt s) (sval E s d) (map (shadow (d_rt s)) (cells (sval E s p) k))) else None)"
| "run_d E s (DCallCustom r f vs al) = map_option (\<lambda>(x, t). set_d t r x) (d_custom E f (map (sval E s) vs) s)"
| "run_d E s (DCallArgs r f vs) = map_option (\<lambda>(x, t). set_d t r x) (d_call E (sval E s f) (map (sval E s) vs) s)"
| "run_d E s (DExtract r a i) = Some (set_d s r (d_field E i (d_tmp s a)))"
| "run_d E s (DReturnPair v l) = Some (s\<lparr>d_result := Some (sval E s v, slabel E s l)\<rparr>)"
| "run_d E s (DStorePtr v p) = Some (s\<lparr>d_rt := (d_rt s)\<lparr>mem := store_label (mem (d_rt s)) (sval E s p) (slabel E s v)\<rparr>\<rparr>)"
| "run_d E s (DWhen c body) = (if sval E s c \<noteq> 0 then run_ds E s body else Some s)"
| "run_d E s (DIf r c body v w) =
     (if sval E s c \<noteq> 0 then do { t \<leftarrow> run_ds E s body; Some (set_d t r (sval E t v)) }
      else Some (set_d s r (sval E s w)))"
| "run_d E s (DChain r steps fb v w) = do {
     (all, t) \<leftarrow> run_chain E s steps;
     if all then Some (set_d t r (sval E t w))
     else do { u \<leftarrow> run_ds E t fb; Some (set_d u r (sval E u v)) }
   }"
| "run_ds E s [] = Some s"
| "run_ds E s (c # cs) = do { t \<leftarrow> run_d E s c; run_ds E t cs }"
| "run_chain E s [] = Some (True, s)"
| "run_chain E s ((cs, c) # steps) = do {
     t \<leftarrow> run_ds E s cs;
     if sval E t c \<noteq> 0 then run_chain E t steps else Some (False, t)
   }"

lemma run_ds_append: "run_ds E s (xs @ ys) = do { t \<leftarrow> run_ds E s xs; run_ds E t ys }"
  by (induction xs arbitrary: s) (auto simp: Option.bind_assoc split: option.splits)

lemma sval_set_d [simp]: "sval E (set_d s r x) v = (if v = STmp r then x else sval E s v)"
  by (cases v) (auto simp: set_d_def)

lemma set_d_frame [simp]:
  "d_rt (set_d s r x) = d_rt s" "d_arg_tls (set_d s r x) = d_arg_tls s" "d_retval_tls (set_d s r x) = d_retval_tls s"
  "d_slot (set_d s r x) = d_slot s" "d_result (set_d s r x) = d_result s" "d_tmp (set_d s r x) = (d_tmp s)(r := x)"
  by (simp_all add: set_d_def)

end
