(* ===== verification/Dfsan_Func.thy ===== *)
theory Dfsan_Func
  imports Dfsan_Code
begin

text \<open>
  The taint instrumentation pass, second part: \<^verbatim>\<open>DFSanFunction\<close>, the state of the pass in one function, and its
  operations that compute, combine, load and store shadows.  Inserted code is recorded with its place, in the order of
  insertion; what goes to the front of the entry block goes before all that is already there.  The pass is registered
  without the functions \<open>getArgTLS\<close> and \<open>getRetValTLS\<close>, so that the two thread-local variables are globals.  A block that
  is split counts as one block, for which LLVM's dominator tree answers.
\<close>

section \<open>Instructions of the program\<close>

datatype binop = AddOp | SubOp | MulOp | UDivOp | SDivOp | URemOp | SRemOp | ShlOp | LShrOp | AShrOp | AndOp | OrOp | XorOp | FloatOp nat

datatype opkind = GetElementPtrK | ExtractElementK | InsertElementK | ShuffleVectorK | ExtractValueK | InsertValueK

record callsite =
  calledValue :: dval
  calledType :: functype
  callArgs :: "dval list"
  callAttrs :: attrs

datatype dop =
    BinaryOperator binop bool bool dval dval \<comment> \<open>no signed wrap, no unsigned wrap\<close>
  | CastInst bool dval \<comment> \<open>whether it is a sign extension\<close>
  | CmpInst bool dval dval \<comment> \<open>whether the predicate is signed\<close>
  | OperandInst opkind "dval list"
  | LoadInst dval
  | StoreInst dval dval \<comment> \<open>value, pointer\<close>
  | AllocaInst dval
  | SelectInst dval dval dval
  | MemSetInst dval dval dval \<comment> \<open>destination, value, length\<close>
  | MemTransferInst dval dval dval \<comment> \<open>destination, source, length\<close>
  | ReturnInst "dval option"
  | CallInst callsite
  | InvokeInst callsite
  | PHINode "(dval \<times> nat) list"
  | OtherInst "dval list" bool \<comment> \<open>operands, whether it is a terminator\<close>

record dinst =
  i_id :: nat
  i_parent :: nat
  i_type :: dty
  i_op :: dop

text \<open>The operands in the order of LLVM: the called value is the last one.  Blocks are left out; they have no shadow.\<close>

fun op_values :: "dop \<Rightarrow> dval list" where
  "op_values (BinaryOperator b nsw nuw x y) = [x, y]"
| "op_values (CastInst sext x) = [x]"
| "op_values (CmpInst sg x y) = [x, y]"
| "op_values (OperandInst k xs) = xs"
| "op_values (LoadInst p) = [p]"
| "op_values (StoreInst v p) = [v, p]"
| "op_values (AllocaInst n) = [n]"
| "op_values (SelectInst c t f) = [c, t, f]"
| "op_values (MemSetInst d v n) = [d, v, n]"
| "op_values (MemTransferInst d p n) = [d, p, n]"
| "op_values (ReturnInst v) = (case v of Some x \<Rightarrow> [x] | None \<Rightarrow> [])"
| "op_values (CallInst c) = callArgs c @ [calledValue c]"
| "op_values (InvokeInst c) = callArgs c @ [calledValue c]"
| "op_values (PHINode vs) = map fst vs"
| "op_values (OtherInst xs t) = xs"

section \<open>State\<close>

datatype dplace = EntryFront | EntryBody | Before nat | After nat | InsteadOf nat | AfterTmp nat

text \<open>What the pass knows besides the function: its options, the ABI list, the wrapped functions, and the answers of
  LLVM on types, underlying objects and dominance.\<close>

record dfs =
  SCL :: SpecialCaseList
  ModuleId :: string
  ClArgsABI :: bool
  ClCombinePointerLabelsOnLoad :: bool
  ClCombinePointerLabelsOnStore :: bool
  ClDebugNonzeroLabels :: bool
  ShadowPtrMask :: "u64 option" \<comment> \<open>none: \<open>DFSanRuntimeShadowMask\<close>\<close>
  UnwrappedFnMap :: "(dval \<times> nat) list"
  fn_name :: "nat \<Rightarrow> string"
  fn_type :: "nat \<Rightarrow> functype"
  fn_isIntrinsic :: "nat \<Rightarrow> bool"
  DFSanVarargWrapperFn :: nat
  val_type :: "dval \<Rightarrow> dty"
  getTypeStoreSize :: "dty \<Rightarrow> nat"
  GetUnderlyingObjects :: "dval \<Rightarrow> dval list"
  dominates :: "nat \<Rightarrow> nat \<Rightarrow> bool"

record dfsf =
  IsNativeABI :: bool
  AvoidNewBlocks :: bool
  arg_size :: nat
  LabelReturnAlloca :: "nat option"
  ValShadowMap :: "(dval \<times> sv) list"
  AllocaShadowMap :: "(nat \<times> nat) list"
  PHIFixups :: "((dval \<times> nat) list \<times> nat) list" \<comment> \<open>the incoming values of a phi node, its shadow\<close>
  shadow_phis :: "(nat \<times> (sv \<times> nat) list) list"
  SkipInsts :: "sv list"
  NonZeroChecks :: "sv list"
  CachedCombinedShadows :: "((sv \<times> sv) \<times> nat \<times> sv) list"
  ShadowElements :: "(sv \<times> sv list) list"
  Trampolines :: "(string \<times> functype) list"
  setCalled :: "(nat \<times> nat) list" \<comment> \<open>calls that were given another function\<close>
  nextTmp :: nat
  next_slot :: nat
  insertions :: "(dplace \<times> dcode list) list"

definition DFSanFunction_new :: "bool \<Rightarrow> nat \<Rightarrow> nat \<Rightarrow> nat \<Rightarrow> dfsf" where
  "DFSanFunction_new native n_blocks args tmp0 =
     \<lparr>IsNativeABI = native, AvoidNewBlocks = (n_blocks > 1000), arg_size = args, LabelReturnAlloca = None,
      ValShadowMap = [], AllocaShadowMap = [], PHIFixups = [], shadow_phis = [], SkipInsts = [], NonZeroChecks = [],
      CachedCombinedShadows = [], ShadowElements = [], Trampolines = [], setCalled = [], nextTmp = tmp0, next_slot = 0, insertions = []\<rparr>"

abbreviation IA :: "dfs \<Rightarrow> InstrumentedABI" where
  "IA D \<equiv> getInstrumentedABI (ClArgsABI D)"

definition ZeroShadow :: sv where
  "ZeroShadow = SImm 0"

text \<open>Inserting code that uses \<open>k\<close> new results.\<close>

definition insert_code :: "dfsf \<Rightarrow> dplace \<Rightarrow> dcode list \<Rightarrow> nat \<Rightarrow> dfsf" where
  "insert_code F pos cs k = F\<lparr>insertions := insertions F @ [(pos, cs)], nextTmp := nextTmp F + k\<rparr>"

section \<open>Shadows of values\<close>

definition getArgTLS :: "dfsf \<Rightarrow> nat \<Rightarrow> sv \<times> dfsf" where
  "getArgTLS F idx = (STmp (nextTmp F), insert_code F EntryFront [DLoadArg (nextTmp F) idx] 1)"

definition note_shadow :: "dfsf \<Rightarrow> dval \<Rightarrow> sv \<Rightarrow> dfsf" where
  "note_shadow F V sh = F\<lparr>ValShadowMap := (V, sh) # ValShadowMap F\<rparr>"

definition getShadow :: "dfs \<Rightarrow> dfsf \<Rightarrow> dval \<Rightarrow> sv \<times> dfsf" where
  "getShadow D F V =
     (case map_of (ValShadowMap F) V of
        Some Shadow \<Rightarrow> (Shadow, F)
      | None \<Rightarrow>
        (case V of
           VArg i \<Rightarrow>
             if IsNativeABI F then (ZeroShadow, F)
             else
               let (Shadow, F1) = (case IA D of
                                     IA_TLS \<Rightarrow> getArgTLS F i
                                   | IA_Args \<Rightarrow> (SVal (VArg (i + arg_size F div 2)), F));
                   F2 = note_shadow F1 V Shadow
               in (Shadow, F2\<lparr>NonZeroChecks := NonZeroChecks F2 @ [Shadow]\<rparr>)
         | VInst i \<Rightarrow> (ZeroShadow, note_shadow F V ZeroShadow)
         | _ \<Rightarrow> (ZeroShadow, F)))"

definition setShadow :: "dfsf \<Rightarrow> nat \<Rightarrow> sv \<Rightarrow> dfsf option" where
  "setShadow F i Shadow =
     (if VInst i \<in> fst ` set (ValShadowMap F) then None else Some (note_shadow F (VInst i) Shadow))"

definition getShadowAddress :: "dfs \<Rightarrow> dfsf \<Rightarrow> sv \<Rightarrow> dplace \<Rightarrow> sv \<times> dfsf" where
  "getShadowAddress D F Addr pos =
     (let n = nextTmp F in
      case ShadowPtrMask D of
        Some msk \<Rightarrow>
          (STmp (n + 3), insert_code F pos [DPtrToInt n Addr, DAnd (n + 1) (STmp n) (SImm msk),
             DMul (n + 2) 64 (STmp (n + 1)) (SImm ShadowPtrMul), DIntToPtr (n + 3) (STmp (n + 2))] 4)
      | None \<Rightarrow>
          (STmp (n + 4), insert_code F pos [DLoadMask n, DPtrToInt (n + 1) Addr, DAnd (n + 2) (STmp (n + 1)) (STmp n),
             DMul (n + 3) 64 (STmp (n + 2)) (SImm ShadowPtrMul), DIntToPtr (n + 4) (STmp (n + 3))] 5))"

section \<open>Combining shadows\<close>

fun isIntegerTy :: "dty \<Rightarrow> bool" where
  "isIntegerTy (IntT n) = True"
| "isIntegerTy _ = False"

fun isConstantInt :: "dval \<Rightarrow> bool" where
  "isConstantInt (VConstInt c) = True"
| "isConstantInt _ = False"

fun getScalarSizeInBits :: "dty \<Rightarrow> nat" where
  "getScalarSizeInBits (IntT n) = n"
| "getScalarSizeInBits (FloatT n) = n"
| "getScalarSizeInBits (VectorT k t) = (case t of IntT n \<Rightarrow> n | FloatT n \<Rightarrow> n | _ \<Rightarrow> 0)"
| "getScalarSizeInBits _ = 0"

text \<open>Whether the instruction marks its operands as signed: a signed operation, or the no-signed-wrap flag alone.\<close>

fun is_signed :: "dop \<Rightarrow> bool" where
  "is_signed (BinaryOperator b nsw nuw x y) =
     (b \<in> {SDivOp, SRemOp, AShrOp} \<or> b \<in> {AddOp, SubOp, MulOp, ShlOp} \<and> nsw \<and> \<not> nuw)"
| "is_signed (CmpInst sg x y) = sg"
| "is_signed _ = False"

fun and_call :: "dfs \<Rightarrow> dop \<Rightarrow> sv \<Rightarrow> sv \<Rightarrow> dcode list" where
  "and_call D (BinaryOperator AndOp nsw nuw Arg1 Arg2) V1 V2 =
     (if isIntegerTy (val_type D Arg1) \<and> isIntegerTy (val_type D Arg2)
      then if isConstantInt Arg1 \<and> V2 \<noteq> ZeroShadow then [DCombineAnd V2]
           else if isConstantInt Arg2 \<and> V1 \<noteq> ZeroShadow then [DCombineAnd V1] else []
      else [])"
| "and_call D _ V1 V2 = []"

fun shape_call :: "dfs \<Rightarrow> dop \<Rightarrow> sv \<Rightarrow> sv \<Rightarrow> dcode list" where
  "shape_call D (BinaryOperator b nsw nuw Arg1 Arg2) V1 V2 =
     (let num_bits = getScalarSizeInBits (val_type D Arg1); num_bytes = num_bits div 8 in
      if b \<in> {AddOp, SubOp, MulOp, UDivOp, SDivOp, SRemOp} \<and> num_bytes > 0 \<and> num_bits mod 8 = 0
      then [DInferShape V1 V2 (SImm (of_nat num_bytes))] else [])"
| "shape_call D _ V1 V2 = []"

text \<open>The key of the cache is the pair in the order of the addresses, so either order finds it.\<close>

definition cached :: "dfsf \<Rightarrow> sv \<Rightarrow> sv \<Rightarrow> (nat \<times> sv) option" where
  "cached F V1 V2 = (case map_of (CachedCombinedShadows F) (V1, V2) of
       Some c \<Rightarrow> Some c
     | None \<Rightarrow> map_of (CachedCombinedShadows F) (V2, V1))"

text \<open>The shadow that already covers the other one, by the sets of elements.\<close>

definition covering :: "dfsf \<Rightarrow> sv \<Rightarrow> sv \<Rightarrow> sv option" where
  "covering F V1 V2 =
     (case (map_of (ShadowElements F) V1, map_of (ShadowElements F) V2) of
        (Some E1, Some E2) \<Rightarrow> if set E2 \<subseteq> set E1 then Some V1 else if set E1 \<subseteq> set E2 then Some V2 else None
      | (Some E1, None) \<Rightarrow> if V2 \<in> set E1 then Some V1 else None
      | (None, Some E2) \<Rightarrow> if V1 \<in> set E2 then Some V2 else None
      | (None, None) \<Rightarrow> None)"

definition elements_of :: "dfsf \<Rightarrow> sv \<Rightarrow> sv list" where
  "elements_of F V = (case map_of (ShadowElements F) V of Some E \<Rightarrow> E | None \<Rightarrow> [V])"

text \<open>The code that computes a union, with its result.\<close>

definition union_code :: "dfsf \<Rightarrow> sv \<Rightarrow> sv \<Rightarrow> dplace \<Rightarrow> sv \<times> dfsf" where
  "union_code F V1 V2 pos =
     (let n = nextTmp F in
      if AvoidNewBlocks F then (STmp n, insert_code F pos [DUnion n V1 V2] 1)
      else (STmp (n + 2), insert_code F pos [DNe n V1 V2, DIf (n + 2) (STmp n) [DUnionUneq (n + 1) V1 V2] (STmp (n + 1)) V1] 3))"

definition combine_new :: "dfsf \<Rightarrow> sv \<Rightarrow> sv \<Rightarrow> dinst \<Rightarrow> sv \<times> dfsf" where
  "combine_new F V1 V2 Pos =
     (let (Shadow, F1) = union_code F V1 V2 (Before (i_id Pos)) in
      (Shadow, F1\<lparr>CachedCombinedShadows := ((V1, V2), i_parent Pos, Shadow) #
                    filter (\<lambda>(k, _). k \<noteq> (V1, V2) \<and> k \<noteq> (V2, V1)) (CachedCombinedShadows F1),
                  ShadowElements := (Shadow, elements_of F1 V1 @ elements_of F1 V2) # ShadowElements F1\<rparr>))"

definition side_calls :: "dfs \<Rightarrow> dop \<Rightarrow> sv \<Rightarrow> sv \<Rightarrow> dcode list" where
  "side_calls D op V1 V2 =
     and_call D op V1 V2 @ (if is_signed op then [DMarkSigned V1 V2] else []) @ shape_call D op V1 V2"

definition combineShadows :: "dfs \<Rightarrow> dfsf \<Rightarrow> sv \<Rightarrow> sv \<Rightarrow> dinst \<Rightarrow> sv \<times> dfsf" where
  "combineShadows D F V1 V2 Pos =
     (let F1 = insert_code F (Before (i_id Pos)) (side_calls D (i_op Pos) V1 V2) 0 in
      if V1 = ZeroShadow then (V2, F1)
      else if V2 = ZeroShadow then (V1, F1)
      else if V1 = V2 then (V1, F1)
      else case covering F1 V1 V2 of
             Some V \<Rightarrow> (V, F1)
           | None \<Rightarrow>
             (case cached F1 V1 V2 of
                Some (Block, Shadow) \<Rightarrow> if dominates D Block (i_parent Pos) then (Shadow, F1) else combine_new F1 V1 V2 Pos
              | None \<Rightarrow> combine_new F1 V1 V2 Pos))"

fun combine_operands :: "dfs \<Rightarrow> dfsf \<Rightarrow> sv \<Rightarrow> dval list \<Rightarrow> dinst \<Rightarrow> sv \<times> dfsf" where
  "combine_operands D F Shadow [] Inst = (Shadow, F)"
| "combine_operands D F Shadow (v # vs) Inst =
     (let (s, F1) = getShadow D F v; (Shadow1, F2) = combineShadows D F1 Shadow s Inst
      in combine_operands D F2 Shadow1 vs Inst)"

definition sext_call :: "dfsf \<Rightarrow> sv \<Rightarrow> dinst \<Rightarrow> dfsf" where
  "sext_call F Shadow Inst =
     (case i_op Inst of
        CastInst True x \<Rightarrow> insert_code F (Before (i_id Inst)) [DMarkSigned Shadow ZeroShadow] 0
      | _ \<Rightarrow> F)"

definition combineOperandShadows :: "dfs \<Rightarrow> dfsf \<Rightarrow> dinst \<Rightarrow> sv \<times> dfsf" where
  "combineOperandShadows D F Inst =
     (case op_values (i_op Inst) of
        [] \<Rightarrow> (ZeroShadow, F)
      | v # vs \<Rightarrow>
          let (Shadow, F1) = getShadow D F v
          in combine_operands D (sext_call F1 Shadow Inst) Shadow vs Inst)"

section \<open>Loading and storing shadows\<close>

fun isConstantObject :: "dval \<Rightarrow> bool" where
  "isConstantObject (VFun f) = True"
| "isConstantObject (VBlockAddress b) = True"
| "isConstantObject (VGlobal c g) = c"
| "isConstantObject _ = False"

fun alloca_slot :: "dfsf \<Rightarrow> dval \<Rightarrow> nat option" where
  "alloca_slot F (VInst i) = map_of (AllocaShadowMap F) i"
| "alloca_slot F _ = None"

text \<open>The comparisons of the fast path: the two labels of the first eight bytes with each other, by a rotation, then
  each further pair with the first one.  The results are numbered from \<open>n\<close>.\<close>

definition wide_steps :: "nat \<Rightarrow> sv \<Rightarrow> nat \<Rightarrow> (dcode list \<times> sv) list" where
  "wide_steps n sh_addr pairs =
     ([DLoadWide n sh_addr, DTrunc (n + 1) (STmp n), DShl (n + 2) (STmp n) ShadowWidth,
       DLShr (n + 3) (STmp n) (64 - ShadowWidth), DOr (n + 4) (STmp (n + 2)) (STmp (n + 3)),
       DEq (n + 5) (STmp n) (STmp (n + 4))], STmp (n + 5)) #
     map (\<lambda>i. ([DGep (n + 3 + 3 * i) (if i = 1 then sh_addr else STmp (n + 3 * i)) 8,
                DLoadWide (n + 4 + 3 * i) (STmp (n + 3 + 3 * i)),
                DEq (n + 5 + 3 * i) (STmp n) (STmp (n + 4 + 3 * i))], STmp (n + 5 + 3 * i))) [1..<pairs]"

definition loadShadow :: "dfs \<Rightarrow> dfsf \<Rightarrow> dval \<Rightarrow> nat \<Rightarrow> dplace \<Rightarrow> sv \<times> dfsf" where
  "loadShadow D F Addr sz pos =
     (case alloca_slot F Addr of
        Some a \<Rightarrow> (STmp (nextTmp F), insert_code F pos [DLoadSlot (nextTmp F) a] 1)
      | None \<Rightarrow>
        if list_all isConstantObject (GetUnderlyingObjects D Addr) then (ZeroShadow, F)
        else
          let (sh_addr, F1) = getShadowAddress D F (SVal Addr) pos; n = nextTmp F1 in
          if sz = 0 then (ZeroShadow, F1)
          else if sz = 1 then (STmp n, insert_code F1 pos [DLoadLabel n sh_addr] 1)
          else if \<not> AvoidNewBlocks F1 \<and> sz mod (64 div ShadowWidth) = 0
          then let pairs = sz div (64 div ShadowWidth); m = n + 3 + 3 * pairs in
            (STmp (m + 1), insert_code F1 pos [DChain (m + 1) (wide_steps n sh_addr pairs)
               [DUnionLoad m sh_addr (SImm (of_nat sz))] (STmp m) (STmp (n + 1))] (5 + 3 * pairs))
          else (STmp n, insert_code F1 pos [DUnionLoad n sh_addr (SImm (of_nat sz))] 1))"

text \<open>The stores of whole vectors of four labels, then those of single labels; the loops count \<open>Size\<close> down and
  \<open>Offset\<close> up.\<close>

definition ShadowVecSize :: nat where
  "ShadowVecSize = 128 div ShadowWidth"

fun vec_stores :: "nat \<Rightarrow> sv \<Rightarrow> sv \<Rightarrow> nat \<Rightarrow> nat \<Rightarrow> dcode list \<times> nat \<times> nat" where
  "vec_stores n sh_addr Shadow sz offset =
     (if sz < 4 then ([], sz, offset)
      else let (cs, r, o1) = vec_stores n sh_addr Shadow (sz - 4) (Suc offset) in
        (DGep (n + offset) sh_addr (16 * of_nat offset) # DStoreVec (replicate 4 Shadow) (STmp (n + offset)) # cs, r, o1))"

fun label_stores :: "nat \<Rightarrow> sv \<Rightarrow> sv \<Rightarrow> nat \<Rightarrow> nat \<Rightarrow> dcode list" where
  "label_stores n sh_addr Shadow 0 offset = []"
| "label_stores n sh_addr Shadow (Suc sz) offset =
     DGep (n + offset) sh_addr (4 * of_nat offset) # DStoreLabel Shadow (STmp (n + offset)) #
     label_stores n sh_addr Shadow sz (Suc offset)"

definition store_code :: "nat \<Rightarrow> sv \<Rightarrow> sv \<Rightarrow> nat \<Rightarrow> dcode list" where
  "store_code n sh_addr Shadow sz =
     (let (cs, rest, o1) = (if sz \<ge> ShadowVecSize then vec_stores n sh_addr Shadow sz 0 else ([], sz, 0))
      in cs @ label_stores n sh_addr Shadow rest (o1 * ShadowVecSize))"

definition storeShadow :: "dfs \<Rightarrow> dfsf \<Rightarrow> dval \<Rightarrow> nat \<Rightarrow> sv \<Rightarrow> dplace \<Rightarrow> dfsf" where
  "storeShadow D F Addr sz Shadow pos =
     (case alloca_slot F Addr of
        Some a \<Rightarrow> insert_code F pos [DStoreSlot Shadow a 0] 0
      | None \<Rightarrow>
        let (sh_addr, F1) = getShadowAddress D F (SVal Addr) pos in
        if Shadow = ZeroShadow then insert_code F1 pos [DStoreZeros sz sh_addr] 0
        else insert_code F1 pos (store_code (nextTmp F1) sh_addr Shadow sz) sz)"

end
