(* ===== verification/Dfsan_Visit.thy ===== *)
theory Dfsan_Visit
  imports Dfsan_Func
begin

text \<open>
  The taint instrumentation pass, third part: the visitor of instructions, \<^verbatim>\<open>DFSanVisitor\<close>, trampolines, and the work of
  \<open>runOnModule\<close> on one function.  A call that is replaced by another one keeps its number, since all its uses are
  replaced as well.
\<close>

section \<open>Simple instructions\<close>

definition visitOperandShadowInst :: "dfs \<Rightarrow> dfsf \<Rightarrow> dinst \<Rightarrow> dfsf option" where
  "visitOperandShadowInst D F I = (let (CombinedShadow, F1) = combineOperandShadows D F I in setShadow F1 (i_id I) CombinedShadow)"

definition note_nonzero :: "dfsf \<Rightarrow> sv \<Rightarrow> dfsf" where
  "note_nonzero F Shadow = F\<lparr>NonZeroChecks := NonZeroChecks F @ [Shadow]\<rparr>"

definition visitLoadInst :: "dfs \<Rightarrow> dfsf \<Rightarrow> dinst \<Rightarrow> dval \<Rightarrow> dfsf option" where
  "visitLoadInst D F LI ptr =
     (let sz = getTypeStoreSize D (i_type LI) in
      if sz = 0 then setShadow F (i_id LI) ZeroShadow
      else
        let (Shadow, F1) = loadShadow D F ptr sz (Before (i_id LI));
            (Shadow, F2) = (if ClCombinePointerLabelsOnLoad D
                            then let (PtrShadow, F') = getShadow D F1 ptr in combineShadows D F' Shadow PtrShadow LI
                            else (Shadow, F1));
            F3 = (if Shadow \<noteq> ZeroShadow then note_nonzero F2 Shadow else F2)
        in setShadow F3 (i_id LI) Shadow)"

definition visitStoreInst :: "dfs \<Rightarrow> dfsf \<Rightarrow> dinst \<Rightarrow> dval \<Rightarrow> dval \<Rightarrow> dfsf" where
  "visitStoreInst D F SI val ptr =
     (let sz = getTypeStoreSize D (val_type D val) in
      if sz = 0 then F
      else
        let (Shadow, F1) = getShadow D F val;
            (Shadow, F2) = (if ClCombinePointerLabelsOnStore D
                            then let (PtrShadow, F') = getShadow D F1 ptr in combineShadows D F' Shadow PtrShadow SI
                            else (Shadow, F1))
        in storeShadow D F2 ptr sz Shadow (Before (i_id SI)))"

text \<open>A local variable whose address is only loaded from and stored to keeps its label in a local variable.  \<open>insts\<close> are
  the instructions of the function.\<close>

definition AllLoadsStores :: "dinst list \<Rightarrow> nat \<Rightarrow> bool" where
  "AllLoadsStores insts i \<longleftrightarrow>
     list_all (\<lambda>U. VInst i \<in> set (op_values (i_op U)) \<longrightarrow>
       (case i_op U of LoadInst p \<Rightarrow> True | StoreInst v p \<Rightarrow> p = VInst i | _ \<Rightarrow> False)) insts"

definition visitAllocaInst :: "dinst list \<Rightarrow> dfsf \<Rightarrow> dinst \<Rightarrow> dfsf option" where
  "visitAllocaInst insts F I =
     (let a = next_slot F;
          F1 = (if AllLoadsStores insts (i_id I)
                then (insert_code F (Before (i_id I)) [DAlloca a 1] 0)\<lparr>AllocaShadowMap := (i_id I, a) # AllocaShadowMap F, next_slot := Suc a\<rparr>
                else F)
      in setShadow F1 (i_id I) ZeroShadow)"

fun isVectorTy :: "dty \<Rightarrow> bool" where
  "isVectorTy (VectorT k t) = True"
| "isVectorTy _ = False"

definition visitSelectInst :: "dfs \<Rightarrow> dfsf \<Rightarrow> dinst \<Rightarrow> dval \<Rightarrow> dval \<Rightarrow> dval \<Rightarrow> dfsf option" where
  "visitSelectInst D F I c t f =
     (let (CondShadow, F1) = getShadow D F c;
          (TrueShadow, F2) = getShadow D F1 t;
          (FalseShadow, F3) = getShadow D F2 f
      in
      if isVectorTy (val_type D c)
      then let (S1, F4) = combineShadows D F3 TrueShadow FalseShadow I;
               (S2, F5) = combineShadows D F4 CondShadow S1 I
           in setShadow F5 (i_id I) S2
      else let (ShadowSel, F4) = (if TrueShadow = FalseShadow then (TrueShadow, F3)
                 else (STmp (nextTmp F3), insert_code F3 (Before (i_id I)) [DSelect (nextTmp F3) (SVal c) TrueShadow FalseShadow] 1));
               (S2, F5) = combineShadows D F4 CondShadow ShadowSel I
           in setShadow F5 (i_id I) S2)"

definition visitMemSetInst :: "dfs \<Rightarrow> dfsf \<Rightarrow> dinst \<Rightarrow> dval \<Rightarrow> dval \<Rightarrow> dval \<Rightarrow> dfsf" where
  "visitMemSetInst D F I dest val len =
     (let (ValShadow, F1) = getShadow D F val
      in insert_code F1 (Before (i_id I)) [DSetLabel ValShadow (SVal dest) (SVal len)] 0)"

text \<open>The length is multiplied in its own type.\<close>

definition visitMemTransferInst :: "dfs \<Rightarrow> dfsf \<Rightarrow> dinst \<Rightarrow> dval \<Rightarrow> dval \<Rightarrow> dval \<Rightarrow> dfsf" where
  "visitMemTransferInst D F I dest src len =
     (let pos = Before (i_id I);
          (DestShadow, F1) = getShadowAddress D F (SVal dest) pos;
          (SrcShadow, F2) = getShadowAddress D F1 (SVal src) pos;
          n = nextTmp F2
      in insert_code F2 pos [DMul n (getScalarSizeInBits (val_type D len)) (SVal len) (SImm (of_nat (ShadowWidth div 8))),
                      DMemTransfer DestShadow SrcShadow (STmp n)] 1)"

definition visitReturnInst :: "dfs \<Rightarrow> dfsf \<Rightarrow> dinst \<Rightarrow> dval option \<Rightarrow> dfsf" where
  "visitReturnInst D F RI ret =
     (case ret of
        Some v \<Rightarrow>
          if IsNativeABI F then F
          else let (S, F1) = getShadow D F v in
            (case IA D of
               IA_TLS \<Rightarrow> insert_code F1 (Before (i_id RI)) [DStoreRet S] 0
             | IA_Args \<Rightarrow> insert_code F1 (Before (i_id RI)) [DReturnPair (SVal v) S] 0)
      | None \<Rightarrow> F)"

text \<open>The incoming values are filled in when all blocks have been visited.\<close>

definition visitPHINode :: "dfsf \<Rightarrow> dinst \<Rightarrow> (dval \<times> nat) list \<Rightarrow> dfsf option" where
  "visitPHINode F PN inc =
     (let r = nextTmp F in
      setShadow (F\<lparr>nextTmp := Suc r, PHIFixups := PHIFixups F @ [(inc, r)]\<rparr>) (i_id PN) (STmp r))"

section \<open>Calls\<close>

text \<open>Labels of arguments pass through \<^verbatim>\<open>__dfsan_arg_tls\<close>.\<close>

fun store_args :: "dfs \<Rightarrow> dfsf \<Rightarrow> dinst \<Rightarrow> nat \<Rightarrow> dval list \<Rightarrow> dfsf" where
  "store_args D F I i [] = F"
| "store_args D F I i (a # as) =
     (let (s, F1) = getShadow D F a in store_args D (insert_code F1 (Before (i_id I)) [DStoreArg s i] 0) I (Suc i) as)"

fun shadows_of :: "dfs \<Rightarrow> dfsf \<Rightarrow> dval list \<Rightarrow> sv list \<times> dfsf" where
  "shadows_of D F [] = ([], F)"
| "shadows_of D F (a # as) = (let (s, F1) = getShadow D F a; (ss, F2) = shadows_of D F1 as in (s # ss, F2))"

text \<open>The labels of further arguments are stored in a local array at the front of the entry block.\<close>

fun store_va :: "dfs \<Rightarrow> dfsf \<Rightarrow> dinst \<Rightarrow> nat \<Rightarrow> nat \<Rightarrow> dval list \<Rightarrow> dfsf" where
  "store_va D F I a n [] = F"
| "store_va D F I a n (v # vs) =
     (let (s, F1) = getShadow D F v in store_va D (insert_code F1 (Before (i_id I)) [DStoreSlot s a n] 0) I a (Suc n) vs)"

definition label_va :: "dfs \<Rightarrow> dfsf \<Rightarrow> dinst \<Rightarrow> dval list \<Rightarrow> sv \<times> dfsf" where
  "label_va D F I vs =
     (let a = next_slot F;
          F1 = (insert_code F EntryFront [DAlloca a (length vs)] 0)\<lparr>next_slot := Suc a\<rparr>;
          F2 = store_va D F1 I a 0 vs
      in (STmp (nextTmp F2), insert_code F2 (Before (i_id I)) [DSlotPtr (nextTmp F2) a] 1))"

text \<open>A call of a function with the instrumented ABI.\<close>

definition instrumented_call :: "dfs \<Rightarrow> dfsf \<Rightarrow> dinst \<Rightarrow> callsite \<Rightarrow> dfsf option" where
  "instrumented_call D F I CS =
     (let FT = calledType CS; n = length (params FT); fixed = take n (callArgs CS); extra = drop n (callArgs CS) in
      case IA D of
        IA_TLS \<Rightarrow>
          let F1 = store_args D F I 0 fixed in
          if i_type I = VoidT then Some F1
          else let r = nextTmp F1; F2 = insert_code F1 (After (i_id I)) [DLoadRet r] 1 in
            map_option (\<lambda>F3. note_nonzero F3 (STmp r)) (setShadow (F2\<lparr>SkipInsts := STmp r # SkipInsts F2\<rparr>) (i_id I) (STmp r))
      | IA_Args \<Rightarrow>
          let (ss, F1) = shadows_of D F fixed;
              (va, F2) = (if isVarArg FT then let (p, F') = label_va D F1 I extra in (p # map SVal extra, F') else ([], F1));
              r = nextTmp F2;
              F3 = insert_code F2 (InsteadOf (i_id I)) [DCallArgs r (SVal (calledValue CS)) (map SVal fixed @ ss @ va)] 1
          in if i_type I = VoidT then Some F3
             else let F4 = insert_code F3 (After (i_id I)) [DExtract (r + 1) r 0, DExtract (r + 2) r 1] 2 in
               map_option (\<lambda>F5. note_nonzero F5 (STmp (r + 2)))
                 (setShadow (F4\<lparr>SkipInsts := STmp (r + 1) # STmp (r + 2) # SkipInsts F4\<rparr>) (i_id I) (STmp (r + 2))))"

text \<open>A trampoline calls the function it gets as its first argument with the labels it gets behind the arguments, and
  stores the label of the result through its last argument.  The called value is an argument, so that the call is one of
  a function with the instrumented ABI.\<close>

definition trampoline_body :: "dfs \<Rightarrow> functype \<Rightarrow> dfsf option" where
  "trampoline_body D FT = do {
     let n = length (params FT);
     let non_void = (ret_type FT \<noteq> VoidT);
     let F0 = DFSanFunction_new True 1 (2 * n + (if non_void then 2 else 1)) 0;
     let F1 = F0\<lparr>ValShadowMap := map (\<lambda>k. (VArg (1 + k), SVal (VArg (1 + n + k)))) [0..<n]\<rparr>;
     let CI = \<lparr>i_id = 0, i_parent = 0, i_type = ret_type FT,
               i_op = CallInst \<lparr>calledValue = VArg 0, calledType = FT, callArgs = map (\<lambda>k. VArg (1 + k)) [0..<n], callAttrs = []\<rparr>\<rparr>;
     F2 \<leftarrow> instrumented_call D F1 CI \<lparr>calledValue = VArg 0, calledType = FT, callArgs = map (\<lambda>k. VArg (1 + k)) [0..<n], callAttrs = []\<rparr>;
     if non_void then let (S, F3) = getShadow D F2 (VInst 0) in Some (insert_code F3 (Before 1) [DStorePtr S (SVal (VArg (2 * n + 1)))] 0)
     else Some F2
   }"

definition getOrBuildTrampolineFunction :: "dfsf \<Rightarrow> functype \<Rightarrow> string \<Rightarrow> ((sv \<times> dty) \<times> dfsf) option" where
  "getOrBuildTrampolineFunction F FT FName = do {
     FTT \<leftarrow> getTrampolineFunctionType FT;
     Some ((SVal (VTrampoline FName), PtrT (to_type FTT)),
           if FName \<in> fst ` set (Trampolines F) then F else F\<lparr>Trampolines := Trampolines F @ [(FName, FT)]\<rparr>)
   }"

section \<open>Calls of wrappers\<close>

text \<open>The arguments with their types: a function is passed as its trampoline and a cast of itself.\<close>

fun custom_args :: "dfs \<Rightarrow> dfsf \<Rightarrow> string \<Rightarrow> nat \<Rightarrow> dval list \<Rightarrow> ((sv \<times> dty) list \<times> dfsf) option" where
  "custom_args D F name k [] = Some ([], F)"
| "custom_args D F name k (a # as) =
     (case fun_pointee (val_type D a) of
        Some ParamFT \<Rightarrow> do {
          (T, F1) \<leftarrow> getOrBuildTrampolineFunction F ParamFT (''dfst'' @ show_nat k @ ''$'' @ name);
          (rest, F2) \<leftarrow> custom_args D F1 name (Suc k) as;
          Some (T # (SVal a, Int8PtrTy) # rest, F2)
        }
      | None \<Rightarrow> do {
          (rest, F1) \<leftarrow> custom_args D F name (Suc k) as;
          Some ((SVal a, val_type D a) # rest, F1)
        })"

definition getLabelReturnAlloca :: "dfsf \<Rightarrow> nat \<times> dfsf" where
  "getLabelReturnAlloca F =
     (case LabelReturnAlloca F of
        Some a \<Rightarrow> (a, F)
      | None \<Rightarrow> let a = next_slot F in
          (a, (insert_code F EntryFront [DAlloca a 1] 0)\<lparr>next_slot := Suc a, LabelReturnAlloca := Some a\<rparr>))"

definition add_zext :: "nat \<Rightarrow> nat \<Rightarrow> attrs \<Rightarrow> attrs" where
  "add_zext start n al =
     map (\<lambda>i. if start + 2 \<le> i \<and> i < start + n + 2 then attr_set al i @ [''zeroext''] else attr_set al i) [0..<max (length al) (start + n + 2)]"

text \<open>The arguments of the call of \<^verbatim>\<open>__dfsw_F\<close>, the index of the first label among them, and the array of the returned
  label.\<close>

definition custom_call_args :: "dfs \<Rightarrow> dfsf \<Rightarrow> dinst \<Rightarrow> callsite \<Rightarrow> functype \<Rightarrow> string \<Rightarrow> ((sv \<times> dty) list \<times> nat \<times> nat option \<times> dfsf) option" where
  "custom_call_args D F I CS FT name = do {
     let n = length (params FT);
     let extra = drop n (callArgs CS);
     (Args, F1) \<leftarrow> custom_args D F name 0 (take n (callArgs CS));
     let (ss, F2) = shadows_of D F1 (take n (callArgs CS));
     let (va, F3) = (if isVarArg FT then let (p, F') = label_va D F2 I extra in ([(p, ShadowPtrTy)], F') else ([], F2));
     let (ret, slot, F4) =
       (if ret_type FT \<noteq> VoidT
        then let (a, F') = getLabelReturnAlloca F3; r = nextTmp F' in
          ([(STmp r, ShadowPtrTy)], Some a, insert_code F' (Before (i_id I)) [DSlotPtr r a] 1)
        else ([], None, F3));
     Some (Args @ map (\<lambda>s. (s, ShadowTy)) ss @ va @ ret @ map (\<lambda>v. (SVal v, val_type D v)) extra, length Args, slot, F4)
   }"

definition custom_call :: "dfs \<Rightarrow> dfsf \<Rightarrow> dinst \<Rightarrow> callsite \<Rightarrow> nat \<Rightarrow> dfsf option" where
  "custom_call D F I CS f = do {
     let FT = fn_type D f;
     CustomFn \<leftarrow> getCustomFunctionType FT;
     (Args, ShadowArgStart, slot, F1) \<leftarrow> custom_call_args D F I CS FT (fn_name D f);
     al \<leftarrow> TransformFunctionAttributes CustomFn (callAttrs CS);
     let r = nextTmp F1;
     let F2 = insert_code F1 (InsteadOf (i_id I))
           [DCallCustom r (''__dfsw_'' @ fn_name D f) (map fst Args) (add_zext ShadowArgStart (length (params FT)) al)] 1;
     case slot of
       Some a \<Rightarrow> setShadow (insert_code F2 (InsteadOf (i_id I)) [DLoadSlot (r + 1) a] 1) (i_id I) (STmp (r + 1))
     | None \<Rightarrow> Some F2
   }"

definition setCalledFunction :: "dfsf \<Rightarrow> dinst \<Rightarrow> nat \<Rightarrow> dfsf" where
  "setCalledFunction F I f = F\<lparr>setCalled := (i_id I, f) # setCalled F\<rparr>"

definition operand_call :: "dfs \<Rightarrow> callsite \<Rightarrow> bool" where
  "operand_call D CS \<longleftrightarrow> (case calledValue CS of VFun f \<Rightarrow> fn_isIntrinsic D f | VAsm a \<Rightarrow> True | _ \<Rightarrow> False)"

definition visitCallSite :: "dfs \<Rightarrow> dfsf \<Rightarrow> dinst \<Rightarrow> callsite \<Rightarrow> bool \<Rightarrow> dfsf option" where
  "visitCallSite D F I CS is_call =
     (if operand_call D CS then visitOperandShadowInst D F I
      else if calledValue CS = VFun (DFSanVarargWrapperFn D) then Some F
      else case map_of (UnwrappedFnMap D) (calledValue CS) of
        Some f \<Rightarrow>
          (case getWrapperKind (SCL D) (ModuleId D) (fn_name D f) of
             WK_Warning \<Rightarrow>
               setShadow (insert_code (setCalledFunction F I f) (Before (i_id I)) [DUnimplemented (fn_name D f)] 0) (i_id I) ZeroShadow
           | WK_Discard \<Rightarrow> setShadow (setCalledFunction F I f) (i_id I) ZeroShadow
           | WK_Functional \<Rightarrow> visitOperandShadowInst D (setCalledFunction F I f) I
           | WK_Custom \<Rightarrow> if is_call then custom_call D F I CS f else instrumented_call D F I CS)
      | None \<Rightarrow> instrumented_call D F I CS)"

section \<open>A whole function\<close>

definition visit :: "dfs \<Rightarrow> dinst list \<Rightarrow> dfsf \<Rightarrow> dinst \<Rightarrow> dfsf option" where
  "visit D insts F I =
     (case i_op I of
        BinaryOperator b nsw nuw x y \<Rightarrow> visitOperandShadowInst D F I
      | CastInst sext x \<Rightarrow> visitOperandShadowInst D F I
      | CmpInst sg x y \<Rightarrow> visitOperandShadowInst D F I
      | OperandInst k xs \<Rightarrow> visitOperandShadowInst D F I
      | LoadInst p \<Rightarrow> visitLoadInst D F I p
      | StoreInst v p \<Rightarrow> Some (visitStoreInst D F I v p)
      | AllocaInst n \<Rightarrow> visitAllocaInst insts F I
      | SelectInst c t f \<Rightarrow> visitSelectInst D F I c t f
      | MemSetInst d v n \<Rightarrow> Some (visitMemSetInst D F I d v n)
      | MemTransferInst d p n \<Rightarrow> Some (visitMemTransferInst D F I d p n)
      | ReturnInst v \<Rightarrow> Some (visitReturnInst D F I v)
      | CallInst cs \<Rightarrow> visitCallSite D F I cs True
      | InvokeInst cs \<Rightarrow> visitCallSite D F I cs False
      | PHINode inc \<Rightarrow> visitPHINode F I inc
      | OtherInst xs t \<Rightarrow> Some F)"

fun visitInsts :: "dfs \<Rightarrow> dinst list \<Rightarrow> dfsf \<Rightarrow> dinst list \<Rightarrow> dfsf option" where
  "visitInsts D insts F [] = Some F"
| "visitInsts D insts F (I # Is) = do { F1 \<leftarrow> visit D insts F I; visitInsts D insts F1 Is }"

fun fix_phis :: "dfs \<Rightarrow> dfsf \<Rightarrow> ((dval \<times> nat) list \<times> nat) list \<Rightarrow> dfsf" where
  "fix_phis D F [] = F"
| "fix_phis D F ((inc, r) # ps) =
     (let (ss, F1) = shadows_of D F (map fst inc)
      in fix_phis D (F1\<lparr>shadow_phis := shadow_phis F1 @ [(r, zip ss (map snd inc))]\<rparr>) ps)"

definition check_place :: "sv \<Rightarrow> dplace" where
  "check_place V = (case V of STmp r \<Rightarrow> AfterTmp r | _ \<Rightarrow> EntryBody)"

definition nonzero_check :: "sv \<Rightarrow> dfsf \<Rightarrow> dfsf" where
  "nonzero_check V F = (let n = nextTmp F in insert_code F (check_place V) [DNe n V ZeroShadow, DWhen (STmp n) [DNonzeroLabel]] 1)"

text \<open>\<open>blocks\<close> are the reachable blocks in the depth-first order of LLVM, \<open>tmp0\<close> is the first free number.\<close>

definition instrument_function :: "dfs \<Rightarrow> bool \<Rightarrow> nat \<Rightarrow> dinst list list \<Rightarrow> dfsf option" where
  "instrument_function D native args blocks = do {
     let insts = concat blocks;
     F1 \<leftarrow> visitInsts D insts (DFSanFunction_new native (length blocks) args 0) insts;
     let F2 = fix_phis D F1 (PHIFixups F1);
     Some (if ClDebugNonzeroLabels D then fold nonzero_check (NonZeroChecks F2) F2 else F2)
   }"

end
