(* ===== verification/Dfsan_Module.thy ===== *)
theory Dfsan_Module
  imports Dfsan_Visit
begin

text \<open>
  The taint instrumentation pass, fourth part: \<open>runOnModule\<close>, which chooses the functions to instrument, gives aliases
  and functions their new names and types, builds wrappers for functions that are not instrumented, and instruments
  every body.  A function that is replaced by one of another type keeps its number.
\<close>

section \<open>Modules\<close>

datatype linkage = LocalLinkage nat | LinkOnceODRLinkage | OtherLinkage nat

record mfun =
  m_id :: nat
  m_name :: string
  m_type :: functype
  m_linkage :: linkage
  m_intrinsic :: bool
  m_blocks :: "dinst list list" \<comment> \<open>the reachable blocks in depth-first order; none for a declaration\<close>

record galias =
  ga_name :: string
  ga_linkage :: linkage
  ga_type :: dty
  ga_base :: "nat option" \<comment> \<open>the base object, when it is a function\<close>

record mstate =
  ms_functions :: "mfun list"
  ms_aliases :: "galias list"
  ms_asm :: string
  next_fid :: nat
  FnsToInstrument :: "nat option list"
  FnsWithNativeABI :: "nat list"
  ms_unwrapped :: "(dval \<times> nat) list" \<comment> \<open>\<open>UnwrappedFnMap\<close>\<close>
  replaced :: "(nat \<times> nat) list" \<comment> \<open>\<open>replaceAllUsesWith\<close> of functions, newest first\<close>
  alias_replaced :: "(string \<times> nat) list"

definition get_fun :: "mstate \<Rightarrow> nat \<Rightarrow> mfun option" where
  "get_fun S f = find (\<lambda>x. m_id x = f) (ms_functions S)"

definition upd_fun :: "mstate \<Rightarrow> nat \<Rightarrow> (mfun \<Rightarrow> mfun) \<Rightarrow> mstate" where
  "upd_fun S f g = S\<lparr>ms_functions := map (\<lambda>x. if m_id x = f then g x else x) (ms_functions S)\<rparr>"

definition runtime_functions :: "string list" where
  "runtime_functions = [''__dfsan_union'', ''dfsan_union'', ''__dfsan_union_load'', ''__dfsan_unimplemented'',
     ''__dfsan_set_label'', ''__dfsan_nonzero_label'', ''__dfsan_vararg_wrapper'', ''dfsan_mark_signed'',
     ''dfsan_combine_and_ins'', ''dfsan_infer_shape_in_math_op'']"

section \<open>Wrappers\<close>

text \<open>The body of a wrapper: a call of the function with the first parameters, or, for a function with a variable number
  of arguments that is not to be discarded, the report that ends the program.\<close>

definition wrapper_call :: "nat \<Rightarrow> functype \<Rightarrow> dinst list" where
  "wrapper_call f FT =
     [\<lparr>i_id = 0, i_parent = 0, i_type = ret_type FT,
       i_op = CallInst \<lparr>calledValue = VFun f, calledType = FT, callArgs = map VArg [0..<length (params FT)], callAttrs = []\<rparr>\<rparr>,
      \<lparr>i_id = 1, i_parent = 0, i_type = VoidT, i_op = ReturnInst (if ret_type FT = VoidT then None else Some (VInst 0))\<rparr>]"

definition vararg_fail :: "nat \<Rightarrow> dinst list" where
  "vararg_fail vararg_fn =
     [\<lparr>i_id = 0, i_parent = 0, i_type = VoidT,
       i_op = CallInst \<lparr>calledValue = VFun vararg_fn,
         calledType = \<lparr>ret_type = VoidT, params = [Int8PtrTy], isVarArg = False\<rparr>, callArgs = [VConst 0], callAttrs = []\<rparr>\<rparr>,
      \<lparr>i_id = 1, i_parent = 0, i_type = VoidT, i_op = OtherInst [] True\<rparr>]"

definition buildWrapperFunction :: "dfs \<Rightarrow> mstate \<Rightarrow> mfun \<Rightarrow> string \<Rightarrow> linkage \<Rightarrow> functype \<Rightarrow> nat \<Rightarrow> mfun" where
  "buildWrapperFunction D S F NewFName NewFLink NewFT callee =
     \<lparr>m_id = next_fid S, m_name = NewFName, m_type = NewFT, m_linkage = NewFLink, m_intrinsic = False,
      m_blocks = [if isVarArg (m_type F) \<and> getWrapperKind (SCL D) (ModuleId D) (m_name F) \<noteq> WK_Discard
                  then vararg_fail (DFSanVarargWrapperFn D) else wrapper_call callee (m_type F)]\<rparr>"

definition add_fun :: "mstate \<Rightarrow> mfun \<Rightarrow> mstate" where
  "add_fun S F = S\<lparr>ms_functions := ms_functions S @ [F], next_fid := Suc (next_fid S)\<rparr>"

section \<open>Aliases\<close>

definition alias_step :: "dfs \<Rightarrow> mstate \<Rightarrow> galias \<Rightarrow> mstate" where
  "alias_step D S GA =
     (case ga_base GA \<bind> get_fun S of
        None \<Rightarrow> S\<lparr>ms_aliases := ms_aliases S @ [GA]\<rparr>
      | Some F \<Rightarrow>
        let GAInst = isInstrumented_alias (SCL D) (ModuleId D) (ga_name GA) (ga_type GA);
            FInst = isInstrumented (SCL D) (ModuleId D) (m_name F) in
        if GAInst \<and> FInst
        then let (name, asm) = addGlobalNamePrefix (ga_name GA) (ms_asm S)
             in S\<lparr>ms_aliases := ms_aliases S @ [GA\<lparr>ga_name := name\<rparr>], ms_asm := asm\<rparr>
        else if GAInst \<noteq> FInst
        then let NewF = buildWrapperFunction D S F (ga_name GA) (ga_linkage GA) (m_type F) (m_id F); S1 = add_fun S NewF
             in S1\<lparr>FnsToInstrument := FnsToInstrument S1 @ [Some (m_id NewF)],
                   alias_replaced := (ga_name GA, m_id NewF) # alias_replaced S1\<rparr>
        else S\<lparr>ms_aliases := ms_aliases S @ [GA]\<rparr>)"

section \<open>Changing the ABI\<close>

definition IsZeroArgsVoidRet :: "functype \<Rightarrow> bool" where
  "IsZeroArgsVoidRet FT \<longleftrightarrow> params FT = [] \<and> \<not> isVarArg FT \<and> ret_type FT = VoidT"

definition rename_fun :: "mstate \<Rightarrow> mfun \<Rightarrow> mstate" where
  "rename_fun S F =
     (let (name, asm) = addGlobalNamePrefix (m_name F) (ms_asm S)
      in (upd_fun S (m_id F) (\<lambda>x. x\<lparr>m_name := name\<rparr>))\<lparr>ms_asm := asm\<rparr>)"

text \<open>All uses of the function become uses of the wrapper, also the call inside the wrapper; \<open>UnwrappedFnMap\<close> leads back.\<close>

definition wrap_fun :: "dfs \<Rightarrow> mstate \<Rightarrow> nat \<Rightarrow> mfun \<Rightarrow> mstate" where
  "wrap_fun D S i F =
     (let FT = m_type F;
          NewFT = (if IA D = IA_Args then getArgsFunctionType FT else FT);
          wrapperLinkage = (case m_linkage F of LocalLinkage l \<Rightarrow> LocalLinkage l | _ \<Rightarrow> LinkOnceODRLinkage);
          NewF = buildWrapperFunction D S F (''dfsw$'' @ m_name F) wrapperLinkage NewFT (next_fid S);
          S1 = add_fun S NewF;
          S2 = S1\<lparr>replaced := (m_id F, m_id NewF) # replaced S1, ms_unwrapped := (VFun (m_id NewF), m_id F) # ms_unwrapped S1,
                  FnsToInstrument := (FnsToInstrument S1)[i := Some (m_id NewF)]\<rparr>
      in if m_blocks F \<noteq> []
         then S2\<lparr>FnsWithNativeABI := m_id F # FnsWithNativeABI S2, FnsToInstrument := FnsToInstrument S2 @ [Some (m_id F)]\<rparr>
         else S2)"

definition abi_step :: "dfs \<Rightarrow> mstate \<Rightarrow> nat \<Rightarrow> mstate option" where
  "abi_step D S i = do {
     f \<leftarrow> FnsToInstrument S ! i;
     F \<leftarrow> get_fun S f;
     let FT = m_type F;
     Some (
       if isInstrumented (SCL D) (ModuleId D) (m_name F)
       then if IA D = IA_Args \<and> \<not> IsZeroArgsVoidRet FT
            then rename_fun (upd_fun S f (\<lambda>x. x\<lparr>m_type := getArgsFunctionType FT\<rparr>)) F
            else rename_fun S F
       else if \<not> IsZeroArgsVoidRet FT \<or> getWrapperKind (SCL D) (ModuleId D) (m_name F) = WK_Custom
       then wrap_fun D S i F
       else if isVarArg FT
       then S\<lparr>ms_unwrapped := (VFun f, f) # ms_unwrapped S, FnsToInstrument := (FnsToInstrument S)[i := None]\<rparr>
       else S)
   }"

text \<open>The loop runs over the functions that were there when it began.\<close>

fun abi_steps :: "dfs \<Rightarrow> mstate \<Rightarrow> nat list \<Rightarrow> mstate option" where
  "abi_steps D S [] = Some S"
| "abi_steps D S (i # is) = do { S1 \<leftarrow> abi_step D S i; abi_steps D S1 is }"

section \<open>The whole module\<close>

fun replace_val :: "(nat \<times> nat) list \<Rightarrow> dval \<Rightarrow> dval" where
  "replace_val R (VFun f) = VFun (case map_of R f of Some g \<Rightarrow> g | None \<Rightarrow> f)"
| "replace_val R v = v"

definition replace_cs :: "(nat \<times> nat) list \<Rightarrow> callsite \<Rightarrow> callsite" where
  "replace_cs R c = c\<lparr>calledValue := replace_val R (calledValue c), callArgs := map (replace_val R) (callArgs c)\<rparr>"

fun replace_op :: "(nat \<times> nat) list \<Rightarrow> dop \<Rightarrow> dop" where
  "replace_op R (BinaryOperator b s u x y) = BinaryOperator b s u (replace_val R x) (replace_val R y)"
| "replace_op R (CastInst e x) = CastInst e (replace_val R x)"
| "replace_op R (CmpInst e x y) = CmpInst e (replace_val R x) (replace_val R y)"
| "replace_op R (OperandInst k xs) = OperandInst k (map (replace_val R) xs)"
| "replace_op R (LoadInst p) = LoadInst (replace_val R p)"
| "replace_op R (StoreInst v p) = StoreInst (replace_val R v) (replace_val R p)"
| "replace_op R (AllocaInst n) = AllocaInst (replace_val R n)"
| "replace_op R (SelectInst c t f) = SelectInst (replace_val R c) (replace_val R t) (replace_val R f)"
| "replace_op R (MemSetInst d v n) = MemSetInst (replace_val R d) (replace_val R v) (replace_val R n)"
| "replace_op R (MemTransferInst d p n) = MemTransferInst (replace_val R d) (replace_val R p) (replace_val R n)"
| "replace_op R (ReturnInst v) = ReturnInst (map_option (replace_val R) v)"
| "replace_op R (CallInst c) = CallInst (replace_cs R c)"
| "replace_op R (InvokeInst c) = InvokeInst (replace_cs R c)"
| "replace_op R (PHINode vs) = PHINode (map (\<lambda>(v, b). (replace_val R v, b)) vs)"
| "replace_op R (OtherInst xs t) = OtherInst (map (replace_val R) xs) t"

text \<open>What the pass knows when it instruments the bodies.\<close>

definition dfs_of :: "dfs \<Rightarrow> mstate \<Rightarrow> dfs" where
  "dfs_of D S =
     D\<lparr>UnwrappedFnMap := ms_unwrapped S,
       fn_name := (\<lambda>f. case get_fun S f of Some F \<Rightarrow> m_name F | None \<Rightarrow> []),
       fn_type := (\<lambda>f. case get_fun S f of Some F \<Rightarrow> m_type F | None \<Rightarrow> \<lparr>ret_type = VoidT, params = [], isVarArg = False\<rparr>),
       fn_isIntrinsic := (\<lambda>f. case get_fun S f of Some F \<Rightarrow> m_intrinsic F | None \<Rightarrow> False)\<rparr>"

definition body_of :: "mstate \<Rightarrow> mfun \<Rightarrow> dinst list list" where
  "body_of S F = map (map (\<lambda>I. I\<lparr>i_op := replace_op (replaced S) (i_op I)\<rparr>)) (m_blocks F)"

fun instrument_all :: "(nat \<Rightarrow> dfs) \<Rightarrow> mstate \<Rightarrow> nat option list \<Rightarrow> (nat \<times> dfsf) list option" where
  "instrument_all Ds S [] = Some []"
| "instrument_all Ds S (i # is) =
     (case i \<bind> get_fun S of
        None \<Rightarrow> instrument_all Ds S is
      | Some F \<Rightarrow>
        if m_blocks F = [] then instrument_all Ds S is
        else do {
          r \<leftarrow> instrument_function (dfs_of (Ds (m_id F)) S) (m_id F \<in> set (FnsWithNativeABI S)) (length (params (m_type F))) (body_of S F);
          rest \<leftarrow> instrument_all Ds S is;
          Some ((m_id F, r) # rest)
        })"

text \<open>\<open>Ds f\<close> are the answers of LLVM for the function \<open>f\<close>; the options and the ABI list in them are the same.\<close>

definition runOnModule_dfs :: "(nat \<Rightarrow> dfs) \<Rightarrow> string \<Rightarrow> mfun list \<Rightarrow> galias list \<Rightarrow> nat \<Rightarrow> (mstate \<times> (nat \<times> dfsf) list) option" where
  "runOnModule_dfs Ds asm fs gas fid = do {
     let D = Ds 0;
     let S0 = \<lparr>ms_functions = fs, ms_aliases = [], ms_asm = asm, next_fid = fid,
               FnsToInstrument = map (\<lambda>F. Some (m_id F)) (filter (\<lambda>F. \<not> m_intrinsic F \<and> m_name F \<notin> set runtime_functions) fs),
               FnsWithNativeABI = [], ms_unwrapped = [], replaced = [], alias_replaced = []\<rparr>;
     if isIn_module (SCL D) (ModuleId D) ''skip'' then Some (S0\<lparr>ms_aliases := gas, FnsToInstrument := []\<rparr>, [])
     else do {
       let S1 = fold (\<lambda>GA S. alias_step D S GA) gas S0;
       S2 \<leftarrow> abi_steps D S1 [0..<length (FnsToInstrument S1)];
       rs \<leftarrow> instrument_all Ds S2 (FnsToInstrument S2);
       Some (S2, rs)
     }
   }"

end
