(* ===== verification/Dfsan_Emit.thy ===== *)
theory Dfsan_Emit
  imports Dfsan_Module
begin

text \<open>
  What the inserted code does: the addresses of label cells are those of the runtime, the code of a union is
  \<open>dfsan_union\<close>, the code of a store is \<open>dfsan_set_label\<close>, and the code of a load is \<open>__dfsan_union_load\<close> with a short cut
  for equal labels.
\<close>

section \<open>What code leaves alone\<close>

definition below :: "nat \<Rightarrow> sv \<Rightarrow> bool" where
  "below n v = (case v of STmp r \<Rightarrow> r < n | _ \<Rightarrow> True)"

definition tmps_kept :: "nat \<Rightarrow> dexec \<Rightarrow> dexec \<Rightarrow> bool" where
  "tmps_kept n s t \<longleftrightarrow> (\<forall>r<n. d_tmp t r = d_tmp s r) \<and> d_arg_tls t = d_arg_tls s \<and> d_retval_tls t = d_retval_tls s \<and>
     d_slot t = d_slot s \<and> d_result t = d_result s"

lemma below_simps [simp]: "below n (STmp r) = (r < n)" "below n (SImm c)" "below n (SVal v)"
  by (simp_all add: below_def)

lemma below_mono: "below n v \<Longrightarrow> n \<le> m \<Longrightarrow> below m v"
  by (cases v) auto

lemma tmps_kept_refl: "tmps_kept n s s"
  by (simp add: tmps_kept_def)

lemma tmps_kept_trans: "tmps_kept n s t \<Longrightarrow> tmps_kept n t u \<Longrightarrow> tmps_kept n s u"
  by (simp add: tmps_kept_def)

lemma kept_less: "tmps_kept n s t \<Longrightarrow> m \<le> n \<Longrightarrow> tmps_kept m s t"
  by (simp add: tmps_kept_def)

lemma kept_set [simp]: "n \<le> r \<Longrightarrow> tmps_kept n s (set_d t r x) \<longleftrightarrow> tmps_kept n s t"
  by (simp add: tmps_kept_def)

lemma kept_rt [simp]: "tmps_kept n s (t\<lparr>d_rt := x\<rparr>) \<longleftrightarrow> tmps_kept n s t"
  by (simp add: tmps_kept_def)

lemma kept_sval: "tmps_kept n s t \<Longrightarrow> below n v \<Longrightarrow> sval E t v = sval E s v"
  by (cases v) (auto simp: tmps_kept_def)

lemma kept_label: "tmps_kept n s t \<Longrightarrow> below n v \<Longrightarrow> slabel E t v = slabel E s v"
  by (simp add: slabel_def kept_sval)

lemma slabel_set_d [simp]: "slabel E (set_d s r x) v = (if v = STmp r then ucast x else slabel E s v)"
  by (simp add: slabel_def)

lemma sval_rt [simp]: "sval E (s\<lparr>d_rt := t\<rparr>) v = sval E s v" "slabel E (s\<lparr>d_rt := t\<rparr>) v = slabel E s v"
  by (cases v; simp add: slabel_def)+

lemma label_wide [simp]: "ucast (ucast l :: u64) = (l :: u32)"
  by (rule bit_word_eqI) (simp add: bit_simps)

lemma emit_frame [simp]:
  "nextTmp (insert_code F pos cs k) = nextTmp F + k" "insertions (insert_code F pos cs k) = insertions F @ [(pos, cs)]"
  "ValShadowMap (insert_code F pos cs k) = ValShadowMap F" "ShadowElements (insert_code F pos cs k) = ShadowElements F"
  "CachedCombinedShadows (insert_code F pos cs k) = CachedCombinedShadows F" "AvoidNewBlocks (insert_code F pos cs k) = AvoidNewBlocks F"
  "AllocaShadowMap (insert_code F pos cs k) = AllocaShadowMap F" "IsNativeABI (insert_code F pos cs k) = IsNativeABI F"
  "LabelReturnAlloca (insert_code F pos cs k) = LabelReturnAlloca F" "next_slot (insert_code F pos cs k) = next_slot F"
  "Trampolines (insert_code F pos cs k) = Trampolines F"
  by (simp_all add: insert_code_def)

section \<open>Addresses of label cells\<close>

text \<open>The runtime that a program compiled for a target runs with; on aarch64 it provides the mask.\<close>

fun runs_on :: "TripleArch \<Rightarrow> arch \<Rightarrow> bool" where
  "runs_on Triple_x86_64 A = (A = x86_64)"
| "runs_on Triple_mips64 A = (A = mips64)"
| "runs_on Triple_mips64el A = (A = mips64)"
| "runs_on Triple_aarch64 A = is_aarch64 A"
| "runs_on Triple_aarch64_be A = is_aarch64 A"
| "runs_on (Triple_other n) A = False"

definition mask_of :: "dfs \<Rightarrow> denv \<Rightarrow> u64" where
  "mask_of D E = (case ShadowPtrMask D of Some m \<Rightarrow> m | None \<Rightarrow> d_mask E)"

lemma take_bit_64: "take_bit 64 x = x" for x :: u64
  by (rule bit_word_eqI) (simp add: bit_take_bit_iff)

lemma shadow_address_run:
  assumes "getShadowAddress D F Addr pos = (v, F1)" "below (nextTmp F) Addr"
  shows "\<exists>cs k t. F1 = insert_code F pos cs k \<and> run_ds E s cs = Some t \<and> tmps_kept (nextTmp F) s t \<and> below (nextTmp F1) v \<and>
     d_rt t = d_rt s \<and> sval E t v = push_bit 2 (sval E s Addr AND mask_of D E)"
proof -
  have a: "Addr \<noteq> STmp r" if "nextTmp F \<le> r" for r using assms(2) that by auto
  have m: "take_bit 64 (x * ShadowPtrMul) = push_bit 2 x" for x
    unfolding take_bit_64 by (simp add: ShadowPtrMul_def ShadowWidth_def push_bit_eq_mult)
  show ?thesis using assms(1) a
    by (cases "ShadowPtrMask D")
      (auto simp: getShadowAddress_def Let_def mask_of_def m tmps_kept_refl insert_code_def intro!: exI)
qed

section \<open>Unions\<close>

text \<open>The code of a union is \<open>dfsan_union\<close>, whether it is a call or a comparison with a call of \<^verbatim>\<open>__dfsan_union\<close> behind it.\<close>

lemma union_code_run:
  assumes "union_code F V1 V2 pos = (v, F1)" "below (nextTmp F) V1" "below (nextTmp F) V2"
  shows "\<exists>cs k. F1 = insert_code F pos cs k \<and> below (nextTmp F1) v \<and> nextTmp F \<le> nextTmp F1 \<and>
    (\<forall>E s. case dfsan_union (d_rt s) (slabel E s V1) (slabel E s V2) of
       None \<Rightarrow> run_ds E s cs = None
     | Some (l, t') \<Rightarrow> \<exists>t. run_ds E s cs = Some t \<and> tmps_kept (nextTmp F) s t \<and> d_rt t = t' \<and> slabel E t v = l)"
proof -
  have n: "V1 \<noteq> STmp r" "V2 \<noteq> STmp r" if "nextTmp F \<le> r" for r using assms(2,3) that by auto
  show ?thesis
  proof (cases "AvoidNewBlocks F")
    case True
    then show ?thesis using assms(1)
      by (auto simp: union_code_def Let_def set_label_d_def tmps_kept_refl split: option.splits intro!: exI)
  next
    case False
    then show ?thesis using assms(1) n
      by (auto simp: union_code_def Let_def set_label_d_def dfsan_union_def tmps_kept_refl slabel_def [symmetric] split: option.splits intro!: exI)
  qed
qed

section \<open>Stores\<close>

lemma store_cells_same:
  assumes "\<forall>i<n. cell_ok (p + 4 * of_nat i)"
  shows "store_cells t p (replicate n l) = Some (t\<lparr>shadow := (\<lambda>c. if in_range 4 p n c then l else shadow t c)\<rparr>)"
proof -
  have f: "fold (\<lambda>(c, l) m. m(c := l)) (zip (map (\<lambda>i. p + 4 * of_nat i) [0..<n]) (replicate n l)) m =
      (\<lambda>c. if in_range 4 p n c then l else m c)" for m
  proof (induction n)
    case (Suc n)
    have z: "zip (map (\<lambda>i. p + 4 * of_nat i) [0..<Suc n]) (replicate (Suc n) l) =
        zip (map (\<lambda>i. p + 4 * of_nat i) [0..<n]) (replicate n l) @ [(p + 4 * of_nat n, l)]"
      by (simp add: replicate_append_same [symmetric] zip_append1)
    show ?case unfolding z fold_append o_apply Suc.IH by (auto simp: in_range_def less_Suc_eq fun_eq_iff)
  qed simp
  show ?thesis using assms by (simp add: store_cells_def cells_def list_all_iff f)
qed
text \<open>Storing one label after the other, or four at a time, is setting the label of the range.\<close>

definition set_cells :: "dexec \<Rightarrow> u64 \<Rightarrow> nat \<Rightarrow> u32 \<Rightarrow> dexec \<Rightarrow> bool" where
  "set_cells s p n l t \<longleftrightarrow> d_rt t = (d_rt s)\<lparr>shadow := (\<lambda>c. if in_range 4 p n c then l else shadow (d_rt s) c)\<rparr>"

lemma ex_less_add: "(\<exists>i<m + n. P i) \<longleftrightarrow> (\<exists>i<m. P i) \<or> (\<exists>j<n. P (m + j))" for m n :: nat
proof
  assume "\<exists>i<m + n. P i"
  then obtain i where i: "i < m + n" "P i" by blast
  show "(\<exists>i<m. P i) \<or> (\<exists>j<n. P (m + j))"
  proof (cases "i < m")
    case False
    then have "i - m < n \<and> P (m + (i - m))" using i by auto
    then show ?thesis by blast
  qed (use i in blast)
next
  assume "(\<exists>i<m. P i) \<or> (\<exists>j<n. P (m + j))"
  then show "\<exists>i<m + n. P i" using add_less_cancel_left [of m _ n] trans_less_add1 [of _ m n] by blast
qed

lemma in_range_add: "in_range 4 p (m + n) c \<longleftrightarrow> in_range 4 p m c \<or> in_range 4 (p + 4 * of_nat m) n c"
  by (simp add: in_range_def ex_less_add algebra_simps)

lemma set_cells_add:
  "set_cells s p m l t \<Longrightarrow> set_cells t (p + 4 * of_nat m) n l u \<Longrightarrow> set_cells s p (m + n) l u"
  by (auto simp: set_cells_def in_range_add fun_eq_iff)

lemma label_stores_run:
  assumes "\<forall>i<offset + sz. cell_ok (p + 4 * of_nat i)" "sval E s a = p" "below n a" "below n S"
  shows "\<exists>t. run_ds E s (label_stores n a S sz offset) = Some t \<and> tmps_kept n s t \<and>
    set_cells s (p + 4 * of_nat offset) sz (slabel E s S) t"
  using assms
proof (induction sz arbitrary: s offset)
  case 0
  then show ?case by (simp add: tmps_kept_refl set_cells_def)
next
  case (Suc sz)
  let ?q = "p + 4 * of_nat offset" and ?r = "n + offset"
  have ne: "a \<noteq> STmp ?r" "S \<noteq> STmp ?r" using Suc.prems(3,4) by auto
  let ?t0 = "set_d s ?r ?q"
  let ?t = "?t0\<lparr>d_rt := (d_rt s)\<lparr>shadow := (\<lambda>c. if in_range 4 ?q 1 c then slabel E s S else shadow (d_rt s) c)\<rparr>\<rparr>"
  have "store_cells (d_rt s) ?q [slabel E s S] = Some (d_rt ?t)"
    using store_cells_same [of 1 ?q "d_rt s" "slabel E s S"] Suc.prems(1) by simp
  then have st: "run_ds E s [DGep ?r a (4 * of_nat offset), DStoreLabel S (STmp ?r)] = Some ?t"
    using Suc.prems(2) ne by (simp add: on_rt_def)
  have k: "tmps_kept n s ?t" by (simp add: tmps_kept_refl)
  have "sval E ?t a = p" "slabel E ?t S = slabel E s S" using Suc.prems(2-4) kept_sval [OF k] kept_label [OF k] by auto
  then obtain u where u: "run_ds E ?t (label_stores n a S sz (Suc offset)) = Some u" "tmps_kept n ?t u"
      "set_cells ?t (p + 4 * of_nat (Suc offset)) sz (slabel E s S) u"
    using Suc.IH [of "Suc offset" ?t] Suc.prems(1,3,4) by auto
  have c: "set_cells s ?q 1 (slabel E s S) ?t" by (simp add: set_cells_def)
  have "set_cells s ?q (1 + sz) (slabel E s S) u"
    by (rule set_cells_add [OF c]) (use u(3) in \<open>simp add: algebra_simps\<close>)
  moreover have "run_ds E s (label_stores n a S (Suc sz) offset) = Some u"
    using run_ds_append [of E s "[DGep ?r a (4 * of_nat offset), DStoreLabel S (STmp ?r)]"] st u(1) by simp
  ultimately show ?case using tmps_kept_trans [OF k u(2)] by auto
qed

declare vec_stores.simps [simp del]

lemma vec_stores_run:
  assumes "\<forall>i<4 * offset + sz. cell_ok (p + 4 * of_nat i)" "sval E s a = p" "below n a" "below n S"
  shows "\<exists>cs t. vec_stores n a S sz offset = (cs, sz mod 4, offset + sz div 4) \<and> run_ds E s cs = Some t \<and> tmps_kept n s t \<and>
    set_cells s (p + 16 * of_nat offset) (4 * (sz div 4)) (slabel E s S) t"
  using assms
proof (induction n a S sz offset arbitrary: s rule: vec_stores.induct)
  case (1 n a S sz offset)
  show ?case
  proof (cases "sz < 4")
    case True
    then show ?thesis by (simp add: tmps_kept_refl set_cells_def vec_stores.simps [of _ _ _ sz])
  next
    case False
    let ?q = "p + 16 * of_nat offset" and ?r = "n + offset"
    have ne: "a \<noteq> STmp ?r" "S \<noteq> STmp ?r" using "1.prems"(3,4) by auto
    let ?t0 = "set_d s ?r ?q"
    let ?t = "?t0\<lparr>d_rt := (d_rt s)\<lparr>shadow := (\<lambda>c. if in_range 4 ?q 4 c then slabel E s S else shadow (d_rt s) c)\<rparr>\<rparr>"
    have "cell_ok (?q + 4 * of_nat i)" if "i < 4" for i
      using "1.prems"(1) [rule_format, of "4 * offset + i"] that False by (simp add: algebra_simps)
    then have "store_cells (d_rt s) ?q (replicate 4 (slabel E s S)) = Some (d_rt ?t)"
      using store_cells_same [of 4 ?q "d_rt s" "slabel E s S"] by simp
    then have st: "run_ds E s [DGep ?r a (16 * of_nat offset), DStoreVec (replicate 4 S) (STmp ?r)] = Some ?t"
      using "1.prems"(2) ne by (simp add: on_rt_def)
    have k: "tmps_kept n s ?t" by (simp add: tmps_kept_refl)
    have v: "sval E ?t a = p" "slabel E ?t S = slabel E s S" using "1.prems"(2-4) kept_sval [OF k] kept_label [OF k] by auto
    have "\<forall>i<4 * Suc offset + (sz - 4). cell_ok (p + 4 * of_nat i)" using "1.prems"(1) False by simp
    from "1.IH" [OF False this v(1) "1.prems"(3,4)] v(2)
    obtain cs u where u: "vec_stores n a S (sz - 4) (Suc offset) = (cs, (sz - 4) mod 4, Suc offset + (sz - 4) div 4)"
        "run_ds E ?t cs = Some u" "tmps_kept n ?t u"
        "set_cells ?t (p + 16 * of_nat (Suc offset)) (4 * ((sz - 4) div 4)) (slabel E s S) u" by auto
    have d: "(sz - 4) mod 4 = sz mod 4" "Suc ((sz - 4) div 4) = sz div 4" using False by (simp_all add: le_mod_geq le_div_geq)
    have c: "set_cells s ?q 4 (slabel E s S) ?t" by (simp add: set_cells_def)
    have "set_cells s ?q (4 + 4 * ((sz - 4) div 4)) (slabel E s S) u"
      by (rule set_cells_add [OF c]) (use u(4) in \<open>simp add: algebra_simps\<close>)
    moreover have "4 + 4 * ((sz - 4) div 4) = 4 * (sz div 4)" using d(2) by simp
    moreover have "vec_stores n a S sz offset =
        (DGep ?r a (16 * of_nat offset) # DStoreVec (replicate 4 S) (STmp ?r) # cs, sz mod 4, offset + sz div 4)"
      using u(1) d False by (simp add: vec_stores.simps [of _ _ _ sz])
    moreover have "run_ds E s (DGep ?r a (16 * of_nat offset) # DStoreVec (replicate 4 S) (STmp ?r) # cs) = Some u"
      using run_ds_append [of E s "[DGep ?r a (16 * of_nat offset), DStoreVec (replicate 4 S) (STmp ?r)]"] st u(2) by simp
    ultimately show ?thesis using tmps_kept_trans [OF k u(3)] by auto
  qed
qed
lemma store_code_run:
  assumes "\<forall>i < sz. cell_ok (p + 4 * of_nat i)" "sval E s a = p" "below n a" "below n S"
  shows "\<exists>t. run_ds E s (store_code n a S sz) = Some t \<and> tmps_kept n s t \<and> set_cells s p sz (slabel E s S) t"
proof (cases "sz \<ge> ShadowVecSize")
  case True
  obtain cs t where t: "vec_stores n a S sz 0 = (cs, sz mod 4, sz div 4)" "run_ds E s cs = Some t" "tmps_kept n s t"
      "set_cells s p (4 * (sz div 4)) (slabel E s S) t"
    using vec_stores_run [of 0 sz p E s a n S] assms by auto
  have v: "sval E t a = p" "slabel E t S = slabel E s S" using assms(2-4) kept_sval [OF t(3)] kept_label [OF t(3)] by auto
  have e: "sz div 4 * 4 + sz mod 4 = sz" by simp
  obtain u where u: "run_ds E t (label_stores n a S (sz mod 4) (sz div 4 * 4)) = Some u" "tmps_kept n t u"
      "set_cells t (p + 4 * of_nat (sz div 4 * 4)) (sz mod 4) (slabel E s S) u"
    using label_stores_run [of "sz div 4 * 4" "sz mod 4" p E t a n S] assms v unfolding e by auto
  have "set_cells s p (4 * (sz div 4) + sz mod 4) (slabel E s S) u"
    by (rule set_cells_add [OF t(4)]) (use u(3) in \<open>simp add: mult.commute\<close>)
  then have c: "set_cells s p sz (slabel E s S) u" by simp
  have "ShadowVecSize = 4" by (simp add: ShadowVecSize_def ShadowWidth_def)
  then have "store_code n a S sz = cs @ label_stores n a S (sz mod 4) (sz div 4 * 4)"
    using True t(1) unfolding store_code_def by simp
  then show ?thesis using t(2) u(1) c tmps_kept_trans [OF t(3) u(2)] by (simp add: run_ds_append)
next
  case False
  then show ?thesis using label_stores_run [of 0 sz p E s a n S] assms by (simp add: store_code_def)
qed

text \<open>The code at a place, in the order in which it was inserted there.\<close>

definition inserted_at :: "dfsf \<Rightarrow> dplace \<Rightarrow> dcode list" where
  "inserted_at F pos = concat (map snd (filter (\<lambda>(p, cs). p = pos) (insertions F)))"

lemma code_at_emit [simp]: "inserted_at (insert_code F pos cs k) pos' = inserted_at F pos' @ (if pos' = pos then cs else [])"
  by (simp add: inserted_at_def)

definition new_code :: "dfsf \<Rightarrow> dfsf \<Rightarrow> dplace \<Rightarrow> dcode list" where
  "new_code F F1 pos = concat (map snd (filter (\<lambda>(p, cs). p = pos) (drop (length (insertions F)) (insertions F1))))"

lemma new_code_emit [simp]:
  "new_code F (insert_code F pos cs k) pos' = (if pos' = pos then cs else [])"
  "new_code F (insert_code (insert_code F pos cs k) pos1 cs1 k1) pos' = (if pos' = pos then cs else []) @ (if pos' = pos1 then cs1 else [])"
  "new_code F F pos' = []"
  by (simp_all add: new_code_def insert_code_def)

lemma shadow_cells:
  assumes "app_range a n"
  shows "\<forall>i<n. cell_ok (shadow_for a + 4 * of_nat i)"
  using app_range_nth [OF assms] by (simp add: cell_ok_app)

lemma mask_x86: "ShadowPtrMask D = Some (NOT 0x700000000000) \<Longrightarrow> push_bit 2 (a AND mask_of D E) = shadow_for a"
  by (simp add: mask_of_def shadow_for_def shadow_on_def ShadowMask_def Mapping_x86_64_def)

lemma zero_label: "slabel E s ZeroShadow = 0"
  by (simp add: ZeroShadow_def slabel_def)

lemma store_shadow_run:
  assumes "ShadowPtrMask D = Some (NOT 0x700000000000)" "alloca_slot F a = None" "below (nextTmp F) S"
    "app_range (d_val E a) sz" "sz < 2 ^ 64"
  shows "\<exists>t. run_ds E s (new_code F (storeShadow D F a sz S pos) pos) = Some t \<and> tmps_kept (nextTmp F) s t \<and>
    dfsan_set_label (d_rt s) (slabel E s S) (d_val E a) (of_nat sz) = Some (d_rt t)"
proof -
  obtain v F1 where g: "getShadowAddress D F (SVal a) pos = (v, F1)" by force
  obtain cs k t where t: "F1 = insert_code F pos cs k" "run_ds E s cs = Some t" "tmps_kept (nextTmp F) s t" "below (nextTmp F1) v"
      "d_rt t = d_rt s" "sval E t v = shadow_for (d_val E a)"
    using shadow_address_run [OF g, of E s] mask_x86 [OF assms(1)] by auto
  have u: "unat (of_nat sz :: u64) = sz" using assms(5) by (simp add: unat_of_nat)
  have set: "dfsan_set_label (d_rt s) (slabel E s S) (d_val E a) (of_nat sz) = Some (d_rt w)"
    if "set_cells t (shadow_for (d_val E a)) sz (slabel E s S) w" for w
    using that shadow_cells [OF assms(4)] unfolding set_cells_def t(5)
    by (simp add: dfsan_set_label_def set_label_loop_eq u)
  have l: "slabel E t S = slabel E s S" by (rule kept_label [OF t(3) assms(3)])
  show ?thesis
  proof (cases "S = ZeroShadow")
    case True
    let ?w = "t\<lparr>d_rt := (d_rt t)\<lparr>shadow := (\<lambda>c. if in_range 4 (shadow_for (d_val E a)) sz c then 0 else shadow (d_rt t) c)\<rparr>\<rparr>"
    have "new_code F (storeShadow D F a sz S pos) pos = cs @ [DStoreZeros sz v]"
      using True g assms(2) unfolding t(1) by (simp add: storeShadow_def)
    moreover have "run_ds E t [DStoreZeros sz v] = Some ?w"
      using store_cells_same [OF shadow_cells [OF assms(4)], of "d_rt t" 0] t(6) by (simp add: on_rt_def)
    moreover have "set_cells t (shadow_for (d_val E a)) sz (slabel E s S) ?w"
      using True l by (simp add: set_cells_def zero_label)
    ultimately show ?thesis using t(2,3) set by (simp add: run_ds_append)
  next
    case False
    have n: "nextTmp F \<le> nextTmp F1" using t(1) by simp
    obtain w where w: "run_ds E t (store_code (nextTmp F1) v S sz) = Some w" "tmps_kept (nextTmp F1) t w"
        "set_cells t (shadow_for (d_val E a)) sz (slabel E t S) w"
      using store_code_run [OF shadow_cells [OF assms(4)] t(6,4) below_mono [OF assms(3) n]] by blast
    have "new_code F (storeShadow D F a sz S pos) pos = cs @ store_code (nextTmp F1) v S sz"
      using False g assms(2) unfolding t(1) by (simp add: storeShadow_def)
    then show ?thesis using t(2) w(1) set [of w] w(3) l tmps_kept_trans [OF t(3) kept_less [OF w(2) n]] by (simp add: run_ds_append)
  qed
qed
section \<open>Loads\<close>

definition pair64 :: "u32 \<Rightarrow> u32 \<Rightarrow> u64" where
  "pair64 h l = push_bit 32 (ucast h) OR ucast l"

lemma pair64_low: "ucast (pair64 h l) = l"
  unfolding pair64_def by (rule bit_word_eqI) (auto simp: bit_simps)

lemma pair64_high: "ucast (drop_bit 32 (pair64 h l)) = h"
  unfolding pair64_def by (rule bit_word_eqI) (auto simp: bit_simps dest: bit_imp_le_length)

lemma pair64_inj: "pair64 h l = pair64 h' l' \<longleftrightarrow> h = h' \<and> l = l'"
  using pair64_low pair64_high by metis

lemma pair64_rotate: "push_bit 32 (pair64 h l) OR drop_bit 32 (pair64 h l) = pair64 l h"
  unfolding pair64_def by (rule bit_word_eqI) (auto simp: bit_simps dest: bit_imp_le_length)

lemma wide_pair: "wide_at t p = pair64 (shadow t (p + 4)) (shadow t p)"
  by (simp add: wide_at_def pair64_def)

lemma wide_first_run:
  assumes "cell_ok p" "cell_ok (p + 4)" "sval E s a = p"
  shows "\<exists>t. run_ds E s (fst (wide_steps n a pairs ! 0)) = Some t \<and> tmps_kept n s t \<and> d_rt t = d_rt s \<and>
    d_tmp t n = wide_at (d_rt s) p \<and> d_tmp t (n + 1) = ucast (shadow (d_rt s) p) \<and>
    d_tmp t (n + 5) = (if shadow (d_rt s) p = shadow (d_rt s) (p + 4) then 1 else 0)"
proof -
  let ?w = "wide_at (d_rt s) p" and ?x = "shadow (d_rt s) p" and ?y = "shadow (d_rt s) (p + 4)"
  have w: "push_bit 32 ?w OR drop_bit 32 ?w = pair64 ?x ?y" "?w = pair64 ?x ?y \<longleftrightarrow> ?x = ?y" "ucast ?w = ?x"
    by (auto simp: wide_pair pair64_rotate pair64_inj pair64_low)
  let ?t = "set_d (set_d (set_d (set_d (set_d (set_d s n ?w) (n + 1) (ucast ?x)) (n + 2) (push_bit 32 ?w)) (n + 3) (drop_bit 32 ?w))
      (n + 4) (pair64 ?x ?y)) (n + 5) (if ?x = ?y then 1 else 0)"
  have "run_ds E s (fst (wide_steps n a pairs ! 0)) = Some ?t"
    using assms(1-3) by (simp add: wide_steps_def ShadowWidth_def slabel_def w)
  then show ?thesis by (simp add: tmps_kept_refl)
qed

text \<open>The remaining comparisons, from the pair \<open>i\<close> on.\<close>

lemma wide_rest_run:
  assumes "\<forall>j<pairs. cell_ok (p + 8 * of_nat j) \<and> cell_ok (p + 8 * of_nat j + 4)" "below n a" "1 \<le> i"
    "sval E s (if i = 1 then a else STmp (n + 3 * i)) = p + 8 * of_nat (i - 1)" "d_tmp s n = wide_at (d_rt s) p"
  shows "\<exists>t. run_chain E s (drop i (wide_steps n a pairs)) =
      Some (\<forall>j. i \<le> j \<and> j < pairs \<longrightarrow> wide_at (d_rt s) (p + 8 * of_nat j) = wide_at (d_rt s) p, t) \<and>
    tmps_kept (n + 2) s t \<and> d_rt t = d_rt s"
  using assms
proof (induction "pairs - i" arbitrary: i s)
  case 0
  then have "drop i (wide_steps n a pairs) = []" by (simp add: wide_steps_def)
  then show ?case using 0 by (auto simp: tmps_kept_refl)
next
  case (Suc k)
  then have i: "i < pairs" by simp
  let ?a = "if i = 1 then a else STmp (n + 3 * i)" and ?q = "p + 8 * of_nat i"
  let ?cs = "[DGep (n + 3 + 3 * i) ?a 8, DLoadWide (n + 4 + 3 * i) (STmp (n + 3 + 3 * i)),
      DEq (n + 5 + 3 * i) (STmp n) (STmp (n + 4 + 3 * i))]"
  have d: "drop i (wide_steps n a pairs) = (?cs, STmp (n + 5 + 3 * i)) # drop (Suc i) (wide_steps n a pairs)"
  proof -
    have "length (wide_steps n a pairs) = pairs" using i by (simp add: wide_steps_def)
    moreover have "wide_steps n a pairs ! i = (?cs, STmp (n + 5 + 3 * i))"
      using i Suc.prems(3) by (simp add: wide_steps_def nth_Cons')
    ultimately show ?thesis using Cons_nth_drop_Suc [of i "wide_steps n a pairs"] i by simp
  qed
  have "p + 8 * of_nat (i - 1) + 8 = ?q" using Suc.prems(3) by (cases i) (simp_all add: algebra_simps)
  then have q: "sval E s ?a + 8 = ?q" unfolding Suc.prems(4) .
  have c: "cell_ok ?q" "cell_ok (?q + 4)" using Suc.prems(1) i by auto
  let ?t = "set_d (set_d (set_d s (n + 3 + 3 * i) ?q) (n + 4 + 3 * i) (wide_at (d_rt s) ?q))
      (n + 5 + 3 * i) (if wide_at (d_rt s) p = wide_at (d_rt s) ?q then 1 else 0)"
  have r: "run_ds E s ?cs = Some ?t" using Suc.prems(5) c q by simp
  have k: "tmps_kept (n + 2) s ?t" using Suc.prems(3) by (simp add: tmps_kept_refl)
  show ?case
  proof (cases "wide_at (d_rt s) p = wide_at (d_rt s) ?q")
    case True
    have m: "sval E ?t (if Suc i = 1 then a else STmp (n + 3 * Suc i)) = p + 8 * of_nat (Suc i - 1)" "1 \<le> Suc i"
      using Suc.prems(3) by simp_all
    have w: "d_tmp ?t n = wide_at (d_rt ?t) p" using Suc.prems(5) by simp
    have h: "k = pairs - Suc i" using Suc.hyps(2) by simp
    have rt: "d_rt ?t = d_rt s" by simp
    obtain t where t: "run_chain E ?t (drop (Suc i) (wide_steps n a pairs)) =
          Some (\<forall>j. Suc i \<le> j \<and> j < pairs \<longrightarrow> wide_at (d_rt s) (p + 8 * of_nat j) = wide_at (d_rt s) p, t)"
        "tmps_kept (n + 2) ?t t" "d_rt t = d_rt s"
      using Suc.hyps(1) [OF h Suc.prems(1,2) m(2,1) w] unfolding rt by blast
    have "(\<forall>j. i \<le> j \<and> j < pairs \<longrightarrow> wide_at (d_rt s) (p + 8 * of_nat j) = wide_at (d_rt s) p) \<longleftrightarrow>
        (\<forall>j. Suc i \<le> j \<and> j < pairs \<longrightarrow> wide_at (d_rt s) (p + 8 * of_nat j) = wide_at (d_rt s) p)"
      using True by (metis Suc_leD Suc_leI le_neq_implies_less)
    then show ?thesis unfolding d run_chain.simps r using True t tmps_kept_trans [OF k t(2)] by simp
  next
    case False
    then show ?thesis unfolding d run_chain.simps r using i k by auto
  qed
qed
lemma pairs_equal:
  assumes "0 < pairs"
  shows "(shadow t p = shadow t (p + 4) \<and> (\<forall>j. 1 \<le> j \<and> j < pairs \<longrightarrow> wide_at t (p + 8 * of_nat j) = wide_at t p)) \<longleftrightarrow>
    (\<forall>i<2 * pairs. shadow t (p + 4 * of_nat i) = shadow t p)" (is "?L \<longleftrightarrow> ?R")
proof
  assume L: ?L
  show ?R
  proof (intro allI impI)
    fix i assume i: "i < 2 * pairs"
    have w: "wide_at t (p + 8 * of_nat (i div 2)) = wide_at t p" 
    proof (cases "i div 2 = 0")
      case False
      have "i div 2 < pairs" using i by (simp add: less_mult_imp_div_less mult.commute)
      then show ?thesis using L False by simp
    qed simp
    then have h: "shadow t (p + 8 * of_nat (i div 2)) = shadow t p" "shadow t (p + 8 * of_nat (i div 2) + 4) = shadow t (p + 4)"
      by (auto simp: wide_pair pair64_inj)
    have "i = 2 * (i div 2) \<or> i = Suc (2 * (i div 2))" by linarith
    then show "shadow t (p + 4 * of_nat i) = shadow t p"
    proof
      assume "i = 2 * (i div 2)"
      then have "(of_nat i :: u64) = 2 * of_nat (i div 2)" by (metis of_nat_mult of_nat_numeral)
      then show ?thesis using h(1) by simp
    next
      assume "i = Suc (2 * (i div 2))"
      then have "(of_nat i :: u64) = 1 + 2 * of_nat (i div 2)" by (metis of_nat_mult of_nat_numeral of_nat_Suc)
      then have "p + 4 * of_nat i = p + 8 * of_nat (i div 2) + 4" by (simp add: algebra_simps)
      then show ?thesis using h(2) L by metis
    qed
  qed
next
  assume R: ?R
  have e: "shadow t (p + 8 * of_nat j) = shadow t p" "shadow t (p + 8 * of_nat j + 4) = shadow t p" if "j < pairs" for j
    using R [rule_format, of "2 * j"] R [rule_format, of "Suc (2 * j)"] that by (simp_all add: algebra_simps)
  then show ?L using assms e [of 0] by (auto simp: wide_pair)
qed

text \<open>The result of running code that computes a label: as the runtime operation does.\<close>

definition computes :: "denv \<Rightarrow> dexec \<Rightarrow> nat \<Rightarrow> dcode list \<Rightarrow> sv \<Rightarrow> (u32 \<times> rt) option \<Rightarrow> bool" where
  "computes E s n cs v x =
     (case x of
        None \<Rightarrow> run_ds E s cs = None
      | Some (l, t') \<Rightarrow> \<exists>t. run_ds E s cs = Some t \<and> tmps_kept n s t \<and> d_rt t = t' \<and> slabel E t v = l)"

lemma computes_after:
  assumes "run_ds E s cs = Some t" "tmps_kept n s t" "n \<le> m" "computes E t m ds v x"
  shows "computes E s n (cs @ ds) v x"
  using assms tmps_kept_trans [OF assms(2)] kept_less [OF _ assms(3)]
  by (auto simp: computes_def run_ds_append split: option.splits)

lemma union_load_computes:
  "computes E s n [DUnionLoad n a (SImm (of_nat sz))] (STmp n) (dfsan_union_load (d_rt s) (sval E s a) (of_nat sz))"
  by (auto simp: computes_def set_label_d_def tmps_kept_refl split: option.splits)

lemma chain_computes:
  assumes "\<forall>i<2 * pairs. cell_ok (p + 4 * of_nat i)" "0 < pairs" "sval E s a = p" "below n a"
  shows "computes E s n [DChain (n + 4 + 3 * pairs) (wide_steps n a pairs) [DUnionLoad (n + 3 + 3 * pairs) a (SImm c)]
      (STmp (n + 3 + 3 * pairs)) (STmp (n + 1))] (STmp (n + 4 + 3 * pairs))
    (if \<forall>i<2 * pairs. shadow (d_rt s) (p + 4 * of_nat i) = shadow (d_rt s) p then Some (shadow (d_rt s) p, d_rt s)
     else dfsan_union_load (d_rt s) p c)"
proof -
  have c: "\<forall>j<pairs. cell_ok (p + 8 * of_nat j) \<and> cell_ok (p + 8 * of_nat j + 4)"
  proof (intro allI impI)
    fix j assume "j < pairs"
    then show "cell_ok (p + 8 * of_nat j) \<and> cell_ok (p + 8 * of_nat j + 4)"
      using assms(1) [rule_format, of "2 * j"] assms(1) [rule_format, of "Suc (2 * j)"] by (simp add: algebra_simps)
  qed
  obtain t where t: "run_ds E s (fst (wide_steps n a pairs ! 0)) = Some t" "tmps_kept n s t" "d_rt t = d_rt s"
      "d_tmp t n = wide_at (d_rt s) p" "d_tmp t (n + 1) = ucast (shadow (d_rt s) p)"
      "d_tmp t (n + 5) = (if shadow (d_rt s) p = shadow (d_rt s) (p + 4) then 1 else 0)"
    using wide_first_run [of p E s a n pairs] c [rule_format, of 0] assms(2,3) by auto
  have st: "wide_steps n a pairs = (fst (wide_steps n a pairs ! 0), STmp (n + 5)) # drop 1 (wide_steps n a pairs)"
    by (simp add: wide_steps_def)
  obtain u where u: "run_chain E t (drop 1 (wide_steps n a pairs)) =
      Some (\<forall>j. 1 \<le> j \<and> j < pairs \<longrightarrow> wide_at (d_rt s) (p + 8 * of_nat j) = wide_at (d_rt s) p, u)"
      "tmps_kept (n + 2) t u" "d_rt u = d_rt s"
    using wide_rest_run [OF c assms(4), of 1 E t] t(2-4) assms(3) kept_sval [OF t(2) assms(4)] by auto
  define all where "all \<longleftrightarrow> (\<forall>i<2 * pairs. shadow (d_rt s) (p + 4 * of_nat i) = shadow (d_rt s) p)"
  obtain w where w: "run_chain E s (wide_steps n a pairs) = Some (all, w)" "tmps_kept n s w" "d_rt w = d_rt s"
      "d_tmp w (n + 1) = ucast (shadow (d_rt s) p)"
  proof (cases "shadow (d_rt s) p = shadow (d_rt s) (p + 4)")
    case True
    then have "run_chain E s (wide_steps n a pairs) = Some (all, u)"
      using pairs_equal [OF assms(2), of "d_rt s" p] u(1) t(1,6) unfolding all_def by (subst st) simp
    moreover have "tmps_kept n s u" by (rule tmps_kept_trans [OF t(2) kept_less [OF u(2)]]) simp
    moreover have "d_tmp u (n + 1) = ucast (shadow (d_rt s) p)" using u(2) t(5) by (simp add: tmps_kept_def)
    ultimately show ?thesis using that u(3) by blast
  next
    case False
    then have "run_chain E s (wide_steps n a pairs) = Some (all, t)"
      using pairs_equal [OF assms(2), of "d_rt s" p] t(1,6) unfolding all_def by (subst st) auto
    then show ?thesis using that t(2,3,5) by blast
  qed
  have "sval E w a = p" using kept_sval [OF w(2) assms(4)] assms(3) by simp
  then show ?thesis using w unfolding all_def [symmetric]
    by (auto simp: computes_def set_label_d_def slabel_def split: option.splits)
qed
text \<open>What a load of labels computes: the label itself when the bytes have the same one and they are compared, else the
  runtime's union.\<close>

definition loaded :: "dfsf \<Rightarrow> rt \<Rightarrow> u64 \<Rightarrow> nat \<Rightarrow> (u32 \<times> rt) option" where
  "loaded F t a sz =
     (if (sz = 1 \<or> \<not> AvoidNewBlocks F \<and> even sz) \<and> (\<forall>i < sz. label_at t (a + of_nat i) = label_at t a) then Some (label_at t a, t)
      else dfsan_union_load t (shadow_for a) (of_nat sz))"

lemma load_shadow_run:
  assumes "ShadowPtrMask D = Some (NOT 0x700000000000)" "alloca_slot F a = None"
    "\<not> list_all isConstantObject (GetUnderlyingObjects D a)" "0 < sz" "app_range (d_val E a) sz"
    "loadShadow D F a sz pos = (v, F1)"
  shows "computes E s (nextTmp F) (new_code F F1 pos) v (loaded F (d_rt s) (d_val E a) sz)"
proof -
  let ?p = "shadow_for (d_val E a)"
  obtain v0 F0 where g: "getShadowAddress D F (SVal a) pos = (v0, F0)" by force
  obtain cs k t where t: "F0 = insert_code F pos cs k" "run_ds E s cs = Some t" "tmps_kept (nextTmp F) s t" "below (nextTmp F0) v0"
      "d_rt t = d_rt s" "sval E t v0 = ?p"
    using shadow_address_run [OF g, of E s] mask_x86 [OF assms(1)] by auto
  have n: "nextTmp F \<le> nextTmp F0" "AvoidNewBlocks F0 = AvoidNewBlocks F" using t(1) by simp_all
  note after = computes_after [OF t(2,3) n(1)]
  have lab: "shadow (d_rt s) (?p + 4 * of_nat i) = label_at (d_rt s) (d_val E a + of_nat i)" if "i < sz" for i
    using app_range_nth(3) [OF assms(5) that] by (simp add: label_at_def)
  have first: "shadow (d_rt s) ?p = label_at (d_rt s) (d_val E a)" by (simp add: label_at_def)
  consider (one) "sz = 1" | (pairs) m where "sz = 2 * m" "0 < m" "\<not> AvoidNewBlocks F"
    | (call) "sz \<noteq> 1" "\<not> (\<not> AvoidNewBlocks F \<and> even sz)"
    using assms(4) by (metis evenE mult_pos_pos zero_less_mult_pos zero_less_numeral)
  then show ?thesis
  proof cases
    case one
    have "v = STmp (nextTmp F0)" "new_code F F1 pos = cs @ [DLoadLabel (nextTmp F0) v0]"
      using assms(2,3,6) g one unfolding t(1) by (auto simp: loadShadow_def Let_def)
    moreover have "computes E t (nextTmp F0) [DLoadLabel (nextTmp F0) v0] (STmp (nextTmp F0)) (loaded F (d_rt s) (d_val E a) sz)"
      using shadow_cells [OF assms(5)] one t(5,6) first by (simp add: computes_def loaded_def tmps_kept_refl slabel_def)
    ultimately show ?thesis using after by simp
  next
    case (pairs m)
    let ?n = "nextTmp F0"
    have "\<forall>i<2 * m. cell_ok (?p + 4 * of_nat i)" using shadow_cells [OF assms(5)] pairs(1) by simp
    from chain_computes [OF this pairs(2) t(6,4), of "of_nat sz"]
    have "computes E t ?n [DChain (?n + 4 + 3 * m) (wide_steps ?n v0 m) [DUnionLoad (?n + 3 + 3 * m) v0 (SImm (of_nat sz))]
        (STmp (?n + 3 + 3 * m)) (STmp (?n + 1))] (STmp (?n + 4 + 3 * m)) (loaded F (d_rt s) (d_val E a) sz)"
      unfolding t(5) loaded_def using pairs lab first by (simp cong: if_cong)
    moreover have "v = STmp (?n + 4 + 3 * m)" "new_code F F1 pos = cs @ [DChain (?n + 4 + 3 * m) (wide_steps ?n v0 m)
        [DUnionLoad (?n + 3 + 3 * m) v0 (SImm (of_nat sz))] (STmp (?n + 3 + 3 * m)) (STmp (?n + 1))]"
      using assms(2,3,6) g pairs n(2) unfolding t(1) by (auto simp: loadShadow_def Let_def ShadowWidth_def)
    ultimately show ?thesis using after by simp
  next
    case call
    have "v = STmp (nextTmp F0)" "new_code F F1 pos = cs @ [DUnionLoad (nextTmp F0) v0 (SImm (of_nat sz))]"
      using assms(2,3,4,6) g call n(2) unfolding t(1) by (auto simp: loadShadow_def Let_def ShadowWidth_def split: if_splits)
    moreover have "loaded F (d_rt s) (d_val E a) sz = dfsan_union_load (d_rt t) (sval E t v0) (of_nat sz)"
      using call t(5,6) by (auto simp: loaded_def)
    ultimately show ?thesis using after union_load_computes by simp
  qed
qed
section \<open>Combined shadows\<close>

text \<open>The sources a shadow stands for: the elements recorded for it, or itself; the constant zero stands for nothing.\<close>

definition sources :: "dfsf \<Rightarrow> sv \<Rightarrow> sv set" where
  "sources F V = (if V = ZeroShadow then {} else set (elements_of F V))"

text \<open>The invariant of the two tables: results are numbered below the next number, zero has no elements and is never
  an element, and a cached combination stands for the sources of its two parts.\<close>

definition cache_ok :: "dfsf \<Rightarrow> bool" where
  "cache_ok F \<longleftrightarrow>
     (\<forall>(V, Es) \<in> set (ShadowElements F). V \<noteq> ZeroShadow \<and> below (nextTmp F) V \<and> (\<forall>e \<in> set Es. e \<noteq> ZeroShadow \<and> below (nextTmp F) e)) \<and>
     (\<forall>((V1, V2), b, V) \<in> set (CachedCombinedShadows F). V1 \<noteq> ZeroShadow \<and> V2 \<noteq> ZeroShadow \<and> V \<noteq> ZeroShadow \<and>
        below (nextTmp F) V1 \<and> below (nextTmp F) V2 \<and> below (nextTmp F) V \<and> sources F V = sources F V1 \<union> sources F V2)"

text \<open>A later state: shadows that existed keep their sources.\<close>

definition later_state :: "dfsf \<Rightarrow> dfsf \<Rightarrow> bool" where
  "later_state F F1 \<longleftrightarrow> nextTmp F \<le> nextTmp F1 \<and> (\<forall>V. below (nextTmp F) V \<longrightarrow> sources F1 V = sources F V)"

lemma later_state_refl [simp]: "later_state F F"
  by (simp add: later_state_def)

lemma later_state_trans: "later_state F G \<Longrightarrow> later_state G H \<Longrightarrow> later_state F H"
  using below_mono by (fastforce simp: later_state_def)

lemma sources_emit [simp]: "sources (insert_code F pos cs k) V = sources F V" "elements_of (insert_code F pos cs k) V = elements_of F V"
  by (simp_all add: sources_def elements_of_def)

lemma cache_ok_emit: "cache_ok F \<Longrightarrow> cache_ok (insert_code F pos cs k)"
  unfolding cache_ok_def using below_mono [of "nextTmp F" _ "nextTmp F + k"] by (fastforce simp del: below_simps)

lemma covering_sources: "covering F V1 V2 = Some V \<Longrightarrow> V1 \<noteq> ZeroShadow \<Longrightarrow> V2 \<noteq> ZeroShadow \<Longrightarrow>
    V \<in> {V1, V2} \<and> sources F V = sources F V1 \<union> sources F V2"
  by (auto simp: covering_def sources_def elements_of_def split: option.splits if_splits)

lemma cache_okD:
  assumes "cache_ok F" "((V1, V2), b, V) \<in> set (CachedCombinedShadows F)"
  shows "V1 \<noteq> ZeroShadow \<and> V2 \<noteq> ZeroShadow \<and> V \<noteq> ZeroShadow \<and> below (nextTmp F) V1 \<and> below (nextTmp F) V2 \<and>
    below (nextTmp F) V \<and> sources F V = sources F V1 \<union> sources F V2"
  using bspec [OF assms(1) [unfolded cache_ok_def, THEN conjunct2] assms(2)] by simp

lemma cached_sources:
  assumes "cached F V1 V2 = Some (b, V)" "cache_ok F"
  shows "V \<noteq> ZeroShadow \<and> below (nextTmp F) V \<and> sources F V = sources F V1 \<union> sources F V2"
proof -
  have "((V1, V2), b, V) \<in> set (CachedCombinedShadows F) \<or> ((V2, V1), b, V) \<in> set (CachedCombinedShadows F)"
    using assms(1) by (auto simp: cached_def dest: map_of_SomeD split: option.splits)
  then show ?thesis using cache_okD [OF assms(2)] by (auto simp: Un_commute)
qed

lemma combine_new_sources:
  assumes "combine_new F V1 V2 Pos = (V, F1)" "cache_ok F" "below (nextTmp F) V1" "below (nextTmp F) V2"
    "V1 \<noteq> ZeroShadow" "V2 \<noteq> ZeroShadow"
  shows "cache_ok F1 \<and> later_state F F1 \<and> below (nextTmp F1) V \<and> V \<noteq> ZeroShadow \<and> sources F1 V = sources F V1 \<union> sources F V2"
proof -
  obtain v G where u: "union_code F V1 V2 (Before (i_id Pos)) = (v, G)" by force
  obtain cs k where G: "G = insert_code F (Before (i_id Pos)) cs k" "below (nextTmp G) v" "nextTmp F \<le> nextTmp G"
    using union_code_run [OF u assms(3,4)] by blast
  have v: "v \<noteq> ZeroShadow" "\<not> below (nextTmp F) v"
    using u by (auto simp: union_code_def Let_def ZeroShadow_def split: if_splits)
  have F1: "V = v" "F1 = G\<lparr>CachedCombinedShadows := ((V1, V2), i_parent Pos, v) #
        filter (\<lambda>(k, _). k \<noteq> (V1, V2) \<and> k \<noteq> (V2, V1)) (CachedCombinedShadows G),
      ShadowElements := (v, elements_of G V1 @ elements_of G V2) # ShadowElements G\<rparr>"
    using assms(1) u by (auto simp: combine_new_def)
  have old: "sources F1 W = sources F W" if "below (nextTmp F) W" for W
  proof -
    have "W \<noteq> v" using v(2) that by auto
    then show ?thesis using F1(2) G(1) by (simp add: sources_def elements_of_def)
  qed
  have new: "sources F1 V = sources F V1 \<union> sources F V2"
    using F1 G(1) v(1) assms(5,6) by (simp add: sources_def elements_of_def)
  have els: "e \<noteq> ZeroShadow \<and> below (nextTmp F) e" if "e \<in> set (elements_of F W)" "W \<noteq> ZeroShadow" "below (nextTmp F) W" for e W
    using that assms(2) by (force simp: elements_of_def cache_ok_def split: option.splits dest!: map_of_SomeD)
  have n: "nextTmp F1 = nextTmp G" using F1(2) by simp
  have up: "below (nextTmp F1) W" if "below (nextTmp F) W" for W using below_mono [OF that G(3)] n by simp
  have "cache_ok F1"
    unfolding cache_ok_def
  proof (intro conjI ballI)
    fix x assume "x \<in> set (ShadowElements F1)"
    then have "x = (v, elements_of F V1 @ elements_of F V2) \<or> x \<in> set (ShadowElements F)" using F1(2) G(1) by auto
    then show "case x of (V, Es) \<Rightarrow> V \<noteq> ZeroShadow \<and> below (nextTmp F1) V \<and> (\<forall>e\<in>set Es. e \<noteq> ZeroShadow \<and> below (nextTmp F1) e)"
    proof
      assume "x = (v, elements_of F V1 @ elements_of F V2)"
      then show ?thesis using els [OF _ assms(5,3)] els [OF _ assms(6,4)] up v(1) G(2) n by auto
    next
      assume "x \<in> set (ShadowElements F)"
      then have "case x of (V, Es) \<Rightarrow> V \<noteq> ZeroShadow \<and> below (nextTmp F) V \<and> (\<forall>e\<in>set Es. e \<noteq> ZeroShadow \<and> below (nextTmp F) e)"
        using assms(2) unfolding cache_ok_def by blast
      then show ?thesis using up by (cases x) auto
    qed
  next
    fix x assume x: "x \<in> set (CachedCombinedShadows F1)"
    obtain W1 W2 b W where xe: "x = ((W1, W2), b, W)" by (cases x) auto
    from x have "x = ((V1, V2), i_parent Pos, v) \<or> x \<in> set (CachedCombinedShadows F)" using F1(2) G(1) by auto
    then show "(\<lambda>((V1, V2), b, V). V1 \<noteq> ZeroShadow \<and> V2 \<noteq> ZeroShadow \<and> V \<noteq> ZeroShadow \<and> below (nextTmp F1) V1 \<and>
        below (nextTmp F1) V2 \<and> below (nextTmp F1) V \<and> sources F1 V = sources F1 V1 \<union> sources F1 V2) x"
    proof
      assume "x = ((V1, V2), i_parent Pos, v)"
      then show ?thesis using assms(3-6) v(1) up G(2) n old new F1(1) by simp
    next
      assume "x \<in> set (CachedCombinedShadows F)"
      then have "W1 \<noteq> ZeroShadow \<and> W2 \<noteq> ZeroShadow \<and> W \<noteq> ZeroShadow \<and> below (nextTmp F) W1 \<and> below (nextTmp F) W2 \<and>
          below (nextTmp F) W \<and> sources F W = sources F W1 \<union> sources F W2"
        using cache_okD [OF assms(2)] xe by simp
      then show ?thesis using xe up old by simp
    qed
  qed
  then show ?thesis using old new n G(2,3) v(1) F1(1) by (simp add: later_state_def)
qed

lemma combine_shadows_sources:
  assumes "combineShadows D F V1 V2 Pos = (V, F1)" "cache_ok F" "below (nextTmp F) V1" "below (nextTmp F) V2"
  shows "cache_ok F1 \<and> later_state F F1 \<and> below (nextTmp F1) V \<and> sources F1 V = sources F V1 \<union> sources F V2"
proof -
  define G where "G = insert_code F (Before (i_id Pos)) (side_calls D (i_op Pos) V1 V2) 0"
  have G: "cache_ok G" "later_state F G" "below (nextTmp G) V1" "below (nextTmp G) V2" "\<And>W. sources G W = sources F W"
    using cache_ok_emit [OF assms(2)] assms(3,4) by (simp_all add: later_state_def G_def)
  have z: "sources F ZeroShadow = {}" by (simp add: sources_def)
  have c: "combineShadows D F V1 V2 Pos =
     (if V1 = ZeroShadow then (V2, G) else if V2 = ZeroShadow then (V1, G) else if V1 = V2 then (V1, G)
      else case covering G V1 V2 of
             Some V \<Rightarrow> (V, G)
           | None \<Rightarrow>
             (case cached G V1 V2 of
                Some (Block, Shadow) \<Rightarrow> if dominates D Block (i_parent Pos) then (Shadow, G) else combine_new G V1 V2 Pos
              | None \<Rightarrow> combine_new G V1 V2 Pos))"
    unfolding combineShadows_def G_def Let_def ..
  consider (trivial) "V1 = ZeroShadow \<or> V2 = ZeroShadow \<or> V1 = V2"
    | (cover) "V1 \<noteq> ZeroShadow" "V2 \<noteq> ZeroShadow" "covering G V1 V2 = Some V" "F1 = G"
    | (cache) b where "cached G V1 V2 = Some (b, V)" "F1 = G"
    | (fresh) "V1 \<noteq> ZeroShadow" "V2 \<noteq> ZeroShadow" "combine_new G V1 V2 Pos = (V, F1)"
  proof (cases "V1 = ZeroShadow \<or> V2 = ZeroShadow \<or> V1 = V2")
    case False
    then have c': "(case covering G V1 V2 of Some V \<Rightarrow> (V, G)
           | None \<Rightarrow> (case cached G V1 V2 of
                Some (Block, Shadow) \<Rightarrow> if dominates D Block (i_parent Pos) then (Shadow, G) else combine_new G V1 V2 Pos
              | None \<Rightarrow> combine_new G V1 V2 Pos)) = (V, F1)"
      using assms(1) unfolding c by (simp only: de_Morgan_disj if_False)
    show thesis
    proof (cases "covering G V1 V2")
      case (Some W)
      then have "V = W" "F1 = G" using c' by simp_all
      then show ?thesis using that(2) False Some by blast
    next
      case None
      then have "(case cached G V1 V2 of
                Some (Block, Shadow) \<Rightarrow> if dominates D Block (i_parent Pos) then (Shadow, G) else combine_new G V1 V2 Pos
              | None \<Rightarrow> combine_new G V1 V2 Pos) = (V, F1)" using c' by simp
      then have "F1 = G \<and> (\<exists>b. cached G V1 V2 = Some (b, V)) \<or> combine_new G V1 V2 Pos = (V, F1)"
        by (cases "cached G V1 V2") (auto split: if_splits)
      then show ?thesis using False that(3,4) by blast
    qed
  qed (rule that(1))
  then show ?thesis
  proof cases
    case trivial
    then have "F1 = G" "V = (if V1 = ZeroShadow then V2 else V1)" using assms(1) unfolding c by (auto split: if_splits)
    then show ?thesis using trivial G z by auto
  next
    case cover
    then show ?thesis using covering_sources [OF cover(3,1,2)] G by auto
  next
    case cache
    then show ?thesis using cached_sources [OF cache(1) G(1)] G by auto
  next
    case fresh
    then show ?thesis using combine_new_sources [OF fresh(3) G(1,3,4) fresh(1,2)] later_state_trans [OF G(2)] G(5) by auto
  qed
qed

section \<open>Properties of inserted code\<close>

text \<open>The pass and the runtime agree on where labels are.  For every target that the pass accepts, the code it inserts
  for an address computes the address of the label cell that the runtime for that target uses, and does nothing else; on
  aarch64 the runtime provides the mask.\<close>

theorem shadow_address_agrees:
  assumes "doInitialization T = Some (ShadowPtrMask D)" "runs_on T A" "ShadowPtrMask D = None \<longrightarrow> d_mask E = ShadowMask A"
  shows "\<exists>v F1 t. getShadowAddress D F (SVal a) pos = (v, F1) \<and> run_ds E s (new_code F F1 pos) = Some t \<and>
    sval E t v = shadow_on A (d_val E a) \<and> d_rt t = d_rt s"
proof -
  have m: "mask_of D E = ShadowMask A"
    using assms(1) [symmetric] assms(2,3) by (cases T) (auto simp: mask_of_def ShadowMask_def Mapping_x86_64_def Mapping_mips64_def)
  obtain v F1 where g: "getShadowAddress D F (SVal a) pos = (v, F1)" by force
  then show ?thesis using shadow_address_run [OF g, of E s] by (auto simp: m shadow_on_def)
qed

text \<open>A pass for x86-64 with the default options, for a function without wrapped functions.\<close>

definition sample_dfs :: dfs where
  "sample_dfs = \<lparr>SCL = (\<lambda>_ _ _. False), ModuleId = ''m'', ClArgsABI = False, ClCombinePointerLabelsOnLoad = True,
     ClCombinePointerLabelsOnStore = False, ClDebugNonzeroLabels = False, ShadowPtrMask = Some (NOT 0x700000000000), UnwrappedFnMap = [],
     fn_name = (\<lambda>_. []), fn_type = (\<lambda>_. \<lparr>ret_type = VoidT, params = [], isVarArg = False\<rparr>), fn_isIntrinsic = (\<lambda>_. False),
     DFSanVarargWrapperFn = 99, val_type = (\<lambda>_. IntT 32), getTypeStoreSize = (\<lambda>_. 4), GetUnderlyingObjects = (\<lambda>v. [v]),
     dominates = (\<le>)\<rparr>"

definition sample_fn :: dfsf where
  "sample_fn = DFSanFunction_new False 1 2 0"

definition dfs_env :: denv where
  "dfs_env = \<lparr>d_val = (\<lambda>v. case v of VArg 0 \<Rightarrow> 0x7fffffffe000 | _ \<Rightarrow> 3), d_slot_addr = (\<lambda>_. 0), d_mask = 0,
     d_custom = (\<lambda>_ _ s. Some (0, s)), d_call = (\<lambda>_ _ s. Some (0, s)), d_field = (\<lambda>_ x. x)\<rparr>"

definition sample_exec :: dexec where
  "sample_exec = \<lparr>d_tmp = (\<lambda>_. 0), d_rt = rt_start (\<lambda>_. 0), d_arg_tls = (\<lambda>_. 0), d_retval_tls = 0, d_slot = (\<lambda>_ _. 0), d_result = None\<rparr>"

theorem shadow_address_agrees_witness:
  "\<exists>v F1 t. getShadowAddress sample_dfs sample_fn (SVal (VArg 0)) (Before 0) = (v, F1) \<and>
     run_ds dfs_env sample_exec (new_code sample_fn F1 (Before 0)) = Some t \<and> sval dfs_env t v = shadow_for 0x7fffffffe000"
proof -
  have "doInitialization Triple_x86_64 = Some (ShadowPtrMask sample_dfs)" "runs_on Triple_x86_64 x86_64"
    "ShadowPtrMask sample_dfs = None \<longrightarrow> d_mask dfs_env = ShadowMask x86_64" by (simp_all add: sample_dfs_def)
  from shadow_address_agrees [OF this, of sample_fn "VArg 0" "Before 0" sample_exec] show ?thesis
    unfolding shadow_for_def by (fastforce simp: dfs_env_def)
qed

text \<open>C19. A store labels its bytes.  The code inserted before a store of \<open>sz\<close> bytes to application memory, whether it writes
  one wide zero, vectors of four labels or single labels, has the effect of \<open>dfsan_set_label\<close> on exactly these bytes with
  the label of the stored value.\<close>

theorem store_code_sets_label:
  assumes "ShadowPtrMask D = Some (NOT 0x700000000000)" "alloca_slot F a = None" "below (nextTmp F) S"
    "app_range (d_val E a) sz"
  shows "\<exists>t. run_ds E s (new_code F (storeShadow D F a sz S pos) pos) = Some t \<and>
    dfsan_set_label (d_rt s) (slabel E s S) (d_val E a) (of_nat sz) = Some (d_rt t) \<and>
    (\<forall>p. app p \<longrightarrow> label_at (d_rt t) p = (if in_bytes (d_val E a) sz p then slabel E s S else label_at (d_rt s) p))"
proof -
  have b: "sz < 2 ^ 64" using assms(4) by (simp add: app_range_def)
  have u: "unat (of_nat sz :: u64) = sz" using b by (simp add: unat_of_nat)
  obtain t where t: "run_ds E s (new_code F (storeShadow D F a sz S pos) pos) = Some t"
      "dfsan_set_label (d_rt s) (slabel E s S) (d_val E a) (of_nat sz) = Some (d_rt t)"
    using store_shadow_run [OF assms b] by blast
  moreover have "app_range (d_val E a) (unat (of_nat sz :: u64))" using assms(4) u by simp
  ultimately show ?thesis using set_label_app [of "d_val E a" "of_nat sz" "d_rt s" "slabel E s S"] u by auto
qed

theorem store_code_sets_label_witness:
  "\<exists>t. run_ds dfs_env sample_exec (new_code sample_fn (storeShadow sample_dfs sample_fn (VArg 0) 6 (SVal (VArg 1)) (Before 0)) (Before 0)) = Some t \<and>
     label_at (d_rt t) 0x7fffffffe005 = 3 \<and> label_at (d_rt t) 0x7fffffffe006 = 0"
proof -
  have "app_range (d_val dfs_env (VArg 0)) 6" by (simp add: dfs_env_def app_range_def app_unat)
  then obtain t where t: "run_ds dfs_env sample_exec
        (new_code sample_fn (storeShadow sample_dfs sample_fn (VArg 0) 6 (SVal (VArg 1)) (Before 0)) (Before 0)) = Some t"
      "\<forall>p. app p \<longrightarrow> label_at (d_rt t) p = (if in_bytes (d_val dfs_env (VArg 0)) 6 p then slabel dfs_env sample_exec (SVal (VArg 1))
         else label_at (d_rt sample_exec) p)"
    using store_code_sets_label [of sample_dfs sample_fn "VArg 0" "SVal (VArg 1)" dfs_env 6 sample_exec "Before 0"]
    by (auto simp: sample_dfs_def sample_fn_def DFSanFunction_new_def)
  have a: "app 0x7fffffffe005" "app 0x7fffffffe006" by (simp_all add: app_unat)
  show ?thesis using t(1) t(2) [rule_format, OF a(1)] t(2) [rule_format, OF a(2)]
    by (auto simp: in_bytes_def dfs_env_def sample_exec_def slabel_def label_at_def rt_start_def)
qed

text \<open>C18. A load combines the labels of its bytes.  The code inserted before a load from application memory computes what
  \<open>__dfsan_union_load\<close> computes from the label cells of the bytes; only when the bytes are compared, two labels at a time,
  and all have the same label, that label is taken without a call and without a change of the label store.\<close>

theorem load_code_combines_labels:
  assumes "ShadowPtrMask D = Some (NOT 0x700000000000)" "alloca_slot F a = None"
    "\<not> list_all isConstantObject (GetUnderlyingObjects D a)" "0 < sz" "app_range (d_val E a) sz"
    "loadShadow D F a sz pos = (v, F1)"
  shows "case (if (sz = 1 \<or> \<not> AvoidNewBlocks F \<and> even sz) \<and>
                  (\<forall>i < sz. label_at (d_rt s) (d_val E a + of_nat i) = label_at (d_rt s) (d_val E a))
               then Some (label_at (d_rt s) (d_val E a), d_rt s)
               else dfsan_union_load (d_rt s) (shadow_for (d_val E a)) (of_nat sz)) of
      None \<Rightarrow> run_ds E s (new_code F F1 pos) = None
    | Some (l, r) \<Rightarrow> \<exists>t. run_ds E s (new_code F F1 pos) = Some t \<and> d_rt t = r \<and> slabel E t v = l"
  unfolding loaded_def [symmetric] using load_shadow_run [OF assms, of s] by (auto simp: computes_def split: option.splits)

theorem load_code_combines_labels_witness:
  "\<exists>v F1 t. loadShadow sample_dfs sample_fn (VArg 0) 4 (Before 0) = (v, F1) \<and>
     run_ds dfs_env sample_exec (new_code sample_fn F1 (Before 0)) = Some t \<and> slabel dfs_env t v = 0"
proof -
  obtain v F1 where l: "loadShadow sample_dfs sample_fn (VArg 0) 4 (Before 0) = (v, F1)" by force
  have "app_range (d_val dfs_env (VArg 0)) 4" by (simp add: dfs_env_def app_range_def app_unat)
  moreover have "(\<forall>i < 4. label_at (d_rt sample_exec) (d_val dfs_env (VArg 0) + of_nat i) = label_at (d_rt sample_exec) (d_val dfs_env (VArg 0)))"
    "label_at (d_rt sample_exec) (d_val dfs_env (VArg 0)) = 0"
    by (simp_all add: sample_exec_def label_at_def rt_start_def)
  ultimately show ?thesis
    using load_code_combines_labels [of sample_dfs sample_fn "VArg 0" 4 dfs_env "Before 0" v F1 sample_exec] l
    by (auto simp: sample_dfs_def sample_fn_def DFSanFunction_new_def)
qed
end
