(* ===== verification/Dfsan_Flow.thy ===== *)
theory Dfsan_Flow
  imports Dfsan_Emit
begin

text \<open>
  The flow of labels through a function, as the pass builds it: which sources the shadow of every value stands for.  Each
  visitor keeps the invariant of the tables and the shadows that are settled, so that after the whole function the shadow of
  every instruction that computes with its operands stands for the sources of all of them.
\<close>

section \<open>Steps of the pass\<close>

definition fn_ok :: "dfsf \<Rightarrow> bool" where
  "fn_ok F \<longleftrightarrow> cache_ok F \<and> (\<forall>(v, S) \<in> set (ValShadowMap F). below (nextTmp F) S)"

text \<open>A value has its final shadow when asking for it changes nothing.\<close>

definition settled :: "dfs \<Rightarrow> dfsf \<Rightarrow> dval \<Rightarrow> sv \<Rightarrow> bool" where
  "settled D F v S \<longleftrightarrow> getShadow D F v = (S, F)"

definition step :: "dfs \<Rightarrow> dfsf \<Rightarrow> dfsf \<Rightarrow> bool" where
  "step D F G \<longleftrightarrow> fn_ok G \<and> later_state F G \<and> IsNativeABI G = IsNativeABI F \<and> (\<forall>v S. settled D F v S \<longrightarrow> settled D G v S)"

lemma step_refl: "fn_ok F \<Longrightarrow> step D F F"
  by (simp add: step_def)

lemma step_trans: "step D F G \<Longrightarrow> step D G H \<Longrightarrow> step D F H"
  using later_state_trans by (auto simp: step_def)

lemma step_ok: "step D F G \<Longrightarrow> fn_ok G"
  by (simp add: step_def)

lemma step_below: "step D F G \<Longrightarrow> below (nextTmp F) V \<Longrightarrow> below (nextTmp G) V"
  using below_mono by (auto simp: step_def later_state_def)

lemma step_sources: "step D F G \<Longrightarrow> below (nextTmp F) V \<Longrightarrow> sources G V = sources F V"
  by (simp add: step_def later_state_def)

text \<open>Changes that concern neither shadows nor the tables.\<close>

definition quiet :: "dfsf \<Rightarrow> dfsf \<Rightarrow> bool" where
  "quiet F G \<longleftrightarrow> ValShadowMap G = ValShadowMap F \<and> ShadowElements G = ShadowElements F \<and>
     CachedCombinedShadows G = CachedCombinedShadows F \<and> IsNativeABI G = IsNativeABI F \<and> nextTmp F \<le> nextTmp G"

lemma cache_ok_quiet:
  assumes "quiet F G" "cache_ok F"
  shows "cache_ok G \<and> (\<forall>V. sources G V = sources F V)"
proof -
  have s: "sources G V = sources F V" for V using assms(1) by (simp add: quiet_def sources_def elements_of_def)
  have b: "below (nextTmp G) V" if "below (nextTmp F) V" for V using below_mono [OF that] assms(1) by (simp add: quiet_def)
  have "cache_ok G" using assms b unfolding cache_ok_def quiet_def s
    by (simp only:) (rule conjI; rule ballI; drule conjunct1 conjunct2; force simp del: below_simps)
  then show ?thesis using s by blast
qed

lemma settled_iff:
  "settled D F v S \<longleftrightarrow> map_of (ValShadowMap F) v = Some S \<or>
     map_of (ValShadowMap F) v = None \<and> S = ZeroShadow \<and> (case v of VArg i \<Rightarrow> IsNativeABI F | VInst i \<Rightarrow> False | _ \<Rightarrow> True)"
proof -
  have l: "F \<noteq> note_shadow F1 w T\<lparr>NonZeroChecks := x\<rparr>" "note_shadow F1 w T\<lparr>NonZeroChecks := x\<rparr> \<noteq> F" "F \<noteq> note_shadow F w T"
      "note_shadow F w T \<noteq> F"
    if "ValShadowMap F1 = ValShadowMap F" for F1 w T x
  proof -
    have "length (ValShadowMap (note_shadow F1 w T\<lparr>NonZeroChecks := x\<rparr>)) \<noteq> length (ValShadowMap F)"
      "length (ValShadowMap (note_shadow F w T)) \<noteq> length (ValShadowMap F)"
      using that by (simp_all add: note_shadow_def)
    then show "F \<noteq> note_shadow F1 w T\<lparr>NonZeroChecks := x\<rparr>" "note_shadow F1 w T\<lparr>NonZeroChecks := x\<rparr> \<noteq> F" "F \<noteq> note_shadow F w T"
      "note_shadow F w T \<noteq> F" by metis+
  qed
  show ?thesis
    by (cases "map_of (ValShadowMap F) v")
      (auto simp: settled_def getShadow_def Let_def getArgTLS_def l split: dval.splits InstrumentedABI.splits)
qed

lemma quiet_step:
  assumes "quiet F G" "fn_ok F"
  shows "step D F G"
proof -
  have c: "cache_ok G" "\<And>V. sources G V = sources F V" using cache_ok_quiet [OF assms(1)] assms(2) by (auto simp: fn_ok_def)
  have "fn_ok G" using c(1) assms below_mono unfolding fn_ok_def quiet_def by fastforce
  moreover have "settled D G v S" if "settled D F v S" for v S using that assms(1) by (cases v) (auto simp: settled_iff quiet_def)
  ultimately show ?thesis using c(2) assms(1) by (auto simp: step_def later_state_def quiet_def)
qed

lemma quiet_emit [simp]: "quiet F (insert_code F pos cs k)"
  by (simp add: quiet_def)

lemma quiet_refl [simp]: "quiet F F"
  by (simp add: quiet_def)

section \<open>Shadows and their combinations\<close>

lemma note_step:
  assumes "fn_ok F" "map_of (ValShadowMap F) v = None" "below (nextTmp F) S" "\<not> settled D F v ZeroShadow"
  shows "step D F (note_shadow F v S)" "settled D (note_shadow F v S) v S"
proof -
  let ?G = "note_shadow F v S"
  have "sources ?G V = sources F V" for V by (simp add: note_shadow_def sources_def elements_of_def)
  moreover from this have "cache_ok ?G" using assms(1) by (simp add: fn_ok_def cache_ok_def note_shadow_def)
  then have "fn_ok ?G" using assms(1,3) by (simp add: fn_ok_def note_shadow_def)
  moreover have "settled D ?G w T" if "settled D F w T" for w T
  proof -
    have "w \<noteq> v" using that assms(2,4) by (auto simp: settled_iff)
    then show ?thesis using that by (cases w) (auto simp: settled_iff note_shadow_def)
  qed
  ultimately show "step D F ?G" by (simp add: step_def later_state_def note_shadow_def)
  show "settled D ?G v S" by (simp add: settled_iff note_shadow_def)
qed

lemma get_shadow_step:
  assumes "getShadow D F v = (S, G)" "fn_ok F"
  shows "step D F G \<and> below (nextTmp G) S \<and> settled D G v S"
proof (cases "settled D F v S \<and> G = F")
  case True
  then have "below (nextTmp F) S"
    using assms(2) by (auto simp: settled_iff fn_ok_def ZeroShadow_def dest!: map_of_SomeD)
  then show ?thesis using True step_refl [OF assms(2)] by simp
next
  case False
  then have n: "map_of (ValShadowMap F) v = None" using assms(1) by (auto simp: settled_def getShadow_def split: option.splits)
  have ns: "\<not> settled D F v ZeroShadow" using False assms(1) by (auto simp: settled_def)
  show ?thesis
  proof (cases v)
    case (VInst i)
    then have "S = ZeroShadow" "G = note_shadow F v ZeroShadow" using assms(1) n by (simp_all add: getShadow_def)
    then show ?thesis using note_step [OF assms(2) n _ ns, of ZeroShadow] by (simp add: ZeroShadow_def note_shadow_def)
  next
    case (VArg i)
    then have "\<not> IsNativeABI F" using ns n by (simp add: settled_iff)
    then obtain F1 where F1: "quiet F F1" "below (nextTmp F1) S" "G = note_nonzero (note_shadow F1 v S) S"
    proof (cases "IA D")
      case IA_Args
      then show ?thesis using assms(1) n VArg \<open>\<not> IsNativeABI F\<close> by (intro that [of F]) (auto simp: getShadow_def Let_def note_nonzero_def)
    next
      case IA_TLS
      then show ?thesis using assms(1) n VArg \<open>\<not> IsNativeABI F\<close>
        by (intro that [of "snd (getArgTLS F i)"]) (auto simp: getShadow_def Let_def getArgTLS_def note_nonzero_def)
    qed
    have st: "step D F F1" by (rule quiet_step [OF F1(1) assms(2)])
    have n1: "map_of (ValShadowMap F1) v = None" using n F1(1) by (simp add: quiet_def)
    moreover have "\<not> settled D F1 v ZeroShadow" using ns F1(1) n by (auto simp: settled_iff quiet_def VArg)
    ultimately have m: "step D F1 (note_shadow F1 v S)" "settled D (note_shadow F1 v S) v S"
      using note_step [OF step_ok [OF st] _ F1(2)] by blast+
    have q: "quiet (note_shadow F1 v S) G" using F1(3) by (simp add: quiet_def note_nonzero_def)
    have s3: "step D (note_shadow F1 v S) G" by (rule quiet_step [OF q step_ok [OF m(1)]])
    have "step D F G" by (rule step_trans [OF st step_trans [OF m(1) s3]])
    moreover have "settled D G v S" using s3 m(2) by (simp add: step_def)
    moreover have "below (nextTmp G) S" using F1(2,3) by (simp add: note_nonzero_def note_shadow_def)
    ultimately show ?thesis by blast
  qed (use False assms(1) n in \<open>auto simp: settled_iff getShadow_def\<close>)
qed

lemma combine_shadows_step:
  assumes "combineShadows D F V1 V2 Pos = (V, G)" "fn_ok F" "below (nextTmp F) V1" "below (nextTmp F) V2"
  shows "step D F G \<and> below (nextTmp G) V \<and> sources G V = sources F V1 \<union> sources F V2"
proof -
  have c: "cache_ok G \<and> later_state F G \<and> below (nextTmp G) V \<and> sources G V = sources F V1 \<union> sources F V2"
    using combine_shadows_sources [OF assms(1) _ assms(3,4)] assms(2) by (simp add: fn_ok_def)
  have v: "ValShadowMap G = ValShadowMap F \<and> IsNativeABI G = IsNativeABI F"
    using assms(1) by (auto simp: combineShadows_def combine_new_def union_code_def Let_def split: option.splits if_splits)
  then have "fn_ok G" using c assms(2) below_mono unfolding fn_ok_def later_state_def by fastforce
  moreover have "settled D G w S" if "settled D F w S" for w S using that v by (cases w) (auto simp: settled_iff)
  ultimately show ?thesis using c v by (auto simp: step_def)
qed

text \<open>The shadows of a list of values, and what they stand for together.\<close>

definition shadows :: "dfs \<Rightarrow> dfsf \<Rightarrow> dval list \<Rightarrow> sv set \<Rightarrow> bool" where
  "shadows D F vs X \<longleftrightarrow> (\<exists>Ss. list_all2 (\<lambda>v S. settled D F v S \<and> below (nextTmp F) S) vs Ss \<and> X = (\<Union>S\<in>set Ss. sources F S))"

lemma shadows_step: "shadows D F vs X \<Longrightarrow> step D F G \<Longrightarrow> shadows D G vs X"
proof -
  assume "shadows D F vs X" and st: "step D F G"
  then obtain Ss where Ss: "list_all2 (\<lambda>v S. settled D F v S \<and> below (nextTmp F) S) vs Ss" "X = (\<Union>S\<in>set Ss. sources F S)"
    by (auto simp: shadows_def)
  have "list_all2 (\<lambda>v S. settled D G v S \<and> below (nextTmp G) S) vs Ss"
    using Ss(1) st step_below by (auto elim!: list_all2_mono simp: step_def)
  moreover have "sources G S = sources F S" if "S \<in> set Ss" for S
  proof -
    have "below (nextTmp F) S" using Ss(1) that by (auto simp: list_all2_conv_all_nth in_set_conv_nth)
    then show ?thesis using step_sources [OF st] by simp
  qed
  ultimately show ?thesis using Ss(2) unfolding shadows_def by (intro exI [of _ Ss]) auto
qed

lemma shadows_Cons:
  assumes "settled D G v S" "below (nextTmp G) S" "shadows D G vs X"
  shows "shadows D G (v # vs) (sources G S \<union> X)"
proof -
  obtain Ss where "list_all2 (\<lambda>v S. settled D G v S \<and> below (nextTmp G) S) vs Ss" "X = (\<Union>S\<in>set Ss. sources G S)"
    using assms(3) by (auto simp: shadows_def)
  then show ?thesis using assms(1,2) unfolding shadows_def by (intro exI [of _ "S # Ss"]) auto
qed

lemma combine_operands_step:
  assumes "combine_operands D F V vs I = (W, G)" "fn_ok F" "below (nextTmp F) V"
  shows "step D F G \<and> below (nextTmp G) W \<and> (\<exists>X. shadows D G vs X \<and> sources G W = sources F V \<union> X)"
  using assms
proof (induction D F V vs I arbitrary: W G rule: combine_operands.induct)
  case (1 D F V I)
  then show ?case using step_refl by (auto simp: shadows_def)
next
  case (2 D F V v vs I)
  obtain S F1 where g: "getShadow D F v = (S, F1)" by force
  have 1: "step D F F1" "below (nextTmp F1) S" "settled D F1 v S" using get_shadow_step [OF g "2.prems"(2)] by auto
  have bV: "below (nextTmp F1) V" by (rule step_below [OF 1(1) "2.prems"(3)])
  obtain V1 F2 where c: "combineShadows D F1 V S I = (V1, F2)" by force
  have 2: "step D F1 F2" "below (nextTmp F2) V1" "sources F2 V1 = sources F1 V \<union> sources F1 S"
    using combine_shadows_step [OF c step_ok [OF 1(1)] bV 1(2)] by auto
  have r: "combine_operands D F2 V1 vs I = (W, G)" using "2.prems"(1) g c by simp
  obtain X where 3: "step D F2 G" "below (nextTmp G) W" "shadows D G vs X" "sources G W = sources F2 V1 \<union> X"
    using "2.IH" [OF g [symmetric] refl c [symmetric] refl r step_ok [OF 2(1)] 2(2)] by auto
  have "step D F1 G" by (rule step_trans [OF 2(1) 3(1)])
  moreover from this have s: "settled D G v S" "below (nextTmp G) S" "sources G S = sources F1 S"
    using 1(2,3) step_below step_sources by (auto simp: step_def)
  moreover have "shadows D G (v # vs) (sources G S \<union> X)" by (rule shadows_Cons [OF s(1,2) 3(3)])
  ultimately show ?case using 3 2(3) step_trans [OF 1(1)] step_sources [OF 1(1) "2.prems"(3)] by (auto intro!: exI)
qed

lemma combine_operand_shadows_step:
  assumes "combineOperandShadows D F I = (W, G)" "fn_ok F"
  shows "step D F G \<and> below (nextTmp G) W \<and> shadows D G (op_values (i_op I)) (sources G W)"
proof (cases "op_values (i_op I)")
  case Nil
  then have "W = ZeroShadow" "G = F" using assms(1) by (simp_all add: combineOperandShadows_def)
  then show ?thesis using Nil step_refl [OF assms(2)] by (auto simp: shadows_def ZeroShadow_def sources_def)
next
  case (Cons v vs)
  obtain S F1 where g: "getShadow D F v = (S, F1)" by force
  have 1: "step D F F1" "below (nextTmp F1) S" "settled D F1 v S" using get_shadow_step [OF g assms(2)] by auto
  let ?F2 = "sext_call F1 S I"
  have q: "quiet F1 ?F2" by (simp add: sext_call_def split: dop.split bool.split)
  have 2: "step D F1 ?F2" by (rule quiet_step [OF q step_ok [OF 1(1)]])
  have r: "combine_operands D ?F2 S vs I = (W, G)" using assms(1) Cons g by (simp add: combineOperandShadows_def)
  obtain X where 3: "step D ?F2 G" "below (nextTmp G) W" "shadows D G vs X" "sources G W = sources ?F2 S \<union> X"
    using combine_operands_step [OF r step_ok [OF 2] step_below [OF 2 1(2)]] by blast
  have 4: "step D F1 G" by (rule step_trans [OF 2 3(1)])
  then have s: "settled D G v S" "below (nextTmp G) S" "sources G S = sources F1 S"
    using 1(2,3) step_below step_sources by (auto simp: step_def)
  have "shadows D G (v # vs) (sources G S \<union> X)" by (rule shadows_Cons [OF s(1,2) 3(3)])
  then show ?thesis using Cons 3(2,4) s(3) step_sources [OF 2 1(2)] step_trans [OF 1(1) 4] by simp
qed
section \<open>The visitors\<close>

lemma set_shadow_step:
  assumes "setShadow F i S = Some G" "fn_ok F" "below (nextTmp F) S"
  shows "step D F G \<and> settled D G (VInst i) S"
proof -
  have g: "G = note_shadow F (VInst i) S" "VInst i \<notin> fst ` set (ValShadowMap F)"
    using assms(1) by (auto simp: setShadow_def split: if_splits)
  then have n: "map_of (ValShadowMap F) (VInst i) = None" by (simp add: map_of_eq_None_iff)
  then have "\<not> settled D F (VInst i) ZeroShadow" by (simp add: settled_iff)
  then show ?thesis using note_step [OF assms(2) n assms(3)] g(1) by blast
qed

lemma zero_below [simp]: "below n ZeroShadow"
  by (simp add: ZeroShadow_def)

lemma quiet_trans: "quiet F G \<Longrightarrow> quiet G H \<Longrightarrow> quiet F H"
  by (auto simp: quiet_def)

lemma address_quiet: "getShadowAddress D F a pos = (v, G) \<Longrightarrow> quiet F G \<and> below (nextTmp G) v"
  by (auto simp: getShadowAddress_def Let_def split: option.splits)

lemma load_quiet: "loadShadow D F a sz pos = (v, G) \<Longrightarrow> quiet F G \<and> below (nextTmp G) v"
  by (auto simp: loadShadow_def Let_def split: option.splits if_splits prod.splits dest!: address_quiet intro: quiet_trans)

lemma store_quiet: "quiet F (storeShadow D F a sz S pos)"
  by (auto simp: storeShadow_def Let_def split: option.splits prod.splits dest!: address_quiet intro: quiet_trans)

lemma note_nonzero_quiet [simp]: "quiet F (note_nonzero F S)"
  by (simp add: quiet_def note_nonzero_def)

lemma step_quiet: "step D F G \<Longrightarrow> quiet G H \<Longrightarrow> step D F H"
  using step_trans quiet_step step_ok by blast

lemma operand_step:
  assumes "visitOperandShadowInst D F I = Some G" "fn_ok F"
  shows "step D F G \<and> (\<exists>S. settled D G (VInst (i_id I)) S \<and> shadows D G (op_values (i_op I)) (sources G S))"
proof -
  obtain W F1 where c: "combineOperandShadows D F I = (W, F1)" by force
  have 1: "step D F F1" "below (nextTmp F1) W" "shadows D F1 (op_values (i_op I)) (sources F1 W)"
    using combine_operand_shadows_step [OF c assms(2)] by auto
  have "setShadow F1 (i_id I) W = Some G" using assms(1) c by (simp add: visitOperandShadowInst_def)
  then have 2: "step D F1 G" "settled D G (VInst (i_id I)) W" using set_shadow_step step_ok [OF 1(1)] 1(2) by blast+
  show ?thesis using step_trans [OF 1(1) 2(1)] 2 shadows_step [OF 1(3) 2(1)] step_sources [OF 2(1) 1(2)] by auto
qed

text \<open>Asking for a shadow and combining it with another one, as loads and stores do with the pointer.\<close>

lemma pointer_step:
  assumes "getShadow D F ptr = (P, F1)" "combineShadows D F1 S P I = (V, G)" "fn_ok F" "below (nextTmp F) S"
  shows "step D F G \<and> below (nextTmp G) V \<and> settled D G ptr P \<and> sources G V = sources F S \<union> sources G P"
proof -
  have 1: "step D F F1" "below (nextTmp F1) P" "settled D F1 ptr P" using get_shadow_step [OF assms(1,3)] by auto
  have 2: "step D F1 G" "below (nextTmp G) V" "sources G V = sources F1 S \<union> sources F1 P"
    using combine_shadows_step [OF assms(2) step_ok [OF 1(1)] step_below [OF 1(1) assms(4)] 1(2)] by auto
  show ?thesis using step_trans [OF 1(1) 2(1)] 2 1 step_sources [OF 1(1) assms(4)] step_sources [OF 2(1) 1(2)]
    by (auto simp: step_def)
qed

lemma load_step:
  assumes "visitLoadInst D F LI ptr = Some G" "fn_ok F"
  shows "step D F G \<and> (\<exists>S. settled D G (VInst (i_id LI)) S \<and>
    (getTypeStoreSize D (i_type LI) \<noteq> 0 \<and> ClCombinePointerLabelsOnLoad D \<longrightarrow> (\<exists>P. settled D G ptr P \<and> sources G P \<subseteq> sources G S)))"
proof (cases "getTypeStoreSize D (i_type LI) = 0")
  case True
  then have "setShadow F (i_id LI) ZeroShadow = Some G" using assms(1) by (simp add: visitLoadInst_def)
  then show ?thesis using True set_shadow_step [OF _ assms(2), of "i_id LI" ZeroShadow] by auto
next
  case False
  obtain S F1 where l: "loadShadow D F ptr (getTypeStoreSize D (i_type LI)) (Before (i_id LI)) = (S, F1)" by force
  have 1: "step D F F1" "below (nextTmp F1) S" using load_quiet [OF l] quiet_step assms(2) by blast+
  obtain V F2 where V: "step D F1 F2" "below (nextTmp F2) V"
      "ClCombinePointerLabelsOnLoad D \<longrightarrow> (\<exists>P. settled D F2 ptr P \<and> sources F2 P \<subseteq> sources F2 V)"
      "setShadow (if V \<noteq> ZeroShadow then note_nonzero F2 V else F2) (i_id LI) V = Some G"
  proof (cases "ClCombinePointerLabelsOnLoad D")
    case True
    obtain P F' where g: "getShadow D F1 ptr = (P, F')" by force
    obtain V F2 where c: "combineShadows D F' S P LI = (V, F2)" by force
    have "setShadow (if V \<noteq> ZeroShadow then note_nonzero F2 V else F2) (i_id LI) V = Some G"
      using assms(1) False True l g c by (simp add: visitLoadInst_def Let_def)
    then show ?thesis using that [of F2 V] pointer_step [OF g c step_ok [OF 1(1)] 1(2)] by blast
  next
    case F: False
    then have "setShadow (if S \<noteq> ZeroShadow then note_nonzero F1 S else F1) (i_id LI) S = Some G"
      using assms(1) False l by (simp add: visitLoadInst_def Let_def)
    then show ?thesis using that [of F1 S] 1 F step_refl step_ok by blast
  qed
  let ?F3 = "if V \<noteq> ZeroShadow then note_nonzero F2 V else F2"
  have q: "step D F2 ?F3" using quiet_step [of F2 ?F3] step_ok [OF V(1)] by simp
  have 3: "step D ?F3 G" "settled D G (VInst (i_id LI)) V"
    using set_shadow_step [OF V(4) step_ok [OF q] step_below [OF q V(2)]] by auto
  have 4: "step D F2 G" by (rule step_trans [OF q 3(1)])
  have "\<exists>P. settled D G ptr P \<and> sources G P \<subseteq> sources G V" if C: "ClCombinePointerLabelsOnLoad D"
  proof -
    obtain P where P: "settled D F2 ptr P" "sources F2 P \<subseteq> sources F2 V" using V(3) C by blast
    have "below (nextTmp F2) P"
      using P(1) step_ok [OF V(1)] by (auto simp: settled_iff fn_ok_def dest!: map_of_SomeD)
    then have "sources G P \<subseteq> sources G V" using P(2) step_sources [OF 4] V(2) by blast
    then show ?thesis using P(1) 4 by (auto simp: step_def)
  qed
  then show ?thesis using 3(2) step_trans [OF 1(1) step_trans [OF V(1) 4]] by blast
qed

lemma store_step: "fn_ok F \<Longrightarrow> step D F (visitStoreInst D F SI val ptr)"
proof (cases "getTypeStoreSize D (val_type D val) = 0")
  case False
  assume ok: "fn_ok F"
  obtain S F1 where g: "getShadow D F val = (S, F1)" by force
  have 1: "step D F F1" "below (nextTmp F1) S" using get_shadow_step [OF g ok] by auto
  show ?thesis
  proof (cases "ClCombinePointerLabelsOnStore D")
    case True
    obtain P F' where p: "getShadow D F1 ptr = (P, F')" by force
    obtain V F2 where c: "combineShadows D F' S P SI = (V, F2)" by force
    have 2: "step D F1 F2" using pointer_step [OF p c step_ok [OF 1(1)] 1(2)] by blast
    show ?thesis using False True g p c step_quiet [OF step_trans [OF 1(1) 2] store_quiet] by (simp add: visitStoreInst_def Let_def)
  next
    case F: False
    then show ?thesis using False g step_quiet [OF 1(1) store_quiet] by (simp add: visitStoreInst_def Let_def)
  qed
qed (simp add: visitStoreInst_def step_refl)

lemma alloca_step: "visitAllocaInst insts F I = Some G \<Longrightarrow> fn_ok F \<Longrightarrow> step D F G"
proof -
  assume v: "visitAllocaInst insts F I = Some G" and ok: "fn_ok F"
  let ?F1 = "if AllLoadsStores insts (i_id I)
      then (insert_code F (Before (i_id I)) [DAlloca (next_slot F) 1] 0)\<lparr>AllocaShadowMap := (i_id I, next_slot F) # AllocaShadowMap F, next_slot := Suc (next_slot F)\<rparr>
      else F"
  have "quiet F ?F1" by (simp add: quiet_def)
  then have 1: "step D F ?F1" using quiet_step ok by blast
  have "setShadow ?F1 (i_id I) ZeroShadow = Some G" using v by (simp add: visitAllocaInst_def Let_def)
  then show ?thesis using set_shadow_step [OF _ step_ok [OF 1]] step_trans [OF 1] by (metis zero_below)
qed
lemma select_step:
  assumes "visitSelectInst D F I c t f = Some G" "fn_ok F"
  shows "step D F G"
proof -
  obtain C F1 where 1: "getShadow D F c = (C, F1)" by force
  obtain T F2 where 2: "getShadow D F1 t = (T, F2)" by force
  obtain N F3 where 3: "getShadow D F2 f = (N, F3)" by force
  have s1: "step D F F1" "below (nextTmp F1) C" using get_shadow_step [OF 1 assms(2)] by auto
  have s2: "step D F1 F2" "below (nextTmp F2) T" using get_shadow_step [OF 2 step_ok [OF s1(1)]] by auto
  have s3: "step D F2 F3" "below (nextTmp F3) N" using get_shadow_step [OF 3 step_ok [OF s2(1)]] by auto
  have st: "step D F F3" by (rule step_trans [OF s1(1) step_trans [OF s2(1) s3(1)]])
  have b: "below (nextTmp F3) C" "below (nextTmp F3) T"
    using step_below [OF step_trans [OF s2(1) s3(1)] s1(2)] step_below [OF s3(1) s2(2)] by auto
  obtain S F4 where S: "step D F3 F4" "below (nextTmp F4) S"
      "(let (S2, F5) = combineShadows D F4 C S I in setShadow F5 (i_id I) S2) = Some G"
  proof (cases "isVectorTy (val_type D c)")
    case True
    obtain S F4 where k: "combineShadows D F3 T N I = (S, F4)" by force
    have "step D F3 F4" "below (nextTmp F4) S" using combine_shadows_step [OF k step_ok [OF st] b(2) s3(2)] by auto
    then show ?thesis using that [of F4 S] assms(1) 1 2 3 k True by (simp add: visitSelectInst_def)
  next
    case False
    define F4 where "F4 = insert_code F3 (Before (i_id I)) [DSelect (nextTmp F3) (SVal c) T N] 1"
    show ?thesis
    proof (cases "T = N")
      case True
      then show ?thesis using that [of F3 T] assms(1) 1 2 3 False step_refl [OF step_ok [OF st]] b(2) by (simp add: visitSelectInst_def Let_def)
    next
      case N: False
      have "step D F3 F4" "below (nextTmp F4) (STmp (nextTmp F3))"
        using quiet_step [of F3 F4 D] step_ok [OF st] by (simp_all add: F4_def)
      then show ?thesis using that [of F4 "STmp (nextTmp F3)"] assms(1) 1 2 3 False N by (simp add: visitSelectInst_def F4_def Let_def)
    qed
  qed
  obtain S2 F5 where k: "combineShadows D F4 C S I = (S2, F5)" by force
  have 5: "step D F4 F5" "below (nextTmp F5) S2"
    using combine_shadows_step [OF k step_ok [OF S(1)] step_below [OF S(1) b(1)] S(2)] by auto
  have "setShadow F5 (i_id I) S2 = Some G" using S(3) k by simp
  then have "step D F5 G" using set_shadow_step step_ok [OF 5(1)] 5(2) by blast
  then show ?thesis using step_trans [OF st step_trans [OF S(1) step_trans [OF 5(1)]]] by blast
qed

lemma memset_step: "fn_ok F \<Longrightarrow> step D F (visitMemSetInst D F I d v n)"
  using get_shadow_step [of D F v] by (cases "getShadow D F v") (auto simp: visitMemSetInst_def intro: step_quiet)

lemma memtransfer_step: "fn_ok F \<Longrightarrow> step D F (visitMemTransferInst D F I d p n)"
proof -
  obtain v F1 where 1: "getShadowAddress D F (SVal d) (Before (i_id I)) = (v, F1)" by force
  obtain w F2 where 2: "getShadowAddress D F1 (SVal p) (Before (i_id I)) = (w, F2)" by force
  have "quiet F F2" using quiet_trans address_quiet [OF 1] address_quiet [OF 2] by blast
  then have "quiet F (visitMemTransferInst D F I d p n)"
    using 1 2 by (auto simp: visitMemTransferInst_def Let_def intro: quiet_trans)
  then show "fn_ok F \<Longrightarrow> step D F (visitMemTransferInst D F I d p n)" using quiet_step by blast
qed

lemma return_step: "fn_ok F \<Longrightarrow> step D F (visitReturnInst D F I v)"
proof (cases v)
  case (Some x)
  assume ok: "fn_ok F"
  obtain S F1 where g: "getShadow D F x = (S, F1)" by force
  have "step D F F1" using get_shadow_step [OF g ok] by blast
  then show ?thesis using Some g step_refl [OF ok]
    by (auto simp: visitReturnInst_def split: InstrumentedABI.split intro: step_quiet)
qed (simp add: visitReturnInst_def step_refl)

lemma phi_step: "visitPHINode F PN inc = Some G \<Longrightarrow> fn_ok F \<Longrightarrow> step D F G"
proof -
  assume v: "visitPHINode F PN inc = Some G" and ok: "fn_ok F"
  let ?F1 = "F\<lparr>nextTmp := Suc (nextTmp F), PHIFixups := PHIFixups F @ [(inc, nextTmp F)]\<rparr>"
  have "quiet F ?F1" by (simp add: quiet_def)
  then have 1: "step D F ?F1" using quiet_step ok by blast
  have s: "setShadow ?F1 (i_id PN) (STmp (nextTmp F)) = Some G" using v by (simp add: visitPHINode_def Let_def)
  show ?thesis using set_shadow_step [OF s step_ok [OF 1]] step_trans [OF 1] by simp
qed

lemma store_args_step: "fn_ok F \<Longrightarrow> step D F (store_args D F I i as)"
proof (induction as arbitrary: F i)
  case (Cons a as)
  obtain s F1 where g: "getShadow D F a = (s, F1)" by force
  have 1: "step D F (insert_code F1 (Before (i_id I)) [DStoreArg s i] 0)"
    using step_quiet [OF _ quiet_emit] get_shadow_step [OF g Cons.prems] by blast
  show ?case using g step_trans [OF 1 Cons.IH [OF step_ok [OF 1]]] by simp
qed (simp add: step_refl)

lemma store_va_step: "fn_ok F \<Longrightarrow> step D F (store_va D F I a n vs)"
proof (induction vs arbitrary: F n)
  case (Cons v vs)
  obtain s F1 where g: "getShadow D F v = (s, F1)" by force
  have 1: "step D F (insert_code F1 (Before (i_id I)) [DStoreSlot s a n] 0)"
    using step_quiet [OF _ quiet_emit] get_shadow_step [OF g Cons.prems] by blast
  show ?case using g step_trans [OF 1 Cons.IH [OF step_ok [OF 1]]] by simp
qed (simp add: step_refl)

lemma va_labels_step: "label_va D F I vs = (p, G) \<Longrightarrow> fn_ok F \<Longrightarrow> step D F G"
proof -
  assume v: "label_va D F I vs = (p, G)" and ok: "fn_ok F"
  let ?F1 = "(insert_code F EntryFront [DAlloca (next_slot F) (length vs)] 0)\<lparr>next_slot := Suc (next_slot F)\<rparr>"
  have "quiet F ?F1" by (simp add: quiet_def)
  then have 1: "step D F ?F1" using quiet_step ok by blast
  have 2: "step D ?F1 (store_va D ?F1 I (next_slot F) 0 vs)" by (rule store_va_step [OF step_ok [OF 1]])
  show ?thesis using v step_quiet [OF step_trans [OF 1 2]] by (auto simp: label_va_def Let_def)
qed

lemma shadows_of_step: "shadows_of D F vs = (ss, G) \<Longrightarrow> fn_ok F \<Longrightarrow> step D F G"
proof (induction vs arbitrary: F ss)
  case (Cons v vs)
  obtain s F1 where g: "getShadow D F v = (s, F1)" by force
  obtain ts F2 where h: "shadows_of D F1 vs = (ts, F2)" by force
  have 1: "step D F F1" using get_shadow_step [OF g Cons.prems(2)] by blast
  have h': "shadows_of D F1 vs = (ts, G)" using Cons.prems(1) g h by simp
  show ?case by (rule step_trans [OF 1 Cons.IH [OF h' step_ok [OF 1]]])
qed (simp add: step_refl)

lemma instrumented_call_step:
  assumes "instrumented_call D F I CS = Some G" "fn_ok F"
  shows "step D F G"
proof (cases "IA D")
  case IA_TLS
  let ?F1 = "store_args D F I 0 (take (length (params (calledType CS))) (callArgs CS))"
  have 1: "step D F ?F1" by (rule store_args_step [OF assms(2)])
  show ?thesis
  proof (cases "i_type I = VoidT")
    case True
    then show ?thesis using assms(1) IA_TLS 1 by (simp add: instrumented_call_def Let_def)
  next
    case False
    let ?r = "nextTmp ?F1"
    let ?F2 = "(insert_code ?F1 (After (i_id I)) [DLoadRet ?r] 1)\<lparr>SkipInsts := STmp ?r # SkipInsts (insert_code ?F1 (After (i_id I)) [DLoadRet ?r] 1)\<rparr>"
    obtain F3 where F3: "setShadow ?F2 (i_id I) (STmp ?r) = Some F3" "G = note_nonzero F3 (STmp ?r)"
      using assms(1) IA_TLS False by (auto simp: instrumented_call_def Let_def)
    have "quiet ?F1 ?F2" by (simp add: quiet_def)
    then have 2: "step D ?F1 ?F2" using quiet_step step_ok [OF 1] by blast
    have "below (nextTmp ?F2) (STmp ?r)" by simp
    then have 3: "step D ?F2 F3" using set_shadow_step [OF F3(1) step_ok [OF 2]] by blast
    show ?thesis unfolding F3(2) by (rule step_quiet [OF step_trans [OF 1 step_trans [OF 2 3]]]) simp
  qed
next
  case IA_Args
  let ?n = "length (params (calledType CS))"
  obtain ss F1 where s: "shadows_of D F (take ?n (callArgs CS)) = (ss, F1)" by force
  have 1: "step D F F1" by (rule shadows_of_step [OF s assms(2)])
  define va_F2 where "va_F2 = (if isVarArg (calledType CS)
      then let (p, F') = label_va D F1 I (drop ?n (callArgs CS)) in (p # map SVal (drop ?n (callArgs CS)), F') else ([], F1))"
  obtain va F2 where va: "va_F2 = (va, F2)" by force
  have 2: "step D F1 F2"
    using va va_labels_step [of D F1 I "drop ?n (callArgs CS)"] step_ok [OF 1] step_refl [OF step_ok [OF 1]]
    by (auto simp: va_F2_def split: if_splits prod.splits)
  let ?r = "nextTmp F2"
  define F3 where "F3 = insert_code F2 (InsteadOf (i_id I)) [DCallArgs ?r (SVal (calledValue CS)) (map SVal (take ?n (callArgs CS)) @ ss @ va)] 1"
  have 3: "step D F2 F3" using quiet_step step_ok [OF 2] by (simp add: F3_def)
  define F4 where "F4 = insert_code F3 (After (i_id I)) [DExtract (?r + 1) ?r 0, DExtract (?r + 2) ?r 1] 2"
  have G: "(if i_type I = VoidT then Some F3 else map_option (\<lambda>F5. note_nonzero F5 (STmp (?r + 2)))
      (setShadow (F4\<lparr>SkipInsts := STmp (?r + 1) # STmp (?r + 2) # SkipInsts F4\<rparr>) (i_id I) (STmp (?r + 2)))) = Some G"
    using assms(1) IA_Args s va unfolding instrumented_call_def Let_def va_F2_def F3_def F4_def by (simp only: InstrumentedABI.case prod.case)
  have st: "step D F F3" by (rule step_trans [OF 1 step_trans [OF 2 3]])
  show ?thesis
  proof (cases "i_type I = VoidT")
    case True
    then show ?thesis using G st by simp
  next
    case False
    let ?F4 = "F4\<lparr>SkipInsts := STmp (?r + 1) # STmp (?r + 2) # SkipInsts F4\<rparr>"
    obtain F5 where F5: "setShadow ?F4 (i_id I) (STmp (?r + 2)) = Some F5" "G = note_nonzero F5 (STmp (?r + 2))"
      using G False by auto
    have "quiet F3 ?F4" by (simp add: quiet_def F4_def)
    then have 4: "step D F3 ?F4" using quiet_step step_ok [OF st] by blast
    have "below (nextTmp ?F4) (STmp (?r + 2))" by (simp add: F4_def F3_def)
    then have 5: "step D ?F4 F5" using set_shadow_step [OF F5(1) step_ok [OF 4]] by blast
    show ?thesis unfolding F5(2) by (rule step_quiet [OF step_trans [OF st step_trans [OF 4 5]]]) simp
  qed
qed
lemma custom_args_quiet: "custom_args D F name k as = Some (Args, G) \<Longrightarrow> quiet F G"
proof (induction as arbitrary: F k Args)
  case (Cons a as)
  show ?case
  proof (cases "fun_pointee (val_type D a)")
    case None
    then show ?thesis using Cons by (auto simp: Option.bind_eq_Some_conv)
  next
    case (Some FT)
    then obtain T F1 Args' where t: "getOrBuildTrampolineFunction F FT (''dfst'' @ show_nat k @ ''$'' @ name) = Some (T, F1)"
        "custom_args D F1 name (Suc k) as = Some (Args', G)"
      using Cons.prems by (auto simp: Option.bind_eq_Some_conv)
    have "quiet F F1" using t(1) by (auto simp: getOrBuildTrampolineFunction_def quiet_def Option.bind_eq_Some_conv split: if_splits)
    then show ?thesis using quiet_trans Cons.IH [OF t(2)] by blast
  qed
qed simp

lemma return_alloca_quiet: "getLabelReturnAlloca F = (a, G) \<Longrightarrow> quiet F G"
  by (auto simp: getLabelReturnAlloca_def quiet_def Let_def split: option.splits)

lemma custom_call_args_step:
  assumes "custom_call_args D F I CS FT name = Some (Args, k, slot, G)" "fn_ok F"
  shows "step D F G"
proof -
  let ?n = "length (params FT)"
  obtain A F1 where a: "custom_args D F name 0 (take ?n (callArgs CS)) = Some (A, F1)"
    using assms(1) unfolding custom_call_args_def Let_def by (cases "custom_args D F name 0 (take ?n (callArgs CS))") auto
  have 1: "step D F F1" using quiet_step [OF custom_args_quiet [OF a] assms(2)] .
  obtain ss F2 where s: "shadows_of D F1 (take ?n (callArgs CS)) = (ss, F2)" by force
  have 2: "step D F1 F2" by (rule shadows_of_step [OF s step_ok [OF 1]])
  obtain p F' where v: "label_va D F2 I (drop ?n (callArgs CS)) = (p, F')" by force
  define F3 where "F3 = (if isVarArg FT then F' else F2)"
  have 3: "step D F2 F3" using va_labels_step [OF v step_ok [OF 2]] step_refl [OF step_ok [OF 2]] by (simp add: F3_def)
  obtain b F4 where r: "getLabelReturnAlloca F3 = (b, F4)" by force
  have 4: "step D F3 F4" using quiet_step [OF return_alloca_quiet [OF r] step_ok [OF 3]] .
  have "G = F3 \<or> G = insert_code F4 (Before (i_id I)) [DSlotPtr (nextTmp F4) b] 1"
    using assms(1) a s v r by (auto simp: custom_call_args_def F3_def Let_def split: if_splits prod.splits)
  then show ?thesis
    using step_trans [OF 1 step_trans [OF 2 3]] step_quiet [OF step_trans [OF 1 step_trans [OF 2 step_trans [OF 3 4]]] quiet_emit]
    by blast
qed

lemma custom_call_step:
  assumes "custom_call D F I CS f = Some G" "fn_ok F"
  shows "step D F G"
proof -
  let ?FT = "fn_type D f"
  obtain CF Args k slot F1 al where
    a: "custom_call_args D F I CS ?FT (fn_name D f) = Some (Args, k, slot, F1)" and
    g: "(case slot of
          Some a \<Rightarrow> setShadow (insert_code (insert_code F1 (InsteadOf (i_id I)) [DCallCustom (nextTmp F1) (''__dfsw_'' @ fn_name D f) (map fst Args)
              (add_zext k (length (params ?FT)) al)] 1) (InsteadOf (i_id I)) [DLoadSlot (nextTmp F1 + 1) a] 1) (i_id I) (STmp (nextTmp F1 + 1))
        | None \<Rightarrow> Some (insert_code F1 (InsteadOf (i_id I)) [DCallCustom (nextTmp F1) (''__dfsw_'' @ fn_name D f) (map fst Args)
              (add_zext k (length (params ?FT)) al)] 1)) = Some G"
    using assms(1) unfolding custom_call_def Let_def by (auto simp: Option.bind_eq_Some_conv simp del: emit_frame)
  have 1: "step D F F1" by (rule custom_call_args_step [OF a assms(2)])
  show ?thesis
  proof (cases slot)
    case None
    then show ?thesis using g step_quiet [OF 1] by auto
  next
    case (Some b)
    define F2 where "F2 = insert_code (insert_code F1 (InsteadOf (i_id I)) [DCallCustom (nextTmp F1) (''__dfsw_'' @ fn_name D f) (map fst Args)
        (add_zext k (length (params ?FT)) al)] 1) (InsteadOf (i_id I)) [DLoadSlot (nextTmp F1 + 1) b] 1"
    have "quiet F1 F2" by (simp add: F2_def quiet_def)
    then have 2: "step D F1 F2" using quiet_step step_ok [OF 1] by blast
    have "setShadow F2 (i_id I) (STmp (nextTmp F1 + 1)) = Some G" using g Some by (simp add: F2_def)
    moreover have "below (nextTmp F2) (STmp (nextTmp F1 + 1))" by (simp add: F2_def)
    ultimately have "step D F2 G" using set_shadow_step [OF _ step_ok [OF 2]] by blast
    then show ?thesis using step_trans [OF 1 step_trans [OF 2]] by blast
  qed
qed

lemma called_quiet [simp]: "quiet F (setCalledFunction F I f)"
  by (simp add: quiet_def setCalledFunction_def)

lemma call_step:
  assumes "visitCallSite D F I CS is_call = Some G" "fn_ok F"
  shows "step D F G"
proof -
  have z: "step D F G" if "setShadow F1 (i_id I) ZeroShadow = Some G" "quiet F F1" for F1
    using set_shadow_step [OF that(1) _ zero_below] quiet_step [OF that(2) assms(2)] step_ok step_trans by blast
  have o: "step D F G" if "visitOperandShadowInst D F1 I = Some G" "quiet F F1" for F1
    using operand_step [OF that(1)] quiet_step [OF that(2) assms(2)] step_ok step_trans by blast
  note i = instrumented_call_step [OF _ assms(2), of D I CS G]
  show ?thesis
  proof (cases "map_of (UnwrappedFnMap D) (calledValue CS)")
    case None
    then show ?thesis using assms(1) o [of F] i step_refl [OF assms(2)] by (auto simp: visitCallSite_def split: if_splits)
  next
    case (Some f)
    then show ?thesis
      using assms(1) o [of F] o [of "setCalledFunction F I f"] i step_refl [OF assms(2)] custom_call_step [OF _ assms(2), of D I CS f G]
        z [of "setCalledFunction F I f"] z [of "insert_code (setCalledFunction F I f) (Before (i_id I)) [DUnimplemented (fn_name D f)] 0"]
        quiet_trans [OF called_quiet quiet_emit]
      by (auto simp: visitCallSite_def split: if_splits WrapperKind.splits)
  qed
qed

lemma visit_step:
  assumes "visit D insts F I = Some G" "fn_ok F"
  shows "step D F G"
  using assms
  by (cases "i_op I") (auto simp: visit_def intro: operand_step [THEN conjunct1] load_step [THEN conjunct1] store_step alloca_step
      select_step memset_step memtransfer_step return_step call_step phi_step step_refl)

section \<open>Whole functions\<close>

lemma settled_below: "settled D F v S \<Longrightarrow> fn_ok F \<Longrightarrow> below (nextTmp F) S"
  by (auto simp: settled_iff fn_ok_def dest!: map_of_SomeD)

text \<open>The shadow of an instruction stands for exactly what the shadows of its operands stand for.\<close>

definition flows :: "dfs \<Rightarrow> dfsf \<Rightarrow> dinst \<Rightarrow> bool" where
  "flows D F I \<longleftrightarrow> (\<exists>S. settled D F (VInst (i_id I)) S \<and> shadows D F (op_values (i_op I)) (sources F S))"

lemma flows_step: "flows D F I \<Longrightarrow> fn_ok F \<Longrightarrow> step D F G \<Longrightarrow> flows D G I"
proof -
  assume "flows D F I" and ok: "fn_ok F" and st: "step D F G"
  then obtain S where S: "settled D F (VInst (i_id I)) S" "shadows D F (op_values (i_op I)) (sources F S)" by (auto simp: flows_def)
  have "sources G S = sources F S" by (rule step_sources [OF st settled_below [OF S(1) ok]])
  then have "shadows D G (op_values (i_op I)) (sources G S)" using shadows_step [OF S(2) st] by simp
  moreover have "settled D G (VInst (i_id I)) S" using S(1) st by (simp add: step_def)
  ultimately show ?thesis unfolding flows_def by blast
qed

text \<open>The instructions whose result depends on all operands.\<close>

fun computes_operands :: "dop \<Rightarrow> bool" where
  "computes_operands (BinaryOperator b nsw nuw x y) = True"
| "computes_operands (CastInst e x) = True"
| "computes_operands (CmpInst e x y) = True"
| "computes_operands (OperandInst k xs) = True"
| "computes_operands _ = False"

lemma visit_insts_step:
  assumes "visitInsts D insts F Is = Some G" "fn_ok F"
  shows "step D F G \<and> (\<forall>I\<in>set Is. computes_operands (i_op I) \<longrightarrow> flows D G I)"
  using assms
proof (induction Is arbitrary: F)
  case (Cons I Is)
  obtain F1 where v: "visit D insts F I = Some F1" "visitInsts D insts F1 Is = Some G"
    using Cons.prems(1) by (auto simp: Option.bind_eq_Some_conv)
  have 1: "step D F F1" by (rule visit_step [OF v(1) Cons.prems(2)])
  have 2: "step D F1 G" "\<forall>I\<in>set Is. computes_operands (i_op I) \<longrightarrow> flows D G I" using Cons.IH [OF v(2) step_ok [OF 1]] by auto
  have "flows D F1 I" if "computes_operands (i_op I)"
  proof -
    have "visitOperandShadowInst D F I = Some F1" using v(1) that by (cases "i_op I") (simp_all add: visit_def)
    then show ?thesis using operand_step [OF _ Cons.prems(2)] by (simp add: flows_def)
  qed
  then show ?case using 2 step_trans [OF 1 2(1)] flows_step [OF _ step_ok [OF 1] 2(1)] by auto
qed (simp add: step_refl)

lemma fix_phis_step: "fn_ok F \<Longrightarrow> step D F (fix_phis D F ps)"
proof (induction ps arbitrary: F)
  case (Cons p ps)
  obtain inc r where p: "p = (inc, r)" by (cases p)
  obtain ss F1 where s: "shadows_of D F (map fst inc) = (ss, F1)" by force
  let ?F2 = "F1\<lparr>shadow_phis := shadow_phis F1 @ [(r, zip ss (map snd inc))]\<rparr>"
  have "quiet F1 ?F2" by (simp add: quiet_def)
  then have 2: "step D F ?F2" using step_quiet [OF shadows_of_step [OF s Cons.prems]] by blast
  show ?case using p s step_trans [OF 2 Cons.IH [OF step_ok [OF 2]]] by simp
qed (simp add: step_refl)

lemma nonzero_checks_quiet: "quiet F (fold nonzero_check Vs F)"
proof (induction Vs arbitrary: F)
  case (Cons V Vs)
  have "quiet F (nonzero_check V F)" by (simp add: nonzero_check_def Let_def)
  then show ?case using quiet_trans Cons.IH by auto
qed simp

lemma new_fn_ok: "fn_ok (DFSanFunction_new native n args tmp0)"
  by (simp add: fn_ok_def cache_ok_def DFSanFunction_new_def)

lemma instrument_step:
  assumes "instrument_function D native args blocks = Some G"
  shows "fn_ok G \<and> (\<forall>I\<in>set (concat blocks). computes_operands (i_op I) \<longrightarrow> flows D G I)"
proof -
  let ?F0 = "DFSanFunction_new native (length blocks) args 0"
  obtain F1 where v: "visitInsts D (concat blocks) ?F0 (concat blocks) = Some F1"
    and G: "G = (let F2 = fix_phis D F1 (PHIFixups F1) in if ClDebugNonzeroLabels D then fold nonzero_check (NonZeroChecks F2) F2 else F2)"
    using assms by (auto simp: instrument_function_def Let_def Option.bind_eq_Some_conv)
  have 1: "step D ?F0 F1" "\<forall>I\<in>set (concat blocks). computes_operands (i_op I) \<longrightarrow> flows D F1 I"
    using visit_insts_step [OF v new_fn_ok] by auto
  have 2: "step D F1 (fix_phis D F1 (PHIFixups F1))" by (rule fix_phis_step [OF step_ok [OF 1(1)]])
  have "step D F1 G" using G 2 step_quiet [OF 2 nonzero_checks_quiet] by (simp add: Let_def)
  then show ?thesis using 1 flows_step [OF _ step_ok [OF 1(1)]] step_ok by blast
qed


text \<open>A function that adds its two parameters and multiplies the sum with the second one.\<close>

definition sample_blocks :: "dinst list list" where
  "sample_blocks =
     [[\<lparr>i_id = 0, i_parent = 0, i_type = IntT 32, i_op = BinaryOperator AddOp True False (VArg 0) (VArg 1)\<rparr>,
       \<lparr>i_id = 1, i_parent = 0, i_type = IntT 32, i_op = BinaryOperator MulOp False False (VInst 0) (VArg 1)\<rparr>,
       \<lparr>i_id = 2, i_parent = 0, i_type = VoidT, i_op = ReturnInst (Some (VInst 1))\<rparr>]]"

end
