(* ===== verification/Dfsan_Calls.thy ===== *)
theory Dfsan_Calls
  imports Dfsan_Module Dfsan_Flow
begin

text \<open>
  Calls in instrumented code: the arguments, labels and attributes of the call of a wrapper, the passing of labels between
  instrumented functions, and how the calls of a function that is not instrumented reach its wrapper.
\<close>

section \<open>Calls of wrappers\<close>

text \<open>How the argument \<open>a\<close> is passed at position \<open>j\<close>: as it is, or behind its trampoline.\<close>

definition passed :: "dfs \<Rightarrow> (sv \<times> dty) list \<Rightarrow> nat \<Rightarrow> dval \<Rightarrow> bool" where
  "passed D X j a \<longleftrightarrow>
     (case fun_pointee (val_type D a) of
        None \<Rightarrow> j < length X \<and> X ! j = (SVal a, val_type D a)
      | Some FT \<Rightarrow> Suc j < length X \<and> (\<exists>t. fst (X ! j) = SVal (VTrampoline t)) \<and> X ! Suc j = (SVal a, Int8PtrTy))"

lemma passed_append: "passed D X j a \<Longrightarrow> passed D (X @ Y) j a"
  by (auto simp: passed_def nth_append split: option.splits)

lemma passed_shift: "passed D X j a \<Longrightarrow> passed D (Y @ X) (length Y + j) a"
  by (auto simp: passed_def nth_append split: option.splits)

lemma passed_Cons: "passed D X j a \<Longrightarrow> passed D (x # X) (Suc j) a" "passed D X j a \<Longrightarrow> passed D (x # y # X) (Suc (Suc j)) a"
  using passed_shift [of D X j a "[x]"] passed_shift [of D X j a "[x, y]"] by simp_all

text \<open>The mapping lists the positions of the parameters in increasing order.\<close>

definition mapping_ok :: "nat \<Rightarrow> nat list \<Rightarrow> bool" where
  "mapping_ok n M \<longleftrightarrow> sorted_wrt (<) M \<and> (\<forall>j\<in>set M. n \<le> j)"

lemma mapping_ok_Cons: "mapping_ok (n + d) M \<Longrightarrow> 0 < d \<Longrightarrow> mapping_ok n (n # M)"
  by (force simp: mapping_ok_def)

lemma custom_args_params:
  assumes "custom_params ps A M = Some (B, N)" "map (val_type D) args = ps"
  shows "\<exists>X G N'. custom_args D F name k args = Some (X, G) \<and> B = A @ map snd X \<and> N = M @ N' \<and> length N' = length ps \<and>
    mapping_ok (length A) N' \<and> (\<forall>i<length ps. passed D X (N' ! i - length A) (args ! i))"
  using assms
proof (induction ps arbitrary: A M F k args)
  case Nil
  then show ?case by (simp add: mapping_ok_def)
next
  case (Cons p ps)
  obtain a as where a: "args = a # as" "val_type D a = p" "map (val_type D) as = ps" using Cons.prems(2) by (cases args) auto
  have sh: "passed D (xs @ X) (((length A) # N') ! i - length A) ((a # as) ! i)"
    if "passed D (xs @ X) 0 a" "mapping_ok (length A + length xs) N'" "length N' = length ps"
      "\<forall>i<length ps. passed D X (N' ! i - (length A + length xs)) (as ! i)" "i < Suc (length ps)" for xs X N' i
  proof (cases i)
    case (Suc j)
    then have j: "j < length ps" using that(5) by simp
    then have "length A + length xs \<le> N' ! j" using that(2,3) by (simp add: mapping_ok_def)
    then have "N' ! j - length A = length xs + (N' ! j - (length A + length xs))" by simp
    then show ?thesis using passed_shift that(4) j Suc by simp
  qed (use that(1) in simp)
  show ?case
  proof (cases "fun_pointee p")
    case None
    then have c: "custom_params ps (A @ [p]) (M @ [length A]) = Some (B, N)" using Cons.prems(1) by simp
    obtain X G N' where X: "custom_args D F name (Suc k) as = Some (X, G)" "B = (A @ [p]) @ map snd X" "N = (M @ [length A]) @ N'"
        "length N' = length ps" "mapping_ok (length (A @ [p])) N'" "\<forall>i<length ps. passed D X (N' ! i - length (A @ [p])) (as ! i)"
      using Cons.IH [OF c a(3), of F "Suc k"] by blast
    have "custom_args D F name k args = Some ((SVal a, p) # X, G)" using X(1) a None by simp
    moreover have "mapping_ok (length A) (length A # N')" using mapping_ok_Cons [of "length A" 1] X(5) by simp
    moreover have "passed D ([(SVal a, p)] @ X) 0 a" using None a(2) by (simp add: passed_def)
    ultimately show ?thesis using X sh [of "[(SVal a, p)]" X N'] a
      by (intro exI [of _ "(SVal a, p) # X"] exI [of _ G] exI [of _ "length A # N'"]) simp
  next
    case (Some FT)
    then obtain TT where t: "getTrampolineFunctionType FT = Some TT"
        and c: "custom_params ps (A @ [PtrT (to_type TT), Int8PtrTy]) (M @ [length A]) = Some (B, N)"
      using Cons.prems(1) by (auto simp: Option.bind_eq_Some_conv)
    obtain F1 where g: "getOrBuildTrampolineFunction F FT (''dfst'' @ show_nat k @ ''$'' @ name) =
        Some ((SVal (VTrampoline (''dfst'' @ show_nat k @ ''$'' @ name)), PtrT (to_type TT)), F1)"
      using t by (simp add: getOrBuildTrampolineFunction_def)
    let ?x = "(SVal (VTrampoline (''dfst'' @ show_nat k @ ''$'' @ name)), PtrT (to_type TT))" and ?y = "(SVal a, Int8PtrTy)"
    obtain X G N' where X: "custom_args D F1 name (Suc k) as = Some (X, G)" "B = (A @ [PtrT (to_type TT), Int8PtrTy]) @ map snd X"
        "N = (M @ [length A]) @ N'" "length N' = length ps" "mapping_ok (length (A @ [PtrT (to_type TT), Int8PtrTy])) N'"
        "\<forall>i<length ps. passed D X (N' ! i - length (A @ [PtrT (to_type TT), Int8PtrTy])) (as ! i)"
      using Cons.IH [OF c a(3), of F1 "Suc k"] by blast
    have "custom_args D F name k args = Some (?x # ?y # X, G)" using X(1) a Some g by simp
    moreover have "mapping_ok (length A) (length A # N')" using mapping_ok_Cons [of "length A" 2] X(5) by simp
    moreover have "passed D ([?x, ?y] @ X) 0 a" using Some a(2) by (simp add: passed_def)
    ultimately show ?thesis using X sh [of "[?x, ?y]" X N'] a
      by (intro exI [of _ "?x # ?y # X"] exI [of _ G] exI [of _ "length A # N'"]) simp
  qed
qed

lemma shadows_of_settled:
  "shadows_of D F vs = (ss, G) \<Longrightarrow> fn_ok F \<Longrightarrow> step D F G \<and> list_all2 (\<lambda>v S. settled D G v S) vs ss"
proof (induction vs arbitrary: F ss)
  case (Cons v vs)
  obtain s F1 where g: "getShadow D F v = (s, F1)" by force
  obtain ts F2 where h: "shadows_of D F1 vs = (ts, F2)" by force
  have 1: "step D F F1" "settled D F1 v s" using get_shadow_step [OF g Cons.prems(2)] by blast+
  have h': "shadows_of D F1 vs = (ts, G)" "ss = s # ts" using Cons.prems(1) g h by simp_all
  have 2: "step D F1 G" "list_all2 (\<lambda>v S. settled D G v S) vs ts" using Cons.IH [OF h'(1) step_ok [OF 1(1)]] by auto
  show ?case using step_trans [OF 1(1) 2(1)] 2 1(2) h'(2) by (simp add: step_def)
qed (simp add: step_refl)


lemma custom_type_parts:
  assumes "getCustomFunctionType FT = Some TF"
  obtains ArgTypes where "custom_params (params FT) [] [] = Some (ArgTypes, ArgumentIndexMapping TF)"
    "params (TransformedType TF) = ArgTypes @ replicate (length (params FT)) ShadowTy @
       (if isVarArg FT then [ShadowPtrTy] else []) @ (if ret_type FT \<noteq> VoidT then [ShadowPtrTy] else [])"
    "OriginalType TF = FT"
  using assms by (auto simp: getCustomFunctionType_def Option.bind_eq_Some_conv Let_def)

lemma nth_labels:
  assumes "list_all2 P vs ss" "i < length vs"
  shows "\<exists>S. (X @ map (\<lambda>s. (s, T)) ss @ Y) ! (length X + i) = (S, T) \<and> P (vs ! i) S"
  using assms by (auto simp: list_all2_conv_all_nth nth_append)

text \<open>C17. The call of a wrapper is well typed.  When the arguments of a call have the types of the parameters, the arguments the pass builds for
  \<^verbatim>\<open>__dfsw_F\<close> have the types of the parameters of its type, followed by the further arguments of the call; each
  argument stands at the position the type's index mapping gives it, behind its trampoline when it is a function; the
  label of each argument stands at its place behind them; and there is a place for the label of the result exactly when there is
  a result.\<close>

theorem custom_call_well_typed:
  assumes "getCustomFunctionType FT = Some TF" "fn_ok F"
    "map (val_type D) (take (length (params FT)) (callArgs CS)) = params FT"
  shows "\<exists>Args k slot G. custom_call_args D F I CS FT name = Some (Args, k, slot, G) \<and>
    map snd Args = params (TransformedType TF) @ map (val_type D) (drop (length (params FT)) (callArgs CS)) \<and>
    (slot = None \<longleftrightarrow> ret_type FT = VoidT) \<and>
    (\<forall>i<length (params FT). passed D Args (ArgumentIndexMapping TF ! i) (callArgs CS ! i) \<and>
       (\<exists>S. Args ! (k + i) = (S, ShadowTy) \<and> settled D G (callArgs CS ! i) S))"
proof -
  let ?n = "length (params FT)" and ?args = "take (length (params FT)) (callArgs CS)"
  have len: "length ?args = ?n" using arg_cong [OF assms(3), of length] by simp
  obtain B where B: "custom_params (params FT) [] [] = Some (B, ArgumentIndexMapping TF)"
    and ty: "params (TransformedType TF) = B @ replicate ?n ShadowTy @
       (if isVarArg FT then [ShadowPtrTy] else []) @ (if ret_type FT \<noteq> VoidT then [ShadowPtrTy] else [])"
    by (rule custom_type_parts [OF assms(1)])
  obtain X F1 where X: "custom_args D F name 0 ?args = Some (X, F1)" "B = map snd X"
      "\<forall>i<?n. passed D X (ArgumentIndexMapping TF ! i) (?args ! i)"
    using custom_args_params [OF B assms(3), of F name 0] by auto
  have 1: "step D F F1" using quiet_step [OF custom_args_quiet [OF X(1)] assms(2)] .
  obtain ss F2 where s: "shadows_of D F1 ?args = (ss, F2)" by force
  have ss: "list_all2 (\<lambda>v S. settled D F2 v S) ?args ss" using shadows_of_settled [OF s step_ok [OF 1]] by blast
  have 2: "step D F1 F2" by (rule shadows_of_step [OF s step_ok [OF 1]])
  obtain p F' where v: "label_va D F2 I (drop ?n (callArgs CS)) = (p, F')" by force
  define F3 where "F3 = (if isVarArg FT then F' else F2)"
  have 3: "step D F2 F3" using va_labels_step [OF v step_ok [OF 2]] step_refl [OF step_ok [OF 2]] by (simp add: F3_def)
  obtain b F4 where r: "getLabelReturnAlloca F3 = (b, F4)" by force
  have 4: "step D F3 F4" using quiet_step [OF return_alloca_quiet [OF r] step_ok [OF 3]] .
  define Y where "Y = (if isVarArg FT then [(p, ShadowPtrTy)] else []) @
      (if ret_type FT \<noteq> VoidT then [(STmp (nextTmp F4), ShadowPtrTy)] else []) @ map (\<lambda>v. (SVal v, val_type D v)) (drop ?n (callArgs CS))"
  define G where "G = (if ret_type FT \<noteq> VoidT then insert_code F4 (Before (i_id I)) [DSlotPtr (nextTmp F4) b] 1 else F3)"
  have "step D F2 G" using 3 step_quiet [OF step_trans [OF 3 4] quiet_emit] by (simp add: G_def)
  then have set: "list_all2 (\<lambda>v S. settled D G v S) ?args ss" using ss by (auto simp: step_def elim: list_all2_mono)
  have c: "custom_call_args D F I CS FT name =
      Some (X @ map (\<lambda>s. (s, ShadowTy)) ss @ Y, length X, if ret_type FT \<noteq> VoidT then Some b else None, G)"
    using X(1) s v r by (auto simp: custom_call_args_def F3_def Y_def G_def Let_def)
  have "length ss = ?n" using ss len by (simp add: list_all2_conv_all_nth)
  then have "map snd (X @ map (\<lambda>s. (s, ShadowTy)) ss @ Y) = params (TransformedType TF) @ map (val_type D) (drop ?n (callArgs CS))"
    using X(2) by (simp add: ty Y_def comp_def map_replicate_const)
  moreover have "passed D (X @ map (\<lambda>s. (s, ShadowTy)) ss @ Y) (ArgumentIndexMapping TF ! i) (callArgs CS ! i)" if "i < ?n" for i
    using passed_append [OF X(3) [rule_format, OF that]] that by simp
  moreover have "\<exists>S. (X @ map (\<lambda>s. (s, ShadowTy)) ss @ Y) ! (length X + i) = (S, ShadowTy) \<and> settled D G (callArgs CS ! i) S"
    if "i < ?n" for i
    using nth_labels [OF set, of i X ShadowTy Y] that len by simp
  ultimately show ?thesis using c by auto
qed

text \<open>The call of \<^verbatim>\<open>qsort\<close>-like function with a value, a callback and one further argument.\<close>

definition callback_type :: functype where
  "callback_type = \<lparr>ret_type = IntT 32, params = [IntT 32], isVarArg = False\<rparr>"

definition sample_ft :: functype where
  "sample_ft = \<lparr>ret_type = IntT 32, params = [IntT 32, PtrT (to_type callback_type), IntT 32], isVarArg = False\<rparr>"

definition sample_call_dfs :: dfs where
  "sample_call_dfs = sample_dfs\<lparr>val_type := (\<lambda>v. if v = VFun 7 then PtrT (to_type callback_type) else IntT 32)\<rparr>"

definition sample_cs :: callsite where
  "sample_cs = \<lparr>calledValue = VFun 5, calledType = sample_ft, callArgs = [VArg 0, VFun 7, VArg 1], callAttrs = [[], [], [''signext''], [''nocapture'']]\<rparr>"

theorem custom_call_well_typed_witness:
  "\<exists>TF Args k slot G. getCustomFunctionType sample_ft = Some TF \<and>
     custom_call_args sample_call_dfs sample_fn (sample_blocks ! 0 ! 0) sample_cs sample_ft ''f'' = Some (Args, k, slot, G) \<and>
     map snd Args = params (TransformedType TF) \<and> passed sample_call_dfs Args (ArgumentIndexMapping TF ! 1) (VFun 7) \<and>
     (\<exists>S. Args ! (k + 2) = (S, ShadowTy) \<and> settled sample_call_dfs G (VArg 1) S)"
proof -
  have "getCustomFunctionType sample_ft \<noteq> None" by code_simp
  then obtain TF where t: "getCustomFunctionType sample_ft = Some TF" by blast
  have n: "length (params sample_ft) = 3" by (simp add: sample_ft_def)
  have f: "fn_ok sample_fn" by (simp add: sample_fn_def new_fn_ok)
  have m: "map (val_type sample_call_dfs) (take (length (params sample_ft)) (callArgs sample_cs)) = params sample_ft" by code_simp
  show ?thesis using t custom_call_well_typed [OF t f m, of "sample_blocks ! 0 ! 0" "''f''", unfolded n]
    by (auto simp: sample_cs_def numeral_3_eq_3 All_less_Suc numeral_2_eq_2)
qed

section \<open>Attributes\<close>

lemma copy_param_attrs_ok:
  assumes "mapping_ok n M" "\<forall>j\<in>set M. j < length V"
  shows "\<exists>W. copy_param_attrs al i M V = Some W \<and> length W = length V \<and> (\<forall>k<length M. W ! (M ! k) = getParamAttributes al (i + k)) \<and>
    (\<forall>j<length V. j \<notin> set M \<longrightarrow> W ! j = V ! j)"
  using assms
proof (induction M arbitrary: V i n)
  case (Cons m M)
  let ?V = "V[m := getParamAttributes al i]"
  have m: "mapping_ok (Suc m) M" "m < length V" using Cons.prems by (auto simp: mapping_ok_def Suc_le_eq)
  then have nm: "m \<notin> set M" by (auto simp: mapping_ok_def)
  obtain W where W: "copy_param_attrs al (Suc i) M ?V = Some W" "length W = length V" "\<forall>k<length M. W ! (M ! k) = getParamAttributes al (Suc i + k)"
      "\<forall>j<length V. j \<notin> set M \<longrightarrow> W ! j = ?V ! j"
    using Cons.IH [OF m(1), of ?V "Suc i"] Cons.prems(2) by auto
  have "W ! ((m # M) ! k) = getParamAttributes al (i + k)" if "k < length (m # M)" for k
    using that W(3,4) m(2) nm by (cases k) auto
  moreover have "W ! j = V ! j" if "j < length V" "j \<notin> set (m # M)" for j using W(4) that by simp
  ultimately show ?case using W(1,2) m(2) by auto
qed simp

lemma mapping_in_range:
  assumes "custom_params ps A M = Some (B, N)" "\<forall>j\<in>set M. j < length A"
  shows "\<forall>j\<in>set N. j < length B" "length N = length M + length ps" "length A \<le> length B"
  using assms
proof (induction ps arbitrary: A M)
  case (Cons p ps)
  {
    case 1
    then show ?case using Cons.IH(1) by (fastforce simp: Option.bind_eq_Some_conv split: option.splits)
  next
    case 2
    then show ?case using Cons.IH(2) by (fastforce simp: Option.bind_eq_Some_conv split: option.splits)
  next
    case 3
    then show ?case using Cons.IH(3) by (fastforce simp: Option.bind_eq_Some_conv split: option.splits)
  }
qed auto

lemma mapping_sorted:
  assumes "custom_params ps [] [] = Some (B, N)"
  shows "mapping_ok 0 N"
proof -
  have "map (\<lambda>v. case v of VConst i \<Rightarrow> ps ! i) (map VConst [0..<length ps]) = ps" by (simp add: map_nth comp_def)
  then have "map (val_type (sample_dfs\<lparr>val_type := \<lambda>v. case v of VConst i \<Rightarrow> ps ! i | _ \<Rightarrow> VoidT\<rparr>)) (map VConst [0..<length ps]) = ps"
    by (simp add: comp_def map_nth)
  from custom_args_params [OF assms this, of undefined undefined undefined] show ?thesis by auto
qed

text \<open>Attributes follow their arguments.  For every call the attributes can be transformed, without an access outside
  the vectors: those of a parameter move to the position the index mapping gives it, those of a further argument move behind
  the parameters of the wrapper, the function and the result keep theirs, and labels and callbacks' data get none.\<close>

theorem attributes_follow_arguments:
  assumes "getCustomFunctionType FT = Some TF"
  shows "\<exists>al. TransformFunctionAttributes TF attrs = Some al \<and>
    (\<forall>i<length (params FT). getParamAttributes al (ArgumentIndexMapping TF ! i) = getParamAttributes attrs i) \<and>
    (\<forall>j. getParamAttributes al (length (params (TransformedType TF)) + j) = getParamAttributes attrs (length (params FT) + j)) \<and>
    (\<forall>p<length (params (TransformedType TF)). p \<notin> set (ArgumentIndexMapping TF) \<longrightarrow> getParamAttributes al p = []) \<and>
    attr_set al 0 = attr_set attrs 0 \<and> attr_set al 1 = attr_set attrs 1"
proof -
  let ?n = "length (params FT)" and ?t = "length (params (TransformedType TF))" and ?M = "ArgumentIndexMapping TF"
  obtain B where B: "custom_params (params FT) [] [] = Some (B, ?M)" "OriginalType TF = FT" "length B \<le> ?t"
    using custom_type_parts [OF assms] by (metis le_add1 length_append)
  have M: "\<forall>j\<in>set ?M. j < ?t" "length ?M = ?n" using mapping_in_range [OF B(1)] B(3) by auto
  obtain W where W: "copy_param_attrs attrs 0 ?M (replicate ?t []) = Some W" "length W = ?t"
      "\<forall>k<length ?M. W ! (?M ! k) = getParamAttributes attrs (0 + k)" "\<forall>j<?t. j \<notin> set ?M \<longrightarrow> W ! j = []"
    using copy_param_attrs_ok [OF mapping_sorted [OF B(1)], of "replicate ?t []" attrs 0] M(1) by auto
  let ?al = "[attr_set attrs 0, attr_set attrs 1] @ W @ map (getParamAttributes attrs) [?n..<length attrs]"
  have "TransformFunctionAttributes TF attrs = Some ?al" using W(1) B(2) by (simp add: TransformFunctionAttributes_def)
  moreover have in_W: "getParamAttributes ?al p = W ! p" if "p < ?t" for p
    using that W(2) by (simp add: getParamAttributes_def attr_set_def nth_append)
  moreover have "getParamAttributes ?al (?t + j) = getParamAttributes attrs (?n + j)" for j
    using W(2) by (auto simp: getParamAttributes_def attr_set_def nth_append)
  moreover have "?M ! i < ?t" if "i < ?n" for i using M that by simp
  ultimately show ?thesis using W(3,4) M(2) by (intro exI [of _ ?al]) (auto simp: attr_set_def)
qed

theorem attributes_follow_arguments_witness:
  "\<exists>TF al. getCustomFunctionType sample_ft = Some TF \<and> TransformFunctionAttributes TF (callAttrs sample_cs) = Some al \<and>
     getParamAttributes al (ArgumentIndexMapping TF ! 0) = [''signext''] \<and> getParamAttributes al (ArgumentIndexMapping TF ! 1) = [''nocapture'']"
proof -
  have "getCustomFunctionType sample_ft \<noteq> None" by code_simp
  then obtain TF where t: "getCustomFunctionType sample_ft = Some TF" by blast
  have "getParamAttributes (callAttrs sample_cs) 0 = [''signext'']" "getParamAttributes (callAttrs sample_cs) 1 = [''nocapture'']" by code_simp+
  then show ?thesis using t attributes_follow_arguments [OF t, of "callAttrs sample_cs"] by (auto simp: sample_ft_def)
qed

section \<open>Labels of arguments\<close>

text \<open>Asking for a shadow inserts code only at the front of the entry block.\<close>

lemma get_shadow_code: "getShadow D F v = (S, F1) \<Longrightarrow> \<exists>P. insertions F1 = insertions F @ P \<and> (\<forall>(p, cs)\<in>set P. p = EntryFront)"
  by (auto simp: getShadow_def getArgTLS_def Let_def note_shadow_def split: option.splits dval.splits if_splits InstrumentedABI.splits)

lemma get_shadow_before: "getShadow D F v = (S, F1) \<Longrightarrow> \<exists>P. insertions F1 = insertions F @ P \<and> filter (\<lambda>(p, cs). p = Before i) P = []"
  using get_shadow_code by (fastforce simp: filter_empty_conv)

lemma store_args_code:
  assumes "store_args D F I k as = G" "fn_ok F"
  shows "\<exists>Ss P. list_all2 (\<lambda>v S. settled D G v S) as Ss \<and> insertions G = insertions F @ P \<and>
    concat (map snd (filter (\<lambda>(p, cs). p = Before (i_id I)) P)) = map (\<lambda>j. DStoreArg (Ss ! j) (k + j)) [0..<length as]"
  using assms
proof (induction as arbitrary: F k)
  case (Cons a as)
  obtain s F1 where g: "getShadow D F a = (s, F1)" by force
  let ?F2 = "insert_code F1 (Before (i_id I)) [DStoreArg s k] 0"
  have 1: "step D F F1" "settled D F1 a s" using get_shadow_step [OF g Cons.prems(2)] by auto
  have 2: "step D F1 ?F2" by (rule quiet_step [OF quiet_emit step_ok [OF 1(1)]])
  have G: "store_args D ?F2 I (Suc k) as = G" using Cons.prems(1) g by simp
  have 3: "step D ?F2 G" using store_args_step [OF step_ok [OF 2], of D I "Suc k" as] G by simp
  obtain Ss P where P: "list_all2 (\<lambda>v S. settled D G v S) as Ss" "insertions G = insertions ?F2 @ P"
      "concat (map snd (filter (\<lambda>(p, cs). p = Before (i_id I)) P)) = map (\<lambda>j. DStoreArg (Ss ! j) (Suc k + j)) [0..<length as]"
    using Cons.IH [OF G step_ok [OF 2]] by auto
  obtain Q where Q: "insertions F1 = insertions F @ Q" "filter (\<lambda>(p, cs). p = Before (i_id I)) Q = []" using get_shadow_before [OF g] by blast
  have "settled D G a s" using 1(2) 2 3 by (simp add: step_def)
  moreover have "[0..<length (a # as)] = 0 # map Suc [0..<length as]" by (simp add: map_Suc_upt upt_conv_Cons del: upt_Suc)
  ultimately show ?case using P Q
    by (intro exI [of _ "s # Ss"] exI [of _ "Q @ (Before (i_id I), [DStoreArg s k]) # P"]) (simp add: comp_def)
qed simp

lemma run_store_args:
  assumes "k + n \<le> ARG_TLS_SIZE"
  shows "\<exists>t. run_ds E s (map (\<lambda>j. DStoreArg (Ss ! j) (k + j)) [0..<n]) = Some t \<and>
    d_arg_tls t = (\<lambda>i. if k \<le> i \<and> i < k + n then slabel E s (Ss ! (i - k)) else d_arg_tls s i) \<and> d_rt t = d_rt s \<and> d_tmp t = d_tmp s"
  using assms
proof (induction n)
  case (Suc n)
  obtain t where t: "run_ds E s (map (\<lambda>j. DStoreArg (Ss ! j) (k + j)) [0..<n]) = Some t"
      "d_arg_tls t = (\<lambda>i. if k \<le> i \<and> i < k + n then slabel E s (Ss ! (i - k)) else d_arg_tls s i)" "d_rt t = d_rt s" "d_tmp t = d_tmp s"
    using Suc by auto
  have "slabel E t v = slabel E s v" for v using t(4) by (cases v) (simp_all add: slabel_def)
  then show ?case using t Suc.prems by (auto simp: run_ds_append fun_eq_iff)
qed (auto simp: fun_eq_iff)

lemma run_store_args_overflow:
  assumes "ARG_TLS_SIZE < n"
  shows "run_ds E s (map (\<lambda>j. DStoreArg (Ss ! j) j) [0..<n]) = None"
proof -
  have "[0..<n] = [0..<ARG_TLS_SIZE] @ [ARG_TLS_SIZE..<n]" using assms upt_add_eq_append [of 0 ARG_TLS_SIZE "n - ARG_TLS_SIZE"] by simp
  also have "[ARG_TLS_SIZE..<n] = ARG_TLS_SIZE # [Suc ARG_TLS_SIZE..<n]" using assms by (rule upt_conv_Cons)
  finally have "[0..<n] = [0..<ARG_TLS_SIZE] @ ARG_TLS_SIZE # [Suc ARG_TLS_SIZE..<n]" .
  then show ?thesis by (auto simp: run_ds_append split: Option.bind_split)
qed

text \<open>C20. Labels of arguments arrive.  With labels passed in thread-local storage, the code before a call of an instrumented
  function leaves the label of each argument where the code at the entry of the callee loads the label of the parameter at
  the same position from, without changing anything else in the runtime; with more than 64 parameters the code writes
  outside \<^verbatim>\<open>__dfsan_arg_tls\<close>.\<close>

theorem argument_labels_arrive:
  assumes "store_args D F I 0 as = G" "fn_ok F" "i < length as"
    "IA D' = IA_TLS" "\<not> IsNativeABI C" "map_of (ValShadowMap C) (VArg i) = None"
  shows "if length as \<le> ARG_TLS_SIZE
    then \<exists>t S V C' u. run_ds E s (new_code F G (Before (i_id I))) = Some t \<and> d_rt t = d_rt s \<and> settled D G (as ! i) S \<and>
      getShadow D' C (VArg i) = (V, C') \<and> run_ds E' (t\<lparr>d_tmp := regs\<rparr>) (new_code C C' EntryFront) = Some u \<and>
      slabel E' u V = slabel E s S
    else run_ds E s (new_code F G (Before (i_id I))) = None"
proof -
  obtain Ss P where P: "list_all2 (\<lambda>v S. settled D G v S) as Ss" "insertions G = insertions F @ P"
      "concat (map snd (filter (\<lambda>(p, cs). p = Before (i_id I)) P)) = map (\<lambda>j. DStoreArg (Ss ! j) (0 + j)) [0..<length as]"
    using store_args_code [OF assms(1,2)] by blast
  then have code: "new_code F G (Before (i_id I)) = map (\<lambda>j. DStoreArg (Ss ! j) j) [0..<length as]" by (simp add: new_code_def)
  show ?thesis
  proof (cases "length as \<le> ARG_TLS_SIZE")
    case True
    obtain t where t: "run_ds E s (new_code F G (Before (i_id I))) = Some t" "d_rt t = d_rt s"
        "d_arg_tls t = (\<lambda>j. if j < length as then slabel E s (Ss ! j) else d_arg_tls s j)"
      using run_store_args [of 0 "length as" E s Ss] True code by (auto simp: fun_eq_iff)
    let ?V = "STmp (nextTmp C)" and ?C' = "snd (getShadow D' C (VArg i))"
    have g: "getShadow D' C (VArg i) = (?V, ?C')" "new_code C ?C' EntryFront = [DLoadArg (nextTmp C) i]"
      using assms(4-6) by (simp_all add: getShadow_def getArgTLS_def Let_def note_shadow_def new_code_def)
    have "settled D G (as ! i) (Ss ! i)" using P(1) assms(3) by (simp add: list_all2_conv_all_nth)
    moreover have "\<exists>u. run_ds E' (t\<lparr>d_tmp := regs\<rparr>) (new_code C ?C' EntryFront) = Some u \<and> slabel E' u ?V = slabel E s (Ss ! i)"
      using True assms(3) t(3) g(2) by (simp add: slabel_def)
    ultimately show ?thesis using True t(1,2) g(1) by auto
  next
    case False
    then show ?thesis using run_store_args_overflow [of "length as" E s Ss] code by simp
  qed
qed

theorem argument_labels_arrive_witness:
  "\<exists>G t S V C' u. store_args sample_dfs sample_fn (sample_blocks ! 0 ! 0) 0 [VConstInt 1, VArg 1] = G \<and>
     run_ds dfs_env sample_exec (new_code sample_fn G (Before 0)) = Some t \<and> settled sample_dfs G (VArg 1) S \<and>
     getShadow sample_dfs sample_fn (VArg 1) = (V, C') \<and>
     run_ds dfs_env (t\<lparr>d_tmp := \<lambda>_. 9\<rparr>) (new_code sample_fn C' EntryFront) = Some u \<and> slabel dfs_env u V = slabel dfs_env sample_exec S"
proof -
  let ?I = "sample_blocks ! 0 ! 0"
  have h: "fn_ok sample_fn" "IA sample_dfs = IA_TLS" "\<not> IsNativeABI sample_fn" "map_of (ValShadowMap sample_fn) (VArg 1) = None"
    by (simp add: sample_fn_def new_fn_ok) (simp_all add: sample_dfs_def sample_fn_def DFSanFunction_new_def getInstrumentedABI_def)
  have i: "(1::nat) < length [VConstInt 1, VArg 1]" "i_id ?I = 0" by (simp_all add: sample_blocks_def)
  show ?thesis
    using argument_labels_arrive [OF refl h(1) i(1) h(2-4), where D = sample_dfs and I = ?I and E = dfs_env and s = sample_exec and E' = dfs_env and regs = "\<lambda>_. 9"] i(2)
    by (fastforce simp: ARG_TLS_SIZE_def)
qed
end
