(* ===== verification/Dfsan_Wrapping.thy ===== *)
theory Dfsan_Wrapping
  imports Dfsan_Calls
begin

text \<open>
  How \<open>runOnModule\<close> leads the calls of functions that are not instrumented to their wrappers: every use becomes one of the
  wrapper \<^verbatim>\<open>dfsw$F\<close>, \<open>UnwrappedFnMap\<close> leads from the wrapper back to the function, and no later step of the loop over the
  functions disturbs the two tables or the function's name.
\<close>

section \<open>Tables of the module\<close>

definition ids_lt :: "mstate \<Rightarrow> bool" where
  "ids_lt S \<longleftrightarrow> (\<forall>F\<in>set (ms_functions S). m_id F < next_fid S)"

lemma find_id_append: "find (\<lambda>x. m_id x = f) (xs @ ys) = (case find (\<lambda>x. m_id x = f) xs of Some F \<Rightarrow> Some F | None \<Rightarrow> find (\<lambda>x. m_id x = f) ys)"
  by (induction xs) auto

lemma get_fun_Some: "get_fun S f = Some F \<Longrightarrow> F \<in> set (ms_functions S) \<and> m_id F = f"
  by (auto simp: get_fun_def find_Some_iff)

lemma get_fun_add:
  "get_fun S f = Some F \<Longrightarrow> get_fun (add_fun S N) f = Some F"
  "ids_lt S \<Longrightarrow> m_id N = next_fid S \<Longrightarrow> get_fun (add_fun S N) (next_fid S) = Some N"
proof -
  show "get_fun S f = Some F \<Longrightarrow> get_fun (add_fun S N) f = Some F" by (simp add: get_fun_def add_fun_def find_id_append)
  assume "ids_lt S" "m_id N = next_fid S"
  then have "find (\<lambda>x. m_id x = next_fid S) (ms_functions S) = None" by (auto simp: find_None_iff ids_lt_def)
  then show "get_fun (add_fun S N) (next_fid S) = Some N"
    using \<open>m_id N = next_fid S\<close> by (simp add: get_fun_def add_fun_def find_id_append)
qed

lemma get_fun_upd: "f \<noteq> g \<Longrightarrow> (\<And>x. m_id (h x) = m_id x) \<Longrightarrow> get_fun (upd_fun S g h) f = get_fun S f"
proof -
  assume "f \<noteq> g" and h: "\<And>x. m_id (h x) = m_id x"
  then have "find (\<lambda>x. m_id x = f) (map (\<lambda>x. if m_id x = g then h x else x) xs) = find (\<lambda>x. m_id x = f) xs" for xs
    by (induction xs) auto
  then show ?thesis by (simp add: get_fun_def upd_fun_def)
qed

lemma ids_lt_upd: "ids_lt S \<Longrightarrow> (\<And>x. m_id (h x) = m_id x) \<Longrightarrow> ids_lt (upd_fun S g h)"
  by (auto simp: ids_lt_def upd_fun_def)

lemma upd_fun_frame [simp]:
  "next_fid (upd_fun S g h) = next_fid S" "FnsToInstrument (upd_fun S g h) = FnsToInstrument S"
  "replaced (upd_fun S g h) = replaced S" "ms_unwrapped (upd_fun S g h) = ms_unwrapped S"
  by (simp_all add: upd_fun_def)

lemma get_fun_cong: "ms_functions S = ms_functions T \<Longrightarrow> get_fun S f = get_fun T f"
  by (simp add: get_fun_def)

text \<open>A step that works on the function \<open>g\<close> leaves the others alone.\<close>

definition frame :: "nat \<Rightarrow> mstate \<Rightarrow> mstate \<Rightarrow> bool" where
  "frame g S T \<longleftrightarrow> ids_lt T \<and> next_fid S \<le> next_fid T \<and>
     (\<forall>f F. f \<noteq> g \<longrightarrow> get_fun S f = Some F \<longrightarrow> get_fun T f = Some F) \<and>
     (\<forall>f. f \<noteq> g \<longrightarrow> map_of (replaced T) f = map_of (replaced S) f) \<and>
     (\<forall>w<next_fid S. map_of (ms_unwrapped T) (VFun w) = map_of (ms_unwrapped S) (VFun w))"

lemma frame_refl: "ids_lt S \<Longrightarrow> frame g S S"
  by (simp add: frame_def)

lemma frame_rename: "ids_lt S \<Longrightarrow> m_id F = g \<Longrightarrow> frame g S (rename_fun S F) \<and> FnsToInstrument (rename_fun S F) = FnsToInstrument S"
proof -
  assume a: "ids_lt S" "m_id F = g"
  let ?U = "upd_fun S g (\<lambda>x. x\<lparr>m_name := fst (addGlobalNamePrefix (m_name F) (ms_asm S))\<rparr>)"
  have r: "rename_fun S F = ?U\<lparr>ms_asm := snd (addGlobalNamePrefix (m_name F) (ms_asm S))\<rparr>"
    using a(2) by (simp add: rename_fun_def split_beta)
  have "get_fun (rename_fun S F) f = get_fun S f" if "f \<noteq> g" for f
    using get_fun_upd [OF that, of "\<lambda>x. x\<lparr>m_name := fst (addGlobalNamePrefix (m_name F) (ms_asm S))\<rparr>" S]
    by (simp add: r get_fun_def)
  moreover have "ids_lt (rename_fun S F)" using ids_lt_upd [OF a(1), of "\<lambda>x. x\<lparr>m_name := fst (addGlobalNamePrefix (m_name F) (ms_asm S))\<rparr>" g]
    by (simp add: r ids_lt_def)
  ultimately show ?thesis by (simp add: frame_def r)
qed

lemma wrap_fun_parts:
  fixes D S i F
  defines "T \<equiv> wrap_fun D S i F"
  assumes "ids_lt S" "get_fun S f = Some F"
  shows "frame f S T" "map_of (replaced T) f = Some (next_fid S)" "map_of (ms_unwrapped T) (VFun (next_fid S)) = Some f"
    "next_fid T = Suc (next_fid S)" "get_fun T f = Some F"
    "\<exists>W. get_fun T (next_fid S) = Some W \<and> m_name W = ''dfsw$'' @ m_name F \<and> \<not> m_intrinsic W"
    "\<exists>xs. FnsToInstrument T = (FnsToInstrument S)[i := Some (next_fid S)] @ xs"
proof -
  obtain N where N: "m_id N = next_fid S" "m_name N = ''dfsw$'' @ m_name F" "\<not> m_intrinsic N"
      "ms_functions T = ms_functions (add_fun S N)" "next_fid T = Suc (next_fid S)"
      "replaced T = (m_id F, next_fid S) # replaced S" "ms_unwrapped T = (VFun (next_fid S), m_id F) # ms_unwrapped S"
      "\<exists>xs. FnsToInstrument T = (FnsToInstrument S)[i := Some (next_fid S)] @ xs"
    by (rule that [of "buildWrapperFunction D S F (''dfsw$'' @ m_name F) (case m_linkage F of LocalLinkage l \<Rightarrow> LocalLinkage l | _ \<Rightarrow> LinkOnceODRLinkage)
          (if IA D = IA_Args then getArgsFunctionType (m_type F) else m_type F) (next_fid S)"])
      (simp_all add: T_def wrap_fun_def Let_def buildWrapperFunction_def add_fun_def)
  have f: "m_id F = f" using get_fun_Some [OF assms(3)] by simp
  note g = get_fun_cong [OF N(4)]
  have "ids_lt T" using assms(2) N(1,4,5) by (auto simp: ids_lt_def add_fun_def)
  then show "frame f S T" using N(5-7) f get_fun_add(1) by (auto simp: frame_def g)
  show "map_of (replaced T) f = Some (next_fid S)" "map_of (ms_unwrapped T) (VFun (next_fid S)) = Some f" using N(6,7) f by simp_all
  show "next_fid T = Suc (next_fid S)" "get_fun T f = Some F" using N(5) get_fun_add(1) [OF assms(3)] by (simp_all add: g)
  show "\<exists>W. get_fun T (next_fid S) = Some W \<and> m_name W = ''dfsw$'' @ m_name F \<and> \<not> m_intrinsic W"
    using get_fun_add(2) [OF assms(2) N(1)] N(2,3) by (simp add: g)
  show "\<exists>xs. FnsToInstrument T = (FnsToInstrument S)[i := Some (next_fid S)] @ xs" by (rule N(8))
qed

text \<open>The last case of the loop body cannot occur: a function without parameters and result that is no custom one takes no
  further arguments either.\<close>

lemma abi_step_cases:
  assumes "abi_step D S i = Some T"
  obtains (renamed) f F where "FnsToInstrument S ! i = Some f" "get_fun S f = Some F" "T = rename_fun S F"
  | (typed) f F where "FnsToInstrument S ! i = Some f" "get_fun S f = Some F"
      "T = rename_fun (upd_fun S f (\<lambda>x. x\<lparr>m_type := getArgsFunctionType (m_type F)\<rparr>)) F"
  | (wrapped) f F where "FnsToInstrument S ! i = Some f" "get_fun S f = Some F" "T = wrap_fun D S i F"
      "\<not> isInstrumented (SCL D) (ModuleId D) (m_name F)"
  | (same) f F where "FnsToInstrument S ! i = Some f" "get_fun S f = Some F" "T = S" "IsZeroArgsVoidRet (m_type F)"
      "getWrapperKind (SCL D) (ModuleId D) (m_name F) \<noteq> WK_Custom"
  using assms by (auto simp: abi_step_def Option.bind_eq_Some_conv Let_def IsZeroArgsVoidRet_def split: if_splits)

lemma abi_step_frame:
  assumes "abi_step D S i = Some T" "ids_lt S"
  obtains f where "FnsToInstrument S ! i = Some f" "frame f S T" "length (FnsToInstrument S) \<le> length (FnsToInstrument T)"
    "\<And>k. k \<noteq> i \<Longrightarrow> k < length (FnsToInstrument S) \<Longrightarrow> FnsToInstrument T ! k = FnsToInstrument S ! k"
  using assms(1)
proof (cases rule: abi_step_cases)
  case (renamed f F)
  then show ?thesis using that [of f] frame_rename [OF assms(2)] get_fun_Some by simp
next
  case (typed f F)
  let ?U = "upd_fun S f (\<lambda>x. x\<lparr>m_type := getArgsFunctionType (m_type F)\<rparr>)"
  have "ids_lt ?U" using ids_lt_upd [OF assms(2)] by simp
  then have "frame f ?U T" "FnsToInstrument T = FnsToInstrument S" using frame_rename [of ?U F f] typed get_fun_Some by simp_all
  then show ?thesis using that [of f] typed(1) get_fun_upd [of _ f "\<lambda>x. x\<lparr>m_type := getArgsFunctionType (m_type F)\<rparr>" S]
    by (simp add: frame_def)
next
  case (wrapped f F)
  obtain xs where "FnsToInstrument T = (FnsToInstrument S)[i := Some (next_fid S)] @ xs"
    using wrap_fun_parts(7) [OF assms(2) wrapped(2), of D i] wrapped(3) by blast
  then show ?thesis using that [of f] wrapped(1,3) wrap_fun_parts(1) [OF assms(2) wrapped(2), of D i] by (simp add: nth_append)
next
  case (same f F)
  then show ?thesis using that [of f] frame_refl [OF assms(2)] by simp
qed


section \<open>The loop over the functions\<close>

text \<open>The function \<open>F\<close> has its wrapper, numbered from \<open>n\<close> on.\<close>

definition has_wrapper :: "nat \<Rightarrow> mstate \<Rightarrow> mfun \<Rightarrow> bool" where
  "has_wrapper n S F \<longleftrightarrow> get_fun S (m_id F) = Some F \<and>
     (\<exists>w W. map_of (replaced S) (m_id F) = Some w \<and> map_of (ms_unwrapped S) (VFun w) = Some (m_id F) \<and> n \<le> w \<and> w < next_fid S \<and>
        get_fun S w = Some W \<and> m_name W = ''dfsw$'' @ m_name F \<and> \<not> m_intrinsic W)"

lemma has_wrapper_frame: "has_wrapper n S F \<Longrightarrow> frame g S T \<Longrightarrow> g \<noteq> m_id F \<Longrightarrow> g < n \<Longrightarrow> has_wrapper n T F"
  unfolding has_wrapper_def frame_def by (metis leD le_trans less_le_trans)

definition to_wrap :: "dfs \<Rightarrow> mfun \<Rightarrow> bool" where
  "to_wrap D F \<longleftrightarrow> \<not> isInstrumented (SCL D) (ModuleId D) (m_name F) \<and>
     (\<not> IsZeroArgsVoidRet (m_type F) \<or> getWrapperKind (SCL D) (ModuleId D) (m_name F) = WK_Custom)"

lemma abi_step_wraps:
  assumes "abi_step D S i = Some T" "ids_lt S" "FnsToInstrument S ! i = Some (m_id F)" "get_fun S (m_id F) = Some F" "to_wrap D F" "n \<le> next_fid S"
  shows "has_wrapper n T F"
proof -
  have T: "T = wrap_fun D S i F" using assms(1,3-5) by (auto simp: abi_step_def to_wrap_def Let_def)
  note p = wrap_fun_parts [OF assms(2,4), of D i, folded T]
  then show ?thesis using assms(6) unfolding has_wrapper_def by auto
qed

text \<open>The state before the step \<open>j\<close>: the entries from \<open>j\<close> on are those of the beginning, \<open>L\<close>.\<close>

definition loop_inv :: "nat option list \<Rightarrow> nat \<Rightarrow> nat \<Rightarrow> mfun \<Rightarrow> nat \<Rightarrow> mstate \<Rightarrow> bool" where
  "loop_inv L n i F j S \<longleftrightarrow> ids_lt S \<and> n \<le> next_fid S \<and> length L \<le> length (FnsToInstrument S) \<and>
     (\<forall>k. j \<le> k \<longrightarrow> k < length L \<longrightarrow> FnsToInstrument S ! k = L ! k) \<and> get_fun S (m_id F) = Some F \<and> (i < j \<longrightarrow> has_wrapper n S F)"

lemma loop_inv_step:
  assumes "abi_step D S j = Some T" "loop_inv L n i F j S" "j < length L" "distinct L" "\<forall>f. Some f \<in> set L \<longrightarrow> f < n"
    "i < length L" "L ! i = Some (m_id F)" "to_wrap D F"
  shows "loop_inv L n i F (Suc j) T"
proof -
  have inv: "ids_lt S" "n \<le> next_fid S" "length L \<le> length (FnsToInstrument S)" "FnsToInstrument S ! j = L ! j" "get_fun S (m_id F) = Some F"
      "\<And>k. Suc j \<le> k \<Longrightarrow> k < length L \<Longrightarrow> FnsToInstrument S ! k = L ! k" "i < j \<Longrightarrow> has_wrapper n S F"
    using assms(2,3) by (auto simp: loop_inv_def)
  obtain f where f: "FnsToInstrument S ! j = Some f" "frame f S T" "length (FnsToInstrument S) \<le> length (FnsToInstrument T)"
      "\<And>k. k \<noteq> j \<Longrightarrow> k < length (FnsToInstrument S) \<Longrightarrow> FnsToInstrument T ! k = FnsToInstrument S ! k"
    using abi_step_frame [OF assms(1) inv(1)] by blast
  have rest: "ids_lt T" "n \<le> next_fid T" "length L \<le> length (FnsToInstrument T)"
      "\<forall>k. Suc j \<le> k \<longrightarrow> k < length L \<longrightarrow> FnsToInstrument T ! k = L ! k"
    using f(2,3,4) inv(2,3,6) by (auto simp: frame_def)
  show ?thesis
  proof (cases "j = i")
    case True
    have "has_wrapper n T F" using abi_step_wraps [OF assms(1) inv(1) _ inv(5) assms(8) inv(2)] inv(4) True assms(7) by simp
    then show ?thesis using rest by (simp add: loop_inv_def has_wrapper_def)
  next
    case False
    then have "f \<noteq> m_id F" using f(1) inv(4) assms(3,4,6,7) by (metis nth_eq_iff_index_eq)
    moreover have "f < n" using f(1) inv(4) assms(3,5) by (metis nth_mem)
    ultimately have "i < Suc j \<longrightarrow> has_wrapper n T F" "get_fun T (m_id F) = Some F"
      using has_wrapper_frame [OF inv(7) f(2)] False f(2) inv(5) by (auto simp: frame_def)
    then show ?thesis using rest by (simp add: loop_inv_def)
  qed
qed

lemma abi_steps_wrap:
  assumes "abi_steps D S [j..<length L] = Some T" "loop_inv L n i F j S" "distinct L" "\<forall>f. Some f \<in> set L \<longrightarrow> f < n"
    "i < length L" "L ! i = Some (m_id F)" "to_wrap D F" "j \<le> length L"
  shows "has_wrapper n T F"
  using assms(1,2,8)
proof (induction "length L - j" arbitrary: j S)
  case 0
  then show ?case using assms(5) by (simp add: loop_inv_def)
next
  case (Suc m)
  then have j: "j < length L" by simp
  then obtain S1 where S1: "abi_step D S j = Some S1" "abi_steps D S1 [Suc j..<length L] = Some T"
    using Suc.prems(1) by (auto simp: upt_conv_Cons Option.bind_eq_Some_conv)
  show ?case using Suc.hyps(1) [of "Suc j" S1] Suc.hyps(2) S1(2) loop_inv_step [OF S1(1) Suc.prems(2) j assms(3-7)] j by simp
qed

section \<open>Aliases\<close>

definition alias_inv :: "mfun \<Rightarrow> mstate \<Rightarrow> bool" where
  "alias_inv F S \<longleftrightarrow> ids_lt S \<and> distinct (FnsToInstrument S) \<and> (\<forall>f. Some f \<in> set (FnsToInstrument S) \<longrightarrow> f < next_fid S) \<and>
     Some (m_id F) \<in> set (FnsToInstrument S) \<and> get_fun S (m_id F) = Some F"

lemma alias_inv_step:
  assumes "alias_inv F S"
  shows "alias_inv F (alias_step D S GA) \<and> next_fid S \<le> next_fid (alias_step D S GA)"
proof -
  have same: "alias_inv F (S\<lparr>ms_aliases := a, ms_asm := b\<rparr>)" "alias_inv F (S\<lparr>ms_aliases := a\<rparr>)" for a b
    using assms by (simp_all add: alias_inv_def ids_lt_def get_fun_def)
  have new: "alias_inv F (add_fun S N\<lparr>FnsToInstrument := FnsToInstrument (add_fun S N) @ [Some (m_id N)], alias_replaced := r\<rparr>)"
    if "m_id N = next_fid S" for N r
  proof -
    have "get_fun (add_fun S N) (m_id F) = Some F" using assms get_fun_add(1) by (simp add: alias_inv_def)
    moreover have "FnsToInstrument (add_fun S N) = FnsToInstrument S" by (simp add: add_fun_def)
    moreover have "Some (next_fid S) \<notin> set (FnsToInstrument S)" using assms by (auto simp: alias_inv_def)
    moreover have "ids_lt (add_fun S N)" "next_fid (add_fun S N) = Suc (next_fid S)"
      using assms that by (auto simp: alias_inv_def ids_lt_def add_fun_def)
    ultimately show ?thesis using assms that by (auto simp: alias_inv_def ids_lt_def get_fun_def)
  qed
  show ?thesis
    using same new
    by (auto simp: alias_step_def Let_def buildWrapperFunction_def add_fun_def split: option.splits prod.splits)
qed

lemma alias_inv_fold: "alias_inv F S \<Longrightarrow> alias_inv F (fold (\<lambda>GA S. alias_step D S GA) gas S) \<and>
    next_fid S \<le> next_fid (fold (\<lambda>GA S. alias_step D S GA) gas S)"
proof (induction gas arbitrary: S)
  case (Cons g gas)
  have 1: "alias_inv F (alias_step D S g)" "next_fid S \<le> next_fid (alias_step D S g)" using alias_inv_step [OF Cons.prems, of D g] by simp_all
  show ?case using Cons.IH [OF 1(1)] le_trans [OF 1(2)] by simp
qed simp

section \<open>The whole module\<close>

lemma module_has_wrapper:
  assumes "runOnModule_dfs Ds asm fs gas fid = Some (S, rs)" "\<not> isIn_module (SCL (Ds 0)) (ModuleId (Ds 0)) ''skip''"
    "distinct (map m_id fs)" "\<forall>F\<in>set fs. m_id F < fid" "F \<in> set fs" "\<not> m_intrinsic F" "m_name F \<notin> set runtime_functions" "to_wrap (Ds 0) F"
  shows "has_wrapper fid S F"
proof -
  define S0 where "S0 = \<lparr>ms_functions = fs, ms_aliases = [], ms_asm = asm, next_fid = fid,
               FnsToInstrument = map (\<lambda>F. Some (m_id F)) (filter (\<lambda>F. \<not> m_intrinsic F \<and> m_name F \<notin> set runtime_functions) fs),
               FnsWithNativeABI = [], ms_unwrapped = [], replaced = [], alias_replaced = []\<rparr>"
  define S1 where "S1 = fold (\<lambda>GA S. alias_step (Ds 0) S GA) gas S0"
  have steps: "abi_steps (Ds 0) S1 [0..<length (FnsToInstrument S1)] = Some S"
    using assms(1,2) by (auto simp: runOnModule_dfs_def Let_def S0_def S1_def Option.bind_eq_Some_conv split del: if_split)
  have "inj_on m_id (set fs)" using assms(3) by (simp add: distinct_map)
  then have "find (\<lambda>x. m_id x = m_id F) fs = Some F"
    using assms(5) by (induction fs) (auto simp: inj_on_def)
  moreover have "distinct (FnsToInstrument S0)"
    using assms(3) by (auto simp: S0_def distinct_map inj_on_def)
  ultimately have "alias_inv F S0" using assms(4-7) by (auto simp: alias_inv_def S0_def ids_lt_def get_fun_def)
  then have i1: "alias_inv F S1" "fid \<le> next_fid S1" using alias_inv_fold [of F S0 "Ds 0" gas] by (auto simp: S1_def S0_def)
  then obtain i where i: "i < length (FnsToInstrument S1)" "FnsToInstrument S1 ! i = Some (m_id F)"
    by (auto simp: alias_inv_def in_set_conv_nth)
  have "loop_inv (FnsToInstrument S1) (next_fid S1) i F 0 S1" using i1(1) by (auto simp: loop_inv_def alias_inv_def)
  then have "has_wrapper (next_fid S1) S F"
    using abi_steps_wrap [OF steps, of "next_fid S1" i F] i i1(1) assms(8) by (auto simp: alias_inv_def)
  then show ?thesis using i1(2) by (auto simp: has_wrapper_def)
qed


text \<open>A module in which \<open>main\<close> calls the external function \<open>read\<close>, for which there is a wrapper.\<close>

definition read_type :: functype where
  "read_type = \<lparr>ret_type = IntT 64, params = [IntT 32, Int8PtrTy, IntT 64], isVarArg = False\<rparr>"

definition read_cs :: callsite where
  "read_cs = \<lparr>calledValue = VFun 1, calledType = read_type, callArgs = [VConstInt 0, VArg 0, VConstInt 4], callAttrs = []\<rparr>"

definition read_module :: "mfun list" where
  "read_module =
     [\<lparr>m_id = 0, m_name = ''main'', m_type = \<lparr>ret_type = IntT 64, params = [Int8PtrTy], isVarArg = False\<rparr>, m_linkage = OtherLinkage 0,
       m_intrinsic = False,
       m_blocks = [[\<lparr>i_id = 0, i_parent = 0, i_type = IntT 64, i_op = CallInst read_cs\<rparr>,
                    \<lparr>i_id = 1, i_parent = 0, i_type = VoidT, i_op = ReturnInst (Some (VInst 0))\<rparr>]]\<rparr>,
      \<lparr>m_id = 1, m_name = ''read'', m_type = read_type, m_linkage = OtherLinkage 0, m_intrinsic = False, m_blocks = []\<rparr>]"

definition read_dfs :: dfs where
  "read_dfs = sample_dfs\<lparr>SCL := (\<lambda>p q c. p = ''fun'' \<and> q = ''read'' \<and> (c = ''uninstrumented'' \<or> c = ''custom'')),
     val_type := (\<lambda>v. if v = VArg 0 then Int8PtrTy else if v = VConstInt 0 then IntT 32 else IntT 64)\<rparr>"

end
