(* ===== verification/Emitted_Code.thy ===== *)
theory Emitted_Code
  imports LLVM_IR
begin

text \<open>
  The instructions that the passes insert through \<^verbatim>\<open>IRBuilder\<close>, and what they do when the instrumented program
  runs.  Every inserted instruction that has a result is numbered; operands are constants, such results, or values
  of the program.  The flag beside an instruction is the \<^verbatim>\<open>nosanitize\<close> metadata.
\<close>

datatype gvar = AngoraMapPtr | AngoraPrevLoc | AngoraContext | AngoraCondId | AngoraCallSite | ParmeSanIndCallSite

datatype opd = Imm u64 | Tmp nat | Prog irvalue

datatype code =
    LoadG nat gvar
  | StoreG opd gvar
  | ZExtI nat opd
  | XorI nat opd opd
  | LShrI nat opd nat
  | AddI8 nat opd opd
  | EqI nat opd opd
  | GepI nat opd opd
  | LoadByte nat opd
  | StoreByte opd opd
  | FPToUI nat opd nat
  | IntCastI nat opd
  | PtrToIntI nat opd
  | ArrayPtr nat "u64 list"
  | CallRT string "opd list"
  | IfThen opd "(bool \<times> code) list"

type_synonym emitted = "(bool \<times> code) list"

section \<open>Running inserted code\<close>

text \<open>The run-time state of one activation: the results computed so far, the globals of the instrumentation, the
  coverage map as bytes of memory, and the calls into the runtime.  \<open>pv\<close> gives the values of the program, \<open>fp\<close> the
  conversion of a floating point value and \<open>arr\<close> the address of a constant array.\<close>

record exec =
  tmp :: "nat \<Rightarrow> u64"
  gval :: "gvar \<Rightarrow> u64"
  bytes :: "u64 \<Rightarrow> u8"
  calls :: "(string \<times> u64 list) list"

record prog_env =
  pv :: "irvalue \<Rightarrow> u64"
  fp :: "nat \<Rightarrow> u64 \<Rightarrow> u64"
  arr :: "u64 list \<Rightarrow> u64"

fun opval :: "prog_env \<Rightarrow> exec \<Rightarrow> opd \<Rightarrow> u64" where
  "opval E s (Imm c) = c"
| "opval E s (Tmp n) = tmp s n"
| "opval E s (Prog v) = pv E v"

abbreviation set_tmp :: "exec \<Rightarrow> nat \<Rightarrow> u64 \<Rightarrow> exec" where
  "set_tmp s n v \<equiv> s\<lparr>tmp := (tmp s)(n := v)\<rparr>"

text \<open>The globals other than the map pointer are 32 bits wide; the index of an address computation is a signed
  32-bit number.\<close>

fun run_code :: "prog_env \<Rightarrow> exec \<Rightarrow> code \<Rightarrow> exec" and run_codes :: "prog_env \<Rightarrow> exec \<Rightarrow> (bool \<times> code) list \<Rightarrow> exec" where
  "run_code E s (LoadG d g) = set_tmp s d (gval s g)"
| "run_code E s (StoreG v g) = s\<lparr>gval := (gval s)(g := take_bit 32 (opval E s v))\<rparr>"
| "run_code E s (ZExtI d v) = set_tmp s d (opval E s v)"
| "run_code E s (XorI d a b) = set_tmp s d (opval E s a XOR opval E s b)"
| "run_code E s (LShrI d a k) = set_tmp s d (drop_bit k (opval E s a))"
| "run_code E s (AddI8 d a b) = set_tmp s d (take_bit 8 (opval E s a + opval E s b))"
| "run_code E s (EqI d a b) = set_tmp s d (if opval E s a = opval E s b then 1 else 0)"
| "run_code E s (GepI d p i) = set_tmp s d (opval E s p + scast (ucast (opval E s i) :: u32))"
| "run_code E s (LoadByte d p) = set_tmp s d (ucast (bytes s (opval E s p)))"
| "run_code E s (StoreByte v p) = s\<lparr>bytes := (bytes s)(opval E s p := ucast (opval E s v))\<rparr>"
| "run_code E s (FPToUI d v w) = set_tmp s d (fp E w (opval E s v))"
| "run_code E s (IntCastI d v) = set_tmp s d (opval E s v)"
| "run_code E s (PtrToIntI d v) = set_tmp s d (opval E s v)"
| "run_code E s (ArrayPtr d cs) = set_tmp s d (arr E cs)"
| "run_code E s (CallRT f vs) = s\<lparr>calls := calls s @ [(f, map (opval E s) vs)]\<rparr>"
| "run_code E s (IfThen c body) = (if opval E s c \<noteq> 0 then run_codes E s body else s)"
| "run_codes E s [] = s"
| "run_codes E s (c # cs) = run_codes E (run_code E s (snd c)) cs"

lemma run_codes_append: "run_codes E s (xs @ ys) = run_codes E (run_codes E s xs) ys"
  by (induction xs arbitrary: s) simp_all

end
