(* ===== verification/Angora_Pass.thy ===== *)
theory Angora_Pass
  imports Emitted_Code "HOL-Library.Monad_Syntax"
begin

text \<open>
  The instrumentation pass, \<^verbatim>\<open>llvm_mode/pass/AngoraPass.cc\<close>.  It inserts edge counters, function contexts and calls
  that report comparisons.  The pass keeps its members in a record; what it inserts is recorded with the place: before
  an instruction, or directly after one.  What LLVM and the command line give is a record of parameters.  \<open>None\<close> is a
  fatal error, or the search for an unused identifier that does not end.  The log output to \<^verbatim>\<open>stderr\<close> is left out.
\<close>

section \<open>State\<close>

datatype point = Before vid | After vid

record angora_env =
  TrackMode :: bool
  DFSanMode :: bool
  type_of :: "irvalue \<Rightarrow> ty"
  isEHPad :: "inst \<Rightarrow> bool"
  isIntrinsic :: "vid \<Rightarrow> bool"
  exploit_section :: "string \<Rightarrow> string \<Rightarrow> string \<Rightarrow> bool" \<comment> \<open>prefix, name, category\<close>
  opcode_num :: "opcode \<Rightarrow> u32"
  opcode_name :: "opcode \<Rightarrow> string"
  random :: "nat \<Rightarrow> nat" \<comment> \<open>the sequence of \<^verbatim>\<open>random()\<close> after \<^verbatim>\<open>srandom\<close>\<close>

record pass =
  FastMode :: bool
  is_bc :: bool
  gen_id_random :: bool
  ModId :: u32
  CidCounter :: u32
  RandSeed :: u64
  inst_ratio :: u32
  num_fn_ctx :: int
  UniqCidSet :: "u32 list"
  IdMap :: "(vid \<times> u32) list"
  random_used :: nat
  next_tmp :: nat
  placed :: "(point \<times> emitted) list"
  erased :: "vid list"

definition MAP_SIZE :: nat where
  "MAP_SIZE = 2 ^ 20"

text \<open>Inserting code at a place; the code uses \<open>k\<close> new results.\<close>

definition place :: "pass \<Rightarrow> point \<Rightarrow> emitted \<Rightarrow> nat \<Rightarrow> pass" where
  "place s p cs k = s\<lparr>placed := placed s @ [(p, cs)], next_tmp := next_tmp s + k\<rparr>"

section \<open>Identifiers\<close>

definition hashName :: "string \<Rightarrow> u32 \<Rightarrow> u32" where
  "hashName s fsize = fold (\<lambda>c hash. push_bit 5 hash + hash + of_char c) s (5381 + fsize * 223)"

definition getRandomBasicBlockId :: "angora_env \<Rightarrow> pass \<Rightarrow> u32 \<times> pass" where
  "getRandomBasicBlockId E s = (of_nat (random E (random_used s) mod MAP_SIZE), s\<lparr>random_used := Suc (random_used s)\<rparr>)"

definition skipBasicBlock :: "angora_env \<Rightarrow> pass \<Rightarrow> bool \<times> pass" where
  "skipBasicBlock E s =
     (random E (random_used s) mod 100 \<ge> unat (inst_ratio s), s\<lparr>random_used := Suc (random_used s)\<rparr>)"

definition getRandomNum :: "pass \<Rightarrow> u32 \<times> pass" where
  "getRandomNum s = (let seed = RandSeed s * 1103515245 + 12345 in (ucast seed, s\<lparr>RandSeed := seed\<rparr>))"

definition setRandomNumSeed :: "pass \<Rightarrow> u32 \<Rightarrow> pass" where
  "setRandomNumSeed s seed = s\<lparr>RandSeed := ucast seed\<rparr>"

definition getRandomContextId :: "pass \<Rightarrow> u32 \<times> pass" where
  "getRandomContextId s = (let (r, s1) = getRandomNum s in (of_nat (unat r mod MAP_SIZE), s1))"

definition getRandomInstructionId :: "pass \<Rightarrow> u32 \<times> pass" where
  "getRandomInstructionId s = getRandomNum s"

partial_function (option) unused_id :: "u32 list \<Rightarrow> u32 \<Rightarrow> u32 option" where
  [code]: "unused_id used h = (if h \<in> set used then unused_id used (h * 3 + 1) else Some h)"

definition first_id :: "pass \<Rightarrow> inst \<Rightarrow> u32 \<times> pass" where
  "first_id s I =
     (if gen_id_random s then getRandomInstructionId s
      else case idebug I of
        Some loc \<Rightarrow> ((of_nat (dl_col loc) * 33 + of_nat (dl_line loc)) * 33 + ModId s, s)
      | None \<Rightarrow> getRandomInstructionId s)"

definition getInstructionId :: "pass \<Rightarrow> inst \<Rightarrow> (u32 \<times> pass) option" where
  "getInstructionId s I = do {
     (h, s1) \<leftarrow>
       (if is_bc s then Some (CidCounter s + 1, s\<lparr>CidCounter := CidCounter s + 1\<rparr>)
        else do {
          let (h0, t) = first_id s I;
          h \<leftarrow> unused_id (UniqCidSet t) h0;
          Some (h, t\<lparr>UniqCidSet := h # UniqCidSet t\<rparr>)
        });
     Some (h, s1\<lparr>IdMap := (iaddr I, h) # filter (\<lambda>(v, _). v \<noteq> iaddr I) (IdMap s1)\<rparr>)
   }"

section \<open>Initialisation\<close>

text \<open>\<open>name\<close> is the module identifier and \<open>fsize\<close> the size of the file of that name; \<open>ratio\<close> and \<open>ctx\<close> are the
  environment variables, when set: the number that was read, if one was.\<close>

definition initVariables :: "string \<Rightarrow> u32 \<Rightarrow> u32 option option \<Rightarrow> bool \<Rightarrow> int option \<Rightarrow> bool \<Rightarrow> pass option" where
  "initVariables name fsize ratio gen_random ctx fast =
     (if name = [] then None
      else if length name < 3 then None
      else do {
        r \<leftarrow> (case ratio of None \<Rightarrow> Some 100
               | Some None \<Rightarrow> None
               | Some (Some n) \<Rightarrow> if n = 0 \<or> n > 100 then None else Some n);
        c \<leftarrow> (case ctx of None \<Rightarrow> Some (- 1) | Some n \<Rightarrow> if n < 0 \<or> n \<ge> 32 then None else Some n);
        let h = hashName name fsize;
        Some \<lparr>FastMode = fast, is_bc = (drop (length name - 3) name = ''.bc''), gen_id_random = gen_random, ModId = h,
              CidCounter = 0, RandSeed = ucast h, inst_ratio = r, num_fn_ctx = c, UniqCidSet = [], IdMap = [],
              random_used = 0, next_tmp = 0, placed = [], erased = []\<rparr>
      })"

section \<open>Edge counters\<close>

text \<open>The counter skips zero when it wraps around.\<close>

definition count_code :: "nat \<Rightarrow> int \<Rightarrow> u32 \<Rightarrow> emitted" where
  "count_code n ctx cur_loc =
     [(True, LoadG n AngoraPrevLoc),
      (True, ZExtI (n + 1) (Tmp n)),
      (True, LoadG (n + 2) AngoraMapPtr),
      (True, XorI (n + 3) (Tmp (n + 1)) (Imm (ucast cur_loc))),
      (True, GepI (n + 4) (Tmp (n + 2)) (Tmp (n + 3))),
      (True, LoadByte (n + 5) (Tmp (n + 4))),
      (True, AddI8 (n + 6) (Tmp (n + 5)) (Imm 1)),
      (True, EqI (n + 7) (Tmp (n + 6)) (Imm 0)),
      (True, ZExtI (n + 8) (Tmp (n + 7))),
      (True, AddI8 (n + 9) (Tmp (n + 6)) (Tmp (n + 8))),
      (True, StoreByte (Tmp (n + 9)) (Tmp (n + 4)))] @
     (if ctx \<noteq> 0
      then [(True, LoadG (n + 10) AngoraContext),
            (True, ZExtI (n + 11) (Tmp (n + 10))),
            (True, XorI (n + 12) (Tmp (n + 11)) (Imm (ucast (drop_bit 1 cur_loc)))),
            (True, StoreG (Tmp (n + 12)) AngoraPrevLoc)]
      else [(True, StoreG (Imm (ucast (drop_bit 1 cur_loc))) AngoraPrevLoc)])"

definition countEdge :: "angora_env \<Rightarrow> pass \<Rightarrow> point \<Rightarrow> pass" where
  "countEdge E s p =
     (if \<not> FastMode s then s
      else let (skip, s1) = skipBasicBlock E s in
        if skip then s1
        else let (cur_loc, s2) = getRandomBasicBlockId E s1 in
          place s2 p (count_code (next_tmp s2) (num_fn_ctx s2) cur_loc) 13)"

section \<open>Function contexts\<close>

definition reset_code :: "(bool \<times> code)" where
  "reset_code = (True, StoreG (Imm 0) ParmeSanIndCallSite)"

text \<open>The number of the result that is written back at the end is that of the shifted context when there is a shift.\<close>

definition enter_code :: "nat \<Rightarrow> int \<Rightarrow> emitted" where
  "enter_code n ctx =
     [(True, LoadG n AngoraCallSite), (True, LoadG (n + 1) AngoraContext)] @
     (if ctx > 0 then [(True, LShrI (n + 2) (Tmp (n + 1)) (32 div nat ctx))] else []) @
     [(True, XorI (n + 3) (Tmp (if ctx > 0 then n + 2 else n + 1)) (Tmp n)),
      (True, StoreG (Tmp (n + 3)) AngoraContext)]"

definition leave_code :: "nat \<Rightarrow> int \<Rightarrow> emitted" where
  "leave_code n ctx = [(True, StoreG (Tmp (if ctx > 0 then n + 2 else n + 1)) AngoraContext), reset_code]"

text \<open>\<^verbatim>\<open>getFirstInsertionPt\<close>: behind the phi nodes, and behind an exception pad.\<close>

definition first_insertion :: "angora_env \<Rightarrow> inst list \<Rightarrow> inst option" where
  "first_insertion E is = (case dropWhile (\<lambda>I. inst_opcode I = PHI) is of
     [] \<Rightarrow> None
   | I # rest \<Rightarrow> if isEHPad E I then (case rest of [] \<Rightarrow> None | J # _ \<Rightarrow> Some J) else Some I)"

definition addFnWrap :: "angora_env \<Rightarrow> pass \<Rightarrow> func \<Rightarrow> pass" where
  "addFnWrap E s F =
     (if num_fn_ctx s = 0 then s
      else case blocks F of [] \<Rightarrow> s
      | B # _ \<Rightarrow> (case first_insertion E (insts B) of None \<Rightarrow> s
        | Some I \<Rightarrow>
            let n = next_tmp s;
                s1 = place s (Before (iaddr I)) (enter_code n (num_fn_ctx s)) 4;
                exits = filter (\<lambda>J. inst_opcode J = Ret \<or> inst_opcode J = Resume)
                          (List.map_filter terminator (blocks F))
            in fold (\<lambda>J t. place t (Before (iaddr J)) (leave_code n (num_fn_ctx s)) 0) exits s1))"

section \<open>Comparisons\<close>

text \<open>The value widened to 64 bits, the code that does it, and the number of results.  \<^verbatim>\<open>IRBuilder\<close> folds the casts of
  constants, with the same value.\<close>

fun castArgType :: "angora_env \<Rightarrow> nat \<Rightarrow> irvalue \<Rightarrow> opd \<times> emitted" where
  "castArgType E n V = (case type_of E V of
     FloatTy \<Rightarrow> (Tmp (n + 1), [(True, FPToUI n (Prog V) 32), (True, IntCastI (n + 1) (Tmp n))])
   | DoubleTy \<Rightarrow> (Tmp n, [(True, FPToUI n (Prog V) 64)])
   | PointerTy _ \<Rightarrow> (Tmp n, [(False, PtrToIntI n (Prog V))])
   | IntegerTy w \<Rightarrow> if w < 64 then (Tmp n, [(False, ZExtI n (Prog V))]) else (Prog V, [])
   | _ \<Rightarrow> (Prog V, []))"

fun scalar_bits :: "ty \<Rightarrow> nat" where
  "scalar_bits (IntegerTy w) = w"
| "scalar_bits FloatTy = 32"
| "scalar_bits DoubleTy = 64"
| "scalar_bits _ = 0"

definition COND_EQ_OP :: u32 where "COND_EQ_OP = 32"
definition COND_SIGN_MASK :: u32 where "COND_SIGN_MASK = 0x100"
definition COND_BOOL_MASK :: u32 where "COND_BOOL_MASK = 0x200"
definition COND_EXPLOIT_MASK :: u32 where "COND_EXPLOIT_MASK = 0x4000"

abbreviation Imm32 :: "u32 \<Rightarrow> opd" where
  "Imm32 c \<equiv> Imm (ucast c)"

text \<open>The guard of the fast mode: the body runs for the comparison the fuzzer asks for.\<close>

definition guarded :: "nat \<Rightarrow> u32 \<Rightarrow> emitted \<Rightarrow> emitted" where
  "guarded n cid body =
     [(True, LoadG n AngoraCondId), (True, EqI (n + 1) (Imm32 cid) (Tmp n)), (True, IfThen (Tmp (n + 1)) body)]"

definition processBoolCmp :: "angora_env \<Rightarrow> pass \<Rightarrow> irvalue \<Rightarrow> u32 \<Rightarrow> point \<Rightarrow> pass" where
  "processBoolCmp E s cond cid p = (case type_of E cond of
     IntegerTy w \<Rightarrow>
       if w > 32 then s
       else let n = next_tmp s in
         if FastMode s then
           place s p (guarded n cid
             [(True, ZExtI (n + 2) (Prog cond)), (True, ZExtI (n + 3) (Tmp (n + 2))), (True, LoadG (n + 4) AngoraContext),
              (True, CallRT ''__angora_trace_cmp'' [Tmp (n + 2), Imm32 cid, Tmp (n + 4), Tmp (n + 3), Imm 1])]) 5
         else if TrackMode E then
           place s p
             [(True, ZExtI n (Prog cond)), (True, ZExtI (n + 1) (Tmp n)), (True, LoadG (n + 2) AngoraContext),
              (True, LoadG (n + 3) ParmeSanIndCallSite),
              (True, CallRT ''__angora_trace_cmp_tt''
                 [Imm32 cid, Tmp (n + 2), Tmp (n + 3), Imm 1, Imm32 (COND_EQ_OP OR COND_BOOL_MASK), Tmp (n + 1), Imm 1, Tmp n]),
              reset_code] 4
         else s
   | _ \<Rightarrow> s)"

text \<open>A negative constant on the right marks the comparison as signed.\<close>

fun cmp_type :: "nat \<Rightarrow> irvalue \<Rightarrow> u32" where
  "cmp_type pred (Const (ConstantInt w v)) = (if v < 0 then of_nat pred OR COND_SIGN_MASK else of_nat pred)"
| "cmp_type pred _ = of_nat pred"

definition processCmp :: "angora_env \<Rightarrow> pass \<Rightarrow> inst \<Rightarrow> nat \<Rightarrow> irvalue \<Rightarrow> irvalue \<Rightarrow> u32 \<Rightarrow> point \<Rightarrow> pass" where
  "processCmp E s cmp pred a b cid p = (
     let t = type_of E a; cond = inst_value cmp in
     if \<not> (case t of IntegerTy w \<Rightarrow> w \<le> 64 | FloatTy \<Rightarrow> True | DoubleTy \<Rightarrow> True | PointerTy _ \<Rightarrow> True | _ \<Rightarrow> False)
     then processBoolCmp E s cond cid p
     else let num_bytes = (if scalar_bits t div 8 = 0 then (if isPointerTy t then 8 else 0) else scalar_bits t div 8) in
       if num_bytes = 0 then s
       else let n = next_tmp s in
         if FastMode s then
           let (v0, c0) = castArgType E (n + 2) a; (v1, c1) = castArgType E (n + 4) b in
           place s p (guarded n cid (c0 @ c1 @
             [(True, ZExtI (n + 6) (Prog cond)), (True, LoadG (n + 7) AngoraContext),
              (True, CallRT ''__angora_trace_cmp'' [Tmp (n + 6), Imm32 cid, Tmp (n + 7), v0, v1])])) 8
         else if TrackMode E then
           let (v0, c0) = castArgType E (n + 1) a; (v1, c1) = castArgType E (n + 3) b in
           place s p ([(True, ZExtI n (Prog cond))] @ c0 @ c1 @
             [(True, LoadG (n + 5) AngoraContext), (True, LoadG (n + 6) ParmeSanIndCallSite),
              (True, CallRT ''__angora_trace_cmp_tt''
                 [Imm32 cid, Tmp (n + 5), Tmp (n + 6), Imm (of_nat num_bytes), Imm32 (cmp_type pred b), v0, v1, Tmp n]),
              reset_code]) 7
         else s)"

text \<open>The last instruction of a block has no successor to insert before.\<close>

definition visitCmpInst :: "angora_env \<Rightarrow> pass \<Rightarrow> inst \<Rightarrow> bool \<Rightarrow> nat \<Rightarrow> irvalue \<Rightarrow> irvalue \<Rightarrow> pass option" where
  "visitCmpInst E s I is_last pred a b =
     (if is_last then Some s
      else do { (cid, s1) \<leftarrow> getInstructionId s I; Some (processCmp E s1 I pred a b cid (After (iaddr I))) })"

fun is_constant_int :: "irvalue \<Rightarrow> bool" where
  "is_constant_int (Const (ConstantInt _ _)) = True"
| "is_constant_int _ = False"

fun is_cmp :: "irvalue \<Rightarrow> bool" where
  "is_cmp (Inst ICmp _) = True"
| "is_cmp (Inst FCmp _) = True"
| "is_cmp _ = False"

fun is_int_ty :: "ty \<Rightarrow> bool" where
  "is_int_ty (IntegerTy _) = True"
| "is_int_ty _ = False"

definition visitBranchInst :: "angora_env \<Rightarrow> pass \<Rightarrow> inst \<Rightarrow> pass option" where
  "visitBranchInst E s I = (case ikind I of
     CondBranchInst cond _ _ \<Rightarrow>
       if is_int_ty (type_of E cond) \<and> \<not> is_constant_int cond \<and> \<not> is_cmp cond
       then do { (cid, s1) \<leftarrow> getInstructionId s I; Some (processBoolCmp E s1 cond cid (Before (iaddr I))) }
       else Some s
   | _ \<Rightarrow> Some s)"

fun case_value :: "irconst \<Rightarrow> u64 option" where
  "case_value (ConstantInt w v) = (if w > 64 then None else Some (of_int (v mod 2 ^ w)))"
| "case_value _ = None"

definition visitSwitchInst :: "angora_env \<Rightarrow> pass \<Rightarrow> inst \<Rightarrow> irvalue \<Rightarrow> (irconst \<times> vid) list \<Rightarrow> pass option" where
  "visitSwitchInst E s I cond cases = (
     let bits = scalar_bits (type_of E cond) in
     if \<not> (is_int_ty (type_of E cond) \<and> \<not> is_constant_int cond) \<or> bits div 8 = 0 \<or> bits mod 8 > 0 then Some s
     else do {
       (cid, s1) \<leftarrow> getInstructionId s I;
       let n = next_tmp s1; let p = Before (iaddr I);
       if FastMode s1 then
         Some (place s1 p (guarded n cid
           [(True, ZExtI (n + 2) (Prog cond)), (True, LoadG (n + 3) AngoraContext),
            (True, CallRT ''__angora_trace_switch'' [Imm32 cid, Tmp (n + 3), Tmp (n + 2)])]) 4)
       else if TrackMode E then
         let args = List.map_filter (\<lambda>c. case_value (fst c)) cases in
         Some (place s1 p
           [(True, ArrayPtr n args), (True, ZExtI (n + 1) (Prog cond)), (True, LoadG (n + 2) AngoraContext),
            (True, LoadG (n + 3) ParmeSanIndCallSite),
            (True, CallRT ''__angora_trace_switch_tt''
               [Imm32 cid, Tmp (n + 2), Tmp (n + 3), Imm (of_nat (bits div 8)), Tmp (n + 1), Imm (of_nat (length args)), Tmp n]),
            reset_code] 4)
       else Some s1
     })"
section \<open>Calls and exploitation points\<close>

text \<open>\<^verbatim>\<open>getCalledFunction() != NULL\<close> for a call or an invoke.\<close>

fun is_direct :: "ikind \<Rightarrow> bool" where
  "is_direct (CallInst f _) = (called_function f \<noteq> None)"
| "is_direct (InvokeInst f _ _ _) = (called_function f \<noteq> None)"
| "is_direct _ = False"

fun call_args :: "ikind \<Rightarrow> irvalue list" where
  "call_args (CallInst _ as) = as"
| "call_args _ = []"

text \<open>\<^verbatim>\<open>AngoraABIList::isIn(Instruction &)\<close>: a call by the name of its callee, another instruction by its opcode.  It is
  asked about direct calls only.\<close>

definition exploit_isIn :: "angora_env \<Rightarrow> inst \<Rightarrow> string \<Rightarrow> bool" where
  "exploit_isIn E I cat = (case ikind I of
     CallInst f _ \<Rightarrow> (case called_function f of Some (_, n) \<Rightarrow> exploit_section E ''fun'' n cat | None \<Rightarrow> False)
   | _ \<Rightarrow> exploit_section E ''ins'' (opcode_name E (inst_opcode I)) cat)"

definition visitCompareFunc :: "angora_env \<Rightarrow> pass \<Rightarrow> inst \<Rightarrow> pass option" where
  "visitCompareFunc E s I =
     (if \<not> is_call I \<or> \<not> exploit_isIn E I ''cmpfn'' then Some s
      else do {
        (cid, s1) \<leftarrow> getInstructionId s I;
        if \<not> TrackMode E then Some s1
        else case call_args (ikind I) of
          a0 # a1 # rest \<Rightarrow>
            if \<not> isPointerTy (type_of E a0) \<or> \<not> isPointerTy (type_of E a1) then Some s1
            else let n = next_tmp s1; sz = (case rest of [] \<Rightarrow> Imm 0 | a2 # _ \<Rightarrow> Prog a2) in
              Some (place s1 (Before (iaddr I))
                [(True, LoadG n AngoraContext), (True, LoadG (n + 1) ParmeSanIndCallSite),
                 (True, CallRT ''__angora_trace_fn_tt'' [Imm32 cid, Tmp n, Tmp (n + 1), sz, Prog a0, Prog a1])] 2)
        | _ \<Rightarrow> None
      })"

definition ExploitCategory :: "string list" where
  "ExploitCategory = [''i0'', ''i1'', ''i2'', ''i3'', ''i4'']"

text \<open>One parameter of an exploitation point; the size of an integer is in bytes.\<close>

definition exploit_param :: "angora_env \<Rightarrow> inst \<Rightarrow> irvalue \<Rightarrow> pass \<Rightarrow> pass option" where
  "exploit_param E I v s = (
     let t = type_of E v in
     if \<not> (is_int_ty t \<or> isPointerTy t) \<or> is_constant_int v then Some s
     else do {
       (cid, s1) \<leftarrow> getInstructionId s I;
       let n = next_tmp s1;
       let ext = \<not> isPointerTy t \<and> t \<noteq> IntegerTy 64;
       let sz = (if isPointerTy t then 8 else scalar_bits t div 8);
       let cs = (if ext then [(False, ZExtI n (Prog v))] else []);
       Some (place s1 (Before (iaddr I))
         (cs @ (if TrackMode E
                then [(True, LoadG (n + 1) AngoraContext), (True, LoadG (n + 2) ParmeSanIndCallSite),
                      (True, CallRT ''__angora_trace_exploit_val_tt''
                         [Imm32 cid, Tmp (n + 1), Tmp (n + 2), Imm (of_nat sz),
                          Imm32 (COND_EXPLOIT_MASK OR opcode_num E (inst_opcode I)), if ext then Tmp n else Prog v])]
                else [])) 3)
     })"

fun exploit_params :: "angora_env \<Rightarrow> inst \<Rightarrow> (irvalue \<times> string) list \<Rightarrow> pass \<Rightarrow> pass option" where
  "exploit_params E I [] s = Some s"
| "exploit_params E I ((v, cat) # vs) s = do {
     s1 \<leftarrow> (if exploit_isIn E I ''all'' \<or> exploit_isIn E I cat then exploit_param E I v s else Some s);
     exploit_params E I vs s1
   }"

definition visitExploitation :: "angora_env \<Rightarrow> pass \<Rightarrow> inst \<Rightarrow> pass option" where
  "visitExploitation E s I =
     exploit_params E I (zip (if is_call I then call_args (ikind I) else operands I) ExploitCategory) s"

definition processCall :: "angora_env \<Rightarrow> pass \<Rightarrow> inst \<Rightarrow> pass option" where
  "processCall E s I = do {
     let direct = is_direct (ikind I);
     s1 \<leftarrow> (if direct then do { t \<leftarrow> visitCompareFunc E s I; visitExploitation E t I } else Some s);
     let (csid, s2) = getRandomContextId s1;
     Some (place s2 (Before (iaddr I))
       ((if num_fn_ctx s2 \<noteq> 0 then [(True, StoreG (Imm32 csid) AngoraCallSite)] else []) @
        (if \<not> direct then [(True, StoreG (Imm32 csid) ParmeSanIndCallSite)] else [])) 0)
   }"

fun is_inline_asm :: "irvalue \<Rightarrow> bool" where
  "is_inline_asm (InlineAsm _) = True"
| "is_inline_asm _ = False"

definition visitCallInst :: "angora_env \<Rightarrow> pass \<Rightarrow> inst \<Rightarrow> irvalue \<Rightarrow> pass option" where
  "visitCallInst E s I f = (case called_function f of
     Some (a, n) \<Rightarrow>
       if isIntrinsic E a then Some s
       else if n = ''__unfold_branch_fn''
       then Some (if use_empty I then s\<lparr>erased := erased s @ [iaddr I]\<rparr> else s)
       else processCall E s I
   | None \<Rightarrow> if is_inline_asm f then Some s else processCall E s I)"

definition visitInvokeInst :: "angora_env \<Rightarrow> pass \<Rightarrow> inst \<Rightarrow> irvalue \<Rightarrow> pass option" where
  "visitInvokeInst E s I f = (case called_function f of
     None \<Rightarrow> Some s
   | Some (a, n) \<Rightarrow> if isIntrinsic E a then Some s else processCall E s I)"

section \<open>The pass over a module\<close>

text \<open>Whether an instruction is the first insertion point of its block when it is visited: nothing has been inserted
  before it or before an instruction in front of it.\<close>

definition at_first_insertion :: "angora_env \<Rightarrow> pass \<Rightarrow> block \<Rightarrow> inst \<Rightarrow> bool" where
  "at_first_insertion E s B I \<longleftrightarrow> first_insertion E (insts B) = Some I \<and>
     (let front = insert (iaddr I) (set (map iaddr (takeWhile (\<lambda>J. iaddr J \<noteq> iaddr I) (insts B)))) in
      list_all (\<lambda>(p, cs). case p of Before v \<Rightarrow> v \<notin> front \<or> cs = [] | After v \<Rightarrow> v \<notin> front) (placed s))"

definition visit_inst :: "angora_env \<Rightarrow> block \<Rightarrow> pass \<Rightarrow> inst \<Rightarrow> pass option" where
  "visit_inst E B s I =
     (if nosanitize I then Some s
      else let s1 = (if at_first_insertion E s B I then countEdge E s (Before (iaddr I)) else s) in
        case ikind I of
          CallInst f _ \<Rightarrow> visitCallInst E s1 I f
        | InvokeInst f _ _ _ \<Rightarrow> visitInvokeInst E s1 I f
        | BranchInst _ \<Rightarrow> visitBranchInst E s1 I
        | CondBranchInst _ _ _ \<Rightarrow> visitBranchInst E s1 I
        | SwitchInst c _ cs \<Rightarrow> visitSwitchInst E s1 I c cs
        | CmpInst _ pred a b \<Rightarrow> visitCmpInst E s1 I (iaddr I = iaddr (last (insts B))) pred a b
        | _ \<Rightarrow> visitExploitation E s1 I)"

fun visit_insts :: "angora_env \<Rightarrow> block \<Rightarrow> pass \<Rightarrow> inst list \<Rightarrow> pass option" where
  "visit_insts E B s [] = Some s"
| "visit_insts E B s (I # is) = do { s1 \<leftarrow> visit_inst E B s I; visit_insts E B s1 is }"

fun visit_blocks :: "angora_env \<Rightarrow> pass \<Rightarrow> block list \<Rightarrow> pass option" where
  "visit_blocks E s [] = Some s"
| "visit_blocks E s (B # Bs) = do { s1 \<leftarrow> visit_insts E B s (insts B); visit_blocks E s1 Bs }"

fun visit_functions :: "angora_env \<Rightarrow> pass \<Rightarrow> func list \<Rightarrow> pass option" where
  "visit_functions E s [] = Some s"
| "visit_functions E s (F # Fs) =
     (if blocks F = [] \<or> take 11 (fname F) = ''asan.module'' then visit_functions E s Fs
      else do { s1 \<leftarrow> visit_blocks E (addFnWrap E s F) (blocks F); visit_functions E s1 Fs })"

definition runOnModule :: "angora_env \<Rightarrow> llvm_module \<Rightarrow> u32 \<Rightarrow> u32 option option \<Rightarrow> bool \<Rightarrow> int option \<Rightarrow> pass option" where
  "runOnModule E M fsize ratio gen_random ctx = do {
     s \<leftarrow> initVariables (mod_id M) fsize ratio gen_random ctx (\<not> TrackMode E \<and> \<not> DFSanMode E);
     if DFSanMode E then Some s else visit_functions E s (funcs M)
   }"

text \<open>The code that runs at an instruction of the instrumented module.\<close>

definition code_at :: "pass \<Rightarrow> point \<Rightarrow> emitted" where
  "code_at s p = concat (map snd (filter (\<lambda>(q, _). q = p) (placed s)))"
end
