(* ===== verification/Angora_Ids.thy ===== *)
theory Angora_Ids
  imports Angora_Pass
begin

text \<open>
  The identifiers of comparisons.  \<open>getInstructionId\<close> looks for an unused number by iterating \<open>h * 3 + 1\<close> on 32-bit
  words.  Doubling and adding one turns the iteration into a multiplication by three modulo \<open>2\<^sup>3\<^sup>3\<close>, whose order on odd
  numbers is \<open>2\<^sup>3\<^sup>1\<close>: the search visits that many different numbers before it repeats one.
\<close>

section \<open>The order of three modulo powers of two\<close>

lemma pow3_mod8: "(3::int) ^ d mod 8 = (if even d then 1 else 3)"
proof (induction d)
  case (Suc d)
  have "(3::int) ^ Suc d mod 8 = 3 * (3 ^ d mod 8) mod 8" by (simp add: mod_mult_right_eq)
  then show ?case using Suc by simp
qed simp

lemma order_of_3: "(2::int) ^ (k + 2) dvd 3 ^ d - 1 \<Longrightarrow> 2 ^ k dvd d"
proof (induction k arbitrary: d)
  case (Suc k)
  have "(8::int) dvd 2 ^ (Suc k + 2)" by (simp add: power_add)
  then have "(8::int) dvd 3 ^ d - 1" using Suc.prems by (rule dvd_trans)
  then have "(3::int) ^ d mod 8 = 1" by presburger
  then have "even d" using pow3_mod8 [of d] by (simp split: if_splits)
  then obtain e where d: "d = 2 * e" by blast
  have "(3::int) ^ d = 3 ^ e * 3 ^ e" unfolding d mult_2 by (rule power_add)
  then have f: "(3::int) ^ d - 1 = (3 ^ e - 1) * (3 ^ e + 1)" by (simp add: algebra_simps)
  show ?case
  proof (cases "even e")
    case True
    have "(3::int) ^ e mod 8 = 1" using True pow3_mod8 [of e] by simp
    then have "((3::int) ^ e + 1) mod 4 = 2" by presburger
    then have "((3::int) ^ e + 1) div 2 * 2 = 3 ^ e + 1" "odd (((3::int) ^ e + 1) div 2)" by presburger+
    then obtain q where q: "(3::int) ^ e + 1 = 2 * q" "odd q" by (metis mult.commute)
    define x :: int where "x = 3 ^ e - 1"
    have "2 * 2 ^ (k + 2) dvd 2 * (x * q)" using Suc.prems unfolding f q(1) x_def [symmetric] by (simp add: mult_ac)
    then have "2 ^ (k + 2) dvd x * q" by (simp only: dvd_mult_cancel_left) simp
    then have "2 ^ (k + 2) dvd ((3::int) ^ e - 1) * q" by (simp only: x_def)
    moreover have "coprime ((2::int) ^ (k + 2)) q" using q(2) by (simp only: coprime_power_left_iff coprime_left_2_iff_odd) simp
    ultimately have "(2::int) ^ (k + 2) dvd 3 ^ e - 1" by (simp only: coprime_dvd_mult_left_iff)
    then show ?thesis using Suc.IH [of e] d by simp
  next
    case False
    have "(3::int) ^ e mod 8 = 3" using False pow3_mod8 [of e] by simp
    then obtain p where p: "(3::int) ^ e = 8 * p + 3" by (metis mult_div_mod_eq)
    have "(3::int) ^ d - 1 = 8 * ((4 * p + 1) * (2 * p + 1))" unfolding f p by (simp add: algebra_simps)
    then have "8 * 2 ^ k dvd 8 * ((4 * p + 1) * (2 * p + 1))" using Suc.prems by (simp add: power_add mult.commute)
    then have "2 ^ k dvd (4 * p + 1) * (2 * p + 1)" by simp
    moreover have "odd ((4 * p + 1) * (2 * p + 1))" by simp
    ultimately have "k = 0" by (metis dvd_power dvd_trans gr0I even_numeral dvd_triv_left power_eq_if)
    then show ?thesis using d by simp
  qed
qed simp

section \<open>The orbit of the search\<close>

text \<open>The step of the search.\<close>

definition nxt :: "u32 \<Rightarrow> u32" where
  "nxt h = h * 3 + 1"

lemma iter_image: "(2 * int (unat ((nxt ^^ i) h)) + 1) mod 2 ^ 33 = 3 ^ i * (2 * int (unat h) + 1) mod 2 ^ 33"
proof (induction i)
  case (Suc i)
  let ?x = "(nxt ^^ i) h"
  have "int (unat (nxt ?x)) = (3 * int (unat ?x) + 1) mod 2 ^ 32"
    by (simp add: nxt_def unat_word_ariths zmod_int mult.commute) (simp add: mod_add_right_eq add.commute)
  then have "(2 * int (unat (nxt ?x)) + 1) mod 2 ^ 33 = (2 * ((3 * int (unat ?x) + 1) mod 2 ^ 32) + 1) mod 2 ^ 33" by simp
  also have "\<dots> = (3 * (2 * int (unat ?x) + 1)) mod 2 ^ 33"
  proof -
    have "2 * (y mod 2 ^ 32) = (2 * y) mod 2 ^ 33" for y :: int
      using mod_mult_mult1 [of 2 y "2 ^ 32"] by simp
    then have "(2 * ((3 * int (unat ?x) + 1) mod 2 ^ 32) + 1) mod 2 ^ 33 = (2 * (3 * int (unat ?x) + 1) + 1) mod 2 ^ 33"
      by (simp only: mod_add_left_eq)
    then show ?thesis by (simp only: distrib_left mult.assoc [symmetric] add.assoc) simp
  qed
  also have "\<dots> = 3 * ((2 * int (unat ?x) + 1) mod 2 ^ 33) mod 2 ^ 33" by (simp only: mod_mult_right_eq)
  also have "\<dots> = 3 * (3 ^ i * (2 * int (unat h) + 1) mod 2 ^ 33) mod 2 ^ 33" by (simp only: Suc)
  also have "\<dots> = 3 ^ Suc i * (2 * int (unat h) + 1) mod 2 ^ 33" by (simp only: mod_mult_right_eq power_Suc mult.assoc)
  finally show ?case by simp
qed simp

lemma iter_inj: "inj_on (\<lambda>i. (nxt ^^ i) h) {..<2 ^ 31}"
proof -
  have no: False if ij: "i < j" "j < 2 ^ 31" "(nxt ^^ i) h = (nxt ^^ j) h" for i j
  proof -
    let ?u = "2 * int (unat h) + 1"
    have "3 ^ i * ?u mod 2 ^ 33 = 3 ^ j * ?u mod 2 ^ 33" using ij(3) iter_image [of i h] iter_image [of j h] by simp
    then have "2 ^ 33 dvd 3 ^ j * ?u - 3 ^ i * ?u" by (simp only: mod_eq_dvd_iff [symmetric])
    moreover have "3 ^ j * ?u - 3 ^ i * ?u = (3 ^ (j - i) - 1) * (3 ^ i * ?u)"
      using ij(1) by (simp add: left_diff_distrib power_add [symmetric] flip: mult.assoc)
    moreover have "coprime ((2::int) ^ 33) (3 ^ i * ?u)"
      by (simp only: coprime_power_left_iff coprime_left_2_iff_odd) simp
    ultimately have "(2::int) ^ (31 + 2) dvd 3 ^ (j - i) - 1" by (simp only: coprime_dvd_mult_left_iff) simp
    then have "2 ^ 31 dvd j - i" by (rule order_of_3)
    then show False using ij by (auto dest: dvd_imp_le)
  qed
  show ?thesis
  proof (rule inj_onI)
    fix x y assume "x \<in> {..<2 ^ 31}" "y \<in> {..<2 ^ 31}" "(nxt ^^ x) h = (nxt ^^ y) h"
    then show "x = y" using no [of x y] no [of y x] by (cases x y rule: linorder_cases) auto
  qed
qed
section \<open>The search ends\<close>

lemma unused_id_steps:
  "(nxt ^^ k) h \<notin> set used \<Longrightarrow> \<forall>j<k. (nxt ^^ j) h \<in> set used \<Longrightarrow> unused_id used h = Some ((nxt ^^ k) h)"
proof (induction k arbitrary: h)
  case (Suc k)
  have "h \<in> set used" using Suc.prems(2) [rule_format, of 0] by simp
  moreover have "unused_id used (nxt h) = Some ((nxt ^^ k) (nxt h))"
  proof (rule Suc.IH)
    show "(nxt ^^ k) (nxt h) \<notin> set used" using Suc.prems(1) by (simp add: funpow_swap1)
    show "\<forall>j<k. (nxt ^^ j) (nxt h) \<in> set used" using Suc.prems(2) by (metis Suc_mono funpow_Suc_right o_apply)
  qed
  ultimately show ?case by (subst unused_id.simps) (simp add: nxt_def funpow_swap1)
qed (subst unused_id.simps, simp)

lemma unused_id_total:
  assumes "card (set used) < 2 ^ 31"
  shows "\<exists>h'. unused_id used h = Some h' \<and> h' \<notin> set used"
proof -
  have "\<exists>i. (nxt ^^ i) h \<notin> set used"
  proof (rule ccontr)
    assume "\<nexists>i. (nxt ^^ i) h \<notin> set used"
    then have "(\<lambda>i. (nxt ^^ i) h) ` {..<2 ^ 31} \<subseteq> set used" by blast
    then have "card ((\<lambda>i. (nxt ^^ i) h) ` {..<(2::nat) ^ 31}) \<le> card (set used)" by (intro card_mono) simp_all
    then show False using card_image [OF iter_inj [of h]] assms by simp
  qed
  then obtain i where i: "(nxt ^^ i) h \<notin> set used" by blast
  define k where "k = (LEAST i. (nxt ^^ i) h \<notin> set used)"
  have k: "(nxt ^^ k) h \<notin> set used" unfolding k_def by (rule LeastI [of "\<lambda>i. (nxt ^^ i) h \<notin> set used", OF i])
  moreover have "\<forall>j<k. (nxt ^^ j) h \<in> set used" unfolding k_def by (blast dest: not_less_Least)
  ultimately show ?thesis using unused_id_steps by blast
qed

lemma first_id_frame: "first_id s I = (h, t) \<Longrightarrow> UniqCidSet t = UniqCidSet s \<and> is_bc t = is_bc s"
  by (auto simp: first_id_def getRandomInstructionId_def getRandomNum_def Let_def split: if_splits option.splits)

text \<open>C25. Every instrumented comparison of a source file gets an identifier of its own.  As long as fewer than
  \<open>2\<^sup>3\<^sup>1\<close> identifiers are in use, the search of \<open>getInstructionId\<close> ends, with a number that was not used before, and
  the number is recorded for the instruction.\<close>

theorem instruction_id_fresh:
  assumes "\<not> is_bc s" "card (set (UniqCidSet s)) < 2 ^ 31"
  shows "\<exists>h s'. getInstructionId s I = Some (h, s') \<and> h \<notin> set (UniqCidSet s) \<and>
    set (UniqCidSet s') = insert h (set (UniqCidSet s)) \<and> map_of (IdMap s') (iaddr I) = Some h"
proof -
  obtain h0 t where f: "first_id s I = (h0, t)" by (cases "first_id s I")
  note fr = first_id_frame [OF f]
  obtain h where h: "unused_id (UniqCidSet t) h0 = Some h" "h \<notin> set (UniqCidSet t)"
    using unused_id_total [of "UniqCidSet t" h0] assms(2) fr by auto
  then show ?thesis using assms(1) f fr by (simp add: getInstructionId_def Let_def)
qed

definition sample_pass :: pass where
  "sample_pass = (the (initVariables ''m.c'' 10 None False None True))\<lparr>UniqCidSet := [1, 4, 13]\<rparr>"

theorem instruction_id_fresh_witness:
  "\<exists>h s'. getInstructionId sample_pass (mk_inst 5 True (OtherInst 1 [])) = Some (h, s') \<and> h \<notin> {1, 4, 13}"
proof -
  have "\<not> is_bc sample_pass" "UniqCidSet sample_pass = [1, 4, 13]" by code_simp+
  moreover have "card {1, 4, 13 :: u32} < 2 ^ 31" by simp
  ultimately show ?thesis using instruction_id_fresh [of sample_pass "mk_inst 5 True (OtherInst 1 [])"] by auto
qed

end
