(* ===== verification/Angora_Clang.thy ===== *)
theory Angora_Clang
  imports Dfsan_Types
begin

text \<open>
  The compiler driver, \<^verbatim>\<open>llvm_mode/compiler/angora_clang.c\<close>.  It turns its own arguments into those of clang, adding the
  passes and the runtime for the mode that the environment asks for, in an array it allocates once.  \<open>None\<close> is an access
  outside that array or outside \<^verbatim>\<open>argv\<close>; a fatal error is its message.  The environment, \<^verbatim>\<open>access\<close> and \<^verbatim>\<open>execvp\<close> are
  parameters; the list in the environment that is printed is left out.
\<close>

section \<open>Strings\<close>

text \<open>\<^verbatim>\<open>strrchr\<close>: the rest of the string from the last occurrence of the character on.\<close>

definition from_last :: "string \<Rightarrow> char \<Rightarrow> string option" where
  "from_last s c = (if c \<in> set s then Some (c # rev (takeWhile (\<lambda>x. x \<noteq> c) (rev s))) else None)"

text \<open>What stands before the last occurrence.\<close>

definition before_last :: "string \<Rightarrow> char \<Rightarrow> string" where
  "before_last s c = rev (tl (dropWhile (\<lambda>x. x \<noteq> c) (rev s)))"

definition occurs_in :: "string \<Rightarrow> string \<Rightarrow> bool" where
  "occurs_in s pat \<longleftrightarrow> string_find s pat \<noteq> None"

section \<open>State\<close>

datatype clang_types = CLANG_FAST_TYPE | CLANG_TRACK_TYPE | CLANG_DFSAN_TYPE | CLANG_PIN_TYPE

record cc_state =
  obj_path :: string
  cc_params :: "string option list" \<comment> \<open>the array, zeroed\<close>
  cc_par_cnt :: nat
  clang_type :: clang_types
  is_cxx :: bool

type_synonym environ = "string \<Rightarrow> string option"

text \<open>\<^verbatim>\<open>cc_params[cc_par_cnt++] = p\<close>.\<close>

definition add_param :: "string \<Rightarrow> cc_state \<Rightarrow> cc_state option" where
  "add_param p s =
     (if cc_par_cnt s < length (cc_params s)
      then Some (s\<lparr>cc_params := (cc_params s)[cc_par_cnt s := Some p], cc_par_cnt := Suc (cc_par_cnt s)\<rparr>) else None)"

fun add_params :: "string list \<Rightarrow> cc_state \<Rightarrow> cc_state option" where
  "add_params [] s = Some s"
| "add_params (p # ps) s = do { t \<leftarrow> add_param p s; add_params ps t }"

section \<open>Finding the installation and the mode\<close>

definition no_pass :: string where
  "no_pass = ''Unable to find '' @ [CHR 0x27] @ ''libAngoraPass.so'' @ [CHR 0x27]"

definition find_obj :: "(string \<Rightarrow> bool) \<Rightarrow> string \<Rightarrow> string + string" where
  "find_obj readable argv0 =
     (case from_last argv0 (CHR ''/'') of
        Some slash \<Rightarrow>
          let dir = before_last argv0 (CHR ''/'') in
          if readable (dir @ ''/pass/libAngoraPass.so'') then Inr dir else Inl no_pass
      | None \<Rightarrow> Inl no_pass)"

definition check_type :: "environ \<Rightarrow> string \<Rightarrow> clang_types \<times> bool" where
  "check_type env name =
     ((if env ''USE_FAST'' \<noteq> None then CLANG_FAST_TYPE
       else if env ''USE_DFSAN'' \<noteq> None then CLANG_DFSAN_TYPE
       else if env ''USE_TRACK'' \<noteq> None then CLANG_TRACK_TYPE
       else if env ''USE_PIN'' \<noteq> None then CLANG_PIN_TYPE
       else CLANG_FAST_TYPE),
      name = ''angora-clang++'')"

definition is_assembler_file :: "string \<Rightarrow> bool" where
  "is_assembler_file cur =
     (case from_last cur (CHR ''.'') of Some ext \<Rightarrow> tl ext = ''s'' \<or> tl ext = ''S'' | None \<Rightarrow> False)"

fun check_if_assembler :: "string list \<Rightarrow> bool" where
  "check_if_assembler [] = False"
| "check_if_assembler (cur # argv) = (if is_assembler_file cur then True else check_if_assembler argv)"

section \<open>Adding passes and libraries\<close>

definition add_angora_pass :: "environ \<Rightarrow> cc_state \<Rightarrow> cc_state option" where
  "add_angora_pass env s = do {
     s \<leftarrow> (if clang_type s \<noteq> CLANG_DFSAN_TYPE
           then add_params [''-Xclang'', ''-load'', ''-Xclang'', obj_path s @ ''/pass/libUnfoldBranchPass.so''] s else Some s);
     s \<leftarrow> add_params [''-Xclang'', ''-load'', ''-Xclang'', obj_path s @ ''/pass/libAngoraPass.so''] s;
     s \<leftarrow> (if clang_type s = CLANG_DFSAN_TYPE then add_params [''-mllvm'', ''-DFSanMode''] s
           else if clang_type s = CLANG_TRACK_TYPE \<or> clang_type s = CLANG_PIN_TYPE then add_params [''-mllvm'', ''-TrackMode''] s
           else Some s);
     s \<leftarrow> add_params [''-mllvm'', ''-angora-dfsan-abilist='' @ obj_path s @ ''/rules/angora_abilist.txt'',
            ''-mllvm'', ''-angora-dfsan-abilist='' @ obj_path s @ ''/rules/dfsan_abilist.txt'',
            ''-mllvm'', ''-angora-exploitation-list='' @ obj_path s @ ''/rules/exploitation_list.txt''] s;
     case env ''ANGORA_TAINT_RULE_LIST'' of
       Some rule_list \<Rightarrow> add_params [''-mllvm'', ''-angora-dfsan-abilist='' @ rule_list] s
     | None \<Rightarrow> Some s
   }"

definition add_angora_runtime :: "environ \<Rightarrow> cc_state \<Rightarrow> cc_state option" where
  "add_angora_runtime env s = do {
     s \<leftarrow> (case clang_type s of
             CLANG_FAST_TYPE \<Rightarrow> add_params [obj_path s @ ''/lib/libruntime_fast.a''] s
           | CLANG_PIN_TYPE \<Rightarrow> add_params [obj_path s @ ''/lib/pin_stub.o''] s
           | _ \<Rightarrow> do {
               s \<leftarrow> add_params [''-Wl,--whole-archive'', obj_path s @ ''/lib/libdfsan_rt-x86_64.a'', ''-Wl,--no-whole-archive'',
                      ''-Wl,--dynamic-list='' @ obj_path s @ ''/lib/libdfsan_rt-x86_64.a.syms'',
                      obj_path s @ ''/lib/libruntime.a'', obj_path s @ ''/lib/libDFSanIO.a''] s;
               case env ''ANGORA_TAINT_CUSTOM_RULE'' of Some rule_obj \<Rightarrow> add_param rule_obj s | None \<Rightarrow> Some s
             });
     s \<leftarrow> (if clang_type s \<noteq> CLANG_FAST_TYPE
           then do { s \<leftarrow> (if is_cxx s then Some s else add_param ''-lstdc++'' s); add_param ''-lrt'' s } else Some s);
     add_params [''-Wl,--no-as-needed'', ''-Wl,--gc-sections'', ''-ldl'', ''-lpthread'', ''-lm''] s
   }"

definition add_dfsan_pass :: "environ \<Rightarrow> cc_state \<Rightarrow> cc_state option" where
  "add_dfsan_pass env s =
     (if clang_type s = CLANG_TRACK_TYPE \<or> clang_type s = CLANG_DFSAN_TYPE
      then do {
        s \<leftarrow> add_params [''-Xclang'', ''-load'', ''-Xclang'', obj_path s @ ''/pass/libDFSanPass.so'',
               ''-mllvm'', ''-angora-dfsan-abilist2='' @ obj_path s @ ''/rules/angora_abilist.txt'',
               ''-mllvm'', ''-angora-dfsan-abilist2='' @ obj_path s @ ''/rules/dfsan_abilist.txt''] s;
        case env ''ANGORA_TAINT_RULE_LIST'' of
          Some rule_list \<Rightarrow> add_params [''-mllvm'', ''-angora-dfsan-abilist2='' @ rule_list] s
        | None \<Rightarrow> Some s
      }
      else Some s)"

section \<open>Editing the parameters\<close>

record cc_flags =
  fortify_set :: bool
  asan_set :: bool
  x_set :: bool
  maybe_linking :: bool
  bit_mode :: nat

text \<open>The loop over the arguments.\<close>

definition note_flags :: "string \<Rightarrow> cc_flags \<Rightarrow> cc_flags" where
  "note_flags cur f =
     (let f = (if cur = ''-m32'' then f\<lparr>bit_mode := 32\<rparr> else f);
          f = (if cur = ''-m64'' then f\<lparr>bit_mode := 64\<rparr> else f);
          f = (if cur = ''-x'' then f\<lparr>x_set := True\<rparr> else f);
          f = (if cur = ''-c'' \<or> cur = ''-S'' \<or> cur = ''-E'' then f\<lparr>maybe_linking := False\<rparr> else f);
          f = (if cur = ''-fsanitize=address'' \<or> cur = ''-fsanitize=memory'' then f\<lparr>asan_set := True\<rparr> else f);
          f = (if occurs_in cur ''FORTIFY_SOURCE'' then f\<lparr>fortify_set := True\<rparr> else f)
      in if cur = ''-shared'' then f\<lparr>maybe_linking := False\<rparr> else f)"

definition is_opt_level :: "string \<Rightarrow> bool" where
  "is_opt_level cur \<longleftrightarrow> cur = ''-O1'' \<or> cur = ''-O2'' \<or> cur = ''-O3''"

definition is_undefined_check :: "string \<Rightarrow> bool" where
  "is_undefined_check cur \<longleftrightarrow> cur = ''-Wl,-z,defs'' \<or> cur = ''-Wl,--no-undefined''"

fun copy_args :: "string list \<Rightarrow> cc_flags \<Rightarrow> cc_state \<Rightarrow> (cc_flags \<times> cc_state) option" where
  "copy_args [] f s = Some (f, s)"
| "copy_args (cur # argv) f s =
     (if is_opt_level cur then copy_args argv f s
      else if is_undefined_check cur then copy_args argv (note_flags cur f) s
      else do { s \<leftarrow> add_param cur s; copy_args argv (note_flags cur f) s })"

definition add_harden :: "environ \<Rightarrow> cc_flags \<Rightarrow> cc_state \<Rightarrow> cc_state option" where
  "add_harden env f s =
     (if env ''ANGORA_HARDEN'' \<noteq> None
      then do { s \<leftarrow> add_param ''-fstack-protector-all'' s; if fortify_set f then Some s else add_param ''-D_FORTIFY_SOURCE=2'' s }
      else Some s)"

definition add_sanitizers :: "environ \<Rightarrow> cc_flags \<Rightarrow> cc_state \<Rightarrow> (string + cc_state) option" where
  "add_sanitizers env f s =
     (if \<not> asan_set f \<and> clang_type s = CLANG_FAST_TYPE
      then if env ''ANGORA_USE_ASAN'' \<noteq> None
        then if env ''ANGORA_USE_MSAN'' \<noteq> None then Some (Inl ''ASAN and MSAN are mutually exclusive'')
             else if env ''ANGORA_HARDEN'' \<noteq> None then Some (Inl ''ASAN and ANGORA_HARDEN are mutually exclusive'')
             else map_option Inr (add_params [''-U_FORTIFY_SOURCE'', ''-fsanitize=address''] s)
        else if env ''ANGORA_USE_MSAN'' \<noteq> None
        then if env ''ANGORA_USE_ASAN'' \<noteq> None then Some (Inl ''ASAN and MSAN are mutually exclusive'')
             else if env ''ANGORA_HARDEN'' \<noteq> None then Some (Inl ''MSAN and ANGORA_HARDEN are mutually exclusive'')
             else map_option Inr (add_params [''-U_FORTIFY_SOURCE'', ''-fsanitize=memory''] s)
        else Some (Inr s)
      else Some (Inr s))"

definition add_libcxx :: "cc_state \<Rightarrow> cc_state option" where
  "add_libcxx s =
     (if is_cxx s
      then case clang_type s of
             CLANG_FAST_TYPE \<Rightarrow> add_params [''-L'' @ obj_path s @ ''/lib/libcxx_fast/'', ''-stdlib=libc++'', ''-Wl,--start-group'',
               ''-lc++abifast'', ''-lc++abi'', ''-Wl,--end-group''] s
           | CLANG_TRACK_TYPE \<Rightarrow> add_params [''-L'' @ obj_path s @ ''/lib/libcxx_track/'', ''-stdlib=libc++'', ''-Wl,--start-group'',
               ''-lc++abitrack'', ''-lc++abi'', ''-Wl,--end-group''] s
           | _ \<Rightarrow> Some s
      else Some s)"

definition add_linking :: "environ \<Rightarrow> cc_flags \<Rightarrow> cc_state \<Rightarrow> cc_state option" where
  "add_linking env f s =
     (if maybe_linking f
      then do { s \<leftarrow> (if x_set f then add_params [''-x'', ''none''] s else Some s); add_angora_runtime env s }
      else Some s)"

text \<open>The name under which the driver was called, and the compiler it calls.\<close>

definition called_name :: "string \<Rightarrow> string" where
  "called_name argv0 = (case from_last argv0 (CHR ''/'') of Some slash \<Rightarrow> tl slash | None \<Rightarrow> argv0)"

definition compiler :: "environ \<Rightarrow> bool \<Rightarrow> string" where
  "compiler env cxx =
     (if cxx then (case env ''ANGORA_CXX'' of Some alt_cxx \<Rightarrow> alt_cxx | None \<Rightarrow> ''clang++'')
      else (case env ''ANGORA_CC'' of Some alt_cc \<Rightarrow> alt_cc | None \<Rightarrow> ''clang''))"

definition MAX_ALLOC :: nat where
  "MAX_ALLOC = 0x40000000"

text \<open>The size passed to \<^verbatim>\<open>ck_alloc\<close> is a 32-bit number; an array of size zero is the null pointer.\<close>

definition alloc_params :: "nat \<Rightarrow> (string + string option list) option" where
  "alloc_params argc =
     (let sz = 8 * (argc + 128) mod 2 ^ 32 in
      if sz = 0 then None
      else if MAX_ALLOC < sz then Some (Inl (''Bad alloc request: '' @ show_nat sz @ '' bytes''))
      else Some (Inr (replicate (sz div 8) None)))"

definition finish_params :: "environ \<Rightarrow> cc_flags \<Rightarrow> cc_state \<Rightarrow> (string + cc_state) option" where
  "finish_params env f s = do {
     s \<leftarrow> (if env ''ANGORA_DONT_OPTIMIZE'' \<noteq> None then Some s else add_params [''-g'', ''-O3'', ''-funroll-loops''] s);
     s \<leftarrow> add_libcxx s;
     s \<leftarrow> add_linking env f s;
     if cc_par_cnt s < length (cc_params s) then Some (Inr (s\<lparr>cc_params := (cc_params s)[cc_par_cnt s := None]\<rparr>)) else None
   }"

definition edit_params :: "environ \<Rightarrow> string \<Rightarrow> string list \<Rightarrow> (string + cc_state) option" where
  "edit_params env dir argv =
     (let argc = length argv in
      if argc = 0 then None
      else do {
       arr \<leftarrow> alloc_params argc;
       case arr of Inl msg \<Rightarrow> Some (Inl msg) | Inr arr \<Rightarrow> do {
        let (t, cxx) = check_type env (called_name (argv ! 0));
        let s = \<lparr>obj_path = dir, cc_params = arr[0 := Some (compiler env cxx)], cc_par_cnt = 1,
                 clang_type = t, is_cxx = cxx\<rparr>;
        let maybe_assembler = check_if_assembler (tl argv);
        f \<leftarrow> (if argc = 1 then None \<comment> \<open>\<^verbatim>\<open>argv[1]\<close> is compared, a null pointer\<close>
              else Some \<lparr>fortify_set = False, asan_set = False, x_set = False, maybe_linking = True, bit_mode = 0\<rparr>);
        (f, s) \<leftarrow> copy_args (tl argv) f s;
        s \<leftarrow> (if maybe_assembler then Some s else do { s \<leftarrow> add_angora_pass env s; add_dfsan_pass env s });
        s \<leftarrow> add_params [''-pie'', ''-fpic'', ''-Qunused-arguments''] s;
        s \<leftarrow> add_harden env f s;
        r \<leftarrow> add_sanitizers env f s;
        case r of
          Inl msg \<Rightarrow> Some (Inl msg)
        | Inr s \<Rightarrow> finish_params env f s
       }
      })"

section \<open>The driver\<close>

text \<open>What becomes of the process: the usage is shown, a fatal error is shown, or clang is run with the parameters up to
  the null pointer.\<close>

datatype driver_result = Shows_Usage | Dies string | Runs "string list"

definition params_of :: "cc_state \<Rightarrow> string list" where
  "params_of s = map the (takeWhile (\<lambda>p. p \<noteq> None) (cc_params s))"

definition clang_main :: "environ \<Rightarrow> (string \<Rightarrow> bool) \<Rightarrow> (string list \<Rightarrow> bool) \<Rightarrow> string list \<Rightarrow> driver_result option" where
  "clang_main env readable exec_ok argv =
     (if length argv < 2 then Some Shows_Usage
      else case find_obj readable (argv ! 0) of
        Inl msg \<Rightarrow> Some (Dies msg)
      | Inr dir \<Rightarrow> do {
          r \<leftarrow> edit_params env dir argv;
          case r of
            Inl msg \<Rightarrow> Some (Dies msg)
          | Inr s \<Rightarrow> Some (if exec_ok (params_of s) then Runs (params_of s) else Dies ''Oops, failed to execute'')
        })"


section \<open>The command line as a list\<close>

text \<open>The same parameters without an array.\<close>

definition angora_pass_args :: "environ \<Rightarrow> clang_types \<Rightarrow> string \<Rightarrow> string list" where
  "angora_pass_args env t dir =
     (if t = CLANG_DFSAN_TYPE then [] else [''-Xclang'', ''-load'', ''-Xclang'', dir @ ''/pass/libUnfoldBranchPass.so'']) @
     [''-Xclang'', ''-load'', ''-Xclang'', dir @ ''/pass/libAngoraPass.so''] @
     (case t of CLANG_FAST_TYPE \<Rightarrow> [] | CLANG_DFSAN_TYPE \<Rightarrow> [''-mllvm'', ''-DFSanMode''] | _ \<Rightarrow> [''-mllvm'', ''-TrackMode'']) @
     [''-mllvm'', ''-angora-dfsan-abilist='' @ dir @ ''/rules/angora_abilist.txt'',
      ''-mllvm'', ''-angora-dfsan-abilist='' @ dir @ ''/rules/dfsan_abilist.txt'',
      ''-mllvm'', ''-angora-exploitation-list='' @ dir @ ''/rules/exploitation_list.txt''] @
     (case env ''ANGORA_TAINT_RULE_LIST'' of Some l \<Rightarrow> [''-mllvm'', ''-angora-dfsan-abilist='' @ l] | None \<Rightarrow> [])"

definition dfsan_pass_args :: "environ \<Rightarrow> clang_types \<Rightarrow> string \<Rightarrow> string list" where
  "dfsan_pass_args env t dir =
     (if t = CLANG_FAST_TYPE \<or> t = CLANG_PIN_TYPE then []
      else [''-Xclang'', ''-load'', ''-Xclang'', dir @ ''/pass/libDFSanPass.so'',
        ''-mllvm'', ''-angora-dfsan-abilist2='' @ dir @ ''/rules/angora_abilist.txt'',
        ''-mllvm'', ''-angora-dfsan-abilist2='' @ dir @ ''/rules/dfsan_abilist.txt''] @
        (case env ''ANGORA_TAINT_RULE_LIST'' of Some l \<Rightarrow> [''-mllvm'', ''-angora-dfsan-abilist2='' @ l] | None \<Rightarrow> []))"

definition runtime_args :: "environ \<Rightarrow> clang_types \<Rightarrow> string \<Rightarrow> bool \<Rightarrow> string list" where
  "runtime_args env t dir cxx =
     (case t of
        CLANG_FAST_TYPE \<Rightarrow> [dir @ ''/lib/libruntime_fast.a'']
      | CLANG_PIN_TYPE \<Rightarrow> [dir @ ''/lib/pin_stub.o'']
      | _ \<Rightarrow> [''-Wl,--whole-archive'', dir @ ''/lib/libdfsan_rt-x86_64.a'', ''-Wl,--no-whole-archive'',
              ''-Wl,--dynamic-list='' @ dir @ ''/lib/libdfsan_rt-x86_64.a.syms'', dir @ ''/lib/libruntime.a'', dir @ ''/lib/libDFSanIO.a''] @
             (case env ''ANGORA_TAINT_CUSTOM_RULE'' of Some r \<Rightarrow> [r] | None \<Rightarrow> [])) @
     (if t = CLANG_FAST_TYPE then [] else (if cxx then [] else [''-lstdc++'']) @ [''-lrt'']) @
     [''-Wl,--no-as-needed'', ''-Wl,--gc-sections'', ''-ldl'', ''-lpthread'', ''-lm'']"

definition harden_args :: "environ \<Rightarrow> cc_flags \<Rightarrow> string list" where
  "harden_args env f =
     (if env ''ANGORA_HARDEN'' = None then []
      else ''-fstack-protector-all'' # (if fortify_set f then [] else [''-D_FORTIFY_SOURCE=2'']))"

definition sanitizer_args :: "environ \<Rightarrow> clang_types \<Rightarrow> cc_flags \<Rightarrow> string + string list" where
  "sanitizer_args env t f =
     (if asan_set f \<or> t \<noteq> CLANG_FAST_TYPE \<or> env ''ANGORA_USE_ASAN'' = None \<and> env ''ANGORA_USE_MSAN'' = None then Inr []
      else if env ''ANGORA_USE_ASAN'' \<noteq> None \<and> env ''ANGORA_USE_MSAN'' \<noteq> None then Inl ''ASAN and MSAN are mutually exclusive''
      else if env ''ANGORA_HARDEN'' \<noteq> None
      then Inl (if env ''ANGORA_USE_ASAN'' \<noteq> None then ''ASAN and ANGORA_HARDEN are mutually exclusive''
                else ''MSAN and ANGORA_HARDEN are mutually exclusive'')
      else Inr [''-U_FORTIFY_SOURCE'', if env ''ANGORA_USE_ASAN'' \<noteq> None then ''-fsanitize=address'' else ''-fsanitize=memory''])"

definition libcxx_args :: "clang_types \<Rightarrow> string \<Rightarrow> bool \<Rightarrow> string list" where
  "libcxx_args t dir cxx =
     (if cxx \<and> t = CLANG_FAST_TYPE
      then [''-L'' @ dir @ ''/lib/libcxx_fast/'', ''-stdlib=libc++'', ''-Wl,--start-group'', ''-lc++abifast'', ''-lc++abi'', ''-Wl,--end-group'']
      else if cxx \<and> t = CLANG_TRACK_TYPE
      then [''-L'' @ dir @ ''/lib/libcxx_track/'', ''-stdlib=libc++'', ''-Wl,--start-group'', ''-lc++abitrack'', ''-lc++abi'', ''-Wl,--end-group'']
      else [])"

text \<open>The flags that the arguments set, and the arguments that are kept.\<close>

definition flags_of :: "string list \<Rightarrow> cc_flags" where
  "flags_of args = fold note_flags (filter (\<lambda>a. \<not> is_opt_level a) args)
     \<lparr>fortify_set = False, asan_set = False, x_set = False, maybe_linking = True, bit_mode = 0\<rparr>"

definition kept_args :: "string list \<Rightarrow> string list" where
  "kept_args args = filter (\<lambda>a. \<not> is_opt_level a \<and> \<not> is_undefined_check a) args"

definition command_line :: "environ \<Rightarrow> string \<Rightarrow> clang_types \<Rightarrow> bool \<Rightarrow> string list \<Rightarrow> string list \<Rightarrow> string list" where
  "command_line env dir t cxx args san =
     (let f = flags_of args in
      compiler env cxx # kept_args args @
      (if \<exists>a\<in>set args. is_assembler_file a then [] else angora_pass_args env t dir @ dfsan_pass_args env t dir) @
      [''-pie'', ''-fpic'', ''-Qunused-arguments''] @ harden_args env f @ san @
      (if env ''ANGORA_DONT_OPTIMIZE'' = None then [''-g'', ''-O3'', ''-funroll-loops''] else []) @
      libcxx_args t dir cxx @
      (if maybe_linking f then (if x_set f then [''-x'', ''none''] else []) @ runtime_args env t dir cxx else []))"

section \<open>The array holds the command line\<close>

definition holding :: "nat \<Rightarrow> string \<Rightarrow> clang_types \<Rightarrow> bool \<Rightarrow> string list \<Rightarrow> cc_state" where
  "holding n dir t cxx ps = \<lparr>obj_path = dir, cc_params = map Some ps @ replicate (n - length ps) None, cc_par_cnt = length ps,
     clang_type = t, is_cxx = cxx\<rparr>"

lemma holding_sel [simp]: "obj_path (holding n dir t cxx ps) = dir" "clang_type (holding n dir t cxx ps) = t" "is_cxx (holding n dir t cxx ps) = cxx"
  by (simp_all add: holding_def)

lemma add_param_holding: "length ps < n \<Longrightarrow> add_param p (holding n dir t cxx ps) = Some (holding n dir t cxx (ps @ [p]))"
proof -
  assume "length ps < n"
  then obtain k where "n - length ps = Suc k" "n - Suc (length ps) = k" by (metis Suc_diff_Suc)
  then show ?thesis using \<open>length ps < n\<close> by (simp add: add_param_def holding_def list_update_append)
qed

lemma add_params_holding:
  "length ps + length qs \<le> n \<Longrightarrow> add_params qs (holding n dir t cxx ps) = Some (holding n dir t cxx (ps @ qs))"
  by (induction qs arbitrary: ps) (auto simp: add_param_holding)

lemma copy_args_holding:
  "length ps + length args \<le> n \<Longrightarrow> copy_args args f (holding n dir t cxx ps) =
     Some (fold note_flags (filter (\<lambda>a. \<not> is_opt_level a) args) f, holding n dir t cxx (ps @ kept_args args))"
  by (induction args arbitrary: ps f) (auto simp: add_param_holding kept_args_def)

lemma assembler_iff: "check_if_assembler args \<longleftrightarrow> (\<exists>a\<in>set args. is_assembler_file a)"
  by (induction args) auto

lemma angora_pass_holding:
  "length ps + 18 \<le> n \<Longrightarrow> add_angora_pass env (holding n dir t cxx ps) = Some (holding n dir t cxx (ps @ angora_pass_args env t dir))"
  by (cases t; cases "env ''ANGORA_TAINT_RULE_LIST''")
    (simp_all add: add_angora_pass_def angora_pass_args_def add_params_holding del: add_params.simps)

lemma dfsan_pass_holding:
  "length ps + 10 \<le> n \<Longrightarrow> add_dfsan_pass env (holding n dir t cxx ps) = Some (holding n dir t cxx (ps @ dfsan_pass_args env t dir))"
  by (cases t; cases "env ''ANGORA_TAINT_RULE_LIST''")
    (simp_all add: add_dfsan_pass_def dfsan_pass_args_def add_params_holding del: add_params.simps)

lemma runtime_holding:
  "length ps + 14 \<le> n \<Longrightarrow> add_angora_runtime env (holding n dir t cxx ps) = Some (holding n dir t cxx (ps @ runtime_args env t dir cxx))"
  by (cases t; cases "env ''ANGORA_TAINT_CUSTOM_RULE''"; cases cxx)
    (simp_all add: add_angora_runtime_def runtime_args_def add_params_holding add_param_holding del: add_params.simps)

lemma harden_holding:
  "length ps + 2 \<le> n \<Longrightarrow> add_harden env f (holding n dir t cxx ps) = Some (holding n dir t cxx (ps @ harden_args env f))"
  by (simp add: add_harden_def harden_args_def add_param_holding)

lemma sanitizers_holding:
  "length ps + 2 \<le> n \<Longrightarrow> add_sanitizers env f (holding n dir t cxx ps) =
     Some (case sanitizer_args env t f of Inl msg \<Rightarrow> Inl msg | Inr san \<Rightarrow> Inr (holding n dir t cxx (ps @ san)))"
  by (auto simp: add_sanitizers_def sanitizer_args_def add_params_holding simp del: add_params.simps)

lemma libcxx_holding:
  "length ps + 6 \<le> n \<Longrightarrow> add_libcxx (holding n dir t cxx ps) = Some (holding n dir t cxx (ps @ libcxx_args t dir cxx))"
  by (cases t) (simp_all add: add_libcxx_def libcxx_args_def add_params_holding del: add_params.simps)

lemma linking_holding:
  "length ps + 16 \<le> n \<Longrightarrow> add_linking env f (holding n dir t cxx ps) = Some (holding n dir t cxx (ps @
     (if maybe_linking f then (if x_set f then [''-x'', ''none''] else []) @ runtime_args env t dir cxx else [])))"
  by (simp add: add_linking_def runtime_holding add_params_holding del: add_params.simps)

lemma args_lengths:
  "length (angora_pass_args env t dir) \<le> 18" "length (dfsan_pass_args env t dir) \<le> 10" "length (harden_args env f) \<le> 2"
  "length (libcxx_args t dir cxx) \<le> 6" "length (runtime_args env t dir cxx) \<le> 14" "sanitizer_args env t f = Inr san \<Longrightarrow> length san \<le> 2"
  "length (kept_args args) \<le> length args"
  by (auto simp: angora_pass_args_def dfsan_pass_args_def harden_args_def libcxx_args_def runtime_args_def sanitizer_args_def kept_args_def
      split: option.split clang_types.split if_splits)

lemma close_holding: "length ps < n \<Longrightarrow> cc_par_cnt (holding n dir t cxx ps) < length (cc_params (holding n dir t cxx ps)) \<and>
    (holding n dir t cxx ps)\<lparr>cc_params := (cc_params (holding n dir t cxx ps))[cc_par_cnt (holding n dir t cxx ps) := None]\<rparr> = holding n dir t cxx ps"
  by (cases "n - length ps") (simp_all add: holding_def list_update_append)

lemma finish_holding:
  assumes "length ps + 26 \<le> n"
  shows "finish_params env f (holding n dir t cxx ps) = Some (Inr (holding n dir t cxx (ps @
    (if env ''ANGORA_DONT_OPTIMIZE'' = None then [''-g'', ''-O3'', ''-funroll-loops''] else []) @ libcxx_args t dir cxx @
    (if maybe_linking f then (if x_set f then [''-x'', ''none''] else []) @ runtime_args env t dir cxx else []))))"
proof -
  define ps1 where "ps1 = ps @ (if env ''ANGORA_DONT_OPTIMIZE'' = None then [''-g'', ''-O3'', ''-funroll-loops''] else [])"
  define ps2 where "ps2 = ps1 @ libcxx_args t dir cxx"
  define ps3 where "ps3 = ps2 @ (if maybe_linking f then (if x_set f then [''-x'', ''none''] else []) @ runtime_args env t dir cxx else [])"
  have l: "length ps1 + 23 \<le> n" "length ps2 + 17 \<le> n" "length ps3 < n"
    using assms args_lengths(4) [of t dir cxx] args_lengths(5) [of env t dir cxx] by (auto simp: ps1_def ps2_def ps3_def)
  have "(if env ''ANGORA_DONT_OPTIMIZE'' \<noteq> None then Some (holding n dir t cxx ps)
      else add_params [''-g'', ''-O3'', ''-funroll-loops''] (holding n dir t cxx ps)) = Some (holding n dir t cxx ps1)"
    using assms by (simp add: ps1_def add_params_holding del: add_params.simps)
  moreover have "add_libcxx (holding n dir t cxx ps1) = Some (holding n dir t cxx ps2)" using l by (simp add: ps2_def libcxx_holding)
  moreover have "add_linking env f (holding n dir t cxx ps2) = Some (holding n dir t cxx ps3)" using l by (simp add: ps3_def linking_holding)
  ultimately have "finish_params env f (holding n dir t cxx ps) = Some (Inr (holding n dir t cxx ps3))"
    using close_holding [OF l(3), of dir t cxx] by (simp add: finish_params_def)
  then show ?thesis by (simp add: ps1_def ps2_def ps3_def)
qed

lemma edit_params_line:
  assumes "2 \<le> length argv" "8 * (length argv + 128) \<le> MAX_ALLOC" "check_type env (called_name (argv ! 0)) = (t, cxx)"
  shows "case sanitizer_args env t (flags_of (tl argv)) of
      Inl msg \<Rightarrow> edit_params env dir argv = Some (Inl msg)
    | Inr san \<Rightarrow> edit_params env dir argv = Some (Inr (holding (length argv + 128) dir t cxx (command_line env dir t cxx (tl argv) san)))"
proof -
  let ?n = "length argv + 128" and ?args = "tl argv" and ?f = "flags_of (tl argv)"
  define asm where "asm = check_if_assembler ?args"
  have n: "length ?args + 129 = ?n" "length argv \<noteq> 0" "length argv \<noteq> 1" using assms(1) by auto
  have al: "alloc_params (length argv) = Some (Inr (replicate ?n None))" using assms(2) by (simp add: alloc_params_def MAX_ALLOC_def)
  have init: "\<lparr>obj_path = dir, cc_params = (replicate ?n None)[0 := Some (compiler env cxx)], cc_par_cnt = 1, clang_type = t, is_cxx = cxx\<rparr> =
      holding ?n dir t cxx [compiler env cxx]"
  proof -
    have "Suc (?n - 1) = ?n" by simp
    then have "replicate ?n (None :: string option) = None # replicate (?n - 1) None" by (metis replicate_Suc)
    then show ?thesis by (simp add: holding_def)
  qed
  define ps1 where "ps1 = [compiler env cxx] @ kept_args ?args"
  have copy: "copy_args ?args \<lparr>fortify_set = False, asan_set = False, x_set = False, maybe_linking = True, bit_mode = 0\<rparr>
      (holding ?n dir t cxx [compiler env cxx]) = Some (?f, holding ?n dir t cxx ps1)"
    using copy_args_holding [of "[compiler env cxx]" ?args ?n] n by (simp add: flags_of_def ps1_def)
  note l = args_lengths(1) [of env t dir] args_lengths(2) [of env t dir] args_lengths(3) [of env ?f] args_lengths(4) [of t dir cxx]
    args_lengths(5) [of env t dir cxx] args_lengths(7) [of ?args]
  have l1: "length ps1 + 127 \<le> ?n" using l(6) n by (simp add: ps1_def)
  define ps2 where "ps2 = ps1 @ (if asm then [] else angora_pass_args env t dir @ dfsan_pass_args env t dir)"
  have passes: "(if asm then Some (holding ?n dir t cxx ps1) else do { s \<leftarrow> add_angora_pass env (holding ?n dir t cxx ps1); add_dfsan_pass env s }) =
      Some (holding ?n dir t cxx ps2)"
    using l1 l(1) by (simp add: angora_pass_holding dfsan_pass_holding ps2_def)
  have l2: "length ps2 + 99 \<le> ?n" using l1 l(1,2) by (simp add: ps2_def)
  define ps3 where "ps3 = (ps2 @ [''-pie'', ''-fpic'', ''-Qunused-arguments'']) @ harden_args env ?f"
  have l3: "length ps3 + 94 \<le> ?n" using l2 l(3) by (simp add: ps3_def)
  have before: "edit_params env dir argv = do {
      r \<leftarrow> add_sanitizers env ?f (holding ?n dir t cxx ps3);
      case r of Inl msg \<Rightarrow> Some (Inl msg) | Inr s \<Rightarrow> finish_params env ?f s
    }"
    using n(2,3) al init copy passes l2
    by (simp add: edit_params_def assms(3) asm_def [symmetric] add_params_holding harden_holding ps3_def del: add_params.simps)
  show ?thesis
  proof (cases "sanitizer_args env t ?f")
    case (Inl msg)
    then show ?thesis using before l3 by (simp add: sanitizers_holding)
  next
    case (Inr san)
    have l4: "length (ps3 @ san) + 92 \<le> ?n" using l3 args_lengths(6) [OF Inr] by simp
    then have "edit_params env dir argv = finish_params env ?f (holding ?n dir t cxx (ps3 @ san))" using before l3 Inr by (simp add: sanitizers_holding)
    then show ?thesis using Inr finish_holding [of "ps3 @ san" ?n env ?f dir t cxx] l4
      by (simp add: ps3_def ps2_def ps1_def command_line_def asm_def assembler_iff Let_def)
  qed
qed

lemma params_of_holding: "length ps < n \<Longrightarrow> params_of (holding n dir t cxx ps) = ps"
proof -
  assume "length ps < n"
  then have "replicate (n - length ps) (None :: string option) \<noteq> []" by simp
  then have "takeWhile (\<lambda>p. p \<noteq> None) (map Some ps @ replicate (n - length ps) None) = map Some ps"
    by (subst takeWhile_append2) (auto simp: takeWhile_eq_Nil_iff)
  then show ?thesis by (simp add: params_of_def holding_def comp_def)
qed

lemma command_line_length: "sanitizer_args env t (flags_of args) = Inr san \<Longrightarrow> length (command_line env dir t cxx args san) \<le> length args + 61"
proof -
  assume "sanitizer_args env t (flags_of args) = Inr san"
  then show ?thesis
    using args_lengths(1) [of env t dir] args_lengths(2) [of env t dir] args_lengths(3) [of env "flags_of args"] args_lengths(4) [of t dir cxx]
      args_lengths(5) [of env t dir cxx] args_lengths(6) [of env t "flags_of args" san] args_lengths(7) [of args]
    by (simp add: command_line_def Let_def)
qed


end
