(* ===== verification/Angora_Coverage.thy ===== *)
theory Angora_Coverage
  imports Angora_Pass
begin

text \<open>
  What the inserted code does at run time: the edge counters and the function contexts.  The instrumented program
  is a machine with a stack of activations, whose steps are the pieces of code that \<open>countEdge\<close>, \<open>processCall\<close> and
  \<open>addFnWrap\<close> insert, with the constants the pass draws for them.
\<close>

section \<open>Small words\<close>

text \<open>An index into the coverage map.\<close>

definition small :: "u64 \<Rightarrow> bool" where
  "small x \<longleftrightarrow> unat x < MAP_SIZE"

lemma small_take: "small x \<longleftrightarrow> take_bit 20 x = x"
  by (simp only: small_def MAP_SIZE_def take_bit_self)

lemma small_bit: "small x \<Longrightarrow> bit x n \<Longrightarrow> n < 20"
  by (metis small_take bit_take_bit_iff)

lemma smallI: "(\<And>n. bit x n \<Longrightarrow> n < 20) \<Longrightarrow> small x"
  unfolding small_take by (rule bit_word_eqI) (auto simp: bit_simps)

lemma small_xor: "small x \<Longrightarrow> small y \<Longrightarrow> small (x XOR y)"
  by (rule smallI) (auto simp: bit_simps dest: small_bit)

lemma small_drop: "small x \<Longrightarrow> small (drop_bit k x)"
  by (rule smallI) (auto simp: bit_simps dest: small_bit)

lemma small_zero: "small 0"
  by (simp add: small_def MAP_SIZE_def)

lemma small_take32: "small x \<Longrightarrow> take_bit 32 x = x"
  by (rule bit_word_eqI) (auto simp: bit_simps dest: small_bit)

lemma small_index: "small x \<Longrightarrow> scast (ucast x :: u32) = x"
  by (rule bit_word_eqI) (auto simp: bit_simps min_def dest: small_bit split: if_splits)

lemma small_ucast: "unat (c :: u32) < MAP_SIZE \<Longrightarrow> small (ucast c)"
proof -
  assume "unat c < MAP_SIZE"
  then have "take_bit 20 c = c" by (simp only: MAP_SIZE_def take_bit_self)
  then have "bit c n \<Longrightarrow> n < 20" for n by (metis bit_take_bit_iff)
  then show ?thesis by (intro smallI) (auto simp: bit_simps)
qed

section \<open>The edge counter\<close>

text \<open>A counter that skips zero.\<close>

definition bump :: "u8 \<Rightarrow> u8" where
  "bump c = (if c = 255 then 1 else c + 1)"

lemma bump_nonzero: "bump c \<noteq> 0"
proof -
  have "c = 255" if "c + 1 = 0"
  proof -
    have "c = c + 1 - 1" by simp
    also have "\<dots> = 255" unfolding that by simp
    finally show ?thesis .
  qed
  then show ?thesis by (auto simp: bump_def)
qed

lemma byte_add: "ucast (take_bit 8 (x + y) :: u64) = (ucast x + ucast y :: u8)"
  by (simp add: unsigned_ucast_eq word_unat_eq_iff unat_word_ariths take_bit_eq_mod mod_simps mod_mod_cancel)

lemma bump_code:
  fixes c :: u8
  defines "w \<equiv> take_bit 8 (ucast c + 1 :: u64)"
  shows "ucast (take_bit 8 (w + (if w = 0 then 1 else 0)) :: u64) = bump c"
proof -
  have "ucast (ucast c :: u64) = c" by (rule bit_word_eqI) (auto simp: bit_simps)
  then have w: "ucast w = c + 1" unfolding w_def byte_add by simp
  have z: "w = 0 \<longleftrightarrow> c + 1 = 0"
  proof
    assume "c + 1 = 0"
    moreover have "w = ucast (ucast w :: u8)" unfolding w_def by (rule bit_word_eqI) (auto simp: bit_simps)
    ultimately show "w = 0" using w by simp
  qed (use w in auto)
  have m: "c + 1 = 0 \<longleftrightarrow> c = 255"
  proof
    assume e: "c + 1 = 0"
    have "c = c + 1 - 1" by simp
    also have "\<dots> = 255" unfolding e by simp
    finally show "c = 255" .
  qed simp
  show ?thesis unfolding byte_add w z m by (simp add: bump_def)
qed

text \<open>The globals that index the map.\<close>

definition in_map :: "exec \<Rightarrow> bool" where
  "in_map s \<longleftrightarrow> small (gval s AngoraPrevLoc) \<and> small (gval s AngoraContext) \<and> small (gval s AngoraCallSite)"

lemma count_run:
  assumes "in_map s" "unat cur < MAP_SIZE"
  shows "let s' = run_codes E s (count_code n ctx cur);
             i = gval s AngoraPrevLoc XOR ucast cur; a = gval s AngoraMapPtr + i
         in small i \<and> bytes s' = (bytes s)(a := bump (bytes s a)) \<and> bytes s' a \<noteq> 0 \<and>
            gval s' = (gval s)(AngoraPrevLoc :=
              (if ctx \<noteq> 0 then gval s AngoraContext XOR ucast (drop_bit 1 cur) else ucast (drop_bit 1 cur))) \<and>
            calls s' = calls s \<and> (\<forall>k<n. tmp s' k = tmp s k)"
proof -
  let ?i = "gval s AngoraPrevLoc XOR ucast cur"
  have c: "small (ucast cur)" by (rule small_ucast [OF assms(2)])
  have i: "small ?i" using assms(1) c by (simp add: in_map_def small_xor)
  have h: "ucast (drop_bit 1 cur) = drop_bit 1 (ucast cur :: u64)" by (rule bit_word_eqI) (auto simp: bit_simps dest: bit_imp_le_length)
  then have d: "small (ucast (drop_bit 1 cur))" using small_drop [OF c] by simp
  then have x: "small (gval s AngoraContext XOR ucast (drop_bit 1 cur))" using assms(1) by (simp add: in_map_def small_xor)
  show ?thesis unfolding Let_def
    using i small_take32 [OF d] small_take32 [OF x] bump_nonzero bump_code
    by (simp add: count_code_def small_index [OF i])
qed
text \<open>The code of an edge counter, for a block with the random number \<open>cur\<close>: the byte of the map at the exclusive or of
  the previous location and \<open>cur\<close>, an index below the size of the map, is incremented past zero, so that a counter
  that has counted is never zero again; the new previous location is half of \<open>cur\<close>, combined with the context unless
  contexts are switched off; nothing else of the program's or the instrumentation's state changes.\<close>

theorem count_edge_effect:
  assumes "in_map s" "unat cur < MAP_SIZE"
  shows "let s' = run_codes E s (count_code n ctx cur);
             i = gval s AngoraPrevLoc XOR ucast cur; a = gval s AngoraMapPtr + i
         in small i \<and> bytes s' = (bytes s)(a := bump (bytes s a)) \<and> bytes s' a \<noteq> 0 \<and>
            gval s' = (gval s)(AngoraPrevLoc :=
              (if ctx \<noteq> 0 then gval s AngoraContext XOR ucast (drop_bit 1 cur) else ucast (drop_bit 1 cur))) \<and>
            calls s' = calls s \<and> (\<forall>k<n. tmp s' k = tmp s k)"
  using count_run [OF assms] .

definition start_exec :: exec where
  "start_exec = \<lparr>tmp = (\<lambda>_. 0), gval = (\<lambda>g. if g = AngoraMapPtr then 0x500000 else if g = AngoraPrevLoc then 5 else 0),
     bytes = (\<lambda>_. 255), calls = []\<rparr>"

definition no_prog :: prog_env where
  "no_prog = \<lparr>pv = (\<lambda>_. 0), fp = (\<lambda>_ x. x), arr = (\<lambda>_. 0)\<rparr>"

theorem count_edge_effect_witness:
  "bytes (run_codes no_prog start_exec (count_code 0 (- 1) 3)) 0x500006 \<noteq> 0 \<and> bytes start_exec 0x500006 + 1 = 0"
proof -
  have "in_map start_exec" by (simp add: in_map_def start_exec_def small_def MAP_SIZE_def)
  moreover have "unat (3 :: u32) < MAP_SIZE" by (simp add: MAP_SIZE_def)
  moreover have "gval start_exec AngoraMapPtr + (gval start_exec AngoraPrevLoc XOR ucast (3 :: u32)) = 0x500006" by code_simp
  moreover have "bytes start_exec 0x500006 + 1 = 0" by code_simp
  ultimately show ?thesis using count_edge_effect [of start_exec 3 no_prog 0 "- 1"] bump_nonzero by (simp add: Let_def)
qed

section \<open>Contexts\<close>

abbreviation saved :: "int \<Rightarrow> nat \<Rightarrow> nat" where
  "saved ctx n \<equiv> (if ctx > 0 then n + 2 else n + 1)"

definition shifted :: "int \<Rightarrow> u64 \<Rightarrow> u64" where
  "shifted ctx c = (if ctx > 0 then drop_bit (32 div nat ctx) c else c)"

lemma small_shifted: "small c \<Longrightarrow> small (shifted ctx c)"
  by (simp add: shifted_def small_drop)

lemma enter_run:
  assumes "in_map s"
  shows "gval (run_codes E s (enter_code n ctx)) =
           (gval s)(AngoraContext := shifted ctx (gval s AngoraContext) XOR gval s AngoraCallSite)"
    "tmp (run_codes E s (enter_code n ctx)) (saved ctx n) = shifted ctx (gval s AngoraContext)"
    "bytes (run_codes E s (enter_code n ctx)) = bytes s"
proof -
  have "small (shifted ctx (gval s AngoraContext) XOR gval s AngoraCallSite)"
    using assms by (simp add: in_map_def small_shifted small_xor)
  from small_take32 [OF this]
  show "gval (run_codes E s (enter_code n ctx)) =
      (gval s)(AngoraContext := shifted ctx (gval s AngoraContext) XOR gval s AngoraCallSite)"
    by (auto simp: enter_code_def shifted_def)
  show "tmp (run_codes E s (enter_code n ctx)) (saved ctx n) = shifted ctx (gval s AngoraContext)"
    "bytes (run_codes E s (enter_code n ctx)) = bytes s"
    by (auto simp: enter_code_def shifted_def)
qed

lemma leave_run:
  "gval (run_codes E s (leave_code n ctx)) =
     (gval s)(AngoraContext := take_bit 32 (tmp s (saved ctx n)), ParmeSanIndCallSite := 0)"
  "bytes (run_codes E s (leave_code n ctx)) = bytes s"
  by (simp_all add: leave_code_def reset_code_def)

text \<open>The context around a call.  On entry the context becomes its shifted value combined with the call site; on
  return, in any later state of the same activation, the context is the one before the call without a context length,
  which is the default, but with a context length it is the shifted one: the caller's context is not restored, because
  the pass reuses the variable of the loaded context for the shifted one.  The indirect call site is cleared.\<close>

theorem function_context:
  assumes "in_map s" "tmp s' (saved ctx n) = tmp (run_codes E s (enter_code n ctx)) (saved ctx n)"
  shows "gval (run_codes E s (enter_code n ctx)) AngoraContext = shifted ctx (gval s AngoraContext) XOR gval s AngoraCallSite \<and>
         gval (run_codes E s' (leave_code n ctx)) AngoraContext =
           (if ctx > 0 then drop_bit (32 div nat ctx) (gval s AngoraContext) else gval s AngoraContext) \<and>
         gval (run_codes E s' (leave_code n ctx)) ParmeSanIndCallSite = 0"
proof -
  have "small (shifted ctx (gval s AngoraContext))" using assms(1) by (simp add: in_map_def small_shifted)
  then have "take_bit 32 (tmp s' (saved ctx n)) = shifted ctx (gval s AngoraContext)"
    using assms(2) enter_run(2) [OF assms(1), of E n ctx] small_take32 by simp
  then show ?thesis using enter_run(1) [OF assms(1), of E n ctx] leave_run(1) [of E s' n ctx]
    by (simp add: shifted_def)
qed

theorem function_context_witness:
  "let s = start_exec\<lparr>gval := (gval start_exec)(AngoraContext := 0x12345, AngoraCallSite := 0xff)\<rparr> in
   gval (run_codes no_prog (run_codes no_prog s (enter_code 0 (- 1))) (leave_code 0 (- 1))) AngoraContext = 0x12345 \<and>
   gval (run_codes no_prog (run_codes no_prog s (enter_code 0 4)) (leave_code 0 4)) AngoraContext = 0x123"
proof -
  let ?s = "start_exec\<lparr>gval := (gval start_exec)(AngoraContext := 0x12345, AngoraCallSite := 0xff)\<rparr>"
  have m: "in_map ?s" by (simp add: in_map_def start_exec_def small_def MAP_SIZE_def)
  have d: "drop_bit (32 div nat 4) (0x12345 :: u64) = 0x123" by code_simp
  show ?thesis unfolding Let_def
    using function_context [OF m refl, of no_prog 0 "- 1"] function_context [OF m refl, of no_prog 0 4] d by simp
qed

section \<open>Runs of the instrumented program\<close>

type_synonym mach = "exec \<times> nat \<times> (nat \<times> (nat \<Rightarrow> u64)) list"

text \<open>A step of the instrumented program: the current activation, the number of its first inserted result, and the
  suspended activations.  The code of a counter uses results behind those of the function's entry code.  The constants
  are those the pass draws.\<close>

inductive cov_step :: "angora_env \<Rightarrow> int \<Rightarrow> prog_env \<Rightarrow> mach \<Rightarrow> mach \<Rightarrow> bool" for A ctx E where
  edge: "n + 4 \<le> k \<Longrightarrow>
    cov_step A ctx E (s, n, fs) (run_codes E s (count_code k ctx (fst (getRandomBasicBlockId A ps))), n, fs)"
| call: "cov_step A ctx E (s, n, fs) (run_codes E s [(True, StoreG (Imm32 (fst (getRandomContextId ps))) AngoraCallSite)], n, fs)"
| enter: "cov_step A ctx E (s, n, fs) (run_codes E s (enter_code m ctx), m, (n, tmp s) # fs)"
| leave: "cov_step A ctx E (s, n, (m, t) # fs) ((run_codes E s (leave_code n ctx))\<lparr>tmp := t\<rparr>, m, fs)"

definition mach_ok :: "int \<Rightarrow> exec \<Rightarrow> mach \<Rightarrow> bool" where
  "mach_ok ctx s0 = (\<lambda>(s, n, fs). in_map s \<and> small (tmp s (saved ctx n)) \<and> list_all (\<lambda>(m, t). small (t (saved ctx m))) fs \<and>
     gval s AngoraMapPtr = gval s0 AngoraMapPtr \<and>
     (\<forall>a. \<not> small (a - gval s0 AngoraMapPtr) \<longrightarrow> bytes s a = bytes s0 a) \<and>
     (\<forall>a. bytes s0 a \<noteq> 0 \<longrightarrow> bytes s a \<noteq> 0))"

lemma drawn_small:
  "small (ucast (fst (getRandomBasicBlockId A ps)))" "small (ucast (fst (getRandomContextId ps)))"
  "unat (fst (getRandomBasicBlockId A ps)) < MAP_SIZE"
proof -
  have m: "unat (of_nat (x mod MAP_SIZE) :: u32) < MAP_SIZE" for x
  proof -
    have "x mod MAP_SIZE < MAP_SIZE" by (simp add: MAP_SIZE_def)
    then have "x mod MAP_SIZE < 2 ^ 32" by (simp add: MAP_SIZE_def)
    then show ?thesis using \<open>x mod MAP_SIZE < MAP_SIZE\<close> by (simp add: unat_of_nat)
  qed
  show "small (ucast (fst (getRandomBasicBlockId A ps)))" "small (ucast (fst (getRandomContextId ps)))"
    "unat (fst (getRandomBasicBlockId A ps)) < MAP_SIZE"
    using m by (simp_all add: small_ucast getRandomBasicBlockId_def getRandomContextId_def split: prod.split)
qed

lemma mach_ok_step: "cov_step A ctx E x y \<Longrightarrow> mach_ok ctx s0 x \<Longrightarrow> mach_ok ctx s0 y"
proof (induction rule: cov_step.induct)
  case (edge n k s fs ps)
  let ?c = "fst (getRandomBasicBlockId A ps)"
  let ?a = "gval s AngoraMapPtr + (gval s AngoraPrevLoc XOR ucast ?c)"
  have i: "in_map s" using edge(2) by (simp add: mach_ok_def)
  note e = count_run [OF i drawn_small(3) [of A ps], of E k ctx, unfolded Let_def]
  have h: "ucast (drop_bit 1 ?c) = drop_bit 1 (ucast ?c :: u64)" by (rule bit_word_eqI) (auto simp: bit_simps dest: bit_imp_le_length)
  have d: "small (ucast (drop_bit 1 ?c))" using small_drop [OF drawn_small(1)] h by simp
  have p: "small (if ctx \<noteq> 0 then gval s AngoraContext XOR ucast (drop_bit 1 ?c) else ucast (drop_bit 1 ?c))"
    using i d by (simp add: in_map_def small_xor)
  have t: "tmp (run_codes E s (count_code k ctx ?c)) (saved ctx n) = tmp s (saved ctx n)" using e edge(1) by simp
  have b: "bytes (run_codes E s (count_code k ctx ?c)) a = bytes s a" if "\<not> small (a - gval s0 AngoraMapPtr)" for a
  proof -
    have "a \<noteq> ?a" using that e edge(2) by (auto simp: mach_ok_def)
    then show ?thesis using e by simp
  qed
  have z: "bytes (run_codes E s (count_code k ctx ?c)) a \<noteq> 0" if "bytes s a \<noteq> 0" for a
    using that e by (cases "a = ?a") auto
  show ?case using edge(2) e p t b z by (auto simp: mach_ok_def in_map_def)
next
  case (call s n fs ps)
  then show ?case using drawn_small(2) [of ps] small_take32 [OF drawn_small(2)] by (auto simp: mach_ok_def in_map_def)
next
  case (enter s n fs m)
  then have i: "in_map s" by (simp add: mach_ok_def)
  then have "small (shifted ctx (gval s AngoraContext))" by (simp add: in_map_def small_shifted)
  then show ?case using enter enter_run [OF i, of E m ctx] i by (auto simp: mach_ok_def in_map_def small_xor)
next
  case (leave s n m t fs)
  then have "small (take_bit 32 (tmp s (saved ctx n)))" by (simp add: mach_ok_def small_take32)
  then show ?case using leave leave_run [of E s n ctx] by (auto simp: mach_ok_def in_map_def)
qed

text \<open>C24. Counting stays inside the coverage map.  In every run of the instrumented program, whatever sequence of
  blocks, calls, function entries and returns it goes through, the previous location, the context and the call site
  stay below the size of the map, bytes outside of the map are never written, and a counter that was counted once is
  never zero again.\<close>

theorem coverage_map_safe:
  assumes "(cov_step A ctx E)\<^sup>*\<^sup>* (s0, n0, []) (s, n, fs)" "in_map s0" "small (tmp s0 (saved ctx n0))"
  shows "in_map s \<and> (\<forall>a. \<not> small (a - gval s0 AngoraMapPtr) \<longrightarrow> bytes s a = bytes s0 a) \<and>
         (\<forall>a. bytes s0 a \<noteq> 0 \<longrightarrow> bytes s a \<noteq> 0)"
proof -
  have "mach_ok ctx s0 (s0, n0, [])" using assms(2,3) by (simp add: mach_ok_def)
  moreover have "mach_ok ctx s0 x \<Longrightarrow> (cov_step A ctx E)\<^sup>*\<^sup>* x y \<Longrightarrow> mach_ok ctx s0 y" for x y
    by (rotate_tac 1, induction rule: rtranclp_induct) (auto intro: mach_ok_step)
  ultimately have "mach_ok ctx s0 (s, n, fs)" using assms(1) by blast
  then show ?thesis by (simp add: mach_ok_def)
qed

text \<open>A pass over a module with an empty random sequence, for concrete runs.\<close>

definition sample_angora :: angora_env where
  "sample_angora = \<lparr>TrackMode = False, DFSanMode = False, type_of = (\<lambda>_. IntegerTy 32), isEHPad = (\<lambda>_. False),
     isIntrinsic = (\<lambda>_. False), exploit_section = (\<lambda>_ _ _. False), opcode_num = (\<lambda>_. 0), opcode_name = (\<lambda>_. []),
     random = (\<lambda>n. 1103 * n)\<rparr>"

definition fresh_pass :: pass where
  "fresh_pass = the (initVariables ''a.c'' 0 None False None True)"

theorem coverage_map_safe_witness:
  "let c = fst (getRandomBasicBlockId sample_angora fresh_pass); s = run_codes no_prog start_exec (count_code 4 (- 1) c)
   in in_map s \<and> bytes s 7 = 255"
proof -
  let ?c = "fst (getRandomBasicBlockId sample_angora fresh_pass)"
  let ?s = "run_codes no_prog start_exec (count_code 4 (- 1) ?c)"
  have "(cov_step sample_angora (- 1) no_prog)\<^sup>*\<^sup>* (start_exec, 0, []) (?s, 0, [])"
    by (intro r_into_rtranclp cov_step.edge) simp
  moreover have "in_map start_exec" "small (tmp start_exec (saved (- 1) 0))"
    by (simp_all add: in_map_def start_exec_def small_def MAP_SIZE_def)
  ultimately have "in_map ?s \<and> (\<forall>a. \<not> small (a - gval start_exec AngoraMapPtr) \<longrightarrow> bytes ?s a = bytes start_exec a)"
    using coverage_map_safe by blast
  moreover have "\<not> small (7 - gval start_exec AngoraMapPtr)" by (simp add: start_exec_def small_def MAP_SIZE_def)
  ultimately show ?thesis by (simp add: Let_def start_exec_def)
qed

section \<open>Blocks without a counter\<close>

text \<open>Everything but \<open>countEdge\<close> leaves the random sequence alone, and code is only ever added.\<close>

definition adds_code :: "pass \<Rightarrow> pass \<Rightarrow> bool" where
  "adds_code s t \<longleftrightarrow> random_used t = random_used s \<and> (\<exists>xs. placed t = placed s @ xs)"

lemma adds_refl [intro]: "adds_code s s"
  by (simp add: adds_code_def)

lemma adds_trans: "adds_code s t \<Longrightarrow> adds_code t u \<Longrightarrow> adds_code s u"
  by (auto simp: adds_code_def)

lemma adds_place: "adds_code s t \<Longrightarrow> adds_code s (place t p cs k)"
  by (auto simp: adds_code_def place_def)

lemma adds_eq: "adds_code s t \<Longrightarrow> random_used u = random_used t \<Longrightarrow> placed u = placed t \<Longrightarrow> adds_code s u"
  by (simp add: adds_code_def)

lemma holds_True: "holds x (\<lambda>_. True)"
  by (simp add: holds_def)

lemma adds_id: "holds (getInstructionId s I) (\<lambda>(h, t). adds_code s t)"
  by (auto simp: holds_True getInstructionId_def first_id_def getRandomInstructionId_def getRandomNum_def Let_def adds_code_def wp
      split: option.split)

lemma adds_bool: "adds_code s (processBoolCmp E s c i p)"
  by (auto simp: processBoolCmp_def Let_def intro: adds_place split: ty.split)

lemma adds_cmp: "adds_code s (processCmp E s c pred a b i p)"
  by (auto simp: processCmp_def Let_def intro: adds_place adds_bool split: prod.split)

lemma with_id: "(\<And>h t. adds_code s t \<Longrightarrow> holds (f h t) (adds_code s)) \<Longrightarrow>
    holds (Option.bind (getInstructionId s I) (\<lambda>(h, t). f h t)) (adds_code s)"
  unfolding holds_bind by (rule holds_mono [OF adds_id]) auto

lemma adds_exploit: "holds (exploit_param E I v s) (adds_code s)"
  unfolding exploit_param_def Let_def by (intro holds_ifI with_id) (auto simp: wp intro: adds_place)

lemma adds_exploits: "holds (exploit_params E I vs s) (adds_code s)"
proof (induction vs arbitrary: s)
  case (Cons x vs)
  obtain v cat where x: "x = (v, cat)" by (cases x)
  have "holds (if exploit_isIn E I ''all'' \<or> exploit_isIn E I cat then exploit_param E I v s else Some s) (adds_code s)"
    by (auto simp: wp adds_exploit)
  then show ?case unfolding exploit_params.simps holds_bind x
    by (rule holds_mono) (blast intro: holds_mono [OF Cons] adds_trans)
qed (simp add: wp adds_refl)

lemma adds_compare: "holds (visitCompareFunc E s I) (adds_code s)"
  unfolding visitCompareFunc_def Let_def
  by (intro holds_ifI with_id) (auto simp: wp intro: adds_place split: list.split)

lemma adds_call: "holds (processCall E s I) (adds_code s)"
proof -
  have "holds (if is_direct (ikind I) then Option.bind (visitCompareFunc E s I) (\<lambda>t. visitExploitation E t I) else Some s) (adds_code s)"
    unfolding holds_if holds_bind visitExploitation_def
    by (auto simp: wp intro!: holds_mono [OF adds_compare] holds_mono [OF adds_exploits] intro: adds_trans)
  then show ?thesis
    unfolding processCall_def Let_def holds_bind
    by (rule holds_mono)
      (auto simp: wp getRandomContextId_def getRandomNum_def Let_def intro!: adds_place elim: adds_eq)
qed

lemma adds_visit:
  assumes "\<not> at_first_insertion E s B I"
  shows "holds (visit_inst E B s I) (adds_code s)"
proof -
  have "holds (visitCallInst E s I f) (adds_code s)" "holds (visitInvokeInst E s I f) (adds_code s)" for f
    unfolding visitCallInst_def visitInvokeInst_def
    by (auto simp: wp adds_call adds_code_def split: option.split)
  moreover have "holds (visitBranchInst E s I) (adds_code s)"
    unfolding visitBranchInst_def
    by (cases "ikind I") (auto simp: wp intro!: holds_mono [OF adds_id] intro: adds_trans adds_bool)
  moreover have "holds (visitSwitchInst E s I c cs) (adds_code s)" for c cs
    unfolding visitSwitchInst_def Let_def
    by (intro holds_ifI with_id) (auto simp: wp intro: adds_place)
  moreover have "holds (visitCmpInst E s I l pred a b) (adds_code s)" for l pred a b
    unfolding visitCmpInst_def by (auto simp: wp intro!: holds_mono [OF adds_id] intro: adds_trans adds_cmp)
  moreover have "holds (visitExploitation E s I) (adds_code s)" unfolding visitExploitation_def by (rule adds_exploits)
  ultimately show ?thesis using assms unfolding visit_inst_def Let_def
    by (auto simp: wp adds_refl split: ikind.split)
qed

text \<open>Code in front of the first insertion point hides it, for good.\<close>

lemma hidden_point:
  assumes "(Before v, cs) \<in> set (placed s)" "cs \<noteq> []" "first_insertion E (insts B) = Some I" "iaddr I = v"
  shows "\<not> at_first_insertion E s B J"
proof
  assume a: "at_first_insertion E s B J"
  then have "I = J" using assms(3) by (simp add: at_first_insertion_def)
  with a assms show False by (fastforce simp: at_first_insertion_def list_all_iff Let_def)
qed

lemma hidden_visits:
  assumes "(Before v, cs) \<in> set (placed s)" "cs \<noteq> []" "first_insertion E (insts B) = Some I" "iaddr I = v"
  shows "holds (visit_insts E B s is) (adds_code s)"
  using assms(1)
proof (induction "is" arbitrary: s)
  case (Cons J "is")
  have "holds (visit_insts E B t is) (adds_code s)" if "adds_code s t" for t
  proof -
    have "(Before v, cs) \<in> set (placed t)" using that Cons.prems by (auto simp: adds_code_def)
    from holds_mono [OF Cons.IH [OF this]] show ?thesis using that adds_trans by blast
  qed
  then show ?case unfolding visit_insts.simps holds_bind
    using hidden_point [OF Cons.prems assms(2-4)] by (blast intro: holds_mono [OF adds_visit])
qed (simp add: wp adds_refl)

lemma addFnWrap_enters:
  assumes "num_fn_ctx s \<noteq> 0" "blocks F = B # Bs" "first_insertion E (insts B) = Some I"
  shows "(Before (iaddr I), enter_code (next_tmp s) (num_fn_ctx s)) \<in> set (placed (addFnWrap E s F)) \<and> adds_code s (addFnWrap E s F)"
proof -
  have "adds_code t (fold (\<lambda>J t. place t (Before (iaddr J)) cs 0) js t)" for cs js t
  proof (induction js arbitrary: t)
    case (Cons J js)
    show ?case using adds_trans [OF adds_place [OF adds_refl] Cons] by simp
  qed (simp add: adds_refl)
  then have "adds_code (place s (Before (iaddr I)) (enter_code (next_tmp s) (num_fn_ctx s)) 4) (addFnWrap E s F)"
    using assms by (simp add: addFnWrap_def Let_def)
  moreover from this have "adds_code s (addFnWrap E s F)" using adds_trans adds_place by blast
  ultimately show ?thesis by (auto simp: adds_code_def place_def)
qed

text \<open>With function contexts, which are on unless \<^verbatim>\<open>ANGORA_CUSTOM_FN_CONTEXT\<close> is zero, the entry block of a function
  never gets an edge counter: the code that updates the context is inserted first and is the block's first insertion
  point from then on, and the loop skips it because of its \<^verbatim>\<open>nosanitize\<close> mark.  Visiting the block takes no random
  number for a counter.\<close>

theorem entry_block_uncounted:
  assumes "num_fn_ctx s \<noteq> 0" "blocks F = B # Bs" "first_insertion E (insts B) = Some I"
    and "visit_insts E B (addFnWrap E s F) (insts B) = Some t"
  shows "random_used t = random_used s \<and> (\<forall>J \<in> set (insts B). \<not> at_first_insertion E t B J)"
proof -
  note a = addFnWrap_enters [OF assms(1-3)]
  have e: "enter_code (next_tmp s) (num_fn_ctx s) \<noteq> []" by (simp add: enter_code_def)
  from holdsD [OF hidden_visits [OF a [THEN conjunct1] e assms(3) refl] assms(4)]
  have x: "adds_code (addFnWrap E s F) t" .
  then have "(Before (iaddr I), enter_code (next_tmp s) (num_fn_ctx s)) \<in> set (placed t)"
    using a by (auto simp: adds_code_def)
  from hidden_point [OF this e assms(3) refl] x a show ?thesis by (simp add: adds_code_def)
qed

definition sample_entry :: func where
  "sample_entry = \<lparr>faddr = 1, fname = ''f'', fargs = [],
     blocks = [\<lparr>baddr = 2, bname = [], insts = [mk_inst 3 True (OtherInst 1 []), mk_inst 4 True (OtherInst 1 [])]\<rparr>]\<rparr>"

theorem entry_block_uncounted_witness:
  "\<exists>t. visit_insts sample_angora (hd (blocks sample_entry)) (addFnWrap sample_angora fresh_pass sample_entry)
         (insts (hd (blocks sample_entry))) = Some t \<and> random_used t = 0 \<and> FastMode t"
proof -
  let ?B = "hd (blocks sample_entry)"
  let ?t = "the (visit_insts sample_angora ?B (addFnWrap sample_angora fresh_pass sample_entry) (insts ?B))"
  have b: "blocks sample_entry = ?B # []" by code_simp
  have "num_fn_ctx fresh_pass \<noteq> 0" "random_used fresh_pass = 0" "FastMode ?t" by code_simp+
  moreover have "first_insertion sample_angora (insts ?B) = Some (mk_inst 3 True (OtherInst 1 []))" by code_simp
  moreover have "visit_insts sample_angora ?B (addFnWrap sample_angora fresh_pass sample_entry) (insts ?B) = Some ?t"
    by code_simp
  ultimately show ?thesis using entry_block_uncounted [of fresh_pass sample_entry ?B "[]" sample_angora] b by auto
qed

end
