(* ===== verification/Unfold_Branch.thy ===== *)
theory Unfold_Branch
  imports Angora_Coverage
begin

text \<open>
  The pass that keeps conditional branches apart, \<^verbatim>\<open>llvm_mode/pass/UnfoldBranchPass.cc\<close>.  Long before the instrumentation it puts
  a call of \<^verbatim>\<open>__unfold_branch_fn\<close> into every successor of a conditional branch, so that LLVM does not fold the branches; the
  instrumentation pass removes these calls again.  \<open>rnd\<close> is the sequence of \<^verbatim>\<open>random()\<close>; new instructions are numbered from
  \<open>ub_next\<close> on.  \<open>None\<close> is a block without a place to insert code, of which the code dereferences the end.
\<close>

section \<open>The pass\<close>

record unfold =
  VisitedBB :: "vid list"
  ub_blocks :: "block list"
  ub_random :: nat
  ub_next :: vid

definition UNFOLD_RANGE :: nat where
  "UNFOLD_RANGE = 1048576"

text \<open>The builder gives the call the debug location of the instruction it is inserted before.\<close>

definition unfold_call :: "vid \<Rightarrow> vid \<Rightarrow> nat \<Rightarrow> inst \<Rightarrow> inst" where
  "unfold_call fn a cur_loc IP =
     \<lparr>iaddr = a, iname = [], ity = VoidTy,
      ikind = CallInst (Const (GlobalValue fn FunctionG ''__unfold_branch_fn'')) [Const (ConstantInt 32 (int cur_loc))],
      use_empty = True, idebug = idebug IP, nosanitize = False\<rparr>"

fun insert_before :: "vid \<Rightarrow> inst \<Rightarrow> inst list \<Rightarrow> inst list" where
  "insert_before v J [] = []"
| "insert_before v J (I # is) = (if iaddr I = v then J # I # is else I # insert_before v J is)"

definition mark_successor :: "angora_env \<Rightarrow> (nat \<Rightarrow> nat) \<Rightarrow> vid \<Rightarrow> vid \<Rightarrow> unfold \<Rightarrow> unfold option" where
  "mark_successor E rnd fn B0 st =
     (if B0 \<in> set (VisitedBB st) then Some st
      else case find (\<lambda>B. baddr B = B0) (ub_blocks st) of
        None \<Rightarrow> None
      | Some B \<Rightarrow>
        (case first_insertion E (insts B) of
           None \<Rightarrow> None
         | Some IP \<Rightarrow>
             let call = unfold_call fn (ub_next st) (rnd (ub_random st) mod UNFOLD_RANGE) IP in
             Some \<lparr>VisitedBB = B0 # VisitedBB st,
                   ub_blocks = map (\<lambda>b. if baddr b = B0 then b\<lparr>insts := insert_before (iaddr IP) call (insts b)\<rparr> else b) (ub_blocks st),
                   ub_random = Suc (ub_random st), ub_next = Suc (ub_next st)\<rparr>))"

text \<open>The successors of a block that are to be marked.  The terminator of a block is never changed.\<close>

definition branch_targets :: "block \<Rightarrow> vid list" where
  "branch_targets B =
     (case terminator B of
        None \<Rightarrow> []
      | Some I \<Rightarrow> (case ikind I of CondBranchInst c t f \<Rightarrow> [t, f] | _ \<Rightarrow> []))"

definition unfold_block :: "angora_env \<Rightarrow> (nat \<Rightarrow> nat) \<Rightarrow> vid \<Rightarrow> block \<Rightarrow> unfold \<Rightarrow> unfold option" where
  "unfold_block E rnd fn B st = ofold (mark_successor E rnd fn) (branch_targets B) st"

text \<open>The function with the calls, and the random numbers and addresses used so far.\<close>

definition unfold_function :: "angora_env \<Rightarrow> (nat \<Rightarrow> nat) \<Rightarrow> vid \<Rightarrow> nat \<Rightarrow> vid \<Rightarrow> func \<Rightarrow> (func \<times> nat \<times> vid) option" where
  "unfold_function E rnd fn k nxt F =
     (if blocks F = [] then Some (F, k, nxt)
      else map_option (\<lambda>st. (F\<lparr>blocks := ub_blocks st\<rparr>, ub_random st, ub_next st))
        (ofold (unfold_block E rnd fn) (blocks F) \<lparr>VisitedBB = [], ub_blocks = blocks F, ub_random = k, ub_next = nxt\<rparr>))"

section \<open>Marked blocks\<close>

definition marked :: "angora_env \<Rightarrow> vid \<Rightarrow> block \<Rightarrow> block \<Rightarrow> bool" where
  "marked E fn B B' \<longleftrightarrow> (\<exists>pre IP post a loc. insts B = pre @ IP # post \<and> first_insertion E (insts B) = Some IP \<and>
     B' = B\<lparr>insts := pre @ unfold_call fn a loc IP # IP # post\<rparr> \<and> loc < UNFOLD_RANGE)"

lemma first_insertion_in: "first_insertion E is = Some IP \<Longrightarrow> IP \<in> set is"
  by (auto simp: first_insertion_def split: list.splits if_splits) (metis list.set_intros set_dropWhileD)+

lemma insert_before_split:
  assumes "I \<in> set Is" "distinct (map iaddr Is)"
  shows "\<exists>pre post. Is = pre @ I # post \<and> insert_before (iaddr I) J Is = pre @ J # I # post"
  using assms
proof (induction Is)
  case (Cons K Is)
  show ?case
  proof (cases "K = I")
    case True
    then show ?thesis by (intro exI [of _ "[]"] exI [of _ Is]) simp
  next
    case False
    then have "I \<in> set Is" "iaddr K \<noteq> iaddr I" using Cons.prems by auto
    then obtain pre post where "Is = pre @ I # post" "insert_before (iaddr I) J Is = pre @ J # I # post" using Cons by auto
    then show ?thesis using \<open>iaddr K \<noteq> iaddr I\<close> by (intro exI [of _ "K # pre"] exI [of _ post]) simp
  qed
qed simp

text \<open>The blocks that were visited are marked, the others are as they were.\<close>

definition marking :: "angora_env \<Rightarrow> vid \<Rightarrow> func \<Rightarrow> unfold \<Rightarrow> bool" where
  "marking E fn F st \<longleftrightarrow> list_all2 (\<lambda>B B'. if baddr B \<in> set (VisitedBB st) then marked E fn B B' else B' = B) (blocks F) (ub_blocks st)"

definition unfold_ok :: "angora_env \<Rightarrow> func \<Rightarrow> bool" where
  "unfold_ok E F \<longleftrightarrow> distinct (map baddr (blocks F)) \<and> (\<forall>B\<in>set (blocks F). distinct (map iaddr (insts B)) \<and> first_insertion E (insts B) \<noteq> None \<and>
     set (branch_targets B) \<subseteq> baddr ` set (blocks F))"

lemma marked_baddr: "marked E fn B B' \<Longrightarrow> baddr B' = baddr B"
  by (auto simp: marked_def)

lemma mark_successor_marking:
  assumes "marking E fn F st" "unfold_ok E F" "B0 \<in> baddr ` set (blocks F)"
  shows "\<exists>st'. mark_successor E rnd fn B0 st = Some st' \<and> marking E fn F st' \<and> set (VisitedBB st') = insert B0 (set (VisitedBB st))"
proof (cases "B0 \<in> set (VisitedBB st)")
  case True
  then show ?thesis using assms(1) by (auto simp: mark_successor_def)
next
  case False
  have len: "length (ub_blocks st) = length (blocks F)"
    and nth: "\<And>i. i < length (blocks F) \<Longrightarrow> if baddr (blocks F ! i) \<in> set (VisitedBB st) then marked E fn (blocks F ! i) (ub_blocks st ! i)
      else ub_blocks st ! i = blocks F ! i"
    using assms(1) by (auto simp: marking_def list_all2_conv_all_nth)
  have ad: "baddr (ub_blocks st ! i) = baddr (blocks F ! i)" if "i < length (blocks F)" for i
    using nth [OF that] marked_baddr by (auto split: if_splits)
  obtain j where j: "j < length (blocks F)" "baddr (blocks F ! j) = B0" using assms(3) by (auto simp: in_set_conv_nth)
  let ?B = "blocks F ! j"
  have uniq: "i = j" if "i < length (blocks F)" "baddr (blocks F ! i) = B0" for i
    using assms(2) that j nth_eq_iff_index_eq [of "map baddr (blocks F)" i j] by (simp add: unfold_ok_def)
  have same: "ub_blocks st ! j = ?B" using nth [OF j(1)] False j(2) by simp
  have found: "find (\<lambda>B. baddr B = B0) (ub_blocks st) = Some ?B"
    unfolding find_Some_iff using j len ad same uniq by (intro exI [of _ j]) (metis less_irrefl order.strict_trans)
  have B: "?B \<in> set (blocks F)" using j(1) by simp
  then obtain IP where ip: "first_insertion E (insts ?B) = Some IP" using assms(2) by (auto simp: unfold_ok_def)
  let ?call = "unfold_call fn (ub_next st) (rnd (ub_random st) mod UNFOLD_RANGE) IP"
  let ?st = "\<lparr>VisitedBB = B0 # VisitedBB st,
      ub_blocks = map (\<lambda>b. if baddr b = B0 then b\<lparr>insts := insert_before (iaddr IP) ?call (insts b)\<rparr> else b) (ub_blocks st),
      ub_random = Suc (ub_random st), ub_next = Suc (ub_next st)\<rparr>"
  have st: "mark_successor E rnd fn B0 st = Some ?st" using False found ip by (simp add: mark_successor_def Let_def)
  have "distinct (map iaddr (insts ?B))" using assms(2) B by (simp add: unfold_ok_def)
  then obtain pre post where "insts ?B = pre @ IP # post" "insert_before (iaddr IP) ?call (insts ?B) = pre @ ?call # IP # post"
    using insert_before_split first_insertion_in [OF ip] by blast
  then have m: "marked E fn ?B (?B\<lparr>insts := insert_before (iaddr IP) ?call (insts ?B)\<rparr>)"
    using ip unfolding marked_def
    by (intro exI [of _ pre] exI [of _ IP] exI [of _ post] exI [of _ "ub_next st"] exI [of _ "rnd (ub_random st) mod UNFOLD_RANGE"])
      (simp add: UNFOLD_RANGE_def)
  have "if baddr (blocks F ! i) \<in> set (VisitedBB ?st) then marked E fn (blocks F ! i) (ub_blocks ?st ! i) else ub_blocks ?st ! i = blocks F ! i"
    if "i < length (blocks F)" for i
  proof (cases "i = j")
    case True
    then show ?thesis using m same j len by simp
  next
    case False
    then have "baddr (blocks F ! i) \<noteq> B0" using uniq that by blast
    then show ?thesis using nth [OF that] ad [OF that] that len by simp
  qed
  moreover have "length (blocks F) = length (ub_blocks ?st)" using len by simp
  ultimately have "marking E fn F ?st" unfolding marking_def list_all2_conv_all_nth by blast
  then show ?thesis using st by auto
qed


lemma mark_list_marking:
  assumes "marking E fn F st" "unfold_ok E F" "set ts \<subseteq> baddr ` set (blocks F)"
  shows "\<exists>st'. ofold (mark_successor E rnd fn) ts st = Some st' \<and> marking E fn F st' \<and> set (VisitedBB st') = set ts \<union> set (VisitedBB st)"
  using assms(1,3)
proof (induction ts arbitrary: st)
  case (Cons t ts)
  obtain st1 where 1: "mark_successor E rnd fn t st = Some st1" "marking E fn F st1" "set (VisitedBB st1) = insert t (set (VisitedBB st))"
    using mark_successor_marking [OF Cons.prems(1) assms(2), of t rnd] Cons.prems(2) by auto
  then show ?case using Cons.IH [OF 1(2)] Cons.prems(2) by auto
qed simp

lemma unfold_blocks_marking:
  assumes "marking E fn F st" "unfold_ok E F" "set Bs \<subseteq> set (blocks F)"
  shows "\<exists>st'. ofold (unfold_block E rnd fn) Bs st = Some st' \<and> marking E fn F st' \<and>
    set (VisitedBB st') = (\<Union>B\<in>set Bs. set (branch_targets B)) \<union> set (VisitedBB st)"
  using assms(1,3)
proof (induction Bs arbitrary: st)
  case (Cons B Bs)
  have "set (branch_targets B) \<subseteq> baddr ` set (blocks F)" using Cons.prems(2) assms(2) by (auto simp: unfold_ok_def)
  then obtain st1 where 1: "unfold_block E rnd fn B st = Some st1" "marking E fn F st1"
      "set (VisitedBB st1) = set (branch_targets B) \<union> set (VisitedBB st)"
    using mark_list_marking [OF Cons.prems(1) assms(2)] unfolding unfold_block_def by blast
  then obtain st2 where "ofold (unfold_block E rnd fn) Bs st1 = Some st2" "marking E fn F st2"
      "set (VisitedBB st2) = (\<Union>B\<in>set Bs. set (branch_targets B)) \<union> set (VisitedBB st1)"
    using Cons.IH [OF 1(2)] Cons.prems(2) by auto
  then show ?case using 1 by auto
qed simp

text \<open>C34. Markers come and go.  On a function whose blocks have a place to insert code, the pass puts exactly one call of
  \<^verbatim>\<open>__unfold_branch_fn\<close>, at the first insertion point, into each block that is a successor of a conditional branch, and leaves
  all other blocks as they are; and the instrumentation pass, when it visits such a call, erases it and inserts nothing
  for it.\<close>

theorem unfold_markers:
  assumes "unfold_ok E F" "\<not> isIntrinsic E fn"
  shows "\<exists>G k' nxt'. unfold_function E rnd fn k nxt F = Some (G, k', nxt') \<and> fname G = fname F \<and>
    list_all2 (\<lambda>B B'. if \<exists>C\<in>set (blocks F). baddr B \<in> set (branch_targets C) then marked E fn B B' else B' = B) (blocks F) (blocks G) \<and>
    (\<forall>s a loc IP. visitCallInst E s (unfold_call fn a loc IP) (Const (GlobalValue fn FunctionG ''__unfold_branch_fn'')) =
       Some (s\<lparr>erased := erased s @ [a]\<rparr>))"
proof -
  let ?st = "\<lparr>VisitedBB = [], ub_blocks = blocks F, ub_random = k, ub_next = nxt\<rparr>"
  have e: "visitCallInst E s (unfold_call fn a loc IP) (Const (GlobalValue fn FunctionG ''__unfold_branch_fn'')) = Some (s\<lparr>erased := erased s @ [a]\<rparr>)"
    for s a loc IP using assms(2) by (simp add: visitCallInst_def unfold_call_def)
  have "marking E fn F ?st" by (simp add: marking_def list_all2_refl)
  then obtain st where st: "ofold (unfold_block E rnd fn) (blocks F) ?st = Some st" "marking E fn F st"
      "set (VisitedBB st) = (\<Union>B\<in>set (blocks F). set (branch_targets B))"
    using unfold_blocks_marking [OF _ assms(1), of fn ?st "blocks F" rnd] by auto
  have u: "unfold_function E rnd fn k nxt F = Some (F\<lparr>blocks := ub_blocks st\<rparr>, ub_random st, ub_next st) \<or>
      blocks F = [] \<and> unfold_function E rnd fn k nxt F = Some (F, k, nxt)"
    using st(1) by (auto simp: unfold_function_def)
  have v: "baddr B \<in> set (VisitedBB st) \<longleftrightarrow> (\<exists>C\<in>set (blocks F). baddr B \<in> set (branch_targets C))" for B using st(3) by auto
  show ?thesis
  proof (cases "blocks F = []")
    case True
    then show ?thesis using e by (simp add: unfold_function_def)
  next
    case False
    then have "unfold_function E rnd fn k nxt F = Some (F\<lparr>blocks := ub_blocks st\<rparr>, ub_random st, ub_next st)" using u by simp
    then show ?thesis using st(2) e unfolding marking_def v by simp
  qed
qed

text \<open>A function with one conditional branch.\<close>

definition branchy :: func where
  "branchy = \<lparr>faddr = 1, fname = ''f'', fargs = [],
     blocks = [\<lparr>baddr = 2, bname = [], insts = [mk_inst 3 True (CondBranchInst (Arg 9) 4 6)]\<rparr>,
       \<lparr>baddr = 4, bname = [], insts = [mk_inst 5 True (BranchInst 6)]\<rparr>,
       \<lparr>baddr = 6, bname = [], insts = [mk_inst 7 True (PHINode []), mk_inst 8 True (ReturnInst [])]\<rparr>]\<rparr>"

theorem unfold_markers_witness:
  "\<exists>G k' nxt'. unfold_function sample_angora (\<lambda>n. n) 99 0 100 branchy = Some (G, k', nxt') \<and>
     (\<exists>B'. blocks G ! 2 = B' \<and> marked sample_angora 99 (blocks branchy ! 2) B') \<and> blocks G ! 0 = blocks branchy ! 0"
proof -
  have h: "unfold_ok sample_angora branchy" "\<not> isIntrinsic sample_angora 99" by code_simp+
  have t: "length (blocks branchy) = 3" "(\<exists>C\<in>set (blocks branchy). baddr (blocks branchy ! 2) \<in> set (branch_targets C))"
    "\<not> (\<exists>C\<in>set (blocks branchy). baddr (blocks branchy ! 0) \<in> set (branch_targets C))" by code_simp+
  obtain G k' nxt' where "unfold_function sample_angora (\<lambda>n. n) 99 0 100 branchy = Some (G, k', nxt')"
      "list_all2 (\<lambda>B B'. if \<exists>C\<in>set (blocks branchy). baddr B \<in> set (branch_targets C) then marked sample_angora 99 B B' else B' = B)
        (blocks branchy) (blocks G)"
    using unfold_markers [OF h, of "\<lambda>n. n" 0 100] by blast
  then show ?thesis using t by (auto simp: list_all2_conv_all_nth)
qed
end
