(* ===== verification/Ck_Alloc.thy ===== *)
theory Ck_Alloc
  imports Memory
begin

unbundle bit_operations_syntax

text \<open>
  The checking allocator of the compiler driver, \<^verbatim>\<open>llvm_mode/include/alloc_inl.h\<close>, without \<^verbatim>\<open>DEBUG_BUILD\<close>.  Each block
  carries its sz and a guard in front and a guard byte behind it.  Addresses are natural numbers, since every access is
  checked to lie in a block the C library has handed out; \<open>None\<close> is an access outside.  An abort is its message.
  \<^verbatim>\<open>malloc\<close> and \<^verbatim>\<open>realloc\<close> are parameters that choose addresses, zero for failure.
\<close>

section \<open>The heap of the C library\<close>

record ck_heap =
  h_mem :: "nat \<Rightarrow> u8"
  h_live :: "(nat \<times> nat) list" \<comment> \<open>address and size\<close>

definition acc :: "ck_heap \<Rightarrow> nat \<Rightarrow> nat \<Rightarrow> bool" where
  "acc s p n \<longleftrightarrow> list_ex (\<lambda>(b, k). b \<le> p \<and> p + n \<le> b + k) (h_live s)"

definition get32 :: "(nat \<Rightarrow> u8) \<Rightarrow> nat \<Rightarrow> u32" where
  "get32 m p = ucast (m p) OR push_bit 8 (ucast (m (p + 1))) OR push_bit 16 (ucast (m (p + 2))) OR push_bit 24 (ucast (m (p + 3)))"

definition put32 :: "(nat \<Rightarrow> u8) \<Rightarrow> nat \<Rightarrow> u32 \<Rightarrow> nat \<Rightarrow> u8" where
  "put32 m p w = m(p := ucast w, p + 1 := ucast (drop_bit 8 w), p + 2 := ucast (drop_bit 16 w), p + 3 := ucast (drop_bit 24 w))"

definition load32 :: "ck_heap \<Rightarrow> nat \<Rightarrow> u32 option" where
  "load32 s p = (if acc s p 4 then Some (get32 (h_mem s) p) else None)"

definition load8 :: "ck_heap \<Rightarrow> nat \<Rightarrow> u8 option" where
  "load8 s p = (if acc s p 1 then Some (h_mem s p) else None)"

definition store32 :: "ck_heap \<Rightarrow> nat \<Rightarrow> u32 \<Rightarrow> ck_heap option" where
  "store32 s p w = (if acc s p 4 then Some (s\<lparr>h_mem := put32 (h_mem s) p w\<rparr>) else None)"

definition store8 :: "ck_heap \<Rightarrow> nat \<Rightarrow> u8 \<Rightarrow> ck_heap option" where
  "store8 s p w = (if acc s p 1 then Some (s\<lparr>h_mem := (h_mem s)(p := w)\<rparr>) else None)"

definition c_memset :: "ck_heap \<Rightarrow> nat \<Rightarrow> u8 \<Rightarrow> nat \<Rightarrow> ck_heap option" where
  "c_memset s p v n =
     (if n = 0 \<or> acc s p n then Some (s\<lparr>h_mem := (\<lambda>a. if p \<le> a \<and> a < p + n then v else h_mem s a)\<rparr>) else None)"

text \<open>The source may be any memory the program can read.\<close>

definition c_memcpy :: "ck_heap \<Rightarrow> nat \<Rightarrow> u8 list \<Rightarrow> ck_heap option" where
  "c_memcpy s p bs =
     (if bs = [] \<or> acc s p (length bs)
      then Some (s\<lparr>h_mem := (\<lambda>a. if p \<le> a \<and> a < p + length bs then bs ! (a - p) else h_mem s a)\<rparr>) else None)"

type_synonym c_malloc = "ck_heap \<Rightarrow> nat \<Rightarrow> nat"
type_synonym c_realloc = "ck_heap \<Rightarrow> nat \<Rightarrow> nat \<Rightarrow> nat"

definition add_block :: "ck_heap \<Rightarrow> nat \<Rightarrow> nat \<Rightarrow> ck_heap" where
  "add_block s b n = s\<lparr>h_live := (b, n) # h_live s\<rparr>"

definition c_free :: "ck_heap \<Rightarrow> nat \<Rightarrow> ck_heap option" where
  "c_free s b =
     (if b \<in> fst ` set (h_live s) then Some (s\<lparr>h_live := filter (\<lambda>(c, k). c \<noteq> b) (h_live s)\<rparr>) else None)"

text \<open>A block that is moved takes its bytes along; a null pointer is reallocated as by \<^verbatim>\<open>malloc\<close>.\<close>

definition move_block :: "ck_heap \<Rightarrow> nat \<Rightarrow> nat \<Rightarrow> nat \<Rightarrow> ck_heap option" where
  "move_block s orig b n =
     (if orig = 0 then Some (add_block s b n)
      else case map_of (h_live s) orig of
        None \<Rightarrow> None
      | Some k \<Rightarrow> Some \<lparr>h_mem = (\<lambda>a. if b \<le> a \<and> a < b + min n k then h_mem s (orig + (a - b)) else h_mem s a),
                      h_live = (b, n) # filter (\<lambda>(c, k). c \<noteq> orig) (h_live s)\<rparr>)"

section \<open>Guards\<close>

definition ALLOC_MAGIC_C1 :: u32 where "ALLOC_MAGIC_C1 = 0xFF00FF00"
definition ALLOC_MAGIC_F :: u32 where "ALLOC_MAGIC_F = 0xFE00FE00"
definition ALLOC_MAGIC_C2 :: u8 where "ALLOC_MAGIC_C2 = 0xF0"
definition ALLOC_OFF_HEAD :: nat where "ALLOC_OFF_HEAD = 8"
definition ALLOC_OFF_TOTAL :: nat where "ALLOC_OFF_TOTAL = ALLOC_OFF_HEAD + 1"
definition ALLOC_BLK_INC :: u32 where "ALLOC_BLK_INC = 256"
definition CK_MAX_ALLOC :: nat where "CK_MAX_ALLOC = 0x40000000"

definition bad_size :: "u32 \<Rightarrow> string" where
  "bad_size n = ''Bad alloc request: '' @ show_nat (unat n) @ '' bytes''"

definition no_memory :: "u32 \<Rightarrow> string" where
  "no_memory n = ''Out of memory: can'' @ [CHR 0x27] @ ''t allocate '' @ show_nat (unat n) @ '' bytes''"

definition CHECK_PTR :: "ck_heap \<Rightarrow> nat \<Rightarrow> (string + unit) option" where
  "CHECK_PTR s p =
     (if p = 0 then Some (Inr ())
      else if p < ALLOC_OFF_HEAD then None
      else do {
        c1 \<leftarrow> load32 s (p - 8);
        if c1 \<noteq> ALLOC_MAGIC_C1
        then Some (Inl (if c1 = ALLOC_MAGIC_F then ''Use after free.'' else ''Corrupted head alloc canary.''))
        else do {
          n \<leftarrow> load32 s (p - 4);
          c2 \<leftarrow> load8 s (p + unat n);
          Some (if c2 \<noteq> ALLOC_MAGIC_C2 then Inl ''Corrupted tail alloc canary.'' else Inr ())
        }
      })"

definition set_guards :: "ck_heap \<Rightarrow> nat \<Rightarrow> u32 \<Rightarrow> ck_heap option" where
  "set_guards s ret sz = do {
     s \<leftarrow> store32 s (ret - 8) ALLOC_MAGIC_C1;
     s \<leftarrow> store32 s (ret - 4) sz;
     n \<leftarrow> load32 s (ret - 4);
     store8 s (ret + unat n) ALLOC_MAGIC_C2
   }"

section \<open>Operations\<close>

text \<open>The common part of the allocating operations, with \<open>extra\<close> bytes behind the guard.\<close>

definition alloc_guarded :: "c_malloc \<Rightarrow> nat \<Rightarrow> ck_heap \<Rightarrow> u32 \<Rightarrow> (string + nat \<times> ck_heap) option" where
  "alloc_guarded malloc extra s sz =
     (if CK_MAX_ALLOC < unat sz then Some (Inl (bad_size sz))
      else let n = unat sz + ALLOC_OFF_TOTAL + extra; b = malloc s n in
        if b = 0 then Some (Inl (no_memory sz))
        else do {
          s \<leftarrow> set_guards (add_block s b n) (b + ALLOC_OFF_HEAD) sz;
          Some (Inr (b + ALLOC_OFF_HEAD, s))
        })"

definition DFL_ck_alloc_nozero :: "c_malloc \<Rightarrow> ck_heap \<Rightarrow> u32 \<Rightarrow> (string + nat \<times> ck_heap) option" where
  "DFL_ck_alloc_nozero malloc s sz = (if sz = 0 then Some (Inr (0, s)) else alloc_guarded malloc 0 s sz)"

definition DFL_ck_alloc :: "c_malloc \<Rightarrow> ck_heap \<Rightarrow> u32 \<Rightarrow> (string + nat \<times> ck_heap) option" where
  "DFL_ck_alloc malloc s sz =
     (if sz = 0 then Some (Inr (0, s))
      else and_then (DFL_ck_alloc_nozero malloc s sz)
        (\<lambda>(mem, s). map_option (\<lambda>s. Inr (mem, s)) (c_memset s mem 0 (unat sz))))"

definition DFL_ck_free :: "ck_heap \<Rightarrow> nat \<Rightarrow> (string + ck_heap) option" where
  "DFL_ck_free s mem =
     (if mem = 0 then Some (Inr s)
      else and_then (CHECK_PTR s mem)
        (\<lambda>_. do { s \<leftarrow> store32 s (mem - 8) ALLOC_MAGIC_F; s \<leftarrow> c_free s (mem - ALLOC_OFF_HEAD); Some (Inr s) }))"

definition realloc_tail :: "c_realloc \<Rightarrow> ck_heap \<Rightarrow> nat \<Rightarrow> u32 \<Rightarrow> u32 \<Rightarrow> (string + nat \<times> ck_heap) option" where
  "realloc_tail realloc s orig old_size sz =
     (if CK_MAX_ALLOC < unat sz then Some (Inl (bad_size sz))
      else let n = unat sz + ALLOC_OFF_TOTAL; b = realloc s orig n in
        if b = 0 then Some (Inl (no_memory sz))
        else do {
          s \<leftarrow> move_block s orig b n;
          let ret = b + ALLOC_OFF_HEAD;
          s \<leftarrow> set_guards s ret sz;
          s \<leftarrow> (if old_size < sz then c_memset s (ret + unat old_size) 0 (unat sz - unat old_size) else Some s);
          Some (Inr (ret, s))
        })"

definition DFL_ck_realloc :: "c_realloc \<Rightarrow> ck_heap \<Rightarrow> nat \<Rightarrow> u32 \<Rightarrow> (string + nat \<times> ck_heap) option" where
  "DFL_ck_realloc realloc s orig sz =
     (if sz = 0 then and_then (DFL_ck_free s orig) (\<lambda>s. Some (Inr (0, s)))
      else if orig = 0 then realloc_tail realloc s 0 0 sz
      else and_then (CHECK_PTR s orig) (\<lambda>_. do {
        s \<leftarrow> store32 s (orig - 8) ALLOC_MAGIC_F;
        old_size \<leftarrow> load32 s (orig - 4);
        if CK_MAX_ALLOC < unat old_size then Some (Inl (bad_size old_size))
        else realloc_tail realloc s (orig - ALLOC_OFF_HEAD) old_size sz
      }))"

definition DFL_ck_realloc_block :: "c_realloc \<Rightarrow> ck_heap \<Rightarrow> nat \<Rightarrow> u32 \<Rightarrow> (string + nat \<times> ck_heap) option" where
  "DFL_ck_realloc_block realloc s orig sz =
     (if orig = 0 then DFL_ck_realloc realloc s orig sz
      else and_then (CHECK_PTR s orig) (\<lambda>_. do {
        n \<leftarrow> load32 s (orig - 4);
        if sz \<le> n then Some (Inr (orig, s)) else DFL_ck_realloc realloc s orig (sz + ALLOC_BLK_INC)
      }))"

text \<open>The copies read from any memory, as a function of the offset; a string is its bytes without the terminator.\<close>

definition DFL_ck_memdup :: "c_malloc \<Rightarrow> ck_heap \<Rightarrow> (nat \<Rightarrow> u8) option \<Rightarrow> u32 \<Rightarrow> (string + nat \<times> ck_heap) option" where
  "DFL_ck_memdup malloc s src sz =
     (case src of
        None \<Rightarrow> Some (Inr (0, s))
      | Some f \<Rightarrow>
        if sz = 0 then Some (Inr (0, s))
        else and_then (alloc_guarded malloc 0 s sz)
          (\<lambda>(ret, s). map_option (\<lambda>s. Inr (ret, s)) (c_memcpy s ret (map f [0..<unat sz]))))"

definition DFL_ck_strdup :: "c_malloc \<Rightarrow> ck_heap \<Rightarrow> u8 list option \<Rightarrow> (string + nat \<times> ck_heap) option" where
  "DFL_ck_strdup malloc s str =
     (case str of
        None \<Rightarrow> Some (Inr (0, s))
      | Some bs \<Rightarrow>
        let sz = of_nat (length bs + 1) in
        and_then (alloc_guarded malloc 0 s sz)
          (\<lambda>(ret, s). map_option (\<lambda>s. Inr (ret, s)) (c_memcpy s ret (take (unat sz) (bs @ [0])))))"

definition DFL_ck_memdup_str :: "c_malloc \<Rightarrow> ck_heap \<Rightarrow> (nat \<Rightarrow> u8) option \<Rightarrow> u32 \<Rightarrow> (string + nat \<times> ck_heap) option" where
  "DFL_ck_memdup_str malloc s src sz =
     (case src of
        None \<Rightarrow> Some (Inr (0, s))
      | Some f \<Rightarrow>
        if sz = 0 then Some (Inr (0, s))
        else and_then (alloc_guarded malloc 1 s sz)
          (\<lambda>(ret, s). do { s \<leftarrow> c_memcpy s ret (map f [0..<unat sz]); s \<leftarrow> store8 s (ret + unat sz) 0; Some (Inr (ret, s)) }))"


section \<open>Words in memory\<close>

lemma get32_put32: "get32 (put32 m p w) p = w"
proof (rule bit_word_eqI)
  fix n assume "n < LENGTH(32)"
  then consider "n < 8" | "8 \<le> n" "n < 16" | "16 \<le> n" "n < 24" | "24 \<le> n" "n < 32" by fastforce
  then show "bit (get32 (put32 m p w) p) n \<longleftrightarrow> bit w n" by cases (auto simp: get32_def put32_def bit_simps)
qed

lemma get32_cong: "(\<And>a. p \<le> a \<Longrightarrow> a < p + 4 \<Longrightarrow> m a = m' a) \<Longrightarrow> get32 m p = get32 m' p"
  by (simp add: get32_def)

lemma put32_other: "a < p \<or> p + 4 \<le> a \<Longrightarrow> put32 m p w a = m a"
  by (auto simp: put32_def)

section \<open>Blocks\<close>

fun apart :: "nat \<times> nat \<Rightarrow> nat \<times> nat \<Rightarrow> bool" where
  "apart (b, k) (c, l) \<longleftrightarrow> b + k \<le> c \<or> c + l \<le> b"

definition heap_ok :: "ck_heap \<Rightarrow> bool" where
  "heap_ok s \<longleftrightarrow> distinct (map fst (h_live s)) \<and> (\<forall>B\<in>set (h_live s). \<forall>C\<in>set (h_live s). B \<noteq> C \<longrightarrow> apart B C) \<and> (\<forall>B\<in>set (h_live s). 0 < fst B)"

text \<open>What the C standard says of \<^verbatim>\<open>malloc\<close> and \<^verbatim>\<open>realloc\<close>: they fail or return a block apart from all others.\<close>

definition fresh :: "(nat \<times> nat) list \<Rightarrow> nat \<Rightarrow> nat \<Rightarrow> bool" where
  "fresh live b n \<longleftrightarrow> 0 < b \<and> list_all (\<lambda>B. apart B (b, n) \<and> fst B \<noteq> b) live"

definition others :: "nat \<Rightarrow> (nat \<times> nat) list \<Rightarrow> (nat \<times> nat) list" where
  "others b live = filter (\<lambda>(c, k). c \<noteq> b) live"

definition allocator_ok :: "c_malloc \<Rightarrow> c_realloc \<Rightarrow> bool" where
  "allocator_ok malloc realloc \<longleftrightarrow> (\<forall>s n. malloc s n = 0 \<or> fresh (h_live s) (malloc s n) n) \<and>
     (\<forall>s b n. realloc s b n = 0 \<or> fresh (others b (h_live s)) (realloc s b n) n)"

definition guarded :: "ck_heap \<Rightarrow> nat \<Rightarrow> u32 \<Rightarrow> bool" where
  "guarded s p sz \<longleftrightarrow> 8 < p \<and> (p - 8, unat sz + 9) \<in> set (h_live s) \<and> get32 (h_mem s) (p - 8) = ALLOC_MAGIC_C1 \<and>
     get32 (h_mem s) (p - 4) = sz \<and> h_mem s (p + unat sz) = ALLOC_MAGIC_C2 \<and> unat sz \<le> CK_MAX_ALLOC"

lemma acc_in: "(b, k) \<in> set (h_live s) \<Longrightarrow> b \<le> p \<Longrightarrow> p + n \<le> b + k \<Longrightarrow> acc s p n"
  by (auto simp: acc_def list_ex_iff)

lemma acc_frame [simp]: "acc (s\<lparr>h_mem := m\<rparr>) p n = acc s p n"
  by (simp add: acc_def)

lemma guarded_cong:
  assumes "guarded s p sz" "(p - 8, unat sz + 9) \<in> set (h_live t)" "\<And>a. p - 8 \<le> a \<Longrightarrow> a < p + unat sz + 1 \<Longrightarrow> h_mem t a = h_mem s a"
  shows "guarded t p sz"
proof -
  have p: "8 < p" using assms(1) by (simp add: guarded_def)
  have "get32 (h_mem t) (p - 8) = get32 (h_mem s) (p - 8)" "get32 (h_mem t) (p - 4) = get32 (h_mem s) (p - 4)"
    using p by (auto intro!: get32_cong assms(3))
  moreover have "h_mem t (p + unat sz) = h_mem s (p + unat sz)" using assms(3) by simp
  ultimately show ?thesis using assms(1,2) by (simp add: guarded_def)
qed

lemma guarded_apart:
  assumes "heap_ok s" "guarded s p sz" "(b, n) \<in> set (h_live s)" "b \<noteq> p - 8"
  shows "b + n \<le> p - 8 \<or> p + unat sz + 1 \<le> b"
proof -
  have "(p - 8, unat sz + 9) \<in> set (h_live s)" "8 < p" using assms(2) by (simp_all add: guarded_def)
  moreover have "(p - 8, unat sz + 9) \<noteq> (b, n)" using assms(4) by simp
  ultimately have "apart (p - 8, unat sz + 9) (b, n)" using assms(1,3) by (simp add: heap_ok_def del: apart.simps)
  then show ?thesis using \<open>8 < p\<close> by auto
qed

lemma set_guards_ok:
  assumes "(b, n) \<in> set (h_live s)" "unat sz + 9 \<le> n"
  shows "\<exists>t. set_guards s (b + 8) sz = Some t \<and> h_live t = h_live s \<and> get32 (h_mem t) b = ALLOC_MAGIC_C1 \<and>
    get32 (h_mem t) (b + 4) = sz \<and> h_mem t (b + 8 + unat sz) = ALLOC_MAGIC_C2 \<and>
    (\<forall>a. a < b \<or> b + 8 \<le> a \<and> a \<noteq> b + 8 + unat sz \<longrightarrow> h_mem t a = h_mem s a)"
proof -
  define m1 where "m1 = put32 (put32 (h_mem s) b ALLOC_MAGIC_C1) (b + 4) sz"
  let ?t = "s\<lparr>h_mem := m1(b + 8 + unat sz := ALLOC_MAGIC_C2)\<rparr>"
  have a: "acc s b 4" "acc s (b + 4) 4" "acc s (b + 8 + unat sz) 1" using assms by (auto intro: acc_in)
  have g: "get32 m1 (b + 4) = sz" by (simp add: m1_def get32_put32)
  have e: "b + 8 - 8 = b" "b + 8 - 4 = b + 4" by simp_all
  have "set_guards s (b + 8) sz = Some ?t" unfolding set_guards_def e using a g by (simp add: store32_def load32_def store8_def m1_def)
  moreover have "get32 (h_mem ?t) b = get32 (put32 (h_mem s) b ALLOC_MAGIC_C1) b"
    by (rule get32_cong) (auto simp: m1_def put32_other)
  moreover have "get32 (h_mem ?t) (b + 4) = get32 m1 (b + 4)" by (rule get32_cong) auto
  moreover have "h_mem ?t a = h_mem s a" if "a < b \<or> b + 8 \<le> a \<and> a \<noteq> b + 8 + unat sz" for a
    using that by (auto simp: m1_def put32_other)
  ultimately show ?thesis using g by (intro exI [of _ ?t]) (simp add: get32_put32)
qed

lemma heap_ok_add: "heap_ok s \<Longrightarrow> fresh (h_live s) b n \<Longrightarrow> heap_ok (add_block s b n)"
  by (force simp: heap_ok_def fresh_def add_block_def list_all_iff)

lemma heap_ok_cong: "h_live s = h_live t \<Longrightarrow> heap_ok s = heap_ok t"
  by (simp add: heap_ok_def)

lemma heap_ok_others: "heap_ok s \<Longrightarrow> heap_ok (s\<lparr>h_live := others b (h_live s)\<rparr>)"
  by (auto simp: heap_ok_def others_def distinct_map_filter)

section \<open>What the operations do\<close>

text \<open>All guarded blocks but the one at \<open>b\<close> stay guarded and keep their contents.\<close>

definition keeps_but :: "nat \<Rightarrow> ck_heap \<Rightarrow> ck_heap \<Rightarrow> bool" where
  "keeps_but b s t \<longleftrightarrow> (\<forall>q k. guarded s q k \<longrightarrow> q - 8 \<noteq> b \<longrightarrow> guarded t q k \<and> (\<forall>i<unat k. h_mem t (q + i) = h_mem s (q + i)))"

lemma keeps_butI:
  assumes "\<And>q k. guarded s q k \<Longrightarrow> q - 8 \<noteq> b \<Longrightarrow> (q - 8, unat k + 9) \<in> set (h_live t) \<and> (\<forall>a. q - 8 \<le> a \<longrightarrow> a < q + unat k + 1 \<longrightarrow> h_mem t a = h_mem s a)"
  shows "keeps_but b s t"
  unfolding keeps_but_def
proof (intro allI impI)
  fix q k assume g: "guarded s q k" and b: "q - 8 \<noteq> b"
  then have "h_mem t (q + i) = h_mem s (q + i)" if "i < unat k" for i using assms [OF g b] that by simp
  then show "guarded t q k \<and> (\<forall>i<unat k. h_mem t (q + i) = h_mem s (q + i))" using guarded_cong [OF g, of t] assms [OF g b] by simp
qed

lemma keeps_but_trans: "keeps_but b s t \<Longrightarrow> keeps_but b t u \<Longrightarrow> keeps_but b s u"
  unfolding keeps_but_def by metis

lemma keeps_but_inside:
  assumes "heap_ok s" "(b, n) \<in> set (h_live s)" "h_live t = h_live s" "\<And>a. a < b \<or> b + n \<le> a \<Longrightarrow> h_mem t a = h_mem s a"
  shows "keeps_but b s t"
proof (rule keeps_butI)
  fix q k assume g: "guarded s q k" and b: "q - 8 \<noteq> b"
  then have "b + n \<le> q - 8 \<or> q + unat k + 1 \<le> b" using guarded_apart [OF assms(1) g assms(2)] by simp
  then show "(q - 8, unat k + 9) \<in> set (h_live t) \<and> (\<forall>a. q - 8 \<le> a \<longrightarrow> a < q + unat k + 1 \<longrightarrow> h_mem t a = h_mem s a)"
    using g assms(3,4) by (auto simp: guarded_def)
qed

lemma fresh_guarded:
  assumes "fresh live b n" "guarded s q k" "(q - 8, unat k + 9) \<in> set live"
  shows "b + n \<le> q - 8 \<or> q + unat k + 1 \<le> b"
proof -
  have "apart (q - 8, unat k + 9) (b, n)" using assms(1,3) by (auto simp: fresh_def list_all_iff)
  then show ?thesis using assms(2) by (auto simp: guarded_def)
qed

lemma others_in: "x \<in> set (others b live) \<longleftrightarrow> x \<in> set live \<and> fst x \<noteq> b"
  by (auto simp: others_def)

lemma keeps_but_moved:
  assumes "fresh (others c (h_live s)) b n" "h_live t = (b, n) # others c (h_live s)" "\<And>a. a < b \<or> b + n \<le> a \<Longrightarrow> h_mem t a = h_mem s a"
  shows "keeps_but c s t"
proof (rule keeps_butI)
  fix q k assume g: "guarded s q k" and c: "q - 8 \<noteq> c"
  then have i: "(q - 8, unat k + 9) \<in> set (others c (h_live s))" by (simp add: others_in guarded_def)
  then show "(q - 8, unat k + 9) \<in> set (h_live t) \<and> (\<forall>a. q - 8 \<le> a \<longrightarrow> a < q + unat k + 1 \<longrightarrow> h_mem t a = h_mem s a)"
    using assms(2,3) fresh_guarded [OF assms(1) g i] by auto
qed

lemma others_0: "heap_ok s \<Longrightarrow> others 0 (h_live s) = h_live s"
  by (force simp: heap_ok_def others_def filter_id_conv)

lemma alloc_guarded_ok:
  assumes "heap_ok s" "fresh (h_live s) (malloc s (unat sz + 9 + extra)) (unat sz + 9 + extra)" "unat sz \<le> CK_MAX_ALLOC"
  shows "\<exists>b t. alloc_guarded malloc extra s sz = Some (Inr (b + 8, t)) \<and> 0 < b \<and> heap_ok t \<and> keeps_but 0 s t \<and>
    h_live t = (b, unat sz + 9 + extra) # h_live s \<and> get32 (h_mem t) b = ALLOC_MAGIC_C1 \<and> get32 (h_mem t) (b + 4) = sz \<and>
    h_mem t (b + 8 + unat sz) = ALLOC_MAGIC_C2"
proof -
  let ?n = "unat sz + 9 + extra"
  define b where "b = malloc s ?n"
  have f: "fresh (h_live s) b ?n" using assms(2) by (simp add: b_def)
  then have b0: "0 < b" by (simp add: fresh_def)
  let ?s = "add_block s b ?n"
  have l: "h_live ?s = (b, ?n) # h_live s" "h_mem ?s = h_mem s" by (simp_all add: add_block_def)
  obtain t where t: "set_guards ?s (b + 8) sz = Some t" "h_live t = h_live ?s" "get32 (h_mem t) b = ALLOC_MAGIC_C1"
      "get32 (h_mem t) (b + 4) = sz" "h_mem t (b + 8 + unat sz) = ALLOC_MAGIC_C2"
      "\<And>a. a < b \<or> b + 8 \<le> a \<and> a \<noteq> b + 8 + unat sz \<Longrightarrow> h_mem t a = h_mem s a"
    using set_guards_ok [of b ?n ?s sz] l by auto
  have "heap_ok t" using heap_ok_add [OF assms(1) f] heap_ok_cong [OF t(2)] by simp
  moreover have "keeps_but 0 s t"
    by (rule keeps_but_moved [of 0 s b ?n]) (use f t l others_0 [OF assms(1)] in auto)
  moreover have "alloc_guarded malloc extra s sz = Some (Inr (b + 8, t))"
    using assms(3) b0 t(1) by (simp add: alloc_guarded_def ALLOC_OFF_TOTAL_def ALLOC_OFF_HEAD_def b_def Let_def)
  ultimately show ?thesis using t l b0 by auto
qed

lemma check_guarded:
  assumes "guarded s p sz"
  shows "CHECK_PTR s p = Some (Inr ())" "load32 s (p - 4) = Some sz" "acc s (p - 8) 4" "\<And>i n. i + n \<le> unat sz \<Longrightarrow> acc s (p + i) n"
proof -
  have g: "8 < p" "(p - 8, unat sz + 9) \<in> set (h_live s)" using assms by (simp_all add: guarded_def)
  have a: "acc s (p - 8) 4" "acc s (p - 4) 4" "acc s (p + unat sz) 1" using g by (auto intro: acc_in [OF g(2)])
  then show "acc s (p - 8) 4" "load32 s (p - 4) = Some sz" using assms by (simp_all add: load32_def guarded_def)
  show "CHECK_PTR s p = Some (Inr ())" using assms a g(1) by (simp add: CHECK_PTR_def load32_def load8_def guarded_def ALLOC_OFF_HEAD_def)
  show "acc s (p + i) n" if "i + n \<le> unat sz" for i n using g that by (auto intro: acc_in [OF g(2)])
qed

lemma in_live_unique: "heap_ok s \<Longrightarrow> (b, n) \<in> set (h_live s) \<Longrightarrow> map_of (h_live s) b = Some n"
  by (simp add: heap_ok_def)

lemma mark_freed:
  assumes "heap_ok s" "guarded s p sz"
  obtains s1 where "store32 s (p - 8) ALLOC_MAGIC_F = Some s1" "h_live s1 = h_live s" "heap_ok s1" "keeps_but (p - 8) s s1"
    "\<And>a. p - 4 \<le> a \<Longrightarrow> h_mem s1 a = h_mem s a"
proof -
  let ?s1 = "s\<lparr>h_mem := put32 (h_mem s) (p - 8) ALLOC_MAGIC_F\<rparr>"
  have g: "8 < p" "(p - 8, unat sz + 9) \<in> set (h_live s)" using assms(2) by (simp_all add: guarded_def)
  have "keeps_but (p - 8) s ?s1" by (rule keeps_but_inside [OF assms(1) g(2)]) (auto simp: put32_other)
  moreover have "h_mem ?s1 a = h_mem s a" if "p - 4 \<le> a" for a using that g(1) by (simp add: put32_other)
  moreover have "heap_ok ?s1" using assms(1) by (simp add: heap_ok_def)
  ultimately show ?thesis using that [of ?s1] check_guarded(3) [OF assms(2)] by (simp add: store32_def)
qed

lemma free_ok:
  assumes "heap_ok s" "guarded s p sz"
  shows "\<exists>t. DFL_ck_free s p = Some (Inr t) \<and> heap_ok t \<and> keeps_but (p - 8) s t"
proof -
  have g: "8 < p" "(p - 8, unat sz + 9) \<in> set (h_live s)" using assms(2) by (simp_all add: guarded_def)
  obtain s1 where s1: "store32 s (p - 8) ALLOC_MAGIC_F = Some s1" "h_live s1 = h_live s" "heap_ok s1" "keeps_but (p - 8) s s1"
    using mark_freed [OF assms] by blast
  let ?t = "s1\<lparr>h_live := others (p - 8) (h_live s1)\<rparr>"
  have "p - 8 \<in> fst ` set (h_live s1)" using g(2) s1(2) by force
  then have "DFL_ck_free s p = Some (Inr ?t)"
    using g(1) s1(1) check_guarded(1) [OF assms(2)] by (simp add: DFL_ck_free_def c_free_def others_def ALLOC_OFF_HEAD_def)
  moreover have "keeps_but (p - 8) s1 ?t" by (rule keeps_butI) (simp add: guarded_def others_in)
  ultimately show ?thesis using heap_ok_others [OF s1(3)] keeps_but_trans [OF s1(4)] by blast
qed

text \<open>The part of a reallocation behind the checks.\<close>

lemma realloc_tail_ok:
  assumes "heap_ok s" "fresh (others c (h_live s)) (realloc s c (unat sz + 9)) (unat sz + 9)" "unat sz \<le> CK_MAX_ALLOC"
    "c = 0 \<and> old = 0 \<or> 0 < c \<and> (c, unat old + 9) \<in> set (h_live s)"
  shows "\<exists>b t. realloc_tail realloc s c old sz = Some (Inr (b + 8, t)) \<and> heap_ok t \<and> guarded t (b + 8) sz \<and> keeps_but c s t \<and> b \<notin> fst ` set (others c (h_live s)) \<and>
    (\<forall>i<unat sz. h_mem t (b + 8 + i) = (if i < unat old then h_mem s (c + 8 + i) else 0))"
proof -
  let ?n = "unat sz + 9"
  define b where "b = realloc s c ?n"
  have f: "fresh (others c (h_live s)) b ?n" using assms(2) by (simp add: b_def)
  then have b0: "0 < b" by (simp add: fresh_def)
  obtain s1 where s1: "move_block s c b ?n = Some s1" "h_live s1 = (b, ?n) # others c (h_live s)"
      "\<And>a. a < b \<or> b + ?n \<le> a \<Longrightarrow> h_mem s1 a = h_mem s a" "\<And>i. i < unat old \<Longrightarrow> i < unat sz \<Longrightarrow> h_mem s1 (b + 8 + i) = h_mem s (c + 8 + i)"
  proof (cases "c = 0")
    case True
    then show ?thesis using that [of "add_block s b ?n"] assms(4) others_0 [OF assms(1)] by (simp add: move_block_def add_block_def)
  next
    case False
    then have "map_of (h_live s) c = Some (unat old + 9)" using in_live_unique [OF assms(1)] assms(4) by simp
    then have m: "move_block s c b ?n = Some \<lparr>h_mem = (\<lambda>a. if b \<le> a \<and> a < b + min ?n (unat old + 9) then h_mem s (c + (a - b)) else h_mem s a),
        h_live = (b, ?n) # others c (h_live s)\<rparr>" using False by (simp add: move_block_def others_def)
    show ?thesis by (rule that [OF m]) (auto simp: add.assoc)
  qed
  have h1: "heap_ok s1"
  proof -
    have "heap_ok (add_block (s\<lparr>h_live := others c (h_live s)\<rparr>) b ?n)" using heap_ok_add [OF heap_ok_others [OF assms(1)]] f by simp
    then show ?thesis using heap_ok_cong [of s1 "add_block (s\<lparr>h_live := others c (h_live s)\<rparr>) b ?n"] s1(2) by (simp add: add_block_def)
  qed
  obtain t where t: "set_guards s1 (b + 8) sz = Some t" "h_live t = h_live s1" "get32 (h_mem t) b = ALLOC_MAGIC_C1"
      "get32 (h_mem t) (b + 4) = sz" "h_mem t (b + 8 + unat sz) = ALLOC_MAGIC_C2"
      "\<And>a. a < b \<or> b + 8 \<le> a \<and> a \<noteq> b + 8 + unat sz \<Longrightarrow> h_mem t a = h_mem s1 a"
    using set_guards_ok [of b ?n s1 sz] s1(2) by auto
  have gt: "guarded t (b + 8) sz" using t b0 s1(2) assms(3) by (simp add: guarded_def add.commute)
  define u where "u = (if old < sz then t\<lparr>h_mem := (\<lambda>a. if b + 8 + unat old \<le> a \<and> a < b + 8 + unat sz then 0 else h_mem t a)\<rparr> else t)"
  have mem: "h_mem u a = h_mem t a" if "a < b + 8 \<or> b + 8 + unat sz \<le> a" for a using that by (auto simp: u_def)
  have lu: "h_live u = h_live t" by (simp add: u_def)
  have "get32 (h_mem u) b = get32 (h_mem t) b" "get32 (h_mem u) (b + 4) = get32 (h_mem t) (b + 4)" by (auto intro!: get32_cong mem)
  then have gu: "guarded u (b + 8) sz" using gt mem [of "b + 8 + unat sz"] lu by (simp add: guarded_def add.commute)
  have "acc t (b + 8 + unat old) (unat sz - unat old)" if "old < sz"
    using check_guarded(4) [OF gt, of "unat old" "unat sz - unat old"] that by (simp add: word_less_nat_alt)
  then have "(if old < sz then c_memset t (b + 8 + unat old) 0 (unat sz - unat old) else Some t) = Some u"
    by (auto simp: c_memset_def u_def word_less_nat_alt add.assoc)
  then have "realloc_tail realloc s c old sz = Some (Inr (b + 8, u))"
    using assms(3) b0 s1(1) t(1) by (simp add: realloc_tail_def ALLOC_OFF_TOTAL_def ALLOC_OFF_HEAD_def b_def [symmetric] Let_def del: if_split)
  moreover have "heap_ok u" using h1 t(2) lu by (simp add: heap_ok_def)
  moreover have "keeps_but c s u"
    by (rule keeps_but_moved [OF f]) (use t s1 mem lu in auto)
  moreover have "h_mem u (b + 8 + i) = (if i < unat old then h_mem s (c + 8 + i) else 0)" if "i < unat sz" for i
    using that t(6) [of "b + 8 + i"] s1(4) [of i] by (auto simp: u_def word_less_nat_alt)
  moreover have "b \<notin> fst ` set (others c (h_live s))" using f by (auto simp: fresh_def list_all_iff)
  ultimately show ?thesis using gu by blast
qed

lemma realloc_checked:
  assumes "heap_ok s" "guarded s p old" "sz \<noteq> 0"
  obtains s1 where "DFL_ck_realloc realloc s p sz = realloc_tail realloc s1 (p - 8) old sz" "h_live s1 = h_live s" "heap_ok s1"
    "keeps_but (p - 8) s s1" "\<And>a. p - 4 \<le> a \<Longrightarrow> h_mem s1 a = h_mem s a"
proof -
  have g: "8 < p" "unat old \<le> CK_MAX_ALLOC" using assms(2) by (simp_all add: guarded_def)
  obtain s1 where s1: "store32 s (p - 8) ALLOC_MAGIC_F = Some s1" "h_live s1 = h_live s" "heap_ok s1" "keeps_but (p - 8) s s1"
      "\<And>a. p - 4 \<le> a \<Longrightarrow> h_mem s1 a = h_mem s a"
    using mark_freed [OF assms(1,2)] by blast
  have "get32 (h_mem s1) (p - 4) = get32 (h_mem s) (p - 4)" using s1(5) by (intro get32_cong) simp
  then have "load32 s1 (p - 4) = Some old" using check_guarded(2) [OF assms(2)] s1(2) by (auto simp: load32_def acc_def split: if_splits)
  then have "DFL_ck_realloc realloc s p sz = realloc_tail realloc s1 (p - 8) old sz"
    using check_guarded(1) [OF assms(2)] s1(1) g assms(3) by (simp add: DFL_ck_realloc_def ALLOC_OFF_HEAD_def)
  then show ?thesis using that s1(2-5) by blast
qed

lemma alloc_ok:
  assumes "heap_ok s" "allocator_ok malloc realloc" "unat sz \<le> CK_MAX_ALLOC"
  shows "alloc_guarded malloc 0 s sz = Some (Inl (no_memory sz)) \<or>
    (\<exists>p t. alloc_guarded malloc 0 s sz = Some (Inr (p, t)) \<and> heap_ok t \<and> guarded t p sz \<and> keeps_but 0 s t \<and> (p - 8) \<notin> fst ` set (h_live s))"
proof (cases "malloc s (unat sz + 9) = 0")
  case True
  then show ?thesis using assms(3) by (simp add: alloc_guarded_def ALLOC_OFF_TOTAL_def ALLOC_OFF_HEAD_def)
next
  case False
  then have f: "fresh (h_live s) (malloc s (unat sz + 9)) (unat sz + 9)" using assms(2) unfolding allocator_ok_def by metis
  obtain b t where "alloc_guarded malloc 0 s sz = Some (Inr (b + 8, t))" "0 < b" "heap_ok t" "keeps_but 0 s t"
      "h_live t = (b, unat sz + 9) # h_live s" "get32 (h_mem t) b = ALLOC_MAGIC_C1" "get32 (h_mem t) (b + 4) = sz" "h_mem t (b + 8 + unat sz) = ALLOC_MAGIC_C2"
    using alloc_guarded_ok [OF assms(1) _ assms(3), of malloc 0] f by auto
  then show ?thesis using assms(3) by (auto simp: guarded_def heap_ok_def add.commute)
qed

text \<open>Changing the contents of a guarded block keeps all guards.\<close>

lemma fill_guarded:
  assumes "heap_ok s" "guarded s p sz" "\<And>a. a < p \<or> p + unat sz \<le> a \<Longrightarrow> m a = h_mem s a"
  shows "heap_ok (s\<lparr>h_mem := m\<rparr>) \<and> guarded (s\<lparr>h_mem := m\<rparr>) p sz \<and> keeps_but (p - 8) s (s\<lparr>h_mem := m\<rparr>)"
proof -
  have g: "8 < p" "(p - 8, unat sz + 9) \<in> set (h_live s)" using assms(2) by (simp_all add: guarded_def)
  have "get32 m (p - 8) = get32 (h_mem s) (p - 8)" "get32 m (p - 4) = get32 (h_mem s) (p - 4)"
    using g(1) by (auto intro!: get32_cong assms(3))
  moreover have "m (p + unat sz) = h_mem s (p + unat sz)" using assms(3) by simp
  moreover have "keeps_but (p - 8) s (s\<lparr>h_mem := m\<rparr>)" using g by (intro keeps_but_inside [OF assms(1) g(2)]) (auto intro!: assms(3))
  ultimately show ?thesis using assms(1,2) by (simp add: guarded_def heap_ok_def)
qed

lemma contents_ok:
  assumes "heap_ok s" "guarded s p sz" "length bs \<le> unat sz"
  shows "\<exists>t. c_memcpy s p bs = Some t \<and> heap_ok t \<and> guarded t p sz \<and> keeps_but (p - 8) s t \<and> (\<forall>i<length bs. h_mem t (p + i) = bs ! i)"
proof -
  let ?m = "\<lambda>a. if p \<le> a \<and> a < p + length bs then bs ! (a - p) else h_mem s a"
  have "heap_ok (s\<lparr>h_mem := ?m\<rparr>) \<and> guarded (s\<lparr>h_mem := ?m\<rparr>) p sz \<and> keeps_but (p - 8) s (s\<lparr>h_mem := ?m\<rparr>)"
    by (rule fill_guarded [OF assms(1,2)]) (use assms(3) in auto)
  then show ?thesis using check_guarded(4) [OF assms(2), of 0 "length bs"] assms(3) by (simp add: c_memcpy_def)
qed

lemma zeroed_ok:
  assumes "heap_ok s" "guarded s p sz"
  shows "\<exists>t. c_memset s p 0 (unat sz) = Some t \<and> heap_ok t \<and> guarded t p sz \<and> keeps_but (p - 8) s t \<and> (\<forall>i<unat sz. h_mem t (p + i) = 0)"
proof -
  let ?m = "\<lambda>a. if p \<le> a \<and> a < p + unat sz then 0 else h_mem s a"
  have "heap_ok (s\<lparr>h_mem := ?m\<rparr>) \<and> guarded (s\<lparr>h_mem := ?m\<rparr>) p sz \<and> keeps_but (p - 8) s (s\<lparr>h_mem := ?m\<rparr>)"
    by (rule fill_guarded [OF assms]) auto
  then show ?thesis using check_guarded(4) [OF assms(2), of 0 "unat sz"] by (simp add: c_memset_def)
qed

text \<open>What every operation that hands out a block promises: an abort, nothing, or a block of its own.\<close>

definition hands_out :: "ck_heap \<Rightarrow> nat \<Rightarrow> u32 \<Rightarrow> (nat \<Rightarrow> u8) \<Rightarrow> (string + nat \<times> ck_heap) option \<Rightarrow> bool" where
  "hands_out s p sz c r \<longleftrightarrow> r = Some (Inl (bad_size sz)) \<or> r = Some (Inl (no_memory sz)) \<or>
     (\<exists>t. r = Some (Inr (0, t)) \<and> heap_ok t \<and> keeps_but (p - 8) s t) \<or>
     (\<exists>q t. r = Some (Inr (q, t)) \<and> heap_ok t \<and> guarded t q sz \<and> keeps_but (p - 8) s t \<and> q - 8 \<notin> fst ` set (others (p - 8) (h_live s)) \<and>
        (\<forall>i<unat sz. h_mem t (q + i) = c i))"

lemma keeps_but_refl: "keeps_but b s s"
  by (simp add: keeps_but_def)

lemma keeps_but_new:
  assumes "keeps_but 0 s t" "q - 8 \<notin> fst ` set (h_live s)" "keeps_but (q - 8) t u"
  shows "keeps_but 0 s u"
  unfolding keeps_but_def
proof (intro allI impI)
  fix r k assume r: "guarded s r k" "r - 8 \<noteq> 0"
  then have "r - 8 \<noteq> q - 8" using assms(2) by (auto simp: guarded_def rev_image_eqI)
  then show "guarded u r k \<and> (\<forall>i<unat k. h_mem u (r + i) = h_mem s (r + i))" using r assms(1,3) unfolding keeps_but_def by metis
qed

text \<open>A block is allocated and then filled.\<close>

lemma filled_ok:
  assumes "heap_ok s" "allocator_ok malloc realloc"
    and f: "\<And>p t. heap_ok t \<Longrightarrow> guarded t p sz \<Longrightarrow> \<exists>u. f (p, t) = Some (Inr (p, u)) \<and> heap_ok u \<and> guarded u p sz \<and> keeps_but (p - 8) t u \<and> (\<forall>i<unat sz. h_mem u (p + i) = c i)"
  shows "hands_out s 0 sz c (and_then (alloc_guarded malloc 0 s sz) f)"
proof (cases "CK_MAX_ALLOC < unat sz")
  case True
  then show ?thesis by (simp add: hands_out_def alloc_guarded_def)
next
  case False
  then consider "alloc_guarded malloc 0 s sz = Some (Inl (no_memory sz))"
    | p t where "alloc_guarded malloc 0 s sz = Some (Inr (p, t))" "heap_ok t" "guarded t p sz" "keeps_but 0 s t" "p - 8 \<notin> fst ` set (h_live s)"
    using alloc_ok [OF assms(1,2), of sz] by (meson not_less)
  then show ?thesis
  proof cases
    case 1
    then show ?thesis by (simp add: hands_out_def)
  next
    case (2 p t)
    then obtain u where u: "f (p, t) = Some (Inr (p, u))" "heap_ok u" "guarded u p sz" "keeps_but (p - 8) t u" "\<forall>i<unat sz. h_mem u (p + i) = c i"
      using f by blast
    then have "keeps_but 0 s u" using keeps_but_new 2(4,5) by blast
    then show ?thesis using 2(1,5) u others_0 [OF assms(1)] by (simp add: hands_out_def)
  qed
qed

lemma DFL_ck_alloc_hands_out:
  assumes "heap_ok s" "allocator_ok malloc realloc"
  shows "hands_out s 0 sz (\<lambda>i. 0) (DFL_ck_alloc malloc s sz)"
proof (cases "sz = 0")
  case True
  then show ?thesis using assms(1) by (simp add: hands_out_def DFL_ck_alloc_def keeps_but_refl)
next
  case False
  have "hands_out s 0 sz (\<lambda>i. 0) (and_then (alloc_guarded malloc 0 s sz) (\<lambda>(mem, s). map_option (\<lambda>s. Inr (mem, s)) (c_memset s mem 0 (unat sz))))"
    by (rule filled_ok [OF assms]) (auto dest: zeroed_ok)
  then show ?thesis using False by (simp add: DFL_ck_alloc_def DFL_ck_alloc_nozero_def)
qed

lemma copied_ok:
  assumes "heap_ok s" "allocator_ok malloc realloc" "length cs = unat sz" "\<And>i. i < unat sz \<Longrightarrow> cs ! i = c i"
  shows "hands_out s 0 sz c (and_then (alloc_guarded malloc 0 s sz) (\<lambda>(ret, s). map_option (\<lambda>s. Inr (ret, s)) (c_memcpy s ret cs)))"
proof (rule filled_ok [OF assms(1,2)])
  fix p t assume "heap_ok t" "guarded t p sz"
  then obtain u where "c_memcpy t p cs = Some u" "heap_ok u" "guarded u p sz" "keeps_but (p - 8) t u" "\<forall>i<unat sz. h_mem u (p + i) = cs ! i"
    using contents_ok [of t p sz cs] assms(3) by auto
  then show "\<exists>u. (case (p, t) of (ret, s) \<Rightarrow> map_option (\<lambda>s. Inr (ret, s)) (c_memcpy s ret cs)) = Some (Inr (p, u)) \<and> heap_ok u \<and>
      guarded u p sz \<and> keeps_but (p - 8) t u \<and> (\<forall>i<unat sz. h_mem u (p + i) = c i)" using assms(4) by auto
qed

lemma DFL_ck_memdup_hands_out:
  assumes "heap_ok s" "allocator_ok malloc realloc"
  shows "hands_out s 0 sz f (DFL_ck_memdup malloc s (Some f) sz)"
proof (cases "sz = 0")
  case True
  then show ?thesis using assms(1) by (simp add: hands_out_def DFL_ck_memdup_def keeps_but_refl)
next
  case False
  then show ?thesis using copied_ok [OF assms, of "map f [0..<unat sz]" sz f] by (simp add: DFL_ck_memdup_def)
qed

text \<open>The length of a string is cut to 32 bits.\<close>

lemma DFL_ck_strdup_hands_out:
  assumes "heap_ok s" "allocator_ok malloc realloc" "sz = of_nat (length bs + 1)"
  shows "hands_out s 0 sz (\<lambda>i. (bs @ [0]) ! i) (DFL_ck_strdup malloc s (Some bs))"
proof -
  have "unat sz \<le> length bs + 1" unfolding assms(3) unat_of_nat by (rule mod_less_eq_dividend)
  then have "length (take (unat sz) (bs @ [0])) = unat sz" by (simp add: min_absorb2)
  then have "hands_out s 0 sz (\<lambda>i. (bs @ [0]) ! i) (and_then (alloc_guarded malloc 0 s sz)
      (\<lambda>(ret, s). map_option (\<lambda>s. Inr (ret, s)) (c_memcpy s ret (take (unat sz) (bs @ [0])))))"
    by (rule copied_ok [OF assms(1,2)]) (rule nth_take)
  then show ?thesis unfolding DFL_ck_strdup_def option.case Let_def assms(3) .
qed

lemma DFL_ck_alloc_nozero_hands_out:
  assumes "heap_ok s" "allocator_ok malloc realloc"
  shows "\<exists>c. hands_out s 0 sz c (DFL_ck_alloc_nozero malloc s sz)"
proof (cases "sz = 0 \<or> CK_MAX_ALLOC < unat sz")
  case True
  then show ?thesis using assms(1) by (auto simp: hands_out_def DFL_ck_alloc_nozero_def alloc_guarded_def keeps_but_refl)
next
  case False
  then have "unat sz \<le> CK_MAX_ALLOC" "DFL_ck_alloc_nozero malloc s sz = alloc_guarded malloc 0 s sz" by (simp_all add: DFL_ck_alloc_nozero_def)
  then show ?thesis using alloc_ok [OF assms, of sz] others_0 [OF assms(1)] by (fastforce simp: hands_out_def)
qed

lemma realloc_tail_hands_out:
  assumes "heap_ok s" "allocator_ok malloc realloc" "p = 0 \<and> old = 0 \<or> 8 < p \<and> (p - 8, unat old + 9) \<in> set (h_live s)"
  shows "hands_out s p sz (\<lambda>i. if i < unat old then h_mem s (p + i) else 0) (realloc_tail realloc s (p - 8) old sz)"
proof (cases "CK_MAX_ALLOC < unat sz \<or> realloc s (p - 8) (unat sz + 9) = 0")
  case True
  then show ?thesis by (auto simp: hands_out_def realloc_tail_def ALLOC_OFF_TOTAL_def ALLOC_OFF_HEAD_def)
next
  case False
  then have "fresh (others (p - 8) (h_live s)) (realloc s (p - 8) (unat sz + 9)) (unat sz + 9)" using assms(2) unfolding allocator_ok_def by metis
  then obtain b t where t: "realloc_tail realloc s (p - 8) old sz = Some (Inr (b + 8, t))" "heap_ok t" "guarded t (b + 8) sz" "keeps_but (p - 8) s t"
      "b \<notin> fst ` set (others (p - 8) (h_live s))" "\<forall>i<unat sz. h_mem t (b + 8 + i) = (if i < unat old then h_mem s (p - 8 + 8 + i) else 0)"
    using realloc_tail_ok [OF assms(1), of "p - 8" realloc sz old] assms(3) False by auto
  have "h_mem t (b + 8 + i) = (if i < unat old then h_mem s (p + i) else 0)" if "i < unat sz" for i
    using t(6) that assms(3) by auto
  then show ?thesis unfolding hands_out_def using t(1-5) by auto
qed

lemma DFL_ck_realloc_hands_out:
  assumes "heap_ok s" "allocator_ok malloc realloc" "p = 0 \<and> old = 0 \<or> guarded s p old"
  shows "hands_out s p sz (\<lambda>i. if i < unat old then h_mem s (p + i) else 0) (DFL_ck_realloc realloc s p sz)"
proof (cases "sz = 0 \<or> p = 0")
  case True
  then consider "sz = 0" "p = 0" | "sz = 0" "guarded s p old" | "sz \<noteq> 0" "p = 0" "old = 0"
    using assms(3) by (auto simp: guarded_def)
  then show ?thesis
  proof cases
    case 1
    then show ?thesis using assms(1) by (simp add: hands_out_def DFL_ck_realloc_def DFL_ck_free_def keeps_but_refl)
  next
    case 2
    then show ?thesis using free_ok [OF assms(1) 2(2)] by (auto simp: hands_out_def DFL_ck_realloc_def)
  next
    case 3
    then show ?thesis using realloc_tail_hands_out [OF assms(1,2), of 0 0] by (simp add: DFL_ck_realloc_def)
  qed
next
  case False
  then have g: "guarded s p old" using assms(3) by blast
  then have p: "8 < p" "(p - 8, unat old + 9) \<in> set (h_live s)" by (simp_all add: guarded_def)
  from False obtain s1 where s1: "DFL_ck_realloc realloc s p sz = realloc_tail realloc s1 (p - 8) old sz" "h_live s1 = h_live s" "heap_ok s1"
      "keeps_but (p - 8) s s1" "\<And>a. p - 4 \<le> a \<Longrightarrow> h_mem s1 a = h_mem s a"
    using realloc_checked [OF assms(1) g] by blast
  have m: "h_mem s1 (p + i) = h_mem s (p + i)" for i using s1(5) p(1) by simp
  have "hands_out s1 p sz (\<lambda>i. if i < unat old then h_mem s1 (p + i) else 0) (DFL_ck_realloc realloc s p sz)"
    unfolding s1(1) by (rule realloc_tail_hands_out [OF s1(3) assms(2)]) (simp add: p s1(2))
  then show ?thesis unfolding hands_out_def m s1(2) using keeps_but_trans [OF s1(4)] by blast
qed

section \<open>Programs that use the allocator\<close>

text \<open>
  A state is the heap and the blocks the program owns, with the sizes it asked for.  A step is a call that returns, or a
  store inside a block.  \<open>DFL_ck_realloc_block\<close> leaves a block alone that is large enough and asks for 256 bytes more otherwise.
\<close>

type_synonym ck_state = "ck_heap \<times> (nat \<times> u32) list"

definition own :: "nat \<Rightarrow> u32 \<Rightarrow> (nat \<times> u32) list \<Rightarrow> (nat \<times> u32) list" where
  "own p sz L = (if p = 0 then L else (p, sz) # L)"

definition disown :: "nat \<Rightarrow> (nat \<times> u32) list \<Rightarrow> (nat \<times> u32) list" where
  "disown p L = filter (\<lambda>(q, k). q \<noteq> p) L"

inductive ck_step :: "c_malloc \<Rightarrow> c_realloc \<Rightarrow> ck_state \<Rightarrow> ck_state \<Rightarrow> bool" for malloc realloc where
  alloc_nozero: "DFL_ck_alloc_nozero malloc s n = Some (Inr (q, t)) \<Longrightarrow> ck_step malloc realloc (s, L) (t, own q n L)"
| alloc: "DFL_ck_alloc malloc s n = Some (Inr (q, t)) \<Longrightarrow> ck_step malloc realloc (s, L) (t, own q n L)"
| memdup: "DFL_ck_memdup malloc s (Some f) n = Some (Inr (q, t)) \<Longrightarrow> ck_step malloc realloc (s, L) (t, own q n L)"
| strdup: "DFL_ck_strdup malloc s (Some bs) = Some (Inr (q, t)) \<Longrightarrow> ck_step malloc realloc (s, L) (t, own q (of_nat (length bs + 1)) L)"
| release: "(p, k) \<in> set L \<Longrightarrow> DFL_ck_free s p = Some (Inr t) \<Longrightarrow> ck_step malloc realloc (s, L) (t, disown p L)"
| resize_null: "DFL_ck_realloc realloc s 0 n = Some (Inr (q, t)) \<Longrightarrow> ck_step malloc realloc (s, L) (t, own q n L)"
| resize: "(p, k) \<in> set L \<Longrightarrow> DFL_ck_realloc realloc s p n = Some (Inr (q, t)) \<Longrightarrow> ck_step malloc realloc (s, L) (t, own q n (disown p L))"
| grow: "(p, k) \<in> set L \<Longrightarrow> DFL_ck_realloc_block realloc s p n = Some (Inr (q, t)) \<Longrightarrow>
    ck_step malloc realloc (s, L) (t, if n \<le> k then L else own q (n + ALLOC_BLK_INC) (disown p L))"
| poke: "(p, k) \<in> set L \<Longrightarrow> i < unat k \<Longrightarrow> store8 s (p + i) v = Some t \<Longrightarrow> ck_step malloc realloc (s, L) (t, L)"

fun ck_inv :: "ck_state \<Rightarrow> bool" where
  "ck_inv (s, L) \<longleftrightarrow> heap_ok s \<and> distinct (map fst L) \<and> list_all (\<lambda>(p, k). guarded s p k) L"

lemma ck_invD: "ck_inv (s, L) \<Longrightarrow> (p, k) \<in> set L \<Longrightarrow> guarded s p k"
  by (auto simp: list_all_iff)

lemma ck_inv_heap: "ck_inv (s, L) \<Longrightarrow> heap_ok s"
  by simp

lemma disown_kept:
  assumes "ck_inv (s, L)" "heap_ok t" "keeps_but (p - 8) s t" "p = 0 \<or> 8 < p"
  shows "ck_inv (t, disown p L)"
proof -
  have "guarded t q k" if "(q, k) \<in> set (disown p L)" for q k
  proof -
    have q: "(q, k) \<in> set L" "q \<noteq> p" using that by (simp_all add: disown_def)
    then have g: "guarded s q k" using ck_invD [OF assms(1)] by blast
    then have "q - 8 \<noteq> p - 8" using assms(4) q(2) by (auto simp: guarded_def)
    then show ?thesis using assms(3) g unfolding keeps_but_def by blast
  qed
  moreover have "distinct (map fst (disown p L))" using assms(1) by (simp add: disown_def distinct_map_filter)
  ultimately show ?thesis using assms(2) by (auto simp: list_all_iff)
qed

lemma own_kept:
  assumes "ck_inv (s, L)" "hands_out s p n c (Some (Inr (q, t)))" "p = 0 \<or> 8 < p"
  shows "ck_inv (t, own q n (disown p L))"
proof -
  have t: "heap_ok t" "keeps_but (p - 8) s t" using assms(2) by (auto simp: hands_out_def)
  then have d: "ck_inv (t, disown p L)" using disown_kept assms(1,3) by blast
  show ?thesis
  proof (cases "q = 0")
    case True
    then show ?thesis using d by (simp add: own_def)
  next
    case False
    then have g: "guarded t q n" "q - 8 \<notin> fst ` set (others (p - 8) (h_live s))" using assms(2) by (auto simp: hands_out_def)
    have "q \<noteq> r" if "(r, k) \<in> set (disown p L)" for r k
    proof -
      have r: "(r, k) \<in> set L" "r \<noteq> p" using that by (simp_all add: disown_def)
      then have "8 < r" "(r - 8, unat k + 9) \<in> set (h_live s)" using ck_invD [OF assms(1)] by (auto simp: guarded_def)
      moreover from this have "r - 8 \<noteq> p - 8" using assms(3) r(2) by auto
      ultimately have "(r - 8, unat k + 9) \<in> set (others (p - 8) (h_live s))" by (simp add: others_in)
      then show ?thesis using g(2) by force
    qed
    then have "q \<notin> fst ` set (disown p L)" by (metis imageE prod.collapse)
    then show ?thesis using d g(1) False by (simp add: own_def)
  qed
qed

lemma disown_null: "ck_inv (s, L) \<Longrightarrow> disown 0 L = L"
  by (auto simp: disown_def guarded_def list_all_iff filter_id_conv)

lemma new_kept: "ck_inv (s, L) \<Longrightarrow> hands_out s 0 n c (Some (Inr (q, t))) \<Longrightarrow> ck_inv (t, own q n L)"
  using own_kept [of s L 0 n c q t] disown_null [of s L] by (simp only: simp_thms)

text \<open>A block that is large enough is returned as it is.\<close>

lemma grow_cases:
  assumes "guarded s p k"
  shows "DFL_ck_realloc_block realloc s p n = (if n \<le> k then Some (Inr (p, s)) else DFL_ck_realloc realloc s p (n + ALLOC_BLK_INC))"
proof -
  have "p \<noteq> 0" using assms by (auto simp: guarded_def)
  then show ?thesis using check_guarded(1,2) [OF assms] by (simp add: DFL_ck_realloc_block_def)
qed

text \<open>A store inside an owned block.\<close>

lemma poke_kept:
  assumes "ck_inv (s, L)" "(p, k) \<in> set L" "i < unat k"
  shows "ck_inv (s\<lparr>h_mem := (h_mem s)(p + i := v)\<rparr>, L)"
proof -
  let ?t = "s\<lparr>h_mem := (h_mem s)(p + i := v)\<rparr>"
  have g: "guarded s p k" "heap_ok s" using ck_invD assms(1,2) ck_inv_heap by blast+
  have f: "heap_ok ?t \<and> guarded ?t p k \<and> keeps_but (p - 8) s ?t" using assms(3) by (intro fill_guarded [OF g(2,1)]) auto
  have "guarded ?t q l" if "(q, l) \<in> set L" for q l
  proof (cases "q = p")
    case True
    then show ?thesis using that assms(1,2) f eq_key_imp_eq_value [of L q l k] by simp
  next
    case False
    then have "(q, l) \<in> set (disown p L)" using that by (simp add: disown_def)
    then show ?thesis using ck_invD [OF disown_kept [OF assms(1), of ?t p]] f g(1) by (simp add: guarded_def)
  qed
  then show ?thesis using assms(1) f by (auto simp: list_all_iff)
qed

lemma ck_step_inv:
  assumes "ck_step malloc realloc x y" "allocator_ok malloc realloc" "ck_inv x"
  shows "ck_inv y"
  using assms(1)
proof cases
  case (alloc_nozero s n q t L)
  then obtain c where "hands_out s 0 n c (Some (Inr (q, t)))" "ck_inv (s, L)"
    using assms(3) DFL_ck_alloc_nozero_hands_out [OF ck_inv_heap assms(2), of s L n] by auto
  then show ?thesis using new_kept alloc_nozero(2) by blast
next
  case (alloc s n q t L)
  then have "hands_out s 0 n (\<lambda>i. 0) (Some (Inr (q, t)))" "ck_inv (s, L)"
    using assms(3) DFL_ck_alloc_hands_out [OF ck_inv_heap assms(2), of s L n] by auto
  then show ?thesis using new_kept alloc(2) by blast
next
  case (memdup s f n q t L)
  then have "hands_out s 0 n f (Some (Inr (q, t)))" "ck_inv (s, L)"
    using assms(3) DFL_ck_memdup_hands_out [OF ck_inv_heap assms(2), of s L n f] by auto
  then show ?thesis using new_kept memdup(2) by blast
next
  case (strdup s bs q t L)
  then have i: "ck_inv (s, L)" using assms(3) by blast
  have "hands_out s 0 (of_nat (length bs + 1)) (\<lambda>i. (bs @ [0]) ! i) (Some (Inr (q, t)))"
    using DFL_ck_strdup_hands_out [OF ck_inv_heap [OF i] assms(2) refl, of bs] unfolding strdup(3) .
  then show ?thesis using new_kept [OF i] strdup(2) by blast
next
  case (release p k L s t)
  then have g: "guarded s p k" "heap_ok s" using assms(3) ck_invD [of s L p k] by simp_all
  then have "heap_ok t" "keeps_but (p - 8) s t" "8 < p" using free_ok [OF g(2,1)] release by (auto simp: guarded_def)
  then show ?thesis using disown_kept release assms(3) by blast
next
  case (resize_null s n q t L)
  then have i: "ck_inv (s, L)" using assms(3) by blast
  then show ?thesis using new_kept [OF i] DFL_ck_realloc_hands_out [OF ck_inv_heap [OF i] assms(2), of 0 0 n] resize_null by (metis (lifting))
next
  case (resize p k L s n q t)
  then have g: "guarded s p k" "heap_ok s" using assms(3) ck_invD [of s L p k] by simp_all
  then show ?thesis using own_kept [of s L p n] DFL_ck_realloc_hands_out [OF g(2) assms(2), of p k n] resize assms(3) by (simp add: guarded_def)
next
  case (grow p k L s n q t)
  then have g: "guarded s p k" "heap_ok s" using assms(3) ck_invD [of s L p k] by simp_all
  then show ?thesis using own_kept [of s L p "n + ALLOC_BLK_INC"] DFL_ck_realloc_hands_out [OF g(2) assms(2), of p k "n + ALLOC_BLK_INC"] grow assms(3)
      grow_cases [OF g(1), of realloc n] by (auto simp: guarded_def)
next
  case (poke p k L i s v t)
  then have "t = s\<lparr>h_mem := (h_mem s)(p + i := v)\<rparr>" by (simp add: store8_def split: if_splits)
  then show ?thesis using poke_kept poke assms(3) by blast
qed

lemma ck_steps_inv: "(ck_step malloc realloc)\<^sup>*\<^sup>* x y \<Longrightarrow> allocator_ok malloc realloc \<Longrightarrow> ck_inv x \<Longrightarrow> ck_inv y"
  by (induction rule: rtranclp_induct) (auto dest: ck_step_inv simp del: ck_inv.simps)

section \<open>Properties\<close>

text \<open>A C library that never reuses memory, for concrete runs.\<close>

definition heap_top :: "ck_heap \<Rightarrow> nat" where
  "heap_top s = foldr (\<lambda>(b, k) m. max (b + k + 1) m) (h_live s) 1"

definition fresh_malloc :: c_malloc where "fresh_malloc s n = heap_top s"
definition fresh_realloc :: c_realloc where "fresh_realloc s b n = heap_top s"

lemma heap_top_above: "0 < heap_top s" "(b, k) \<in> set (h_live s) \<Longrightarrow> b + k < heap_top s"
proof -
  have "0 < foldr (\<lambda>(b, k) m. max (b + k + 1) m) xs (1::nat)" for xs by (induction xs) auto
  then show "0 < heap_top s" by (simp add: heap_top_def)
  have "(b, k) \<in> set xs \<Longrightarrow> b + k < foldr (\<lambda>(b, k) m. max (b + k + 1) m) xs 1" for xs by (induction xs) auto
  then show "(b, k) \<in> set (h_live s) \<Longrightarrow> b + k < heap_top s" by (simp add: heap_top_def)
qed

lemma fresh_top: "set live \<subseteq> set (h_live s) \<Longrightarrow> fresh live (heap_top s) n"
  using heap_top_above by (force simp: fresh_def list_all_iff)

lemma fresh_allocator_ok: "allocator_ok fresh_malloc fresh_realloc"
  unfolding allocator_ok_def fresh_malloc_def fresh_realloc_def by (auto intro!: fresh_top simp: others_def)

definition empty_heap :: ck_heap where "empty_heap = \<lparr>h_mem = (\<lambda>a. 0), h_live = []\<rparr>"

lemma heap_ok_empty: "heap_ok empty_heap"
  by (simp add: heap_ok_def empty_heap_def)


lemma demo_alloc: "\<exists>t. DFL_ck_alloc fresh_malloc empty_heap 4 = Some (Inr (9, t))"
proof -
  have "fresh_malloc empty_heap n = 1" for n by (simp add: fresh_malloc_def heap_top_def empty_heap_def)
  then have "\<exists>t. alloc_guarded fresh_malloc 0 empty_heap 4 = Some (Inr (9, t)) \<and> h_live t = [(1, 13)]"
    using alloc_guarded_ok [OF heap_ok_empty, of fresh_malloc 4 0] fresh_top [of "h_live empty_heap" empty_heap]
    by (auto simp: alloc_guarded_def ALLOC_OFF_TOTAL_def ALLOC_OFF_HEAD_def CK_MAX_ALLOC_def fresh_malloc_def empty_heap_def split: bind_splits)
  then show ?thesis by (auto simp: DFL_ck_alloc_def DFL_ck_alloc_nozero_def c_memset_def acc_def)
qed


lemma broken_guard:
  assumes "8 \<le> p" "load32 s (p - 8) = Some ALLOC_MAGIC_C1" "load32 s (p - 4) = Some n" "load8 s (p + unat n) = Some v" "v \<noteq> ALLOC_MAGIC_C2"
  shows "CHECK_PTR s p = Some (Inl ''Corrupted tail alloc canary.'')"
  using assms by (simp add: CHECK_PTR_def ALLOC_OFF_HEAD_def)

text \<open>C36. \<open>DFL_ck_memdup_str\<close> writes its terminator over its own guard: the copy is right, but the returned pointer cannot be freed
  or reallocated, since every later check of it aborts.\<close>

theorem memdup_str_breaks_guard:
  assumes "allocator_ok malloc realloc" "heap_ok s" "n \<noteq> 0" "unat n \<le> CK_MAX_ALLOC" "malloc s (unat n + 10) \<noteq> 0"
  shows "\<exists>q t. DFL_ck_memdup_str malloc s (Some f) n = Some (Inr (q, t)) \<and> (\<forall>i<unat n. h_mem t (q + i) = f i) \<and> h_mem t (q + unat n) = 0 \<and>
    DFL_ck_free t q = Some (Inl ''Corrupted tail alloc canary.'') \<and>
    (\<forall>m. DFL_ck_realloc realloc t q m = Some (Inl ''Corrupted tail alloc canary.''))"
proof -
  have e: "unat n + 9 + 1 = unat n + 10" by simp
  have "fresh (h_live s) (malloc s (unat n + 9 + 1)) (unat n + 9 + 1)" unfolding e using assms(1,5) unfolding allocator_ok_def by metis
  then obtain b t where t: "alloc_guarded malloc 1 s n = Some (Inr (b + 8, t))" "0 < b" "h_live t = (b, unat n + 9 + 1) # h_live s"
      "get32 (h_mem t) b = ALLOC_MAGIC_C1" "get32 (h_mem t) (b + 4) = n"
    using alloc_guarded_ok [OF assms(2) _ assms(4), of malloc 1] by blast
  define u where "u = t\<lparr>h_mem := (\<lambda>a. if b + 8 \<le> a \<and> a < b + 8 + unat n then f (a - (b + 8)) else h_mem t a)(b + 8 + unat n := 0)\<rparr>"
  have a: "acc t (b + i) m" if "i + m \<le> unat n + 10" for i m by (rule acc_in [of b "unat n + 9 + 1"]) (use that t(3) in auto)
  have au: "acc u p m = acc t p m" for p m by (simp add: u_def)
  have "(\<lambda>a. if b + 8 \<le> a \<and> a < b + 8 + unat n then map f [0..<unat n] ! (a - (b + 8)) else h_mem t a) = (\<lambda>a. if b + 8 \<le> a \<and> a < b + 8 + unat n then f (a - (b + 8)) else h_mem t a)"
    by (rule ext) auto
  then have r: "DFL_ck_memdup_str malloc s (Some f) n = Some (Inr (b + 8, u))"
    using t(1) assms(3) a [of 8 "unat n"] a [of "8 + unat n" 1] by (simp add: DFL_ck_memdup_str_def c_memcpy_def store8_def u_def add.assoc)
  have "get32 (h_mem u) b = get32 (h_mem t) b" "get32 (h_mem u) (b + 4) = get32 (h_mem t) (b + 4)" by (auto intro!: get32_cong simp: u_def)
  then have "load32 u (b + 8 - 8) = Some ALLOC_MAGIC_C1" "load32 u (b + 8 - 4) = Some n" "load8 u (b + 8 + unat n) = Some 0"
    using a [of 0 4] a [of 4 4] a [of "8 + unat n" 1] t(4,5) by (simp_all add: load32_def load8_def au add.assoc add.commute [of 4 b]) (simp add: u_def)
  then have "CHECK_PTR u (b + 8) = Some (Inl ''Corrupted tail alloc canary.'')" by (intro broken_guard [where n = n and v = 0]) (simp_all add: ALLOC_MAGIC_C2_def)
  then have "DFL_ck_free u (b + 8) = Some (Inl ''Corrupted tail alloc canary.'')"
      "\<And>m. DFL_ck_realloc realloc u (b + 8) m = Some (Inl ''Corrupted tail alloc canary.'')"
    by (simp_all add: DFL_ck_free_def DFL_ck_realloc_def)
  moreover have "\<forall>i<unat n. h_mem u (b + 8 + i) = f i" "h_mem u (b + 8 + unat n) = 0" by (simp_all add: u_def)
  ultimately show ?thesis using r by blast
qed

theorem memdup_str_breaks_guard_witness:
  "\<exists>q t. DFL_ck_memdup_str fresh_malloc empty_heap (Some (\<lambda>i. 65)) 2 = Some (Inr (q, t)) \<and> DFL_ck_free t q = Some (Inl ''Corrupted tail alloc canary.'')"
proof -
  have "fresh_malloc empty_heap (unat (2 :: u32) + 10) \<noteq> 0" by (simp add: fresh_malloc_def heap_top_def empty_heap_def)
  then show ?thesis
    using memdup_str_breaks_guard [OF fresh_allocator_ok heap_ok_empty, of 2 "\<lambda>i. 65"] by (auto simp: CK_MAX_ALLOC_def)
qed

lemma add_256_wraps:
  fixes n :: u32
  shows "n \<le> n + 256 \<longleftrightarrow> n < 0xFFFFFF00" "0xFFFFFF00 \<le> n \<Longrightarrow> n + 256 < 256"
proof -
  have u: "unat (n + 256) = (unat n + 256) mod 4294967296" by (simp add: unat_word_ariths)
  have l: "unat n < 4294967296" using unsigned_less [of n] by simp
  have "unat (n + 256) = (if unat n < 4294967040 then unat n + 256 else unat n + 256 - 4294967296)"
    unfolding u using l by (simp add: le_mod_geq)
  then show "n \<le> n + 256 \<longleftrightarrow> n < 0xFFFFFF00" "0xFFFFFF00 \<le> n \<Longrightarrow> n + 256 < 256"
    using l by (auto simp: word_le_nat_alt word_less_nat_alt)
qed

text \<open>\<open>DFL_ck_realloc_block\<close> returns a block that is large enough as it is and otherwise asks for 256 bytes more than requested, computed with
  32 bits: the block it hands out holds the request exactly when the request is below 0xFFFFFF00.  A larger one is granted
  with a block of less than 256 bytes, or frees the block, although it is far over the limit.\<close>

theorem realloc_block_size:
  assumes "allocator_ok malloc realloc" "heap_ok s" "guarded s p k"
  shows "(n \<le> k \<longrightarrow> DFL_ck_realloc_block realloc s p n = Some (Inr (p, s))) \<and>
    (k < n \<longrightarrow> hands_out s p (n + 256) (\<lambda>i. if i < unat k then h_mem s (p + i) else 0) (DFL_ck_realloc_block realloc s p n)) \<and>
    (n \<le> n + 256 \<longleftrightarrow> n < 0xFFFFFF00) \<and> (0xFFFFFF00 \<le> n \<longrightarrow> n + 256 < 256)"
proof -
  have "n \<le> n + 256 \<longleftrightarrow> n < 0xFFFFFF00" "0xFFFFFF00 \<le> n \<Longrightarrow> n + 256 < 256" using add_256_wraps by blast+
  then show ?thesis
    using grow_cases [OF assms(3), of realloc n] DFL_ck_realloc_hands_out [OF assms(2,1) disjI2 [OF assms(3)], of "n + ALLOC_BLK_INC"]
    by (auto simp: ALLOC_BLK_INC_def not_le)
qed

theorem realloc_block_size_witness:
  "\<exists>t. guarded t 9 4 \<and> DFL_ck_realloc_block fresh_realloc t 9 3 = Some (Inr (9, t)) \<and> 0xFFFFFFFF + 256 < (256 :: u32)"
proof -
  obtain t where t: "DFL_ck_alloc fresh_malloc empty_heap 4 = Some (Inr (9, t))" using demo_alloc by blast
  then have "ck_inv (t, [(9, 4)])"
    using new_kept [of empty_heap "[]" 4 _ 9 t] DFL_ck_alloc_hands_out [OF heap_ok_empty fresh_allocator_ok, of 4] heap_ok_empty by (simp add: own_def)
  then have "guarded t 9 4" "heap_ok t" by simp_all
  then show ?thesis using realloc_block_size [OF fresh_allocator_ok, of t 9 4 3] realloc_block_size [OF fresh_allocator_ok, of t 9 4 "0xFFFFFFFF"] by auto
qed
end
