(* ===== verification/Pin_Track.thy ===== *)
theory Pin_Track
  imports Memory Tag_Set
begin

unbundle bit_operations_syntax

text \<open>
  Taint tracking with Intel Pin (\<^verbatim>\<open>pin_mode\<close>): the log of tracked conditions in \<^verbatim>\<open>logger.h\<close>, the handlers of
  \<^verbatim>\<open>pin_track.cpp\<close>, and the reader of the file in \<^verbatim>\<open>fuzzer/src/track/load_pin_data.rs\<close>.  Pin and libdft are a record of
  parameters: the tags of registers and of memory when a handler runs, and the operations on tags.  \<open>None\<close> is a failed
  assertion, a write outside a buffer or a null stream; \<open>malloc\<close> and \<open>realloc\<close> are taken to return a block.
\<close>

section \<open>Libdft\<close>

record libdft =
  tagmap_getn_reg :: "nat \<Rightarrow> u32 \<Rightarrow> u32" \<comment> \<open>number of the argument register, size\<close>
  tagmap_getn :: "u64 \<Rightarrow> u32 \<Rightarrow> u32"
  BDD_HAS_LEN_LB :: "u32 \<Rightarrow> bool"
  BDD_CLEAR_LEN_MASK :: "u32 \<Rightarrow> u32"
  tag_is_empty :: "u32 \<Rightarrow> bool"
  tag_get :: "u32 \<Rightarrow> u8 list list" \<comment> \<open>the bytes of each \<^verbatim>\<open>tag_seg\<close>\<close>

section \<open>Conditions\<close>

definition MAX_ORDER :: u32 where "MAX_ORDER = 16"
definition PIN_SW_OP :: u32 where "PIN_SW_OP = 0x00FF"
definition PIN_FN_OP :: u32 where "PIN_FN_OP = 0x8002"
definition PIN_LEN_OP :: u32 where "PIN_LEN_OP = 0x8003"
definition PIN_FALSE_ST :: u32 where "PIN_FALSE_ST = 0"
definition PIN_DONE_ST :: u32 where "PIN_DONE_ST = 2"

record CondStmt =
  c_cid :: u32
  c_ctx :: u32
  c_order :: u32
  c_belong :: u32
  c_condition :: u32
  c_level :: u32
  c_op :: u32
  c_size :: u32
  c_lb1 :: u32
  c_lb2 :: u32
  c_arg1 :: u64
  c_arg2 :: u64

definition le32 :: "u32 \<Rightarrow> u8 list" where
  "le32 w = [ucast w, ucast (drop_bit 8 w), ucast (drop_bit 16 w), ucast (drop_bit 24 w)]"

definition le64 :: "u64 \<Rightarrow> u8 list" where
  "le64 w = le32 (ucast w) @ le32 (ucast (drop_bit 32 w))"

text \<open>The object representation of the struct, which has no padding.\<close>

definition cond_bytes :: "CondStmt \<Rightarrow> u8 list" where
  "cond_bytes c = le32 (c_cid c) @ le32 (c_ctx c) @ le32 (c_order c) @ le32 (c_belong c) @ le32 (c_condition c) @ le32 (c_level c) @
     le32 (c_op c) @ le32 (c_size c) @ le32 (c_lb1 c) @ le32 (c_lb2 c) @ le64 (c_arg1 c) @ le64 (c_arg2 c)"

section \<open>The log\<close>

text \<open>\<^verbatim>\<open>LogBuf\<close>: the bytes in use, \<^verbatim>\<open>len\<close> of them, and the size of the block.\<close>

record LogBuf =
  buffer :: "u8 list"
  cap :: nat

definition BUF_LEN :: nat where "BUF_LEN = 2 * 2 ^ 16"

definition LogBuf_new :: LogBuf where
  "LogBuf_new = \<lparr>buffer = [], cap = BUF_LEN\<rparr>"

definition push_bytes :: "u8 list \<Rightarrow> LogBuf \<Rightarrow> LogBuf option" where
  "push_bytes bytes b =
     (if bytes = [] then Some b
      else let len_next = length (buffer b) + length bytes; b = (if cap b < len_next then b\<lparr>cap := 2 * cap b\<rparr> else b) in
        if cap b < len_next then None else Some (b\<lparr>buffer := buffer b @ bytes\<rparr>))"

text \<open>\<^verbatim>\<open>fwrite\<close> on a file with given contents: whether all was written, and the new contents.  A failure ends the program.\<close>

type_synonym c_fwrite = "u8 list \<Rightarrow> u8 list \<Rightarrow> bool \<times> u8 list"

definition write_file :: "c_fwrite \<Rightarrow> LogBuf \<Rightarrow> u8 list \<Rightarrow> string + u8 list" where
  "write_file fwrite b f =
     (if buffer b = [] then Inr f
      else let (done_all, f) = fwrite f (buffer b) in
        if done_all then Inr f else Inl (''fail to write file 0 '' @ show_nat (length (buffer b))))"

record Logger =
  num_cond :: u32
  num_tag :: u32
  num_mb :: u32
  cond_buf :: LogBuf
  tag_buf :: LogBuf
  mb_buf :: LogBuf
  order_map :: "u64 \<rightharpoonup> u32"
  lb_set :: "u32 set"

definition Logger_new :: Logger where
  "Logger_new = \<lparr>num_cond = 0, num_tag = 0, num_mb = 0, cond_buf = LogBuf_new, tag_buf = LogBuf_new, mb_buf = LogBuf_new,
     order_map = Map.empty, lb_set = {}\<rparr>"

text \<open>The file is opened for writing; \<open>None\<close> when that failed, since the header is written all the same.\<close>

definition save_buffers :: "c_fwrite \<Rightarrow> bool \<Rightarrow> Logger \<Rightarrow> (string + u8 list) option" where
  "save_buffers fwrite opened L =
     (if \<not> opened then None
      else let f = snd (fwrite [] (le32 (num_cond L))); f = snd (fwrite f (le32 (num_tag L))); f = snd (fwrite f (le32 (num_mb L))) in
        Some (case write_file fwrite (cond_buf L) f of
          Inl msg \<Rightarrow> Inl msg
        | Inr f \<Rightarrow> (case write_file fwrite (tag_buf L) f of Inl msg \<Rightarrow> Inl msg | Inr f \<Rightarrow> write_file fwrite (mb_buf L) f)))"

definition order_key :: "u32 \<Rightarrow> u32 \<Rightarrow> u64" where
  "order_key cid ctx = push_bit 32 (ucast cid) OR ucast ctx"

definition get_order :: "u32 \<Rightarrow> u32 \<Rightarrow> Logger \<Rightarrow> u32 \<times> Logger" where
  "get_order cid ctx L =
     (let key = order_key cid ctx; ctr = (case order_map L key of Some n \<Rightarrow> n + 1 | None \<Rightarrow> 1) in
      (ctr, L\<lparr>order_map := (order_map L)(key \<mapsto> ctr)\<rparr>))"

definition save_tag :: "libdft \<Rightarrow> u32 \<Rightarrow> Logger \<Rightarrow> Logger option" where
  "save_tag D lb L =
     (if BDD_HAS_LEN_LB D lb then None
      else if 0 < lb \<and> lb \<notin> lb_set L then do {
        let t = tag_get D lb;
        b \<leftarrow> push_bytes (le32 lb) (tag_buf L);
        b \<leftarrow> push_bytes (le32 (of_nat (length t))) b;
        b \<leftarrow> push_bytes (concat t) b;
        Some (L\<lparr>tag_buf := b, num_tag := num_tag L + 1, lb_set := insert lb (lb_set L)\<rparr>)
      }
      else Some L)"

text \<open>A null pointer pushes nothing.\<close>

definition pushed :: "memory \<Rightarrow> u64 \<Rightarrow> u32 \<Rightarrow> u8 list" where
  "pushed m p n = (if p = 0 then [] else map (\<lambda>i. m (p + of_nat i)) [0..<unat n])"

definition save_mb :: "memory \<Rightarrow> u32 \<Rightarrow> u32 \<Rightarrow> u32 \<Rightarrow> u64 \<Rightarrow> u64 \<Rightarrow> Logger \<Rightarrow> Logger option" where
  "save_mb m i arg1_len arg2_len arg1 arg2 L =
     (if 0 < i then do {
        b \<leftarrow> push_bytes (le32 i) (mb_buf L);
        b \<leftarrow> push_bytes (le32 arg1_len) b;
        b \<leftarrow> push_bytes (le32 arg2_len) b;
        b \<leftarrow> push_bytes (pushed m arg1 arg1_len) b;
        b \<leftarrow> push_bytes (pushed m arg2 arg2_len) b;
        Some (L\<lparr>mb_buf := b, num_mb := num_mb L + 1\<rparr>)
      }
      else Some L)"

definition save_cond :: "libdft \<Rightarrow> CondStmt \<Rightarrow> Logger \<Rightarrow> (u32 \<times> Logger) option" where
  "save_cond D c L = do {
     let i = num_cond L;
     L \<leftarrow> save_tag D (c_lb1 c) (L\<lparr>num_cond := num_cond L + 1\<rparr>);
     L \<leftarrow> save_tag D (c_lb2 c) L;
     b \<leftarrow> push_bytes (cond_bytes c) (cond_buf L);
     Some (i, L\<lparr>cond_buf := b\<rparr>)
   }"

section \<open>Handlers\<close>

text \<open>Tags of the arguments of a comparison; the fifth and sixth argument are in the registers numbered 4 and 5.\<close>

definition CmpHandler :: "libdft \<Rightarrow> u32 \<Rightarrow> u32 \<Rightarrow> u32 \<Rightarrow> u32 \<Rightarrow> u64 \<Rightarrow> u64 \<Rightarrow> u32 \<Rightarrow> Logger \<Rightarrow> Logger option" where
  "CmpHandler D cid ctx sz op arg1 arg2 cond L =
     (let t1 = tagmap_getn_reg D 4 sz; t2 = tagmap_getn_reg D 5 sz; (ctr, L) = get_order cid ctx L;
          has_len = BDD_HAS_LEN_LB D t1 \<or> BDD_HAS_LEN_LB D t2 in do {
      L \<leftarrow> (if has_len \<and> ctr \<le> MAX_ORDER
            then map_option snd (save_cond D \<lparr>c_cid = cid, c_ctx = ctx, c_order = ctr + 0x10000, c_belong = 0, c_condition = cond, c_level = 0,
                   c_op = PIN_LEN_OP, c_size = sz, c_lb1 = 0, c_lb2 = 1, c_arg1 = arg1, c_arg2 = arg2\<rparr> L)
            else Some L);
      let t1 = (if has_len then BDD_CLEAR_LEN_MASK D t1 else t1);
      let t2 = (if has_len then BDD_CLEAR_LEN_MASK D t2 else t2);
      if tag_is_empty D t1 \<and> tag_is_empty D t2 then Some L
      else if ctr \<le> MAX_ORDER
      then map_option snd (save_cond D \<lparr>c_cid = cid, c_ctx = ctx, c_order = ctr, c_belong = 0, c_condition = cond, c_level = 0,
             c_op = op, c_size = sz, c_lb1 = t1, c_lb2 = t2, c_arg1 = arg1, c_arg2 = arg2\<rparr> L)
      else Some L
    })"

definition load_u64 :: "memory \<Rightarrow> u64 \<Rightarrow> u64" where
  "load_u64 m p = fold (\<lambda>i w. push_bit 8 w OR ucast (m (p + of_nat i))) (rev [0..<8]) 0"

fun save_cases :: "libdft \<Rightarrow> memory \<Rightarrow> u64 \<Rightarrow> u32 \<Rightarrow> CondStmt \<Rightarrow> nat list \<Rightarrow> Logger \<Rightarrow> Logger option" where
  "save_cases D m args ctr c [] L = Some L"
| "save_cases D m args ctr c (i # is) L =
     (let a = load_u64 m (args + 8 * of_nat i);
          c = c\<lparr>c_order := ctr + push_bit 16 (of_nat i), c_arg2 := a, c_condition := (if c_arg1 c = a then PIN_DONE_ST else PIN_FALSE_ST)\<rparr> in do {
      (_, L) \<leftarrow> save_cond D c L;
      save_cases D m args ctr c is L
    })"

definition SwHandler :: "libdft \<Rightarrow> memory \<Rightarrow> u32 \<Rightarrow> u32 \<Rightarrow> u32 \<Rightarrow> u64 \<Rightarrow> u32 \<Rightarrow> u64 \<Rightarrow> Logger \<Rightarrow> Logger option" where
  "SwHandler D m cid ctx sz cond num args L =
     (let t = BDD_CLEAR_LEN_MASK D (tagmap_getn_reg D 3 sz); (ctr, L) = get_order cid ctx L in
      if tag_is_empty D t then Some L
      else if ctr \<le> MAX_ORDER
      then save_cases D m args ctr \<lparr>c_cid = cid, c_ctx = ctx, c_order = ctr, c_belong = 0, c_condition = PIN_FALSE_ST, c_level = 0,
             c_op = PIN_SW_OP, c_size = sz, c_lb1 = t, c_lb2 = 0, c_arg1 = cond, c_arg2 = 0\<rparr> [0..<unat num] L
      else Some L)"

definition pin_strlen :: "memory \<Rightarrow> u64 \<Rightarrow> u32 option" where
  "pin_strlen m p = (if p = 0 then None else map_option ucast (first_index (\<lambda>i. m (p + i) = 0) 0))"

definition FnHandler :: "libdft \<Rightarrow> memory \<Rightarrow> u32 \<Rightarrow> u32 \<Rightarrow> u32 \<Rightarrow> u64 \<Rightarrow> u64 \<Rightarrow> Logger \<Rightarrow> Logger option" where
  "FnHandler D m cid ctx sz arg1 arg2 L = do {
     arg1_len \<leftarrow> (if sz = 0 then pin_strlen m arg1 else Some sz);
     arg2_len \<leftarrow> (if sz = 0 then pin_strlen m arg2 else Some sz);
     let t1 = BDD_CLEAR_LEN_MASK D (tagmap_getn D arg1 arg1_len);
     let t2 = BDD_CLEAR_LEN_MASK D (tagmap_getn D arg2 arg2_len);
     let (ctr, L) = get_order cid ctx L;
     let c = \<lparr>c_cid = cid, c_ctx = ctx, c_order = ctr, c_belong = 0, c_condition = PIN_FALSE_ST, c_level = 0,
              c_op = PIN_FN_OP, c_size = arg2_len, c_lb1 = t1, c_lb2 = 0, c_arg1 = 0, c_arg2 = 0\<rparr>;
     if ctr \<le> MAX_ORDER then
       if \<not> tag_is_empty D t1 then do {
         (i, L) \<leftarrow> save_cond D c L;
         save_mb m i arg1_len arg2_len arg1 arg2 L
       }
       else if \<not> tag_is_empty D t2 then do {
         (i, L) \<leftarrow> save_cond D (c\<lparr>c_size := arg1_len, c_lb1 := 0, c_lb2 := t2\<rparr>) L;
         save_mb m i arg1_len arg2_len arg1 arg2 L
       }
       else Some L
     else Some L
   }"

definition ExploitHandler :: "libdft \<Rightarrow> u32 \<Rightarrow> u32 \<Rightarrow> u32 \<Rightarrow> u32 \<Rightarrow> u64 \<Rightarrow> Logger \<Rightarrow> Logger option" where
  "ExploitHandler D cid ctx sz op v L =
     (let t = BDD_CLEAR_LEN_MASK D (tagmap_getn_reg D 4 sz); (ctr, L) = get_order cid ctx L in
      if tag_is_empty D t then Some L
      else if ctr \<le> MAX_ORDER
      then map_option snd (save_cond D \<lparr>c_cid = cid, c_ctx = ctx, c_order = ctr, c_belong = 0, c_condition = PIN_FALSE_ST, c_level = 0,
             c_op = op, c_size = sz, c_lb1 = t, c_lb2 = 0, c_arg1 = v, c_arg2 = 0\<rparr> L)
      else Some L)"

text \<open>
  The calls that \<^verbatim>\<open>EntryPoint\<close> inserts in front of the routines of \<^verbatim>\<open>pin_stub.c\<close>: the first arguments of the call in order, cut
  to the width of the parameter.  Other routines are left alone; \<open>None\<close> as well when the call has too few arguments.
\<close>

definition entry_handler :: "libdft \<Rightarrow> memory \<Rightarrow> string \<Rightarrow> u64 list \<Rightarrow> Logger \<Rightarrow> Logger option" where
  "entry_handler D m f a L =
     (if f = ''__angora_trace_cmp_tt'' then
        if length a < 7 then None else CmpHandler D (ucast (a ! 0)) (ucast (a ! 1)) (ucast (a ! 2)) (ucast (a ! 3)) (a ! 4) (a ! 5) (ucast (a ! 6)) L
      else if f = ''__angora_trace_switch_tt'' then
        if length a < 6 then None else SwHandler D m (ucast (a ! 0)) (ucast (a ! 1)) (ucast (a ! 2)) (a ! 3) (ucast (a ! 4)) (a ! 5) L
      else if f = ''__angora_trace_fn_tt'' then
        if length a < 5 then None else FnHandler D m (ucast (a ! 0)) (ucast (a ! 1)) (ucast (a ! 2)) (a ! 3) (a ! 4) L
      else if f = ''__angora_trace_exploit_val_tt'' then
        if length a < 5 then None else ExploitHandler D (ucast (a ! 0)) (ucast (a ! 1)) (ucast (a ! 2)) (ucast (a ! 3)) (a ! 4) L
      else Some L)"

text \<open>A run: each call comes with the tags and the memory at that moment.\<close>

type_synonym pin_call = "libdft \<times> memory \<times> string \<times> u64 list"

fun pin_run :: "pin_call list \<Rightarrow> Logger \<Rightarrow> Logger option" where
  "pin_run [] L = Some L"
| "pin_run ((D, m, f, a) # cs) L = do { L \<leftarrow> entry_handler D m f a L; pin_run cs L }"

definition Fini :: "c_fwrite \<Rightarrow> bool \<Rightarrow> Logger \<Rightarrow> (string + u8 list) option" where
  "Fini fwrite opened L = save_buffers fwrite opened L"

section \<open>What the log holds\<close>

text \<open>The buffers as lists of records.\<close>

type_synonym mb_rec = "u32 \<times> u32 \<times> u32 \<times> u8 list \<times> u8 list"

record pin_log =
  conds :: "CondStmt list"
  tag_recs :: "(u32 \<times> u8 list list) list"
  mbs :: "mb_rec list"

fun tag_bytes :: "u32 \<times> u8 list list \<Rightarrow> u8 list" where
  "tag_bytes (lb, t) = le32 lb @ le32 (of_nat (length t)) @ concat t"

fun mb_bytes :: "mb_rec \<Rightarrow> u8 list" where
  "mb_bytes (i, n1, n2, b1, b2) = le32 i @ le32 n1 @ le32 n2 @ b1 @ b2"

definition holds_conds :: "Logger \<Rightarrow> CondStmt list \<Rightarrow> bool" where
  "holds_conds L cs \<longleftrightarrow> buffer (cond_buf L) = concat (map cond_bytes cs) \<and> num_cond L = of_nat (length cs)"

definition holds_tags :: "Logger \<Rightarrow> (u32 \<times> u8 list list) list \<Rightarrow> bool" where
  "holds_tags L ts \<longleftrightarrow> buffer (tag_buf L) = concat (map tag_bytes ts) \<and> num_tag L = of_nat (length ts) \<and> distinct (map fst ts) \<and> lb_set L = set (map fst ts)"

definition holds_mbs :: "Logger \<Rightarrow> mb_rec list \<Rightarrow> bool" where
  "holds_mbs L ms \<longleftrightarrow> buffer (mb_buf L) = concat (map mb_bytes ms) \<and> num_mb L = of_nat (length ms)"

definition log_holds :: "Logger \<Rightarrow> pin_log \<Rightarrow> bool" where
  "log_holds L V \<longleftrightarrow> holds_conds L (conds V) \<and> holds_tags L (tag_recs V) \<and> holds_mbs L (mbs V)"

lemma push_bytes_app: "push_bytes bs b = Some b' \<Longrightarrow> buffer b' = buffer b @ bs"
  by (auto simp: push_bytes_def Let_def split: if_splits)

lemma log_holds_new: "log_holds Logger_new \<lparr>conds = [], tag_recs = [], mbs = []\<rparr>"
  by (simp add: log_holds_def holds_conds_def holds_tags_def holds_mbs_def Logger_new_def LogBuf_new_def)

lemma get_order_log [simp]: "log_holds (L\<lparr>order_map := m\<rparr>) V = log_holds L V"
  by (simp add: log_holds_def holds_conds_def holds_tags_def holds_mbs_def)

lemma save_tag_log:
  assumes "save_tag D lb L = Some L'" "holds_tags L ts"
  shows "\<exists>ts'. holds_tags L' (ts @ ts') \<and> num_cond L' = num_cond L \<and> cond_buf L' = cond_buf L \<and> num_mb L' = num_mb L \<and> mb_buf L' = mb_buf L \<and>
    order_map L' = order_map L \<and> (lb = 0 \<or> lb \<in> fst ` set (ts @ ts'))"
proof (cases "0 < lb \<and> lb \<notin> lb_set L")
  case True
  let ?t = "tag_get D lb"
  obtain b1 b2 b3 where b: "push_bytes (le32 lb) (tag_buf L) = Some b1" "push_bytes (le32 (of_nat (length ?t))) b1 = Some b2"
      "push_bytes (concat ?t) b2 = Some b3"
      and L': "L' = L\<lparr>tag_buf := b3, num_tag := num_tag L + 1, lb_set := insert lb (lb_set L)\<rparr>"
    using assms(1) True by (auto simp: save_tag_def Let_def split: if_splits bind_splits)
  have "buffer b3 = buffer (tag_buf L) @ tag_bytes (lb, ?t)" using b [THEN push_bytes_app] by simp
  then have "holds_tags L' (ts @ [(lb, ?t)])" using assms(2) True by (auto simp: holds_tags_def L')
  then show ?thesis using L' by (intro exI [of _ "[(lb, ?t)]"]) simp
next
  case False
  then have "L' = L" using assms(1) by (auto simp: save_tag_def split: if_splits)
  moreover have "lb = 0 \<or> lb \<in> fst ` set ts" using False assms(2) by (auto simp: holds_tags_def word_gt_0)
  ultimately show ?thesis using assms(2) by (intro exI [of _ "[]"]) simp
qed

text \<open>A condition is appended, with the tags of its labels.\<close>

lemma save_cond_log:
  assumes "save_cond D c L = Some (i, L')" "log_holds L V"
  shows "\<exists>ts. log_holds L' (V\<lparr>conds := conds V @ [c], tag_recs := tag_recs V @ ts\<rparr>) \<and> i = of_nat (length (conds V)) \<and> order_map L' = order_map L \<and>
    (\<forall>lb\<in>{c_lb1 c, c_lb2 c}. lb = 0 \<or> lb \<in> fst ` set (tag_recs V @ ts))"
proof -
  let ?L = "L\<lparr>num_cond := num_cond L + 1\<rparr>"
  obtain L1 L2 b where s: "save_tag D (c_lb1 c) ?L = Some L1" "save_tag D (c_lb2 c) L1 = Some L2" "push_bytes (cond_bytes c) (cond_buf L2) = Some b"
      and L': "L' = L2\<lparr>cond_buf := b\<rparr>" "i = num_cond L"
    using assms(1) by (auto simp: save_cond_def Let_def split: bind_splits)
  have h: "holds_conds L (conds V)" "holds_tags ?L (tag_recs V)" "holds_mbs L (mbs V)" using assms(2) by (simp_all add: log_holds_def holds_tags_def)
  obtain t1 where t1: "holds_tags L1 (tag_recs V @ t1)" "num_cond L1 = num_cond L + 1" "cond_buf L1 = cond_buf L" "num_mb L1 = num_mb L" "mb_buf L1 = mb_buf L"
      "order_map L1 = order_map L" "c_lb1 c = 0 \<or> c_lb1 c \<in> fst ` set (tag_recs V @ t1)"
    using save_tag_log [OF s(1) h(2)] by auto
  obtain t2 where t2: "holds_tags L2 ((tag_recs V @ t1) @ t2)" "num_cond L2 = num_cond L1" "cond_buf L2 = cond_buf L1" "num_mb L2 = num_mb L1" "mb_buf L2 = mb_buf L1"
      "order_map L2 = order_map L1" "c_lb2 c = 0 \<or> c_lb2 c \<in> fst ` set ((tag_recs V @ t1) @ t2)"
    using save_tag_log [OF s(2) t1(1)] by auto
  have "holds_conds L' (conds V @ [c])" using h(1) t1 t2 push_bytes_app [OF s(3)] by (simp add: holds_conds_def L')
  moreover have "holds_tags L' (tag_recs V @ t1 @ t2)" using t2(1) by (simp add: holds_tags_def L')
  moreover have "holds_mbs L' (mbs V)" using h(3) t1 t2 by (simp add: holds_mbs_def L')
  ultimately have "log_holds L' (V\<lparr>conds := conds V @ [c], tag_recs := tag_recs V @ t1 @ t2\<rparr>)" by (simp add: log_holds_def)
  then show ?thesis using t1(6,7) t2(6,7) L' h(1) by (intro exI [of _ "t1 @ t2"]) (auto simp: holds_conds_def)
qed

lemma save_mb_log:
  assumes "save_mb m i n1 n2 a1 a2 L = Some L'" "log_holds L V"
  shows "log_holds L' (V\<lparr>mbs := mbs V @ (if i = 0 then [] else [(i, n1, n2, pushed m a1 n1, pushed m a2 n2)])\<rparr>) \<and> order_map L' = order_map L"
proof (cases "i = 0")
  case True
  then show ?thesis using assms by (simp add: save_mb_def)
next
  case False
  then obtain b1 b2 b3 b4 b5 where b: "push_bytes (le32 i) (mb_buf L) = Some b1" "push_bytes (le32 n1) b1 = Some b2" "push_bytes (le32 n2) b2 = Some b3"
      "push_bytes (pushed m a1 n1) b3 = Some b4" "push_bytes (pushed m a2 n2) b4 = Some b5" and L': "L' = L\<lparr>mb_buf := b5, num_mb := num_mb L + 1\<rparr>"
    using assms(1) by (auto simp: save_mb_def word_gt_0 split: bind_splits)
  have "buffer b5 = buffer (mb_buf L) @ mb_bytes (i, n1, n2, pushed m a1 n1, pushed m a2 n2)" using b [THEN push_bytes_app] by simp
  then show ?thesis using assms(2) False by (simp add: log_holds_def holds_conds_def holds_tags_def holds_mbs_def L')
qed

section \<open>Handlers on the records\<close>

text \<open>What a handler appends: conditions whose labels have a tag, and magic bytes of conditions on calls of comparison functions.\<close>

fun magic_of :: "CondStmt list \<Rightarrow> mb_rec \<Rightarrow> bool" where
  "magic_of cs (i, _) \<longleftrightarrow> (\<exists>k<length cs. i = of_nat k \<and> 0 < k \<and> c_op (cs ! k) = PIN_FN_OP)"

definition tagged :: "pin_log \<Rightarrow> CondStmt \<Rightarrow> bool" where
  "tagged V c \<longleftrightarrow> (\<forall>lb\<in>{c_lb1 c, c_lb2 c}. lb = 0 \<or> lb \<in> fst ` set (tag_recs V))"

definition appended :: "CondStmt list \<Rightarrow> pin_log \<Rightarrow> pin_log \<Rightarrow> bool" where
  "appended new V V' \<longleftrightarrow> conds V' = conds V @ new \<and> (\<exists>ts. tag_recs V' = tag_recs V @ ts) \<and> list_all (tagged V') new \<and>
     (\<exists>ms. mbs V' = mbs V @ ms \<and> list_all (magic_of (conds V')) ms)"

lemma magic_of_app: "magic_of cs x \<Longrightarrow> magic_of (cs @ ds) x"
proof (cases x)
  case (fields i n1 n2 b1 b2)
  assume "magic_of cs x"
  then obtain k where "k < length cs" "i = of_nat k" "0 < k" "c_op (cs ! k) = PIN_FN_OP" by (auto simp: fields)
  then show ?thesis by (auto simp: fields nth_append intro!: exI [of _ k])
qed

lemma appended_refl: "appended [] V V"
  by (auto simp: appended_def)

lemma appended_trans:
  assumes "appended a V V1" "appended b V1 V2"
  shows "appended (a @ b) V V2"
proof -
  have "set (tag_recs V1) \<subseteq> set (tag_recs V2)" using assms(2) by (auto simp: appended_def)
  then have "tagged V1 c \<Longrightarrow> tagged V2 c" for c unfolding tagged_def by (meson image_mono subsetD)
  then have "list_all (tagged V2) a" using assms(1) by (auto simp: appended_def list_all_iff)
  moreover have "list_all (magic_of (conds V2)) ms" if "list_all (magic_of (conds V1)) ms" for ms
    using that assms(2) by (auto simp: appended_def list_all_iff intro: magic_of_app)
  ultimately show ?thesis using assms by (auto simp: appended_def)
qed

lemma save_cond_appends:
  assumes "save_cond D c L = Some (i, L')" "log_holds L V"
  obtains V' where "log_holds L' V'" "appended [c] V V'" "order_map L' = order_map L" "i = of_nat (length (conds V))" "mbs V' = mbs V"
  using save_cond_log [OF assms] by (force simp: appended_def tagged_def intro: that)

lemma save_mb_appends:
  assumes "save_mb m i n1 n2 a1 a2 L = Some L'" "log_holds L V" "conds V = cs @ [c]" "i = of_nat (length cs)" "c_op c = PIN_FN_OP"
  obtains V' where "log_holds L' V'" "appended [] V V'" "order_map L' = order_map L"
proof -
  let ?ms = "if i = 0 then [] else [(i, n1, n2, pushed m a1 n1, pushed m a2 n2)]"
  have "list_all (magic_of (conds V)) ?ms" using assms(3-5) by (auto intro!: exI [of _ "length cs"] simp: nth_append)
  then have "appended [] V (V\<lparr>mbs := mbs V @ ?ms\<rparr>)" by (auto simp: appended_def)
  then show ?thesis using save_mb_log [OF assms(1,2)] that by blast
qed

text \<open>The conditions of one call share the counter of the call in the low half of their order, and differ in the high half.\<close>

definition numbered :: "u32 \<Rightarrow> u32 \<Rightarrow> u32 \<Rightarrow> CondStmt list \<Rightarrow> bool" where
  "numbered cid ctx ctr new \<longleftrightarrow> (new \<noteq> [] \<longrightarrow> ctr \<le> MAX_ORDER) \<and> distinct (map c_order new) \<and>
     list_all (\<lambda>c. c_cid c = cid \<and> c_ctx c = ctx \<and> take_bit 16 (c_order c) = ctr) new"

definition handled :: "u32 \<Rightarrow> u32 \<Rightarrow> Logger \<Rightarrow> pin_log \<Rightarrow> Logger \<Rightarrow> bool" where
  "handled cid ctx L V L' \<longleftrightarrow> (\<exists>V' new. log_holds L' V' \<and> appended new V V' \<and> numbered cid ctx (fst (get_order cid ctx L)) new \<and>
     order_map L' = order_map (snd (get_order cid ctx L)))"

lemma take_bit_order: "ctr \<le> 16 \<Longrightarrow> take_bit 16 (ctr + push_bit 16 w) = (ctr :: u32)"
  by (rule low_half_add) (simp add: word_le_nat_alt)

lemma numbered_empty [simp]: "numbered cid ctx ctr []"
  by (simp add: numbered_def)

lemma numbered_single:
  assumes "ctr \<le> MAX_ORDER" "c_cid c = cid" "c_ctx c = ctx" "c_order c = ctr + push_bit 16 w"
  shows "numbered cid ctx ctr [c]"
  using assms take_bit_order [of ctr w] by (simp add: numbered_def MAX_ORDER_def)

lemma get_order_holds: "get_order cid ctx L = (ctr, L1) \<Longrightarrow> log_holds L1 V = log_holds L V"
  by (auto simp: get_order_def Let_def)

lemma handledI:
  assumes "get_order cid ctx L = (ctr, L1)" "log_holds L' V'" "appended new V V'" "numbered cid ctx ctr new" "order_map L' = order_map L1"
  shows "handled cid ctx L V L'"
  using assms by (auto simp: handled_def)

lemma ExploitHandler_log:
  assumes "ExploitHandler D cid ctx sz op v L = Some L'" "log_holds L V"
  shows "handled cid ctx L V L'"
proof -
  obtain ctr L1 where o: "get_order cid ctx L = (ctr, L1)" by fastforce
  then have L1: "log_holds L1 V" using get_order_holds assms(2) by blast
  let ?c = "\<lparr>c_cid = cid, c_ctx = ctx, c_order = ctr, c_belong = 0, c_condition = PIN_FALSE_ST, c_level = 0,
     c_op = op, c_size = sz, c_lb1 = BDD_CLEAR_LEN_MASK D (tagmap_getn_reg D 4 sz), c_lb2 = 0, c_arg1 = v, c_arg2 = 0\<rparr>"
  consider "L' = L1" | i where "save_cond D ?c L1 = Some (i, L')" "ctr \<le> MAX_ORDER"
    using assms(1) by (auto simp: ExploitHandler_def o Let_def split: if_splits)
  then show ?thesis
  proof cases
    case 1
    then show ?thesis using handledI [OF o _ appended_refl] L1 by simp
  next
    case (2 i)
    then have "numbered cid ctx ctr [?c]" by (intro numbered_single [where w = 0]) simp_all
    then show ?thesis using handledI [OF o] save_cond_appends [OF 2(1) L1] by metis
  qed
qed

lemma CmpHandler_log:
  assumes "CmpHandler D cid ctx sz op a1 a2 cond L = Some L'" "log_holds L V"
  shows "handled cid ctx L V L'"
proof -
  obtain ctr L1 where o: "get_order cid ctx L = (ctr, L1)" by fastforce
  then have L1: "log_holds L1 V" using get_order_holds assms(2) by blast
  define hl where "hl \<longleftrightarrow> BDD_HAS_LEN_LB D (tagmap_getn_reg D 4 sz) \<or> BDD_HAS_LEN_LB D (tagmap_getn_reg D 5 sz)"
  let ?t = "\<lambda>r. if hl then BDD_CLEAR_LEN_MASK D (tagmap_getn_reg D r sz) else tagmap_getn_reg D r sz"
  let ?n = "\<lparr>c_cid = cid, c_ctx = ctx, c_order = ctr + 0x10000, c_belong = 0, c_condition = cond, c_level = 0,
     c_op = PIN_LEN_OP, c_size = sz, c_lb1 = 0, c_lb2 = 1, c_arg1 = a1, c_arg2 = a2\<rparr>"
  let ?c = "\<lparr>c_cid = cid, c_ctx = ctx, c_order = ctr, c_belong = 0, c_condition = cond, c_level = 0,
     c_op = op, c_size = sz, c_lb1 = ?t 4, c_lb2 = ?t 5, c_arg1 = a1, c_arg2 = a2\<rparr>"
  obtain L2 where L2: "(if hl \<and> ctr \<le> MAX_ORDER then map_option snd (save_cond D ?n L1) else Some L1) = Some L2"
      "(if tag_is_empty D (?t 4) \<and> tag_is_empty D (?t 5) then Some L2 else if ctr \<le> MAX_ORDER then map_option snd (save_cond D ?c L2) else Some L2) = Some L'"
    using assms(1) unfolding CmpHandler_def hl_def o Let_def prod.case by (auto split: bind_splits)
  have "\<exists>V1 xs. log_holds L2 V1 \<and> appended xs V V1 \<and> order_map L2 = order_map L1 \<and> (xs = [] \<or> xs = [?n] \<and> ctr \<le> MAX_ORDER)"
  proof (cases "hl \<and> ctr \<le> MAX_ORDER")
    case True
    then obtain i where "save_cond D ?n L1 = Some (i, L2)" using L2(1) by auto
    then show ?thesis using save_cond_appends [OF _ L1] True by metis
  next
    case False
    then have "L2 = L1" using L2(1) by auto
    then show ?thesis using L1 by (intro exI [of _ V] exI [of _ "[]"]) (simp add: appended_refl)
  qed
  then obtain V1 xs where V1: "log_holds L2 V1" "appended xs V V1" "order_map L2 = order_map L1" "xs = [] \<or> xs = [?n] \<and> ctr \<le> MAX_ORDER" by blast
  have "\<exists>V2 ys. log_holds L' V2 \<and> appended ys V1 V2 \<and> order_map L' = order_map L2 \<and> (ys = [] \<or> ys = [?c] \<and> ctr \<le> MAX_ORDER)"
  proof (cases "\<not> (tag_is_empty D (?t 4) \<and> tag_is_empty D (?t 5)) \<and> ctr \<le> MAX_ORDER")
    case True
    then obtain i where "save_cond D ?c L2 = Some (i, L')" using L2(2) by (auto split: if_splits)
    then show ?thesis using save_cond_appends [OF _ V1(1)] True by metis
  next
    case False
    then have "L' = L2" using L2(2) by (auto split: if_splits)
    then show ?thesis using V1(1) by (intro exI [of _ V1] exI [of _ "[]"]) (simp add: appended_refl)
  qed
  then obtain V2 ys where V2: "log_holds L' V2" "appended ys V1 V2" "order_map L' = order_map L2" "ys = [] \<or> ys = [?c] \<and> ctr \<le> MAX_ORDER" by blast
  have "ctr \<le> MAX_ORDER \<Longrightarrow> numbered cid ctx ctr [?n]" "ctr \<le> MAX_ORDER \<Longrightarrow> numbered cid ctx ctr [?c]"
    by (intro numbered_single [where w = 1]; simp) (intro numbered_single [where w = 0]; simp)
  moreover have "ctr + 0x10000 \<noteq> ctr" by simp
  ultimately have "numbered cid ctx ctr (xs @ ys)" using V1(4) V2(4) unfolding numbered_def by auto
  then show ?thesis using handledI [OF o V2(1) appended_trans [OF V1(2) V2(2)]] V1(3) V2(3) by simp
qed

lemma FnHandler_log:
  assumes "FnHandler D m cid ctx sz a1 a2 L = Some L'" "log_holds L V"
  shows "handled cid ctx L V L'"
proof -
  obtain ctr L1 where o: "get_order cid ctx L = (ctr, L1)" by fastforce
  then have L1: "log_holds L1 V" using get_order_holds assms(2) by blast
  consider "L' = L1"
    | c i n1 n2 L2 where "save_cond D c L1 = Some (i, L2)" "save_mb m i n1 n2 a1 a2 L2 = Some L'" "ctr \<le> MAX_ORDER" "c_cid c = cid" "c_ctx c = ctx"
        "c_order c = ctr" "c_op c = PIN_FN_OP"
    using assms(1) unfolding FnHandler_def o Let_def prod.case by (auto split: bind_splits if_splits)
  then show ?thesis
  proof cases
    case 1
    then show ?thesis using handledI [OF o _ appended_refl] L1 by simp
  next
    case (2 c i n1 n2 L2)
    obtain V1 where V1: "log_holds L2 V1" "appended [c] V V1" "order_map L2 = order_map L1" "i = of_nat (length (conds V))"
      using save_cond_appends [OF 2(1) L1] by blast
    obtain V2 where V2: "log_holds L' V2" "appended [] V1 V2" "order_map L' = order_map L2"
      by (rule save_mb_appends [OF 2(2) V1(1), of "conds V" c]) (use V1 2 in \<open>simp_all add: appended_def\<close>)
    have "numbered cid ctx ctr [c]" using 2 by (intro numbered_single [where w = 0]) simp_all
    then show ?thesis using handledI [OF o V2(1), of "[c]"] appended_trans [OF V1(2) V2(2)] V1(3) V2(3) by simp
  qed
qed

lemma save_cases_log:
  assumes "save_cases D m args ctr c is L = Some L'" "log_holds L V"
  shows "\<exists>V' new. log_holds L' V' \<and> appended new V V' \<and> order_map L' = order_map L \<and> map c_order new = map (\<lambda>i. ctr + push_bit 16 (of_nat i)) is \<and>
    list_all (\<lambda>d. c_cid d = c_cid c \<and> c_ctx d = c_ctx c) new"
  using assms
proof (induction "is" arbitrary: L V c)
  case Nil
  then show ?case using appended_refl by (auto intro!: exI [of _ V] exI [of _ "[]"])
next
  case (Cons i "is")
  let ?a = "load_u64 m (args + 8 * of_nat i)"
  let ?c = "c\<lparr>c_order := ctr + push_bit 16 (of_nat i), c_arg2 := ?a, c_condition := (if c_arg1 c = ?a then PIN_DONE_ST else PIN_FALSE_ST)\<rparr>"
  obtain k L1 where s: "save_cond D ?c L = Some (k, L1)" "save_cases D m args ctr ?c is L1 = Some L'"
    using Cons.prems(1) by (auto simp: Let_def split: bind_splits)
  obtain V1 where V1: "log_holds L1 V1" "appended [?c] V V1" "order_map L1 = order_map L" using save_cond_appends [OF s(1) Cons.prems(2)] by blast
  obtain V2 new where V2: "log_holds L' V2" "appended new V1 V2" "order_map L' = order_map L1" "map c_order new = map (\<lambda>i. ctr + push_bit 16 (of_nat i)) is"
      "list_all (\<lambda>d. c_cid d = c_cid ?c \<and> c_ctx d = c_ctx ?c) new"
    using Cons.IH [OF s(2) V1(1)] by blast
  show ?case using V2 V1(3) appended_trans [OF V1(2) V2(2)] by (intro exI [of _ V2] exI [of _ "?c # new"]) simp
qed

lemma SwHandler_log:
  assumes "SwHandler D m cid ctx sz cond num args L = Some L'" "log_holds L V" "unat num \<le> 65536"
  shows "handled cid ctx L V L'"
proof -
  obtain ctr L1 where o: "get_order cid ctx L = (ctr, L1)" by fastforce
  then have L1: "log_holds L1 V" using get_order_holds assms(2) by blast
  define c where "c = \<lparr>c_cid = cid, c_ctx = ctx, c_order = ctr, c_belong = 0, c_condition = PIN_FALSE_ST, c_level = 0,
     c_op = PIN_SW_OP, c_size = sz, c_lb1 = BDD_CLEAR_LEN_MASK D (tagmap_getn_reg D 3 sz), c_lb2 = 0, c_arg1 = cond, c_arg2 = 0\<rparr>"
  have c: "c_cid c = cid" "c_ctx c = ctx" by (simp_all add: c_def)
  have "L' = L1 \<or> save_cases D m args ctr c [0..<unat num] L1 = Some L' \<and> ctr \<le> MAX_ORDER"
    using assms(1) unfolding SwHandler_def o Let_def prod.case c_def [symmetric] by (simp split: if_splits)
  then consider "L' = L1" | "save_cases D m args ctr c [0..<unat num] L1 = Some L'" "ctr \<le> MAX_ORDER" by blast
  then show ?thesis
  proof cases
    case 1
    then show ?thesis using handledI [OF o _ appended_refl] L1 by simp
  next
    case 2
    obtain V' new where V': "log_holds L' V'" "appended new V V'" "order_map L' = order_map L1"
        "map c_order new = map (\<lambda>i. ctr + push_bit 16 (of_nat i)) [0..<unat num]" "list_all (\<lambda>d. c_cid d = cid \<and> c_ctx d = ctx) new"
      using save_cases_log [OF 2(1) L1] unfolding c by blast
    have "take_bit 16 x = ctr" if "x \<in> set (map c_order new)" for x
      using that take_bit_order [of ctr] 2(2) unfolding V'(4) by (auto simp: MAX_ORDER_def)
    then have "numbered cid ctx ctr new"
      using V'(5) 2(2) distinct_high_half [OF assms(3), of ctr] unfolding V'(4) [symmetric] numbered_def by (auto simp: list_all_iff)
    then show ?thesis using handledI [OF o V'(1,2)] V'(3) by simp
  qed
qed

section \<open>Runs\<close>

definition cond_id :: "CondStmt \<Rightarrow> u32 \<times> u32 \<times> u32" where
  "cond_id c = (c_cid c, c_ctx c, c_order c)"

definition pin_inv :: "nat \<Rightarrow> Logger \<Rightarrow> pin_log \<Rightarrow> bool" where
  "pin_inv n L V \<longleftrightarrow> log_holds L V \<and> (\<forall>key k. order_map L key = Some k \<longrightarrow> unat k \<le> n) \<and>
     (\<forall>c\<in>set (conds V). take_bit 16 (c_order c) \<le> MAX_ORDER \<and>
        (\<exists>k. order_map L (order_key (c_cid c) (c_ctx c)) = Some k \<and> take_bit 16 (c_order c) \<le> k)) \<and>
     distinct (map cond_id (conds V)) \<and> list_all (tagged V) (conds V) \<and> list_all (magic_of (conds V)) (mbs V)"

lemma get_order_fresh:
  assumes "\<forall>key k. order_map L key = Some k \<longrightarrow> unat k \<le> n" "Suc n < 2 ^ 32" "get_order cid ctx L = (ctr, L1)"
  shows "unat ctr \<le> Suc n" "order_map L1 = (order_map L)(order_key cid ctx \<mapsto> ctr)" "\<And>k. order_map L (order_key cid ctx) = Some k \<Longrightarrow> k < ctr"
proof -
  show "order_map L1 = (order_map L)(order_key cid ctx \<mapsto> ctr)" using assms(3) by (auto simp: get_order_def Let_def)
  have s: "unat (k + 1) = unat k + 1" if "order_map L key = Some k" for key k
  proof -
    have "unat k + 1 < 2 ^ 32" using assms(1,2) that by fastforce
    then show ?thesis by (simp add: unat_word_ariths)
  qed
  then show "k < ctr" if "order_map L (order_key cid ctx) = Some k" for k
    using that assms(3) by (auto simp: get_order_def Let_def word_less_nat_alt)
  show "unat ctr \<le> Suc n" using assms(1,3) s by (fastforce simp: get_order_def Let_def split: option.splits)
qed

lemma handled_inv:
  assumes "handled cid ctx L V L'" "pin_inv n L V" "Suc n < 2 ^ 32"
  shows "\<exists>V'. pin_inv (Suc n) L' V'"
proof -
  obtain ctr L1 where o: "get_order cid ctx L = (ctr, L1)" by fastforce
  obtain V' new where V': "log_holds L' V'" "appended new V V'" "numbered cid ctx ctr new" "order_map L' = order_map L1"
    using assms(1) by (auto simp: handled_def o)
  have i: "\<forall>key k. order_map L key = Some k \<longrightarrow> unat k \<le> n"
      "\<forall>c\<in>set (conds V). take_bit 16 (c_order c) \<le> MAX_ORDER \<and> (\<exists>k. order_map L (order_key (c_cid c) (c_ctx c)) = Some k \<and> take_bit 16 (c_order c) \<le> k)"
      "distinct (map cond_id (conds V))" "list_all (tagged V) (conds V)" "list_all (magic_of (conds V)) (mbs V)"
    using assms(2) by (simp_all add: pin_inv_def)
  note f = get_order_fresh [OF i(1) assms(3) o]
  have c: "conds V' = conds V @ new" using V'(2) by (simp add: appended_def)
  have new: "take_bit 16 (c_order d) = ctr \<and> c_cid d = cid \<and> c_ctx d = ctx \<and> ctr \<le> MAX_ORDER" if "d \<in> set new" for d
    using V'(3) that by (auto simp: numbered_def list_all_iff)
  have old: "order_map L' (order_key (c_cid d) (c_ctx d)) \<noteq> None \<and> take_bit 16 (c_order d) \<le> the (order_map L' (order_key (c_cid d) (c_ctx d)))"
      if "d \<in> set (conds V)" for d
    using i(2) that f(2,3) V'(4) by (cases "order_key (c_cid d) (c_ctx d) = order_key cid ctx") (fastforce intro: order_trans)+
  have apart: "cond_id d \<noteq> cond_id e" if "d \<in> set (conds V)" "e \<in> set new" for d e
  proof
    assume eq: "cond_id d = cond_id e"
    then have "c_cid d = cid" "c_ctx d = ctx" "take_bit 16 (c_order d) = ctr" using new [OF that(2)] by (auto simp: cond_id_def)
    then show False using i(2) that(1) f(3) by fastforce
  qed
  have dn: "distinct (map cond_id new)" using V'(3) by (auto simp: numbered_def distinct_map inj_on_def cond_id_def)
  have "appended (conds V @ new) \<lparr>conds = [], tag_recs = [], mbs = []\<rparr> V'"
    by (rule appended_trans [OF _ V'(2)]) (use i(4,5) in \<open>simp add: appended_def\<close>)
  then have "list_all (tagged V') (conds V')" "list_all (magic_of (conds V')) (mbs V')" by (auto simp: appended_def c)
  moreover have "distinct (map cond_id (conds V'))" using i(3) dn apart unfolding c map_append distinct_append set_map by blast
  moreover have "unat k \<le> Suc n" if "order_map L' key = Some k" for key k
    using that i(1) f(1,2) V'(4) by (auto split: if_splits simp: le_SucI)
  moreover have "take_bit 16 (c_order d) \<le> MAX_ORDER \<and> (\<exists>k. order_map L' (order_key (c_cid d) (c_ctx d)) = Some k \<and> take_bit 16 (c_order d) \<le> k)"
    if "d \<in> set (conds V')" for d
    using that old [of d] new [of d] i(2) f(2) V'(4) by (auto simp: c)
  ultimately show ?thesis using V'(1) by (auto simp: pin_inv_def)
qed

text \<open>No switch has more than 65536 cases: the number of a case is kept in 16 bits of the order.\<close>

fun small_switch :: "pin_call \<Rightarrow> bool" where
  "small_switch (D, m, f, a) \<longleftrightarrow> (f = ''__angora_trace_switch_tt'' \<longrightarrow> unat (ucast (a ! 4) :: u32) \<le> 65536)"

lemma entry_handler_inv:
  assumes "entry_handler D m f a L = Some L'" "pin_inv n L V" "Suc n < 2 ^ 32" "small_switch (D, m, f, a)"
  shows "\<exists>V'. pin_inv (Suc n) L' V'"
proof -
  have h: "log_holds L V" using assms(2) by (simp add: pin_inv_def)
  have "L' = L \<or> (\<exists>cid ctx. handled cid ctx L V L')"
    using assms(1,4) CmpHandler_log [OF _ h] SwHandler_log [OF _ h] FnHandler_log [OF _ h] ExploitHandler_log [OF _ h]
    by (fastforce simp: entry_handler_def split: if_splits)
  then show ?thesis
  proof
    assume "L' = L"
    then show ?thesis using assms(2) by (auto simp: pin_inv_def le_SucI)
  next
    assume "\<exists>cid ctx. handled cid ctx L V L'"
    then show ?thesis using handled_inv assms(2,3) by blast
  qed
qed

lemma pin_run_inv:
  "pin_run cs L = Some L' \<Longrightarrow> pin_inv n L V \<Longrightarrow> n + length cs < 2 ^ 32 \<Longrightarrow> list_all small_switch cs \<Longrightarrow> \<exists>V'. pin_inv (n + length cs) L' V'"
proof (induction cs arbitrary: L V n)
  case (Cons x cs)
  obtain D m f a where x: "x = (D, m, f, a)" by (cases x)
  obtain L1 where L1: "entry_handler D m f a L = Some L1" "pin_run cs L1 = Some L'" using Cons.prems(1) by (auto simp: x split: bind_splits)
  obtain V1 where "pin_inv (Suc n) L1 V1" using entry_handler_inv [OF L1(1) Cons.prems(2)] Cons.prems(3,4) by (auto simp: x)
  then show ?case using Cons.IH [OF L1(2)] Cons.prems(3,4) by force
qed auto

section \<open>The file\<close>

text \<open>Writing that never fails.\<close>

definition plain_fwrite :: c_fwrite where
  "plain_fwrite f bs = (True, f @ bs)"

definition file_bytes :: "pin_log \<Rightarrow> u8 list" where
  "file_bytes V = le32 (of_nat (length (conds V))) @ le32 (of_nat (length (tag_recs V))) @ le32 (of_nat (length (mbs V))) @
     concat (map cond_bytes (conds V)) @ concat (map tag_bytes (tag_recs V)) @ concat (map mb_bytes (mbs V))"

lemma write_file_plain: "write_file plain_fwrite b f = Inr (f @ buffer b)"
  by (simp add: write_file_def plain_fwrite_def)

lemma Fini_file: "log_holds L V \<Longrightarrow> Fini plain_fwrite True L = Some (Inr (file_bytes V))"
  by (simp add: Fini_def save_buffers_def write_file_plain Let_def file_bytes_def log_holds_def holds_conds_def holds_tags_def holds_mbs_def)
    (simp add: plain_fwrite_def)

text \<open>C29. The log of a run under Pin: when the run does not abort, has fewer than $2^{32}$ calls and no switch of more than 65536 cases,
  the file written at the end consists of the numbers of records and the records of the conditions, tags and magic bytes;
  no two conditions have the same comparison, context and order, the low half of every order is at most 16, every label
  of a condition has exactly one tag record, and magic bytes belong to a condition on a comparison function.\<close>

theorem pin_log_invariant:
  assumes "pin_run cs Logger_new = Some L" "length cs < 2 ^ 32" "list_all small_switch cs"
  shows "\<exists>V. Fini plain_fwrite True L = Some (Inr (file_bytes V)) \<and> distinct (map cond_id (conds V)) \<and>
    (\<forall>c\<in>set (conds V). take_bit 16 (c_order c) \<le> MAX_ORDER) \<and> distinct (map fst (tag_recs V)) \<and>
    list_all (tagged V) (conds V) \<and> list_all (magic_of (conds V)) (mbs V)"
proof -
  have "pin_inv 0 Logger_new \<lparr>conds = [], tag_recs = [], mbs = []\<rparr>" using log_holds_new by (simp add: pin_inv_def Logger_new_def)
  then obtain V where "pin_inv (length cs) L V" using pin_run_inv [OF assms(1), of 0] assms(2,3) by auto
  then show ?thesis using Fini_file by (auto simp: pin_inv_def log_holds_def holds_tags_def)
qed

section \<open>Runs without an abort\<close>

text \<open>A buffer is doubled at most once per push, so that a push of up to \<open>BUF_LEN\<close> bytes always fits.\<close>

definition buf_ok :: "LogBuf \<Rightarrow> bool" where
  "buf_ok b \<longleftrightarrow> length (buffer b) \<le> cap b \<and> BUF_LEN \<le> cap b"

definition logger_ok :: "Logger \<Rightarrow> bool" where
  "logger_ok L \<longleftrightarrow> buf_ok (cond_buf L) \<and> buf_ok (tag_buf L) \<and> buf_ok (mb_buf L)"

definition libdft_ok :: "libdft \<Rightarrow> bool" where
  "libdft_ok D \<longleftrightarrow> (\<forall>t. \<not> BDD_HAS_LEN_LB D (BDD_CLEAR_LEN_MASK D t)) \<and> \<not> BDD_HAS_LEN_LB D 0 \<and> \<not> BDD_HAS_LEN_LB D 1 \<and>
     (\<forall>lb. length (concat (tag_get D lb)) \<le> BUF_LEN)"

lemma push_bytes_fails_iff:
  assumes "buf_ok b"
  shows "push_bytes bs b = None \<longleftrightarrow> bs \<noteq> [] \<and> 2 * cap b < length (buffer b) + length bs"
  using assms by (auto simp: push_bytes_def Let_def buf_ok_def)

lemma push_bytes_ok: "push_bytes bs b = Some b' \<Longrightarrow> buf_ok b \<Longrightarrow> buf_ok b'"
  by (auto simp: push_bytes_def Let_def buf_ok_def split: if_splits)

lemma push_bytes_total:
  assumes "buf_ok b" "length bs \<le> BUF_LEN"
  shows "\<exists>b'. push_bytes bs b = Some b' \<and> buf_ok b'"
proof -
  have "push_bytes bs b \<noteq> None" unfolding push_bytes_fails_iff [OF assms(1)] using assms by (auto simp: buf_ok_def)
  then show ?thesis using push_bytes_ok assms(1) by blast
qed

lemma record_sizes [simp]: "length (le32 w) = 4" "length (le64 v) = 8" "length (cond_bytes c) = 56"
  by (simp_all add: le32_def le64_def cond_bytes_def)

lemma BUF_LEN_large: "56 \<le> BUF_LEN" "4 \<le> BUF_LEN"
  by (simp_all add: BUF_LEN_def)

text \<open>Totality of the operations: they return a logger with sound buffers.\<close>

definition returns :: "'a option \<Rightarrow> ('a \<Rightarrow> bool) \<Rightarrow> bool" where
  "returns r P \<longleftrightarrow> (\<exists>x. r = Some x \<and> P x)"

lemma returns_Some [simp]: "returns (Some x) P = P x"
  by (simp add: returns_def)

lemma returns_bind: "returns r Q \<Longrightarrow> (\<And>x. Q x \<Longrightarrow> returns (f x) P) \<Longrightarrow> returns (r \<bind> f) P"
  by (auto simp: returns_def)

lemma returns_push: "buf_ok b \<Longrightarrow> length bs \<le> BUF_LEN \<Longrightarrow> returns (push_bytes bs b) buf_ok"
  using push_bytes_total by (simp add: returns_def)

lemma save_tag_returns:
  assumes "libdft_ok D" "\<not> BDD_HAS_LEN_LB D lb" "logger_ok L"
  shows "returns (save_tag D lb L) logger_ok"
proof -
  have "length (concat (tag_get D lb)) \<le> BUF_LEN" using assms(1) by (simp add: libdft_ok_def)
  then show ?thesis using assms(2,3) BUF_LEN_large
    by (auto simp: save_tag_def Let_def logger_ok_def intro!: returns_bind [OF returns_push])
qed

lemma save_cond_returns:
  assumes "libdft_ok D" "\<not> BDD_HAS_LEN_LB D (c_lb1 c)" "\<not> BDD_HAS_LEN_LB D (c_lb2 c)" "logger_ok L"
  shows "returns (save_cond D c L) (\<lambda>(i, L). logger_ok L)"
  unfolding save_cond_def Let_def
proof (rule returns_bind [OF save_tag_returns [OF assms(1,2)]])
  show "logger_ok (L\<lparr>num_cond := num_cond L + 1\<rparr>)" using assms(4) by (simp add: logger_ok_def)
  fix L1 assume "logger_ok L1"
  then show "returns (save_tag D (c_lb2 c) L1 \<bind> (\<lambda>L. push_bytes (cond_bytes c) (cond_buf L) \<bind> (\<lambda>b. Some (num_cond La, L\<lparr>cond_buf := b\<rparr>))))
      (\<lambda>(i, L). logger_ok L)" for La
    using BUF_LEN_large by (auto intro!: returns_bind [OF save_tag_returns [OF assms(1,3)]] returns_bind [OF returns_push] simp: logger_ok_def)
qed

lemma save_cond_snd_returns:
  assumes "libdft_ok D" "\<not> BDD_HAS_LEN_LB D (c_lb1 c)" "\<not> BDD_HAS_LEN_LB D (c_lb2 c)" "logger_ok L"
  shows "returns (map_option snd (save_cond D c L)) logger_ok"
  using save_cond_returns [OF assms] by (auto simp: returns_def)

lemma save_mb_returns:
  assumes "logger_ok L" "unat n1 \<le> BUF_LEN" "unat n2 \<le> BUF_LEN"
  shows "returns (save_mb m i n1 n2 a1 a2 L) logger_ok"
proof -
  have "length (pushed m p n) \<le> unat n" for p n by (simp add: pushed_def)
  then have "length (pushed m a1 n1) \<le> BUF_LEN" "length (pushed m a2 n2) \<le> BUF_LEN" using assms(2,3) order_trans by blast+
  then show ?thesis using assms(1) BUF_LEN_large
    by (auto simp: save_mb_def logger_ok_def intro!: returns_bind [OF returns_push])
qed

lemma get_order_ok: "logger_ok L \<Longrightarrow> get_order cid ctx L = (ctr, L1) \<Longrightarrow> logger_ok L1"
  by (auto simp: get_order_def Let_def logger_ok_def)

lemma CmpHandler_returns:
  assumes "libdft_ok D" "logger_ok L"
  shows "returns (CmpHandler D cid ctx sz op a1 a2 cond L) logger_ok"
proof -
  obtain ctr L1 where o: "get_order cid ctx L = (ctr, L1)" by fastforce
  then have L1: "logger_ok L1" using get_order_ok assms(2) by blast
  have d: "\<not> BDD_HAS_LEN_LB D 0" "\<not> BDD_HAS_LEN_LB D 1" "\<And>t. \<not> BDD_HAS_LEN_LB D (BDD_CLEAR_LEN_MASK D t)" using assms(1) by (simp_all add: libdft_ok_def)
  show ?thesis unfolding CmpHandler_def o Let_def prod.case
    by (rule returns_bind [where Q = logger_ok]) (auto simp: L1 d intro!: save_cond_snd_returns [OF assms(1)])
qed

lemma ExploitHandler_returns:
  assumes "libdft_ok D" "logger_ok L"
  shows "returns (ExploitHandler D cid ctx sz op v L) logger_ok"
proof -
  obtain ctr L1 where o: "get_order cid ctx L = (ctr, L1)" by fastforce
  then have L1: "logger_ok L1" using get_order_ok assms(2) by blast
  have d: "\<not> BDD_HAS_LEN_LB D 0" "\<And>t. \<not> BDD_HAS_LEN_LB D (BDD_CLEAR_LEN_MASK D t)" using assms(1) by (simp_all add: libdft_ok_def)
  show ?thesis unfolding ExploitHandler_def o Let_def prod.case by (auto simp: L1 d intro!: save_cond_snd_returns [OF assms(1)])
qed

lemma save_cases_returns:
  assumes "libdft_ok D" "\<not> BDD_HAS_LEN_LB D (c_lb1 c)" "\<not> BDD_HAS_LEN_LB D (c_lb2 c)" "logger_ok L"
  shows "returns (save_cases D m args ctr c is L) logger_ok"
  using assms(2-)
proof (induction "is" arbitrary: c L)
  case (Cons i "is")
  then show ?case unfolding save_cases.simps Let_def
    by (intro returns_bind [OF save_cond_returns [OF assms(1)]]) auto
qed simp

lemma SwHandler_returns:
  assumes "libdft_ok D" "logger_ok L"
  shows "returns (SwHandler D m cid ctx sz cond num args L) logger_ok"
proof -
  obtain ctr L1 where o: "get_order cid ctx L = (ctr, L1)" by fastforce
  then have L1: "logger_ok L1" using get_order_ok assms(2) by blast
  have d: "\<not> BDD_HAS_LEN_LB D 0" "\<And>t. \<not> BDD_HAS_LEN_LB D (BDD_CLEAR_LEN_MASK D t)" using assms(1) by (simp_all add: libdft_ok_def)
  show ?thesis unfolding SwHandler_def o Let_def prod.case by (auto simp: L1 d intro!: save_cases_returns [OF assms(1)])
qed

lemma FnHandler_returns:
  assumes "libdft_ok D" "logger_ok L" "if sz = 0 then returns (pin_strlen m a1) (\<lambda>n. unat n \<le> BUF_LEN) \<and> returns (pin_strlen m a2) (\<lambda>n. unat n \<le> BUF_LEN) else unat sz \<le> BUF_LEN"
  shows "returns (FnHandler D m cid ctx sz a1 a2 L) logger_ok"
proof -
  obtain ctr L1 where o: "get_order cid ctx L = (ctr, L1)" by fastforce
  then have L1: "logger_ok L1" using get_order_ok assms(2) by blast
  have d: "\<not> BDD_HAS_LEN_LB D 0" "\<And>t. \<not> BDD_HAS_LEN_LB D (BDD_CLEAR_LEN_MASK D t)" using assms(1) by (simp_all add: libdft_ok_def)
  have n: "returns (if sz = 0 then pin_strlen m p else Some sz) (\<lambda>n. unat n \<le> BUF_LEN)" if "p = a1 \<or> p = a2" for p
    using assms(3) that by (auto split: if_splits)
  have "returns (save_cond D c L1 \<bind> (\<lambda>(i, L). save_mb m i n1 n2 a1 a2 L)) logger_ok"
    if "\<not> BDD_HAS_LEN_LB D (c_lb1 c)" "\<not> BDD_HAS_LEN_LB D (c_lb2 c)" "unat n1 \<le> BUF_LEN" "unat n2 \<le> BUF_LEN" for c n1 n2
    using that by (intro returns_bind [OF save_cond_returns [OF assms(1) _ _ L1]]) (auto intro: save_mb_returns)
  then show ?thesis unfolding FnHandler_def o Let_def prod.case
    by (intro returns_bind [OF n]) (auto simp: L1 d)
qed

text \<open>What a call needs: as many arguments as the handler reads, tags that fit a buffer, and strings of bounded length.\<close>

fun call_ok :: "pin_call \<Rightarrow> bool" where
  "call_ok (D, m, f, a) \<longleftrightarrow> libdft_ok D \<and> (f = ''__angora_trace_cmp_tt'' \<longrightarrow> 7 \<le> length a) \<and> (f = ''__angora_trace_switch_tt'' \<longrightarrow> 6 \<le> length a) \<and>
     (f = ''__angora_trace_exploit_val_tt'' \<longrightarrow> 5 \<le> length a) \<and>
     (f = ''__angora_trace_fn_tt'' \<longrightarrow> 5 \<le> length a \<and>
        (if (ucast (a ! 2) :: u32) = 0 then returns (pin_strlen m (a ! 3)) (\<lambda>n. unat n \<le> BUF_LEN) \<and> returns (pin_strlen m (a ! 4)) (\<lambda>n. unat n \<le> BUF_LEN)
         else unat (ucast (a ! 2) :: u32) \<le> BUF_LEN))"

lemma entry_handler_returns:
  assumes "call_ok (D, m, f, a)" "logger_ok L"
  shows "returns (entry_handler D m f a L) logger_ok"
proof -
  have d: "libdft_ok D" using assms(1) by simp
  consider "f = ''__angora_trace_cmp_tt''" | "f = ''__angora_trace_switch_tt''" | "f = ''__angora_trace_fn_tt''" | "f = ''__angora_trace_exploit_val_tt''"
    | "f \<notin> {''__angora_trace_cmp_tt'', ''__angora_trace_switch_tt'', ''__angora_trace_fn_tt'', ''__angora_trace_exploit_val_tt''}" by blast
  then show ?thesis
  proof cases
    case 1
    then show ?thesis using CmpHandler_returns [OF d assms(2)] assms(1) by (simp add: entry_handler_def)
  next
    case 2
    then show ?thesis using SwHandler_returns [OF d assms(2)] assms(1) by (simp add: entry_handler_def)
  next
    case 3
    then have "5 \<le> length a" "entry_handler D m f a L = FnHandler D m (ucast (a ! 0)) (ucast (a ! 1)) (ucast (a ! 2)) (a ! 3) (a ! 4) L"
      using assms(1) by (simp_all add: entry_handler_def)
    then show ?thesis using FnHandler_returns [OF d assms(2), of "ucast (a ! 2)" m "a ! 3" "a ! 4"] assms(1) 3 by (simp split: if_splits)
  next
    case 4
    then show ?thesis using ExploitHandler_returns [OF d assms(2)] assms(1) by (simp add: entry_handler_def)
  next
    case 5
    then show ?thesis using assms(2) by (simp add: entry_handler_def)
  qed
qed

lemma pin_run_returns: "list_all call_ok cs \<Longrightarrow> logger_ok L \<Longrightarrow> returns (pin_run cs L) logger_ok"
proof (induction cs arbitrary: L)
  case (Cons x cs)
  then show ?case by (cases x) (auto intro!: returns_bind [OF entry_handler_returns] simp del: call_ok.simps)
qed simp

text \<open>C30. Tracking under Pin does not write outside its buffers: as long as the tag of a label and the arguments of a comparison function have at most
  131072 bytes, every sequence of calls runs to the end, whatever the tags are.\<close>

theorem pin_run_defined:
  assumes "list_all call_ok cs"
  shows "\<exists>L. pin_run cs Logger_new = Some L \<and> logger_ok L"
proof -
  have "logger_ok Logger_new" by (simp add: logger_ok_def buf_ok_def Logger_new_def LogBuf_new_def)
  then show ?thesis using pin_run_returns [OF assms] by (simp add: returns_def)
qed

section \<open>A sample run\<close>

definition sample_libdft :: libdft where
  "sample_libdft = \<lparr>tagmap_getn_reg = (\<lambda>r n. if r = 4 then 7 else 0), tagmap_getn = (\<lambda>p n. 7), BDD_HAS_LEN_LB = (\<lambda>t. False), BDD_CLEAR_LEN_MASK = (\<lambda>t. t),
     tag_is_empty = (\<lambda>t. t = 0), tag_get = (\<lambda>t. [[1, 0, 0, 0, 3, 0, 0, 0, 4, 0, 0, 0]])\<rparr>"

definition sample_calls :: "pin_call list" where
  "sample_calls = [(sample_libdft, \<lambda>p. 65, ''__angora_trace_cmp_tt'', [11, 0, 1, 32, 65, 66, 0]),
     (sample_libdft, \<lambda>p. 65, ''__angora_trace_fn_tt'', [12, 0, 2, 4096, 8192])]"

lemma sample_calls_ok: "list_all call_ok sample_calls" "list_all small_switch sample_calls"
  by (simp_all add: sample_calls_def sample_libdft_def libdft_ok_def BUF_LEN_def)

theorem pin_log_invariant_witness:
  "\<exists>L V. pin_run sample_calls Logger_new = Some L \<and> Fini plain_fwrite True L = Some (Inr (file_bytes V)) \<and> distinct (map cond_id (conds V)) \<and> list_all (tagged V) (conds V)"
proof -
  have "logger_ok Logger_new" by (simp add: logger_ok_def buf_ok_def Logger_new_def LogBuf_new_def)
  then obtain L where L: "pin_run sample_calls Logger_new = Some L" using pin_run_returns [OF sample_calls_ok(1)] by (auto simp: returns_def)
  have "length sample_calls < 2 ^ 32" by (simp add: sample_calls_def)
  from pin_log_invariant [OF L this sample_calls_ok(2)] L show ?thesis by blast
qed

theorem pin_run_defined_witness: "\<exists>L. pin_run sample_calls Logger_new = Some L \<and> logger_ok L"
  by (rule pin_run_defined [OF sample_calls_ok(1)])

end
