(* ===== verification/Track_Log.thy ===== *)
theory Track_Log
  imports Taint_Sources
begin

unbundle bit_operations_syntax

text \<open>
  The log of tracked conditions of the taint runtime: the reports of \<^verbatim>\<open>runtime/src/track.rs\<close> that the instrumented program calls
  at comparisons, switches, comparison functions and exploitable values, the logger \<^verbatim>\<open>runtime/src/logger.rs\<close>, and the
  conditions on input lengths of \<^verbatim>\<open>len_label.rs\<close>.  The state is that of the input wrappers, whose label store and table of
  lengths the reports read, and the logger, which is gone after the end of the program.  \<open>None\<close> is a panic or undefined
  behaviour; 32-bit additions wrap around, as in a release build.  The serialisation of the log is a library.
\<close>

section \<open>Conditions\<close>

record CondStmtBase =
  b_cmpid :: u32
  b_context :: u32
  b_last_callsite :: u32
  b_order :: u32
  b_belong :: u32
  b_condition :: u32
  b_level :: u32
  b_op :: u32
  b_size :: u32
  b_lb1 :: u32
  b_lb2 :: u32
  b_arg1 :: u64
  b_arg2 :: u64

text \<open>Two conditions are equal when these agree.\<close>

definition base_id :: "CondStmtBase \<Rightarrow> u32 \<times> u32 \<times> u32" where
  "base_id c = (b_cmpid c, b_context c, b_order c)"

definition COND_ICMP_EQ_OP :: u32 where "COND_ICMP_EQ_OP = 32"
definition COND_SW_OP :: u32 where "COND_SW_OP = 0x00FF"
definition LOG_SIGN_MASK :: u32 where "LOG_SIGN_MASK = 0x100"
definition COND_AFL_OP :: u32 where "COND_AFL_OP = 0x8001"
definition COND_FN_OP :: u32 where "COND_FN_OP = 0x8002"
definition COND_LEN_OP :: u32 where "COND_LEN_OP = 0x8003"
definition COND_FALSE_ST :: u32 where "COND_FALSE_ST = 0"
definition COND_DONE_ST :: u32 where "COND_DONE_ST = 2"
definition MAX_COND_ORDER :: u32 where "MAX_COND_ORDER = 16"

record LogData =
  cond_list :: "CondStmtBase list"
  log_tags :: "u32 \<rightharpoonup> TagSeg list"
  magic_bytes :: "nat \<rightharpoonup> u8 list \<times> u8 list"

record TrackLogger =
  log_data :: LogData
  log_order_map :: "u32 \<times> u32 \<rightharpoonup> u32"

definition TrackLogger_new :: TrackLogger where
  "TrackLogger_new = \<lparr>log_data = \<lparr>cond_list = [], log_tags = Map.empty, magic_bytes = Map.empty\<rparr>, log_order_map = Map.empty\<rparr>"

definition upd_data :: "(LogData \<Rightarrow> LogData) \<Rightarrow> TrackLogger \<Rightarrow> TrackLogger" where
  "upd_data f L = L\<lparr>log_data := f (log_data L)\<rparr>"

section \<open>The logger\<close>

definition log_save_tag :: "u32 \<Rightarrow> TS \<times> TrackLogger \<Rightarrow> (TS \<times> TrackLogger) option" where
  "log_save_tag lb = (\<lambda>(ts, L).
     if 0 < lb then do {
       (tag, ts) \<leftarrow> tag_set_find ts (unat lb);
       Some (ts, if log_tags (log_data L) lb \<noteq> None then L else upd_data (\<lambda>d. d\<lparr>log_tags := (log_tags d)(lb \<mapsto> tag)\<rparr>) L)
     }
     else Some (ts, L))"

definition save_magic_bytes :: "u8 list \<times> u8 list \<Rightarrow> TrackLogger \<Rightarrow> TrackLogger" where
  "save_magic_bytes bytes L =
     (let i = length (cond_list (log_data L)) in
      if 0 < i then upd_data (\<lambda>d. d\<lparr>magic_bytes := (magic_bytes d)(i - 1 \<mapsto> bytes)\<rparr>) L else L)"

definition log_get_order :: "CondStmtBase \<Rightarrow> TrackLogger \<Rightarrow> u32 \<times> CondStmtBase \<times> TrackLogger" where
  "log_get_order c L =
     (let key = (b_cmpid c, b_context c); old = (case log_order_map L key of Some k \<Rightarrow> k | None \<Rightarrow> 0);
          k = (if b_order c = 0 then old + 1 else old) in
      (k, c\<lparr>b_order := b_order c + k\<rparr>, L\<lparr>log_order_map := (log_order_map L)(key \<mapsto> k)\<rparr>))"

text \<open>The condition on the length, if there is one, and the condition without its length label.\<close>

definition len_cond_of :: "(u32 \<times> u32) list \<Rightarrow> u32 \<Rightarrow> CondStmtBase \<Rightarrow> (CondStmtBase option \<times> CondStmtBase) option" where
  "len_cond_of info len_lb c =
     (if MAX_LEN_LABEL < len_lb then Some (None, c)
      else if unat len_lb < length info
      then Some (Some (c\<lparr>b_op := COND_LEN_OP, b_lb1 := fst (info ! unat len_lb), b_lb2 := snd (info ! unat len_lb)\<rparr>), c)
      else None)"

definition get_len_cond :: "(u32 \<times> u32) list \<Rightarrow> CondStmtBase \<Rightarrow> (CondStmtBase option \<times> CondStmtBase) option" where
  "get_len_cond info c =
     (if is_len_label (b_lb1 c) then len_cond_of info (get_len_label (b_lb1 c)) (c\<lparr>b_lb1 := get_normal_label (b_lb1 c)\<rparr>)
      else if is_len_label (b_lb2 c) then len_cond_of info (get_len_label (b_lb2 c)) (c\<lparr>b_lb2 := get_normal_label (b_lb2 c)\<rparr>)
      else Some (None, c))"

definition push_cond :: "CondStmtBase \<Rightarrow> TrackLogger \<Rightarrow> TrackLogger" where
  "push_cond c = upd_data (\<lambda>d. d\<lparr>cond_list := cond_list d @ [c]\<rparr>)"

definition log_save :: "(u32 \<times> u32) list \<Rightarrow> CondStmtBase \<Rightarrow> TS \<times> TrackLogger \<Rightarrow> (TS \<times> TrackLogger) option" where
  "log_save info c = (\<lambda>(ts, L).
     if b_lb1 c = 0 \<and> b_lb2 c = 0 then Some (ts, L)
     else do {
       (len_cond, c) \<leftarrow> get_len_cond info c;
       let (k, c, L) = (if b_op c < COND_AFL_OP \<or> b_op c = COND_FN_OP then log_get_order c L else (0, c, L));
       if k \<le> MAX_COND_ORDER then do {
         (ts, L) \<leftarrow> log_save_tag (b_lb1 c) (ts, L);
         (ts, L) \<leftarrow> log_save_tag (b_lb2 c) (ts, L);
         let L = push_cond c L;
         Some (ts, case len_cond of None \<Rightarrow> L | Some lc \<Rightarrow> push_cond (lc\<lparr>b_order := 0x10000 + k\<rparr>) L)
       }
       else Some (ts, L)
     })"

section \<open>The reports\<close>

text \<open>The store is that of the runtime; the logger may be gone.\<close>

type_synonym track = "io \<times> TrackLogger option"

definition io_tags :: "io \<Rightarrow> TS" where
  "io_tags s = tags (base s)"

definition set_io_tags :: "TS \<Rightarrow> io \<Rightarrow> io" where
  "set_io_tags ts s = s\<lparr>base := (base s)\<lparr>tags := ts\<rparr>\<rparr>"

definition tag_set_get_sign :: "TS \<Rightarrow> u32 \<Rightarrow> bool" where
  "tag_set_get_sign tsl lb = (case tsl of None \<Rightarrow> False | Some ts \<Rightarrow> get_sign ts (unat (get_normal_label lb)))"

definition infer_eq_sign :: "TS \<Rightarrow> u32 \<Rightarrow> u32 \<Rightarrow> u32 \<Rightarrow> u32" where
  "infer_eq_sign ts op lb1 lb2 =
     (if op = COND_ICMP_EQ_OP \<and> (0 < lb1 \<and> tag_set_get_sign ts lb1 \<or> 0 < lb2 \<and> tag_set_get_sign ts lb2)
      then op OR LOG_SIGN_MASK else op)"

definition track_infer_shape :: "u32 \<Rightarrow> u32 \<Rightarrow> io \<Rightarrow> io option" where
  "track_infer_shape lb n s =
     (if 0 < lb then map_option (\<lambda>ts. set_io_tags ts s) (angora_tag_set_infer_shape_in_math_op (io_tags s) lb n) else Some s)"

definition with_logger :: "(io \<Rightarrow> TS \<times> TrackLogger \<Rightarrow> (TS \<times> TrackLogger) option) \<Rightarrow> track \<Rightarrow> track option" where
  "with_logger f = (\<lambda>(s, lc). case lc of
     None \<Rightarrow> Some (s, None)
   | Some L \<Rightarrow> map_option (\<lambda>(ts, L). (set_io_tags ts s, Some L)) (f s (io_tags s, L)))"

definition log_cmp_callsite :: "u32 \<Rightarrow> u32 \<Rightarrow> u32 \<Rightarrow> u32 \<Rightarrow> u32 \<Rightarrow> u32 \<Rightarrow> u32 \<Rightarrow> u32 \<Rightarrow> u64 \<Rightarrow> u64 \<Rightarrow> track \<Rightarrow> track option" where
  "log_cmp_callsite cmpid context last_callsite condition op n lb1 lb2 arg1 arg2 =
     with_logger (\<lambda>s. log_save (LEN_INFO s) \<lparr>b_cmpid = cmpid, b_context = context, b_last_callsite = last_callsite, b_order = 0, b_belong = 0,
       b_condition = condition, b_level = 0, b_op = op, b_size = n, b_lb1 = lb1, b_lb2 = lb2, b_arg1 = arg1, b_arg2 = arg2\<rparr>)"

definition dfsw_trace_cmp_tt :: "u32 \<Rightarrow> u32 \<Rightarrow> u32 \<Rightarrow> u32 \<Rightarrow> u32 \<Rightarrow> u64 \<Rightarrow> u64 \<Rightarrow> u32 \<Rightarrow> u32 \<Rightarrow> u32 \<Rightarrow> track \<Rightarrow> track option" where
  "dfsw_trace_cmp_tt cmpid context last_callsite n op arg1 arg2 condition l4 l5 = (\<lambda>(s, lc).
     if l4 = 0 \<and> l5 = 0 then Some (s, lc)
     else do {
       let op = infer_eq_sign (io_tags s) op l4 l5;
       s \<leftarrow> track_infer_shape l4 n s;
       s \<leftarrow> track_infer_shape l5 n s;
       log_cmp_callsite cmpid context last_callsite condition op n l4 l5 arg1 arg2 (s, lc)
     })"

definition word64_at :: "memory \<Rightarrow> u64 \<Rightarrow> u64" where
  "word64_at m p = fold (\<lambda>i w. push_bit 8 w OR ucast (m (p + of_nat i))) (rev [0..<8]) 0"

text \<open>The cases of a switch are numbered in the high half of the order.\<close>

fun save_switch :: "(u32 \<times> u32) list \<Rightarrow> CondStmtBase \<Rightarrow> (nat \<times> u64) list \<Rightarrow> TS \<times> TrackLogger \<Rightarrow> (TS \<times> TrackLogger) option" where
  "save_switch info c [] x = Some x"
| "save_switch info c ((i, arg) # as) x = do {
     x \<leftarrow> log_save info (c\<lparr>b_order := b_order c + push_bit 16 (of_nat i), b_arg2 := arg,
            b_condition := (if arg = b_arg1 c then COND_DONE_ST else b_condition c)\<rparr>) x;
     save_switch info c as x
   }"

definition dfsw_trace_switch_tt :: "u32 \<Rightarrow> u32 \<Rightarrow> u32 \<Rightarrow> u32 \<Rightarrow> u64 \<Rightarrow> u32 \<Rightarrow> u64 \<Rightarrow> u32 \<Rightarrow> track \<Rightarrow> track option" where
  "dfsw_trace_switch_tt cmpid context last_callsite n condition num args l3 = (\<lambda>(s, lc).
     if l3 = 0 then Some (s, lc)
     else do {
       s \<leftarrow> track_infer_shape l3 n s;
       let op = (if tag_set_get_sign (io_tags s) l3 then COND_SW_OP OR LOG_SIGN_MASK else COND_SW_OP);
       with_logger (\<lambda>s. save_switch (LEN_INFO s) \<lparr>b_cmpid = cmpid, b_context = context, b_last_callsite = last_callsite, b_order = 0, b_belong = 0,
           b_condition = COND_FALSE_ST, b_level = 0, b_op = op, b_size = n, b_lb1 = l3, b_lb2 = 0, b_arg1 = condition, b_arg2 = 0\<rparr>
         (map (\<lambda>i. (i, word64_at (mem (base s)) (args + 8 * of_nat i))) [0..<unat num])) (s, lc)
     })"

definition track_strlen :: "memory \<Rightarrow> u64 \<Rightarrow> u64 option" where
  "track_strlen m p = (if p = 0 then None else first_index (\<lambda>i. m (p + i) = 0) 0)"

definition slice_bytes :: "memory \<Rightarrow> u64 \<Rightarrow> u64 \<Rightarrow> u8 list option" where
  "slice_bytes m p n = (if p = 0 then None else Some (map (\<lambda>i. m (p + of_nat i)) [0..<unat n]))"

definition dfsw_trace_fn_tt :: "u32 \<Rightarrow> u32 \<Rightarrow> u32 \<Rightarrow> u32 \<Rightarrow> u64 \<Rightarrow> u64 \<Rightarrow> track \<Rightarrow> track option" where
  "dfsw_trace_fn_tt cmpid context last_callsite n parg1 parg2 = (\<lambda>(s, lc). do {
     let m = mem (base s);
     arglen1 \<leftarrow> (if n = 0 then track_strlen m parg1 else Some (ucast n));
     arglen2 \<leftarrow> (if n = 0 then track_strlen m parg2 else Some (ucast n));
     (lb1, b) \<leftarrow> dfsan_read_label (base s) parg1 arglen1;
     (lb2, b) \<leftarrow> dfsan_read_label b parg2 arglen2;
     let s = s\<lparr>base := b\<rparr>;
     if lb1 = 0 \<and> lb2 = 0 then Some (s, lc)
     else do {
       arg1 \<leftarrow> slice_bytes m parg1 arglen1;
       arg2 \<leftarrow> slice_bytes m parg2 arglen2;
       let c = \<lparr>b_cmpid = cmpid, b_context = context, b_last_callsite = last_callsite, b_order = 0, b_belong = 0, b_condition = COND_FALSE_ST,
                b_level = 0, b_op = COND_FN_OP, b_size = (if 0 < lb1 then ucast arglen2 else ucast arglen1),
                b_lb1 = lb1, b_lb2 = (if 0 < lb1 then 0 else lb2), b_arg1 = 0, b_arg2 = 0\<rparr>;
       with_logger (\<lambda>s x. map_option (\<lambda>(ts, L). (ts, save_magic_bytes (arg1, arg2) L)) (log_save (LEN_INFO s) c x)) (s, lc)
     }
   })"

definition dfsw_trace_exploit_val_tt :: "u32 \<Rightarrow> u32 \<Rightarrow> u32 \<Rightarrow> u32 \<Rightarrow> u32 \<Rightarrow> u64 \<Rightarrow> u32 \<Rightarrow> track \<Rightarrow> track option" where
  "dfsw_trace_exploit_val_tt cmpid context last_callsite n op v l4 = (\<lambda>x.
     if is_len_label l4 \<or> l4 = 0 then Some x
     else log_cmp_callsite cmpid context last_callsite COND_FALSE_ST op n l4 0 v 0 x)"

text \<open>The end of the program: the logger is dropped, which writes its data if the file could be created.\<close>

definition angora_track_fini :: "bool \<Rightarrow> track \<Rightarrow> LogData option \<times> track" where
  "angora_track_fini created = (\<lambda>(s, lc). (if created then map_option log_data lc else None, (s, None)))"

section \<open>What a report appends\<close>

abbreviation log_conds :: "TrackLogger \<Rightarrow> CondStmtBase list" where
  "log_conds L \<equiv> cond_list (log_data L)"

definition has_tags :: "TrackLogger \<Rightarrow> CondStmtBase \<Rightarrow> bool" where
  "has_tags L c \<longleftrightarrow> {b_lb1 c, b_lb2 c} - {0} \<subseteq> dom (log_tags (log_data L))"

definition more_tags :: "TrackLogger \<Rightarrow> TrackLogger \<Rightarrow> bool" where
  "more_tags L L' \<longleftrightarrow> log_tags (log_data L) \<subseteq>\<^sub>m log_tags (log_data L')"

lemma more_tags_refl: "more_tags L L"
  by (simp add: more_tags_def)

lemma more_tags_trans: "more_tags L L1 \<Longrightarrow> more_tags L1 L2 \<Longrightarrow> more_tags L L2"
  unfolding more_tags_def by (rule map_le_trans)

lemma has_tags_mono: "has_tags L c \<Longrightarrow> more_tags L L' \<Longrightarrow> has_tags L' c"
  unfolding has_tags_def more_tags_def by (meson map_le_implies_dom_le subset_trans)

definition count_of :: "CondStmtBase \<Rightarrow> TrackLogger \<Rightarrow> u32" where
  "count_of c L = fst (log_get_order c L)"

lemma log_save_tag_log:
  assumes "log_save_tag lb (ts, L) = Some (ts', L')"
  shows "log_conds L' = log_conds L \<and> log_order_map L' = log_order_map L \<and> magic_bytes (log_data L') = magic_bytes (log_data L) \<and>
    more_tags L L' \<and> (lb = 0 \<or> lb \<in> dom (log_tags (log_data L')))"
proof (cases "0 < lb \<and> log_tags (log_data L) lb = None")
  case True
  then obtain tag where "L' = upd_data (\<lambda>d. d\<lparr>log_tags := (log_tags d)(lb \<mapsto> tag)\<rparr>) L"
    using assms by (auto simp: log_save_tag_def split: bind_splits)
  then show ?thesis using True by (auto simp: upd_data_def more_tags_def map_le_def)
next
  case False
  then show ?thesis using assms by (auto simp: log_save_tag_def more_tags_refl word_gt_0 split: bind_splits if_splits)
qed

lemma get_len_cond_shape:
  assumes "get_len_cond info c = Some (lc, c')"
  shows "b_op c' = b_op c \<and> b_cmpid c' = b_cmpid c \<and> b_context c' = b_context c \<and> b_order c' = b_order c \<and>
    (\<forall>d. lc = Some d \<longrightarrow> b_op d = COND_LEN_OP \<and> b_cmpid d = b_cmpid c \<and> b_context d = b_context c) \<and>
    (lc \<noteq> None \<longleftrightarrow> is_len_label (b_lb1 c) \<or> is_len_label (b_lb2 c))"
proof -
  have "\<not> MAX_LEN_LABEL < get_len_label lb" for lb
  proof -
    have "unat (take_bit 10 (drop_bit 22 lb)) = unat (drop_bit 22 lb) mod 1024" unfolding unsigned_take_bit_eq by (simp add: take_bit_eq_mod)
    then have "unat (take_bit 10 (drop_bit 22 lb)) < 1024" by simp
    then show ?thesis by (simp add: get_len_label_take MAX_LEN_LABEL_def word_less_nat_alt)
  qed
  then show ?thesis using assms by (auto simp: get_len_cond_def len_cond_of_def split: if_splits)
qed

text \<open>A condition that is counted is appended while the count is at most 16, with the condition on the length if there is one.\<close>

definition appends_cond :: "CondStmtBase \<Rightarrow> TrackLogger \<Rightarrow> TrackLogger \<Rightarrow> bool" where
  "appends_cond c L L' \<longleftrightarrow> log_order_map L' = (log_order_map L)((b_cmpid c, b_context c) \<mapsto> count_of c L) \<and>
     magic_bytes (log_data L') = magic_bytes (log_data L) \<and> more_tags L L' \<and>
     (if count_of c L \<le> MAX_COND_ORDER
      then \<exists>c' lens. log_conds L' = log_conds L @ c' # lens \<and> b_op c' = b_op c \<and> base_id c' = (b_cmpid c, b_context c, b_order c + count_of c L) \<and>
        has_tags L' c' \<and> (lens \<noteq> [] \<longleftrightarrow> is_len_label (b_lb1 c) \<or> is_len_label (b_lb2 c)) \<and> (lens = [] \<or> (\<exists>d. lens = [d] \<and> b_op d = COND_LEN_OP \<and> base_id d = (b_cmpid c, b_context c, 0x10000 + count_of c L)))
      else log_conds L' = log_conds L)"

lemma log_save_appends:
  assumes "log_save info c (ts, L) = Some (ts', L')" "b_lb1 c \<noteq> 0 \<or> b_lb2 c \<noteq> 0" "b_op c < COND_AFL_OP \<or> b_op c = COND_FN_OP"
  shows "appends_cond c L L'"
proof -
  obtain lc c1 where g: "get_len_cond info c = Some (lc, c1)" using assms(1,2) by (auto simp: log_save_def split: bind_splits)
  note sh = get_len_cond_shape [OF g]
  let ?k = "count_of c L" let ?c = "c1\<lparr>b_order := b_order c + ?k\<rparr>"
  let ?L = "L\<lparr>log_order_map := (log_order_map L)((b_cmpid c, b_context c) \<mapsto> ?k)\<rparr>"
  have o: "log_get_order c1 L = (?k, ?c, ?L)" using sh by (simp add: log_get_order_def count_of_def Let_def)
  have s: "(if ?k \<le> MAX_COND_ORDER then do {
       (ts, L) \<leftarrow> log_save_tag (b_lb1 ?c) (ts, ?L);
       (ts, L) \<leftarrow> log_save_tag (b_lb2 ?c) (ts, L);
       Some (ts, case lc of None \<Rightarrow> push_cond ?c L | Some d \<Rightarrow> push_cond (d\<lparr>b_order := 0x10000 + ?k\<rparr>) (push_cond ?c L))
     } else Some (ts, ?L)) = Some (ts', L')"
  proof -
    have n: "\<not> (b_lb1 c = 0 \<and> b_lb2 c = 0)" using assms(2) by blast
    have "b_op c1 < COND_AFL_OP \<or> b_op c1 = COND_FN_OP" using assms(3) sh by simp
    then show ?thesis using assms(1) unfolding log_save_def prod.case if_not_P [OF n] g Let_def by (simp add: o split del: if_split)
  qed
  show ?thesis
  proof (cases "?k \<le> MAX_COND_ORDER")
    case True
    then obtain t1 L1 t2 L2 where t: "log_save_tag (b_lb1 ?c) (ts, ?L) = Some (t1, L1)" "log_save_tag (b_lb2 ?c) (t1, L1) = Some (t2, L2)"
        "L' = (case lc of None \<Rightarrow> push_cond ?c L2 | Some d \<Rightarrow> push_cond (d\<lparr>b_order := 0x10000 + ?k\<rparr>) (push_cond ?c L2))"
      using s by (auto split: bind_splits)
    note l1 = log_save_tag_log [OF t(1)] and l2 = log_save_tag_log [OF t(2)]
    have "b_lb1 ?c = 0 \<or> b_lb1 ?c \<in> dom (log_tags (log_data L2))" using l1 l2 by (meson map_le_implies_dom_le more_tags_def subsetD)
    then have h: "has_tags L2 ?c" using l2 by (auto simp: has_tags_def)
    have L': "log_tags (log_data L') = log_tags (log_data L2)" "magic_bytes (log_data L') = magic_bytes (log_data L)"
        "log_order_map L' = log_order_map ?L"
        "log_conds L' = log_conds L @ ?c # (case lc of None \<Rightarrow> [] | Some d \<Rightarrow> [d\<lparr>b_order := 0x10000 + ?k\<rparr>])"
      using l1 l2 t(3) by (simp_all add: push_cond_def upd_data_def split: option.splits)
    let ?lens = "case lc of None \<Rightarrow> [] | Some d \<Rightarrow> [d\<lparr>b_order := 0x10000 + ?k\<rparr>]"
    have m: "more_tags L L'" using l1 l2 L'(1) by (simp add: more_tags_def) (metis map_le_trans)
    have i: "base_id ?c = (b_cmpid c, b_context c, b_order c + ?k)" "b_op ?c = b_op c" "has_tags L' ?c" using sh h L'(1) by (simp_all add: base_id_def has_tags_def)
    have "?lens \<noteq> [] \<longleftrightarrow> is_len_label (b_lb1 c) \<or> is_len_label (b_lb2 c)" using sh by (cases lc) simp_all
    moreover have "?lens = [] \<or> (\<exists>d. ?lens = [d] \<and> b_op d = COND_LEN_OP \<and> base_id d = (b_cmpid c, b_context c, 0x10000 + ?k))"
      using sh by (cases lc) (simp_all add: base_id_def)
    ultimately show ?thesis unfolding appends_cond_def if_P [OF True] using L'(2-4) m i by (intro conjI exI [of _ ?c] exI [of _ ?lens]) simp_all
  next
    case False
    then show ?thesis using s by (auto simp: appends_cond_def more_tags_def)
  qed
qed

section \<open>Reports on the log\<close>

definition counted :: "CondStmtBase \<Rightarrow> bool" where
  "counted c \<longleftrightarrow> b_op c < COND_AFL_OP \<or> b_op c = COND_FN_OP"

definition on_value :: "CondStmtBase \<Rightarrow> bool" where
  "on_value c \<longleftrightarrow> b_op c \<noteq> COND_LEN_OP"

text \<open>What one report with count \<open>k\<close> appends: conditions of its comparison and context with the count in the low half of the order.\<close>

definition batch :: "u32 \<Rightarrow> u32 \<Rightarrow> u32 \<Rightarrow> TrackLogger \<Rightarrow> CondStmtBase list \<Rightarrow> TrackLogger \<Rightarrow> bool" where
  "batch cid ctx k L new L' \<longleftrightarrow> log_conds L' = log_conds L @ new \<and> more_tags L L' \<and> (new \<noteq> [] \<longrightarrow> k \<le> MAX_COND_ORDER) \<and>
     (\<forall>c\<in>set new. b_cmpid c = cid \<and> b_context c = ctx \<and> take_bit 16 (b_order c) = k \<and> (on_value c \<longrightarrow> has_tags L' c)) \<and>
     distinct (map b_order (filter on_value new)) \<and>
     dom (magic_bytes (log_data L')) \<subseteq> dom (magic_bytes (log_data L)) \<union> {..<length (log_conds L')}"

definition next_count :: "u32 \<Rightarrow> u32 \<Rightarrow> TrackLogger \<Rightarrow> u32" where
  "next_count cid ctx L = (case log_order_map L (cid, ctx) of Some k \<Rightarrow> k + 1 | None \<Rightarrow> 1)"

definition reported :: "u32 \<Rightarrow> u32 \<Rightarrow> TrackLogger \<Rightarrow> TrackLogger \<Rightarrow> bool" where
  "reported cid ctx L L' \<longleftrightarrow> L' = L \<or>
     log_order_map L' = (log_order_map L)((cid, ctx) \<mapsto> next_count cid ctx L) \<and> (\<exists>new. batch cid ctx (next_count cid ctx L) L new L')"

lemma low_half: "k \<le> MAX_COND_ORDER \<Longrightarrow> take_bit 16 (k + push_bit 16 w) = k"
  by (rule low_half_add) (simp add: MAX_COND_ORDER_def word_le_nat_alt)

text \<open>One condition with the order \<open>w\<close> in the high half.\<close>

lemma appends_batch:
  assumes "appends_cond c L L'" "b_order c = push_bit 16 w" "counted c"
  shows "\<exists>new. batch (b_cmpid c) (b_context c) (count_of c L) L new L' \<and>
    map b_order (filter on_value new) = (if count_of c L \<le> MAX_COND_ORDER then [count_of c L + push_bit 16 w] else [])"
proof (cases "count_of c L \<le> MAX_COND_ORDER")
  case True
  let ?k = "count_of c L"
  obtain c' lens where n: "log_conds L' = log_conds L @ c' # lens" "b_op c' = b_op c" "base_id c' = (b_cmpid c, b_context c, b_order c + ?k)"
      "has_tags L' c'" "lens = [] \<or> (\<exists>d. lens = [d] \<and> b_op d = COND_LEN_OP \<and> base_id d = (b_cmpid c, b_context c, 0x10000 + ?k))"
    using assms(1) True unfolding appends_cond_def if_P [OF True] by blast
  have v: "on_value c'" using assms(3) n(2) by (auto simp: on_value_def counted_def COND_AFL_OP_def COND_FN_OP_def COND_LEN_OP_def word_less_nat_alt)
  have l: "take_bit 16 (0x10000 + ?k) = ?k" using low_half [OF True, of 1] by (simp add: push_bit_eq_mult add.commute)
  have d: "b_cmpid d = b_cmpid c \<and> b_context d = b_context c \<and> take_bit 16 (b_order d) = ?k \<and> \<not> on_value d" if "d \<in> set lens" for d
    using n(5) that l by (auto simp: base_id_def on_value_def)
  then have f: "filter on_value (c' # lens) = [c']" using v by (simp add: filter_empty_conv)
  have c': "b_cmpid c' = b_cmpid c" "b_context c' = b_context c" "b_order c' = ?k + push_bit 16 w" using n(3) assms(2) by (simp_all add: base_id_def add.commute)
  have "batch (b_cmpid c) (b_context c) ?k L (c' # lens) L'"
    unfolding batch_def f
  proof (intro conjI ballI)
    show "more_tags L L'" "dom (magic_bytes (log_data L')) \<subseteq> dom (magic_bytes (log_data L)) \<union> {..<length (log_conds L')}"
      using assms(1) by (auto simp: appends_cond_def)
    fix x assume "x \<in> set (c' # lens)"
    then show "b_cmpid x = b_cmpid c" "b_context x = b_context c" "take_bit 16 (b_order x) = ?k" "on_value x \<longrightarrow> has_tags L' x"
      using c' d n(4) low_half [OF True, of w] by auto
  qed (use n(1) True in simp_all)
  then show ?thesis using f c'(3) True by (intro exI [of _ "c' # lens"]) simp
next
  case False
  then show ?thesis using assms(1) by (intro exI [of _ "[]"]) (simp add: appends_cond_def batch_def)
qed

lemma batch_trans:
  assumes "batch cid ctx k L a L1" "batch cid ctx k L1 b L2" "distinct (map b_order (filter on_value (a @ b)))"
  shows "batch cid ctx k L (a @ b) L2"
proof -
  have A: "log_conds L1 = log_conds L @ a" "more_tags L L1" "a \<noteq> [] \<longrightarrow> k \<le> MAX_COND_ORDER"
      "\<forall>c\<in>set a. b_cmpid c = cid \<and> b_context c = ctx \<and> take_bit 16 (b_order c) = k \<and> (on_value c \<longrightarrow> has_tags L1 c)"
      "dom (magic_bytes (log_data L1)) \<subseteq> dom (magic_bytes (log_data L)) \<union> {..<length (log_conds L1)}"
    using assms(1) unfolding batch_def by blast+
  have B: "log_conds L2 = log_conds L1 @ b" "more_tags L1 L2" "b \<noteq> [] \<longrightarrow> k \<le> MAX_COND_ORDER"
      "\<forall>c\<in>set b. b_cmpid c = cid \<and> b_context c = ctx \<and> take_bit 16 (b_order c) = k \<and> (on_value c \<longrightarrow> has_tags L2 c)"
      "dom (magic_bytes (log_data L2)) \<subseteq> dom (magic_bytes (log_data L1)) \<union> {..<length (log_conds L2)}"
    using assms(2) unfolding batch_def by blast+
  have "{..<length (log_conds L1)} \<subseteq> {..<length (log_conds L2)}" unfolding B(1) by simp
  then have "dom (magic_bytes (log_data L2)) \<subseteq> dom (magic_bytes (log_data L)) \<union> {..<length (log_conds L2)}" using A(5) B(5) by (meson Un_least Un_upper1 Un_upper2 order_trans)
  moreover have "log_conds L2 = log_conds L @ a @ b" unfolding A(1) B(1) by simp
  moreover have "\<forall>c\<in>set (a @ b). b_cmpid c = cid \<and> b_context c = ctx \<and> take_bit 16 (b_order c) = k \<and> (on_value c \<longrightarrow> has_tags L2 c)"
    using A(4) B(4) has_tags_mono [OF _ B(2)] by auto
  ultimately show ?thesis unfolding batch_def using assms(3) more_tags_trans [OF A(2) B(2)] A(3) B(3) by blast
qed

lemma batch_refl: "batch cid ctx k L [] L"
  by (simp add: batch_def more_tags_refl)

lemma count_first: "b_order c = 0 \<Longrightarrow> count_of c L = next_count (b_cmpid c) (b_context c) L"
  by (simp add: count_of_def log_get_order_def next_count_def Let_def split: option.splits)

lemma count_later: "b_order c \<noteq> 0 \<Longrightarrow> log_order_map L (b_cmpid c, b_context c) = Some k \<Longrightarrow> count_of c L = k"
  by (simp add: count_of_def log_get_order_def Let_def)

lemma save_reported:
  assumes "log_save info c (ts, L) = Some (ts', L')" "b_order c = 0" "counted c"
  shows "reported (b_cmpid c) (b_context c) L L'"
proof (cases "b_lb1 c = 0 \<and> b_lb2 c = 0")
  case True
  then show ?thesis using assms(1) by (auto simp: log_save_def reported_def)
next
  case False
  then have a: "appends_cond c L L'" using log_save_appends [OF assms(1)] assms(3) by (auto simp: counted_def)
  then show ?thesis using appends_batch [OF a, of 0] assms(2,3) count_first [OF assms(2)] by (auto simp: reported_def appends_cond_def)
qed

text \<open>The cases of a switch after the first keep the count.\<close>

lemma save_switch_rest:
  assumes "save_switch info c as (ts, L) = Some (ts', L')" "log_order_map L (b_cmpid c, b_context c) = Some k" "b_order c = 0" "b_lb1 c \<noteq> 0" "counted c"
    "\<forall>(i, a)\<in>set as. 0 < i \<and> i < 65536"
  shows "log_order_map L' = log_order_map L \<and> (\<exists>new. log_conds L' = log_conds L @ new \<and>
    (distinct (map b_order (filter on_value new)) \<longrightarrow> batch (b_cmpid c) (b_context c) k L new L') \<and>
    map b_order (filter on_value new) = (if k \<le> MAX_COND_ORDER then map (\<lambda>(i, a). k + push_bit 16 (of_nat i)) as else []))"
  using assms
proof (induction as arbitrary: ts L)
  case Nil
  then show ?case by (auto intro: batch_refl)
next
  case (Cons x as)
  obtain i a where x: "x = (i, a)" by (cases x)
  let ?c = "c\<lparr>b_order := b_order c + push_bit 16 (of_nat i), b_arg2 := a, b_condition := (if a = b_arg1 c then COND_DONE_ST else b_condition c)\<rparr>"
  obtain t1 L1 where s: "log_save info ?c (ts, L) = Some (t1, L1)" "save_switch info c as (t1, L1) = Some (ts', L')"
    using Cons.prems(1) by (auto simp: x split: bind_splits)
  have i: "0 < i" "i < 65536" using Cons.prems(6) by (auto simp: x)
  have nz: "push_bit 16 (of_nat i :: u32) \<noteq> 0" using unat_high_half [OF i(2)] i(1) by (metis mult_eq_0_iff neq0_conv unsigned_0 zero_neq_numeral)
  have ap: "appends_cond ?c L L1" using log_save_appends [OF s(1)] Cons.prems(4,5) by (simp add: counted_def)
  have k: "count_of ?c L = k" using count_later [of ?c L k] nz Cons.prems(2,3) by simp
  obtain new1 where n1: "batch (b_cmpid c) (b_context c) k L new1 L1" "map b_order (filter on_value new1) = (if k \<le> MAX_COND_ORDER then [k + push_bit 16 (of_nat i)] else [])"
    using appends_batch [OF ap, of "of_nat i"] Cons.prems(3,5) k by (auto simp: counted_def)
  have o: "log_order_map L1 = log_order_map L" using ap k Cons.prems(2) by (auto simp: appends_cond_def)
  then obtain new2 where n2: "log_order_map L' = log_order_map L1" "log_conds L' = log_conds L1 @ new2"
      "distinct (map b_order (filter on_value new2)) \<longrightarrow> batch (b_cmpid c) (b_context c) k L1 new2 L'"
      "map b_order (filter on_value new2) = (if k \<le> MAX_COND_ORDER then map (\<lambda>(i, a). k + push_bit 16 (of_nat i)) as else [])"
    using Cons.IH [OF s(2)] Cons.prems(2-6) by auto
  have "log_conds L' = log_conds L @ new1 @ new2" using n1(1) n2(2) by (simp add: batch_def)
  moreover have "distinct (map b_order (filter on_value (new1 @ new2))) \<longrightarrow> batch (b_cmpid c) (b_context c) k L (new1 @ new2) L'"
    using batch_trans [OF n1(1)] n2(3) by auto
  moreover have "map b_order (filter on_value (new1 @ new2)) = (if k \<le> MAX_COND_ORDER then map (\<lambda>(i, a). k + push_bit 16 (of_nat i)) (x # as) else [])"
    using n1(2) n2(4) by (simp add: x)
  moreover have "log_order_map L' = log_order_map L" using n2(1) o by simp
  ultimately show ?case by (intro conjI exI [of _ "new1 @ new2"])
qed

lemma save_switch_reported:
  assumes "save_switch info c (map (\<lambda>i. (i, f i)) [0..<n]) (ts, L) = Some (ts', L')" "b_order c = 0" "b_lb1 c \<noteq> 0" "counted c" "n \<le> 65536"
  shows "reported (b_cmpid c) (b_context c) L L'"
proof (cases n)
  case 0
  then show ?thesis using assms(1) by (simp add: reported_def)
next
  case (Suc m)
  let ?c = "c\<lparr>b_order := b_order c + push_bit 16 (of_nat 0), b_arg2 := f 0, b_condition := (if f 0 = b_arg1 c then COND_DONE_ST else b_condition c)\<rparr>"
  let ?as = "map (\<lambda>i. (i, f i)) [1..<n]" let ?k = "next_count (b_cmpid c) (b_context c) L"
  have e: "map (\<lambda>i. (i, f i)) [0..<n] = (0, f 0) # ?as" using Suc by (simp add: upt_rec)
  obtain t1 L1 where s: "log_save info ?c (ts, L) = Some (t1, L1)" "save_switch info c ?as (t1, L1) = Some (ts', L')"
    using assms(1) unfolding e by (auto split: bind_splits)
  have ap: "appends_cond ?c L L1" using log_save_appends [OF s(1)] assms(3,4) by (simp add: counted_def)
  have k: "count_of ?c L = ?k" using count_first [of ?c L] assms(2) by simp
  obtain new1 where n1: "batch (b_cmpid c) (b_context c) ?k L new1 L1" "map b_order (filter on_value new1) = (if ?k \<le> MAX_COND_ORDER then [?k + push_bit 16 (of_nat 0)] else [])"
    using appends_batch [OF ap, of 0] assms(2,4) k by (auto simp: counted_def)
  have o: "log_order_map L1 = (log_order_map L)((b_cmpid c, b_context c) \<mapsto> ?k)" using ap k by (simp add: appends_cond_def)
  obtain new2 where n2: "log_order_map L' = log_order_map L1" "log_conds L' = log_conds L1 @ new2"
      "distinct (map b_order (filter on_value new2)) \<longrightarrow> batch (b_cmpid c) (b_context c) ?k L1 new2 L'"
      "map b_order (filter on_value new2) = (if ?k \<le> MAX_COND_ORDER then map (\<lambda>(i, a). ?k + push_bit 16 (of_nat i)) ?as else [])"
    using save_switch_rest [OF s(2), of ?k] assms o by auto
  have "map b_order (filter on_value (new1 @ new2)) = (if ?k \<le> MAX_COND_ORDER then map (\<lambda>i. ?k + push_bit 16 (of_nat i)) [0..<n] else [])"
    using n1(2) n2(4) Suc by (simp add: upt_rec [of 0] o_def)
  then have "distinct (map b_order (filter on_value (new1 @ new2)))" using distinct_high_half [OF assms(5), of ?k] by (cases "?k \<le> MAX_COND_ORDER") (simp_all only: if_True if_False distinct.simps)
  then have "batch (b_cmpid c) (b_context c) ?k L (new1 @ new2) L'" using batch_trans [OF n1(1)] n2(3) by auto
  then show ?thesis using n2(1) o by (auto simp: reported_def)
qed

section \<open>Programs that report\<close>

datatype track_event =
    TraceCmp u32 u32 u32 u32 u32 u64 u64 u32 u32 u32
  | TraceSwitch u32 u32 u32 u32 u64 u32 u64 u32
  | TraceFn u32 u32 u32 u32 u64 u64
  | TraceExploit u32 u32 u32 u32 u32 u64 u32

fun report_event :: "track_event \<Rightarrow> track \<Rightarrow> track option" where
  "report_event (TraceCmp cid ctx site n op a1 a2 cond l4 l5) = dfsw_trace_cmp_tt cid ctx site n op a1 a2 cond l4 l5"
| "report_event (TraceSwitch cid ctx site n cond num args l3) = dfsw_trace_switch_tt cid ctx site n cond num args l3"
| "report_event (TraceFn cid ctx site n p1 p2) = dfsw_trace_fn_tt cid ctx site n p1 p2"
| "report_event (TraceExploit cid ctx site n op v l4) = dfsw_trace_exploit_val_tt cid ctx site n op v l4"

text \<open>Operations are those of comparisons and exploitable values, and a switch has at most 65536 cases.\<close>

fun event_ok :: "track_event \<Rightarrow> bool" where
  "event_ok (TraceCmp cid ctx site n op a1 a2 cond l4 l5) \<longleftrightarrow> op < COND_AFL_OP"
| "event_ok (TraceSwitch cid ctx site n cond num args l3) \<longleftrightarrow> unat num \<le> 65536"
| "event_ok (TraceFn cid ctx site n p1 p2) \<longleftrightarrow> True"
| "event_ok (TraceExploit cid ctx site n op v l4) \<longleftrightarrow> op < COND_AFL_OP"

text \<open>Between two reports the program does anything else.\<close>

inductive track_run :: "nat \<Rightarrow> io \<Rightarrow> TrackLogger \<Rightarrow> bool" where
  start: "track_run 0 s TrackLogger_new"
| other: "track_run n s L \<Longrightarrow> track_run n s' L"
| report: "track_run n s L \<Longrightarrow> event_ok e \<Longrightarrow> report_event e (s, Some L) = Some (s', Some L') \<Longrightarrow> track_run (Suc n) s' L'"

lemma with_logger_Some:
  assumes "with_logger f (s, Some L) = Some (s', Some L')"
  obtains ts where "f s (io_tags s, L) = Some (ts, L')"
  using assms by (auto simp: with_logger_def)

lemma log_cmp_reported:
  assumes "log_cmp_callsite cid ctx site cond op n l1 l2 a1 a2 (s, Some L) = Some (s', Some L')" "op < COND_AFL_OP"
  shows "reported cid ctx L L'"
  using assms(1) unfolding log_cmp_callsite_def
proof (rule with_logger_Some)
  let ?c = "\<lparr>b_cmpid = cid, b_context = ctx, b_last_callsite = site, b_order = 0, b_belong = 0,
       b_condition = cond, b_level = 0, b_op = op, b_size = n, b_lb1 = l1, b_lb2 = l2, b_arg1 = a1, b_arg2 = a2\<rparr>"
  fix ts assume "log_save (LEN_INFO s) ?c (io_tags s, L) = Some (ts, L')"
  then show ?thesis using save_reported [of "LEN_INFO s" ?c] assms(2) by (simp add: counted_def)
qed

lemma sign_op: "op < COND_AFL_OP \<Longrightarrow> infer_eq_sign ts op l1 l2 < COND_AFL_OP"
  by (simp add: infer_eq_sign_def COND_ICMP_EQ_OP_def LOG_SIGN_MASK_def COND_AFL_OP_def)

lemma cmp_reported:
  assumes "dfsw_trace_cmp_tt cid ctx site n op a1 a2 cond l4 l5 (s, Some L) = Some (s', Some L')" "op < COND_AFL_OP"
  shows "reported cid ctx L L'"
proof (cases "l4 = 0 \<and> l5 = 0")
  case True
  then show ?thesis using assms(1) by (simp add: dfsw_trace_cmp_tt_def reported_def)
next
  case False
  then obtain s1 where "log_cmp_callsite cid ctx site cond (infer_eq_sign (io_tags s) op l4 l5) n l4 l5 a1 a2 (s1, Some L) = Some (s', Some L')"
    using assms(1) unfolding dfsw_trace_cmp_tt_def prod.case if_not_P [OF False] Let_def by (auto split: bind_splits)
  then show ?thesis using log_cmp_reported sign_op [OF assms(2)] by blast
qed

lemma exploit_reported:
  assumes "dfsw_trace_exploit_val_tt cid ctx site n op v l4 (s, Some L) = Some (s', Some L')" "op < COND_AFL_OP"
  shows "reported cid ctx L L'"
proof (cases "is_len_label l4 \<or> l4 = 0")
  case True
  then show ?thesis using assms(1) by (simp add: dfsw_trace_exploit_val_tt_def reported_def)
next
  case False
  then show ?thesis using assms log_cmp_reported unfolding dfsw_trace_exploit_val_tt_def if_not_P [OF False] by blast
qed

lemma switch_saves:
  assumes "dfsw_trace_switch_tt cid ctx site n cond num args l3 (s, Some L) = Some (s', Some L')" "l3 \<noteq> 0"
  obtains info c f ts ts' where "save_switch info c (map (\<lambda>i. (i, f i)) [0..<unat num]) (ts, L) = Some (ts', L')" "b_cmpid c = cid" "b_context c = ctx"
    "b_order c = 0" "b_lb1 c = l3" "b_lb2 c = 0" "counted c"
proof -
  let ?c = "\<lambda>op. \<lparr>b_cmpid = cid, b_context = ctx, b_last_callsite = site, b_order = 0, b_belong = 0,
           b_condition = COND_FALSE_ST, b_level = 0, b_op = op, b_size = n, b_lb1 = l3, b_lb2 = 0, b_arg1 = cond, b_arg2 = 0\<rparr>"
  obtain s1 op where s1: "op = COND_SW_OP OR LOG_SIGN_MASK \<or> op = COND_SW_OP" "with_logger (\<lambda>s. save_switch (LEN_INFO s) (?c op)
         (map (\<lambda>i. (i, word64_at (mem (base s)) (args + 8 * of_nat i))) [0..<unat num])) (s1, Some L) = Some (s', Some L')"
    using assms(1) unfolding dfsw_trace_switch_tt_def prod.case if_not_P [OF assms(2)] Let_def by (auto split: bind_splits if_splits)
  from s1(2) obtain ts where "save_switch (LEN_INFO s1) (?c op) (map (\<lambda>i. (i, word64_at (mem (base s1)) (args + 8 * of_nat i))) [0..<unat num]) (io_tags s1, L) = Some (ts, L')"
    by (rule with_logger_Some)
  moreover have "counted (?c op)" using s1(1) by (auto simp: counted_def COND_SW_OP_def LOG_SIGN_MASK_def COND_AFL_OP_def)
  ultimately show ?thesis using that by simp
qed

lemma switch_reported:
  assumes "dfsw_trace_switch_tt cid ctx site n cond num args l3 (s, Some L) = Some (s', Some L')" "unat num \<le> 65536"
  shows "reported cid ctx L L'"
proof (cases "l3 = 0")
  case True
  then show ?thesis using assms(1) by (simp add: dfsw_trace_switch_tt_def reported_def)
next
  case False
  obtain info c f ts ts' where "save_switch info c (map (\<lambda>i. (i, f i)) [0..<unat num]) (ts, L) = Some (ts', L')" "b_cmpid c = cid" "b_context c = ctx"
      "b_order c = 0" "b_lb1 c = l3" "b_lb2 c = 0" "counted c"
    by (rule switch_saves [OF assms(1) False])
  then show ?thesis using save_switch_reported [of info c f "unat num" ts L ts' L'] assms(2) False by simp
qed

text \<open>Magic bytes are put at the last condition.\<close>

lemma save_magic_reported:
  assumes "reported cid ctx L L'"
  shows "reported cid ctx L (save_magic_bytes m L') \<or> log_conds (save_magic_bytes m L') = log_conds L \<and> log_order_map (save_magic_bytes m L') = log_order_map L \<and>
    log_tags (log_data (save_magic_bytes m L')) = log_tags (log_data L) \<and>
    dom (magic_bytes (log_data (save_magic_bytes m L'))) \<subseteq> dom (magic_bytes (log_data L)) \<union> {..<length (log_conds L)}"
proof -
  let ?L = "save_magic_bytes m L'"
  have e: "log_conds ?L = log_conds L'" "log_order_map ?L = log_order_map L'" "log_tags (log_data ?L) = log_tags (log_data L')"
      "dom (magic_bytes (log_data ?L)) \<subseteq> dom (magic_bytes (log_data L')) \<union> {..<length (log_conds L')}"
    by (auto simp: save_magic_bytes_def upd_data_def Let_def)
  show ?thesis
  proof (cases "L' = L")
    case True
    then show ?thesis using e by simp
  next
    case False
    then obtain new where n: "log_order_map L' = (log_order_map L)((cid, ctx) \<mapsto> next_count cid ctx L)" "batch cid ctx (next_count cid ctx L) L new L'"
      using assms by (auto simp: reported_def)
    have "dom (magic_bytes (log_data ?L)) \<subseteq> dom (magic_bytes (log_data L)) \<union> {..<length (log_conds ?L)}"
      using e n(2) unfolding batch_def e(1) by (meson Un_least Un_upper2 order_trans)
    moreover have "more_tags L' ?L" "has_tags ?L c = has_tags L' c" for c using e(3) by (simp_all add: more_tags_def has_tags_def)
    ultimately have "batch cid ctx (next_count cid ctx L) L new ?L"
      using n(2) e(1) more_tags_trans [of L L' ?L] unfolding batch_def by metis
    then show ?thesis using n(1) e(2) by (auto simp: reported_def)
  qed
qed

definition same_but_magic :: "TrackLogger \<Rightarrow> TrackLogger \<Rightarrow> bool" where
  "same_but_magic L L' \<longleftrightarrow> log_conds L' = log_conds L \<and> log_order_map L' = log_order_map L \<and> log_tags (log_data L') = log_tags (log_data L) \<and>
     dom (magic_bytes (log_data L')) \<subseteq> dom (magic_bytes (log_data L)) \<union> {..<length (log_conds L)}"

lemma fn_reported:
  assumes "dfsw_trace_fn_tt cid ctx site n p1 p2 (s, Some L) = Some (s', Some L')"
  shows "reported cid ctx L L' \<or> same_but_magic L L'"
proof -
  have "L' = L \<or> (\<exists>s1 c arg. b_cmpid c = cid \<and> b_context c = ctx \<and> b_order c = 0 \<and> b_op c = COND_FN_OP \<and>
      with_logger (\<lambda>s x. map_option (\<lambda>(ts, L). (ts, save_magic_bytes arg L)) (log_save (LEN_INFO s) c x)) (s1, Some L) = Some (s', Some L'))"
    using assms unfolding dfsw_trace_fn_tt_def prod.case Let_def by (auto split: bind_splits if_splits)
  then show ?thesis
  proof
    assume "L' = L"
    then show ?thesis by (simp add: reported_def)
  next
    assume "\<exists>s1 c arg. b_cmpid c = cid \<and> b_context c = ctx \<and> b_order c = 0 \<and> b_op c = COND_FN_OP \<and>
      with_logger (\<lambda>s x. map_option (\<lambda>(ts, L). (ts, save_magic_bytes arg L)) (log_save (LEN_INFO s) c x)) (s1, Some L) = Some (s', Some L')"
    then obtain s1 c arg where c: "b_cmpid c = cid" "b_context c = ctx" "b_order c = 0" "b_op c = COND_FN_OP"
        "with_logger (\<lambda>s x. map_option (\<lambda>(ts, L). (ts, save_magic_bytes arg L)) (log_save (LEN_INFO s) c x)) (s1, Some L) = Some (s', Some L')" by blast
    from c(5) obtain ts where "map_option (\<lambda>(ts, L). (ts, save_magic_bytes arg L)) (log_save (LEN_INFO s1) c (io_tags s1, L)) = Some (ts, L')"
      by (rule with_logger_Some)
    then obtain L1 where L1: "log_save (LEN_INFO s1) c (io_tags s1, L) = Some (ts, L1)" "L' = save_magic_bytes arg L1" by auto
    then have "reported cid ctx L L1" using save_reported [OF L1(1)] c by (simp add: counted_def)
    then show ?thesis using save_magic_reported [of cid ctx L L1 arg] unfolding L1(2) same_but_magic_def by blast
  qed
qed

section \<open>Properties of the log\<close>

definition track_inv :: "nat \<Rightarrow> TrackLogger \<Rightarrow> bool" where
  "track_inv n L \<longleftrightarrow> (\<forall>key k. log_order_map L key = Some k \<longrightarrow> unat k \<le> n) \<and>
     (\<forall>c\<in>set (log_conds L). take_bit 16 (b_order c) \<le> MAX_COND_ORDER \<and> (\<exists>k. log_order_map L (b_cmpid c, b_context c) = Some k \<and> take_bit 16 (b_order c) \<le> k) \<and>
        (on_value c \<longrightarrow> has_tags L c)) \<and>
     distinct (map base_id (filter on_value (log_conds L))) \<and> dom (magic_bytes (log_data L)) \<subseteq> {..<length (log_conds L)}"

lemma next_count_fresh:
  assumes "\<forall>key k. log_order_map L key = Some k \<longrightarrow> unat k \<le> n" "Suc n < 2 ^ 32"
  shows "unat (next_count cid ctx L) \<le> Suc n" "\<And>k. log_order_map L (cid, ctx) = Some k \<Longrightarrow> k < next_count cid ctx L"
proof -
  have s: "unat (k + 1) = unat k + 1" if "log_order_map L key = Some k" for key k
  proof -
    have "unat k + 1 < 2 ^ 32" using assms that by fastforce
    then show ?thesis by (simp add: unat_word_ariths)
  qed
  then show "k < next_count cid ctx L" if "log_order_map L (cid, ctx) = Some k" for k
    using that by (auto simp: next_count_def word_less_nat_alt)
  show "unat (next_count cid ctx L) \<le> Suc n" using assms(1) s by (fastforce simp: next_count_def split: option.splits)
qed

lemma reported_inv:
  assumes "reported cid ctx L L'" "track_inv n L" "Suc n < 2 ^ 32"
  shows "track_inv (Suc n) L'"
proof (cases "L' = L")
  case True
  then show ?thesis using assms(2) by (auto simp: track_inv_def le_SucI)
next
  case False
  let ?k = "next_count cid ctx L"
  obtain new where o: "log_order_map L' = (log_order_map L)((cid, ctx) \<mapsto> ?k)" and b: "batch cid ctx ?k L new L'"
    using assms(1) False by (auto simp: reported_def)
  have i: "\<forall>key k. log_order_map L key = Some k \<longrightarrow> unat k \<le> n"
      "\<forall>c\<in>set (log_conds L). take_bit 16 (b_order c) \<le> MAX_COND_ORDER \<and> (\<exists>k. log_order_map L (b_cmpid c, b_context c) = Some k \<and> take_bit 16 (b_order c) \<le> k) \<and>
        (on_value c \<longrightarrow> has_tags L c)"
      "distinct (map base_id (filter on_value (log_conds L)))" "dom (magic_bytes (log_data L)) \<subseteq> {..<length (log_conds L)}"
    using assms(2) unfolding track_inv_def by blast+
  have n: "log_conds L' = log_conds L @ new" "more_tags L L'" "new \<noteq> [] \<longrightarrow> ?k \<le> MAX_COND_ORDER"
      "\<forall>c\<in>set new. b_cmpid c = cid \<and> b_context c = ctx \<and> take_bit 16 (b_order c) = ?k \<and> (on_value c \<longrightarrow> has_tags L' c)"
      "distinct (map b_order (filter on_value new))" "dom (magic_bytes (log_data L')) \<subseteq> dom (magic_bytes (log_data L)) \<union> {..<length (log_conds L')}"
    using b unfolding batch_def by blast+
  note f = next_count_fresh [OF i(1) assms(3)]
  have old: "\<exists>k. log_order_map L' (b_cmpid d, b_context d) = Some k \<and> take_bit 16 (b_order d) \<le> k" if d: "d \<in> set (log_conds L)" for d
  proof -
    obtain k where k: "log_order_map L (b_cmpid d, b_context d) = Some k" "take_bit 16 (b_order d) \<le> k" using bspec [OF i(2) d] by metis
    show ?thesis
    proof (cases "(b_cmpid d, b_context d) = (cid, ctx)")
      case True
      then have "k < ?k" using f(2) k(1) by simp
      then show ?thesis using True k(2) o by (intro exI [of _ ?k]) simp
    next
      case False
      then show ?thesis using k o by (intro exI [of _ k]) auto
    qed
  qed
  have apart: "base_id d \<noteq> base_id e" if de: "d \<in> set (log_conds L)" "e \<in> set new" for d e
  proof
    assume "base_id d = base_id e"
    then have d: "b_cmpid d = cid" "b_context d = ctx" "take_bit 16 (b_order d) = ?k" using n(4) de(2) by (auto simp: base_id_def)
    obtain k where "log_order_map L (cid, ctx) = Some k" "?k \<le> k" using bspec [OF i(2) de(1)] d by metis
    then show False using f(2) by fastforce
  qed
  have "distinct (map base_id (filter on_value new))" using n(5) by (auto simp: distinct_map inj_on_def base_id_def)
  then have "distinct (map base_id (filter on_value (log_conds L')))"
    using i(3) apart unfolding n(1) filter_append map_append distinct_append set_map set_filter by blast
  moreover have "unat k \<le> Suc n" if "log_order_map L' key = Some k" for key k
    using that i(1) [rule_format, of key k] f(1) [of cid ctx] o by (cases "key = (cid, ctx)") auto
  moreover have "take_bit 16 (b_order d) \<le> MAX_COND_ORDER \<and> (\<exists>k. log_order_map L' (b_cmpid d, b_context d) = Some k \<and> take_bit 16 (b_order d) \<le> k) \<and>
      (on_value d \<longrightarrow> has_tags L' d)" if "d \<in> set (log_conds L')" for d
  proof (cases "d \<in> set new")
    case True
    then show ?thesis using n(3,4) o by auto
  next
    case False
    then have "d \<in> set (log_conds L)" using that n(1) by simp
    then show ?thesis using i(2) old has_tags_mono [OF _ n(2)] by blast
  qed
  moreover have "dom (magic_bytes (log_data L')) \<subseteq> {..<length (log_conds L')}"
  proof -
    have "{..<length (log_conds L)} \<subseteq> {..<length (log_conds L')}" unfolding n(1) by simp
    then show ?thesis using n(6) i(4) by (meson Un_least order_refl order_trans)
  qed
  ultimately show ?thesis unfolding track_inv_def by blast
qed

lemma same_but_magic_inv:
  assumes "same_but_magic L L'" "track_inv n L"
  shows "track_inv (Suc n) L'"
proof -
  have "has_tags L' c = has_tags L c" for c using assms(1) by (simp add: has_tags_def same_but_magic_def)
  moreover have "dom (magic_bytes (log_data L')) \<subseteq> {..<length (log_conds L)}"
    using assms unfolding track_inv_def same_but_magic_def by (meson Un_least order_refl order_trans)
  ultimately show ?thesis using assms unfolding track_inv_def same_but_magic_def by (simp add: le_SucI)
qed

lemma track_run_inv: "track_run n s L \<Longrightarrow> n < 2 ^ 32 \<Longrightarrow> track_inv n L"
proof (induction rule: track_run.induct)
  case (start s)
  then show ?case by (simp add: track_inv_def TrackLogger_new_def)
next
  case (report n s L e s' L')
  then have "(\<exists>cid ctx. reported cid ctx L L') \<or> same_but_magic L L'"
    using cmp_reported switch_reported fn_reported exploit_reported by (cases e) (simp_all, metis+)
  then show ?case using reported_inv same_but_magic_inv report by fastforce
qed

text \<open>C27. The log of tracked conditions: whatever the program does between the reports, the log lists no condition on a value twice (by comparison, context and
  order), at most sixteen occurrences of a comparison in a context, all offsets of the labels of its conditions, and magic bytes only of
  conditions in the list.\<close>

theorem track_log_invariant:
  assumes "track_run n s L" "n < 2 ^ 32"
  shows "distinct (map base_id (filter (\<lambda>c. b_op c \<noteq> COND_LEN_OP) (cond_list (log_data L)))) \<and>
    (\<forall>c\<in>set (cond_list (log_data L)). take_bit 16 (b_order c) \<le> MAX_COND_ORDER \<and>
       (b_op c \<noteq> COND_LEN_OP \<longrightarrow> (\<forall>lb\<in>{b_lb1 c, b_lb2 c}. lb = 0 \<or> lb \<in> dom (log_tags (log_data L))))) \<and>
    dom (magic_bytes (log_data L)) \<subseteq> {..<length (cond_list (log_data L))}"
proof -
  have f: "on_value = (\<lambda>c. b_op c \<noteq> COND_LEN_OP)" by (rule ext) (simp add: on_value_def)
  have "track_inv n L" using track_run_inv assms by blast
  then show ?thesis unfolding track_inv_def f has_tags_def by blast
qed

text \<open>C28. A call of a comparison function that is reported too often is not logged, but its arguments are stored as the magic bytes of
  the last condition in the log, whatever that is.\<close>

theorem late_call_moves_magic_bytes:
  assumes "dfsw_trace_fn_tt cid ctx site n p1 p2 (s, Some L) = Some (s', Some L')" "n \<noteq> 0"
    "dfsan_read_label (base s) p1 (ucast n) = Some (lb, b)" "lb \<noteq> 0" "MAX_COND_ORDER < next_count cid ctx L" "cond_list (log_data L) \<noteq> []"
  shows "cond_list (log_data L') = cond_list (log_data L) \<and>
    magic_bytes (log_data L') (length (cond_list (log_data L)) - 1) =
      Some (map (\<lambda>i. mem (base s) (p1 + of_nat i)) [0..<unat n], map (\<lambda>i. mem (base s) (p2 + of_nat i)) [0..<unat n])"
proof -
  let ?m = "\<lambda>p. map (\<lambda>i. mem (base s) (p + of_nat i)) [0..<unat n]"
  have "unat n < 2 ^ 32" using unsigned_less [of n, where 'a = nat] by simp
  then have "unat n < 2 ^ 64" by simp
  then have u: "unat (ucast n :: u64) = unat n" by (simp add: unsigned_ucast_eq take_bit_nat_eq_self_iff)
  have "\<exists>s1 c. with_logger (\<lambda>s x. map_option (\<lambda>(ts, L). (ts, save_magic_bytes (?m p1, ?m p2) L)) (log_save (LEN_INFO s) c x)) (s1, Some L) = Some (s', Some L') \<and>
      b_cmpid c = cid \<and> b_context c = ctx \<and> b_order c = 0 \<and> b_op c = COND_FN_OP \<and> b_lb1 c = lb"
    using assms(1-4) unfolding dfsw_trace_fn_tt_def prod.case Let_def
    by (auto simp: slice_bytes_def u split: bind_splits if_splits) ((rule exI)+, rule conjI, assumption, simp)+
  then obtain s1 c where c: "b_cmpid c = cid" "b_context c = ctx" "b_order c = 0" "b_op c = COND_FN_OP" "b_lb1 c = lb"
      "with_logger (\<lambda>s x. map_option (\<lambda>(ts, L). (ts, save_magic_bytes (?m p1, ?m p2) L)) (log_save (LEN_INFO s) c x)) (s1, Some L) = Some (s', Some L')" by blast
  from c(6) obtain ts where "map_option (\<lambda>(ts, L). (ts, save_magic_bytes (?m p1, ?m p2) L)) (log_save (LEN_INFO s1) c (io_tags s1, L)) = Some (ts, L')"
    by (rule with_logger_Some)
  then obtain L1 where L1: "log_save (LEN_INFO s1) c (io_tags s1, L) = Some (ts, L1)" "L' = save_magic_bytes (?m p1, ?m p2) L1" by auto
  have "appends_cond c L L1" using log_save_appends [OF L1(1)] c assms(4) by simp
  then have "log_conds L1 = log_conds L" using count_first [of c L] c assms(5) by (simp add: appends_cond_def)
  then show ?thesis using assms(6) unfolding L1(2) by (simp add: save_magic_bytes_def upd_data_def)
qed

lemma save_switch_grows:
  "save_switch info c as (ts, L) = Some (ts', L') \<Longrightarrow> b_lb1 c \<noteq> 0 \<Longrightarrow> counted c \<Longrightarrow> \<exists>zs. log_conds L' = log_conds L @ zs"
proof (induction as arbitrary: ts L)
  case (Cons x as)
  obtain i a where x: "x = (i, a)" by (cases x)
  let ?c = "c\<lparr>b_order := b_order c + push_bit 16 (of_nat i), b_arg2 := a, b_condition := (if a = b_arg1 c then COND_DONE_ST else b_condition c)\<rparr>"
  obtain t1 L1 where s: "log_save info ?c (ts, L) = Some (t1, L1)" "save_switch info c as (t1, L1) = Some (ts', L')"
    using Cons.prems(1) by (auto simp: x split: bind_splits)
  have "appends_cond ?c L L1" using log_save_appends [OF s(1)] Cons.prems(2,3) by (simp add: counted_def)
  then have "\<exists>zs. log_conds L1 = log_conds L @ zs" by (auto simp: appends_cond_def split: if_splits)
  then show ?case using Cons.IH [OF s(2) Cons.prems(2,3)] by auto
qed simp

text \<open>The cases of a switch on a value with a length label are reported with the same order as the conditions on the length, so that
  conditions that are different count as equal.\<close>

lemma length_switch_collides:
  assumes "dfsw_trace_switch_tt cid ctx site n cond num args l3 (s, Some L) = Some (s', Some L')" "is_len_label l3" "2 \<le> unat num"
    "next_count cid ctx L \<le> MAX_COND_ORDER"
  shows "\<not> distinct (map base_id (log_conds L'))"
proof -
  have "l3 \<noteq> 0" using assms(2) by (auto simp: is_len_label_def)
  then obtain info c f ts ts' where s: "save_switch info c (map (\<lambda>i. (i, f i)) [0..<unat num]) (ts, L) = Some (ts', L')" "b_cmpid c = cid" "b_context c = ctx"
      "b_order c = 0" "b_lb1 c = l3" "b_lb2 c = 0" "counted c"
    by (rule switch_saves [OF assms(1)])
  let ?c = "\<lambda>i. c\<lparr>b_order := b_order c + push_bit 16 (of_nat i), b_arg2 := f i, b_condition := (if f i = b_arg1 c then COND_DONE_ST else b_condition c)\<rparr>"
  let ?k = "next_count cid ctx L"
  have "[0..<unat num] = 0 # 1 # [2..<unat num]" using assms(3) by (simp add: upt_rec numeral_2_eq_2)
  then obtain t1 L1 t2 L2 where t: "log_save info (?c 0) (ts, L) = Some (t1, L1)" "log_save info (?c 1) (t1, L1) = Some (t2, L2)"
      "save_switch info c (map (\<lambda>i. (i, f i)) [2..<unat num]) (t2, L2) = Some (ts', L')"
    using s(1) by (auto split: bind_splits)
  have a1: "appends_cond (?c 0) L L1" "appends_cond (?c 1) L1 L2"
    using log_save_appends [OF t(1)] log_save_appends [OF t(2)] s(5,7) \<open>l3 \<noteq> 0\<close> by (simp_all add: counted_def)
  have k: "count_of (?c 0) L = ?k" using count_first [of "?c 0" L] s(2-4) by simp
  then have "log_order_map L1 (cid, ctx) = Some ?k" using a1(1) s(2,3) by (simp add: appends_cond_def)
  then have k1: "count_of (?c 1) L1 = ?k" using count_later [of "?c 1" L1 ?k] s(2-4) by simp
  obtain d xs where d: "log_conds L1 = xs @ [d]" "base_id d = (cid, ctx, 0x10000 + ?k)"
    using a1(1) k assms(2,4) s(2,3,5) unfolding appends_cond_def by (auto simp: if_P)
  obtain e ys where e: "log_conds L2 = log_conds L1 @ e # ys" "base_id e = (cid, ctx, 0x10000 + ?k)"
    using a1(2) k1 assms(4) s(2-4) unfolding appends_cond_def by (auto simp: if_P push_bit_eq_mult)
  obtain zs where "log_conds L' = log_conds L2 @ zs" using save_switch_grows [OF t(3)] s(5,7) \<open>l3 \<noteq> 0\<close> by blast
  then show ?thesis using d e by simp
qed

section \<open>Sample runs\<close>

text \<open>A program whose memory all carries the label of offset 5.\<close>

definition labelled_io :: io where
  "labelled_io = (io_start (\<lambda>_. 65))\<lparr>base := (rt_start (\<lambda>_. 65))\<lparr>tags := Some sample_store, shadow := (\<lambda>_. 4)\<rparr>\<rparr>"

lemma sample_find: "\<exists>segs. tag_set_find (Some sample_store) (unat (4 :: u32)) = Some (segs, Some sample_store)"
proof -
  have "map_option snd (tag_find sample_store 4) = Some sample_store" by code_simp
  then show ?thesis by (auto simp: tag_set_find_def take_bit_eq_mod)
qed

definition exploited :: track_event where
  "exploited = TraceExploit 1 0 0 1 0x4000 65 4"

lemma exploited_logged: "\<exists>s L. report_event exploited (labelled_io, Some TrackLogger_new) = Some (s, Some L) \<and> length (cond_list (log_data L)) = 1"
proof -
  obtain segs where f: "tag_set_find (Some sample_store) 4 = Some (segs, Some sample_store)" using sample_find by auto
  have "\<not> is_len_label 4" by code_simp
  then show ?thesis
    by (simp add: exploited_def dfsw_trace_exploit_val_tt_def log_cmp_callsite_def with_logger_def log_save_def get_len_cond_def is_len_label_def MAX_NORMAL_LABEL_def
        log_get_order_def TrackLogger_new_def COND_AFL_OP_def MAX_COND_ORDER_def log_save_tag_def io_tags_def labelled_io_def f push_cond_def upd_data_def Let_def)
qed

theorem track_log_invariant_witness:
  "\<exists>s L. track_run 1 s L \<and> length (cond_list (log_data L)) = 1 \<and> dom (magic_bytes (log_data L)) \<subseteq> {..<1}"
proof -
  obtain s L where L: "report_event exploited (labelled_io, Some TrackLogger_new) = Some (s, Some L)" "length (cond_list (log_data L)) = 1"
    using exploited_logged by blast
  have "event_ok exploited" by code_simp
  then have r: "track_run (Suc 0) s L" using track_run.report [OF track_run.start _ L(1)] by blast
  then show ?thesis using track_log_invariant [OF r] L(2) by (intro exI [of _ s] exI [of _ L]) simp
qed

definition busy_logger :: TrackLogger where
  "busy_logger = \<lparr>log_data = \<lparr>cond_list = [\<lparr>b_cmpid = 1, b_context = 0, b_last_callsite = 0, b_order = 1, b_belong = 0, b_condition = 0, b_level = 0,
     b_op = 32, b_size = 1, b_lb1 = 4, b_lb2 = 0, b_arg1 = 65, b_arg2 = 66\<rparr>], log_tags = Map.empty, magic_bytes = Map.empty\<rparr>, log_order_map = [(7, 0) \<mapsto> 16]\<rparr>"

definition called :: track where
  "called = the (dfsw_trace_fn_tt 7 0 0 1 0x700000010000 0x700000010100 (labelled_io, Some busy_logger))"

theorem late_call_moves_magic_bytes_witness:
  "magic_bytes (log_data (the (snd called))) 0 = Some ([65], [65])"
proof -
  have d: "dfsw_trace_fn_tt 7 0 0 1 0x700000010000 0x700000010100 (labelled_io, Some busy_logger) \<noteq> None" "snd called \<noteq> None"
      "dfsan_read_label (base labelled_io) 0x700000010000 1 \<noteq> None" "fst (the (dfsan_read_label (base labelled_io) 0x700000010000 1)) = 4"
      "length (cond_list (log_data busy_logger)) = 1" "MAX_COND_ORDER < next_count 7 0 busy_logger" by code_simp+
  then have c: "dfsw_trace_fn_tt 7 0 0 1 0x700000010000 0x700000010100 (labelled_io, Some busy_logger) = Some (fst called, Some (the (snd called)))"
    by (simp add: called_def)
  obtain b where r: "dfsan_read_label (base labelled_io) 0x700000010000 (ucast (1 :: u32)) = Some (4, b)"
    using d(3,4) by (cases "dfsan_read_label (base labelled_io) 0x700000010000 1") auto
  have "cond_list (log_data busy_logger) \<noteq> []" using d(5) by auto
  note late_call_moves_magic_bytes [OF c _ r _ d(6) this, THEN conjunct2]
  moreover have "mem (base labelled_io) 0x700000010000 = 65" "mem (base labelled_io) 0x700000010100 = 65" by code_simp+
  ultimately show ?thesis by (simp add: d(5))
qed
end
