(* ===== verification/Pin_Log.thy ===== *)
theory Pin_Log
  imports Pin_Track Track_Log
begin

unbundle bit_operations_syntax

text \<open>
  The file of conditions between the tracker under Pin and the fuzzer: the reader \<^verbatim>\<open>fuzzer/src/track/load_pin_data.rs\<close>.  Structures are
  read as their bytes in memory, in the layout of C; \<open>None\<close> is the error of an unexpected end of the file.  A reader with
  the record of the writer recovers the log; the reader of the fuzzer has a record with one field more.
\<close>

section \<open>Reading\<close>

definition word32_at :: "u8 list \<Rightarrow> nat \<Rightarrow> u32" where
  "word32_at b i = ucast (b ! i) OR push_bit 8 (ucast (b ! (i + 1))) OR push_bit 16 (ucast (b ! (i + 2))) OR push_bit 24 (ucast (b ! (i + 3)))"

definition dword_at :: "u8 list \<Rightarrow> nat \<Rightarrow> u64" where
  "dword_at b i = ucast (word32_at b i) OR push_bit 32 (ucast (word32_at b (i + 4)))"

definition read_exact :: "nat \<Rightarrow> u8 list \<Rightarrow> (u8 list \<times> u8 list) option" where
  "read_exact n bs = (if length bs < n then None else Some (take n bs, drop n bs))"

definition read_struct :: "nat \<Rightarrow> (u8 list \<Rightarrow> 'a) \<Rightarrow> u8 list \<Rightarrow> ('a \<times> u8 list) option" where
  "read_struct n decode bs = map_option (map_prod decode id) (read_exact n bs)"

definition read_vector :: "nat \<Rightarrow> (u8 list \<Rightarrow> 'a) \<Rightarrow> nat \<Rightarrow> u8 list \<Rightarrow> ('a list \<times> u8 list) option" where
  "read_vector n decode k bs =
     (if 0 < k then map_option (map_prod (\<lambda>b. map (\<lambda>i. decode (take n (drop (n * i) b))) [0..<k]) id) (read_exact (n * k) bs)
      else Some ([], bs))"

definition seg_of :: "u8 list \<Rightarrow> TagSeg" where
  "seg_of b = \<lparr>seg_sign = (b ! 0 \<noteq> 0), seg_begin = word32_at b 4, seg_end = word32_at b 8\<rparr>"

text \<open>\<^verbatim>\<open>CondStmtBase\<close>: eleven words of 32 bits, four bytes of padding, two words of 64 bits.\<close>

definition cond_base_of :: "u8 list \<Rightarrow> CondStmtBase" where
  "cond_base_of b = \<lparr>b_cmpid = word32_at b 0, b_context = word32_at b 4, b_last_callsite = word32_at b 8, b_order = word32_at b 12, b_belong = word32_at b 16,
     b_condition = word32_at b 20, b_level = word32_at b 24, b_op = word32_at b 28, b_size = word32_at b 32, b_lb1 = word32_at b 36, b_lb2 = word32_at b 40,
     b_arg1 = dword_at b 48, b_arg2 = dword_at b 56\<rparr>"

fun read_tags :: "nat \<Rightarrow> u8 list \<Rightarrow> (u32 \<rightharpoonup> TagSeg list) \<Rightarrow> ((u32 \<rightharpoonup> TagSeg list) \<times> u8 list) option" where
  "read_tags 0 bs m = Some (m, bs)"
| "read_tags (Suc k) bs m = do {
     ((lb, n), bs) \<leftarrow> read_struct 8 (\<lambda>b. (word32_at b 0, word32_at b 4)) bs;
     (segs, bs) \<leftarrow> read_vector 12 seg_of (unat n) bs;
     read_tags k bs (m(lb \<mapsto> segs))
   }"

fun read_mbs :: "nat \<Rightarrow> u8 list \<Rightarrow> (nat \<rightharpoonup> u8 list \<times> u8 list) \<Rightarrow> ((nat \<rightharpoonup> u8 list \<times> u8 list) \<times> u8 list) option" where
  "read_mbs 0 bs m = Some (m, bs)"
| "read_mbs (Suc k) bs m = do {
     ((i, n1, n2), bs) \<leftarrow> read_struct 12 (\<lambda>b. (word32_at b 0, word32_at b 4, word32_at b 8)) bs;
     (a1, bs) \<leftarrow> read_vector 1 hd (unat n1) bs;
     (a2, bs) \<leftarrow> read_vector 1 hd (unat n2) bs;
     read_mbs k bs (m(unat i \<mapsto> (a1, a2)))
   }"

text \<open>The reader for records of \<open>n\<close> bytes.\<close>

definition read_log :: "nat \<Rightarrow> (u8 list \<Rightarrow> 'a) \<Rightarrow> u8 list \<Rightarrow> ('a list \<times> (u32 \<rightharpoonup> TagSeg list) \<times> (nat \<rightharpoonup> u8 list \<times> u8 list)) option" where
  "read_log n decode bs = do {
     (num_cond, bs) \<leftarrow> read_struct 4 (\<lambda>b. word32_at b 0) bs;
     (num_tags, bs) \<leftarrow> read_struct 4 (\<lambda>b. word32_at b 0) bs;
     (num_mb, bs) \<leftarrow> read_struct 4 (\<lambda>b. word32_at b 0) bs;
     (cs, bs) \<leftarrow> read_vector n decode (unat num_cond) bs;
     (ts, bs) \<leftarrow> read_tags (unat num_tags) bs Map.empty;
     (ms, bs) \<leftarrow> read_mbs (unat num_mb) bs Map.empty;
     Some (cs, ts, ms)
   }"

definition get_log_data_pin :: "u8 list \<Rightarrow> LogData option" where
  "get_log_data_pin bs = map_option (\<lambda>(cs, ts, ms). \<lparr>cond_list = cs, log_tags = ts, magic_bytes = ms\<rparr>) (read_log 64 cond_base_of bs)"

section \<open>The record of the writer\<close>

definition cond_stmt_of :: "u8 list \<Rightarrow> CondStmt" where
  "cond_stmt_of b = \<lparr>c_cid = word32_at b 0, c_ctx = word32_at b 4, c_order = word32_at b 8, c_belong = word32_at b 12, c_condition = word32_at b 16,
     c_level = word32_at b 20, c_op = word32_at b 24, c_size = word32_at b 28, c_lb1 = word32_at b 32, c_lb2 = word32_at b 36,
     c_arg1 = dword_at b 40, c_arg2 = dword_at b 48\<rparr>"

lemma word32_le32: "ucast (ucast w :: u8) OR push_bit 8 (ucast (ucast (drop_bit 8 w) :: u8)) OR push_bit 16 (ucast (ucast (drop_bit 16 w) :: u8)) OR
  push_bit 24 (ucast (ucast (drop_bit 24 w) :: u8)) = (w :: u32)"
proof (rule bit_word_eqI)
  fix n assume "n < LENGTH(32)"
  then consider "n < 8" | "8 \<le> n" "n < 16" | "16 \<le> n" "n < 24" | "24 \<le> n" "n < 32" by fastforce
  then show "bit (ucast (ucast w :: u8) OR push_bit 8 (ucast (ucast (drop_bit 8 w) :: u8)) OR push_bit 16 (ucast (ucast (drop_bit 16 w) :: u8)) OR
      push_bit 24 (ucast (ucast (drop_bit 24 w) :: u8)) :: u32) n \<longleftrightarrow> bit w n" by cases (auto simp: bit_simps)
qed

lemma word32_at_le32: "i = length xs \<Longrightarrow> word32_at (xs @ le32 w @ ys) i = w"
  by (simp add: word32_at_def le32_def nth_append word32_le32)

lemma dword_halves: "ucast (ucast w :: u32) OR push_bit 32 (ucast (ucast (drop_bit 32 w) :: u32)) = (w :: u64)"
proof (rule bit_word_eqI)
  fix n assume "n < LENGTH(64)"
  then consider "n < 32" | "32 \<le> n" "n < 64" by fastforce
  then show "bit (ucast (ucast w :: u32) OR push_bit 32 (ucast (ucast (drop_bit 32 w) :: u32)) :: u64) n \<longleftrightarrow> bit w n" by cases (auto simp: bit_simps)
qed

lemma dword_at_le64:
  assumes "i = length xs"
  shows "dword_at (xs @ le64 w @ ys) i = w"
proof -
  have "word32_at (xs @ le64 w @ ys) i = ucast w" using word32_at_le32 [of i xs "ucast w" "le32 (ucast (drop_bit 32 w)) @ ys"] assms by (simp add: le64_def)
  moreover have "word32_at (xs @ le64 w @ ys) (i + 4) = ucast (drop_bit 32 w)"
    using word32_at_le32 [of "i + 4" "xs @ le32 (ucast w)" "ucast (drop_bit 32 w)" ys] assms by (simp add: le64_def)
  ultimately show ?thesis by (simp add: dword_at_def dword_halves)
qed

text \<open>The fields of a record in the bytes of the file.\<close>

lemma cond_fields:
  "word32_at (cond_bytes c @ r) 0 = c_cid c" "word32_at (cond_bytes c @ r) 4 = c_ctx c" "word32_at (cond_bytes c @ r) 8 = c_order c"
  "word32_at (cond_bytes c @ r) 12 = c_belong c" "word32_at (cond_bytes c @ r) 16 = c_condition c" "word32_at (cond_bytes c @ r) 20 = c_level c"
  "word32_at (cond_bytes c @ r) 24 = c_op c" "word32_at (cond_bytes c @ r) 28 = c_size c" "word32_at (cond_bytes c @ r) 32 = c_lb1 c"
  "word32_at (cond_bytes c @ r) 36 = c_lb2 c" "dword_at (cond_bytes c @ r) 40 = c_arg1 c" "dword_at (cond_bytes c @ r) 48 = c_arg2 c"
  "word32_at (cond_bytes c @ r) 40 = ucast (c_arg1 c)"
  unfolding cond_bytes_def le64_def word32_at_def dword_at_def le32_def by (simp_all add: word32_le32 dword_halves)

section \<open>Reading what was written\<close>

lemma read_struct_app: "length b = n \<Longrightarrow> read_struct n f (b @ r) = Some (f b, r)"
  by (simp add: read_struct_def read_exact_def)

lemma nth_chunk: "\<forall>x\<in>set xs. length x = n \<Longrightarrow> i < length xs \<Longrightarrow> take n (drop (n * i) (concat xs)) = xs ! i"
proof (induction xs arbitrary: i)
  case (Cons x xs)
  then show ?case by (cases i) simp_all
qed simp

lemma read_vector_app:
  assumes "\<forall>x\<in>set xs. length x = n"
  shows "read_vector n f (length xs) (concat xs @ r) = Some (map f xs, r)"
proof (cases "xs = []")
  case False
  have "length (concat xs) = n * length xs" using assms by (induction xs) auto
  then have "read_exact (n * length xs) (concat xs @ r) = Some (concat xs, r)" by (simp add: read_exact_def)
  moreover have "map (\<lambda>i. f (take n (drop (n * i) (concat xs)))) [0..<length xs] = map f xs" using nth_chunk [OF assms] by (auto intro: nth_equalityI)
  ultimately show ?thesis using False by (simp add: read_vector_def)
qed (simp add: read_vector_def)

lemma read_bytes_app: "length b = n \<Longrightarrow> read_vector 1 hd n (b @ r) = Some (b, r)"
  using read_vector_app [of "map (\<lambda>x. [x]) b" 1 hd r] by (simp add: concat_map_singleton o_def)

definition log_fits :: "pin_log \<Rightarrow> bool" where
  "log_fits V \<longleftrightarrow> length (conds V) < 2 ^ 32 \<and> length (tag_recs V) < 2 ^ 32 \<and> length (mbs V) < 2 ^ 32 \<and>
     list_all (\<lambda>(lb, t). length t < 2 ^ 32 \<and> list_all (\<lambda>g. length g = 12) t) (tag_recs V) \<and>
     list_all (\<lambda>(i, n1, n2, b1, b2). length b1 = unat n1 \<and> length b2 = unat n2) (mbs V)"

definition tag_map :: "(u32 \<times> u8 list list) list \<Rightarrow> (u32 \<rightharpoonup> TagSeg list) \<Rightarrow> (u32 \<rightharpoonup> TagSeg list)" where
  "tag_map ts m = fold (\<lambda>(lb, t) m. m(lb \<mapsto> map seg_of t)) ts m"

definition mb_map :: "mb_rec list \<Rightarrow> (nat \<rightharpoonup> u8 list \<times> u8 list) \<Rightarrow> (nat \<rightharpoonup> u8 list \<times> u8 list)" where
  "mb_map ms m = fold (\<lambda>(i, n1, n2, b1, b2) m. m(unat i \<mapsto> (b1, b2))) ms m"

lemma unat_count: "n < 2 ^ 32 \<Longrightarrow> unat (of_nat n :: u32) = n"
  by (simp add: unsigned_of_nat take_bit_nat_eq_self_iff)

lemma word32_at_0: "word32_at (le32 w) 0 = w" "word32_at (le32 w @ r) 0 = w" "word32_at (le32 v @ le32 w) 4 = w" "word32_at (le32 v @ le32 w @ r) 4 = w"
  "word32_at (le32 u @ le32 v @ le32 w) 8 = w"
  using word32_at_le32 [of 0 "[]" w "[]"] word32_at_le32 [of 0 "[]" w r] word32_at_le32 [of 4 "le32 v" w "[]"] word32_at_le32 [of 4 "le32 v" w r]
    word32_at_le32 [of 8 "le32 u @ le32 v" w "[]"] by simp_all

lemma read_tags_app:
  "list_all (\<lambda>(lb, t). length t < 2 ^ 32 \<and> list_all (\<lambda>g. length g = 12) t) ts \<Longrightarrow>
    read_tags (length ts) (concat (map tag_bytes ts) @ r) m = Some (tag_map ts m, r)"
proof (induction ts arbitrary: m)
  case (Cons x ts)
  obtain lb t where x: "x = (lb, t)" by (cases x)
  have t: "length t < 2 ^ 32" "\<forall>g\<in>set t. length g = 12" using Cons.prems by (simp_all add: x list_all_iff)
  let ?r = "concat (map tag_bytes ts) @ r"
  have "read_struct 8 (\<lambda>b. (word32_at b 0, word32_at b 4)) ((le32 lb @ le32 (of_nat (length t))) @ concat t @ ?r) = Some ((lb, of_nat (length t)), concat t @ ?r)"
    by (subst read_struct_app) (simp_all add: word32_at_0)
  then show ?case using read_vector_app [OF t(2), of seg_of ?r] unat_count [OF t(1)] Cons by (simp add: x tag_map_def)
qed (simp add: tag_map_def)

lemma read_mbs_app:
  "list_all (\<lambda>(i, n1, n2, b1, b2). length b1 = unat n1 \<and> length b2 = unat n2) ms \<Longrightarrow>
    read_mbs (length ms) (concat (map mb_bytes ms) @ r) m = Some (mb_map ms m, r)"
proof (induction ms arbitrary: m)
  case (Cons x ms)
  obtain i n1 n2 b1 b2 where x: "x = (i, n1, n2, b1, b2)" by (cases x)
  have b: "length b1 = unat n1" "length b2 = unat n2" using Cons.prems by (simp_all add: x)
  let ?r = "concat (map mb_bytes ms) @ r"
  have "read_struct 12 (\<lambda>b. (word32_at b 0, word32_at b 4, word32_at b 8)) ((le32 i @ le32 n1 @ le32 n2) @ b1 @ b2 @ ?r) = Some ((i, n1, n2), b1 @ b2 @ ?r)"
    by (subst read_struct_app) (simp_all add: word32_at_0)
  then show ?case using read_bytes_app [OF b(1), of "b2 @ ?r"] read_bytes_app [OF b(2), of ?r] Cons by (simp add: x mb_map_def)
qed (simp add: mb_map_def)

lemma cond_stmt_of_bytes: "cond_stmt_of (cond_bytes c) = c"
  using cond_fields [of c "[]"] by (simp add: cond_stmt_of_def)

lemma read_header: "read_struct 4 (\<lambda>b. word32_at b 0) (le32 w @ r) = Some (w, r)"
  by (subst read_struct_app) (simp_all add: word32_at_0)

lemma read_log_file:
  assumes "log_fits V"
  shows "read_log n f (file_bytes V) = do {
    (cs, bs) \<leftarrow> read_vector n f (length (conds V)) (concat (map cond_bytes (conds V)) @ concat (map tag_bytes (tag_recs V)) @ concat (map mb_bytes (mbs V)));
    (ts, bs) \<leftarrow> read_tags (length (tag_recs V)) bs Map.empty;
    (ms, bs) \<leftarrow> read_mbs (length (mbs V)) bs Map.empty;
    Some (cs, ts, ms)
  }"
  using assms by (simp add: read_log_def file_bytes_def read_header log_fits_def unat_count)


text \<open>C32. The fuzzer misreads the file: its record has a field for the last call site behind the context and is 64 bytes long instead of 56.  A file
  with conditions only is rejected; from any other that it accepts it takes the order of the first condition for the call
  site and every later field from its neighbour, with order 0, the size as the operation and the labels shifted.\<close>

theorem pin_file_misread:
  assumes "log_fits V" "conds V = c # cs"
  shows "(tag_recs V = [] \<and> mbs V = [] \<longrightarrow> get_log_data_pin (file_bytes V) = None) \<and>
    (\<forall>d. get_log_data_pin (file_bytes V) = Some d \<longrightarrow> (\<exists>e es. cond_list d = e # es \<and> b_cmpid e = c_cid c \<and> b_context e = c_ctx c \<and>
       b_last_callsite e = c_order c \<and> b_order e = c_belong c \<and> b_belong e = c_condition c \<and> b_condition e = c_level c \<and> b_level e = c_op c \<and>
       b_op e = c_size c \<and> b_size e = c_lb1 c \<and> b_lb1 e = c_lb2 c \<and> b_lb2 e = ucast (c_arg1 c) \<and> b_arg1 e = c_arg2 c))"
proof -
  define rest where "rest = concat (map cond_bytes cs) @ concat (map tag_bytes (tag_recs V)) @ concat (map mb_bytes (mbs V))"
  let ?bs = "cond_bytes c @ rest" and ?n = "length (conds V)"
  have l: "length (concat (map cond_bytes xs)) = 56 * length xs" for xs by (induction xs) simp_all
  have r: "read_log 64 cond_base_of (file_bytes V) = read_vector 64 cond_base_of ?n ?bs \<bind> (\<lambda>(cs, bs). read_tags (length (tag_recs V)) bs Map.empty \<bind>
      (\<lambda>(ts, bs). read_mbs (length (mbs V)) bs Map.empty \<bind> (\<lambda>(ms, bs). Some (cs, ts, ms))))"
    using read_log_file [OF assms(1), of 64 cond_base_of] by (simp add: assms(2) rest_def)
  have "get_log_data_pin (file_bytes V) = None" if "tag_recs V = []" "mbs V = []"
    using that l by (simp add: get_log_data_pin_def r read_vector_def read_exact_def assms(2) rest_def)
  moreover have "\<exists>e es. cond_list d = e # es \<and> e = cond_base_of (cond_bytes c @ take 8 rest)" if d: "get_log_data_pin (file_bytes V) = Some d" for d
  proof -
    obtain es bs where v: "read_vector 64 cond_base_of ?n ?bs = Some (es, bs)" "cond_list d = es"
      using d by (auto simp: get_log_data_pin_def r split: bind_splits)
    have "take 64 (drop (64 * 0) (take (64 * ?n) ?bs)) = cond_bytes c @ take 8 rest" using assms(2) by simp
    moreover have "es = map (\<lambda>i. cond_base_of (take 64 (drop (64 * i) (take (64 * ?n) ?bs)))) (0 # [1..<?n])"
    proof -
      have "0 < ?n" using assms(2) by simp
      moreover from this have "0 # [1..<?n] = [0..<?n]" by (simp add: upt_conv_Cons)
      ultimately show ?thesis using v(1) unfolding read_vector_def read_exact_def by (simp split: if_splits)
    qed
    ultimately show ?thesis using v(2) by (simp only: list.map) blast
  qed
  moreover note cond_fields [of c "take 8 rest"]
  ultimately show ?thesis by (fastforce simp: cond_base_of_def)
qed

section \<open>A sample file\<close>

definition sample_pin_log :: pin_log where
  "sample_pin_log = \<lparr>conds = [\<lparr>c_cid = 11, c_ctx = 0, c_order = 1, c_belong = 0, c_condition = 1, c_level = 0, c_op = 32, c_size = 4, c_lb1 = 7, c_lb2 = 0,
     c_arg1 = 65, c_arg2 = 66\<rparr>], tag_recs = [(7, [[1, 0, 0, 0, 0, 0, 0, 0, 1, 0, 0, 0]])], mbs = []\<rparr>"

lemma sample_pin_fits: "log_fits sample_pin_log"
  by (simp add: log_fits_def sample_pin_log_def)


theorem pin_file_misread_witness:
  "\<exists>d e. get_log_data_pin (file_bytes sample_pin_log) = Some d \<and> cond_list d = [e] \<and> b_last_callsite e = 1 \<and> b_op e = 4 \<and> b_lb1 e = 0"
proof -
  have "get_log_data_pin (file_bytes sample_pin_log) \<noteq> None" "length (cond_list (the (get_log_data_pin (file_bytes sample_pin_log)))) = 1" by code_simp+
  then obtain d where d: "get_log_data_pin (file_bytes sample_pin_log) = Some d" "length (cond_list d) = 1" by auto
  then show ?thesis using pin_file_misread [OF sample_pin_fits] by (auto simp: sample_pin_log_def)
qed
end
