(* ===== verification/San_Flags.thy ===== *)
theory San_Flags
  imports Dfsan_Runtime
begin

text \<open>
  The options of the taint runtime: the parser of \<^verbatim>\<open>sanitizer_flag_parser.cc\<close>, the tables of \<^verbatim>\<open>sanitizer_flags.inc\<close> and
  \<^verbatim>\<open>dfsan_flags.inc\<close>, files of options, and \<^verbatim>\<open>InitializeFlags\<close> of \<^verbatim>\<open>dfsan.cc\<close>, which reads \<^verbatim>\<open>DFSAN_OPTIONS\<close>.  A string is the list of
  characters in front of its terminator, and a pointer into a string the rest of the list.  \<open>None\<close> is an access outside a
  buffer or a stack that overflows; \<open>Inl\<close> is the death of the program, with everything printed so far.
\<close>

section \<open>Numbers and strings\<close>

definition IsSpace :: "char \<Rightarrow> bool" where
  "IsSpace c \<longleftrightarrow> c \<in> {CHR '' '', CHR 0x0A, CHR 0x09, CHR 0x0C, CHR 0x0D, CHR 0x0B}"

definition IsDigit :: "char \<Rightarrow> bool" where
  "IsDigit c \<longleftrightarrow> 48 \<le> (of_char c :: nat) \<and> (of_char c :: nat) \<le> 57"

text \<open>A \<^verbatim>\<open>char\<close> is signed; the conversion to \<^verbatim>\<open>unsigned\<close> extends the sign.\<close>

definition char_unsigned :: "char \<Rightarrow> u32" where
  "char_unsigned c = scast (of_nat (of_char c) :: u8)"

fun internal_strcmp :: "string \<Rightarrow> string \<Rightarrow> int" where
  "internal_strcmp [] [] = 0"
| "internal_strcmp [] (d # t) = (if 0 \<noteq> char_unsigned d then - 1 else 0)"
| "internal_strcmp (c # s) [] = (if char_unsigned c \<noteq> 0 then 1 else 0)"
| "internal_strcmp (c # s) (d # t) =
     (if char_unsigned c \<noteq> char_unsigned d then (if char_unsigned c < char_unsigned d then - 1 else 1)
      else if char_unsigned c = 0 then 0 else internal_strcmp s t)"

definition UINT64_MAX :: u64 where "UINT64_MAX = - 1"
definition INT64_MAX :: u64 where "INT64_MAX = 0x7FFFFFFFFFFFFFFF"
definition INT64_MIN :: u64 where "INT64_MIN = 0x8000000000000000"

fun strtoll_digits :: "string \<Rightarrow> u64 \<Rightarrow> bool \<Rightarrow> u64 \<times> bool \<times> string" where
  "strtoll_digits [] res have_digits = (res, have_digits, [])"
| "strtoll_digits (c # s) res have_digits =
     (if IsDigit c
      then let res = (if res \<le> UINT64_MAX div 10 then res * 10 else UINT64_MAX); digit = of_nat (of_char c - 48) in
        strtoll_digits s (if res \<le> UINT64_MAX - digit then res + digit else UINT64_MAX) True
      else (res, have_digits, c # s))"

text \<open>The value, in two's complement, and the end of the number.\<close>

definition internal_simple_strtoll :: "string \<Rightarrow> u64 \<times> string" where
  "internal_simple_strtoll nptr =
     (let old_nptr = dropWhile IsSpace nptr;
          (negative, nptr) = (case old_nptr of [] \<Rightarrow> (False, []) | c # s \<Rightarrow>
             if c = CHR ''+'' then (False, s) else if c = CHR ''-'' then (True, s) else (False, c # s));
          (res, have_digits, nptr) = strtoll_digits nptr 0 False in
      (if \<not> negative then min INT64_MAX res else if INT64_MAX < res then INT64_MIN else res * - 1,
       if have_digits then nptr else old_nptr))"

section \<open>Flags and the state of the parser\<close>

datatype fval = FBool bool | FStr "string option" | FInt u32 | FUptr u64

text \<open>Handlers keep the variable they set, or whether a missing file is ignored.\<close>

datatype handler = HBool string | HStr string | HInt string | HUptr string | HInclude bool

record Flag =
  fl_name :: string
  fl_desc :: string
  fl_handler :: handler

record FlagParser =
  parser_flags :: "Flag list"
  vals :: "string \<Rightarrow> fval option" \<comment> \<open>the variables\<close>
  unknown_flags :: "string list"
  printed :: string

text \<open>Files, with the error number of those that cannot be read, and what the system tells about the process.\<close>

record FlagEnv =
  page_size :: nat
  file_at :: "string \<Rightarrow> int + string"
  process_name :: "string option"
  process_id :: nat

type_synonym 'a flag_result = "(string + 'a) option"

definition kMaxUnknownFlags :: nat where "kMaxUnknownFlags = 20"
definition kMaxFlags :: nat where "kMaxFlags = 200"
definition kMaxIncludeSize :: nat where "kMaxIncludeSize = 32768"
definition kMaxPathLength :: nat where "kMaxPathLength = 4096"

definition Print :: "string \<Rightarrow> FlagParser \<Rightarrow> FlagParser" where
  "Print text st = st\<lparr>printed := printed st @ text\<rparr>"

definition fatal_error :: "string \<Rightarrow> FlagParser \<Rightarrow> 'a flag_result" where
  "fatal_error err st = Some (Inl (printed (Print (''ERROR: '' @ err @ nl) st)))"

definition check_failed :: "string \<Rightarrow> FlagParser \<Rightarrow> 'a flag_result" where
  "check_failed cond st = Some (Inl (printed (Print (''CHECK failed: '' @ cond @ nl) st)))"

definition Add :: "string \<Rightarrow> FlagParser \<Rightarrow> FlagParser flag_result" where
  "Add name st =
     (if length (unknown_flags st) < kMaxUnknownFlags then Some (Inr (st\<lparr>unknown_flags := unknown_flags st @ [name]\<rparr>))
      else check_failed ''((n_unknown_flags_)) < ((kMaxUnknownFlags))'' st)"

definition UnknownFlags_Report :: "FlagParser \<Rightarrow> FlagParser" where
  "UnknownFlags_Report st =
     (if unknown_flags st = [] then st
      else (Print (''WARNING: found '' @ show_nat (length (unknown_flags st)) @ '' unrecognized flag(s):'' @ nl @
             concat (map (\<lambda>f. ''    '' @ f @ nl) (unknown_flags st))) st)\<lparr>unknown_flags := []\<rparr>)"

definition PrintFlagDescriptions :: "FlagParser \<Rightarrow> FlagParser" where
  "PrintFlagDescriptions st =
     Print (''Available flags for '' @ ''SanitizerTool'' @ '':'' @ nl @
       concat (map (\<lambda>f. [CHR 0x09] @ fl_name f @ nl @ [CHR 0x09, CHR 0x09] @ ''- '' @ fl_desc f @ nl) (parser_flags st))) st"

definition RegisterHandler :: "string \<Rightarrow> handler \<Rightarrow> string \<Rightarrow> FlagParser \<Rightarrow> FlagParser flag_result" where
  "RegisterHandler name h desc st =
     (if length (parser_flags st) < kMaxFlags
      then Some (Inr (st\<lparr>parser_flags := parser_flags st @ [\<lparr>fl_name = name, fl_desc = desc, fl_handler = h\<rparr>]\<rparr>))
      else check_failed ''((n_flags_)) < ((kMaxFlags))'' st)"

section \<open>Handlers\<close>

definition set_val :: "string \<Rightarrow> fval \<Rightarrow> FlagParser \<Rightarrow> FlagParser" where
  "set_val x v st = st\<lparr>vals := (vals st)(x \<mapsto> v)\<rparr>"

definition invalid_value :: "string \<Rightarrow> string \<Rightarrow> FlagParser \<Rightarrow> bool \<times> FlagParser" where
  "invalid_value type value st = (False, Print (''ERROR: Invalid value for '' @ type @ '' option: '' @ [CHR 0x27] @ value @ [CHR 0x27] @ nl) st)"

definition Parse_bool :: "string \<Rightarrow> string \<Rightarrow> FlagParser \<Rightarrow> bool \<times> FlagParser" where
  "Parse_bool t value st =
     (if internal_strcmp value ''0'' = 0 \<or> internal_strcmp value ''no'' = 0 \<or> internal_strcmp value ''false'' = 0 then (True, set_val t (FBool False) st)
      else if internal_strcmp value ''1'' = 0 \<or> internal_strcmp value ''yes'' = 0 \<or> internal_strcmp value ''true'' = 0 then (True, set_val t (FBool True) st)
      else invalid_value ''bool'' value st)"

definition Parse_str :: "string \<Rightarrow> string \<Rightarrow> FlagParser \<Rightarrow> bool \<times> FlagParser" where
  "Parse_str t value st = (True, set_val t (FStr (Some value)) st)"

definition Parse_int :: "string \<Rightarrow> string \<Rightarrow> FlagParser \<Rightarrow> bool \<times> FlagParser" where
  "Parse_int t value st =
     (let (v, value_end) = internal_simple_strtoll value; st = set_val t (FInt (ucast v)) st in
      if value_end = [] then (True, st) else invalid_value ''int'' value st)"

definition Parse_uptr :: "string \<Rightarrow> string \<Rightarrow> FlagParser \<Rightarrow> bool \<times> FlagParser" where
  "Parse_uptr t value st =
     (let (v, value_end) = internal_simple_strtoll value; st = set_val t (FUptr v) st in
      if value_end = [] then (True, st) else invalid_value ''uptr'' value st)"

text \<open>The decimal digits of the process number, written backwards into an array.\<close>

fun pid_digits :: "nat \<Rightarrow> string \<Rightarrow> string" where
  "pid_digits pid buf = (let buf = digit (pid mod 10) # buf in if pid div 10 = 0 then buf else pid_digits (pid div 10) buf)"

declare pid_digits.simps [simp del]

text \<open>\<open>room\<close> is the space in front of the last byte of the output.\<close>

fun SubstituteForFlagValue :: "FlagEnv \<Rightarrow> string \<Rightarrow> nat \<Rightarrow> string option" where
  "SubstituteForFlagValue E [] room = (if 0 < room then Some [] else None)"
| "SubstituteForFlagValue E (c # s) room =
     (if room = 0 then None
      else if c \<noteq> CHR ''%'' then map_option ((#) c) (SubstituteForFlagValue E s (room - 1))
      else (case s of
          [] \<Rightarrow> map_option ((#) c) (SubstituteForFlagValue E s (room - 1))
        | d # r \<Rightarrow>
            if d = CHR ''b'' then (case process_name E of
                None \<Rightarrow> None
              | Some base \<Rightarrow> map_option (append (take room base)) (SubstituteForFlagValue E r (room - length base)))
            else if d = CHR ''p'' then
              (let ds = pid_digits (process_id E) [] in
               map_option (append (take room ds)) (SubstituteForFlagValue E r (room - length ds)))
            else map_option ((#) c) (SubstituteForFlagValue E s (room - 1))))"

text \<open>One attempt to read a file, page by page: the number of bytes read and whether the end was seen.\<close>

function read_pages :: "nat \<Rightarrow> nat \<Rightarrow> string \<Rightarrow> nat \<Rightarrow> nat \<times> bool" where
  "read_pages P len data read_len =
     (if read_len + P \<le> len
      then let just_read = min P (length data - read_len) in
        if just_read = 0 then (read_len, True) else read_pages P len data (read_len + just_read)
      else (read_len, False))"
  by pat_completeness auto
termination by (relation "measure (\<lambda>(P, len, data, read_len). len - read_len)") auto

declare read_pages.simps [simp del]

text \<open>The sizes that are tried; page sizes are positive.  The result is the contents of the mapped buffer.\<close>

function read_sizes :: "nat \<Rightarrow> nat \<Rightarrow> nat \<Rightarrow> string \<Rightarrow> string option \<Rightarrow> string option" where
  "read_sizes P len max_len data buff =
     (if 0 < len \<and> len \<le> max_len
      then let (read_len, reached_eof) = read_pages P len data 0;
               buff = Some (take read_len data @ replicate (len - read_len) (CHR 0x00)) in
        if reached_eof then buff else read_sizes P (2 * len) max_len data buff
      else buff)"
  by pat_completeness auto
termination by (relation "measure (\<lambda>(P, len, max_len, data, buff). Suc max_len - len)") auto

declare read_sizes.simps [simp del]

definition ReadFileToBuffer :: "FlagEnv \<Rightarrow> string \<Rightarrow> nat \<Rightarrow> int + string option" where
  "ReadFileToBuffer E path max_len =
     (case file_at E path of Inl err \<Rightarrow> Inl err | Inr data \<Rightarrow> Inr (read_sizes (page_size E) (page_size E) max_len data None))"

text \<open>\<open>parse\<close> stands for the nested call of \<^verbatim>\<open>ParseString\<close>.\<close>

definition ParseFile ::
    "FlagEnv \<Rightarrow> (string \<Rightarrow> FlagParser \<Rightarrow> FlagParser flag_result) \<Rightarrow> string \<Rightarrow> bool \<Rightarrow> FlagParser \<Rightarrow> (bool \<times> FlagParser) flag_result" where
  "ParseFile E parse path ignore_missing st =
     (case ReadFileToBuffer E path (max kMaxIncludeSize (page_size E)) of
        Inl err \<Rightarrow>
          if ignore_missing then Some (Inr (True, st))
          else Some (Inr (False, Print (''Failed to read options from '' @ [CHR 0x27] @ path @ [CHR 0x27] @ '': error '' @ show_int err @ nl) st))
      | Inr None \<Rightarrow> Some (Inr (True, st))
      | Inr (Some data) \<Rightarrow>
          if CHR 0x00 \<notin> set data then None
          else and_then (parse (takeWhile (\<lambda>c. c \<noteq> CHR 0x00) data) st) (\<lambda>st. Some (Inr (True, st))))"

definition Parse_include ::
    "FlagEnv \<Rightarrow> (string \<Rightarrow> FlagParser \<Rightarrow> FlagParser flag_result) \<Rightarrow> bool \<Rightarrow> string \<Rightarrow> FlagParser \<Rightarrow> (bool \<times> FlagParser) flag_result" where
  "Parse_include E parse ignore_missing value st =
     (if CHR ''%'' \<in> set value
      then (case SubstituteForFlagValue E value (kMaxPathLength - 1) of
          None \<Rightarrow> check_failed ''((out < out_end - 1)) != (0)'' st
        | Some path \<Rightarrow> ParseFile E parse path ignore_missing st)
      else ParseFile E parse value ignore_missing st)"

fun Parse ::
    "FlagEnv \<Rightarrow> (string \<Rightarrow> FlagParser \<Rightarrow> FlagParser flag_result) \<Rightarrow> handler \<Rightarrow> string \<Rightarrow> FlagParser \<Rightarrow> (bool \<times> FlagParser) flag_result" where
  "Parse E parse (HBool t) value st = Some (Inr (Parse_bool t value st))"
| "Parse E parse (HStr t) value st = Some (Inr (Parse_str t value st))"
| "Parse E parse (HInt t) value st = Some (Inr (Parse_int t value st))"
| "Parse E parse (HUptr t) value st = Some (Inr (Parse_uptr t value st))"
| "Parse E parse (HInclude ignore_missing) value st = Parse_include E parse ignore_missing value st"

definition run_handler ::
    "FlagEnv \<Rightarrow> (string \<Rightarrow> FlagParser \<Rightarrow> FlagParser flag_result) \<Rightarrow> string \<Rightarrow> string \<Rightarrow> FlagParser \<Rightarrow> (bool \<times> FlagParser) flag_result" where
  "run_handler E parse name value st =
     (case find (\<lambda>f. internal_strcmp name (fl_name f) = 0) (parser_flags st) of
        Some f \<Rightarrow> Parse E parse (fl_handler f) value st
      | None \<Rightarrow> and_then (Add name st) (\<lambda>st. Some (Inr (True, st))))"

section \<open>The parser\<close>

definition flag_is_space :: "char \<Rightarrow> bool" where
  "flag_is_space c \<longleftrightarrow> c \<in> {CHR '' '', CHR '','', CHR '':'', CHR 0x0A, CHR 0x09, CHR 0x0D}"

definition skip_whitespace :: "string \<Rightarrow> string" where
  "skip_whitespace s = dropWhile flag_is_space s"

text \<open>The name and the value of one flag and the rest of the text, or what is wrong.\<close>

definition scan_flag :: "string \<Rightarrow> string + string \<times> string \<times> string" where
  "scan_flag s =
     (let name = takeWhile (\<lambda>c. c \<noteq> CHR ''='' \<and> \<not> flag_is_space c) s in
      (case dropWhile (\<lambda>c. c \<noteq> CHR ''='' \<and> \<not> flag_is_space c) s of
         [] \<Rightarrow> Inl (''expected '' @ [CHR 0x27] @ ''='' @ [CHR 0x27])
       | c # s \<Rightarrow>
           if c \<noteq> CHR ''='' then Inl (''expected '' @ [CHR 0x27] @ ''='' @ [CHR 0x27])
           else if s \<noteq> [] \<and> hd s \<in> {CHR 0x27, CHR 0x22} then
             (let quote = hd s in
              (case dropWhile (\<lambda>c. c \<noteq> quote) (tl s) of
                 [] \<Rightarrow> Inl ''unterminated string''
               | _ # rest \<Rightarrow> Inr (name, takeWhile (\<lambda>c. c \<noteq> quote) (tl s), rest)))
           else Inr (name, takeWhile (\<lambda>c. \<not> flag_is_space c) s, dropWhile (\<lambda>c. \<not> flag_is_space c) s)))"

lemma length_dropWhile_less: "dropWhile P s = c # r \<Longrightarrow> length r < length s"
  by (metis length_Cons length_dropWhile_le less_eq_Suc_le)

lemma scan_flag_shorter: "scan_flag s = Inr (name, value, rest) \<Longrightarrow> length rest < length s"
  by (auto simp: scan_flag_def Let_def split: list.splits if_splits dest!: length_dropWhile_less
      intro: le_less_trans [OF length_dropWhile_le])

definition parse_flag ::
    "FlagEnv \<Rightarrow> (string \<Rightarrow> FlagParser \<Rightarrow> FlagParser flag_result) \<Rightarrow> string \<Rightarrow> string \<Rightarrow> FlagParser \<Rightarrow> FlagParser flag_result" where
  "parse_flag E parse name value st =
     and_then (run_handler E parse name value st) (\<lambda>(res, st). if res then Some (Inr st) else fatal_error ''Flag parsing failed.'' st)"

definition sanity_check :: "FlagParser \<Rightarrow> FlagParser" where
  "sanity_check st =
     (case vals st ''malloc_context_size'' of
        Some (FInt n) \<Rightarrow> if sint n < 1 then set_val ''malloc_context_size'' (FInt 1) st else st
      | _ \<Rightarrow> st)"

function parse_flags ::
    "FlagEnv \<Rightarrow> (string \<Rightarrow> FlagParser \<Rightarrow> FlagParser flag_result) \<Rightarrow> string \<Rightarrow> FlagParser \<Rightarrow> FlagParser flag_result" where
  "parse_flags E parse s st =
     (if skip_whitespace s = [] then Some (Inr (sanity_check st))
      else (case scan_flag (skip_whitespace s) of
          Inl err \<Rightarrow> fatal_error err st
        | Inr (name, value, rest) \<Rightarrow> and_then (parse_flag E parse name value st) (parse_flags E parse rest)))"
  by pat_completeness auto
termination
  by (relation "measure (\<lambda>(E, parse, s, st). length s)")
    (auto simp: skip_whitespace_def dest!: scan_flag_shorter intro: less_le_trans length_dropWhile_le)

declare parse_flags.simps [simp del]

text \<open>\<^verbatim>\<open>ParseString\<close> calls itself through files of options; \<open>depth\<close> bounds the nesting, as the stack does.\<close>

primrec ParseString :: "FlagEnv \<Rightarrow> nat \<Rightarrow> string \<Rightarrow> FlagParser \<Rightarrow> FlagParser flag_result" where
  "ParseString E 0 = (\<lambda>s st. None)"
| "ParseString E (Suc depth) = parse_flags E (ParseString E depth)"

section \<open>The flags of the runtime\<close>

definition runtime_common_flags :: "(string \<times> fval \<times> string) list" where
  "runtime_common_flags = [
     (''symbolize'', FBool True, ''If set, use the online symbolizer from common sanitizer runtime to turn virtual addresses to file/line locations.''),
     (''external_symbolizer_path'', FStr None, ''Path to external symbolizer. If empty, the tool will search $PATH for the symbolizer.''),
     (''allow_addr2line'', FBool False, ''If set, allows online symbolizer to run addr2line binary to symbolize stack traces (addr2line will only be used if llvm-symbolizer binary is unavailable.''),
     (''strip_path_prefix'', FStr (Some []), ''Strips this prefix from file paths in error reports.''),
     (''fast_unwind_on_check'', FBool False, ''If available, use the fast frame-pointer-based unwinder on internal CHECK failures.''),
     (''fast_unwind_on_fatal'', FBool False, ''If available, use the fast frame-pointer-based unwinder on fatal errors.''),
     (''fast_unwind_on_malloc'', FBool True, ''If available, use the fast frame-pointer-based unwinder on malloc/free.''),
     (''handle_ioctl'', FBool False, ''Intercept and handle ioctl requests.''),
     (''malloc_context_size'', FInt 1, ''Max number of stack frames kept for each allocation/deallocation.''),
     (''log_path'', FStr (Some ''stderr''), ''Write logs to '' @ dq @ ''log_path.pid'' @ dq @ ''. The special values are '' @ dq @ ''stdout'' @ dq @ '' and '' @ dq @ ''stderr'' @ dq @ ''. The default is '' @ dq @ ''stderr'' @ dq @ ''.''),
     (''log_exe_name'', FBool False, ''Mention name of executable when reporting error and append executable name to logs (as in '' @ dq @ ''log_path.exe_name.pid'' @ dq @ '').''),
     (''log_to_syslog'', FBool False, ''Write all sanitizer output to syslog in addition to other means of logging.''),
     (''verbosity'', FInt 0, ''Verbosity level (0 - silent, 1 - a bit of output, 2+ - more output).''),
     (''detect_leaks'', FBool True, ''Enable memory leak detection.''),
     (''leak_check_at_exit'', FBool True, ''Invoke leak checking in an atexit handler. Has no effect if detect_leaks=false, or if __lsan_do_leak_check() is called before the handler has a chance to run.''),
     (''allocator_may_return_null'', FBool False, ''If false, the allocator will crash instead of returning 0 on out-of-memory.''),
     (''print_summary'', FBool True, ''If false, disable printing error summaries in addition to error reports.''),
     (''check_printf'', FBool True, ''Check printf arguments.''),
     (''handle_segv'', FBool True, ''If set, registers the tool's custom SIGSEGV/SIGBUS handler.''),
     (''handle_abort'', FBool False, ''If set, registers the tool's custom SIGABRT handler.''),
     (''handle_sigill'', FBool False, ''If set, registers the tool's custom SIGILL handler.''),
     (''handle_sigfpe'', FBool True, ''If set, registers the tool's custom SIGFPE handler.''),
     (''allow_user_segv_handler'', FBool False, ''If set, allows user to register a SEGV handler even if the tool registers one.''),
     (''use_sigaltstack'', FBool True, ''If set, uses alternate stack for signal handling.''),
     (''detect_deadlocks'', FBool False, ''If set, deadlock detection is enabled.''),
     (''clear_shadow_mmap_threshold'', FUptr 65536, ''Large shadow regions are zero-filled using mmap(NORESERVE) instead of memset(). This is the threshold size in bytes.''),
     (''color'', FStr (Some ''auto''), ''Colorize reports: (always|never|auto).''),
     (''legacy_pthread_cond'', FBool False, ''Enables support for dynamic libraries linked with libpthread 2.2.5.''),
     (''intercept_tls_get_addr'', FBool False, ''Intercept __tls_get_addr.''),
     (''help'', FBool False, ''Print the flag descriptions.''),
     (''mmap_limit_mb'', FUptr 0, ''Limit the amount of mmap-ed memory (excluding shadow) in Mb; not a user-facing flag, used mosly for testing the tools''),
     (''hard_rss_limit_mb'', FUptr 0, ''Hard RSS limit in Mb. If non-zero, a background thread is spawned at startup which periodically reads RSS and aborts the process if the limit is reached''),
     (''soft_rss_limit_mb'', FUptr 0, ''Soft RSS limit in Mb. If non-zero, a background thread is spawned at startup which periodically reads RSS. If the limit is reached all subsequent malloc/new calls will fail or return NULL (depending on the value of allocator_may_return_null) until the RSS goes below the soft limit. This limit does not affect memory allocations other than malloc/new.''),
     (''heap_profile'', FBool False, ''Experimental heap profiler, asan-only''),
     (''allocator_release_to_os'', FBool False, ''Experimental. If true, try to periodically release unused memory to the OS.'' @ nl),
     (''can_use_proc_maps_statm'', FBool True, ''If false, do not attempt to read /proc/maps/statm. Mostly useful for testing sanitizers.'')]"

definition coverage_common_flags :: "(string \<times> fval \<times> string) list" where
  "coverage_common_flags = [
     (''coverage'', FBool False, ''If set, coverage information will be dumped at program shutdown (if the coverage instrumentation was enabled at compile time).''),
     (''coverage_pcs'', FBool True, ''If set (and if 'coverage' is set too), the coverage information will be dumped as a set of PC offsets for every module.''),
     (''coverage_order_pcs'', FBool False, ''If true, the PCs will be dumped in the order they've appeared during the execution.''),
     (''coverage_bitset'', FBool False, ''If set (and if 'coverage' is set too), the coverage information will also be dumped as a bitset to a separate file.''),
     (''coverage_counters'', FBool False, ''If set (and if 'coverage' is set too), the bitmap that corresponds to coverage counters will be dumped.''),
     (''coverage_direct'', FBool False, ''If set, coverage information will be dumped directly to a memory mapped file. This way data is not lost even if the process is suddenly killed.''),
     (''coverage_dir'', FStr (Some ''.''), ''Target directory for coverage dumps. Defaults to the current directory.''),
     (''full_address_space'', FBool False, ''Sanitize complete address space; by default kernel area on 32-bit platforms will not be sanitized''),
     (''print_suppressions'', FBool True, ''Print matched suppressions at exit.''),
     (''disable_coredump'', FBool True, ''Disable core dumping. By default, disable_coredump=1 on 64-bit to avoid dumping a 16T+ core file. Ignored on OSes that don't dump core by default and for sanitizers that don't reserve lots of virtual memory.''),
     (''use_madv_dontdump'', FBool True, ''If set, instructs kernel to not store the (huge) shadow in core file.''),
     (''symbolize_inline_frames'', FBool True, ''Print inlined frames in stacktraces. Defaults to true.''),
     (''symbolize_vs_style'', FBool False, ''Print file locations in Visual Studio style (e.g:  file(10,42): ...''),
     (''dedup_token_length'', FInt 0, ''If positive, after printing a stack trace also print a short string token based on this number of frames that will simplify deduplication of the reports. Example: 'DEDUP_TOKEN: foo-bar-main'. Default is 0.''),
     (''stack_trace_format'', FStr (Some ''DEFAULT''), ''Format string used to render stack frames. See sanitizer_stacktrace_printer.h for the format description. Use DEFAULT to get default format.''),
     (''no_huge_pages_for_shadow'', FBool True, ''If true, the shadow is not allowed to use huge pages. ''),
     (''strict_string_checks'', FBool False, ''If set check that string arguments are properly null-terminated''),
     (''intercept_strstr'', FBool True, ''If set, uses custom wrappers for strstr and strcasestr functions to find more errors.''),
     (''intercept_strspn'', FBool True, ''If set, uses custom wrappers for strspn and strcspn function to find more errors.''),
     (''intercept_strpbrk'', FBool True, ''If set, uses custom wrappers for strpbrk function to find more errors.''),
     (''intercept_strlen'', FBool True, ''If set, uses custom wrappers for strlen and strnlen functions to find more errors.''),
     (''intercept_strchr'', FBool True, ''If set, uses custom wrappers for strchr, strchrnul, and strrchr functions to find more errors.''),
     (''intercept_memcmp'', FBool True, ''If set, uses custom wrappers for memcmp function to find more errors.''),
     (''strict_memcmp'', FBool True, ''If true, assume that memcmp(p1, p2, n) always reads n bytes before comparing p1 and p2.''),
     (''intercept_memmem'', FBool True, ''If set, uses a wrapper for memmem() to find more errors.''),
     (''intercept_intrin'', FBool True, ''If set, uses custom wrappers for memset/memcpy/memmove intrinsics to find more errors.''),
     (''intercept_stat'', FBool True, ''If set, uses custom wrappers for *stat functions to find more errors.''),
     (''intercept_send'', FBool True, ''If set, uses custom wrappers for send* functions to find more errors.''),
     (''decorate_proc_maps'', FBool False, ''If set, decorate sanitizer mappings in /proc/self/maps with user-readable names''),
     (''exitcode'', FInt 1, ''Override the program exit status if the tool found an error''),
     (''abort_on_error'', FBool False, ''If set, the tool calls abort() instead of _exit() after printing the error report.''),
     (''suppress_equal_pcs'', FBool True, ''Deduplicate multiple reports for single source location in halt_on_error=false mode (asan only).''),
     (''print_cmdline'', FBool False, ''Print command line on crash (asan only).''),
     (''html_cov_report'', FBool False, ''Generate html coverage report.''),
     (''sancov_path'', FStr (Some ''sancov''), ''Sancov tool location.'')]"

definition sanitizer_flags_inc :: "(string \<times> fval \<times> string) list" where
  "sanitizer_flags_inc = runtime_common_flags @ coverage_common_flags"

definition dfsan_flags_inc :: "(string \<times> fval \<times> string) list" where
  "dfsan_flags_inc = [
     (''warn_unimplemented'', FBool True, ''Whether to warn on unimplemented functions.''),
     (''warn_nonzero_labels'', FBool False, ''Whether to warn on unimplemented functions.''),
     (''strict_data_dependencies'', FBool True, ''Whether to propagate labels only when there is an obvious data dependency(e.g., when comparing strings, ignore the fact that the output of thecomparison might be data-dependent on the content of the strings). Thisapplies only to the custom functions defined in 'custom.c'.''),
     (''dump_labels_at_exit'', FStr (Some []), ''The path of the file where to dump the labels when the program terminates.'')]"

fun handler_for :: "string \<Rightarrow> fval \<Rightarrow> handler" where
  "handler_for t (FBool _) = HBool t"
| "handler_for t (FStr _) = HStr t"
| "handler_for t (FInt _) = HInt t"
| "handler_for t (FUptr _) = HUptr t"

primrec register_table :: "(string \<times> fval \<times> string) list \<Rightarrow> FlagParser \<Rightarrow> FlagParser flag_result" where
  "register_table [] st = Some (Inr st)"
| "register_table (f # fs) st = (case f of (name, v, desc) \<Rightarrow> and_then (RegisterHandler name (handler_for name v) desc st) (register_table fs))"

definition RegisterIncludeFlags :: "FlagParser \<Rightarrow> FlagParser flag_result" where
  "RegisterIncludeFlags st =
     and_then (RegisterHandler ''include'' (HInclude False) ''read more options from the given file'' st)
       (RegisterHandler ''include_if_exists'' (HInclude True) ''read more options from the given file (if it exists)'')"

definition RegisterCommonFlags :: "FlagParser \<Rightarrow> FlagParser flag_result" where
  "RegisterCommonFlags st = and_then (register_table sanitizer_flags_inc st) RegisterIncludeFlags"

definition RegisterDfsanFlags :: "FlagParser \<Rightarrow> FlagParser flag_result" where
  "RegisterDfsanFlags st = register_table dfsan_flags_inc st"

definition default_vals :: "string \<Rightarrow> fval option" where
  "default_vals = map_of (map (\<lambda>(name, v, desc). (name, v)) (sanitizer_flags_inc @ dfsan_flags_inc))"

definition flag_is_true :: "string \<Rightarrow> FlagParser \<Rightarrow> bool" where
  "flag_is_true x st \<longleftrightarrow> vals st x = Some (FBool True)"

definition InitializeCommonFlags :: "FlagParser \<Rightarrow> FlagParser" where
  "InitializeCommonFlags st = set_val ''coverage'' (FBool (flag_is_true ''coverage'' st \<or> flag_is_true ''html_cov_report'' st)) st"

definition registered :: "FlagParser flag_result" where
  "registered =
     and_then (RegisterCommonFlags \<lparr>parser_flags = [], vals = default_vals, unknown_flags = [], printed = []\<rparr>) RegisterDfsanFlags"

definition InitializeFlags :: "FlagEnv \<Rightarrow> nat \<Rightarrow> string option \<Rightarrow> FlagParser flag_result" where
  "InitializeFlags E depth options =
     and_then registered (\<lambda>st.
     and_then (case options of None \<Rightarrow> Some (Inr st) | Some s \<Rightarrow> ParseString E depth s st) (\<lambda>st.
       let st = InitializeCommonFlags st;
           st = (if vals st ''verbosity'' \<noteq> Some (FInt 0) then UnknownFlags_Report st else st) in
       Some (Inr (if flag_is_true ''help'' st then PrintFlagDescriptions st else st))))"

text \<open>The flags as the operations of the runtime read them.\<close>

definition runtime_flags :: "FlagParser \<Rightarrow> Flags" where
  "runtime_flags st = \<lparr>warn_unimplemented = flag_is_true ''warn_unimplemented'' st, warn_nonzero_labels = flag_is_true ''warn_nonzero_labels'' st,
     strict_data_dependencies = flag_is_true ''strict_data_dependencies'' st\<rparr>"

section \<open>Comparison of strings\<close>

abbreviation no_nul :: "string \<Rightarrow> bool" where
  "no_nul s \<equiv> CHR 0x00 \<notin> set s"

lemma char_unsigned_eq [simp]: "char_unsigned c = char_unsigned d \<longleftrightarrow> c = d"
proof
  assume e: "char_unsigned c = char_unsigned d"
  have u: "ucast (scast w :: u32) = w" for w :: u8 by (rule bit_word_eqI) (simp add: bit_simps)
  have l: "of_char x < (256 :: nat)" for x by simp
  have "(of_nat (of_char c) :: u8) = of_nat (of_char d)" using arg_cong [OF e, of "ucast :: u32 \<Rightarrow> u8"] unfolding char_unsigned_def u .
  then have "of_char c = (of_char d :: nat)" using l [of c] l [of d] by (simp add: word_unat_eq_iff unsigned_of_nat take_bit_nat_eq_self)
  then show "c = d" by simp
qed simp

lemma char_unsigned_0 [simp]: "char_unsigned c = 0 \<longleftrightarrow> c = CHR 0x00"
proof -
  have "char_unsigned (CHR 0x00) = 0" by code_simp
  then show ?thesis by (metis char_unsigned_eq)
qed

lemma strcmp_eq: "no_nul s \<Longrightarrow> no_nul t \<Longrightarrow> internal_strcmp s t = 0 \<longleftrightarrow> s = t"
  by (induction s t rule: internal_strcmp.induct) (auto split: if_splits)

section \<open>The value of a number\<close>

lemma digit_step:
  fixes res :: u64
  assumes "d < 10"
  shows "unat (let res = (if res \<le> UINT64_MAX div 10 then res * 10 else UINT64_MAX); digit = of_nat d in
      if res \<le> UINT64_MAX - digit then res + digit else UINT64_MAX) = min (2 ^ 64 - 1) (10 * unat res + d)"
proof -
  have m1: "unat UINT64_MAX = 18446744073709551615" by (simp add: UINT64_MAX_def unsigned_minus_1_eq_mask mask_eq_exp_minus_1)
  then have "unat (UINT64_MAX div 10) = 1844674407370955161" by (simp add: unat_div)
  note m = m1 this
  have u: "unat (of_nat d :: u64) = d" using assms by (simp add: unsigned_of_nat take_bit_nat_eq_self)
  define r where "r = (if res \<le> UINT64_MAX div 10 then res * 10 else UINT64_MAX)"
  have b: "unat (if res \<le> UINT64_MAX - of_nat d then res + of_nat d else UINT64_MAX) = min (2 ^ 64 - 1) (unat res + d)" for res
  proof -
    have "unat (UINT64_MAX - of_nat d) = 18446744073709551615 - d"
      using m(1) u assms by (subst unat_sub) (simp_all add: word_le_nat_alt)
    moreover have "unat res + d < 2 ^ 64 \<Longrightarrow> unat (res + of_nat d) = unat res + d"
      using u by (simp add: unat_word_ariths)
    ultimately show ?thesis using m(1) assms by (auto simp: word_le_nat_alt)
  qed
  have "unat r = min 18446744073709551615 (10 * unat res)"
  proof (cases "res \<le> UINT64_MAX div 10")
    case True
    then have l: "unat res \<le> 1844674407370955161" using m(2) by (simp add: word_le_nat_alt)
    then have "unat (res * 10) = unat res * 10" by (simp add: unat_word_ariths)
    then show ?thesis using True l by (simp add: r_def)
  next
    case False
    then have "1844674407370955161 < unat res" using m(2) by (simp add: word_le_nat_alt)
    then show ?thesis using False m(1) by (simp add: r_def)
  qed
  then have "min (2 ^ 64 - 1) (unat r + d) = min (2 ^ 64 - 1) (10 * unat res + d)" by simp
  then show ?thesis unfolding Let_def r_def [symmetric] b [of r] .
qed

lemma read_nat_mono: "a \<le> b \<Longrightarrow> read_nat a ds \<le> read_nat b ds"
  by (induction ds arbitrary: a b) auto

lemma read_nat_ge: "a \<le> read_nat a ds"
proof (induction ds arbitrary: a)
  case (Cons d ds)
  show ?case using Cons [of "10 * a + (of_char d - 48)"] by simp
qed simp

lemma min_read_nat: "min M (read_nat (min M a) ds) = min M (read_nat a ds)" for M :: nat
proof (cases "a \<le> M")
  case False
  then show ?thesis using read_nat_ge [of M ds] read_nat_ge [of a ds] by simp
qed simp

lemma strtoll_digits_value:
  assumes "list_all IsDigit ds" "r = [] \<or> \<not> IsDigit (hd r)"
  shows "\<exists>w. strtoll_digits (ds @ r) res h = (w, h \<or> ds \<noteq> [], r) \<and> unat w = min (2 ^ 64 - 1) (read_nat (unat res) ds)"
  using assms
proof (induction ds arbitrary: res h)
  case Nil
  moreover have "unat res \<le> 2 ^ 64 - 1" using unsigned_less [of res, where 'a = nat] by simp
  ultimately show ?case by (cases r) auto
next
  case (Cons d ds)
  let ?d = "of_char d - 48 :: nat"
  define res' where "res' = (let res = (if res \<le> UINT64_MAX div 10 then res * 10 else UINT64_MAX); digit = of_nat ?d in
      if res \<le> UINT64_MAX - digit then res + digit else UINT64_MAX)"
  have d: "IsDigit d" "?d < 10" using Cons.prems(1) by (auto simp: IsDigit_def)
  obtain w where w: "strtoll_digits (ds @ r) res' True = (w, True, r)" "unat w = min (2 ^ 64 - 1) (read_nat (unat res') ds)"
    using Cons.IH [of res' True] Cons.prems by auto
  have "strtoll_digits ((d # ds) @ r) res h = strtoll_digits (ds @ r) res' True" using d(1) by (simp add: res'_def Let_def)
  moreover have "unat res' = min (2 ^ 64 - 1) (10 * unat res + ?d)" unfolding res'_def by (rule digit_step [OF d(2)])
  ultimately show ?case using w min_read_nat by simp
qed

text \<open>The number is the one that was written, moved into the range of 64-bit integers, and ends where the digits end.\<close>

definition clamped :: "int \<Rightarrow> int" where
  "clamped i = max (- (2 ^ 63)) (min (2 ^ 63 - 1) i)"

lemma clamped_id: "- (2 ^ 63) \<le> i \<Longrightarrow> i < 2 ^ 63 \<Longrightarrow> clamped i = i"
  by (simp add: clamped_def)

fun sign_char :: "bool option \<Rightarrow> string" where
  "sign_char None = []"
| "sign_char (Some negative) = (if negative then ''-'' else ''+'')"

lemma strtoll_value:
  assumes "list_all IsSpace ws" "list_all IsDigit ds" "ds \<noteq> []" "r = [] \<or> \<not> IsDigit (hd r)"
  shows "\<exists>w. internal_simple_strtoll (ws @ sign_char sg @ ds @ r) = (w, r) \<and>
    sint w = clamped ((if sg = Some True then - 1 else 1) * int (read_nat 0 ds))"
proof -
  obtain res where res: "strtoll_digits (ds @ r) 0 False = (res, True, r)" "unat res = min (2 ^ 64 - 1) (read_nat 0 ds)"
    using strtoll_digits_value [OF assms(2,4), of 0 False] assms(3) by auto
  have "IsDigit (hd ds)" using assms(2,3) by (cases ds) auto
  then have n: "\<not> IsSpace (hd ds)" "hd ds \<noteq> CHR ''+''" "hd ds \<noteq> CHR ''-''" by (auto simp: IsDigit_def IsSpace_def)
  have h: "\<not> IsSpace (hd (sign_char sg @ ds @ r))" using n(1) assms(3) by (cases sg) (auto simp: IsSpace_def)
  have s: "(case sign_char sg @ ds @ r of [] \<Rightarrow> (False, []) | c # s \<Rightarrow>
       if c = CHR ''+'' then (False, s) else if c = CHR ''-'' then (True, s) else (False, c # s)) = (sg = Some True, ds @ r)"
    using n(2,3) assms(3) by (cases sg; cases ds) auto
  have d: "dropWhile IsSpace (ws @ sign_char sg @ ds @ r) = sign_char sg @ ds @ r"
    using assms(1) h by (simp add: dropWhile_append2 list_all_iff dropWhile_eq_self_iff)
  let ?w = "if sg \<noteq> Some True then min INT64_MAX res else if INT64_MAX < res then INT64_MIN else res * - 1"
  have "internal_simple_strtoll (ws @ sign_char sg @ ds @ r) = (?w, r)"
    unfolding internal_simple_strtoll_def Let_def d s prod.case res(1) by simp
  moreover have "sint ?w = clamped ((if sg = Some True then - 1 else 1) * int (read_nat 0 ds))"
  proof -
    have m: "unat INT64_MAX = 9223372036854775807" "sint INT64_MIN = - 9223372036854775808" by (simp_all add: INT64_MAX_def INT64_MIN_def)
    have "unat (min INT64_MAX res) = min 9223372036854775807 (read_nat 0 ds)"
      using m(1) res(2) by (simp add: min_def word_le_nat_alt)
    then have "sint (min INT64_MAX res) = min 9223372036854775807 (int (read_nat 0 ds))" using sint_small [of "min INT64_MAX res"] by simp
    moreover have "sint (res * - 1) = - int (read_nat 0 ds)" if "\<not> INT64_MAX < res"
    proof -
      have "unat res \<le> 9223372036854775807" using that m(1) by (simp add: word_less_nat_alt)
      then show ?thesis using res(2) sint_minus_small [of res] by simp
    qed
    moreover have "9223372036854775807 < read_nat 0 ds" if "INT64_MAX < res" using that m(1) res(2) by (simp add: word_less_nat_alt)
    moreover have "read_nat 0 ds \<le> 9223372036854775807" if "\<not> INT64_MAX < res" using that m(1) res(2) by (simp add: word_less_nat_alt)
    ultimately show ?thesis using m(2) by (auto simp: clamped_def)
  qed
  ultimately show ?thesis by blast
qed

lemma show_nat_digits: "list_all IsDigit (show_nat n) \<and> show_nat n \<noteq> []"
proof (induction n rule: show_nat.induct)
  case (1 n)
  have "IsDigit (digit d)" if "d < 10" for d using that by (simp add: IsDigit_def of_char_digit)
  with 1 show ?case by (subst (1 2) show_nat.simps) auto
qed

lemma strtoll_show_int: "\<exists>w. internal_simple_strtoll (show_int i) = (w, []) \<and> sint w = clamped i"
  using strtoll_value [of "[]" "show_nat (nat \<bar>i\<bar>)" "[]" "if i < 0 then Some True else None"] show_nat_digits
  by (auto simp: show_int_def read_show_nat split: if_splits)

section \<open>Texts of settings\<close>

text \<open>A list of settings as a user writes it, with every value in quotes.\<close>

definition setting_text :: "string \<times> string \<Rightarrow> string" where
  "setting_text kv = fst kv @ ''='' @ [CHR 0x27] @ snd kv @ [CHR 0x27] @ '':''"

definition quotable :: "string \<times> string \<Rightarrow> bool" where
  "quotable kv \<longleftrightarrow> list_all (\<lambda>c. c \<noteq> CHR ''='' \<and> \<not> flag_is_space c) (fst kv) \<and> CHR 0x27 \<notin> set (snd kv)"

primrec run_settings ::
    "FlagEnv \<Rightarrow> (string \<Rightarrow> FlagParser \<Rightarrow> FlagParser flag_result) \<Rightarrow> (string \<times> string) list \<Rightarrow> FlagParser \<Rightarrow> FlagParser flag_result" where
  "run_settings E parse [] st = Some (Inr st)"
| "run_settings E parse (kv # kvs) st = and_then (parse_flag E parse (fst kv) (snd kv) st) (run_settings E parse kvs)"

lemma scan_setting:
  assumes "quotable kv"
  shows "skip_whitespace (setting_text kv @ r) = setting_text kv @ r" "scan_flag (setting_text kv @ r) = Inr (fst kv, snd kv, '':'' @ r)"
proof -
  let ?P = "\<lambda>c. c \<noteq> CHR ''='' \<and> \<not> flag_is_space c"
  have x: "\<forall>c\<in>set (fst kv). ?P c" using assms by (simp add: quotable_def list_all_iff)
  have t: "takeWhile ?P (fst kv @ CHR ''='' # s) = fst kv" "dropWhile ?P (fst kv @ CHR ''='' # s) = CHR ''='' # s" for s
    using x by (simp_all add: takeWhile_append2 dropWhile_append2)
  have "\<forall>c\<in>set (snd kv). c \<noteq> CHR 0x27" using assms by (auto simp: quotable_def)
  then have q: "takeWhile (\<lambda>c. c \<noteq> CHR 0x27) (snd kv @ CHR 0x27 # s) = snd kv" "dropWhile (\<lambda>c. c \<noteq> CHR 0x27) (snd kv @ CHR 0x27 # s) = CHR 0x27 # s" for s
    by (simp_all add: takeWhile_append2 dropWhile_append2)
  show "skip_whitespace (setting_text kv @ r) = setting_text kv @ r"
    using x by (cases "fst kv") (auto simp: skip_whitespace_def setting_text_def flag_is_space_def)
  show "scan_flag (setting_text kv @ r) = Inr (fst kv, snd kv, '':'' @ r)"
    by (simp add: scan_flag_def setting_text_def t q)
qed

lemma parse_settings_from:
  assumes "list_all quotable kvs" "list_all flag_is_space ws"
  shows "parse_flags E parse (ws @ concat (map setting_text kvs)) st = and_then (run_settings E parse kvs st) (\<lambda>st. Some (Inr (sanity_check st)))"
  using assms
proof (induction kvs arbitrary: ws st)
  case Nil
  then show ?case by (subst parse_flags.simps) (simp add: skip_whitespace_def list_all_iff)
next
  case (Cons kv kvs)
  let ?r = "concat (map setting_text kvs)"
  have w: "skip_whitespace (ws @ s) = skip_whitespace s" for s
    using Cons.prems(2) by (simp add: skip_whitespace_def list_all_iff dropWhile_append2)
  have q: "quotable kv" "list_all quotable kvs" using Cons.prems(1) by simp_all
  have i: "parse_flags E parse ('':'' @ ?r) = (\<lambda>st. and_then (run_settings E parse kvs st) (\<lambda>st. Some (Inr (sanity_check st))))"
    using Cons.IH [OF q(2), of "'':''"] by (intro ext) (simp add: flag_is_space_def)
  have "setting_text kv \<noteq> []" by (simp add: setting_text_def)
  then show ?case
    by (subst parse_flags.simps) (simp add: w scan_setting [OF q(1)] i [simplified] and_then_assoc)
qed

lemmas parse_settings = parse_settings_from [where ws = "[]", simplified]

section \<open>Known flags\<close>

definition table_flag :: "string \<times> fval \<times> string \<Rightarrow> Flag" where
  "table_flag f = (case f of (name, v, desc) \<Rightarrow> \<lparr>fl_name = name, fl_desc = desc, fl_handler = handler_for name v\<rparr>)"

definition all_flags :: "Flag list" where
  "all_flags = map table_flag sanitizer_flags_inc @
     [\<lparr>fl_name = ''include'', fl_desc = ''read more options from the given file'', fl_handler = HInclude False\<rparr>,
      \<lparr>fl_name = ''include_if_exists'', fl_desc = ''read more options from the given file (if it exists)'', fl_handler = HInclude True\<rparr>] @
     map table_flag dfsan_flags_inc"

definition start_parser :: FlagParser where
  "start_parser = \<lparr>parser_flags = all_flags, vals = default_vals, unknown_flags = [], printed = []\<rparr>"

lemma register_table_ok:
  "length (parser_flags st) + length fs \<le> kMaxFlags \<Longrightarrow>
    register_table fs st = Some (Inr (st\<lparr>parser_flags := parser_flags st @ map table_flag fs\<rparr>))"
  by (induction fs arbitrary: st) (auto simp: RegisterHandler_def table_flag_def)

lemma table_lengths: "length sanitizer_flags_inc = 71" "length dfsan_flags_inc = 4"
  by (simp_all add: sanitizer_flags_inc_def runtime_common_flags_def coverage_common_flags_def dfsan_flags_inc_def)

lemma registered_ok: "registered = Some (Inr start_parser)"
  by (simp add: registered_def RegisterCommonFlags_def RegisterIncludeFlags_def RegisterDfsanFlags_def RegisterHandler_def register_table_ok
      table_lengths kMaxFlags_def start_parser_def all_flags_def)

lemma flag_names: "distinct (map fl_name all_flags)" "list_all (\<lambda>f. no_nul (fl_name f) \<and> list_all (\<lambda>c. c \<noteq> CHR ''='' \<and> \<not> flag_is_space c) (fl_name f)) all_flags"
  by code_simp+

lemma find_distinct: "x \<in> set xs \<Longrightarrow> distinct (map f xs) \<Longrightarrow> \<forall>y\<in>set xs. P y \<longleftrightarrow> f y = f x \<Longrightarrow> find P xs = Some x"
  by (induction xs) (auto simp: image_iff)

lemma run_handler_known:
  assumes "f \<in> set all_flags" "parser_flags st = all_flags"
  shows "run_handler E parse (fl_name f) value st = Parse E parse (fl_handler f) value st"
proof -
  have "\<forall>g\<in>set all_flags. internal_strcmp (fl_name f) (fl_name g) = 0 \<longleftrightarrow> fl_name g = fl_name f"
  proof
    fix g assume "g \<in> set all_flags"
    then have "no_nul (fl_name g)" "no_nul (fl_name f)" using flag_names(2) assms(1) unfolding list_all_iff by blast+
    from strcmp_eq [OF this(2,1)] show "internal_strcmp (fl_name f) (fl_name g) = 0 \<longleftrightarrow> fl_name g = fl_name f" by metis
  qed
  from find_distinct [OF assms(1) flag_names(1) this] show ?thesis by (simp add: run_handler_def assms(2))
qed

lemma run_handler_unknown:
  assumes "x \<notin> fl_name ` set all_flags" "no_nul x" "parser_flags st = all_flags"
  shows "run_handler E parse x value st = and_then (Add x st) (\<lambda>st. Some (Inr (True, st)))"
proof -
  have "find (\<lambda>f. internal_strcmp x (fl_name f) = 0) all_flags = None"
    unfolding find_None_iff
  proof
    assume "\<exists>g. g \<in> set all_flags \<and> internal_strcmp x (fl_name g) = 0"
    then obtain g where g: "g \<in> set all_flags" "internal_strcmp x (fl_name g) = 0" by blast
    then have "no_nul (fl_name g)" using flag_names(2) unfolding list_all_iff by blast
    then show False using strcmp_eq [OF assms(2)] g assms(1) by blast
  qed
  then show ?thesis by (simp add: run_handler_def assms(3))
qed

text \<open>Typed settings: a value of the type of the flag's variable.\<close>

fun show_fval :: "fval \<Rightarrow> string" where
  "show_fval (FBool b) = (if b then ''1'' else ''0'')"
| "show_fval (FStr s) = (case s of None \<Rightarrow> [] | Some s \<Rightarrow> s)"
| "show_fval (FInt w) = show_int (sint w)"
| "show_fval (FUptr w) = show_nat (unat w)"

fun fits :: "fval \<Rightarrow> fval \<Rightarrow> bool" where
  "fits (FBool _) (FBool _) = True"
| "fits (FStr _) (FStr s) = (case s of None \<Rightarrow> False | Some s \<Rightarrow> CHR 0x27 \<notin> set s)"
| "fits (FInt _) (FInt _) = True"
| "fits (FUptr _) (FUptr w) = (w \<le> INT64_MAX)"
| "fits _ _ = False"

definition settable :: "string \<times> fval \<Rightarrow> bool" where
  "settable kv \<longleftrightarrow> list_ex (\<lambda>(name, v, desc). name = fst kv \<and> fits v (snd kv)) (sanitizer_flags_inc @ dfsan_flags_inc)"

lemma strtoll_word32: "\<exists>v. internal_simple_strtoll (show_int (sint w)) = (v, []) \<and> ucast v = w" for w :: u32
proof -
  obtain v where v: "internal_simple_strtoll (show_int (sint w)) = (v, [])" "sint v = clamped (sint w)" using strtoll_show_int by blast
  have "- (2 ^ 31) \<le> sint w" "sint w < 2 ^ 31" using sint_greater_eq [of w] sint_less [of w] by simp_all
  then have "sint v = sint w" using v(2) by (simp add: clamped_def)
  then have "(scast v :: u32) = word_of_int (sint w)" by (simp only: scast_eq)
  then have "(scast v :: u32) = w" by simp
  moreover have "(ucast v :: u32) = scast v" by (rule bit_word_eqI) (simp add: bit_simps)
  ultimately show ?thesis using v(1) by simp
qed

lemma strtoll_word64: "w \<le> INT64_MAX \<Longrightarrow> internal_simple_strtoll (show_nat (unat w)) = (w, [])"
proof -
  assume "w \<le> INT64_MAX"
  then have l: "unat w \<le> 9223372036854775807" by (simp add: word_le_nat_alt INT64_MAX_def)
  obtain v where v: "internal_simple_strtoll (show_nat (unat w)) = (v, [])" "sint v = clamped (int (unat w))"
    using strtoll_show_int [of "int (unat w)"] by (auto simp: show_int_def)
  have "clamped (int n) = int n" if "n \<le> 9223372036854775807" for n using that by (intro clamped_id) simp_all
  then have "clamped (int (unat w)) = int (unat w)" using l .
  then have "sint v = sint w" using v(2) sint_small [of w] l by simp
  then show ?thesis using v(1) by (simp add: signed_word_eqI)
qed

lemma Parse_shown: "fits d v \<Longrightarrow> Parse E parse (handler_for x d) (show_fval v) st = Some (Inr (True, set_val x v st))"
proof (induction d v rule: fits.induct)
  case (1 d b)
  then show ?case by (simp add: Parse_bool_def)
next
  case (3 d w)
  then show ?case using strtoll_word32 [of w] by (auto simp: Parse_int_def)
next
  case (4 d w)
  then show ?case by (simp add: Parse_uptr_def strtoll_word64)
qed (auto simp: Parse_str_def split: option.splits)

lemma settable_flag:
  assumes "settable kv"
  obtains d desc where "(fst kv, d, desc) \<in> set (sanitizer_flags_inc @ dfsan_flags_inc)" "fits d (snd kv)"
    "\<lparr>fl_name = fst kv, fl_desc = desc, fl_handler = handler_for (fst kv) d\<rparr> \<in> set all_flags"
proof -
  obtain d desc where d: "(fst kv, d, desc) \<in> set (sanitizer_flags_inc @ dfsan_flags_inc)" "fits d (snd kv)"
    using assms unfolding settable_def list_ex_iff by fastforce
  have "table_flag (fst kv, d, desc) \<in> set all_flags"
    using d(1) unfolding all_flags_def set_append set_map by blast
  then show ?thesis using d by (intro that) (simp_all only: table_flag_def prod.case)
qed

lemma shown_quotable:
  assumes "settable kv"
  shows "quotable (fst kv, show_fval (snd kv))"
proof -
  obtain d desc where d: "fits d (snd kv)" "\<lparr>fl_name = fst kv, fl_desc = desc, fl_handler = handler_for (fst kv) d\<rparr> \<in> set all_flags"
    using settable_flag [OF assms] by metis
  have "list_all (\<lambda>c. c \<noteq> CHR ''='' \<and> \<not> flag_is_space c) (fst kv)" using flag_names(2) d(2) unfolding list_all_iff by fastforce
  moreover have n: "CHR 0x27 \<notin> set (show_nat n)" for n using show_nat_digits [of n] unfolding list_all_iff by (force simp: IsDigit_def)
  moreover have "CHR 0x27 \<notin> set (show_int i)" for i using n by (simp add: show_int_def)
  moreover have "CHR 0x27 \<notin> set (show_fval (snd kv))" using d(1) calculation(2,3) by (cases "(d, snd kv)" rule: fits.cases) (auto split: option.splits)
  ultimately show ?thesis by (simp add: quotable_def)
qed

lemma run_settable:
  assumes "list_all settable kvs" "parser_flags st = all_flags"
  shows "run_settings E parse (map (\<lambda>kv. (fst kv, show_fval (snd kv))) kvs) st = Some (Inr (st\<lparr>vals := vals st ++ map_of (rev kvs)\<rparr>))"
  using assms
proof (induction kvs arbitrary: st)
  case (Cons kv kvs)
  then obtain d desc where d: "fits d (snd kv)" "\<lparr>fl_name = fst kv, fl_desc = desc, fl_handler = handler_for (fst kv) d\<rparr> \<in> set all_flags"
    using settable_flag [of kv] by (metis list.pred_inject(2))
  have "parse_flag E parse (fst kv) (show_fval (snd kv)) st = Some (Inr (set_val (fst kv) (snd kv) st))"
    using run_handler_known [OF d(2) Cons.prems(2)] Parse_shown [OF d(1)] by (simp add: parse_flag_def)
  then show ?case using Cons by (simp add: set_val_def)
qed simp

definition options_text :: "(string \<times> fval) list \<Rightarrow> string" where
  "options_text kvs = concat (map (\<lambda>kv. setting_text (fst kv, show_fval (snd kv))) kvs)"

lemma options_parsed:
  assumes "list_all settable kvs"
  shows "and_then registered (ParseString E (Suc depth) (options_text kvs)) =
    Some (Inr (sanity_check (start_parser\<lparr>vals := default_vals ++ map_of (rev kvs)\<rparr>)))"
proof -
  have "list_all quotable (map (\<lambda>kv. (fst kv, show_fval (snd kv))) kvs)" using assms shown_quotable by (simp add: list_all_iff)
  from parse_settings [OF this] run_settable [OF assms, of start_parser] show ?thesis
    by (simp add: registered_ok options_text_def comp_def) (simp add: start_parser_def)
qed

lemma sanity_check_other:
  "x \<noteq> ''malloc_context_size'' \<Longrightarrow> vals (sanity_check st) x = vals st x" "unknown_flags (sanity_check st) = unknown_flags st"
  by (simp_all add: sanity_check_def set_val_def split: option.splits fval.splits)

text \<open>C37. Options round trip: when typed settings of known flags are written as text and the runtime starts with that text as its options,
  every flag has the value of its last setting, or its default value without one, and no flag is reported as unknown.  The size of stack
  contexts, which is at least one, and the flag for coverage, which another flag implies, are the exceptions.\<close>

theorem options_roundtrip:
  assumes "list_all settable kvs"
  shows "\<exists>st. InitializeFlags E (Suc depth) (Some (options_text kvs)) = Some (Inr st) \<and> unknown_flags st = [] \<and>
    (\<forall>x. x \<notin> {''malloc_context_size'', ''coverage''} \<longrightarrow> vals st x = (default_vals ++ map_of (rev kvs)) x)"
proof -
  define st where "st = sanity_check (start_parser\<lparr>vals := default_vals ++ map_of (rev kvs)\<rparr>)"
  define st1 where "st1 = (if vals (InitializeCommonFlags st) ''verbosity'' \<noteq> Some (FInt 0) then UnknownFlags_Report (InitializeCommonFlags st) else InitializeCommonFlags st)"
  let ?r = "if flag_is_true ''help'' st1 then PrintFlagDescriptions st1 else st1"
  have p: "ParseString E (Suc depth) (options_text kvs) start_parser = Some (Inr st)"
    using options_parsed [OF assms] by (simp add: registered_ok st_def)
  have "InitializeFlags E (Suc depth) (Some (options_text kvs)) = Some (Inr ?r)"
    unfolding InitializeFlags_def registered_ok and_then.simps option.case p Let_def st1_def ..
  moreover have "unknown_flags st = []" by (simp add: st_def sanity_check_other start_parser_def)
  then have u: "unknown_flags (InitializeCommonFlags st) = []" by (simp add: InitializeCommonFlags_def set_val_def)
  then have "st1 = InitializeCommonFlags st" by (simp add: st1_def UnknownFlags_Report_def)
  moreover have "vals (InitializeCommonFlags st) x = (default_vals ++ map_of (rev kvs)) x" if "x \<notin> {''malloc_context_size'', ''coverage''}" for x
    using that sanity_check_other(1) [of x] by (simp add: InitializeCommonFlags_def set_val_def st_def start_parser_def)
  ultimately show ?thesis using u by (intro exI [of _ ?r]) (simp add: PrintFlagDescriptions_def Print_def)
qed

text \<open>Without options the operations of the runtime see the default flags.\<close>

lemma default_runtime_flags: "runtime_flags start_parser = SetDefaults"
proof -
  have "map default_vals [''warn_unimplemented'', ''warn_nonzero_labels'', ''strict_data_dependencies''] = [Some (FBool True), Some (FBool False), Some (FBool True)]"
    by code_simp
  then show ?thesis by (simp add: runtime_flags_def flag_is_true_def start_parser_def SetDefaults_def)
qed

section \<open>Unknown flags\<close>

lemma run_unknown:
  assumes "list_all (\<lambda>kv. no_nul (fst kv) \<and> fst kv \<notin> fl_name ` set all_flags) kvs" "parser_flags st = all_flags"
    "length (unknown_flags st) \<le> kMaxUnknownFlags"
  shows "run_settings E parse kvs st =
    (if length (unknown_flags st) + length kvs \<le> kMaxUnknownFlags then Some (Inr (st\<lparr>unknown_flags := unknown_flags st @ map fst kvs\<rparr>))
     else check_failed ''((n_unknown_flags_)) < ((kMaxUnknownFlags))'' st)"
  using assms
proof (induction kvs arbitrary: st)
  case (Cons kv kvs)
  have "no_nul (fst kv)" "fst kv \<notin> fl_name ` set all_flags" using Cons.prems(1) by simp_all
  then have p: "parse_flag E parse (fst kv) (snd kv) st = and_then (Add (fst kv) st) (\<lambda>st. Some (Inr st))"
    using run_handler_unknown [OF _ _ Cons.prems(2)] by (simp add: parse_flag_def and_then_assoc)
  show ?case
  proof (cases "length (unknown_flags st) < kMaxUnknownFlags")
    case True
    then show ?thesis using Cons.prems Cons.IH [of "st\<lparr>unknown_flags := unknown_flags st @ [fst kv]\<rparr>"] p
      by (simp add: Add_def check_failed_def Print_def)
  next
    case False
    then show ?thesis using p by (simp add: Add_def check_failed_def)
  qed
qed simp


section \<open>Files of options\<close>

text \<open>Pages are read to the end of the file or until the buffer is full.\<close>

lemma read_pages_spec:
  assumes "0 < P" "n \<le> length data" "n = length data \<or> P dvd n" "n \<le> len"
  shows "case read_pages P len data n of (k, eof) \<Rightarrow>
    k \<le> len \<and> k \<le> length data \<and> (k = length data \<or> P dvd k) \<and> (if eof then k = length data \<and> k + P \<le> len else len < k + P)"
  using assms
proof (induction P len data n rule: read_pages.induct)
  case (1 P len data n)
  let ?j = "min P (length data - n)"
  show ?case
  proof (cases "n + P \<le> len \<and> ?j \<noteq> 0")
    case True
    then have "n + ?j = length data \<or> P dvd n + ?j" using "1.prems" by (auto simp: min_def)
    moreover have "n + ?j \<le> length data" "n + ?j \<le> len" using True "1.prems" by auto
    moreover have "read_pages P len data n = read_pages P len data (n + ?j)" using True by (subst read_pages.simps) (auto simp: Let_def)
    ultimately show ?thesis using "1.IH" [OF _ refl] True "1.prems"(1) by simp
  qed (use "1.prems" in \<open>subst read_pages.simps, auto\<close>)
qed

lemma takeWhile_nul: "takeWhile (\<lambda>c. c \<noteq> CHR 0x00) (data @ replicate (Suc k) (CHR 0x00)) = takeWhile (\<lambda>c. c \<noteq> CHR 0x00) data"
  by (induction data) simp_all

definition text_of :: "string \<Rightarrow> string" where
  "text_of data = takeWhile (\<lambda>c. c \<noteq> CHR 0x00) data"

lemma text_of_padded: "k < len \<Longrightarrow> k = length data \<Longrightarrow> \<not> no_nul (take k data @ replicate (len - k) (CHR 0x00)) \<and>
    text_of (take k data @ replicate (len - k) (CHR 0x00)) = text_of data"
proof -
  assume "k < len" "k = length data"
  moreover then obtain m where "len - k = Suc m" by (cases "len - k") auto
  ultimately show ?thesis using takeWhile_nul [of data m] by (simp add: text_of_def)
qed

lemma read_sizes_small:
  assumes "0 < P" "P dvd len" "0 < len" "length data < len * 2 ^ j"
  shows "\<exists>buff. read_sizes P len (len * 2 ^ j) data b = Some buff \<and> \<not> no_nul buff \<and> text_of buff = text_of data"
  using assms
proof (induction j arbitrary: len b)
  case (0 len b)
  obtain k eof where r: "read_pages P len data 0 = (k, eof)" by fastforce
  have k: "k \<le> length data" "k = length data \<or> P dvd k" "if eof then k = length data \<and> k + P \<le> len else len < k + P"
    using read_pages_spec [of P 0 data len] 0 r by auto
  have "k = length data"
  proof (rule ccontr)
    assume "k \<noteq> length data"
    then have "P dvd len - k" "k < len" "len < k + P" using k 0 by (auto split: if_splits)
    then show False by (auto dest: dvd_imp_le)
  qed
  moreover have "read_sizes P len (len * 2 ^ 0) data b = Some (take k data @ replicate (len - k) (CHR 0x00))"
    using 0 by (subst read_sizes.simps) (simp add: r Let_def read_sizes.simps [of P "2 * len"])
  ultimately show ?case using text_of_padded [of k len data] 0 by simp
next
  case (Suc j)
  obtain k eof where r: "read_pages P len data 0 = (k, eof)" by fastforce
  have k: "eof \<Longrightarrow> k = length data \<and> k + P \<le> len" using read_pages_spec [of P 0 data len] Suc.prems r by auto
  have l: "len * 2 ^ Suc j = (2 * len) * 2 ^ j" by simp
  have "len \<le> len * 2 ^ Suc j" by simp
  then have s: "read_sizes P len (len * 2 ^ Suc j) data b = (let buff = Some (take k data @ replicate (len - k) (CHR 0x00)) in
      if eof then buff else read_sizes P (2 * len) (2 * len * 2 ^ j) data buff)"
    using Suc.prems(3) unfolding l by (subst read_sizes.simps) (simp add: r)
  show ?case
  proof (cases eof)
    case True
    then show ?thesis using s k text_of_padded [of k len data] Suc.prems(1) by simp
  next
    case False
    then show ?thesis using s Suc.IH [of "2 * len"] Suc.prems unfolding l by simp
  qed
qed

lemma ReadFileToBuffer_small:
  assumes "page_size E = 4096" "file_at E path = Inr data" "length data < kMaxIncludeSize"
  shows "\<exists>buff. ReadFileToBuffer E path (max kMaxIncludeSize (page_size E)) = Inr (Some buff) \<and> \<not> no_nul buff \<and> text_of buff = text_of data"
  using read_sizes_small [of 4096 4096 data 3 None] assms by (simp add: ReadFileToBuffer_def kMaxIncludeSize_def)

text \<open>A file of at least that size leaves no room for a terminator.\<close>

lemma read_sizes_large:
  assumes "0 < P" "P dvd len" "0 < len" "len * 2 ^ j \<le> length data" "no_nul data"
  shows "\<exists>buff. read_sizes P len (len * 2 ^ j) data b = Some buff \<and> no_nul buff"
  using assms
proof (induction j arbitrary: len b)
  case (0 len b)
  obtain k eof where r: "read_pages P len data 0 = (k, eof)" by fastforce
  have k: "k \<le> len" "k = length data \<or> P dvd k" "if eof then k = length data \<and> k + P \<le> len else len < k + P"
    using read_pages_spec [of P 0 data len] 0 r by auto
  have "k = len"
  proof (rule ccontr)
    assume "k \<noteq> len"
    then have "P dvd len - k" "k < len" "len < k + P" using k 0 by (auto split: if_splits)
    then show False by (auto dest: dvd_imp_le)
  qed
  moreover have "read_sizes P len (len * 2 ^ 0) data b = Some (take k data @ replicate (len - k) (CHR 0x00))"
    using 0 by (subst read_sizes.simps) (simp add: r Let_def read_sizes.simps [of P "2 * len"])
  ultimately show ?case using 0 by (auto dest: in_set_takeD)
next
  case (Suc j)
  obtain k eof where r: "read_pages P len data 0 = (k, eof)" by fastforce
  have l: "len * 2 ^ Suc j = (2 * len) * 2 ^ j" by simp
  have "len \<le> len * 2 ^ Suc j" by simp
  moreover have "\<not> eof"
  proof
    assume eof
    then have "length data + P \<le> len" using read_pages_spec [of P 0 data len] Suc.prems r by auto
    moreover have "len \<le> length data" using calculation Suc.prems(4) by (meson order_trans \<open>len \<le> len * 2 ^ Suc j\<close>)
    ultimately show False using Suc.prems(1) by simp
  qed
  ultimately have "read_sizes P len (len * 2 ^ Suc j) data b =
      read_sizes P (2 * len) (2 * len * 2 ^ j) data (Some (take k data @ replicate (len - k) (CHR 0x00)))"
    using Suc.prems(3) unfolding l by (subst read_sizes.simps) (simp add: r)
  then show ?case using Suc.IH [of "2 * len"] Suc.prems unfolding l by simp
qed

lemma ParseFile_large:
  assumes "page_size E = 4096" "file_at E path = Inr data" "kMaxIncludeSize \<le> length data" "no_nul data"
  shows "ParseFile E parse path ignore_missing st = None"
  using read_sizes_large [of 4096 4096 3 data None] assms by (auto simp: ParseFile_def ReadFileToBuffer_def kMaxIncludeSize_def)

lemma ParseFile_small:
  assumes "page_size E = 4096" "file_at E path = Inr data" "length data < kMaxIncludeSize"
  shows "ParseFile E parse path ignore_missing st = and_then (parse (text_of data) st) (\<lambda>st. Some (Inr (True, st)))"
proof -
  obtain buff where b: "ReadFileToBuffer E path (max kMaxIncludeSize (page_size E)) = Inr (Some buff)" "\<not> no_nul buff" "text_of buff = text_of data"
    using ReadFileToBuffer_small [OF assms] by blast
  then show ?thesis by (simp add: ParseFile_def text_of_def)
qed

section \<open>Nested files\<close>

text \<open>The settings of a text up to the first error, and the files that they open.\<close>

function settings :: "string \<Rightarrow> (string \<times> string) list" where
  "settings s =
     (if skip_whitespace s = [] then []
      else (case scan_flag (skip_whitespace s) of Inl err \<Rightarrow> [] | Inr (name, value, rest) \<Rightarrow> (name, value) # settings rest))"
  by pat_completeness auto
termination
  by (relation "measure length") (auto simp: skip_whitespace_def dest!: scan_flag_shorter intro: less_le_trans length_dropWhile_le)

declare settings.simps [simp del]

definition include_path :: "FlagEnv \<Rightarrow> string \<Rightarrow> string option" where
  "include_path E value = (if CHR ''%'' \<in> set value then SubstituteForFlagValue E value (kMaxPathLength - 1) else Some value)"

definition opened_by :: "FlagEnv \<Rightarrow> string \<times> string \<Rightarrow> string option" where
  "opened_by E kv =
     (case find (\<lambda>f. internal_strcmp (fst kv) (fl_name f) = 0) all_flags of
        None \<Rightarrow> None
      | Some f \<Rightarrow> (case fl_handler f of HInclude ignore_missing \<Rightarrow> include_path E (snd kv) | _ \<Rightarrow> None))"

definition opens :: "FlagEnv \<Rightarrow> string \<Rightarrow> string set" where
  "opens E s = {path. \<exists>kv\<in>set (settings s). opened_by E kv = Some path}"

text \<open>A result that is an answer, and keeps the table of flags.\<close>

definition answers :: "('a \<Rightarrow> FlagParser) \<Rightarrow> 'a flag_result \<Rightarrow> bool" where
  "answers f r \<longleftrightarrow> r \<noteq> None \<and> (\<forall>x. r = Some (Inr x) \<longrightarrow> parser_flags (f x) = all_flags)"

lemma answers_simps [simp]:
  "\<not> answers f None" "answers f (Some (Inl e))" "answers f (Some (Inr x)) \<longleftrightarrow> parser_flags (f x) = all_flags"
  "answers f (fatal_error e st)" "answers f (check_failed e st)"
  by (simp_all add: answers_def fatal_error_def check_failed_def)

lemma answers_and_then: "answers f r \<Longrightarrow> (\<And>x. r = Some (Inr x) \<Longrightarrow> parser_flags (f x) = all_flags \<Longrightarrow> answers g (h x)) \<Longrightarrow> answers g (and_then r h)"
  by (cases "(r, h)" rule: and_then.cases) (auto simp: answers_def)

lemma Parse_values_flags [simp]:
  "parser_flags (snd (Parse_bool t v st)) = parser_flags st" "parser_flags (snd (Parse_str t v st)) = parser_flags st"
  "parser_flags (snd (Parse_int t v st)) = parser_flags st" "parser_flags (snd (Parse_uptr t v st)) = parser_flags st"
  by (simp_all add: Parse_bool_def Parse_str_def Parse_int_def Parse_uptr_def invalid_value_def set_val_def Print_def Let_def split: prod.splits)

lemma run_handler_answers:
  assumes "page_size E = 4096" "parser_flags st = all_flags"
    "\<And>path data st. opened_by E (name, value) = Some path \<Longrightarrow> file_at E path = Inr data \<Longrightarrow> parser_flags st = all_flags \<Longrightarrow>
      length data < kMaxIncludeSize \<and> answers (\<lambda>x. x) (parse (text_of data) st)"
  shows "answers snd (run_handler E parse name value st)"
proof (cases "find (\<lambda>f. internal_strcmp name (fl_name f) = 0) all_flags")
  case None
  have "answers (\<lambda>x. x) (Add name st)" using assms(2) by (simp add: Add_def)
  then show ?thesis using None assms(2) by (auto simp: run_handler_def intro: answers_and_then)
next
  case (Some f)
  have run: "run_handler E parse name value st = Parse E parse (fl_handler f) value st" using Some assms(2) by (simp add: run_handler_def)
  show ?thesis
  proof (cases "fl_handler f")
    case (HInclude ig)
    have opened: "answers snd (ParseFile E parse path ig st)" if p: "include_path E value = Some path" for path
    proof (cases "file_at E path")
      case (Inl err)
      then show ?thesis using assms(2) by (simp add: ParseFile_def ReadFileToBuffer_def Print_def)
    next
      case (Inr data)
      have "opened_by E (name, value) = Some path" using p Some HInclude by (simp add: opened_by_def)
      then have d: "length data < kMaxIncludeSize" "answers (\<lambda>x. x) (parse (text_of data) st)" using assms(3) Inr assms(2) by blast+
      then show ?thesis unfolding ParseFile_small [OF assms(1) Inr d(1)] by (auto intro: answers_and_then)
    qed
    then show ?thesis using run HInclude by (auto simp: Parse_include_def include_path_def split: option.splits)
  qed (simp_all add: run assms(2))
qed

lemma parse_flags_answers:
  assumes "page_size E = 4096" "parser_flags st = all_flags"
    "\<And>path data st. path \<in> opens E s \<Longrightarrow> file_at E path = Inr data \<Longrightarrow> parser_flags st = all_flags \<Longrightarrow>
      length data < kMaxIncludeSize \<and> answers (\<lambda>x. x) (parse (text_of data) st)"
  shows "answers (\<lambda>x. x) (parse_flags E parse s st)"
  using assms
proof (induction E parse s st rule: parse_flags.induct)
  case (1 E parse s st)
  show ?case
  proof (cases "skip_whitespace s = []")
    case True
    then show ?thesis using "1.prems"(2)
      by (subst parse_flags.simps) (simp add: sanity_check_def set_val_def split: option.splits fval.splits)
  next
    case False
    show ?thesis
    proof (cases "scan_flag (skip_whitespace s)")
      case (Inl err)
      then show ?thesis using False by (subst parse_flags.simps) simp
    next
      case (Inr kvr)
      obtain x v rest where kvr: "kvr = (x, v, rest)" by (cases kvr)
      have set: "settings s = (x, v) # settings rest" using False Inr kvr by (subst settings.simps) simp
      have "answers snd (run_handler E parse x v st)"
        by (rule run_handler_answers [OF "1.prems"(1,2)], rule "1.prems"(3)) (use set in \<open>auto simp: opens_def\<close>)
      then have "answers (\<lambda>x. x) (parse_flag E parse x v st)" by (auto simp: parse_flag_def intro!: answers_and_then [of snd])
      moreover have "answers (\<lambda>x. x) (parse_flags E parse rest y)" if y: "parse_flag E parse x v st = Some (Inr y)" "parser_flags y = all_flags" for y
        by (rule "1.IH" [OF False Inr kvr [symmetric] refl y(1) "1.prems"(1) y(2)], rule "1.prems"(3)) (use set in \<open>auto simp: opens_def\<close>)
      ultimately have "answers (\<lambda>x. x) (and_then (parse_flag E parse x v st) (parse_flags E parse rest))"
        by (rule answers_and_then)
      then show ?thesis using False Inr kvr by (subst parse_flags.simps) simp
    qed
  qed
qed

lemma ParseString_answers:
  fixes rank :: "string \<Rightarrow> nat"
  assumes "page_size E = 4096"
    and files: "\<And>path data. file_at E path = Inr data \<Longrightarrow> length data < kMaxIncludeSize \<and> (\<forall>q\<in>opens E (text_of data). rank q < rank path)"
  shows "\<forall>path\<in>opens E s. rank path < n \<Longrightarrow> parser_flags st = all_flags \<Longrightarrow> answers (\<lambda>x. x) (ParseString E (Suc n) s st)"
proof (induction n arbitrary: s st)
  case 0
  then show ?case unfolding ParseString.simps by (intro parse_flags_answers [OF assms(1)]) auto
next
  case (Suc n)
  have "length data < kMaxIncludeSize \<and> answers (\<lambda>x. x) (ParseString E (Suc n) (text_of data) st)"
    if "path \<in> opens E s" "file_at E path = Inr data" "parser_flags st = all_flags" for path data st
    using that files Suc.prems(1) Suc.IH [of "text_of data" st] by fastforce
  then show ?case using parse_flags_answers [OF assms(1) Suc.prems(2)] by simp
qed

text \<open>C38. Starting up comes to an end: when every file of options is shorter than 32768 bytes and opens only files of smaller rank, the
  initialisation of the flags answers for every text of options, with the flags or with a message, once the stack has room for one
  nested call more than the ranks of the files that the text opens.\<close>

theorem initialisation_answers:
  fixes rank :: "string \<Rightarrow> nat"
  assumes "page_size E = 4096"
    "\<And>path data. file_at E path = Inr data \<Longrightarrow> length data < kMaxIncludeSize \<and> (\<forall>q\<in>opens E (text_of data). rank q < rank path)"
    "\<forall>path\<in>opens E s. rank path < n"
  shows "InitializeFlags E (Suc n) (Some s) \<noteq> None"
proof -
  have "answers (\<lambda>x. x) (ParseString E (Suc n) s start_parser)"
    by (rule ParseString_answers [OF assms]) (simp_all add: start_parser_def)
  then have "ParseString E (Suc n) s start_parser \<noteq> None" by (simp add: answers_def)
  then show ?thesis unfolding InitializeFlags_def registered_ok and_then.simps option.case Let_def by (rule and_then_not_None) simp
qed

text \<open>A file that includes itself is read until the stack overflows.\<close>

lemma include_loop:
  assumes "page_size E = 4096" "file_at E path = Inr data" "length data < kMaxIncludeSize" "text_of data = setting_text (''include'', path)"
    "CHR 0x27 \<notin> set path" "CHR ''%'' \<notin> set path" "parser_flags st = all_flags"
  shows "ParseString E depth (setting_text (''include'', path)) st = None"
  using assms(7)
proof (induction depth arbitrary: st)
  case (Suc depth)
  let ?f = "\<lparr>fl_name = ''include'', fl_desc = ''read more options from the given file'', fl_handler = HInclude False\<rparr>"
  have q: "list_all quotable [(''include'', path)]" using assms(5) by (simp add: quotable_def flag_is_space_def)
  have f: "?f \<in> set all_flags" unfolding all_flags_def by simp
  have "run_handler E (ParseString E depth) ''include'' path st = ParseFile E (ParseString E depth) path False st"
    using run_handler_known [OF f Suc.prems, of E "ParseString E depth" path] assms(6) by (simp add: Parse_include_def)
  also have "\<dots> = None" using Suc.IH [OF Suc.prems] assms(4) by (simp add: ParseFile_small [OF assms(1-3)])
  finally show ?case using parse_settings [OF q] by (simp add: parse_flag_def)
qed simp

section \<open>Sample options\<close>

definition sample_flag_env :: FlagEnv where
  "sample_flag_env = \<lparr>page_size = 4096, file_at = (\<lambda>path. if path = ''opts'' then Inr ''verbosity=1'' else Inl 2), process_name = None, process_id = 7\<rparr>"

definition sample_settings :: "(string \<times> fval) list" where
  "sample_settings = [(''strict_data_dependencies'', FBool True), (''log_path'', FStr (Some ''a b'')), (''exitcode'', FInt (- 5)), (''strict_data_dependencies'', FBool False)]"

theorem options_roundtrip_witness:
  "\<exists>st. InitializeFlags sample_flag_env 1 (Some (options_text sample_settings)) = Some (Inr st) \<and>
    vals st ''strict_data_dependencies'' = Some (FBool False) \<and> vals st ''exitcode'' = Some (FInt (- 5))"
proof -
  have "list_all settable sample_settings" by code_simp
  from options_roundtrip [OF this, of sample_flag_env 0] obtain st
    where "InitializeFlags sample_flag_env 1 (Some (options_text sample_settings)) = Some (Inr st)"
      "\<forall>x. x \<notin> {''malloc_context_size'', ''coverage''} \<longrightarrow> vals st x = (default_vals ++ map_of (rev sample_settings)) x" by auto
  then show ?thesis by (auto simp: sample_settings_def)
qed


theorem initialisation_answers_witness: "InitializeFlags sample_flag_env 2 (Some ''include=opts'') \<noteq> None"
proof -
  have s: "settings ''verbosity=1'' = [(''verbosity'', ''1'')]" "settings ''include=opts'' = [(''include'', ''opts'')]" by code_simp+
  have o: "opened_by sample_flag_env (''verbosity'', ''1'') = None" "opened_by sample_flag_env (''include'', ''opts'') = Some ''opts''" by code_simp+
  have "text_of ''verbosity=1'' = ''verbosity=1''" by code_simp
  then have "length data < kMaxIncludeSize \<and> (\<forall>q\<in>opens sample_flag_env (text_of data). (0 :: nat) < 0)"
    if "file_at sample_flag_env path = Inr data" for path data
    using that s(1) o(1) by (auto simp: sample_flag_env_def opens_def kMaxIncludeSize_def split: if_splits)
  moreover have "\<forall>path\<in>opens sample_flag_env ''include=opts''. (0 :: nat) < 1" by simp
  ultimately show ?thesis
    using initialisation_answers [of sample_flag_env "\<lambda>_. 0" "''include=opts''" 1] by (simp add: sample_flag_env_def numeral_2_eq_2)
qed
end
