(* ===== verification/San_Printf.thy ===== *)
theory San_Printf
  imports Prelude "HOL-Library.Monad_Syntax"
begin

text \<open>
  The formatted output of the runtime, \<^verbatim>\<open>sanitizer_printf.cc\<close>.  A buffer is the text in front of the write pointer and the room
  up to \<^verbatim>\<open>buff_end\<close>; variable arguments are a list of values with their types.  \<open>None\<close> is undefined behaviour (an argument of
  another type, overflow of a signed number), \<open>Inl\<close> the death of the program with a message.  The reference definitions
  render the whole text without a buffer; the theorems say what of it a buffer receives and what is printed.
\<close>

section \<open>Buffers\<close>

type_synonym buff = "string \<times> nat"
type_synonym 'a printing = "(string + 'a) option"

definition AppendChar :: "char \<Rightarrow> buff \<Rightarrow> nat \<times> buff" where
  "AppendChar c b = (1, if 0 < snd b then (fst b @ [c], snd b - 1) else b)"

text \<open>Characters that are appended one after the other; the counts are added.\<close>

primrec append_chars :: "string \<Rightarrow> buff \<Rightarrow> nat \<times> buff" where
  "append_chars [] b = (0, b)"
| "append_chars (c # s) b = (let (m, b) = AppendChar c b; (n, b) = append_chars s b in (m + n, b))"

section \<open>Numbers\<close>

definition kMaxLen :: nat where "kMaxLen = 30"

definition overflow_msg :: string where "overflow_msg = ''AppendNumber buffer overflow''"

text \<open>The digits, the lowest first.\<close>

function num_loop :: "nat \<Rightarrow> nat \<Rightarrow> nat list \<Rightarrow> string + nat list" where
  "num_loop base absolute_value num_buffer =
     (if length num_buffer < kMaxLen
      then let num_buffer = num_buffer @ [absolute_value mod base]; absolute_value = absolute_value div base in
        if 0 < absolute_value then num_loop base absolute_value num_buffer else Inr num_buffer
      else Inl overflow_msg)"
  by pat_completeness auto
termination by (relation "measure (\<lambda>(base, v, b). kMaxLen - length b)") auto

declare num_loop.simps [simp del]

text \<open>Leading zeros of the digits, the highest first: the count, the buffer and the digits that are left.\<close>

fun pad_loop :: "bool \<Rightarrow> nat list \<Rightarrow> buff \<Rightarrow> nat \<times> buff \<times> nat list" where
  "pad_loop pad_with_zero [] b = (0, b, [])"
| "pad_loop pad_with_zero (d # ds) b =
     (if d = 0
      then let (m, b) = AppendChar (if pad_with_zero \<or> ds = [] then CHR ''0'' else CHR '' '') b; (n, b, r) = pad_loop pad_with_zero ds b in
        (m + n, b, r)
      else (0, b, d # ds))"

definition digit_char :: "nat \<Rightarrow> char" where
  "digit_char d = (if d < 10 then char_of (48 + d) else char_of (97 + d - 10))"

definition AppendNumber :: "nat \<Rightarrow> nat \<Rightarrow> nat \<Rightarrow> bool \<Rightarrow> bool \<Rightarrow> buff \<Rightarrow> (nat \<times> buff) printing" where
  "AppendNumber absolute_value base minimal_num_length pad_with_zero negative b =
     (if \<not> (base = 10 \<or> base = 16) then Some (Inl ''base == 10 || base == 16'')
      else if \<not> (base = 10 \<or> \<not> negative) then Some (Inl ''base == 10 || !negative'')
      else if \<not> (absolute_value \<noteq> 0 \<or> \<not> negative) then Some (Inl ''absolute_value || !negative'')
      else if \<not> minimal_num_length < kMaxLen then Some (Inl ''minimal_num_length < kMaxLen'')
      else
        let minimal_num_length = (if negative \<and> 0 < minimal_num_length then minimal_num_length - 1 else minimal_num_length);
            (n1, b) = (if negative \<and> pad_with_zero then AppendChar (CHR ''-'') b else (0, b)) in
        and_then (Some (num_loop base absolute_value [])) (\<lambda>num_buffer.
          let num_buffer = num_buffer @ replicate (minimal_num_length - length num_buffer) 0;
              (n2, b, ds) = pad_loop pad_with_zero (rev num_buffer) b;
              (n3, b) = (if negative \<and> \<not> pad_with_zero then AppendChar (CHR ''-'') b else (0, b));
              (n4, b) = append_chars (map digit_char ds) b in
          Some (Inr (n1 + n2 + n3 + n4, b))))"

definition AppendUnsigned :: "u64 \<Rightarrow> nat \<Rightarrow> nat \<Rightarrow> bool \<Rightarrow> buff \<Rightarrow> (nat \<times> buff) printing" where
  "AppendUnsigned num base minimal_num_length pad_with_zero = AppendNumber (unat num) base minimal_num_length pad_with_zero False"

text \<open>The smallest number has no opposite.\<close>

definition AppendSignedDecimal :: "u64 \<Rightarrow> nat \<Rightarrow> bool \<Rightarrow> buff \<Rightarrow> (nat \<times> buff) printing" where
  "AppendSignedDecimal num minimal_num_length pad_with_zero b =
     (if sint num = - (2 ^ 63) then None
      else AppendNumber (nat \<bar>sint num\<bar>) 10 minimal_num_length pad_with_zero (sint num < 0) b)"

fun string_loop :: "int \<Rightarrow> string \<Rightarrow> nat \<Rightarrow> buff \<Rightarrow> nat \<times> buff" where
  "string_loop precision [] result b = (result, b)"
| "string_loop precision (c # s) result b =
     (if 0 \<le> precision \<and> precision \<le> int result then (result, b)
      else let (n, b) = AppendChar c b in string_loop precision s (result + n) b)"

definition AppendString :: "int \<Rightarrow> string option \<Rightarrow> buff \<Rightarrow> nat \<times> buff" where
  "AppendString precision s b = string_loop precision (case s of None \<Rightarrow> ''<null>'' | Some s \<Rightarrow> s) 0 b"

definition SANITIZER_POINTER_FORMAT_LENGTH :: nat where "SANITIZER_POINTER_FORMAT_LENGTH = 12"

definition AppendPointer :: "u64 \<Rightarrow> buff \<Rightarrow> (nat \<times> buff) printing" where
  "AppendPointer ptr_value b =
     (let (n, b) = AppendString (- 1) (Some ''0x'') b in
      and_then (AppendUnsigned ptr_value 16 SANITIZER_POINTER_FORMAT_LENGTH True b) (\<lambda>(m, b). Some (Inr (n + m, b))))"

section \<open>Conversions\<close>

datatype va = A_int u32 | A_long u64 | A_str "string option"

fun va_int :: "va list \<Rightarrow> (u32 \<times> va list) option" where
  "va_int (A_int w # args) = Some (w, args)"
| "va_int _ = None"

fun va_long :: "va list \<Rightarrow> (u64 \<times> va list) option" where
  "va_long (A_long w # args) = Some (w, args)"
| "va_long _ = None"

fun va_str :: "va list \<Rightarrow> (string option \<times> va list) option" where
  "va_str (A_str s # args) = Some (s, args)"
| "va_str _ = None"

definition is_digit :: "char \<Rightarrow> bool" where
  "is_digit c \<longleftrightarrow> 48 \<le> (of_char c :: nat) \<and> (of_char c :: nat) \<le> 57"

text \<open>\<^verbatim>\<open>width = width * 10 + *cur++ - '0'\<close> on 32 bits.\<close>

fun width_loop :: "string \<Rightarrow> nat \<Rightarrow> (nat \<times> string) option" where
  "width_loop [] width = Some (width, [])"
| "width_loop (c # cur) width =
     (if is_digit c then if 2 ^ 31 \<le> width * 10 + of_char c then None else width_loop cur (width * 10 + of_char c - 48) else Some (width, c # cur))"

definition kPrintfFormatsHelp :: string where
  "kPrintfFormatsHelp = ''Supported Printf formats: %([0-9]*)?(z|ll)?{d,u,x}; %p; %('' @ [CHR 0x5C] @ ''.'' @ [CHR 0x5C] @ ''*)?s; %c'' @ nl"

record conversion =
  have_width :: bool
  pad_with_zero :: bool
  cv_width :: nat
  precision :: int
  have_z :: bool
  have_ll :: bool

text \<open>The part of a conversion in front of its letter.\<close>

definition scan_conversion :: "string \<Rightarrow> va list \<Rightarrow> (conversion \<times> string \<times> va list) option" where
  "scan_conversion cur args =
     (let hw = (cur \<noteq> [] \<and> is_digit (hd cur)); pad = (cur \<noteq> [] \<and> hd cur = CHR ''0'') in do {
       (width, cur) \<leftarrow> width_loop cur 0;
       (prec, cur, args) \<leftarrow> (if take 2 cur = ''.*'' then do { (w, args) \<leftarrow> va_int args; Some (sint w, drop 2 cur, args) } else Some (- 1, cur, args));
       (let hz = (cur \<noteq> [] \<and> hd cur = CHR ''z''); cur = (if hz then tl cur else cur);
            hl = (\<not> hz \<and> take 2 cur = ''ll''); cur = (if hl then drop 2 cur else cur) in
        Some (\<lparr>have_width = hw, pad_with_zero = pad, cv_width = width, precision = prec, have_z = hz, have_ll = hl\<rparr>, cur, args))
     })"

definition have_flags :: "conversion \<Rightarrow> bool" where
  "have_flags v \<longleftrightarrow> have_width v \<or> have_z v \<or> have_ll v"

text \<open>An argument of a signed or unsigned conversion, widened to 64 bits.\<close>

definition signed_arg :: "conversion \<Rightarrow> va list \<Rightarrow> (u64 \<times> va list) option" where
  "signed_arg v args = (if have_ll v \<or> have_z v then va_long args else do { (w, args) \<leftarrow> va_int args; Some (scast w, args) })"

definition unsigned_arg :: "conversion \<Rightarrow> va list \<Rightarrow> (u64 \<times> va list) option" where
  "unsigned_arg v args = (if have_ll v \<or> have_z v then va_long args else do { (w, args) \<leftarrow> va_int args; Some (ucast w, args) })"

text \<open>\<^verbatim>\<open>RAW_CHECK_MSG(!have_flags, kPrintfFormatsHelp)\<close>.\<close>

definition without_flags :: "conversion \<Rightarrow> 'a printing \<Rightarrow> 'a printing" where
  "without_flags v r = (if have_flags v then Some (Inl kPrintfFormatsHelp) else r)"

text \<open>The width is passed as a number of eight bits.\<close>

definition print_conversion :: "conversion \<Rightarrow> char \<Rightarrow> va list \<Rightarrow> buff \<Rightarrow> (nat \<times> buff \<times> va list) printing" where
  "print_conversion v c args b =
     (let width = cv_width v mod 256; done = (\<lambda>args (n, b). Some (Inr (n, b, args))) in
      if c = CHR ''d'' then do { (dval, args) \<leftarrow> signed_arg v args; and_then (AppendSignedDecimal dval width (pad_with_zero v) b) (done args) }
      else if c = CHR ''u'' \<or> c = CHR ''x'' then do {
        (uval, args) \<leftarrow> unsigned_arg v args;
        and_then (AppendUnsigned uval (if c = CHR ''u'' then 10 else 16) width (pad_with_zero v) b) (done args) }
      else if c = CHR ''p'' then without_flags v (do { (p, args) \<leftarrow> va_long args; and_then (AppendPointer p b) (done args) })
      else if c = CHR ''s'' then without_flags v (do { (s, args) \<leftarrow> va_str args; done args (AppendString (precision v) s b) })
      else if c = CHR ''c'' then without_flags v (do { (w, args) \<leftarrow> va_int args; done args (AppendChar (char_of (unat (ucast w :: u8))) b) })
      else if c = CHR ''%'' then without_flags v (done args (AppendChar (CHR ''%'') b))
      else Some (Inl kPrintfFormatsHelp))"

lemma width_loop_length: "width_loop cur n = Some (w, r) \<Longrightarrow> length r \<le> length cur"
  by (induction cur n rule: width_loop.induct) (auto split: if_splits)

lemma scan_conversion_length: "scan_conversion cur args = Some (v, r, args') \<Longrightarrow> length r \<le> length cur"
  by (auto simp: scan_conversion_def Let_def split: bind_splits if_splits dest!: width_loop_length; linarith)

text \<open>One step for a character other than the percent sign, or for a conversion with its letter.\<close>

function printf_loop :: "string \<Rightarrow> va list \<Rightarrow> nat \<Rightarrow> buff \<Rightarrow> (nat \<times> buff) printing" where
  "printf_loop [] args result b = Some (Inr (result, b))"
| "printf_loop (c # cur) args result b =
     (if c \<noteq> CHR ''%'' then (case AppendChar c b of (n, b) \<Rightarrow> printf_loop cur args (result + n) b)
      else (case scan_conversion cur args of
          None \<Rightarrow> None
        | Some (v, cur, args) \<Rightarrow>
            if 0 \<le> precision v \<and> (cur = [] \<or> hd cur \<noteq> CHR ''s'') then Some (Inl ''CHECK failed: ((!(precision >= 0 && *cur != s))) != (0)'')
            else (case cur of
                [] \<Rightarrow> Some (Inl kPrintfFormatsHelp)
              | d # cur \<Rightarrow> and_then (print_conversion v d args b) (\<lambda>(n, b, args). printf_loop cur args (result + n) b))))"
  by pat_completeness auto
termination
  by (relation "measure (\<lambda>(cur, args, result, b). length cur)") (auto dest!: scan_conversion_length)

declare printf_loop.simps [simp del]

text \<open>The number of characters of the whole text, and the text in front of the terminator.\<close>

definition VSNPrintf :: "int \<Rightarrow> string \<Rightarrow> va list \<Rightarrow> (nat \<times> string) printing" where
  "VSNPrintf buff_length format args =
     (if \<not> 0 < buff_length then Some (Inl ''buff_length > 0'')
      else and_then (printf_loop format args 0 ([], nat (buff_length - 1))) (\<lambda>(result, b). Some (Inr (result, fst b))))"

definition internal_snprintf :: "int \<Rightarrow> string \<Rightarrow> va list \<Rightarrow> (nat \<times> string) printing" where
  "internal_snprintf len format args = VSNPrintf len format args"


section \<open>What is appended\<close>

definition push :: "string \<Rightarrow> buff \<Rightarrow> buff" where
  "push t b = (fst b @ take (snd b) t, snd b - length t)"

definition appended :: "string \<Rightarrow> buff \<Rightarrow> nat \<times> buff" where
  "appended t b = (length t, push t b)"

lemma push_push [simp]: "push u (push t b) = push (t @ u) b"
  by (simp add: push_def)

lemma push_Nil [simp]: "push [] b = b"
  by (simp add: push_def)

lemma AppendChar_push: "AppendChar c b = appended [c] b"
  by (cases b; cases "snd b") (auto simp: AppendChar_def appended_def push_def)

lemma append_chars_push: "append_chars s b = appended s b"
  by (induction s arbitrary: b) (simp_all add: AppendChar_push appended_def)

definition cut :: "int \<Rightarrow> string \<Rightarrow> string" where
  "cut prec s = (if 0 \<le> prec then take (nat prec) s else s)"

lemma string_loop_push:
  "string_loop prec s n b = (let t = (if 0 \<le> prec then take (nat prec - n) s else s) in (n + length t, push t b))"
proof (induction prec s n b rule: string_loop.induct)
  case (2 prec c s n b)
  then show ?case by (auto simp: AppendChar_push appended_def Let_def take_Cons' nat_le_iff)
qed simp

lemma AppendString_push: "AppendString prec s b = appended (cut prec (case s of None \<Rightarrow> ''<null>'' | Some s \<Rightarrow> s)) b"
  by (simp add: AppendString_def string_loop_push cut_def appended_def Let_def)

fun pad_text :: "bool \<Rightarrow> nat list \<Rightarrow> string" where
  "pad_text pad [] = []"
| "pad_text pad (d # ds) = (if d = 0 then (if pad \<or> ds = [] then CHR ''0'' else CHR '' '') # pad_text pad ds else [])"

lemma pad_loop_push: "pad_loop pad ds b = (length (pad_text pad ds), push (pad_text pad ds) b, dropWhile (\<lambda>d. d = 0) ds)"
  by (induction pad ds b rule: pad_loop.induct) (simp_all add: AppendChar_push appended_def)

section \<open>Digits\<close>

fun base_digits :: "nat \<Rightarrow> nat \<Rightarrow> nat list" where
  "base_digits base n = (if n < base \<or> base < 2 then [n] else base_digits base (n div base) @ [n mod base])"

declare base_digits.simps [simp del]

lemma base_digits_length: "2 \<le> base \<Longrightarrow> n < base ^ Suc k \<Longrightarrow> length (base_digits base n) \<le> Suc k"
proof (induction k arbitrary: n)
  case 0
  then show ?case by (subst base_digits.simps) simp
next
  case (Suc k)
  have "n div base < base ^ Suc k" using Suc.prems by (intro less_mult_imp_div_less) (simp add: mult.commute)
  then show ?case using Suc by (subst base_digits.simps) auto
qed

lemma base_digits_head: "2 \<le> base \<Longrightarrow> 0 < n \<Longrightarrow> \<exists>d ds. base_digits base n = d # ds \<and> d \<noteq> 0"
proof (induction base n rule: base_digits.induct)
  case (1 base n)
  show ?case
  proof (cases "n < base")
    case False
    then have "0 < n div base" using 1 by (simp add: div_greater_zero_iff)
    then show ?thesis using 1 False by (subst base_digits.simps) auto
  qed (use 1 in \<open>subst base_digits.simps, simp\<close>)
qed

lemma num_loop_digits:
  "2 \<le> base \<Longrightarrow> length buf + length (base_digits base n) \<le> kMaxLen \<Longrightarrow> num_loop base n buf = Inr (buf @ rev (base_digits base n))"
proof (induction base n arbitrary: buf rule: base_digits.induct)
  case (1 base n)
  show ?case
  proof (cases "n < base")
    case True
    then have "base_digits base n = [n]" by (subst base_digits.simps) simp
    then show ?thesis using True 1(3) by (subst num_loop.simps) simp
  next
    case False
    then have d: "base_digits base n = base_digits base (n div base) @ [n mod base]" using 1(2) by (subst base_digits.simps) simp
    then show ?thesis using False 1(2,3) 1(1) [of "buf @ [n mod base]"] by (subst num_loop.simps) (simp add: div_greater_zero_iff)
  qed
qed

text \<open>The text of a number: digits, padded to a width with zeros behind the sign or with blanks in front of it.\<close>

definition number_text :: "nat \<Rightarrow> nat \<Rightarrow> nat \<Rightarrow> bool \<Rightarrow> bool \<Rightarrow> string" where
  "number_text v base width pad negative =
     (let ds = map digit_char (base_digits base v); sign = (if negative then ''-'' else []);
          fill = replicate (width - length sign - length ds) (if pad then CHR ''0'' else CHR '' '') in
      if pad then sign @ fill @ ds else fill @ sign @ ds)"

lemma pad_text_digits:
  "d \<noteq> 0 \<Longrightarrow> pad_text pad (replicate k 0 @ d # ds) = replicate k (if pad then CHR ''0'' else CHR '' '')"
  "pad_text pad (replicate k 0 @ [0]) = replicate k (if pad then CHR ''0'' else CHR '' '') @ ''0''"
  by (induction k) auto

lemma drop_zeros:
  "d \<noteq> 0 \<Longrightarrow> dropWhile (\<lambda>d. d = 0) (replicate k 0 @ d # ds) = d # ds" "dropWhile (\<lambda>d. d = 0) (replicate k 0 @ [0]) = []" for d :: nat
  by (induction k) simp_all

lemma AppendNumber_text:
  assumes "base = 10 \<or> base = 16" "negative \<longrightarrow> base = 10 \<and> v \<noteq> 0" "width < kMaxLen" "v < 2 ^ 64"
  shows "AppendNumber v base width pad negative b = Some (Inr (appended (number_text v base width pad negative) b))"
proof -
  have "v < base ^ Suc 19" using assms(1,4) by auto
  then have "length (base_digits base v) \<le> 20" using base_digits_length [of base v 19] assms(1) by auto
  then have n: "num_loop base v [] = Inr (rev (base_digits base v))"
    using num_loop_digits [of base "[]" v] assms(1) by (auto simp: kMaxLen_def)
  let ?w = "(if negative \<and> 0 < width then width - 1 else width) - length (base_digits base v)"
  have w: "width - length (if negative then ''-'' else []) - length (map digit_char (base_digits base v)) = ?w" by simp
  show ?thesis
  proof (cases "v = 0")
    case True
    then have z: "base_digits base v = [0]" using assms(1) by (subst base_digits.simps) auto
    have "\<not> negative" using True assms(2) by blast
    then show ?thesis using True assms(1,3) n z pad_text_digits(2) [of pad ?w]
      by (simp add: AppendNumber_def number_text_def Let_def pad_loop_push append_chars_push appended_def z digit_char_def digit_chars drop_zeros)
  next
    case False
    then obtain d ds where d: "base_digits base v = d # ds" "d \<noteq> 0" using base_digits_head [of base v] assms(1) by auto
    show ?thesis using False assms(1-3) n d pad_text_digits(1) [of d pad ?w ds]
      by (auto simp: AppendNumber_def number_text_def Let_def pad_loop_push append_chars_push AppendChar_push appended_def drop_zeros)
  qed
qed

section \<open>The reference text\<close>

definition sized :: "nat \<Rightarrow> string \<Rightarrow> string printing" where
  "sized width t = Some (if width < kMaxLen then Inr t else Inl ''minimal_num_length < kMaxLen'')"

definition conversion_text :: "conversion \<Rightarrow> char \<Rightarrow> va list \<Rightarrow> (string \<times> va list) printing" where
  "conversion_text v c args =
     (let width = cv_width v mod 256; pad = pad_with_zero v; done = (\<lambda>args t. Some (Inr (t, args))) in
      if c = CHR ''d'' then do {
        (i, args) \<leftarrow> signed_arg v args;
        if sint i = - (2 ^ 63) then None else and_then (sized width (number_text (nat \<bar>sint i\<bar>) 10 width pad (sint i < 0))) (done args) }
      else if c = CHR ''u'' then do { (n, args) \<leftarrow> unsigned_arg v args; and_then (sized width (number_text (unat n) 10 width pad False)) (done args) }
      else if c = CHR ''x'' then do { (n, args) \<leftarrow> unsigned_arg v args; and_then (sized width (number_text (unat n) 16 width pad False)) (done args) }
      else if c \<notin> {CHR ''p'', CHR ''s'', CHR ''c'', CHR ''%''} \<or> have_flags v then Some (Inl kPrintfFormatsHelp)
      else if c = CHR ''p'' then do { (p, args) \<leftarrow> va_long args; done args (''0x'' @ number_text (unat p) 16 12 True False) }
      else if c = CHR ''s'' then do { (s, args) \<leftarrow> va_str args; done args (cut (precision v) (case s of None \<Rightarrow> ''<null>'' | Some s \<Rightarrow> s)) }
      else if c = CHR ''c'' then do { (w, args) \<leftarrow> va_int args; done args [char_of (unat (ucast w :: u8))] }
      else done args ''%'')"

function render :: "string \<Rightarrow> va list \<Rightarrow> string printing" where
  "render [] args = Some (Inr [])"
| "render (c # cur) args =
     (if c \<noteq> CHR ''%'' then and_then (render cur args) (\<lambda>t. Some (Inr (c # t)))
      else (case scan_conversion cur args of
          None \<Rightarrow> None
        | Some (v, cur, args) \<Rightarrow>
            if 0 \<le> precision v \<and> (cur = [] \<or> hd cur \<noteq> CHR ''s'') then Some (Inl ''CHECK failed: ((!(precision >= 0 && *cur != s))) != (0)'')
            else (case cur of
                [] \<Rightarrow> Some (Inl kPrintfFormatsHelp)
              | d # cur \<Rightarrow> and_then (conversion_text v d args) (\<lambda>(t, args). and_then (render cur args) (\<lambda>u. Some (Inr (t @ u)))))))"
  by pat_completeness auto
termination by (relation "measure (\<lambda>(cur, args). length cur)") (auto dest!: scan_conversion_length)

declare render.simps [simp del]

lemma AppendUnsigned_text:
  assumes "base = 10 \<or> base = 16"
  shows "AppendUnsigned n base width pad b = and_then (sized width (number_text (unat n) base width pad False)) (\<lambda>t. Some (Inr (appended t b)))"
proof -
  have "unat n < 2 ^ 64" using unsigned_less [of n, where 'a = nat] by simp
  then show ?thesis using AppendNumber_text [OF assms, of False "unat n" width pad b] assms
    by (auto simp: AppendUnsigned_def sized_def AppendNumber_def)
qed

lemma AppendSignedDecimal_text:
  "AppendSignedDecimal i width pad b = (if sint i = - (2 ^ 63) then None
     else and_then (sized width (number_text (nat \<bar>sint i\<bar>) 10 width pad (sint i < 0))) (\<lambda>t. Some (Inr (appended t b))))"
proof -
  have "- (2 ^ 63) \<le> sint i" "sint i < 2 ^ 63" using sint_greater_eq [of i] sint_less [of i] by simp_all
  then have "nat \<bar>sint i\<bar> < 2 ^ 64" by auto
  then show ?thesis using AppendNumber_text [of 10 "sint i < 0" "nat \<bar>sint i\<bar>" width pad b]
    by (auto simp: AppendSignedDecimal_def sized_def AppendNumber_def)
qed

lemma AppendPointer_text: "AppendPointer p b = Some (Inr (appended (''0x'' @ number_text (unat p) 16 12 True False) b))"
  by (simp add: AppendPointer_def AppendString_push AppendUnsigned_text cut_def sized_def kMaxLen_def SANITIZER_POINTER_FORMAT_LENGTH_def appended_def)

lemma and_then_bind: "and_then (Option.bind r f) g = Option.bind r (\<lambda>x. and_then (f x) g)"
  by (cases r) simp_all

lemma print_conversion_text:
  "print_conversion v c args b = and_then (conversion_text v c args) (\<lambda>(t, args). case appended t b of (n, b) \<Rightarrow> Some (Inr (n, b, args)))"
  unfolding print_conversion_def conversion_text_def Let_def without_flags_def AppendPointer_text AppendString_push AppendChar_push
    AppendSignedDecimal_text and_then_bind
  by (auto simp: AppendUnsigned_text and_then_bind and_then_assoc appended_def split: bind_splits)

lemma printf_loop_render: "printf_loop fmt args n b = and_then (render fmt args) (\<lambda>t. Some (Inr (n + length t, push t b)))"
proof (induction fmt args arbitrary: n b rule: render.induct)
  case (1 args)
  show ?case by (simp add: printf_loop.simps render.simps)
next
  case (2 c cur args)
  show ?case
  proof (cases "c = CHR ''%''")
    case False
    then show ?thesis using 2(1) by (simp add: printf_loop.simps render.simps AppendChar_push appended_def and_then_assoc)
  next
    case c: True
    show ?thesis
    proof (cases "scan_conversion cur args")
      case None
      then show ?thesis using c by (simp add: printf_loop.simps render.simps)
    next
      case (Some x)
      obtain v cur' args' where x: "x = (v, cur', args')" by (cases x)
      show ?thesis
      proof (cases "0 \<le> precision v \<and> (cur' = [] \<or> hd cur' \<noteq> CHR ''s'') \<or> cur' = []")
        case True
        then show ?thesis using c Some x by (auto simp: printf_loop.simps(2) render.simps(2))
      next
        case False
        then obtain d cur2 where d: "cur' = d # cur2" by (cases cur') auto
        have p: "\<not> (0 \<le> precision v \<and> (cur' = [] \<or> hd cur' \<noteq> CHR ''s''))" using False by blast
        have l: "printf_loop (c # cur) args n b = and_then (print_conversion v d args' b) (\<lambda>(m, b, args). printf_loop cur2 args (n + m) b)"
            "render (c # cur) args = and_then (conversion_text v d args') (\<lambda>(t, args). and_then (render cur2 args) (\<lambda>u. Some (Inr (t @ u))))"
          using c Some x p d by (auto simp: printf_loop.simps(2) render.simps(2))
        have "printf_loop cur2 args2 (n + m) b2 = and_then (render cur2 args2) (\<lambda>t. Some (Inr (n + m + length t, push t b2)))"
          if "conversion_text v d args' = Some (Inr (t, args2))" for t args2 m b2
          using 2(2) [of x v "(cur', args')" cur' args' d cur2 "(t, args2)" t args2] c Some x p d that by simp
        then show ?thesis
          unfolding l print_conversion_text and_then_assoc
          by (cases "(conversion_text v d args', \<lambda>x :: string \<times> va list. Some (Inr x) :: (string \<times> va list) printing)" rule: and_then.cases)
            (auto simp: appended_def and_then_assoc add.assoc split: prod.splits)
      qed
    qed
  qed
qed

lemma VSNPrintf_render:
  "0 < n \<Longrightarrow> VSNPrintf n fmt args = and_then (render fmt args) (\<lambda>t. Some (Inr (length t, take (nat n - 1) t)))"
  by (simp add: VSNPrintf_def printf_loop_render and_then_assoc push_def nat_diff_distrib)

section \<open>Printing\<close>

text \<open>What the process and its flags tell: its number, its name and whether reports mention the name.\<close>

record print_env =
  pe_pid :: u32
  pe_exe :: "string option"
  log_exe_name :: bool

definition kLen :: nat where "kLen = 16384"

text \<open>A piece behind \<open>t\<close> in a buffer of \<open>len\<close> bytes; \<open>None\<close> in the result asks for the larger buffer.\<close>

definition add_piece :: "bool \<Rightarrow> nat \<Rightarrow> string \<Rightarrow> va list \<Rightarrow> string \<Rightarrow> string option printing" where
  "add_piece use_mmap len format args t =
     and_then (VSNPrintf (int len - int (length t)) format args) (\<lambda>(n, u).
       if len \<le> length t + n
       then if \<not> use_mmap then Some (Inr None)
            else if length t + n < kLen then Some (Inr (Some (t @ u))) else Some (Inl (''Buffer in Report is too short!'' @ nl))
       else Some (Inr (Some (t @ u))))"

definition next_piece :: "string option printing \<Rightarrow> (string \<Rightarrow> string option printing) \<Rightarrow> string option printing" where
  "next_piece r f = and_then r (\<lambda>x. case x of None \<Rightarrow> Some (Inr None) | Some t \<Rightarrow> f t)"

definition try_buffer :: "print_env \<Rightarrow> bool \<Rightarrow> string \<Rightarrow> va list \<Rightarrow> bool \<Rightarrow> nat \<Rightarrow> string option printing" where
  "try_buffer P append_pid format args use_mmap len =
     next_piece
       (if append_pid
        then next_piece
          (case pe_exe P of
             Some exe \<Rightarrow> if log_exe_name P then add_piece use_mmap len ''==%s'' [A_str (Some exe)] [] else Some (Inr (Some []))
           | None \<Rightarrow> Some (Inr (Some [])))
          (add_piece use_mmap len ''==%d=='' [A_int (pe_pid P)])
        else Some (Inr (Some [])))
       (add_piece use_mmap len format args)"

text \<open>The text that is written: with the local buffer, or else with a mapped one.\<close>

definition SharedPrintfCode :: "print_env \<Rightarrow> bool \<Rightarrow> string \<Rightarrow> va list \<Rightarrow> string printing" where
  "SharedPrintfCode P append_pid format args =
     and_then (try_buffer P append_pid format args False 400) (\<lambda>x. case x of
         Some t \<Rightarrow> Some (Inr t)
       | None \<Rightarrow> and_then (try_buffer P append_pid format args True kLen) (\<lambda>x. Some (Inr (case x of Some t \<Rightarrow> t | None \<Rightarrow> []))))"

definition Printf :: "print_env \<Rightarrow> string \<Rightarrow> va list \<Rightarrow> string printing" where
  "Printf P format args = SharedPrintfCode P False format args"

definition Report :: "print_env \<Rightarrow> string \<Rightarrow> va list \<Rightarrow> string printing" where
  "Report P format args = SharedPrintfCode P True format args"

definition too_short :: string where "too_short = ''Buffer in Report is too short!'' @ nl"

definition outcome :: "bool \<Rightarrow> nat \<Rightarrow> string \<Rightarrow> string option printing" where
  "outcome use_mmap len w = Some (if length w < len then Inr (Some w) else if use_mmap then Inl too_short else Inr None)"

lemma next_piece_outcome:
  assumes "render fmt args = Some (Inr u)" "use_mmap \<longrightarrow> len = kLen"
  shows "next_piece (outcome use_mmap len w) (add_piece use_mmap len fmt args) = outcome use_mmap len (w @ u)"
  using assms by (auto simp: next_piece_def outcome_def add_piece_def VSNPrintf_render too_short_def nat_diff_distrib)

lemma digits_show_nat: "map digit_char (base_digits 10 n) = show_nat n"
proof (induction n rule: show_nat.induct)
  case (1 n)
  have "digit_char d = digit d" if "d < 10" for d using that by (simp add: digit_char_def digit_def)
  with 1 show ?case by (subst base_digits.simps, subst show_nat.simps) simp
qed

lemma number_text_show_int: "number_text (nat \<bar>i\<bar>) 10 0 False (i < 0) = show_int i"
  by (simp add: number_text_def digits_show_nat show_int_def)

lemma scan_plain: "\<not> is_digit c \<Longrightarrow> c \<notin> {CHR ''.'', CHR ''z'', CHR ''l''} \<Longrightarrow> scan_conversion (c # cur) args =
    Some (\<lparr>have_width = False, pad_with_zero = False, cv_width = 0, precision = - 1, have_z = False, have_ll = False\<rparr>, c # cur, args)"
  by (auto simp: scan_conversion_def Let_def is_digit_def)

lemma render_pid: "render ''==%d=='' [A_int w] = Some (Inr (''=='' @ show_int (sint w) @ ''==''))"
proof -
  have "sint (scast w :: u64) = sint w" by (simp add: sint_up_scast is_up)
  moreover have "sint w \<noteq> - (2 ^ 63)" using sint_greater_eq [of w] by auto
  moreover have "\<not> is_digit (CHR ''d'')" by code_simp
  ultimately show ?thesis using number_text_show_int [of "sint w"]
    by (simp add: render.simps scan_plain conversion_text_def signed_arg_def sized_def kMaxLen_def)
qed

lemma render_exe: "render ''==%s'' [A_str (Some s)] = Some (Inr (''=='' @ s))"
proof -
  have "\<not> is_digit (CHR ''s'')" by code_simp
  then show ?thesis by (simp add: render.simps scan_plain conversion_text_def have_flags_def cut_def)
qed

text \<open>The text in front of a report.\<close>

definition report_prefix :: "print_env \<Rightarrow> string" where
  "report_prefix P = (case pe_exe P of Some exe \<Rightarrow> if log_exe_name P then ''=='' @ exe else [] | None \<Rightarrow> []) @ ''=='' @ show_int (sint (pe_pid P)) @ ''==''"

lemma try_buffer_outcome:
  assumes "render fmt args = Some (Inr t)" "use_mmap \<longrightarrow> len = kLen" "0 < len"
  shows "try_buffer P append_pid fmt args use_mmap len = outcome use_mmap len ((if append_pid then report_prefix P else []) @ t)"
proof -
  have z: "Some (Inr (Some [])) = outcome use_mmap len []" using assms(3) by (simp add: outcome_def)
  have n: "next_piece (outcome use_mmap len []) f = f []" for f using assms(3) by (simp add: outcome_def next_piece_def)
  have e: "add_piece use_mmap len ''==%s'' [A_str (Some s)] [] = outcome use_mmap len (''=='' @ s)" for s
    using next_piece_outcome [OF render_exe assms(2), of "[]"] by (simp add: n)
  note pieces = next_piece_outcome [OF assms(1,2)] next_piece_outcome [OF render_pid assms(2)]
  show ?thesis unfolding try_buffer_def z e by (simp add: pieces report_prefix_def split: option.split)
qed

text \<open>A buffer that is too short receives the first characters of the text, with a terminator, and the number returned is the
  length of the whole text: the text is cut exactly when that number is not less than the length of the buffer.\<close>

theorem snprintf_contract:
  assumes "0 < n" "render fmt args = Some (Inr t)"
  shows "internal_snprintf n fmt args = Some (Inr (length t, take (nat n - 1) t)) \<and> (take (nat n - 1) t = t \<longleftrightarrow> int (length t) < n)"
  using assms by (auto simp: internal_snprintf_def VSNPrintf_render)

text \<open>C40. Messages are printed as a whole: a text of fewer than 16384 characters, with the number and the name of the process in front of
  a report, is written completely, whether or not it fits the local buffer; a longer one ends the program.\<close>

theorem printing_complete:
  assumes "render fmt args = Some (Inr t)"
  shows "SharedPrintfCode P append_pid fmt args =
    (let text = (if append_pid then report_prefix P else []) @ t in
     Some (if length text < 16384 then Inr text else Inl too_short))"
  using try_buffer_outcome [OF assms, of False 400 P append_pid] try_buffer_outcome [OF assms, of True kLen P append_pid]
  by (auto simp: SharedPrintfCode_def outcome_def kLen_def Let_def)

section \<open>Sample messages\<close>

theorem snprintf_contract_witness: "internal_snprintf 5 ''n=%d'' [A_int 1234] = Some (Inr (6, ''n=12''))"
proof -
  have "render ''n=%d'' [A_int 1234] = Some (Inr ''n=1234'')" by code_simp
  from snprintf_contract [OF _ this, of 5] show ?thesis by simp
qed

theorem printing_complete_witness:
  "SharedPrintfCode \<lparr>pe_pid = 7, pe_exe = None, log_exe_name = False\<rparr> True ''==%s'' [A_str (Some (replicate 500 (CHR ''a'')))] =
    Some (Inr (''==7==='' @ ''='' @ replicate 500 (CHR ''a'')))"
proof -
  have "show_int 7 = ''7''" by code_simp
  then show ?thesis
    using printing_complete [OF render_exe [of "replicate 500 (CHR ''a'')"], of "\<lparr>pe_pid = 7, pe_exe = None, log_exe_name = False\<rparr>" True]
    by (simp add: report_prefix_def Let_def)
qed
end
