(* ===== verification/San_Libc.thy ===== *)
theory San_Libc
  imports Dfsan_Custom
begin

unbundle bit_operations_syntax

text \<open>
  Functions of \<^verbatim>\<open>sanitizer_libc.cc\<close> on memory.  Loops over \<^verbatim>\<open>n\<close> bytes are recursion on the number of bytes, loops up to a terminator
  search for it as \<open>strlen\<close> does, and \<open>None\<close> is a search that does not end or a failed check.  The theorems: moving works
  for overlapping blocks, the check for zero bytes by words agrees with one by bytes, and copying of strings stays inside the
  destination and terminates it.
\<close>

section \<open>Blocks\<close>

text \<open>A \<^verbatim>\<open>char\<close> is compared with an \<^verbatim>\<open>int\<close> after its sign is extended.\<close>

fun internal_memchr :: "nat \<Rightarrow> memory \<Rightarrow> u64 \<Rightarrow> u32 \<Rightarrow> u64" where
  "internal_memchr 0 m t c = 0"
| "internal_memchr (Suc k) m t c = (if to_int (m t) = c then t else internal_memchr k m (t + 1) c)"

fun internal_memrchr :: "nat \<Rightarrow> memory \<Rightarrow> u64 \<Rightarrow> u32 \<Rightarrow> u64 \<Rightarrow> u64" where
  "internal_memrchr 0 m t c res = res"
| "internal_memrchr (Suc k) m t c res = internal_memrchr k m (t + 1) c (if to_int (m t) = c then t else res)"

fun internal_memcmp :: "nat \<Rightarrow> memory \<Rightarrow> u64 \<Rightarrow> u64 \<Rightarrow> int" where
  "internal_memcmp 0 m t1 t2 = 0"
| "internal_memcmp (Suc k) m t1 t2 =
     (if m t1 \<noteq> m t2 then (if sint (m t1) < sint (m t2) then - 1 else 1) else internal_memcmp k m (t1 + 1) (t2 + 1))"

primrec copy_back :: "nat \<Rightarrow> memory \<Rightarrow> u64 \<Rightarrow> u64 \<Rightarrow> memory" where
  "copy_back 0 m d s = m"
| "copy_back (Suc i) m d s = copy_back i (m(d + of_nat i := m (s + of_nat i))) d s"

definition internal_memmove :: "memory \<Rightarrow> u64 \<Rightarrow> u64 \<Rightarrow> u64 \<Rightarrow> (u64 \<times> memory) option" where
  "internal_memmove m dest src n =
     (if sint n < 0 then None
      else if dest < src then Some (dest, copy_loop (unat n) 1 m dest src)
      else if src < dest then Some (dest, copy_back (unat n) m dest src)
      else Some (dest, m))"

text \<open>Two words of eight bytes at a time.\<close>

definition internal_bzero_aligned16 :: "memory \<Rightarrow> u64 \<Rightarrow> u64 \<Rightarrow> memory option" where
  "internal_bzero_aligned16 m s n =
     (if (s OR n) AND 15 \<noteq> 0 then None else Some (fold (\<lambda>i m. fill_loop 16 m (s + of_nat (16 * i)) 0) [0..<unat (n div 16)] m))"

section \<open>Zero bytes\<close>

primrec or_bytes :: "nat \<Rightarrow> memory \<Rightarrow> u64 \<Rightarrow> u64 \<Rightarrow> u64" where
  "or_bytes 0 m p all = all"
| "or_bytes (Suc k) m p all = or_bytes k m (p + 1) (all OR scast (m p))"

primrec or_words :: "nat \<Rightarrow> memory \<Rightarrow> u64 \<Rightarrow> u64 \<Rightarrow> u64" where
  "or_words 0 m p all = all"
| "or_words (Suc k) m p all = or_words k m (p + 8) (all OR load_le 8 m p)"

text \<open>How often \<^verbatim>\<open>for (; p < stop; p++)\<close> runs for a pointer to objects of \<open>w\<close> bytes, when the distance is a multiple of \<open>w\<close>.\<close>

definition steps :: "u64 \<Rightarrow> u64 \<Rightarrow> nat \<Rightarrow> nat" where
  "steps p stop w = (if p < stop then unat (stop - p) div w else 0)"

definition mem_is_zero :: "memory \<Rightarrow> u64 \<Rightarrow> u64 \<Rightarrow> bool option" where
  "mem_is_zero m beg sz =
     (if \<not> sz \<le> push_bit 40 1 then None
      else do {
        aligned_beg \<leftarrow> RoundUpTo beg 8;
        let e = beg + sz;
        let aligned_end = RoundDownTo e 8;
        let all = or_bytes (steps beg (min aligned_beg e) 1) m beg 0;
        let all = or_words (steps aligned_beg aligned_end 8) m aligned_beg all;
        let all = (if beg \<le> aligned_end then or_bytes (steps aligned_end e 1) m aligned_end all else all);
        Some (all = 0)
      })"

section \<open>Strings\<close>

definition internal_strnlen :: "memory \<Rightarrow> u64 \<Rightarrow> u64 \<Rightarrow> u64" where
  "internal_strnlen m s maxlen = of_nat (length (takeWhile (\<lambda>i. m (s + of_nat i) \<noteq> 0) [0..<unat maxlen]))"

definition internal_strlcpy :: "memory \<Rightarrow> u64 \<Rightarrow> u64 \<Rightarrow> u64 \<Rightarrow> (u64 \<times> memory) option" where
  "internal_strlcpy m dst src maxlen = do {
     srclen \<leftarrow> strlen m src;
     m' \<leftarrow> (if srclen < maxlen then map_option snd (internal_memmove m dst src (srclen + 1))
           else if maxlen \<noteq> 0 then map_option (\<lambda>(r, m). m(dst + (maxlen - 1) := 0)) (internal_memmove m dst src (maxlen - 1))
           else Some m);
     Some (srclen, m')
   }"

definition internal_strlcat :: "memory \<Rightarrow> u64 \<Rightarrow> u64 \<Rightarrow> u64 \<Rightarrow> (u64 \<times> memory) option" where
  "internal_strlcat m dst src maxlen = do {
     srclen \<leftarrow> strlen m src;
     let dstlen = internal_strnlen m dst maxlen;
     if dstlen = maxlen then Some (maxlen + srclen, m)
     else do {
       m' \<leftarrow> (if srclen < maxlen - dstlen then map_option snd (internal_memmove m (dst + dstlen) src (srclen + 1))
             else map_option (\<lambda>(r, m). m(dst + (maxlen - 1) := 0)) (internal_memmove m (dst + dstlen) src (maxlen - dstlen - 1)));
       Some (dstlen + srclen, m')
     }
   }"

section \<open>Moving overlapping blocks\<close>

lemma copy_back_at:
  assumes "inj_on (\<lambda>i. d + of_nat i) {..<k}" "\<And>i j. j < i \<Longrightarrow> i < k \<Longrightarrow> s + of_nat j \<noteq> d + of_nat i"
  shows "copy_back k m d s a = (if \<exists>i<k. a = d + of_nat i then m (s + (a - d)) else m a)"
  using assms
proof (induction k arbitrary: m)
  case (Suc k)
  let ?m = "m(d + of_nat k := m (s + of_nat k))"
  have i: "inj_on (\<lambda>i. d + of_nat i) {..<k}" using Suc.prems(1) by (rule inj_on_subset) auto
  have ih: "copy_back k ?m d s a = (if \<exists>i<k. a = d + of_nat i then ?m (s + (a - d)) else ?m a)"
    by (rule Suc.IH [OF i]) (use Suc.prems(2) in auto)
  show ?case
  proof (cases "\<exists>i<k. a = d + of_nat i")
    case True
    then obtain i where i': "i < k" "a = d + of_nat i" by blast
    then have "s + (a - d) \<noteq> d + of_nat k" using Suc.prems(2) [of i k] by simp
    then have "copy_back k ?m d s a = m (s + (a - d))" using ih True by simp
    moreover have "\<exists>i<Suc k. a = d + of_nat i" using True less_SucI by blast
    ultimately show ?thesis by simp
  next
    case False
    then have "(\<exists>i<Suc k. a = d + of_nat i) \<longleftrightarrow> a = d + of_nat k" using less_Suc_eq by auto
    then show ?thesis using ih False by simp
  qed
qed simp

lemma unat_add_small: "unat p + i < 2 ^ 64 \<Longrightarrow> unat (p + of_nat i) = unat p + i" for p :: u64
  by (simp add: unat_word_ariths unsigned_of_nat take_bit_nat_eq_self)

lemma inj_small: "unat d + n \<le> 2 ^ 64 \<Longrightarrow> inj_on (\<lambda>i. d + of_nat i) {..<n}" for d :: u64
proof (rule inj_onI)
  fix i j assume a: "unat d + n \<le> 2 ^ 64" "i \<in> {..<n}" "j \<in> {..<n}" and e: "d + of_nat i = d + of_nat j"
  have u: "unat (d + of_nat k) = unat d + k" if "k < n" for k using a(1) that by (intro unat_add_small) simp
  show "i = j" using arg_cong [OF e, of unat] u [of i] u [of j] a(2,3) by simp
qed

lemma copy_forward_at:
  assumes "inj_on (\<lambda>i. d + of_nat i) {..<k}" "\<And>i j. i < j \<Longrightarrow> j < k \<Longrightarrow> s + of_nat j \<noteq> d + of_nat i"
  shows "copy_loop k 1 m d s a = (if \<exists>i<k. a = d + of_nat i then m (s + (a - d)) else m a)"
  using assms
proof (induction k arbitrary: m d s)
  case (Suc k)
  let ?m = "m(d := m s)"
  have shift: "x + 1 + of_nat i = x + of_nat (Suc i)" for x i by (simp add: algebra_simps)
  have "inj_on (\<lambda>i. d + of_nat (Suc i)) {..<k}" using Suc.prems(1) unfolding inj_on_def by (metis Suc_inject Suc_mono lessThan_iff)
  then have i: "inj_on (\<lambda>i. d + 1 + of_nat i) {..<k}" unfolding shift .
  have "copy_loop k 1 ?m (d + 1) (s + 1) a = (if \<exists>i<k. a = d + 1 + of_nat i then ?m (s + 1 + (a - (d + 1))) else ?m a)"
  proof (rule Suc.IH [OF i])
    fix i j assume "i < j" "j < k"
    then show "s + 1 + of_nat j \<noteq> d + 1 + of_nat i" using Suc.prems(2) [of "Suc i" "Suc j"] unfolding shift by simp
  qed
  moreover have "s + 1 + (a - (d + 1)) = s + (a - d)" by simp
  ultimately have ih: "copy_loop (Suc k) 1 m d s a = (if \<exists>i<k. a = d + of_nat (Suc i) then ?m (s + (a - d)) else ?m a)"
    unfolding shift copy_loop.simps by (simp only:)
  have e: "(\<exists>i<Suc k. a = d + of_nat i) \<longleftrightarrow> a = d \<or> (\<exists>i<k. a = d + of_nat (Suc i))" by (simp only: Ex_less_Suc2) simp
  show ?case
  proof (cases "\<exists>i<k. a = d + of_nat (Suc i)")
    case True
    then obtain i where i: "i < k" "a = d + of_nat (Suc i)" by blast
    then have "s + of_nat (Suc i) \<noteq> d + of_nat 0" using Suc.prems(2) [of 0 "Suc i"] by blast
    then have "s + (a - d) \<noteq> d" using i by simp
    then show ?thesis unfolding ih e using True by simp
  next
    case False
    then show ?thesis unfolding ih e by auto
  qed
qed simp

text \<open>Moving copies every byte of the source as it was before, however the blocks overlap.\<close>

theorem memmove_overlap:
  assumes "unat dest + unat n \<le> 2 ^ 64" "unat src + unat n \<le> 2 ^ 64" "0 \<le> sint n"
  shows "\<exists>m'. internal_memmove m dest src n = Some (dest, m') \<and>
    (\<forall>a. m' a = (if \<exists>i<unat n. a = dest + of_nat i then m (src + (a - dest)) else m a))"
proof -
  have u: "unat (p + of_nat i) = unat p + i" if "unat p + unat n \<le> 2 ^ 64" "i < unat n" for p :: u64 and i
    using that by (intro unat_add_small) simp
  note inj = inj_small [OF assms(1)]
  consider "dest < src" | "src < dest" | "src = dest" by (meson less_linear)
  then show ?thesis
  proof cases
    case 1
    have "src + of_nat j \<noteq> dest + of_nat i" if "i < j" "j < unat n" for i j
      using that 1 u [OF assms(1), of i] u [OF assms(2), of j] by (auto simp: word_less_nat_alt dest: arg_cong [of _ _ unat])
    from copy_forward_at [OF inj this, of m] 1 assms(3) show ?thesis by (auto simp: internal_memmove_def)
  next
    case 2
    have "src + of_nat j \<noteq> dest + of_nat i" if "j < i" "i < unat n" for i j
      using that 2 u [OF assms(1), of i] u [OF assms(2), of j] by (auto simp: word_less_nat_alt dest: arg_cong [of _ _ unat])
    from copy_back_at [OF inj this, of m] 2 assms(3) show ?thesis by (auto simp: internal_memmove_def)
  next
    case 3
    then show ?thesis using assms(3) by (simp add: internal_memmove_def)
  qed
qed

section \<open>All bytes are zero\<close>

definition zeros :: "memory \<Rightarrow> nat \<Rightarrow> nat \<Rightarrow> bool" where
  "zeros m x y \<longleftrightarrow> (\<forall>a. x \<le> unat a \<and> unat a < y \<longrightarrow> m a = 0)"

lemma zeros_loop:
  assumes "unat p + k \<le> 2 ^ 64"
  shows "(\<forall>i<k. m (p + of_nat i) = 0) \<longleftrightarrow> zeros m (unat p) (unat p + k)"
proof
  assume z: "\<forall>i<k. m (p + of_nat i) = 0"
  have "m a = 0" if a: "unat p \<le> unat a" "unat a < unat p + k" for a
  proof -
    have "a = p + of_nat (unat a - unat p)" using a(1) by (simp add: of_nat_diff)
    moreover have "unat a - unat p < k" using a by linarith
    ultimately show ?thesis using z by metis
  qed
  then show "zeros m (unat p) (unat p + k)" by (simp add: zeros_def)
next
  assume z: "zeros m (unat p) (unat p + k)"
  have "m (p + of_nat i) = 0" if "i < k" for i
    using z that assms unat_add_small [of p i] by (simp add: zeros_def)
  then show "\<forall>i<k. m (p + of_nat i) = 0" by blast
qed

lemma scast_eq_0: "scast w = (0 :: u64) \<longleftrightarrow> w = 0" for w :: u8
proof
  assume e: "scast w = (0 :: u64)"
  have "ucast (scast w :: u64) = w" by (rule bit_word_eqI) (simp add: bit_simps)
  then show "w = 0" using e by simp
qed simp

lemma or_bytes_zero: "or_bytes k m p all = 0 \<longleftrightarrow> all = 0 \<and> (\<forall>i<k. m (p + of_nat i) = 0)"
proof (induction k arbitrary: p all)
  case (Suc k)
  have "(\<forall>i<Suc k. m (p + of_nat i) = 0) \<longleftrightarrow> m p = 0 \<and> (\<forall>i<k. m (p + 1 + of_nat i) = 0)"
    by (simp only: All_less_Suc2) (simp add: algebra_simps)
  then show ?case using Suc by (simp add: or_eq_0_iff scast_eq_0)
qed simp

lemma load_le_zero: "load_le 8 m p = 0 \<longleftrightarrow> (\<forall>i<8. m (p + of_nat i) = 0)"
proof -
  have z: "push_bit n (ucast w :: u64) = 0 \<longleftrightarrow> w = 0" if "n \<le> 56" for n and w :: u8
  proof -
    have "ucast (drop_bit n (push_bit n (ucast w :: u64))) = w" using that by (intro bit_word_eqI) (auto simp: bit_simps)
    then show ?thesis by auto
  qed
  have "[0..<8] = [0, 1, 2, 3, 4, 5, 6, 7 :: nat]" by code_simp
  moreover have "(\<forall>i<8. P i) \<longleftrightarrow> P 0 \<and> P 1 \<and> P 2 \<and> P 3 \<and> P 4 \<and> P 5 \<and> P 6 \<and> P (7 :: nat)" for P
    by (simp add: eval_nat_numeral All_less_Suc)
      blast
  ultimately show ?thesis using z [of 0] by (simp add: load_le_def or_eq_0_iff z)
qed

lemma or_words_zero: "or_words k m p all = 0 \<longleftrightarrow> all = 0 \<and> (\<forall>i<8 * k. m (p + of_nat i) = 0)"
proof (induction k arbitrary: p all)
  case (Suc k)
  have "(\<forall>i<8 * Suc k. m (p + of_nat i) = 0) \<longleftrightarrow> (\<forall>i<8. m (p + of_nat i) = 0) \<and> (\<forall>i<8 * k. m (p + of_nat (8 + i)) = 0)" (is "?l \<longleftrightarrow> ?r")
  proof
    assume r: ?r
    have "m (p + of_nat i) = 0" if "i < 8 * Suc k" for i
    proof (cases "i < 8")
      case False
      then obtain j where "i = 8 + j" by (meson le_Suc_ex not_less)
      then show ?thesis using r that by auto
    qed (use r in blast)
    then show ?l by blast
  next
    assume l: ?l
    have "m (p + of_nat (8 + i)) = 0" if "i < 8 * k" for i using l that by (metis add_less_cancel_left mult_Suc_right)
    then show ?r using l by auto
  qed
  then show ?case using Suc by (simp add: or_eq_0_iff load_le_zero algebra_simps)
qed simp

lemma steps_zero:
  assumes "w = 1 \<or> w = 8 \<and> 8 dvd unat p \<and> 8 dvd unat stop"
  shows "(\<forall>i<w * steps p stop w. m (p + of_nat i) = 0) \<longleftrightarrow> zeros m (unat p) (unat stop)"
proof (cases "p < stop")
  case True
  then have l: "unat p < unat stop" "unat (stop - p) = unat stop - unat p" by (simp_all add: word_less_nat_alt unat_sub word_le_nat_alt)
  then have "w * steps p stop w = unat stop - unat p" using assms True by (auto simp: steps_def)
  moreover have "unat p + (unat stop - unat p) \<le> 2 ^ 64" using l(1) unsigned_less [of stop, where 'a = nat] by simp
  ultimately show ?thesis using zeros_loop [of p "unat stop - unat p" m] l(1) by simp
next
  case False
  then show ?thesis by (auto simp: steps_def zeros_def word_less_nat_alt)
qed

lemma unat_round: "unat (x AND NOT 7) = unat x div 8 * 8" for x :: u64
proof -
  have "x AND NOT 7 = push_bit 3 (drop_bit 3 x)"
  proof -
    have "(7 :: u64) = mask 3" by (simp add: mask_eq_exp_minus_1)
    show ?thesis unfolding \<open>7 = mask 3\<close> by (rule bit_word_eqI) (auto simp: bit_simps)
  qed
  moreover have "unat (drop_bit 3 x) = unat x div 8" by (simp add: drop_bit_eq_div unat_div)
  moreover have "unat x div 8 * 8 < 2 ^ 64" using unsigned_less [of x, where 'a = nat] by simp
  ultimately show ?thesis by (simp add: push_bit_eq_mult unat_word_ariths)
qed

text \<open>The check for zero bytes, which reads a word at a time between aligned addresses and single bytes before and behind them, says exactly
  whether all bytes of the block are zero.\<close>

theorem mem_is_zero_exact:
  assumes "unat beg + unat sz + 8 \<le> 2 ^ 64" "sz \<le> push_bit 40 1"
  shows "mem_is_zero m beg sz = Some (\<forall>i<unat sz. m (beg + of_nat i) = 0)"
proof -
  define B E AB AE where "B = unat beg" and "E = unat beg + unat sz" and "AB = (unat beg + 7) div 8 * 8" and "AE = (unat beg + unat sz) div 8 * 8"
  have e: "unat (beg + sz) = E" using assms(1) by (simp add: unat_word_ariths E_def)
  obtain ab where ab: "RoundUpTo beg 8 = Some ab" "unat ab = AB"
  proof -
    have b: "beg + 8 - 1 = beg + of_nat 7" by simp
    have "unat (beg + of_nat 7) = unat beg + 7" using assms(1) by (intro unat_add_small) simp
    then have "unat ((beg + 8 - 1) AND NOT 7) = AB" unfolding b unat_round AB_def by (simp only:)
    then show ?thesis by (intro that) (simp add: RoundUpTo_def IsPowerOfTwo_def, simp)
  qed
  obtain ae where ae: "RoundDownTo (beg + sz) 8 = ae" "unat ae = AE"
  proof -
    have "unat ((beg + sz) AND NOT 7) = AE" unfolding unat_round e AE_def E_def ..
    then show ?thesis by (intro that) (simp add: RoundDownTo_def, simp)
  qed
  have mn: "unat (min ab (beg + sz)) = min AB E" using ab(2) e by (simp add: min_def word_le_nat_alt)
  have d: "8 dvd AB" "8 dvd AE" by (simp_all add: AB_def AE_def)
  have st: "(\<forall>i < steps p q 1. m (p + of_nat i) = 0) \<longleftrightarrow> zeros m (unat p) (unat q)" for p q using steps_zero [of 1 p q m] by simp
  have "mem_is_zero m beg sz = Some (zeros m B (min AB E) \<and> zeros m AB AE \<and> (B \<le> AE \<longrightarrow> zeros m AE E))"
    using assms(2) steps_zero [of 8 ab ae m] d ae(2)
    by (simp add: mem_is_zero_def ab ae(1) Let_def or_bytes_zero or_words_zero st [unfolded One_nat_def] mn e B_def word_le_nat_alt)
  moreover have "zeros m B (min AB E) \<and> zeros m AB AE \<and> (B \<le> AE \<longrightarrow> zeros m AE E) \<longleftrightarrow> zeros m B E"
  proof -
    have b: "B \<le> AB" "AB < B + 8" "AE \<le> E" "E < AE + 8" by (simp_all add: B_def AB_def AE_def E_def)
    have c: "AB < AE + 8 \<Longrightarrow> AB \<le> AE" using d by (auto elim!: dvdE)
    have "B \<le> x \<and> x < E \<longleftrightarrow> B \<le> x \<and> x < min AB E \<or> AB \<le> x \<and> x < AE \<or> B \<le> AE \<and> AE \<le> x \<and> x < E" for x using b c by (cases "AB < AE + 8") auto
    then show ?thesis unfolding zeros_def by blast
  qed
  ultimately show ?thesis using zeros_loop [of beg "unat sz" m] assms(1) by (simp add: B_def E_def)
qed

section \<open>Copying of strings\<close>

lemma moved:
  assumes "unat dest + unat n \<le> 2 ^ 64" "unat src + unat n \<le> 2 ^ 64" "unat n < 2 ^ 63"
  obtains m' where "internal_memmove m dest src n = Some (dest, m')" "\<And>i. i < unat n \<Longrightarrow> m' (dest + of_nat i) = m (src + of_nat i)"
    "\<And>a. \<forall>i<unat n. a \<noteq> dest + of_nat i \<Longrightarrow> m' a = m a"
proof -
  have "0 \<le> sint n" using sint_small [OF assms(3)] by simp
  then obtain m' where m': "internal_memmove m dest src n = Some (dest, m')"
      "\<forall>a. m' a = (if \<exists>i<unat n. a = dest + of_nat i then m (src + (a - dest)) else m a)"
    using memmove_overlap [OF assms(1,2)] by blast
  have "m' (dest + of_nat i) = m (src + of_nat i)" if "i < unat n" for i
  proof -
    have "\<exists>j<unat n. dest + of_nat i = dest + of_nat j" using that by blast
    then have "m' (dest + of_nat i) = m (src + (dest + of_nat i - dest))" using m'(2) by meson
    then show ?thesis by simp
  qed
  moreover have "m' a = m a" if "\<forall>i<unat n. a \<noteq> dest + of_nat i" for a using m'(2) that by meson
  ultimately show ?thesis using m'(1) by (intro that)
qed

text \<open>A string is copied up to the size of the destination, which is terminated and not written beyond; the length of the whole
  string is returned.\<close>

theorem strlcpy_bounded:
  assumes "strlen m src = Some k" "maxlen \<noteq> 0" "unat dst + unat maxlen \<le> 2 ^ 64" "unat src + unat k < 2 ^ 64"
    "unat maxlen < 2 ^ 63" "unat k < 2 ^ 62"
  shows "\<exists>m'. internal_strlcpy m dst src maxlen = Some (k, m') \<and>
    (let n = min (unat k) (unat maxlen - 1) in
     (\<forall>i<n. m' (dst + of_nat i) = m (src + of_nat i)) \<and> m' (dst + of_nat n) = 0 \<and> (\<forall>a. (\<forall>i\<le>n. a \<noteq> dst + of_nat i) \<longrightarrow> m' a = m a))"
proof (cases "k < maxlen")
  case True
  then have l: "unat k < unat maxlen" "unat (k + 1) = Suc (unat k)" using assms(6) by (simp_all add: word_less_nat_alt unat_word_ariths)
  obtain m' where m': "internal_memmove m dst src (k + 1) = Some (dst, m')" "\<And>i. i < Suc (unat k) \<Longrightarrow> m' (dst + of_nat i) = m (src + of_nat i)"
      "\<And>a. \<forall>i<Suc (unat k). a \<noteq> dst + of_nat i \<Longrightarrow> m' a = m a"
    using moved [of dst "k + 1" src m] l assms(3,4,6) by auto
  have "m (src + of_nat (unat k)) = 0" using strlen_Some [OF assms(1)] by simp
  then have "m' (dst + of_nat (unat k)) = 0" using m'(2) [of "unat k"] by simp
  moreover have "internal_strlcpy m dst src maxlen = Some (k, m')" using True m'(1) assms(1) by (simp add: internal_strlcpy_def)
  moreover have "min (unat k) (unat maxlen - 1) = unat k" using l(1) by simp
  ultimately show ?thesis using m'(2,3) by (auto simp: less_Suc_eq_le)
next
  case False
  have p: "unat (maxlen - 1) = unat maxlen - 1" using assms(2) by (simp add: unat_minus_one)
  have l: "unat maxlen \<le> unat k" using False by (simp add: word_less_nat_alt)
  obtain m' where m': "internal_memmove m dst src (maxlen - 1) = Some (dst, m')" "\<And>i. i < unat maxlen - 1 \<Longrightarrow> m' (dst + of_nat i) = m (src + of_nat i)"
      "\<And>a. \<forall>i<unat maxlen - 1. a \<noteq> dst + of_nat i \<Longrightarrow> m' a = m a"
  proof (rule moved [of dst "maxlen - 1" src m])
    show "unat dst + unat (maxlen - 1) \<le> 2 ^ 64" "unat src + unat (maxlen - 1) \<le> 2 ^ 64" "unat (maxlen - 1) < 2 ^ 63"
      using p l assms(3-5) by linarith+
  qed (use p that in auto)
  let ?m = "m'(dst + (maxlen - 1) := 0)"
  have "internal_strlcpy m dst src maxlen = Some (k, ?m)" using False m'(1) assms(1,2) by (simp add: internal_strlcpy_def)
  moreover have n: "min (unat k) (unat maxlen - 1) = unat maxlen - 1" using l by simp
  moreover have e: "dst + of_nat (unat maxlen - 1) = dst + (maxlen - 1)"
  proof -
    have "of_nat (unat (maxlen - 1)) = maxlen - 1" by simp
    then show ?thesis by (simp only: p)
  qed
  moreover have "?m (dst + of_nat i) = m (src + of_nat i)" if "i < unat maxlen - 1" for i
  proof -
    have "inj_on (\<lambda>i. dst + of_nat i) {..<unat maxlen}" using inj_small assms(3) by blast
    moreover have "i \<in> {..<unat maxlen}" "unat maxlen - 1 \<in> {..<unat maxlen}" "i \<noteq> unat maxlen - 1" using that by auto
    ultimately have "dst + of_nat i \<noteq> dst + of_nat (unat maxlen - 1)" unfolding inj_on_def by blast
    then show ?thesis using m'(2) that unfolding e by simp
  qed
  moreover have "?m a = m a" if "\<forall>i\<le>unat maxlen - 1. a \<noteq> dst + of_nat i" for a
    using that m'(3) [of a] that [rule_format, of "unat maxlen - 1"] unfolding e by auto
  ultimately show ?thesis by (auto simp: Let_def)
qed

section \<open>Samples\<close>

definition sample_bytes :: memory where
  "sample_bytes = (\<lambda>_. 0)(16 := 72, 17 := 105, 18 := 33)"

theorem mem_is_zero_exact_witness: "mem_is_zero (\<lambda>_. 0) 19 30 = Some True \<and> mem_is_zero sample_bytes 3 14 = Some False"
proof -
  have "\<not> (\<forall>i<unat (14 :: u64). sample_bytes (3 + of_nat i) = 0)"
  proof
    assume "\<forall>i<unat (14 :: u64). sample_bytes (3 + of_nat i) = 0"
    moreover have "13 < unat (14 :: u64)" by simp
    ultimately have "sample_bytes (3 + of_nat 13) = 0" by blast
    then show False by (simp add: sample_bytes_def)
  qed
  moreover have "(30 :: u64) \<le> push_bit 40 1" "(14 :: u64) \<le> push_bit 40 1" by simp_all
  ultimately show ?thesis using mem_is_zero_exact [of 19 30 "\<lambda>_. 0"] mem_is_zero_exact [of 3 14 sample_bytes] by simp
qed
end
