(* ===== verification/Spec2Isabelle.thy ===== *)
theory Spec2Isabelle
  imports Copy_Diff Taint_Program Dfsan_Wrapping Angora_Ids Angora_Clang Unfold_Branch Ck_Alloc Pin_Log San_Flags San_Printf San_Libc
begin

text \<open>
  A verification development for ParmeSan, a fuzzer directed by sanitizer checks.  The root theory holds this overview and
  the theorem about the diff tool as a whole; every other theory is one component.

  \<^bold>\<open>The program.\<close>  ParmeSan compiles a program several times with \<^verbatim>\<open>angora-clang\<close>: as it is, and with taint
  tracking.  \<^verbatim>\<open>llvm-diff-parmesan\<close> compares the program with and without sanitizer checks and writes the comparisons that
  guard the changed blocks as targets.  The passes insert edge counters and reports of comparisons, and code that carries a
  label for every value and every byte of memory.  At run time the wrappers of the input functions give each input byte a
  label, the runtime combines labels in a store of sets of input offsets, and the reports tell the fuzzer which input
  bytes decide which comparison.

  \<^bold>\<open>Target selection\<close> (\<^verbatim>\<open>tools/llvm-diff-parmesan\<close>).
  \<^item> \<open>LLVM_IR\<close>: the data of LLVM that the tool and the passes read.
  \<^item> \<open>Priority_Queue\<close>: the binary heap of \<^verbatim>\<open>DifferenceEngine.cpp\<close>; locale of orders, permutation and heap lemmas.
  \<^item> \<open>Diff_Log\<close>, \<open>Difference_Engine\<close>, \<open>Block_Diff\<close>, \<open>Module_Diff\<close>: the log builders, the comparison of values and
    instructions, the edit distance over two blocks, the work list over pairs of blocks and the whole module, with
    \<^verbatim>\<open>llvm-diff.cpp\<close>.  The comparison terminates, compares no block twice, finds a minimal alignment of two blocks, and
    reports are exactly the messages made inside contexts.
  \<^item> \<open>Copy_Diff\<close>: a module and a renamed copy of it have no difference.
  \<^item> \<open>ID_Assigner\<close>, \<open>ID_Output\<close>: the numbering of blocks, the search for the comparisons they depend on, and the files
    written.  Numbers are injective, the search terminates and is exact.
  \<^item> \<open>Diff_Consumer\<close>: the consumer that turns messages into output and targets.

  \<^bold>\<open>Labels\<close> (\<^verbatim>\<open>runtime/src\<close>, \<^verbatim>\<open>llvm_mode/dfsan_rt/dfsan\<close>, \<^verbatim>\<open>llvm_mode/external_lib\<close>).
  \<^item> \<open>Tag_Set\<close>, \<open>Tag_Trie\<close>: the label store of \<^verbatim>\<open>tag_set.rs\<close> and its wrappers, and its refinement of finite sets of offsets.
  \<^item> \<open>Memory\<close>, \<open>Dfsan_Runtime\<close>: the address space, the layout of \<^verbatim>\<open>dfsan_platform.h\<close> and the operations of \<^verbatim>\<open>dfsan.cc\<close>.
  \<^item> \<open>Dfsan_Custom\<close>, \<open>Dfsan_Format\<close>: the wrappers of the C library in \<^verbatim>\<open>dfsan_custom.cc\<close>.
  \<^item> \<open>Dfsan_Contract\<close>: a locale with the laws of the label operations; every wrapper keeps what they keep.  It is
    interpreted twice: all labels are nodes of the store, and without input all labels are zero.
  \<^item> \<open>Taint_Sources\<close>, \<open>Taint_Program\<close>: \<^verbatim>\<open>io_func.c\<close>, \<^verbatim>\<open>stdalloc.c\<close>, \<^verbatim>\<open>zlib_func.c\<close>, the tables of \<^verbatim>\<open>ffds.rs\<close> and
    \<^verbatim>\<open>heapmap.rs\<close>; programs as sequences of calls, and the extended contract.

  \<^bold>\<open>Support of the runtime\<close> (\<^verbatim>\<open>llvm_mode/dfsan_rt/sanitizer_common\<close>).
  \<^item> \<open>San_Flags\<close>: the parser of options, files of options, the tables of flags and their initialisation in \<^verbatim>\<open>dfsan.cc\<close>.  Settings survive
    printing and parsing, the initialisation ends unless files include each other in a cycle, and too many unknown flags end the program.
  \<^item> \<open>San_Printf\<close>: formatted output; buffers receive a prefix of a reference text, and messages are printed as a whole.
  \<^item> \<open>San_Libc\<close>: functions on memory; moving overlapping blocks, the check for zero bytes, copying with a limit.

  \<^bold>\<open>Taint instrumentation\<close> (\<^verbatim>\<open>llvm_mode/pass/DFSanPass.cc\<close>).
  \<^item> \<open>Dfsan_Types\<close>: function types, attributes, the ABI list.  \<open>Dfsan_Code\<close>: the inserted code and what it does when it runs.
    \<open>Dfsan_Func\<close>, \<open>Dfsan_Visit\<close>, \<open>Dfsan_Module\<close>: the state of the pass in a function, the visitor, and \<^verbatim>\<open>runOnModule\<close>.
  \<^item> \<open>Dfsan_Emit\<close>: the inserted code for addresses, unions, loads and stores does what the operations of the runtime do.
  \<^item> \<open>Dfsan_Flow\<close>: an invariant of the tables of the pass, kept by every visitor; the shadow of an instruction stands for
    exactly the sources of its operands.
  \<^item> \<open>Dfsan_Calls\<close>, \<open>Dfsan_Wrapping\<close>: calls of wrappers are well typed, labels of arguments arrive, and calls of functions
    that are not instrumented reach their wrappers.

  \<^bold>\<open>Branch instrumentation and the driver\<close> (\<^verbatim>\<open>llvm_mode/pass\<close>, \<^verbatim>\<open>llvm_mode/compiler\<close>).
  \<^item> \<open>Emitted_Code\<close>, \<open>Angora_Pass\<close>: the code that \<^verbatim>\<open>AngoraPass.cc\<close> inserts and the pass itself.  \<open>Angora_Coverage\<close>: the counters
    stay inside the map, count every edge and keep the context.  \<open>Angora_Ids\<close>: the search for an unused identifier ends.
  \<^item> \<open>Unfold_Branch\<close>: \<^verbatim>\<open>UnfoldBranchPass.cc\<close>, whose markers the other pass removes.
  \<^item> \<open>Angora_Clang\<close>: the compiler driver; its array is never overrun and holds the command line of a reference definition.
    \<open>Ck_Alloc\<close>: the allocator \<^verbatim>\<open>alloc_inl.h\<close> that it uses, on programs as sequences of calls.

  \<^bold>\<open>Log of tracked conditions\<close> (\<^verbatim>\<open>runtime/src\<close>, \<^verbatim>\<open>pin_mode\<close>, \<^verbatim>\<open>fuzzer/src/track\<close>).
  \<^item> \<open>Track_Log\<close>: the reports of \<^verbatim>\<open>track.rs\<close> and the logger of \<^verbatim>\<open>logger.rs\<close>.  In every run the log lists no condition on
    a value twice, at most sixteen occurrences of a comparison in a context, and the offsets of all their labels.
  \<^item> \<open>Pin_Track\<close>: the handlers of the tracker for Intel Pin, its log and the buffers that are written to the file.  \<open>Pin_Log\<close>:
    the reader of the fuzzer; with the record of the tracker it inverts the file, with its own it misreads it.

  \<^bold>\<open>Conventions.\<close>  Pointers and label cells are 64-bit words, labels 32-bit words, and arithmetic on them wraps around.
  \<open>None\<close> is undefined behaviour, a failed assertion or an abort; results that the program distinguishes are sums or
  datatypes of their own.  What is not in the repository (LLVM, the C library, the kernel, the environment) is an argument of
  the definitions that use it.  Loops over addresses that may not end are \<open>partial_function (option)\<close> (\<open>first_index\<close>,
  \<open>unused_id\<close>) with a theorem on when they return; the work list and the walk over the label store take fuel, with a
  theorem that the fuel given there is enough.  The nesting of files of options is bounded by a depth, as the stack bounds it.

  \<^bold>\<open>Not modelled.\<close>  The fuzzer and the fast runtime are written in Rust and are mostly scheduling, shared memory, processes and
  files; only the reader of the tracker's file is modelled.  The support library of compiler-rt and the interception library
  are vendored from LLVM; only what the taint runtime calls is modelled, since allocators, symbolizers, stack traces and interceptors are
  not used by it.  Of the client of Intel Pin, the choice of instructions
  to instrument goes through the Pin API, which is not part of the repository; the handlers that are called are modelled.
  Of the modelled passes, alignment, branch weights, debug output and the attributes of declared runtime functions are left out.
\<close>

section \<open>From two modules to the fuzzer's targets\<close>

lemma block_ids_blocks: "(\<Union>V \<in> X. block_ids ids V) = {id_of ids b |b. Block b \<in> X}"
proof -
  have "x \<in> block_ids ids V \<longleftrightarrow> (\<exists>b. V = Block b \<and> x = id_of ids b)" for x V by (cases V) auto
  then show ?thesis by auto
qed

text \<open>C1. The tool as a whole: when the numbering pass and the engine run without undefined behaviour, it prints
  its report and exits, with 1 exactly when a message was made inside a context, and the targets it writes
  are the comparisons that claim a left block in whose context a difference was reported.\<close>

theorem tool_targets:
  assumes "penv_ok E" "runOnModule_ids L fl = Some ids" "engine_diff_module None L R = Done es"
  shows "\<exists>c. diff_main E fl True [] (Some L) (Some R) =
      Some \<lparr>exit_code = (if trace_reports [] es = {} then 0 else 1), err_text = out (printStats ids c),
            targets_json = Some (printStatsJson ids (printStats ids c))\<rparr> \<and>
    set (diff_cmps ids (printStats ids c)) =
      {e. \<exists>bbs b. (e, bbs) \<in> set (CmpMap ids) \<and> Block b \<in> trace_reports [] es \<and> id_of ids b \<in> set bbs}"
proof -
  obtain c where c: "diff_modules E ids [] L R = Some c" "set (DiffIdSet c) = reported_ids ids [] es"
      "Differences c \<longleftrightarrow> trace_reports [] es \<noteq> {}"
    using consume_engine_trace [OF assms(1) engine_diff_module_nested [OF assms(3)], of ids] assms(3)
    by (auto simp: diff_modules_def feed_def)
  have p: "Differences (printStats ids c) = Differences c" "DiffIdSet (printStats ids c) = DiffIdSet c"
    by (simp_all add: printStats_def put_def)
  have "set (diff_cmps ids (printStats ids c)) =
      {e. \<exists>bbs b. (e, bbs) \<in> set (CmpMap ids) \<and> Block b \<in> trace_reports [] es \<and> id_of ids b \<in> set bbs}"
    unfolding diff_cmps_set p c(2) reported_ids_def block_ids_blocks by blast
  moreover have "diff_main E fl True [] (Some L) (Some R) =
      Some \<lparr>exit_code = (if trace_reports [] es = {} then 0 else 1), err_text = out (printStats ids c),
            targets_json = Some (printStatsJson ids (printStats ids c))\<rparr>"
    using c(1,3) p(1) by (simp add: diff_main_def assms(2) hadDifferences_def Let_def)
  ultimately show ?thesis by blast
qed

definition sample_ids :: id_state where
  "sample_ids = the (runOnModule_ids sample_module True)"

lemma sample_ids: "runOnModule_ids sample_module True = Some sample_ids"
proof -
  have "runOnModule_ids sample_module True \<noteq> None" by code_simp
  then show ?thesis by (auto simp: sample_ids_def)
qed

theorem tool_targets_witness:
  "\<exists>c. diff_main sample_env True True [] (Some sample_module) (Some patched_module) =
      Some \<lparr>exit_code = (if trace_reports [] sample_trace = {} then 0 else 1),
            err_text = out (printStats sample_ids c),
            targets_json = Some (printStatsJson sample_ids (printStats sample_ids c))\<rparr> \<and>
    set (diff_cmps sample_ids (printStats sample_ids c)) =
      {e. \<exists>bbs b. (e, bbs) \<in> set (CmpMap sample_ids) \<and> Block b \<in> trace_reports [] sample_trace \<and>
          id_of sample_ids b \<in> set bbs}"
  by (rule tool_targets [OF sample_env_ok sample_ids sample_trace])

end
